(* ===== verification/Prelude.thy ===== *)
theory Prelude
  imports Main "HOL-Library.Word" "HOL-Library.Sublist" "HOL-Library.Char_ord"
    "HOL-Library.List_Lexorder" "HOL-Library.Product_Lexorder"
begin

text \<open>
  Shared vocabulary of the development: the parts of the Go language and its
  standard library that the gateway's sources rely on, and generic lemmas about them.

  \<^item> Times are integers, nanoseconds on the Unix time line, so that
    \<^verbatim>\<open>t.Add(d)\<close>, \<^verbatim>\<open>t.Before(u)\<close>, \<^verbatim>\<open>t.After(u)\<close> are \<open>t + d\<close>, \<open>t < u\<close>,
    \<open>t > u\<close>; \<open>zero_time\<close> is the zero \<^verbatim>\<open>time.Time\<close>; \<open>time_sub\<close> is \<^verbatim>\<open>t.Sub(u)\<close>,
    which saturates at the limits of a 64-bit duration.
  \<^item> Strings and byte slices are \<^typ>\<open>string\<close>, a list of bytes. The functions of
    package \<^verbatim>\<open>strings\<close>, \<^verbatim>\<open>net.SplitHostPort\<close>, \<^verbatim>\<open>crypto/subtle\<close> and the base32 and
    base64 encodings used by the sources follow.
  \<^item> A Go map that is only looked up and filtered is a map \<open>'k \<rightharpoonup> 'v\<close>; one that is
    also iterated over is an association list whose order is the iteration order.
  \<^item> A Go \<^verbatim>\<open>int\<close> is \<^typ>\<open>int\<close>; where a sum can leave the 64-bit range the wrap-around
    is written out with \<open>wrap64\<close>.
\<close>

named_theorems gw_defs \<open>definitions of the components, unfolded in their proofs\<close>

subsection \<open>Time and machine integers\<close>

type_synonym time = int
type_synonym duration = int

definition second :: duration where
  "second = 1000000000"

definition zero_time :: time where
  "zero_time = - 62135596800 * second"

definition max_int64 :: int where
  "max_int64 = 2 ^ 63 - 1"

definition min_int64 :: int where
  "min_int64 = - (2 ^ 63)"

definition wrap64 :: "int \<Rightarrow> int" where
  "wrap64 x = (x + 2 ^ 63) mod 2 ^ 64 - 2 ^ 63"

definition time_sub :: "time \<Rightarrow> time \<Rightarrow> duration" where
  "time_sub a b = max min_int64 (min max_int64 (a - b))"

lemma wrap64_id: "min_int64 \<le> x \<Longrightarrow> x \<le> max_int64 \<Longrightarrow> wrap64 x = x"
  by (simp add: wrap64_def min_int64_def max_int64_def)

lemma wrap64_range: "min_int64 \<le> wrap64 x \<and> wrap64 x \<le> max_int64"
proof -
  have "0 \<le> (x + 2 ^ 63) mod 2 ^ 64" and "(x + 2 ^ 63) mod 2 ^ 64 < 2 ^ 64"
    by simp_all
  then show ?thesis
    unfolding wrap64_def min_int64_def max_int64_def by simp
qed

lemma time_sub_mono: "a \<le> a' \<Longrightarrow> time_sub a b \<le> time_sub a' b"
  by (auto simp: time_sub_def)

lemma time_sub_exact:
  "min_int64 \<le> a - b \<Longrightarrow> a - b \<le> max_int64 \<Longrightarrow> time_sub a b = a - b"
  by (simp add: time_sub_def)

subsection \<open>Maps\<close>

definition map_filter :: "('k \<Rightarrow> 'v \<Rightarrow> bool) \<Rightarrow> ('k \<rightharpoonup> 'v) \<Rightarrow> ('k \<rightharpoonup> 'v)" where
  "map_filter P m = (\<lambda>k. case m k of None \<Rightarrow> None | Some v \<Rightarrow> if P k v then Some v else None)"

lemma map_filter_Some [simp]: "map_filter P m k = Some v \<longleftrightarrow> m k = Some v \<and> P k v"
  by (auto simp: map_filter_def split: option.splits)

lemma map_filter_None [simp]: "map_filter P m k = None \<longleftrightarrow> (\<forall>v. m k = Some v \<longrightarrow> \<not> P k v)"
  by (auto simp: map_filter_def split: option.splits)

lemma dom_map_filter: "dom (map_filter P m) \<subseteq> dom m"
  by (auto simp: dom_def)

subsection \<open>Association lists as Go maps\<close>

text \<open>Assignment to a key of a Go map held as an association list.\<close>

fun alist_put :: "'k \<Rightarrow> 'v \<Rightarrow> ('k \<times> 'v) list \<Rightarrow> ('k \<times> 'v) list" where
  "alist_put k v [] = [(k, v)]"
| "alist_put k v ((k', v') # xs) = (if k = k' then (k, v) # xs else (k', v') # alist_put k v xs)"

definition alist_del :: "'k \<Rightarrow> ('k \<times> 'v) list \<Rightarrow> ('k \<times> 'v) list" where
  "alist_del k xs = filter (\<lambda>(k', v). k' \<noteq> k) xs"

lemma map_of_alist_put: "map_of (alist_put k v xs) = (map_of xs)(k \<mapsto> v)"
  by (induction k v xs rule: alist_put.induct) (auto simp: fun_eq_iff)

lemma fst_set_alist_put: "fst ` set (alist_put k v xs) = insert k (fst ` set xs)"
  by (induction k v xs rule: alist_put.induct) auto

lemma distinct_alist_put: "distinct (map fst xs) \<Longrightarrow> distinct (map fst (alist_put k v xs))"
  by (induction k v xs rule: alist_put.induct) (auto simp: fst_set_alist_put image_iff) 

lemma set_alist_put: "set (alist_put k v xs) \<subseteq> insert (k, v) (set xs)"
  by (induction k v xs rule: alist_put.induct) auto

lemma distinct_alist_filter: "distinct (map fst xs) \<Longrightarrow> distinct (map fst (filter P xs))"
  by (rule distinct_map_filter)

lemma map_of_alist_filter:
  "distinct (map fst xs) \<Longrightarrow>
     map_of (filter (\<lambda>(k, v). P k v) xs) k
       = (case map_of xs k of None \<Rightarrow> None | Some v \<Rightarrow> if P k v then Some v else None)"
  by (induction xs) (force split: option.splits dest: map_of_SomeD)+

lemma map_of_alist_del: "map_of (alist_del k xs) = (map_of xs)(k := None)"
  by (induction xs) (auto simp: alist_del_def fun_eq_iff)

lemma set_alist_del: "set (alist_del k xs) \<subseteq> set xs"
  by (auto simp: alist_del_def)

lemma distinct_alist_del: "distinct (map fst xs) \<Longrightarrow> distinct (map fst (alist_del k xs))"
  by (simp add: alist_del_def distinct_alist_filter)

lemma set_list_map_filter: "set (List.map_filter f xs) = {y. \<exists>x\<in>set xs. f x = Some y}"
  by (induction xs) (auto simp: List.map_filter_simps split: option.splits)

subsection \<open>Package strings\<close>

definition has_prefix :: "string \<Rightarrow> string \<Rightarrow> bool" where
  "has_prefix s p \<longleftrightarrow> prefix p s"

definition has_suffix :: "string \<Rightarrow> string \<Rightarrow> bool" where
  "has_suffix s p \<longleftrightarrow> suffix p s"

fun index_byte :: "string \<Rightarrow> char \<Rightarrow> nat option" where
  "index_byte [] c = None"
| "index_byte (x # xs) c = (if x = c then Some 0 else map_option Suc (index_byte xs c))"

fun last_index_byte :: "string \<Rightarrow> char \<Rightarrow> nat option" where
  "last_index_byte [] c = None"
| "last_index_byte (x # xs) c =
     (case last_index_byte xs c of
        Some i \<Rightarrow> Some (Suc i)
      | None \<Rightarrow> if x = c then Some 0 else None)"

lemma index_byte_None: "index_byte s c = None \<longleftrightarrow> c \<notin> set s"
  by (induction s) auto

lemma index_byte_Some:
  "index_byte s c = Some i \<Longrightarrow> i < length s \<and> s ! i = c \<and> c \<notin> set (take i s)"
  by (induction s arbitrary: i) (auto split: if_splits)

lemma index_byte_split:
  assumes "index_byte s c = Some i"
  shows "s = take i s @ c # drop (Suc i) s" and "c \<notin> set (take i s)"
  using index_byte_Some[OF assms] id_take_nth_drop[of i s] by simp_all

lemma index_byte_append: "c \<notin> set a \<Longrightarrow> index_byte (a @ c # b) c = Some (length a)"
  by (induction a) auto

text \<open>\<^verbatim>\<open>strings.SplitN(s, sep, n)\<close> for a one-byte separator and positive \<open>n\<close>.\<close>

fun splitN :: "nat \<Rightarrow> char \<Rightarrow> string \<Rightarrow> string list" where
  "splitN 0 c s = []"
| "splitN (Suc 0) c s = [s]"
| "splitN (Suc (Suc n)) c s =
     (case index_byte s c of
        None \<Rightarrow> [s]
      | Some i \<Rightarrow> take i s # splitN (Suc n) c (drop (Suc i) s))"

lemma splitN_Cons:
  "c \<notin> set a \<Longrightarrow> splitN (Suc (Suc n)) c (a @ c # b) = a # splitN (Suc n) c b"
  by (simp add: index_byte_append)

lemma splitN_last: "c \<notin> set a \<Longrightarrow> splitN (Suc (Suc n)) c a = [a]"
  by (simp add: index_byte_None [THEN iffD2])

lemma splitN_length: "length (splitN n c s) \<le> n"
  by (induction n c s rule: splitN.induct) (auto split: option.splits)

text \<open>
  Case conversion. \<^verbatim>\<open>strings.ToLower\<close> and \<^verbatim>\<open>strings.ToUpper\<close> map the ASCII letters of an
  ASCII string; on a string with a byte outside ASCII they consult the Unicode tables, which
  are the parameter \<open>uni\<close>.
\<close>

definition is_ascii :: "string \<Rightarrow> bool" where
  "is_ascii s \<longleftrightarrow> list_all (\<lambda>c. of_char c < (128::nat)) s"

definition ascii_lower :: "char \<Rightarrow> char" where
  "ascii_lower c =
     (if 65 \<le> (of_char c :: nat) \<and> (of_char c :: nat) \<le> 90 then char_of ((of_char c :: nat) + 32) else c)"

definition ascii_upper :: "char \<Rightarrow> char" where
  "ascii_upper c =
     (if 97 \<le> (of_char c :: nat) \<and> (of_char c :: nat) \<le> 122 then char_of ((of_char c :: nat) - 32) else c)"

definition to_lower :: "(string \<Rightarrow> string) \<Rightarrow> string \<Rightarrow> string" where
  "to_lower uni s = (if is_ascii s then map ascii_lower s else uni s)"

definition to_upper :: "(string \<Rightarrow> string) \<Rightarrow> string \<Rightarrow> string" where
  "to_upper uni s = (if is_ascii s then map ascii_upper s else uni s)"

lemma ascii_upper_lower:
  "\<not> (97 \<le> (of_char c :: nat) \<and> (of_char c :: nat) \<le> 122) \<Longrightarrow> ascii_upper (ascii_lower c) = c"
  by (auto simp: ascii_upper_def ascii_lower_def)

lemma ascii_lower_idem [simp]: "ascii_lower (ascii_lower c) = ascii_lower c"
  by (auto simp: ascii_lower_def)

lemma is_ascii_lower: "is_ascii s \<Longrightarrow> is_ascii (map ascii_lower s)"
  by (auto simp: is_ascii_def list_all_iff ascii_lower_def)

text \<open>
  \<^verbatim>\<open>strings.TrimSpace\<close>: the white space code points of Go's \<^verbatim>\<open>unicode.IsSpace\<close>, each as
  its UTF-8 bytes, are removed from both ends.
\<close>

definition space_seqs :: "string list" where
  "space_seqs =
     [[CHR 0x09], [CHR 0x0A], [CHR 0x0B], [CHR 0x0C], [CHR 0x0D], [CHR 0x20],
      [CHR 0xC2, CHR 0x85], [CHR 0xC2, CHR 0xA0], [CHR 0xE1, CHR 0x9A, CHR 0x80]]
     @ map (\<lambda>b. [CHR 0xE2, CHR 0x80, char_of (b::nat)]) ([128..<139] @ [168, 169, 175])
     @ [[CHR 0xE2, CHR 0x81, CHR 0x9F], [CHR 0xE3, CHR 0x80, CHR 0x80]]"

function trim_left_seqs :: "string list \<Rightarrow> string \<Rightarrow> string" where
  "trim_left_seqs qs s =
     (case find (\<lambda>q. q \<noteq> [] \<and> prefix q s) qs of
        None \<Rightarrow> s
      | Some q \<Rightarrow> trim_left_seqs qs (drop (length q) s))"
  by pat_completeness auto
termination
  by (relation "measure (\<lambda>(qs, s). length s)")
     (auto simp: find_Some_iff prefix_def)

declare trim_left_seqs.simps [simp del]

definition trim_space :: "string \<Rightarrow> string" where
  "trim_space s =
     rev (trim_left_seqs (map rev space_seqs) (rev (trim_left_seqs space_seqs s)))"

text \<open>
  \<^verbatim>\<open>net.SplitHostPort\<close>, the host part only; \<open>None\<close> is the error result.
\<close>

definition split_host_port :: "string \<Rightarrow> string option" where
  "split_host_port hp =
     (case last_index_byte hp CHR '':'' of
        None \<Rightarrow> None
      | Some i \<Rightarrow>
          if hd hp = CHR ''['' then
            (case index_byte hp CHR '']'' of
               None \<Rightarrow> None
             | Some e \<Rightarrow>
                 if Suc e = length hp then None
                 else if Suc e \<noteq> i then None
                 else if CHR ''['' \<in> set (drop 1 hp) \<or> CHR '']'' \<in> set (drop (Suc e) hp) then None
                 else Some (take (e - 1) (drop 1 hp)))
          else
            (let host = take i hp in
             if CHR '':'' \<in> set host then None
             else if CHR ''['' \<in> set hp \<or> CHR '']'' \<in> set hp then None
             else Some host))"

text \<open>\<^verbatim>\<open>hex.EncodeToString\<close> and the decimal digits of a number.\<close>

definition hex_digit :: "nat \<Rightarrow> char" where
  "hex_digit n = ''0123456789abcdef'' ! n"

definition hex_encode :: "string \<Rightarrow> string" where
  "hex_encode s = concat (map (\<lambda>c. [hex_digit (of_char c div 16), hex_digit (of_char c mod 16)]) s)"

fun digits :: "nat \<Rightarrow> string" where
  "digits n = (if n < 10 then [char_of (48 + n)] else digits (n div 10) @ [char_of (48 + n mod 10)])"

declare digits.simps [simp del]

subsection \<open>Package crypto/subtle and buffers\<close>

text \<open>\<^verbatim>\<open>out := make([]byte, n); copy(out, src)\<close>: zero padding or truncation to \<open>n\<close> bytes.\<close>

definition pad_bytes :: "nat \<Rightarrow> string \<Rightarrow> string" where
  "pad_bytes n src = take n src @ replicate (n - length src) (CHR 0x00)"

definition constant_time_compare :: "string \<Rightarrow> string \<Rightarrow> int" where
  "constant_time_compare a b =
     (if length a \<noteq> length b then 0 else if a = b then 1 else 0)"

lemma constant_time_compare_1 [simp]: "constant_time_compare a b = 1 \<longleftrightarrow> a = b"
  by (auto simp: constant_time_compare_def)

lemma constant_time_compare_alt: "constant_time_compare a b = (if a = b then 1 else 0)"
  by (simp add: constant_time_compare_def)

lemma length_pad_bytes [simp]: "length (pad_bytes n s) = n"
  by (simp add: pad_bytes_def)

lemma pad_bytes_id [simp]: "length s = n \<Longrightarrow> pad_bytes n s = s"
  by (simp add: pad_bytes_def)

lemma pad_bytes_long: "n \<le> length s \<Longrightarrow> pad_bytes n s = take n s"
  by (simp add: pad_bytes_def)

lemma pad_bytes_eq_nul_free:
  assumes "CHR 0x00 \<notin> set ref" and "pad_bytes (length ref) s = ref"
  shows "prefix ref s"
proof (cases "length ref \<le> length s")
  case True
  with assms(2) show ?thesis
    by (metis append_take_drop_id pad_bytes_long prefixI)
next
  case False
  then have "CHR 0x00 \<in> set (pad_bytes (length ref) s)"
    by (simp add: pad_bytes_def)
  with assms show ?thesis by simp
qed

lemma pad_bytes_prefix: "prefix ref s \<Longrightarrow> pad_bytes (length ref) s = ref"
  by (auto simp: pad_bytes_def prefix_def)

text \<open>Two strings without NUL bytes that fit the buffer are equal when their paddings are.\<close>

lemma takeWhile_pad_bytes:
  "CHR 0x00 \<notin> set s \<Longrightarrow> length s \<le> n \<Longrightarrow> takeWhile (\<lambda>c. c \<noteq> CHR 0x00) (pad_bytes n s) = s"
  by (subst pad_bytes_def, subst takeWhile_append2) (auto simp: takeWhile_replicate)

lemma pad_bytes_inj:
  assumes "CHR 0x00 \<notin> set a" "length a \<le> n" "CHR 0x00 \<notin> set b" "length b \<le> n"
  shows "pad_bytes n a = pad_bytes n b \<longleftrightarrow> a = b"
  using assms by (metis takeWhile_pad_bytes)

end
