(* ===== verification/Encoding.thy ===== *)
theory Encoding
  imports Prelude
begin

text \<open>
  The base32 and base64 encodings of the standard library, as the gateway uses them:
  \<^verbatim>\<open>base32.StdEncoding.WithPadding(NoPadding)\<close> for onion addresses and
  \<^verbatim>\<open>base64.RawURLEncoding\<close> for session ids and CSRF tokens. Both cut the big-endian bit
  string of the bytes into groups (of 5 and 6 bits), fill the last group with zero bits and map
  each group to a letter of the alphabet. A byte is a number below 256.
\<close>

subsection \<open>Bit strings\<close>

primrec bits_be :: "nat \<Rightarrow> nat \<Rightarrow> bool list" where
  "bits_be 0 n = []"
| "bits_be (Suc k) n = bits_be k (n div 2) @ [odd n]"

definition val_be :: "bool list \<Rightarrow> nat" where
  "val_be bs = foldl (\<lambda>a b. 2 * a + of_bool b) 0 bs"

function chunks :: "nat \<Rightarrow> 'a list \<Rightarrow> 'a list list" where
  "chunks k xs = (if k = 0 \<or> xs = [] then [] else take k xs # chunks k (drop k xs))"
  by pat_completeness auto
termination
  by (relation "measure (\<lambda>(k, xs). length xs)") auto

declare chunks.simps [simp del]

lemma val_be_Nil [simp]: "val_be [] = 0"
  by (simp add: val_be_def)

lemma val_be_snoc [simp]: "val_be (bs @ [b]) = 2 * val_be bs + of_bool b"
  by (simp add: val_be_def)

lemma length_bits_be [simp]: "length (bits_be k n) = k"
  by (induction k arbitrary: n) auto

lemma val_bits_be: "val_be (bits_be k n) = n mod 2 ^ k"
proof (induction k arbitrary: n)
  case (Suc k)
  have "n mod 2 ^ Suc k = 2 * (n div 2 mod 2 ^ k) + n mod 2"
    by (simp add: mod_mult2_eq)
  then show ?case by (simp add: Suc.IH mod2_eq_if)
qed simp

lemma val_be_bound: "val_be bs < 2 ^ length bs"
  by (induction bs rule: rev_induct) auto

lemma bits_val_be: "bits_be (length bs) (val_be bs) = bs"
  by (induction bs rule: rev_induct) auto

lemma chunks_Nil [simp]: "chunks k [] = []"
  by (simp add: chunks.simps)

lemma chunks_append: "0 < k \<Longrightarrow> length x = k \<Longrightarrow> chunks k (x @ xs) = x # chunks k xs"
  by (subst chunks.simps) auto

lemma chunks_concat:
  "0 < k \<Longrightarrow> list_all (\<lambda>x. length x = k) xss \<Longrightarrow> chunks k (concat xss) = xss"
  by (induction xss) (auto simp: chunks_append)

lemma concat_chunks: "0 < k \<Longrightarrow> concat (chunks k xs) = xs"
  by (induction k xs rule: chunks.induct) (subst chunks.simps, auto)

lemma chunks_lengths:
  "0 < k \<Longrightarrow> k dvd length xs \<Longrightarrow> list_all (\<lambda>x. length x = k) (chunks k xs)"
proof (induction k xs rule: chunks.induct)
  case (1 k xs)
  show ?case
  proof (cases "xs = []")
    case False
    with "1.prems" have "k \<le> length xs" by (auto intro: dvd_imp_le)
    with "1" False show ?thesis by (subst chunks.simps) auto
  qed simp
qed

lemma length_chunks: "0 < k \<Longrightarrow> k dvd length xs \<Longrightarrow> length (chunks k xs) = length xs div k"
proof -
  assume k: "0 < k" "k dvd length xs"
  have "length (concat xss) = k * length xss" if "list_all (\<lambda>x. length x = k) xss" for xss :: "'a list list"
    using that by (induction xss) auto
  from this[OF chunks_lengths[OF k]] k show ?thesis by (simp add: concat_chunks)
qed

subsection \<open>Encoding and decoding\<close>

definition fill_bits :: "nat \<Rightarrow> bool list \<Rightarrow> bool list" where
  "fill_bits k bs = bs @ replicate ((k - length bs mod k) mod k) False"

definition encode_raw :: "string \<Rightarrow> nat \<Rightarrow> nat list \<Rightarrow> string" where
  "encode_raw alphabet k bytes =
     map (\<lambda>g. alphabet ! val_be g) (chunks k (fill_bits k (concat (map (bits_be 8) bytes))))"

definition decode_raw :: "string \<Rightarrow> nat \<Rightarrow> string \<Rightarrow> nat list option" where
  "decode_raw alphabet k s =
     (if list_all (\<lambda>c. c \<in> set alphabet) s
      then (let bs = concat (map (\<lambda>c. bits_be k (the (index_byte alphabet c))) s)
            in Some (map val_be (chunks 8 (take (8 * (length bs div 8)) bs))))
      else None)"

definition base32_alphabet :: string where
  "base32_alphabet = ''ABCDEFGHIJKLMNOPQRSTUVWXYZ234567''"

definition base64url_alphabet :: string where
  "base64url_alphabet = ''ABCDEFGHIJKLMNOPQRSTUVWXYZabcdefghijklmnopqrstuvwxyz0123456789-_''"

definition base32_encode :: "nat list \<Rightarrow> string" where
  "base32_encode = encode_raw base32_alphabet 5"

definition base32_decode :: "string \<Rightarrow> nat list option" where
  "base32_decode = decode_raw base32_alphabet 5"

definition base64url_encode :: "nat list \<Rightarrow> string" where
  "base64url_encode = encode_raw base64url_alphabet 6"

lemma dvd_fill_bits: "0 < k \<Longrightarrow> k dvd length (fill_bits k bs)"
proof -
  assume k: "0 < k"
  have "(length bs + (k - length bs mod k) mod k) mod k = 0"
    using k by (metis le_add_diff_inverse mod_add_left_eq mod_add_right_eq mod_le_divisor mod_self)
  then show ?thesis by (simp add: fill_bits_def mod_eq_0_iff_dvd)
qed

lemma fill_bits_short: "0 < k \<Longrightarrow> (k - length bs mod k) mod k < k"
  by simp

lemma index_byte_nth: "distinct xs \<Longrightarrow> i < length xs \<Longrightarrow> index_byte xs (xs ! i) = Some i"
  by (induction xs arbitrary: i) (auto simp: less_Suc_eq_0_disj nth_Cons')

lemma concat_bits_bytes:
  "list_all (\<lambda>b. b < 256) bytes \<Longrightarrow> map val_be (map (bits_be 8) bytes) = bytes"
  by (induction bytes) (auto simp: val_bits_be)

lemma length_concat_bits [simp]: "length (concat (map (bits_be k) bytes)) = k * length bytes"
  by (induction bytes) auto

lemma groups_of_encode:
  assumes "0 < k" "distinct alphabet" "length alphabet = 2 ^ k" "list_all (\<lambda>g. length g = k) gs"
  shows "concat (map (\<lambda>c. bits_be k (the (index_byte alphabet c))) (map (\<lambda>g. alphabet ! val_be g) gs))
         = concat gs"
    and "list_all (\<lambda>c. c \<in> set alphabet) (map (\<lambda>g. alphabet ! val_be g) gs)"
proof -
  have 1: "bits_be k (the (index_byte alphabet (alphabet ! val_be g))) = g"
    and 2: "alphabet ! val_be g \<in> set alphabet" if "length g = k" for g
    using that assms(2,3) val_be_bound[of g] bits_val_be[of g] by (simp_all add: index_byte_nth)
  show "concat (map (\<lambda>c. bits_be k (the (index_byte alphabet c))) (map (\<lambda>g. alphabet ! val_be g) gs))
         = concat gs"
    using assms(4) by (induction gs) (auto simp: 1)
  show "list_all (\<lambda>c. c \<in> set alphabet) (map (\<lambda>g. alphabet ! val_be g) gs)"
    using assms(4) by (induction gs) (auto simp: 2)
qed

lemma decode_encode_raw:
  assumes k: "0 < k" "k \<le> 8" and alph: "distinct alphabet" "length alphabet = 2 ^ k"
    and bytes: "list_all (\<lambda>b. b < 256) bytes"
  shows "decode_raw alphabet k (encode_raw alphabet k bytes) = Some bytes"
proof -
  let ?bs = "concat (map (bits_be 8) bytes)"
  let ?gs = "chunks k (fill_bits k ?bs)"
  have gs: "list_all (\<lambda>g. length g = k) ?gs"
    by (rule chunks_lengths[OF k(1) dvd_fill_bits[OF k(1)]])
  have "length (fill_bits k ?bs) div 8 = length bytes"
    using fill_bits_short[OF k(1), of ?bs] k(2) by (simp add: fill_bits_def)
  moreover have "take (8 * length bytes) (fill_bits k ?bs) = ?bs"
    by (simp add: fill_bits_def)
  moreover have "chunks 8 ?bs = map (bits_be 8) bytes"
    by (rule chunks_concat) (auto simp: list_all_iff)
  ultimately show ?thesis
    using groups_of_encode[OF k(1) alph gs] concat_bits_bytes[OF bytes]
    by (simp add: decode_raw_def encode_raw_def concat_chunks[OF k(1)] Let_def o_def)
qed

lemma length_encode_raw:
  assumes "0 < k"
  shows "length (encode_raw alphabet k bytes) = (8 * length bytes + (k - 1)) div k"
proof -
  let ?m = "8 * length bytes"
  have "length (encode_raw alphabet k bytes) = (?m + (k - ?m mod k) mod k) div k"
    using length_chunks[OF assms dvd_fill_bits[OF assms, of "concat (map (bits_be 8) bytes)"]]
    by (simp add: encode_raw_def fill_bits_def)
  also have "\<dots> = (?m + (k - 1)) div k"
  proof (cases "?m mod k = 0")
    case True
    then obtain q where "?m = k * q" by (auto simp: mod_eq_0_iff_dvd)
    moreover have "(k * q + (k - 1)) div k = q"
      using assms by (intro div_nat_eqI) auto
    ultimately show ?thesis using assms by simp
  next
    case False
    define q r where "q = ?m div k" and "r = ?m mod k"
    have m: "?m = k * q + r" and r: "0 < r" "r < k"
      using False assms by (simp_all add: q_def r_def)
    have "?m + (k - r) mod k = k * Suc q" using m r by simp
    moreover have "?m + (k - 1) = k * Suc q + (r - 1)" using m r by simp
    moreover have "(k * Suc q + (r - 1)) div k = Suc q"
      using r by (intro div_nat_eqI) auto
    ultimately show ?thesis using assms by (simp only: r_def) simp
  qed
  finally show ?thesis .
qed

lemma set_encode_raw:
  assumes "0 < k" "length alphabet = 2 ^ k"
  shows "set (encode_raw alphabet k bytes) \<subseteq> set alphabet"
proof -
  have "list_all (\<lambda>g. length g = k) (chunks k (fill_bits k (concat (map (bits_be 8) bytes))))"
    by (rule chunks_lengths[OF assms(1) dvd_fill_bits[OF assms(1)]])
  moreover have "alphabet ! val_be g \<in> set alphabet" if "length g = k" for g
    using that assms(2) val_be_bound[of g] by simp
  ultimately show ?thesis by (auto simp: encode_raw_def list_all_iff)
qed

lemma base32_roundtrip:
  "list_all (\<lambda>b. b < 256) bytes \<Longrightarrow> base32_decode (base32_encode bytes) = Some bytes"
  unfolding base32_decode_def base32_encode_def
  by (rule decode_encode_raw) (simp_all add: base32_alphabet_def)

lemma length_base32_encode: "length (base32_encode bytes) = (8 * length bytes + 4) div 5"
  by (simp add: base32_encode_def length_encode_raw)

lemma set_base32_encode: "set (base32_encode bytes) \<subseteq> set base32_alphabet"
  unfolding base32_encode_def by (rule set_encode_raw) (simp_all add: base32_alphabet_def)

lemma length_base64url_encode: "length (base64url_encode bytes) = (8 * length bytes + 5) div 6"
  by (simp add: base64url_encode_def length_encode_raw)

lemma set_base64url_encode: "set (base64url_encode bytes) \<subseteq> set base64url_alphabet"
  unfolding base64url_encode_def by (rule set_encode_raw) (simp_all add: base64url_alphabet_def)

lemma base64url_nul_free: "CHR 0x00 \<notin> set (base64url_encode bytes)"
  using set_base64url_encode[of bytes] by (auto simp: base64url_alphabet_def)

end
