(* ===== verification/Onion.thy ===== *)
theory Onion
  imports Encoding
begin

text \<open>
  Onion v3 addresses, \<^verbatim>\<open>internal/shared/onion.go\<close>. The SHA3-256 digest of
  \<^verbatim>\<open>golang.org/x/crypto/sha3\<close> and the Unicode tables behind \<^verbatim>\<open>strings.ToLower\<close> and
  \<^verbatim>\<open>strings.ToUpper\<close> are parameters; the only fact used about the digest is that it
  is a list of 32 bytes.
\<close>

datatype onion_error =
  ErrOnionEmpty | ErrOnionSuffix | ErrOnionLength | ErrOnionNotLowercase
| ErrOnionBadBase32 | ErrOnionV2Deprecated | ErrOnionVersion | ErrOnionChecksum

definition onionSuffix :: string where
  "onionSuffix = ''.onion''"

definition onion_checksum_input :: "nat list \<Rightarrow> nat list" where
  "onion_checksum_input pubkey = map of_char ''.onion checksum'' @ pubkey @ [3]"

definition onion_char :: "char \<Rightarrow> bool" where
  "onion_char c \<longleftrightarrow>
     97 \<le> (of_char c :: nat) \<and> (of_char c :: nat) \<le> 122
     \<or> 50 \<le> (of_char c :: nat) \<and> (of_char c :: nat) \<le> 55"

definition ValidateOnionV3 ::
  "(nat list \<Rightarrow> nat list) \<Rightarrow> (string \<Rightarrow> string) \<Rightarrow> (string \<Rightarrow> string) \<Rightarrow> string \<Rightarrow> onion_error option"
where
  "ValidateOnionV3 sha3 uni_lower uni_upper addr =
     (if addr = [] then Some ErrOnionEmpty
      else if \<not> has_suffix addr onionSuffix then Some ErrOnionSuffix
      else (let pre = take (length addr - length onionSuffix) addr in
        if pre = [] then Some ErrOnionLength
        else if length pre = 16 \<or> length pre = 22 then Some ErrOnionV2Deprecated
        else if length pre \<noteq> 56 then Some ErrOnionLength
        else if to_lower uni_lower pre \<noteq> pre then Some ErrOnionNotLowercase
        else if \<not> list_all onion_char pre then Some ErrOnionBadBase32
        else (case base32_decode (to_upper uni_upper pre) of
            None \<Rightarrow> Some ErrOnionBadBase32
          | Some decoded \<Rightarrow>
              if length decoded \<noteq> 35 then Some ErrOnionLength
              else if decoded ! 34 \<noteq> 3 then Some ErrOnionVersion
              else (let pubkey = take 32 decoded;
                        gotChecksum = take 2 (drop 32 decoded);
                        sum = sha3 (onion_checksum_input pubkey)
                    in if sum ! 0 \<noteq> gotChecksum ! 0 \<or> sum ! 1 \<noteq> gotChecksum ! 1
                       then Some ErrOnionChecksum else None))))"

definition BuildOnionV3 ::
  "(nat list \<Rightarrow> nat list) \<Rightarrow> (string \<Rightarrow> string) \<Rightarrow> nat list \<Rightarrow> string option"
where
  "BuildOnionV3 sha3 uni_lower pubkey =
     (if length pubkey \<noteq> 32 then None
      else (let sum = sha3 (onion_checksum_input pubkey);
                payload = pubkey @ [sum ! 0, sum ! 1, 3]
            in Some (to_lower uni_lower (base32_encode payload) @ onionSuffix)))"

lemmas [gw_defs] = ValidateOnionV3_def BuildOnionV3_def onionSuffix_def

subsection \<open>Alphabet and letter case\<close>

lemma base32_alphabet_chars:
  assumes "c \<in> set base32_alphabet"
  shows "of_char c < (128::nat) \<and> onion_char (ascii_lower c)
     \<and> ascii_lower (ascii_lower c) = ascii_lower c \<and> ascii_upper (ascii_lower c) = c"
proof -
  have "list_all (\<lambda>c. of_char c < (97::nat) \<and> onion_char (ascii_lower c)) base32_alphabet"
    by (simp add: base32_alphabet_def ascii_lower_def onion_char_def)
  with assms have "of_char c < (97::nat)" "onion_char (ascii_lower c)"
    by (simp_all add: list_all_iff)
  then show ?thesis by (simp add: ascii_upper_lower)
qed

lemma onion_char_cases:
  assumes "onion_char c"
  shows "c \<in> set (map ascii_lower base32_alphabet)"
proof -
  let ?n = "of_char c :: nat"
  have "?n \<in> set ([97..<123] @ [50..<56])"
    unfolding set_append set_upt using assms by (auto simp: onion_char_def)
  then have "c \<in> set (map char_of ([97..<123] @ [50..<56 :: nat]))"
    by (metis char_of_char image_eqI image_set)
  also have "map char_of ([97..<123] @ [50..<56 :: nat]) = map ascii_lower base32_alphabet"
    by (simp add: base32_alphabet_def ascii_lower_def upt_conv_Cons char_of_def bit_0)
  finally show ?thesis .
qed

lemma onion_char_upper:
  "onion_char c \<Longrightarrow> of_char c < (128::nat) \<and> ascii_upper c \<in> set base32_alphabet
     \<and> ascii_lower (ascii_upper c) = c"
  using onion_char_cases[of c] base32_alphabet_chars
  by (auto simp: onion_char_def)

lemma lower_encode:
  "to_lower uni (base32_encode bs) = map ascii_lower (base32_encode bs)"
  using set_base32_encode[of bs] base32_alphabet_chars
  by (auto simp: to_lower_def is_ascii_def list_all_iff)

lemma encoded_chars:
  assumes "s = map ascii_lower (base32_encode bs)"
  shows "to_lower ul s = s" and "list_all onion_char s" and "to_upper uu s = base32_encode bs"
proof -
  have c: "c \<in> set (base32_encode bs) \<Longrightarrow> c \<in> set base32_alphabet" for c
    using set_base32_encode[of bs] by blast
  show "list_all onion_char s"
    using c base32_alphabet_chars by (auto simp: assms list_all_iff)
  then have "is_ascii s" using onion_char_upper by (auto simp: is_ascii_def list_all_iff)
  then show "to_lower ul s = s" and "to_upper uu s = base32_encode bs"
    using c base32_alphabet_chars by (auto simp: to_lower_def to_upper_def assms intro!: map_idI)
qed

lemma onion_chars_case:
  assumes "list_all onion_char s"
  shows "to_upper uu s = map ascii_upper s" and "set (map ascii_upper s) \<subseteq> set base32_alphabet"
    and "map ascii_lower (map ascii_upper s) = s"
  using assms onion_char_upper
  by (auto simp: to_upper_def is_ascii_def list_all_iff intro!: map_idI)

subsection \<open>Decoding determines the text\<close>

lemma encode_decode_raw:
  assumes k: "0 < k" "k \<le> 8" "k dvd 8 * m" and alph: "distinct alphabet"
    "length alphabet = 2 ^ k" and s: "set s \<subseteq> set alphabet" "k * length s = 8 * m"
  shows "\<exists>bytes. decode_raw alphabet k s = Some bytes \<and> length bytes = m
           \<and> list_all (\<lambda>b. b < 256) bytes \<and> encode_raw alphabet k bytes = s"
proof -
  let ?idx = "\<lambda>c. the (index_byte alphabet c)"
  define bs where "bs = concat (map (\<lambda>c. bits_be k (?idx c)) s)"
  have idx: "?idx c < 2 ^ k \<and> alphabet ! ?idx c = c" if "c \<in> set s" for c
  proof -
    from that s(1) have "index_byte alphabet c \<noteq> None" by (auto simp: index_byte_None)
    then obtain i where "index_byte alphabet c = Some i" by blast
    with alph(2) index_byte_Some[OF this] show ?thesis by simp
  qed
  have len: "length bs = 8 * m"
    unfolding bs_def s(2)[symmetric] by (induction s) auto
  have ch8: "list_all (\<lambda>x. length x = 8) (chunks 8 bs)"
    by (rule chunks_lengths) (simp_all add: len)
  define bytes where "bytes = map val_be (chunks 8 bs)"
  have "bits_be 8 (val_be x) = x" if "x \<in> set (chunks 8 bs)" for x
    using that ch8 bits_val_be[of x] by (simp add: list_all_iff)
  then have "map (bits_be 8) bytes = chunks 8 bs"
    by (simp add: bytes_def map_idI)
  then have bits: "concat (map (bits_be 8) bytes) = bs"
    by (simp add: concat_chunks)
  have "chunks k bs = map (\<lambda>c. bits_be k (?idx c)) s"
    unfolding bs_def by (rule chunks_concat) (auto simp: k list_all_iff)
  moreover have "fill_bits k bs = bs"
    using k(1,3) by (simp add: fill_bits_def len)
  ultimately have "encode_raw alphabet k bytes = s"
    using idx by (simp add: encode_raw_def bits val_bits_be map_idI)
  moreover have "length bytes = m"
    using length_chunks[of 8 bs] by (simp add: bytes_def len)
  moreover have "list_all (\<lambda>b. b < 256) bytes"
  proof -
    have "val_be x < 256" if "x \<in> set (chunks 8 bs)" for x
      using that ch8 val_be_bound[of x] by (simp add: list_all_iff)
    then show ?thesis by (simp add: bytes_def list_all_iff)
  qed
  moreover have "decode_raw alphabet k s = Some bytes"
    using s(1) by (auto simp: decode_raw_def bytes_def bs_def[symmetric] len list_all_iff Let_def)
  ultimately show ?thesis by blast
qed

lemma base32_decode_56:
  assumes "set s \<subseteq> set base32_alphabet" and "length s = 56"
  shows "\<exists>bytes. base32_decode s = Some bytes \<and> length bytes = 35
           \<and> list_all (\<lambda>b. b < 256) bytes \<and> base32_encode bytes = s"
  unfolding base32_decode_def base32_encode_def
  by (rule encode_decode_raw) (use assms in \<open>simp_all add: base32_alphabet_def\<close>)

lemma length_35_split:
  "length bs = 35 \<Longrightarrow> bs = take 32 bs @ [bs ! 32, bs ! 33, bs ! 34]"
proof -
  assume len: "length bs = 35"
  then have "drop 32 bs = [bs ! 32, bs ! 33, bs ! 34]"
    using Cons_nth_drop_Suc[of 32 bs] Cons_nth_drop_Suc[of 33 bs] Cons_nth_drop_Suc[of 34 bs]
    by simp
  then show ?thesis by (metis append_take_drop_id)
qed

subsection \<open>Validation accepts exactly the built addresses\<close>

lemma take_suffix_removed: "take (length (p @ onionSuffix) - length onionSuffix) (p @ onionSuffix) = p"
  by simp

lemma validate_built:
  assumes pk: "length pk = 32" "list_all (\<lambda>b. b < 256) pk"
    and sha: "\<And>m. length (sha3 m) = 32 \<and> list_all (\<lambda>b. b < 256) (sha3 m)"
    and addr: "BuildOnionV3 sha3 ul pk = Some addr"
  shows "ValidateOnionV3 sha3 ul' uu addr = None"
proof -
  let ?sum = "sha3 (onion_checksum_input pk)"
  let ?payload = "pk @ [?sum ! 0, ?sum ! 1, 3]"
  let ?pre = "map ascii_lower (base32_encode ?payload)"
  have addr: "addr = ?pre @ onionSuffix"
    using pk(1) addr by (simp add: BuildOnionV3_def Let_def lower_encode)
  have len: "length ?pre = 56"
    using pk(1) by (simp add: length_base32_encode)
  have "list_all (\<lambda>b. b < 256) ?payload"
    using pk(2) sha[of "onion_checksum_input pk"] by (simp add: list_all_iff)
  then have dec: "base32_decode (to_upper uu ?pre) = Some ?payload"
    using encoded_chars(3)[OF refl] by (simp add: base32_roundtrip)
  have "?pre \<noteq> []" using len by auto
  then show ?thesis
    using pk(1) len dec encoded_chars(1,2)[where bs = ?payload, OF refl]
    unfolding ValidateOnionV3_def addr take_suffix_removed Let_def
    by (simp add: has_suffix_def suffix_def nth_append)
qed

lemma validate_is_built:
  assumes ok: "ValidateOnionV3 sha3 ul uu addr = None"
  shows "\<exists>pk. length pk = 32 \<and> list_all (\<lambda>b. b < 256) pk \<and> BuildOnionV3 sha3 ul' pk = Some addr"
proof -
  from ok have suff: "suffix onionSuffix addr"
    by (auto simp: ValidateOnionV3_def has_suffix_def split: if_splits)
  then obtain pre where addr: "addr = pre @ onionSuffix" by (auto simp: suffix_def)
  from ok have pre: "length pre = 56" "list_all onion_char pre"
    unfolding ValidateOnionV3_def addr take_suffix_removed Let_def by (auto split: if_splits)
  note up = onion_chars_case[OF pre(2)]
  from base32_decode_56[OF up(2)] pre(1) obtain bs where
    bs: "base32_decode (to_upper uu pre) = Some bs" "length bs = 35"
      "list_all (\<lambda>b. b < 256) bs" "base32_encode bs = map ascii_upper pre"
    by (auto simp: up(1))
  let ?pk = "take 32 bs"
  let ?sum = "sha3 (onion_checksum_input ?pk)"
  have "bs ! 34 = 3 \<and> ?sum ! 0 = bs ! 32 \<and> ?sum ! 1 = bs ! 33"
    using ok bs pre unfolding ValidateOnionV3_def addr take_suffix_removed Let_def
    by (auto split: if_splits)
  then have "bs = ?pk @ [?sum ! 0, ?sum ! 1, 3]"
    using length_35_split[OF bs(2)] by simp
  then have "BuildOnionV3 sha3 ul' ?pk = Some (to_lower ul' (base32_encode bs) @ onionSuffix)"
    using bs(2) by (simp add: BuildOnionV3_def Let_def)
  moreover have "to_lower ul' (base32_encode bs) = pre"
    using lower_encode[of ul' bs] up(3) by (simp only: bs(4))
  moreover have "list_all (\<lambda>b. b < 256) ?pk"
    using bs(3) by (auto simp: list_all_iff dest: in_set_takeD)
  ultimately show ?thesis using bs(2) addr by (intro exI[of _ ?pk]) simp
qed

text \<open>
  C9 (functional). \<^verbatim>\<open>ValidateOnionV3\<close> accepts an address exactly when it is the text that
  \<^verbatim>\<open>BuildOnionV3\<close> produces for some 32-byte public key, whatever the digest function
  with 32-byte results and the Unicode tables are.
\<close>

theorem onion_accepts_exactly_built:
  assumes "\<And>m. length (sha3 m) = 32 \<and> list_all (\<lambda>b. b < 256) (sha3 m)"
  shows "ValidateOnionV3 sha3 ul uu addr = None \<longleftrightarrow>
     (\<exists>pk. length pk = 32 \<and> list_all (\<lambda>b. b < 256) pk \<and> BuildOnionV3 sha3 ul pk = Some addr)"
  using validate_is_built validate_built assms by blast

definition toy_sha3 :: "nat list \<Rightarrow> nat list" where
  "toy_sha3 m = sum_list m mod 256 # length m mod 256 # replicate 30 0"

theorem onion_accepts_exactly_built_witness:
  "ValidateOnionV3 toy_sha3 id id
     (''aeaqcaibaeaqcaibaeaqcaibaeaqcaibaeaqcaibaeaqcaibaea6omad'' @ ''.onion'') = None"
proof -
  have sha: "length (toy_sha3 m) = 32 \<and> list_all (\<lambda>b. b < 256) (toy_sha3 m)" for m
    by (simp add: toy_sha3_def list_all_iff)
  have "BuildOnionV3 toy_sha3 id (replicate 32 1)
      = Some (''aeaqcaibaeaqcaibaeaqcaibaeaqcaibaeaqcaibaeaqcaibaea6omad'' @ ''.onion'')"
    by code_simp
  then show ?thesis
    by (subst onion_accepts_exactly_built[of toy_sha3, OF sha])
       (rule exI[of _ "replicate 32 1"], simp add: list_all_iff)
qed

end
