(* ===== verification/Expiry.thy ===== *)
theory Expiry
  imports Prelude
begin

text \<open>
  Interfaces shared by the stores whose entries expire: the admin session store, the
  lockout table, the negative cache and the TTL blocklist. Each of them answers
  queries against the current time and has a background pass (\<^verbatim>\<open>gcOnce\<close>, \<^verbatim>\<open>Sweep\<close>) that
  drops what has expired. The locale \<open>sweepable\<close> states what a client relies on: a pass is
  invisible to every later query. The locale \<open>reclaiming\<close> adds that a pass keeps
  exactly the live entries.
\<close>

locale sweepable =
  fixes inv :: "'s \<Rightarrow> bool"
    and live :: "'s \<Rightarrow> time \<Rightarrow> 'k \<Rightarrow> bool"
    and sweep :: "'s \<Rightarrow> time \<Rightarrow> 's"
  assumes inv_sweep: "inv s \<Longrightarrow> inv (sweep s t)"
    and live_antimono: "inv s \<Longrightarrow> t \<le> u \<Longrightarrow> live s u k \<Longrightarrow> live s t k"
    and live_sweep: "inv s \<Longrightarrow> t \<le> u \<Longrightarrow> live (sweep s t) u k \<longleftrightarrow> live s u k"
begin

lemma inv_sweeps: "inv s \<Longrightarrow> inv (fold (\<lambda>t s. sweep s t) ts s)"
  by (induction ts arbitrary: s) (auto simp: inv_sweep)

lemma live_sweeps:
  "inv s \<Longrightarrow> list_all (\<lambda>t. t \<le> u) ts \<Longrightarrow> live (fold (\<lambda>t s. sweep s t) ts s) u k \<longleftrightarrow> live s u k"
  by (induction ts arbitrary: s) (auto simp: live_sweep inv_sweep)

lemma expired_stays_expired:
  assumes "inv s" and "\<not> live s t k" and "t \<le> u" and "list_all (\<lambda>t. t \<le> u) ts"
  shows "\<not> live (fold (\<lambda>t s. sweep s t) ts s) u k"
  using assms live_antimono by (auto simp: live_sweeps)

end

locale reclaiming = sweepable inv live sweep
  for inv :: "'s \<Rightarrow> bool" and live :: "'s \<Rightarrow> time \<Rightarrow> 'k \<Rightarrow> bool"
    and sweep :: "'s \<Rightarrow> time \<Rightarrow> 's" +
  fixes stored :: "'s \<Rightarrow> 'k \<Rightarrow> bool"
  assumes stored_sweep: "inv s \<Longrightarrow> stored (sweep s t) k \<longleftrightarrow> live s t k"
begin

lemma stored_sweeps_last:
  assumes "inv s" and "list_all (\<lambda>u. u \<le> t) ts"
  shows "stored (fold (\<lambda>t s. sweep s t) (ts @ [t]) s) k \<longleftrightarrow> live s t k"
  using assms by (simp add: stored_sweep live_sweeps inv_sweeps)

end

end
