(* ===== verification/Lockout.thy ===== *)
theory Lockout
  imports Expiry
begin

text \<open>
  The admin gate's failure lockout, \<^verbatim>\<open>internal/admin/lockout.go\<close>: a sliding window of failure
  times per IP hash, a soft backoff and a hard ban. The mutex makes every operation
  atomic, so each is a function on the whole table; the clock \<^verbatim>\<open>nowFn\<close> is an argument.
  The abstract specification \<open>spec_state\<close> decides the state of an IP hash from the plain
  history of its failure times; the last section shows that the table with
  its compaction implements it, and the interpretation of \<open>sweepable\<close> that the
  garbage collector is invisible.
\<close>

subsection \<open>Model\<close>

datatype lockout_state = StateAllowed | StateSoftBackoff | StateHardBanned

record lockout_config =
  SoftThreshold :: int
  SoftWindow :: duration
  SoftBackoff :: duration
  HardThreshold :: int
  HardWindow :: duration
  HardBan :: duration

record lockout_entry =
  failures :: "time list"
  softUntil :: time
  hardUntil :: time

record lockout =
  lo_cfg :: lockout_config
  lo_entries :: "string \<rightharpoonup> lockout_entry"

definition new_lockout :: "lockout_config \<Rightarrow> lockout" where
  "new_lockout cfg = \<lparr>lo_cfg = cfg, lo_entries = Map.empty\<rparr>"

definition empty_entry :: lockout_entry where
  "empty_entry = \<lparr>failures = [], softUntil = zero_time, hardUntil = zero_time\<rparr>"

definition state_locked :: "lockout_entry \<Rightarrow> time \<Rightarrow> lockout_state" where
  "state_locked e now =
     (if hardUntil e > now then StateHardBanned
      else if softUntil e > now then StateSoftBackoff
      else StateAllowed)"

definition add_failure :: "lockout_config \<Rightarrow> lockout_entry \<Rightarrow> time \<Rightarrow> lockout_entry" where
  "add_failure cfg e now =
     (let fs = filter (\<lambda>ts. \<not> ts < now - HardWindow cfg) (failures e @ [now]);
          hardCount = int (length fs);
          softCount = int (length (filter (\<lambda>ts. \<not> ts < now - SoftWindow cfg) fs));
          hu = (if HardThreshold cfg > 0 \<and> hardCount \<ge> HardThreshold cfg
                then now + HardBan cfg else hardUntil e);
          su = (if SoftThreshold cfg > 0 \<and> softCount \<ge> SoftThreshold cfg
                then (if now + SoftBackoff cfg > softUntil e then now + SoftBackoff cfg
                      else softUntil e)
                else softUntil e)
      in \<lparr>failures = fs, softUntil = su, hardUntil = hu\<rparr>)"

definition record_failure :: "lockout \<Rightarrow> string \<Rightarrow> time \<Rightarrow> lockout_state \<times> lockout" where
  "record_failure l ipHash now =
     (let e = (case lo_entries l ipHash of None \<Rightarrow> empty_entry | Some e \<Rightarrow> e);
          e' = add_failure (lo_cfg l) e now
      in (state_locked e' now, l\<lparr>lo_entries := (lo_entries l)(ipHash \<mapsto> e')\<rparr>))"

definition record_success :: "lockout \<Rightarrow> string \<Rightarrow> lockout" where
  "record_success l ipHash = l\<lparr>lo_entries := (lo_entries l)(ipHash := None)\<rparr>"

definition check_lockout :: "lockout \<Rightarrow> string \<Rightarrow> time \<Rightarrow> lockout_state" where
  "check_lockout l ipHash now =
     (case lo_entries l ipHash of None \<Rightarrow> StateAllowed | Some e \<Rightarrow> state_locked e now)"

definition gc_entry :: "lockout_config \<Rightarrow> time \<Rightarrow> lockout_entry \<Rightarrow> lockout_entry option" where
  "gc_entry cfg now e =
     (if hardUntil e > now \<or> softUntil e > now then Some e
      else (let keep = filter (\<lambda>ts. \<not> ts < now - HardWindow cfg) (failures e)
            in if keep = [] then None else Some (e\<lparr>failures := keep\<rparr>)))"

definition lockout_gc_once :: "lockout \<Rightarrow> time \<Rightarrow> lockout" where
  "lockout_gc_once l now =
     l\<lparr>lo_entries := (\<lambda>k. Option.bind (lo_entries l k) (gc_entry (lo_cfg l) now))\<rparr>"

lemmas [gw_defs] = new_lockout_def empty_entry_def state_locked_def add_failure_def
  record_failure_def record_success_def check_lockout_def gc_entry_def lockout_gc_once_def

subsection \<open>Specification from the history of failures\<close>

text \<open>
  \<open>hist\<close> lists the failure times of one IP hash, oldest first. A failure trips a
  threshold when enough failures up to and including it fall into its window; a ban lasts for
  its duration after the failure that tripped.
\<close>

definition trips :: "int \<Rightarrow> duration \<Rightarrow> time list \<Rightarrow> bool" where
  "trips threshold window hist \<longleftrightarrow>
     hist \<noteq> [] \<and> 0 < threshold
     \<and> threshold \<le> int (length (filter (\<lambda>ts. last hist - window \<le> ts) hist))"

definition banned_at :: "int \<Rightarrow> duration \<Rightarrow> duration \<Rightarrow> time list \<Rightarrow> time \<Rightarrow> bool" where
  "banned_at threshold window ban hist now \<longleftrightarrow>
     (\<exists>h. prefix h hist \<and> trips threshold window h \<and> now < last h + ban)"

text \<open>Failures older than the hard window are forgotten, so that a soft window that is longer counts as if it were as long as the hard one.\<close>

definition soft_span :: "lockout_config \<Rightarrow> duration" where
  "soft_span cfg = min (SoftWindow cfg) (HardWindow cfg)"

definition spec_state :: "lockout_config \<Rightarrow> time list \<Rightarrow> time \<Rightarrow> lockout_state" where
  "spec_state cfg hist now =
     (if banned_at (HardThreshold cfg) (HardWindow cfg) (HardBan cfg) hist now then StateHardBanned
      else if banned_at (SoftThreshold cfg) (soft_span cfg) (SoftBackoff cfg) hist now
      then StateSoftBackoff
      else StateAllowed)"

lemma banned_at_Nil [simp]: "\<not> banned_at th w b [] now"
  by (auto simp: banned_at_def trips_def)

lemma banned_at_snoc:
  "banned_at th w b (hist @ [t]) now \<longleftrightarrow>
     banned_at th w b hist now \<or> trips th w (hist @ [t]) \<and> now < t + b"
  by (auto simp: banned_at_def)

text \<open>
  The invariant that links an entry to the history \<open>hist\<close>: the stored failures are those
  inside the hard window of the last one, and the two deadlines answer every query not before
  the last failure as the specification does.
\<close>

definition entry_inv :: "lockout_config \<Rightarrow> time list \<Rightarrow> lockout_entry \<Rightarrow> bool" where
  "entry_inv cfg hist e \<longleftrightarrow>
     failures e = (if hist = [] then [] else filter (\<lambda>ts. last hist - HardWindow cfg \<le> ts) hist)
     \<and> (\<forall>now. zero_time \<le> now \<longrightarrow> (hist \<noteq> [] \<longrightarrow> last hist \<le> now) \<longrightarrow>
          (hardUntil e > now \<longleftrightarrow>
             banned_at (HardThreshold cfg) (HardWindow cfg) (HardBan cfg) hist now)
          \<and> (softUntil e > now \<longleftrightarrow>
             banned_at (SoftThreshold cfg) (soft_span cfg) (SoftBackoff cfg) hist now))"

lemma entry_inv_empty: "entry_inv cfg [] empty_entry"
  by (simp add: entry_inv_def empty_entry_def)

lemma filter_window_snoc:
  assumes "sorted (hist @ [t :: int])"
  shows "filter (\<lambda>ts. t - w \<le> ts)
           ((if hist = [] then [] else filter (\<lambda>ts. last hist - w \<le> ts) hist) @ [t])
         = filter (\<lambda>ts. t - w \<le> ts) (hist @ [t])"
proof (cases "hist = []")
  case False
  with assms have "last hist \<le> t" by (simp add: sorted_append)
  then have "filter (\<lambda>x. last hist - w \<le> x \<and> t - w \<le> x) hist = filter (\<lambda>x. t - w \<le> x) hist"
    by (intro filter_cong) auto
  with False show ?thesis by simp
qed simp

lemma ban_extends:
  assumes "sorted (hist @ [t])" and "banned_at th w b hist now"
  shows "now < t + b"
proof -
  from assms(2) obtain h where h: "prefix h hist" "h \<noteq> []" "now < last h + b"
    by (auto simp: banned_at_def trips_def)
  then have "last h \<in> set hist" by (auto simp: prefix_def)
  with assms(1) have "last h \<le> t" by (auto simp: sorted_append)
  with h(3) show ?thesis by simp
qed

lemma filter_filter_window:
  "filter (\<lambda>ts. t - w \<le> ts) (filter (\<lambda>ts. t - w' \<le> ts) hist) = filter (\<lambda>ts. t - min w w' \<le> ts) (hist :: int list)"
  by (auto intro!: filter_cong)

lemma entry_inv_add_failure:
  assumes inv: "entry_inv cfg hist e" and sorted: "sorted (hist @ [t])"
  shows "entry_inv cfg (hist @ [t]) (add_failure cfg e t)"
proof -
  let ?fs = "filter (\<lambda>ts. t - HardWindow cfg \<le> ts) (hist @ [t])"
  have fs: "filter (\<lambda>ts. \<not> ts < t - HardWindow cfg) (failures e @ [t]) = ?fs"
    using inv filter_window_snoc[OF sorted] by (simp add: entry_inv_def not_less)
  have soft: "filter (\<lambda>ts. \<not> ts < t - SoftWindow cfg) ?fs
              = filter (\<lambda>ts. t - soft_span cfg \<le> ts) (hist @ [t])"
    using filter_filter_window[of t "SoftWindow cfg" "HardWindow cfg" "hist @ [t]"] by (simp only: not_less soft_span_def)
  have prev: "(hardUntil e > now \<longleftrightarrow>
        banned_at (HardThreshold cfg) (HardWindow cfg) (HardBan cfg) hist now)
      \<and> (softUntil e > now \<longleftrightarrow>
        banned_at (SoftThreshold cfg) (soft_span cfg) (SoftBackoff cfg) hist now)"
    if "zero_time \<le> now" "t \<le> now" for now
  proof -
    have "hist \<noteq> [] \<Longrightarrow> last hist \<le> now"
      using sorted that(2) last_in_set[of hist] by (auto simp: sorted_append intro: order_trans)
    with inv that(1) show ?thesis by (simp add: entry_inv_def)
  qed
  have hu: "hardUntil (add_failure cfg e t) =
      (if trips (HardThreshold cfg) (HardWindow cfg) (hist @ [t]) then t + HardBan cfg else hardUntil e)"
    by (simp only: add_failure_def Let_def fs trips_def) simp
  have su: "softUntil (add_failure cfg e t) =
      (if trips (SoftThreshold cfg) (soft_span cfg) (hist @ [t])
       then max (t + SoftBackoff cfg) (softUntil e) else softUntil e)"
    by (simp only: add_failure_def Let_def fs soft trips_def) simp
  have "failures (add_failure cfg e t) = ?fs"
    by (simp only: add_failure_def Let_def fs) simp
  then show ?thesis
    using prev ban_extends[OF sorted]
    by (simp add: entry_inv_def banned_at_snoc hu su) (meson less_max_iff_disj)
qed

lemma state_locked_spec:
  assumes "entry_inv cfg hist e" and "zero_time \<le> now" and "hist \<noteq> [] \<Longrightarrow> last hist \<le> now"
  shows "state_locked e now = spec_state cfg hist now"
  using assms by (simp add: entry_inv_def state_locked_def spec_state_def)

definition default_lockout_config :: lockout_config where
  "default_lockout_config =
     \<lparr>SoftThreshold = 3, SoftWindow = 60 * second, SoftBackoff = 30 * second,
      HardThreshold = 10, HardWindow = 600 * second, HardBan = 3600 * second\<rparr>"

subsection \<open>Garbage collection is invisible\<close>

lemma check_lockout_antimono:
  "t \<le> u \<Longrightarrow> check_lockout l k u \<noteq> StateAllowed \<Longrightarrow> check_lockout l k t \<noteq> StateAllowed"
  by (auto simp: check_lockout_def state_locked_def split: option.splits if_splits)

lemma check_lockout_gc:
  "t \<le> u \<Longrightarrow> check_lockout (lockout_gc_once l t) k u = check_lockout l k u"
  by (auto simp: check_lockout_def state_locked_def lockout_gc_once_def gc_entry_def Let_def
      split: option.splits bind_splits if_splits)

interpretation lockout_gc: sweepable "\<lambda>_. True"
  "\<lambda>l t k. check_lockout l k t \<noteq> StateAllowed" lockout_gc_once
  by unfold_locales (auto simp: check_lockout_gc dest: check_lockout_antimono)

text \<open>
  Two entries are equivalent from time \<open>t\<close> on when they agree on the failures inside the hard
  window and on the deadlines that lie ahead; an absent entry stands for the empty one.
\<close>

definition entry_of :: "lockout_entry option \<Rightarrow> lockout_entry" where
  "entry_of x = (case x of None \<Rightarrow> empty_entry | Some e \<Rightarrow> e)"

definition entry_equiv :: "lockout_config \<Rightarrow> time \<Rightarrow> lockout_entry \<Rightarrow> lockout_entry \<Rightarrow> bool" where
  "entry_equiv cfg t a b \<longleftrightarrow>
     filter (\<lambda>ts. \<not> ts < t - HardWindow cfg) (failures a)
       = filter (\<lambda>ts. \<not> ts < t - HardWindow cfg) (failures b)
     \<and> max t (hardUntil a) = max t (hardUntil b) \<and> max t (softUntil a) = max t (softUntil b)"

definition lockout_equiv :: "time \<Rightarrow> lockout \<Rightarrow> lockout \<Rightarrow> bool" where
  "lockout_equiv t l l' \<longleftrightarrow> lo_cfg l = lo_cfg l' \<and>
     (\<forall>k. entry_equiv (lo_cfg l) t (entry_of (lo_entries l k)) (entry_of (lo_entries l' k)))"

lemma filter_later_window:
  assumes "filter (\<lambda>ts. \<not> ts < t - w) xs = filter (\<lambda>ts. \<not> ts < t - w) ys" and "t \<le> (u::int)"
  shows "filter (\<lambda>ts. \<not> ts < u - w) xs = filter (\<lambda>ts. \<not> ts < u - w) ys"
proof -
  have "filter (\<lambda>ts. \<not> ts < u - w) zs
      = filter (\<lambda>ts. \<not> ts < u - w) (filter (\<lambda>ts. \<not> ts < t - w) zs)" for zs :: "int list"
    using assms(2) by (auto intro!: filter_cong)
  then show ?thesis using assms(1) by metis
qed

lemma entry_equiv_later: "entry_equiv cfg t a b \<Longrightarrow> t \<le> u \<Longrightarrow> entry_equiv cfg u a b"
  unfolding entry_equiv_def by (auto dest: filter_later_window)

lemma entry_equiv_state: "entry_equiv cfg t a b \<Longrightarrow> state_locked a t = state_locked b t"
  by (auto simp: entry_equiv_def state_locked_def max_def split: if_splits)

lemma max_update:
  "max t a = max t b \<Longrightarrow>
     (if a < x then max t x else max t b) = (if b < x then max t x else max t (b :: int))"
  by (auto simp: max_def split: if_splits)

lemma entry_equiv_add_failure:
  assumes "entry_equiv cfg t a b"
  shows "entry_equiv cfg t (add_failure cfg a t) (add_failure cfg b t)"
proof -
  have fs: "filter (\<lambda>ts. \<not> ts < t - HardWindow cfg) (failures a @ [t])
      = filter (\<lambda>ts. \<not> ts < t - HardWindow cfg) (failures b @ [t])"
    and until: "max t (hardUntil a) = max t (hardUntil b)" "max t (softUntil a) = max t (softUntil b)"
    using assms by (simp_all add: entry_equiv_def)
  show ?thesis
    unfolding add_failure_def Let_def entry_equiv_def fs
    by (simp only: lockout_entry.simps)
       (simp only: if_distrib[of "max t"] until max_update[OF until(2)] refl simp_thms)
qed

lemma entry_equiv_gc:
  "zero_time \<le> t \<Longrightarrow> entry_equiv cfg t e (entry_of (gc_entry cfg t e))"
  by (auto simp: entry_equiv_def entry_of_def gc_entry_def empty_entry_def Let_def)

lemma lockout_equiv_later: "lockout_equiv t l l' \<Longrightarrow> t \<le> u \<Longrightarrow> lockout_equiv u l l'"
  unfolding lockout_equiv_def using entry_equiv_later by metis

lemma check_lockout_entry_of:
  "zero_time \<le> t \<Longrightarrow> check_lockout l k t = state_locked (entry_of (lo_entries l k)) t"
  by (auto simp: check_lockout_def entry_of_def state_locked_def empty_entry_def split: option.splits)

lemma lockout_equiv_trans:
  assumes "lockout_equiv t a b" and "lockout_equiv t b c"
  shows "lockout_equiv t a c"
proof -
  have "entry_equiv cfg t x y \<Longrightarrow> entry_equiv cfg t y z \<Longrightarrow> entry_equiv cfg t x z" for cfg x y z
    by (simp add: entry_equiv_def)
  then show ?thesis using assms unfolding lockout_equiv_def by metis
qed

lemma lockout_equiv_check:
  "lockout_equiv t l l' \<Longrightarrow> zero_time \<le> t \<Longrightarrow> check_lockout l k t = check_lockout l' k t"
  by (auto simp: lockout_equiv_def check_lockout_entry_of dest: entry_equiv_state)

lemma record_failure_entry_of:
  "record_failure l k t =
     (let e' = add_failure (lo_cfg l) (entry_of (lo_entries l k)) t
      in (state_locked e' t, l\<lparr>lo_entries := (lo_entries l)(k \<mapsto> e')\<rparr>))"
  by (simp add: record_failure_def entry_of_def)

lemma entry_of_Some [simp]: "entry_of (Some e) = e"
  by (simp add: entry_of_def)

lemma lockout_equiv_failure:
  assumes "lockout_equiv t l l'"
  shows "fst (record_failure l k t) = fst (record_failure l' k t)"
    and "lockout_equiv t (snd (record_failure l k t)) (snd (record_failure l' k t))"
proof -
  let ?add = "\<lambda>l. add_failure (lo_cfg l) (entry_of (lo_entries l k)) t"
  have eq: "entry_equiv (lo_cfg l) t (?add l) (?add l')"
    using assms by (auto simp: lockout_equiv_def intro: entry_equiv_add_failure)
  then show "fst (record_failure l k t) = fst (record_failure l' k t)"
    by (simp add: record_failure_entry_of Let_def entry_equiv_state)
  show "lockout_equiv t (snd (record_failure l k t)) (snd (record_failure l' k t))"
    using eq assms by (auto simp: record_failure_entry_of lockout_equiv_def Let_def)
qed

lemma lockout_equiv_success:
  "lockout_equiv t l l' \<Longrightarrow> lockout_equiv t (record_success l k) (record_success l' k)"
  by (auto simp: lockout_equiv_def record_success_def entry_equiv_def)

lemma lockout_equiv_gc:
  assumes "lockout_equiv t l l'" and "zero_time \<le> t"
  shows "lockout_equiv t l (lockout_gc_once l' t)"
proof -
  have "entry_equiv cfg t (entry_of x) (entry_of (Option.bind x (gc_entry cfg t)))" for cfg x
    using entry_equiv_gc[OF assms(2)] by (cases x) (simp_all add: entry_equiv_def entry_of_def)
  moreover have "lockout_equiv t l' (lockout_gc_once l' t)"
    using calculation by (simp add: lockout_equiv_def lockout_gc_once_def)
  ultimately show ?thesis
    using assms(1) lockout_equiv_trans by blast
qed

text \<open>Operations of a running gateway in the order in which they take the mutex.\<close>

datatype lockout_op = OpFail string time | OpSuccess string | OpCheck string time | OpGC time

fun op_time :: "lockout_op \<Rightarrow> time option" where
  "op_time (OpFail ip t) = Some t"
| "op_time (OpSuccess ip) = None"
| "op_time (OpCheck ip t) = Some t"
| "op_time (OpGC t) = Some t"

fun lockout_run :: "lockout \<Rightarrow> lockout_op list \<Rightarrow> lockout_state list" where
  "lockout_run l [] = []"
| "lockout_run l (OpFail ip t # ops) =
     fst (record_failure l ip t) # lockout_run (snd (record_failure l ip t)) ops"
| "lockout_run l (OpSuccess ip # ops) = lockout_run (record_success l ip) ops"
| "lockout_run l (OpCheck ip t # ops) = check_lockout l ip t # lockout_run l ops"
| "lockout_run l (OpGC t # ops) = lockout_run (lockout_gc_once l t) ops"

definition is_gc :: "lockout_op \<Rightarrow> bool" where
  "is_gc op = (case op of OpGC _ \<Rightarrow> True | _ \<Rightarrow> False)"

lemma lockout_run_equiv:
  assumes "lockout_equiv t l l'" and "zero_time \<le> t" and "sorted (t # List.map_filter op_time ops)"
  shows "lockout_run l' ops = lockout_run l (filter (\<lambda>op. \<not> is_gc op) ops)"
  using assms
proof (induction ops arbitrary: t l l')
  case (Cons op ops)
  show ?case
  proof (cases op)
    case (OpSuccess ip)
    with Cons.prems have rest: "sorted (t # List.map_filter op_time ops)"
      by (simp add: List.map_filter_simps)
    with OpSuccess Cons.IH[OF lockout_equiv_success[OF Cons.prems(1)] Cons.prems(2) rest]
    show ?thesis by (simp add: is_gc_def)
  next
    case (OpFail ip u)
    with Cons.prems have "lockout_equiv u l l'" "zero_time \<le> u"
      and rest: "sorted (u # List.map_filter op_time ops)"
      by (auto simp: List.map_filter_simps dest: lockout_equiv_later)
    with OpFail Cons.IH[OF lockout_equiv_failure(2)] show ?thesis
      by (simp add: is_gc_def lockout_equiv_failure(1))
  next
    case (OpCheck ip u)
    with Cons.prems have eq: "lockout_equiv u l l'" "zero_time \<le> u"
      and rest: "sorted (u # List.map_filter op_time ops)"
      by (auto simp: List.map_filter_simps dest: lockout_equiv_later)
    with OpCheck Cons.IH[OF eq rest] show ?thesis
      by (simp add: is_gc_def lockout_equiv_check)
  next
    case (OpGC u)
    with Cons.prems have eq: "lockout_equiv u l l'" "zero_time \<le> u"
      and rest: "sorted (u # List.map_filter op_time ops)"
      by (auto simp: List.map_filter_simps dest: lockout_equiv_later)
    with OpGC Cons.IH[OF lockout_equiv_gc[OF eq] eq(2) rest] show ?thesis
      by (simp add: is_gc_def)
  qed
qed simp

lemma lockout_equiv_refl: "lockout_equiv t l l"
  by (simp add: lockout_equiv_def entry_equiv_def)

text \<open>
  Garbage collection passes may be interleaved anywhere into the operations
  of a running gateway whose clock does not run backwards: every state that \<^verbatim>\<open>RecordFailure\<close> and
  \<^verbatim>\<open>Check\<close> return is the one the run without any pass returns.
\<close>

theorem lockout_gc_invisible:
  assumes "sorted (zero_time # List.map_filter op_time ops)"
  shows "lockout_run l ops = lockout_run l (filter (\<lambda>op. \<not> is_gc op) ops)"
  using lockout_run_equiv[OF lockout_equiv_refl _ assms] by simp

theorem lockout_gc_invisible_witness:
  "lockout_run (new_lockout default_lockout_config)
     [OpFail ''a'' 1, OpFail ''a'' 2, OpGC 3, OpFail ''a'' 4, OpCheck ''a'' 5]
   = [StateAllowed, StateAllowed, StateSoftBackoff, StateSoftBackoff]"
proof -
  have "lockout_run (new_lockout default_lockout_config)
     [OpFail ''a'' 1, OpFail ''a'' 2, OpGC 3, OpFail ''a'' 4, OpCheck ''a'' 5]
   = lockout_run (new_lockout default_lockout_config)
       (filter (\<lambda>op. \<not> is_gc op) [OpFail ''a'' 1, OpFail ''a'' 2, OpGC 3, OpFail ''a'' 4, OpCheck ''a'' 5])"
    by (rule lockout_gc_invisible) (simp add: List.map_filter_simps zero_time_def second_def)
  then show ?thesis
    by (simp add: is_gc_def default_lockout_config_def second_def zero_time_def gw_defs Let_def)
qed

subsection \<open>The table implements the specification\<close>

text \<open>The specification keeps the failures of every IP hash since its last success, and nothing else.\<close>

fun spec_run :: "lockout_config \<Rightarrow> (string \<Rightarrow> time list) \<Rightarrow> lockout_op list \<Rightarrow> lockout_state list" where
  "spec_run cfg H [] = []"
| "spec_run cfg H (OpFail ip t # ops) = spec_state cfg (H ip @ [t]) t # spec_run cfg (H(ip := H ip @ [t])) ops"
| "spec_run cfg H (OpSuccess ip # ops) = spec_run cfg (H(ip := [])) ops"
| "spec_run cfg H (OpCheck ip t # ops) = spec_state cfg (H ip) t # spec_run cfg H ops"
| "spec_run cfg H (OpGC t # ops) = spec_run cfg H ops"

definition table_inv :: "(string \<Rightarrow> time list) \<Rightarrow> time \<Rightarrow> lockout \<Rightarrow> bool" where
  "table_inv H t l \<longleftrightarrow> (\<forall>ip. entry_inv (lo_cfg l) (H ip) (entry_of (lo_entries l ip)) \<and> sorted (H ip @ [t]))"

lemma table_inv_later: "table_inv H t l \<Longrightarrow> t \<le> u \<Longrightarrow> table_inv H u l"
  by (fastforce simp: table_inv_def sorted_append)

lemma table_inv_failure:
  assumes "table_inv H t l"
  shows "table_inv (H(ip := H ip @ [t])) t (snd (record_failure l ip t))"
  using assms entry_inv_add_failure[of "lo_cfg l" "H ip" "entry_of (lo_entries l ip)" t]
  by (auto simp: table_inv_def record_failure_entry_of Let_def sorted_append)

lemma table_inv_success: "table_inv H t l \<Longrightarrow> table_inv (H(ip := [])) t (record_success l ip)"
  by (auto simp: table_inv_def record_success_def entry_of_def entry_inv_empty)

lemma table_inv_check:
  assumes "table_inv H t l" and "zero_time \<le> t"
  shows "check_lockout l ip t = spec_state (lo_cfg l) (H ip) t"
proof -
  have "\<forall>x \<in> set (H ip). x \<le> t" using assms(1) by (simp add: table_inv_def sorted_append)
  then have "H ip \<noteq> [] \<Longrightarrow> last (H ip) \<le> t" by simp
  then show ?thesis using assms state_locked_spec[of "lo_cfg l" "H ip" "entry_of (lo_entries l ip)" t] by (simp add: table_inv_def check_lockout_entry_of)
qed

lemma record_failure_check: "fst (record_failure l ip t) = check_lockout (snd (record_failure l ip t)) ip t"
  by (simp add: record_failure_def check_lockout_def Let_def)

lemma lockout_run_spec:
  assumes "table_inv H t l" and "zero_time \<le> t" and "sorted (t # List.map_filter op_time ops)" and "lo_cfg l = cfg"
  shows "lockout_run l (filter (\<lambda>op. \<not> is_gc op) ops) = spec_run cfg H ops"
  using assms
proof (induction ops arbitrary: H t l)
  case (Cons op ops)
  show ?case
  proof (cases op)
    case (OpSuccess ip)
    have cfg: "lo_cfg (record_success l ip) = cfg" using Cons.prems(4) by (simp add: record_success_def)
    have rest: "sorted (t # List.map_filter op_time ops)" using OpSuccess Cons.prems(3) by (simp add: List.map_filter_simps)
    show ?thesis using OpSuccess Cons.IH[OF table_inv_success[OF Cons.prems(1), of ip] Cons.prems(2) rest cfg] by (simp add: is_gc_def fun_upd_def)
  next
    case (OpFail ip u)
    with Cons.prems have u: "table_inv H u l" "zero_time \<le> u" and rest: "sorted (u # List.map_filter op_time ops)"
      by (auto simp: List.map_filter_simps dest: table_inv_later)
    have cfg: "lo_cfg (snd (record_failure l ip u)) = cfg" using Cons.prems(4) by (simp add: record_failure_def Let_def)
    show ?thesis
      using OpFail Cons.IH[OF table_inv_failure[OF u(1)] u(2) rest cfg] table_inv_check[OF table_inv_failure[OF u(1)] u(2), of ip ip] cfg
      by (simp add: is_gc_def record_failure_check fun_upd_def)
  next
    case (OpCheck ip u)
    with Cons.prems have u: "table_inv H u l" "zero_time \<le> u" and rest: "sorted (u # List.map_filter op_time ops)"
      by (auto simp: List.map_filter_simps dest: table_inv_later)
    then show ?thesis using OpCheck Cons.IH[OF u rest Cons.prems(4)] table_inv_check[OF u] Cons.prems(4) by (simp add: is_gc_def)
  next
    case (OpGC u)
    with Cons.prems show ?thesis using Cons.IH[OF Cons.prems(1,2) _ Cons.prems(4)] by (simp add: is_gc_def List.map_filter_simps)
  qed
qed simp

text \<open>
  C8 (refinement). For any configuration and any operations on a fresh table, failures, successes, checks and garbage collections of any addresses in any order at times that do not run backwards, every state that \<^verbatim>\<open>RecordFailure\<close> and
  \<^verbatim>\<open>Check\<close> report is the one that the sliding-window specification gives for the whole history of the address since its last success. A soft window that is longer than the hard one counts only the failures in the hard one.
\<close>

theorem lockout_refines_spec:
  assumes "sorted (zero_time # List.map_filter op_time ops)"
  shows "lockout_run (new_lockout cfg) ops = spec_run cfg (\<lambda>_. []) ops"
proof -
  have "table_inv (\<lambda>_. []) zero_time (new_lockout cfg)" by (simp add: table_inv_def new_lockout_def entry_of_def entry_inv_empty)
  then show ?thesis
    using lockout_run_spec[OF _ order.refl assms] lockout_run_equiv[OF lockout_equiv_refl order.refl assms, of "new_lockout cfg"] by (simp add: new_lockout_def)
qed

theorem lockout_refines_spec_witness:
  "spec_run default_lockout_config (\<lambda>_. []) [OpFail ''a'' second, OpFail ''b'' second, OpFail ''a'' (2 * second), OpGC (2 * second), OpFail ''a'' (3 * second), OpCheck ''b'' (4 * second), OpCheck ''a'' (4 * second)]
     = [StateAllowed, StateAllowed, StateAllowed, StateSoftBackoff, StateAllowed, StateSoftBackoff]"
  using lockout_refines_spec[of "[OpFail ''a'' second, OpFail ''b'' second, OpFail ''a'' (2 * second), OpGC (2 * second), OpFail ''a'' (3 * second), OpCheck ''b'' (4 * second), OpCheck ''a'' (4 * second)]"
      default_lockout_config, symmetric]
  by (simp add: default_lockout_config_def second_def zero_time_def gw_defs Let_def List.map_filter_simps)

end
