(* ===== verification/Session.thy ===== *)
theory Session
  imports Expiry Encoding
begin

text \<open>
  Admin sessions and CSRF tokens, \<^verbatim>\<open>internal/admin/session.go\<close> and \<^verbatim>\<open>internal/admin/csrf.go\<close>.
  The session map is an association list: \<^verbatim>\<open>Get\<close> walks every entry, and the order of the list
  stands for Go's arbitrary iteration order. The bytes read from \<^verbatim>\<open>crypto/rand\<close> are
  arguments (\<open>None\<close> is a read error), and so is the clock. The invariant
  \<open>session_inv\<close> says what every reachable store satisfies; under it the constant-time scan
  of \<^verbatim>\<open>Get\<close> is a plain map lookup, and no sequence of operations keeps a session usable past
  its absolute expiry.
\<close>

subsection \<open>Model\<close>

definition sessionIDBytes :: nat where "sessionIDBytes = 32"
definition csrfBytes :: nat where "csrfBytes = 32"

record session =
  sess_ID :: string
  sess_IPHash :: string
  sess_CreatedAt :: time
  sess_LastSeen :: time
  sess_CSRFToken :: string
  sess_ExpiresAt :: time

record session_store =
  ss_sessions :: "(string \<times> session) list"
  ss_idleTTL :: duration
  ss_absoluteTTL :: duration

definition new_session_store :: "duration \<Rightarrow> duration \<Rightarrow> session_store" where
  "new_session_store idle absolute =
     \<lparr>ss_sessions = [], ss_idleTTL = idle, ss_absoluteTTL = absolute\<rparr>"

definition random_token :: "nat \<Rightarrow> nat list option \<Rightarrow> string option" where
  "random_token n rnd = (if n = 0 then None else map_option base64url_encode rnd)"

definition session_create ::
  "session_store \<Rightarrow> string \<Rightarrow> time \<Rightarrow> nat list option \<Rightarrow> nat list option \<Rightarrow> (session \<times> session_store) option"
where
  "session_create s ipHash now rnd_id rnd_csrf =
     (case random_token sessionIDBytes rnd_id of
        None \<Rightarrow> None
      | Some sid \<Rightarrow>
          (case random_token csrfBytes rnd_csrf of
             None \<Rightarrow> None
           | Some csrf \<Rightarrow>
               (let sess = \<lparr>sess_ID = sid, sess_IPHash = ipHash, sess_CreatedAt = now,
                            sess_LastSeen = now, sess_CSRFToken = csrf,
                            sess_ExpiresAt = now + ss_absoluteTTL s\<rparr>
                in Some (sess, s\<lparr>ss_sessions := alist_put sid sess (ss_sessions s)\<rparr>))))"

definition session_pad :: "string \<Rightarrow> string" where
  "session_pad src = pad_bytes 64 src"

definition session_match :: "session_store \<Rightarrow> string \<Rightarrow> session option" where
  "session_match s id0 =
     fold (\<lambda>(sid, sess) m.
             if constant_time_compare (session_pad id0) (session_pad sid) = 1 then Some sess else m)
          (ss_sessions s) None"

definition session_expired :: "session_store \<Rightarrow> session \<Rightarrow> time \<Rightarrow> bool" where
  "session_expired s sess now \<longleftrightarrow>
     \<not> sess_ExpiresAt sess > now \<or> time_sub now (sess_LastSeen sess) \<ge> ss_idleTTL s"

definition session_get :: "session_store \<Rightarrow> string \<Rightarrow> time \<Rightarrow> session option" where
  "session_get s id0 now =
     (case session_match s id0 of
        None \<Rightarrow> None
      | Some sess \<Rightarrow> if session_expired s sess now then None else Some sess)"

definition session_refresh :: "session_store \<Rightarrow> string \<Rightarrow> time \<Rightarrow> bool \<times> session_store" where
  "session_refresh s id0 now =
     (case map_of (ss_sessions s) id0 of
        None \<Rightarrow> (False, s)
      | Some sess \<Rightarrow>
          if session_expired s sess now
          then (False, s\<lparr>ss_sessions := alist_del id0 (ss_sessions s)\<rparr>)
          else (True, s\<lparr>ss_sessions := alist_put id0 (sess\<lparr>sess_LastSeen := now\<rparr>) (ss_sessions s)\<rparr>))"

definition session_delete :: "session_store \<Rightarrow> string \<Rightarrow> bool \<times> session_store" where
  "session_delete s id0 =
     (case map_of (ss_sessions s) id0 of
        None \<Rightarrow> (False, s)
      | Some _ \<Rightarrow> (True, s\<lparr>ss_sessions := alist_del id0 (ss_sessions s)\<rparr>))"

definition session_gc_once :: "session_store \<Rightarrow> time \<Rightarrow> session_store" where
  "session_gc_once s now =
     s\<lparr>ss_sessions := filter (\<lambda>(sid, sess). \<not> session_expired s sess now) (ss_sessions s)\<rparr>"

definition session_snapshot :: "session_store \<Rightarrow> time \<Rightarrow> session list" where
  "session_snapshot s now =
     map snd (filter (\<lambda>(sid, sess). \<not> session_expired s sess now) (ss_sessions s))"

text \<open>CSRF validation. A request carries its method and its \<^verbatim>\<open>X-CSRF-Token\<close> header.\<close>

definition is_safe_method :: "string \<Rightarrow> bool" where
  "is_safe_method m \<longleftrightarrow> m = ''GET'' \<or> m = ''HEAD'' \<or> m = ''OPTIONS''"

definition ValidateCSRF :: "session option \<Rightarrow> string \<Rightarrow> string \<Rightarrow> bool" where
  "ValidateCSRF sess meth provided =
     (case sess of
        None \<Rightarrow> False
      | Some s \<Rightarrow>
          if is_safe_method meth then True
          else if provided = [] then False
          else if sess_CSRFToken s = [] then False
          else constant_time_compare (pad_bytes 64 provided) (pad_bytes 64 (sess_CSRFToken s)) = 1)"

lemmas [gw_defs] = sessionIDBytes_def csrfBytes_def new_session_store_def random_token_def
  session_create_def session_match_def session_expired_def session_get_def session_refresh_def
  session_delete_def session_gc_once_def session_snapshot_def session_pad_def alist_del_def

subsection \<open>Invariant\<close>

definition session_ok :: "session_store \<Rightarrow> string \<Rightarrow> session \<Rightarrow> bool" where
  "session_ok s sid sess \<longleftrightarrow>
     sess_ID sess = sid \<and> CHR 0x00 \<notin> set sid \<and> length sid = 43
     \<and> sess_ExpiresAt sess = sess_CreatedAt sess + ss_absoluteTTL s"

definition session_inv :: "session_store \<Rightarrow> bool" where
  "session_inv s \<longleftrightarrow>
     distinct (map fst (ss_sessions s)) \<and> list_all (\<lambda>(sid, sess). session_ok s sid sess) (ss_sessions s)"

lemma session_inv_new: "session_inv (new_session_store i a)"
  by (simp add: session_inv_def new_session_store_def)

lemma random_token_ok:
  assumes "random_token 32 (Some bytes) = Some tok" and "length bytes = 32"
  shows "CHR 0x00 \<notin> set tok \<and> length tok = 43"
  using assms base64url_nul_free[of bytes]
  by (auto simp: random_token_def length_base64url_encode)

lemma session_inv_create:
  assumes "session_inv s" and "session_create s ip now rnd_id rnd_csrf = Some (sess, s')"
    and "\<And>bytes. rnd_id = Some bytes \<Longrightarrow> length bytes = 32"
  shows "session_inv s'"
proof -
  from assms(2) obtain bytes where
    r: "rnd_id = Some bytes" "sess_ID sess = base64url_encode bytes"
      "s' = s\<lparr>ss_sessions := alist_put (sess_ID sess) sess (ss_sessions s)\<rparr>"
      "sess_ExpiresAt sess = sess_CreatedAt sess + ss_absoluteTTL s"
    by (auto simp: session_create_def random_token_def sessionIDBytes_def csrfBytes_def Let_def
        split: option.splits)
  have "session_ok s (sess_ID sess) sess"
    using r assms(3)[OF r(1)] base64url_nul_free[of bytes]
    by (simp add: session_ok_def length_base64url_encode)
  moreover have "session_ok s' = session_ok s"
    using r(3) by (simp add: session_ok_def fun_eq_iff)
  ultimately show ?thesis
    using assms(1) set_alist_put[of "sess_ID sess" sess "ss_sessions s"] r(3)
    by (fastforce simp: session_inv_def distinct_alist_put list_all_iff)
qed

lemma session_inv_refresh:
  assumes "session_inv s"
  shows "session_inv (snd (session_refresh s id0 now))"
proof (cases "map_of (ss_sessions s) id0")
  case (Some sess)
  then have ok: "session_ok s id0 (sess\<lparr>sess_LastSeen := now\<rparr>)"
    using assms by (auto simp: session_inv_def list_all_iff session_ok_def dest!: map_of_SomeD)
  have frame: "session_ok (s\<lparr>ss_sessions := xs\<rparr>) = session_ok s" for xs
    by (simp add: session_ok_def fun_eq_iff)
  show ?thesis
    using assms ok Some set_alist_put[of id0 "sess\<lparr>sess_LastSeen := now\<rparr>" "ss_sessions s"]
    by (fastforce simp: session_refresh_def session_inv_def frame list_all_iff alist_del_def
        distinct_alist_put distinct_alist_filter)
qed (simp add: session_refresh_def assms)

lemma session_inv_filter:
  "session_inv s \<Longrightarrow> session_inv (s\<lparr>ss_sessions := filter P (ss_sessions s)\<rparr>)"
  by (auto simp: session_inv_def session_ok_def list_all_iff distinct_alist_filter)

lemma session_inv_delete: "session_inv s \<Longrightarrow> session_inv (snd (session_delete s id0))"
  by (auto simp: session_delete_def alist_del_def session_inv_filter split: option.splits)

lemma session_inv_gc: "session_inv s \<Longrightarrow> session_inv (session_gc_once s now)"
  by (simp add: session_gc_once_def session_inv_filter)

subsection \<open>The constant-time scan is a map lookup\<close>

lemma fold_last_match:
  "fold (\<lambda>(k, v) m. if P k then Some v else m) xs m0
     = (case filter (\<lambda>(k, v). P k) xs of [] \<Rightarrow> m0 | ys \<Rightarrow> Some (snd (last ys)))"
  by (induction xs arbitrary: m0) (auto split: list.splits)

lemma session_inv_entry:
  "session_inv s \<Longrightarrow> (sid, sess) \<in> set (ss_sessions s) \<Longrightarrow> session_ok s sid sess"
  by (auto simp: session_inv_def list_all_iff)

lemma session_match_Some:
  assumes "session_inv s"
  shows "session_match s id0 = Some sess \<longleftrightarrow>
     (\<exists>sid. (sid, sess) \<in> set (ss_sessions s) \<and> session_pad sid = session_pad id0)"
proof -
  let ?P = "\<lambda>sid. session_pad id0 = session_pad sid"
  let ?ys = "filter (\<lambda>(sid, sess). ?P sid) (ss_sessions s)"
  have match: "session_match s id0 = (case ?ys of [] \<Rightarrow> None | ys \<Rightarrow> Some (snd (last ys)))"
    by (simp add: session_match_def fold_last_match)
  have uniq: "a = b" if "a \<in> set ?ys" "b \<in> set ?ys" for a b
  proof -
    have "session_ok s (fst a) (snd a)" "session_ok s (fst b) (snd b)"
      and "session_pad (fst a) = session_pad (fst b)"
      using that assms by (auto dest: session_inv_entry)
    then have "fst a = fst b"
      by (simp add: session_ok_def session_pad_def pad_bytes_inj)
    then show ?thesis
      using that assms by (metis (no_types, lifting) eq_key_imp_eq_value filter_is_subset prod.collapse
          session_inv_def subsetD)
  qed
  show ?thesis
  proof (cases "?ys = []")
    case True
    then show ?thesis by (auto simp: match filter_empty_conv)
  next
    case False
    then have last: "last ?ys \<in> set ?ys" by (rule last_in_set)
    have "session_match s id0 = Some (snd (last ?ys))"
      using False by (auto simp: match split: list.splits)
    moreover have "(\<exists>sid. (sid, sess) \<in> set ?ys) \<longleftrightarrow> sess = snd (last ?ys)"
    proof
      assume "\<exists>sid. (sid, sess) \<in> set ?ys"
      then show "sess = snd (last ?ys)" using uniq[OF _ last] by force
    next
      assume "sess = snd (last ?ys)"
      with last show "\<exists>sid. (sid, sess) \<in> set ?ys" by (metis prod.collapse)
    qed
    moreover have "(sid, sess) \<in> set ?ys \<longleftrightarrow>
        (sid, sess) \<in> set (ss_sessions s) \<and> session_pad sid = session_pad id0" for sid
      by auto
    ultimately show ?thesis by auto
  qed
qed

lemma session_match_map_of:
  assumes "session_inv s" and "CHR 0x00 \<notin> set id0"
  shows "session_match s id0 = map_of (ss_sessions s) id0"
proof -
  have eq: "session_pad sid = session_pad id0 \<longleftrightarrow> sid = id0" if "(sid, sess) \<in> set (ss_sessions s)" for sid sess
  proof -
    have ok: "CHR 0x00 \<notin> set sid" "length sid = 43"
      using session_inv_entry[OF assms(1) that] by (auto simp: session_ok_def)
    show ?thesis
    proof (cases "length id0 \<le> 64")
      case True
      with ok assms(2) show ?thesis by (simp add: session_pad_def pad_bytes_inj)
    next
      case False
      then have "CHR 0x00 \<notin> set (session_pad id0)"
        using assms(2) by (auto simp: session_pad_def pad_bytes_long dest: in_set_takeD)
      moreover have "CHR 0x00 \<in> set (session_pad sid)"
        using ok by (simp add: session_pad_def pad_bytes_def)
      ultimately show ?thesis using False ok(2) by auto
    qed
  qed
  have "session_match s id0 = Some sess \<longleftrightarrow> map_of (ss_sessions s) id0 = Some sess" for sess
    using session_match_Some[OF assms(1)] eq assms(1)
    by (auto simp: session_inv_def dest: map_of_SomeD)
  then show ?thesis by (metis option.exhaust)
qed

text \<open>
  In every store that satisfies the invariant, for every cookie value
  without NUL bytes, the padded constant-time scan of \<^verbatim>\<open>Get\<close> over the whole map
  returns what a lookup of that id returns, restricted to unexpired sessions.
\<close>

theorem session_get_is_lookup:
  assumes "session_inv s" and "CHR 0x00 \<notin> set id0"
  shows "session_get s id0 now =
     (case map_of (ss_sessions s) id0 of
        None \<Rightarrow> None
      | Some sess \<Rightarrow>
          if now < sess_ExpiresAt sess \<and> time_sub now (sess_LastSeen sess) < ss_idleTTL s
          then Some sess else None)"
  using session_match_map_of[OF assms]
  by (auto simp: session_get_def session_expired_def split: option.splits)

theorem session_get_is_lookup_witness:
  "session_get \<lparr>ss_sessions = [], ss_idleTTL = 5, ss_absoluteTTL = 9\<rparr> ''abc'' 1 = None"
  using session_get_is_lookup[of "\<lparr>ss_sessions = [], ss_idleTTL = 5, ss_absoluteTTL = 9\<rparr>" "''abc''" 1]
  by (simp add: session_inv_def)

subsection \<open>Garbage collection\<close>

lemma session_expired_mono:
  "session_expired s sess t \<Longrightarrow> t \<le> u \<Longrightarrow> session_expired s sess u"
  using time_sub_mono[of t u "sess_LastSeen sess"] by (auto simp: session_expired_def)

lemma session_get_Some:
  "session_inv s \<Longrightarrow> session_get s id0 now = Some sess \<longleftrightarrow>
     (\<exists>sid. (sid, sess) \<in> set (ss_sessions s) \<and> session_pad sid = session_pad id0)
     \<and> \<not> session_expired s sess now"
  unfolding session_match_Some[symmetric] by (auto simp: session_get_def split: option.splits)

lemma session_expired_gc [simp]: "session_expired (session_gc_once s t) = session_expired s"
  by (simp add: session_expired_def session_gc_once_def fun_eq_iff)

lemma session_get_gc:
  assumes "session_inv s" and "t \<le> u"
  shows "session_get (session_gc_once s t) id0 u = session_get s id0 u"
proof -
  have "session_get (session_gc_once s t) id0 u = Some sess \<longleftrightarrow> session_get s id0 u = Some sess" for sess
    unfolding session_get_Some[OF assms(1)] session_get_Some[OF session_inv_gc[OF assms(1)]]
    using session_expired_mono[OF _ assms(2)] by (auto simp: session_gc_once_def session_expired_def)
  then show ?thesis by (metis option.exhaust)
qed

interpretation session_gc: reclaiming session_inv
  "\<lambda>s t id0. session_get s id0 t \<noteq> None" session_gc_once "\<lambda>s id0. session_match s id0 \<noteq> None"
proof unfold_locales
  fix s :: session_store and t u :: time and k :: string
  assume inv: "session_inv s"
  show "session_inv (session_gc_once s t)" using inv by (rule session_inv_gc)
  show "(session_match (session_gc_once s t) k \<noteq> None) = (session_get s k t \<noteq> None)"
    using session_match_Some[OF session_inv_gc[OF inv]] session_get_Some[OF inv]
    by (fastforce simp: session_gc_once_def)
  assume tu: "t \<le> u"
  show "(session_get (session_gc_once s t) k u \<noteq> None) = (session_get s k u \<noteq> None)"
    by (simp add: session_get_gc[OF inv tu])
  show "session_get s k t \<noteq> None" if "session_get s k u \<noteq> None"
    using that session_expired_mono[OF _ tu] by (auto simp: session_get_def split: option.splits if_splits)
qed

subsection \<open>Runs of the store\<close>

datatype session_op =
  OpCreate string time "nat list" "nat list"
| OpRefresh string time
| OpDelete string
| OpSessionGC time

definition session_step :: "session_store \<Rightarrow> session_op \<Rightarrow> session_store" where
  "session_step s op =
     (case op of
        OpCreate ip now r1 r2 \<Rightarrow>
          (case session_create s ip now (Some r1) (Some r2) of None \<Rightarrow> s | Some (_, s') \<Rightarrow> s')
      | OpRefresh id0 now \<Rightarrow> snd (session_refresh s id0 now)
      | OpDelete id0 \<Rightarrow> snd (session_delete s id0)
      | OpSessionGC now \<Rightarrow> session_gc_once s now)"

text \<open>\<^verbatim>\<open>rand.Read\<close> fills the whole buffer, so every token is made of 32 bytes.\<close>

definition op_ok :: "session_op \<Rightarrow> bool" where
  "op_ok op = (case op of OpCreate _ _ r1 r2 \<Rightarrow> length r1 = 32 \<and> length r2 = 32 | _ \<Rightarrow> True)"

definition creates :: "string \<Rightarrow> session_op \<Rightarrow> bool" where
  "creates sid op = (case op of OpCreate _ _ r1 _ \<Rightarrow> base64url_encode r1 = sid | _ \<Rightarrow> False)"

lemma session_inv_step: "session_inv s \<Longrightarrow> op_ok op \<Longrightarrow> session_inv (session_step s op)"
  by (cases op) (auto simp: session_step_def op_ok_def session_inv_refresh session_inv_delete
      session_inv_gc intro: session_inv_create split: option.splits)

lemma session_inv_run:
  "session_inv s \<Longrightarrow> list_all op_ok ops \<Longrightarrow> session_inv (fold (\<lambda>op s. session_step s op) ops s)"
  by (induction ops arbitrary: s) (auto simp: session_inv_step)

lemma session_step_ttl: "ss_absoluteTTL (session_step s op) = ss_absoluteTTL s
    \<and> ss_idleTTL (session_step s op) = ss_idleTTL s"
  by (cases op) (auto simp: session_step_def session_create_def session_refresh_def session_delete_def
      session_gc_once_def Let_def split: option.splits)

lemma session_run_ttl:
  "ss_absoluteTTL (fold (\<lambda>op s. session_step s op) ops s) = ss_absoluteTTL s
    \<and> ss_idleTTL (fold (\<lambda>op s. session_step s op) ops s) = ss_idleTTL s"
  by (induction ops arbitrary: s) (auto simp: session_step_ttl)

text \<open>
  C7 (safety). Whatever operations have been run on a fresh store, a session that \<^verbatim>\<open>Get\<close>
  hands out is inside both lifetimes: its absolute lifetime counted from its creation,
  which no refresh extends, and the idle window since it was last seen.
\<close>

theorem session_lifetime_bounded:
  assumes "list_all op_ok ops"
    and "session_get (fold (\<lambda>op s. session_step s op) ops (new_session_store idle absolute)) id0 now
           = Some sess"
  shows "now < sess_CreatedAt sess + absolute \<and> time_sub now (sess_LastSeen sess) < idle"
proof -
  let ?s = "fold (\<lambda>op s. session_step s op) ops (new_session_store idle absolute)"
  have inv: "session_inv ?s" using assms(1) by (simp add: session_inv_run session_inv_new)
  have ttl: "ss_absoluteTTL ?s = absolute" "ss_idleTTL ?s = idle"
    by (simp_all add: session_run_ttl new_session_store_def)
  from assms(2) inv obtain sid where "session_ok ?s sid sess" "\<not> session_expired ?s sess now"
    by (auto simp: session_get_Some dest: session_inv_entry)
  then show ?thesis by (simp add: session_ok_def session_expired_def ttl)
qed

theorem session_lifetime_bounded_witness:
  "session_get (fold (\<lambda>op s. session_step s op)
       [OpCreate ''ip'' 0 (replicate 32 0) (replicate 32 0), OpRefresh (base64url_encode (replicate 32 0)) 4]
       (new_session_store 5 9)) (base64url_encode (replicate 32 0)) 8 \<noteq> None
   \<and> (8::int) < 0 + 9 \<and> time_sub 8 4 < 5"
proof -
  let ?tok = "base64url_encode (replicate 32 0)"
  let ?ops = "[OpCreate ''ip'' 0 (replicate 32 0) (replicate 32 0), OpRefresh ?tok 4]"
  let ?sess = "\<lparr>sess_ID = ?tok, sess_IPHash = ''ip'', sess_CreatedAt = 0, sess_LastSeen = 4,
      sess_CSRFToken = ?tok, sess_ExpiresAt = 9\<rparr>"
  have get: "session_get (fold (\<lambda>op s. session_step s op) ?ops (new_session_store 5 9)) ?tok 8 = Some ?sess"
    by (simp add: session_step_def gw_defs Let_def time_sub_def min_int64_def max_int64_def)
  have "8 < sess_CreatedAt ?sess + 9 \<and> time_sub 8 (sess_LastSeen ?sess) < 5"
    by (rule session_lifetime_bounded[OF _ get]) (simp add: op_ok_def)
  with get show ?thesis by simp
qed

lemma session_gone_step:
  assumes "map_of (ss_sessions s) sid = None" and "\<not> creates sid op"
  shows "map_of (ss_sessions (session_step s op)) sid = None"
proof (cases op)
  case (OpSessionGC t)
  with assms(1) show ?thesis
    by (auto simp: session_step_def session_gc_once_def map_of_eq_None_iff)
qed (use assms in \<open>auto simp: session_step_def session_create_def session_refresh_def
      session_delete_def random_token_def creates_def map_of_alist_put map_of_alist_del Let_def
      split: option.splits\<close>)

lemma session_gone_run:
  "map_of (ss_sessions s) sid = None \<Longrightarrow> list_all (\<lambda>op. \<not> creates sid op) ops \<Longrightarrow>
     map_of (ss_sessions (fold (\<lambda>op s. session_step s op) ops s)) sid = None"
  by (induction ops arbitrary: s) (auto simp: session_gone_step)

text \<open>
  Logging out is final: after \<^verbatim>\<open>Delete\<close> of a session id no further
  operations make \<^verbatim>\<open>Get\<close> accept it again, unless \<^verbatim>\<open>Create\<close> draws the very same random token.
\<close>

theorem session_logout_final:
  assumes "session_inv s" and "list_all op_ok ops"
    and "list_all (\<lambda>op. \<not> creates sid op) ops" and "CHR 0x00 \<notin> set sid"
  shows "session_get (fold (\<lambda>op s. session_step s op) ops (snd (session_delete s sid))) sid now = None"
proof -
  let ?s = "fold (\<lambda>op s. session_step s op) ops (snd (session_delete s sid))"
  have "session_inv ?s" using assms(1,2) by (simp add: session_inv_run session_inv_delete)
  moreover have "map_of (ss_sessions (snd (session_delete s sid))) sid = None"
    by (auto simp: session_delete_def map_of_alist_del split: option.splits)
  then have "map_of (ss_sessions ?s) sid = None" using assms(3) by (rule session_gone_run)
  ultimately show ?thesis
    using session_match_map_of[OF _ assms(4)] by (simp add: session_get_def)
qed

theorem session_logout_final_witness:
  "session_get (fold (\<lambda>op s. session_step s op) [OpRefresh ''x'' 3, OpSessionGC 4]
     (snd (session_delete (new_session_store 5 9) ''x''))) ''x'' 6 = None"
  by (rule session_logout_final) (simp_all add: session_inv_new op_ok_def creates_def)

subsection \<open>CSRF\<close>

text \<open>
  For a session with a token as \<^verbatim>\<open>Create\<close> issues it and any header value without
  NUL bytes, a request passes exactly when its method is safe or the header is the token.
\<close>

theorem csrf_accepts_exactly_token:
  assumes "random_token csrfBytes (Some bytes) = Some (sess_CSRFToken s)" and "length bytes = 32"
    and "CHR 0x00 \<notin> set provided"
  shows "ValidateCSRF (Some s) meth provided \<longleftrightarrow> is_safe_method meth \<or> provided = sess_CSRFToken s"
proof -
  have tok: "CHR 0x00 \<notin> set (sess_CSRFToken s)" "length (sess_CSRFToken s) = 43"
    using random_token_ok assms(1,2) by (auto simp: csrfBytes_def)
  have "pad_bytes 64 provided = pad_bytes 64 (sess_CSRFToken s) \<longleftrightarrow> provided = sess_CSRFToken s"
  proof (cases "length provided \<le> 64")
    case True
    with tok assms(3) show ?thesis by (simp add: pad_bytes_inj)
  next
    case False
    then have "CHR 0x00 \<notin> set (pad_bytes 64 provided)"
      using assms(3) by (auto simp: pad_bytes_long dest: in_set_takeD)
    moreover have "CHR 0x00 \<in> set (pad_bytes 64 (sess_CSRFToken s))"
      using tok by (simp add: pad_bytes_def)
    ultimately show ?thesis using False tok(2) by auto
  qed
  with tok(2) show ?thesis by (auto simp: ValidateCSRF_def)
qed

theorem csrf_accepts_exactly_token_witness:
  "\<not> ValidateCSRF (Some \<lparr>sess_ID = ''i'', sess_IPHash = ''h'', sess_CreatedAt = 0, sess_LastSeen = 0,
       sess_CSRFToken = base64url_encode (replicate 32 0), sess_ExpiresAt = 9\<rparr>) ''POST'' ''AAAA''"
proof -
  let ?s = "\<lparr>sess_ID = ''i'', sess_IPHash = ''h'', sess_CreatedAt = 0, sess_LastSeen = 0,
       sess_CSRFToken = base64url_encode (replicate 32 0), sess_ExpiresAt = 9\<rparr>"
  have "ValidateCSRF (Some ?s) ''POST'' ''AAAA'' \<longleftrightarrow> is_safe_method ''POST'' \<or> ''AAAA'' = sess_CSRFToken ?s"
    by (rule csrf_accepts_exactly_token[of "replicate 32 0"])
       (simp_all add: random_token_def csrfBytes_def)
  moreover have "length ''AAAA'' \<noteq> length (base64url_encode (replicate 32 0))"
    by (simp add: length_base64url_encode)
  then have "''AAAA'' \<noteq> base64url_encode (replicate 32 0)" by metis
  ultimately show ?thesis by (simp add: is_safe_method_def)
qed

end
