(* ===== verification/Gate.thy ===== *)
theory Gate
  imports Prelude
begin

text \<open>
  The hidden admin gate, \<^verbatim>\<open>internal/admin/gate.go\<close>, and the log redaction of
  \<^verbatim>\<open>internal/proxy/path.go\<close> that relies on it. The gate compares the first three path segments
  with the configured secrets on buffers padded or truncated to the secrets' lengths.
  \<open>gate_matches_iff\<close> is the exact set of paths it accepts; the remaining
  lemmas show that its path slicing never leaves the path.
\<close>

unbundle bit_operations_syntax

subsection \<open>Model\<close>

record gate_config =
  gc_Enabled :: bool
  gc_Slug :: string
  gc_Token1 :: string
  gc_Token2 :: string

record gate =
  g_enabled :: bool
  g_slug :: string
  g_token1 :: string
  g_token2 :: string
  g_dummySlug :: string
  g_dummyToken1 :: string
  g_dummyToken2 :: string
  g_prefix :: string

definition gate_new :: "gate_config \<Rightarrow> gate" where
  "gate_new cfg =
     (if \<not> gc_Enabled cfg \<or> gc_Slug cfg = [] \<or> gc_Token1 cfg = [] \<or> gc_Token2 cfg = []
      then (let z = replicate 32 (CHR 0x00); o0 = replicate 32 (CHR ''0'')
            in \<lparr>g_enabled = False, g_slug = z, g_token1 = z, g_token2 = z,
                g_dummySlug = z, g_dummyToken1 = z, g_dummyToken2 = z,
                g_prefix = ''/'' @ o0 @ ''/'' @ o0 @ ''/'' @ o0\<rparr>)
      else \<lparr>g_enabled = True, g_slug = gc_Slug cfg, g_token1 = gc_Token1 cfg, g_token2 = gc_Token2 cfg,
            g_dummySlug = replicate (length (gc_Slug cfg)) (CHR 0x00),
            g_dummyToken1 = replicate (length (gc_Token1 cfg)) (CHR 0x00),
            g_dummyToken2 = replicate (length (gc_Token2 cfg)) (CHR 0x00),
            g_prefix = ''/'' @ gc_Slug cfg @ ''/'' @ gc_Token1 cfg @ ''/'' @ gc_Token2 cfg\<rparr>)"

definition split_three :: "string \<Rightarrow> (string \<times> string \<times> string) option" where
  "split_three path =
     (if path = [] \<or> hd path \<noteq> CHR ''/'' then None
      else (let parts = splitN 4 CHR ''/'' (tl path) in
        if length parts < 3 then None
        else if parts ! 0 = [] \<or> parts ! 1 = [] \<or> parts ! 2 = [] then None
        else Some (parts ! 0, parts ! 1, parts ! 2)))"

definition matches_prefix :: "gate \<Rightarrow> string \<Rightarrow> bool" where
  "matches_prefix g path =
     (let sp = split_three path;
          ok = (sp \<noteq> None);
          padEqual = (\<lambda>src ref. pad_bytes (length ref) src);
          (seg1, seg2, seg3) = (case sp of Some s \<Rightarrow> s | None \<Rightarrow> ([], [], []));
          in1 = (if ok then padEqual seg1 (g_slug g) else padEqual [] (g_slug g));
          in2 = (if ok then padEqual seg2 (g_token1 g) else padEqual [] (g_token1 g));
          in3 = (if ok then padEqual seg3 (g_token2 g) else padEqual [] (g_token2 g));
          (in1, in2, in3, cmpSlug, cmpT1, cmpT2) =
            (if \<not> g_enabled g
             then (g_dummySlug g, g_dummyToken1 g, g_dummyToken2 g,
                   g_dummySlug g, g_dummyToken1 g, g_dummyToken2 g)
             else (in1, in2, in3, g_slug g, g_token1 g, g_token2 g));
          r1 = constant_time_compare in1 cmpSlug;
          r2 = constant_time_compare in2 cmpT1;
          r3 = constant_time_compare in3 cmpT2;
          combined = r1 AND r2 AND r3;
          structuralOK = (if ok \<and> g_enabled g then 1 else 0)
      in combined AND structuralOK = 1)"

text \<open>
  Outcome of \<^verbatim>\<open>Gate.ServeHTTP\<close>: an empty response with a status, the installed handler called with
  the stripped path and raw path, or the run-time panic of a slice out of range.
\<close>

datatype gate_outcome = GateEmpty int | GateDelegate string string | GatePanic

definition gate_serve :: "gate \<Rightarrow> bool \<Rightarrow> string \<Rightarrow> string \<Rightarrow> gate_outcome" where
  "gate_serve g has_handler path rawpath =
     (let matched = matches_prefix g path in
      if \<not> matched then GateEmpty 404
      else if \<not> has_handler then GateEmpty 501
      else if length path < length (g_prefix g) then GatePanic
      else (let rest = drop (length (g_prefix g)) path;
                rest = (if rest = [] then ''/'' else rest);
                raw = (if rawpath \<noteq> [] \<and> has_prefix rawpath (g_prefix g)
                       then (let r = drop (length (g_prefix g)) rawpath
                             in if r = [] then ''/'' else r)
                       else rawpath)
            in GateDelegate rest raw))"

definition redact_path :: "gate option \<Rightarrow> string \<Rightarrow> string" where
  "redact_path g path =
     (case g of
        None \<Rightarrow> path
      | Some g \<Rightarrow>
          if \<not> matches_prefix g path then path
          else if path = [] \<or> hd path \<noteq> CHR ''/'' then path
          else (let parts = splitN 4 CHR ''/'' (tl path) in
            if length parts < 3 then path
            else if length parts = 4 \<and> parts ! 3 \<noteq> [] then ''/**/**/**'' @ ''/'' @ parts ! 3
            else ''/**/**/**''))"

lemmas [gw_defs] = gate_new_def split_three_def gate_serve_def redact_path_def

subsection \<open>Splitting paths\<close>

lemma splitN_one: "splitN 1 c s = [s]"
  by (simp add: One_nat_def)

lemma splitN_step:
  "n \<noteq> 0 \<Longrightarrow> splitN (Suc n) c s =
     (case index_byte s c of None \<Rightarrow> [s] | Some i \<Rightarrow> take i s # splitN n c (drop (Suc i) s))"
  by (cases n) (simp_all split: option.split)

text \<open>The shapes of a path that has three non-empty leading segments.\<close>

lemma splitN_three:
  assumes "3 \<le> length (splitN 4 c s)"
  shows "\<exists>a b d rest. splitN 4 c s = a # b # d # rest \<and> c \<notin> set a \<and> c \<notin> set b \<and> c \<notin> set d
    \<and> (rest = [] \<and> s = a @ c # b @ c # d \<or> (\<exists>e. rest = [e] \<and> s = a @ c # b @ c # d @ c # e))"
proof -
  have n: "(4::nat) = Suc 3" "(3::nat) = Suc 2" "(2::nat) = Suc 1" by simp_all
  obtain i where i: "index_byte s c = Some i"
    using assms unfolding n by (subst (asm) splitN_step) (auto split: option.splits)
  let ?s1 = "drop (Suc i) s"
  have s: "s = take i s @ c # ?s1" "c \<notin> set (take i s)"
    using index_byte_split[OF i] by simp_all
  have sp: "splitN 4 c s = take i s # splitN 3 c ?s1"
    unfolding n(1) by (subst splitN_step) (simp_all add: i)
  obtain j where j: "index_byte ?s1 c = Some j"
    using assms unfolding sp unfolding n(2) by (subst (asm) splitN_step) (auto split: option.splits)
  let ?s2 = "drop (Suc j) ?s1"
  have s1: "?s1 = take j ?s1 @ c # ?s2" "c \<notin> set (take j ?s1)"
    using index_byte_split[OF j] by simp_all
  have sp1: "splitN 3 c ?s1 = take j ?s1 # splitN 2 c ?s2"
    unfolding n(2) by (subst splitN_step) (simp_all add: j)
  show ?thesis
  proof (cases "index_byte ?s2 c")
    case None
    then have "splitN 2 c ?s2 = [?s2]"
      unfolding n(3) by (subst splitN_step) (simp_all del: drop_drop)
    moreover have "c \<notin> set ?s2" using None unfolding index_byte_None .
    ultimately show ?thesis
      using s s1 sp sp1 by (metis append.assoc append_Cons)
  next
    case (Some k)
    let ?s3 = "drop (Suc k) ?s2"
    have "?s2 = take k ?s2 @ c # ?s3" "c \<notin> set (take k ?s2)"
      using index_byte_split[OF Some] by simp_all
    moreover have "splitN 2 c ?s2 = [take k ?s2, ?s3]"
      unfolding n(3) by (subst splitN_step) (simp_all del: drop_drop add: Some splitN_one)
    ultimately show ?thesis
      using s s1 sp sp1 by (metis append.assoc append_Cons)
  qed
qed

lemma split_three_Some:
  assumes "split_three path = Some (a, b, d)"
  shows "\<exists>rest. path = CHR ''/'' # a @ CHR ''/'' # b @ CHR ''/'' # d @ rest
           \<and> (rest = [] \<or> hd rest = CHR ''/'')
           \<and> CHR ''/'' \<notin> set a \<and> CHR ''/'' \<notin> set b \<and> CHR ''/'' \<notin> set d
           \<and> a \<noteq> [] \<and> b \<noteq> [] \<and> d \<noteq> []"
proof -
  from assms have path: "path = CHR ''/'' # tl path"
    and len: "3 \<le> length (splitN 4 CHR ''/'' (tl path))"
    by (auto simp: split_three_def Let_def split: if_splits) (metis list.collapse)
  from splitN_three[OF len] obtain a' b' d' rest where
    sp: "splitN 4 CHR ''/'' (tl path) = a' # b' # d' # rest"
      "CHR ''/'' \<notin> set a'" "CHR ''/'' \<notin> set b'" "CHR ''/'' \<notin> set d'"
    and tl: "rest = [] \<and> tl path = a' @ CHR ''/'' # b' @ CHR ''/'' # d'
      \<or> (\<exists>e. rest = [e] \<and> tl path = a' @ CHR ''/'' # b' @ CHR ''/'' # d' @ CHR ''/'' # e)"
    by blast
  from assms sp(1) have eq: "a' = a" "b' = b" "d' = d" and ne: "a \<noteq> []" "b \<noteq> []" "d \<noteq> []"
    by (auto simp: split_three_def Let_def split: if_splits)
  from tl path eq obtain r where "path = CHR ''/'' # a @ CHR ''/'' # b @ CHR ''/'' # d @ r"
    "r = [] \<or> hd r = CHR ''/''"
    by (metis append_Nil2 list.sel(1))
  with sp eq ne show ?thesis by blast
qed

lemma split_three_eq:
  assumes "CHR ''/'' \<notin> set a" "CHR ''/'' \<notin> set b" "CHR ''/'' \<notin> set d"
    and "a \<noteq> []" "b \<noteq> []" "d \<noteq> []" and "rest = [] \<or> hd rest = CHR ''/''"
  shows "split_three (CHR ''/'' # a @ CHR ''/'' # b @ CHR ''/'' # d @ rest) = Some (a, b, d)"
proof (cases rest)
  case Nil
  then show ?thesis
    using assms splitN_Cons[of "CHR ''/''" a 2] splitN_Cons[of "CHR ''/''" b 1]
      splitN_last[of "CHR ''/''" d 0]
    by (simp add: split_three_def eval_nat_numeral Let_def)
next
  case (Cons x e)
  then show ?thesis
    using assms splitN_Cons[of "CHR ''/''" a 2] splitN_Cons[of "CHR ''/''" b 1]
      splitN_Cons[of "CHR ''/''" d 0]
    by (simp add: split_three_def eval_nat_numeral Let_def)
qed

subsection \<open>What the gate accepts\<close>

lemma compare_and_01:
  "constant_time_compare a b AND constant_time_compare c d AND constant_time_compare e f
     = (if a = b \<and> c = d \<and> e = f then 1 else 0)"
  by (simp add: constant_time_compare_alt)

lemma matches_prefix_alt:
  "matches_prefix g path \<longleftrightarrow>
     g_enabled g \<and> (\<exists>a b d. split_three path = Some (a, b, d)
       \<and> pad_bytes (length (g_slug g)) a = g_slug g
       \<and> pad_bytes (length (g_token1 g)) b = g_token1 g
       \<and> pad_bytes (length (g_token2 g)) d = g_token2 g)"
  unfolding matches_prefix_def Let_def
  by (cases "split_three path") (auto simp: compare_and_01 split: if_splits)

definition gate_config_ok :: "gate_config \<Rightarrow> bool" where
  "gate_config_ok cfg \<longleftrightarrow>
     gc_Enabled cfg
     \<and> list_all (\<lambda>t. t \<noteq> [] \<and> CHR 0x00 \<notin> set t \<and> CHR ''/'' \<notin> set t)
         [gc_Slug cfg, gc_Token1 cfg, gc_Token2 cfg]"

lemma gate_new_ok:
  assumes "gate_config_ok cfg"
  shows "g_enabled (gate_new cfg)" "g_slug (gate_new cfg) = gc_Slug cfg"
    "g_token1 (gate_new cfg) = gc_Token1 cfg" "g_token2 (gate_new cfg) = gc_Token2 cfg"
    "g_prefix (gate_new cfg) = ''/'' @ gc_Slug cfg @ ''/'' @ gc_Token1 cfg @ ''/'' @ gc_Token2 cfg"
  using assms by (auto simp: gate_config_ok_def gate_new_def)

lemma gate_match_shape:
  assumes "gate_config_ok cfg"
  shows "matches_prefix (gate_new cfg) path \<longleftrightarrow>
     (\<exists>x y z rest. path = ''/'' @ gc_Slug cfg @ x @ ''/'' @ gc_Token1 cfg @ y @ ''/''
                            @ gc_Token2 cfg @ z @ rest
        \<and> CHR ''/'' \<notin> set x \<and> CHR ''/'' \<notin> set y \<and> CHR ''/'' \<notin> set z
        \<and> (rest = [] \<or> hd rest = CHR ''/''))"
    (is "?L \<longleftrightarrow> ?R")
proof
  note g = gate_new_ok[OF assms]
  have nul: "CHR 0x00 \<notin> set (gc_Slug cfg)" "CHR 0x00 \<notin> set (gc_Token1 cfg)"
    "CHR 0x00 \<notin> set (gc_Token2 cfg)"
    using assms by (auto simp: gate_config_ok_def)
  assume ?L
  then obtain a b d where sp: "split_three path = Some (a, b, d)"
    and pads: "pad_bytes (length (gc_Slug cfg)) a = gc_Slug cfg"
      "pad_bytes (length (gc_Token1 cfg)) b = gc_Token1 cfg"
      "pad_bytes (length (gc_Token2 cfg)) d = gc_Token2 cfg"
    by (auto simp: matches_prefix_alt g)
  from pads nul obtain x y z where
    "a = gc_Slug cfg @ x" "b = gc_Token1 cfg @ y" "d = gc_Token2 cfg @ z"
    by (metis pad_bytes_eq_nul_free prefixE)
  with split_three_Some[OF sp] show ?R by auto
next
  assume ?R
  then obtain x y z rest where
    p: "path = ''/'' @ gc_Slug cfg @ x @ ''/'' @ gc_Token1 cfg @ y @ ''/'' @ gc_Token2 cfg @ z @ rest"
    and s: "CHR ''/'' \<notin> set x" "CHR ''/'' \<notin> set y" "CHR ''/'' \<notin> set z" "rest = [] \<or> hd rest = CHR ''/''"
    by blast
  have "split_three path = Some (gc_Slug cfg @ x, gc_Token1 cfg @ y, gc_Token2 cfg @ z)"
    using split_three_eq[of "gc_Slug cfg @ x" "gc_Token1 cfg @ y" "gc_Token2 cfg @ z" rest] s assms
    by (simp add: p gate_config_ok_def)
  then show ?L
    by (simp add: matches_prefix_alt gate_new_ok[OF assms] pad_bytes_prefix)
qed

text \<open>
  The exact behaviour of the gate for a usable configuration: a path matches
  when it has three non-empty leading segments that each start with the configured slug
  or token. A segment may therefore carry any extra characters after the secret, which the
  documented form \<^verbatim>\<open>/<slug>/<token1>/<token2>[/...]\<close> does not allow.
\<close>

theorem gate_matches_iff:
  assumes "gate_config_ok cfg"
  shows "matches_prefix (gate_new cfg) path \<longleftrightarrow>
     (\<exists>x y z rest. path = ''/'' @ gc_Slug cfg @ x @ ''/'' @ gc_Token1 cfg @ y @ ''/''
                            @ gc_Token2 cfg @ z @ rest
        \<and> CHR ''/'' \<notin> set x \<and> CHR ''/'' \<notin> set y \<and> CHR ''/'' \<notin> set z
        \<and> (rest = [] \<or> hd rest = CHR ''/''))"
  by (rule gate_match_shape[OF assms])

theorem gate_matches_iff_witness:
  "matches_prefix (gate_new \<lparr>gc_Enabled = True, gc_Slug = ''s1'', gc_Token1 = ''t1'', gc_Token2 = ''u1''\<rparr>)
     ''/s1XYZ/t1/u1''"
proof -
  let ?cfg = "\<lparr>gc_Enabled = True, gc_Slug = ''s1'', gc_Token1 = ''t1'', gc_Token2 = ''u1''\<rparr>"
  have ok: "gate_config_ok ?cfg" by (simp add: gate_config_ok_def)
  show ?thesis
    by (subst gate_matches_iff[OF ok]) (rule exI[of _ "''XYZ''"], rule exI[of _ "[]"], rule exI[of _ "[]"], rule exI[of _ "[]"], simp)
qed

lemma gate_disabled:
  assumes "\<not> (gc_Enabled cfg \<and> gc_Slug cfg \<noteq> [] \<and> gc_Token1 cfg \<noteq> [] \<and> gc_Token2 cfg \<noteq> [])"
  shows "\<not> matches_prefix (gate_new cfg) path"
  using assms by (auto simp: matches_prefix_alt gate_new_def Let_def)

lemma gate_match_long_enough:
  assumes "list_all (\<lambda>t. CHR 0x00 \<notin> set t) [gc_Slug cfg, gc_Token1 cfg, gc_Token2 cfg]"
    and "matches_prefix (gate_new cfg) path"
  shows "length (g_prefix (gate_new cfg)) \<le> length path"
proof -
  have en: "gc_Enabled cfg \<and> gc_Slug cfg \<noteq> [] \<and> gc_Token1 cfg \<noteq> [] \<and> gc_Token2 cfg \<noteq> []"
    using assms(2) gate_disabled by blast
  then have g: "g_slug (gate_new cfg) = gc_Slug cfg" "g_token1 (gate_new cfg) = gc_Token1 cfg"
    "g_token2 (gate_new cfg) = gc_Token2 cfg"
    "length (g_prefix (gate_new cfg)) = length (gc_Slug cfg) + length (gc_Token1 cfg) + length (gc_Token2 cfg) + 3"
    by (simp_all add: gate_new_def)
  from assms(2) obtain a b d where sp: "split_three path = Some (a, b, d)"
    and "prefix (gc_Slug cfg) a" "prefix (gc_Token1 cfg) b" "prefix (gc_Token2 cfg) d"
    using assms(1) by (auto simp: matches_prefix_alt g intro: pad_bytes_eq_nul_free)
  then show ?thesis
    using split_three_Some[OF sp] g(4) by (auto dest!: prefix_length_le)
qed

text \<open>
  \<^verbatim>\<open>Gate.ServeHTTP\<close> never panics on its unchecked slice \<^verbatim>\<open>r.URL.Path[len(g.prefix):]\<close>,
  for any configuration without NUL bytes, enabled or not, and any request path.
\<close>

theorem gate_serve_no_panic:
  assumes "list_all (\<lambda>t. CHR 0x00 \<notin> set t) [gc_Slug cfg, gc_Token1 cfg, gc_Token2 cfg]"
  shows "gate_serve (gate_new cfg) has_handler path rawpath \<noteq> GatePanic"
  using gate_match_long_enough[OF assms, of path] by (auto simp: gate_serve_def Let_def)

theorem gate_serve_no_panic_witness:
  "gate_serve (gate_new \<lparr>gc_Enabled = True, gc_Slug = ''s1'', gc_Token1 = ''t1'', gc_Token2 = ''u1''\<rparr>)
     True ''/s1/t1/u1'' [] \<noteq> GatePanic"
  by (rule gate_serve_no_panic) simp

text \<open>
  A path of the documented form is delegated with exactly the prefix
  removed, and an empty remainder becomes the root path.
\<close>

theorem gate_serve_strips_prefix:
  assumes "gate_config_ok cfg" and "rest = [] \<or> hd rest = CHR ''/''"
  shows "gate_serve (gate_new cfg) True (g_prefix (gate_new cfg) @ rest) []
           = GateDelegate (if rest = [] then ''/'' else rest) []"
proof -
  have "matches_prefix (gate_new cfg) (g_prefix (gate_new cfg) @ rest)"
    unfolding gate_match_shape[OF assms(1)] gate_new_ok[OF assms(1)]
    using assms(2) by (intro exI[of _ "[]"] exI[of _ rest]) simp
  then show ?thesis by (simp add: gate_serve_def)
qed

theorem gate_serve_strips_prefix_witness:
  "gate_serve (gate_new \<lparr>gc_Enabled = True, gc_Slug = ''s'', gc_Token1 = ''t'', gc_Token2 = ''u''\<rparr>)
     True (g_prefix (gate_new \<lparr>gc_Enabled = True, gc_Slug = ''s'', gc_Token1 = ''t'', gc_Token2 = ''u''\<rparr>)
       @ ''/api/x'') [] = GateDelegate ''/api/x'' []"
  using gate_serve_strips_prefix[of "\<lparr>gc_Enabled = True, gc_Slug = ''s'', gc_Token1 = ''t'', gc_Token2 = ''u''\<rparr>" "''/api/x''"]
  by (simp add: gate_config_ok_def)

text \<open>
  Log redaction hides the secrets: for every path the gate accepts, the redacted text
  is the same for all configurations and all segments, and depends only on what follows the
  third segment.
\<close>

theorem redact_path_hides_segments:
  assumes "gate_config_ok cfg"
    and "CHR ''/'' \<notin> set x" "CHR ''/'' \<notin> set y" "CHR ''/'' \<notin> set z"
    and "rest = [] \<or> hd rest = CHR ''/''"
  shows "redact_path (Some (gate_new cfg))
           (''/'' @ gc_Slug cfg @ x @ ''/'' @ gc_Token1 cfg @ y @ ''/'' @ gc_Token2 cfg @ z @ rest)
         = ''/**/**/**'' @ (if rest = ''/'' then [] else rest)"
proof -
  let ?a = "gc_Slug cfg @ x" and ?b = "gc_Token1 cfg @ y" and ?d = "gc_Token2 cfg @ z"
  let ?p = "?a @ CHR ''/'' # ?b @ CHR ''/'' # ?d @ rest"
  have ns: "CHR ''/'' \<notin> set ?a" "CHR ''/'' \<notin> set ?b" "CHR ''/'' \<notin> set ?d"
    using assms by (auto simp: gate_config_ok_def)
  have m: "matches_prefix (gate_new cfg) (CHR ''/'' # ?p)"
    unfolding gate_match_shape[OF assms(1)]
    using assms(2-5) by (intro exI[of _ x] exI[of _ y] exI[of _ z] exI[of _ rest]) simp
  have sp: "splitN 4 CHR ''/'' ?p = [?a, ?b, ?d] @ (if rest = [] then [] else [tl rest])"
  proof (cases rest)
    case Nil
    with splitN_Cons[OF ns(1), of 2] splitN_Cons[OF ns(2), of 1] splitN_last[OF ns(3), of 0]
    show ?thesis by (simp add: eval_nat_numeral)
  next
    case (Cons c e)
    with splitN_Cons[OF ns(1), of 2] splitN_Cons[OF ns(2), of 1] splitN_Cons[OF ns(3), of 0] assms(5)
    show ?thesis by (simp add: eval_nat_numeral)
  qed
  show ?thesis
    using m sp assms(5) by (cases rest) (auto simp: redact_path_def)
qed

theorem redact_path_hides_segments_witness:
  "redact_path (Some (gate_new \<lparr>gc_Enabled = True, gc_Slug = ''s'', gc_Token1 = ''t'', gc_Token2 = ''u''\<rparr>))
     ''/s/t/u/api'' = ''/**/**/**/api''"
  using redact_path_hides_segments[of "\<lparr>gc_Enabled = True, gc_Slug = ''s'', gc_Token1 = ''t'', gc_Token2 = ''u''\<rparr>"
      "[]" "[]" "[]" "''/api''"]
  by (simp add: gate_config_ok_def)

end
