(* ===== verification/Admin.thy ===== *)
theory Admin
  imports Lockout Session Gate
begin

text \<open>
  The admin request handler, \<^verbatim>\<open>internal/admin/handler.go\<close>: lockout check, session resolution,
  CSRF check and dispatch, over the lockout table, the session store and the audit log. The
  API router and the embedded UI files are arguments. Responses record the calls made
  on the response writer: cookies, headers, and the final call that writes a status.
\<close>

subsection \<open>Model\<close>

record cookie =
  ck_Name :: string
  ck_Value :: string
  ck_Path :: string
  ck_HttpOnly :: bool
  ck_Secure :: bool
  ck_SameSiteStrict :: bool
  ck_MaxAge :: int

definition CookieName :: string where "CookieName = ''gw_adm''"
definition CSRFHeader :: string where "CSRFHeader = ''X-CSRF-Token''"

text \<open>\<^verbatim>\<open>int(d.Seconds())\<close>; exact for durations below \<open>2 ^ 22\<close> seconds, where the float is.\<close>

definition whole_seconds :: "duration \<Rightarrow> int" where
  "whole_seconds d = (if 0 \<le> d then d div second else - ((- d) div second))"

definition session_cookie :: "string \<Rightarrow> session \<Rightarrow> duration \<Rightarrow> cookie" where
  "session_cookie pathPrefix s idleTTL =
     \<lparr>ck_Name = CookieName, ck_Value = sess_ID s,
      ck_Path = (if pathPrefix = [] then ''/'' else pathPrefix),
      ck_HttpOnly = True, ck_Secure = True, ck_SameSiteStrict = True,
      ck_MaxAge = whole_seconds idleTTL\<rparr>"

definition clear_cookie :: "string \<Rightarrow> cookie" where
  "clear_cookie pathPrefix =
     \<lparr>ck_Name = CookieName, ck_Value = [],
      ck_Path = (if pathPrefix = [] then ''/'' else pathPrefix),
      ck_HttpOnly = True, ck_Secure = True, ck_SameSiteStrict = True, ck_MaxAge = -1\<rparr>"

record audit_event =
  ev_Actor :: string
  ev_ActorIP :: string
  ev_NodeID :: string
  ev_Action :: string
  ev_Target :: string
  ev_SessionID :: string

record admin_cfg =
  ac_NodeID :: string
  ac_PathPrefix :: string
  ac_UI :: "(string \<rightharpoonup> string) option"
  ac_hasAPIRouter :: bool

record admin_state =
  as_lockout :: lockout
  as_sessions :: session_store
  as_audit :: "audit_event list"

record admin_request =
  rq_RemoteAddr :: string
  rq_Method :: string
  rq_Path :: string
  rq_Cookie :: string
  rq_CSRF :: string

text \<open>The last call on the response writer: an empty body with a status, a redirect, the
  API router, or a UI file with its content type.\<close>

datatype admin_final =
  FinalEmpty int
| FinalNoBody int
| FinalRedirect string int
| FinalAPI
| FinalFile string string

record admin_response =
  ar_cookies :: "cookie list"
  ar_csrf :: "string option"
  ar_final :: admin_final

definition admin_ip_hash :: "(string \<Rightarrow> string) \<Rightarrow> string \<Rightarrow> string" where
  "admin_ip_hash labeler remoteAddr =
     labeler (case split_host_port remoteAddr of Some hh \<Rightarrow> hh | None \<Rightarrow> remoteAddr)"

definition serve_ui :: "admin_cfg \<Rightarrow> string \<Rightarrow> admin_final" where
  "serve_ui cfg name =
     (case ac_UI cfg of
        None \<Rightarrow> FinalEmpty 204
      | Some ui \<Rightarrow>
          (case ui name of
             None \<Rightarrow> FinalEmpty 404
           | Some data \<Rightarrow>
               FinalFile
                 (if has_suffix name ''.html'' then ''text/html; charset=utf-8''
                  else if has_suffix name ''.css'' then ''text/css; charset=utf-8''
                  else if has_suffix name ''.js'' then ''application/javascript''
                  else if has_suffix name ''.json'' then ''application/json''
                  else if has_suffix name ''.svg'' then ''image/svg+xml''
                  else []) data))"

definition admin_dispatch ::
  "admin_cfg \<Rightarrow> admin_state \<Rightarrow> admin_request \<Rightarrow> string \<Rightarrow> session \<Rightarrow> admin_response \<times> admin_state" where
  "admin_dispatch cfg st rq ipHash sess =
     (let resp = (\<lambda>cs f. \<lparr>ar_cookies = cs, ar_csrf = Some (sess_CSRFToken sess), ar_final = f\<rparr>);
          path = rq_Path rq in
      if path = ''/logout'' then
        (resp [clear_cookie (ac_PathPrefix cfg)] (FinalNoBody 204),
         st\<lparr>as_sessions := snd (session_delete (as_sessions st) (sess_ID sess)),
            as_audit := as_audit st @
              [\<lparr>ev_Actor = sess_ID sess, ev_ActorIP = ipHash, ev_NodeID = ac_NodeID cfg,
                ev_Action = ''session.logout'', ev_Target = [], ev_SessionID = sess_ID sess\<rparr>]\<rparr>)
      else if has_prefix path ''/api/'' then
        (if ac_hasAPIRouter cfg then (resp [] FinalAPI, st) else (resp [] (FinalEmpty 404), st))
      else if has_prefix path ''/static/'' then
        (resp [] (serve_ui cfg (''ui/'' @ drop 1 path)), st)
      else if path = ''/'' \<or> path = [] then (resp [] (serve_ui cfg ''ui/index.html''), st)
      else (resp [] (FinalEmpty 404), st))"

definition admin_serve ::
  "admin_cfg \<Rightarrow> (string \<Rightarrow> string) \<Rightarrow> admin_state \<Rightarrow> admin_request \<Rightarrow> time
     \<Rightarrow> nat list option \<Rightarrow> nat list option \<Rightarrow> admin_response \<times> admin_state" where
  "admin_serve cfg labeler st rq now rnd_id rnd_csrf =
     (let ipHash = admin_ip_hash labeler (rq_RemoteAddr rq);
          sid = rq_Cookie rq in
      if check_lockout (as_lockout st) ipHash now \<noteq> StateAllowed
      then (\<lparr>ar_cookies = [], ar_csrf = None, ar_final = FinalEmpty 404\<rparr>, st)
      else
        (case (if sid \<noteq> [] then session_get (as_sessions st) sid now else None) of
           Some sess \<Rightarrow>
             (let st = st\<lparr>as_sessions := snd (session_refresh (as_sessions st) sid now)\<rparr> in
              if \<not> ValidateCSRF (Some sess) (rq_Method rq) (rq_CSRF rq)
              then (\<lparr>ar_cookies = [], ar_csrf = Some (sess_CSRFToken sess), ar_final = FinalEmpty 403\<rparr>,
                    st\<lparr>as_audit := as_audit st @
                      [\<lparr>ev_Actor = sess_ID sess, ev_ActorIP = ipHash, ev_NodeID = ac_NodeID cfg,
                        ev_Action = ''csrf.reject'', ev_Target = rq_Path rq, ev_SessionID = sess_ID sess\<rparr>]\<rparr>)
              else admin_dispatch cfg st rq ipHash sess)
         | None \<Rightarrow>
             (case session_create (as_sessions st) ipHash now rnd_id rnd_csrf of
                None \<Rightarrow> (\<lparr>ar_cookies = [], ar_csrf = None, ar_final = FinalEmpty 500\<rparr>, st)
              | Some (sess, ss) \<Rightarrow>
                  (\<lparr>ar_cookies = [session_cookie (ac_PathPrefix cfg) sess (ss_idleTTL (as_sessions st))],
                    ar_csrf = Some (sess_CSRFToken sess),
                    ar_final = FinalRedirect (ac_PathPrefix cfg @ ''/'') 302\<rparr>,
                   st\<lparr>as_sessions := ss, as_lockout := record_success (as_lockout st) ipHash\<rparr>))))"

lemmas [gw_defs] = admin_serve_def admin_dispatch_def serve_ui_def admin_ip_hash_def

subsection \<open>Correctness\<close>

lemma admin_dispatch_final:
  "ar_final (fst (admin_dispatch cfg st rq ip sess)) = FinalAPI \<Longrightarrow>
     has_prefix (rq_Path rq) ''/api/'' \<and> snd (admin_dispatch cfg st rq ip sess) = st"
  by (auto simp: admin_dispatch_def serve_ui_def Let_def split: if_splits option.splits)

text \<open>
  C6 (safety). The API router runs only for a request whose source is not locked out,
  whose cookie names a live session, and whose method is safe or whose CSRF header passed
  validation for that session.
\<close>

theorem admin_api_requires_session:
  assumes "ar_final (fst (admin_serve cfg labeler st rq now r1 r2)) = FinalAPI"
  shows "check_lockout (as_lockout st) (admin_ip_hash labeler (rq_RemoteAddr rq)) now = StateAllowed
     \<and> (\<exists>sess. session_get (as_sessions st) (rq_Cookie rq) now = Some sess
          \<and> ValidateCSRF (Some sess) (rq_Method rq) (rq_CSRF rq))
     \<and> has_prefix (rq_Path rq) ''/api/''"
  using assms
  by (auto simp: admin_serve_def Let_def dest: admin_dispatch_final split: if_splits option.splits)

definition demo_token :: string where
  "demo_token = base64url_encode (replicate 32 7)"

definition demo_session :: session where
  "demo_session = \<lparr>sess_ID = demo_token, sess_IPHash = ''h'', sess_CreatedAt = 0, sess_LastSeen = 5,
     sess_CSRFToken = ''tok'', sess_ExpiresAt = 100\<rparr>"

definition demo_state :: admin_state where
  "demo_state = \<lparr>as_lockout = new_lockout default_lockout_config,
     as_sessions = \<lparr>ss_sessions = [(demo_token, demo_session)], ss_idleTTL = 50, ss_absoluteTTL = 100\<rparr>,
     as_audit = []\<rparr>"

definition demo_cfg :: admin_cfg where
  "demo_cfg = \<lparr>ac_NodeID = ''n'', ac_PathPrefix = ''/p'', ac_UI = None, ac_hasAPIRouter = True\<rparr>"

definition demo_request :: "string \<Rightarrow> string \<Rightarrow> admin_request" where
  "demo_request meth csrf = \<lparr>rq_RemoteAddr = ''1.2.3.4:5'', rq_Method = meth, rq_Path = ''/api/x'',
     rq_Cookie = demo_token, rq_CSRF = csrf\<rparr>"

lemma demo_token_nonempty: "demo_token \<noteq> []"
  using length_base64url_encode[of "replicate 32 7"] by (auto simp: demo_token_def)

theorem admin_api_requires_session_witness:
  "\<exists>sess. session_get (as_sessions demo_state) demo_token 10 = Some sess
     \<and> ValidateCSRF (Some sess) ''POST'' ''tok''"
proof -
  have "ar_final (fst (admin_serve demo_cfg id demo_state (demo_request ''POST'' ''tok'') 10 None None)) = FinalAPI"
    using demo_token_nonempty
    by (simp add: demo_state_def demo_cfg_def demo_request_def demo_session_def gw_defs Let_def
        has_prefix_def ValidateCSRF_def time_sub_def min_int64_def max_int64_def)
  from admin_api_requires_session[OF this] show ?thesis by (simp add: demo_request_def)
qed

text \<open>
  Every request keeps the session store's invariant, whatever the
  request, the clock and the random bytes are.
\<close>

theorem admin_serve_keeps_session_inv:
  assumes "session_inv (as_sessions st)" and "\<And>bytes. r1 = Some bytes \<Longrightarrow> length bytes = 32"
  shows "session_inv (as_sessions (snd (admin_serve cfg labeler st rq now r1 r2)))"
  using assms
  by (auto simp: admin_serve_def admin_dispatch_def Let_def session_inv_refresh session_inv_delete
      intro: session_inv_create[OF assms(1)] split: if_splits option.splits)

theorem admin_serve_keeps_session_inv_witness:
  "session_inv (as_sessions (snd (admin_serve demo_cfg id
     (demo_state\<lparr>as_sessions := new_session_store 5 9\<rparr>) (demo_request ''GET'' []) 3
     (Some (replicate 32 1)) (Some (replicate 32 2)))))"
  by (rule admin_serve_keeps_session_inv) (auto simp: session_inv_new)

lemma admin_serve_lockout_empty:
  "lo_entries (as_lockout st) = Map.empty \<Longrightarrow>
     lo_entries (as_lockout (snd (admin_serve cfg labeler st rq now r1 r2))) = Map.empty"
  by (auto simp: admin_serve_def admin_dispatch_def record_success_def Let_def split: option.splits)

text \<open>
  The handler only ever clears lockout entries: starting from an empty lockout table,
  no sequence of requests makes it refuse anyone. \<^verbatim>\<open>RecordFailure\<close> has no caller in the gateway, so
  the documented soft backoff and hard ban never take effect.
\<close>

theorem admin_lockout_never_trips:
  "check_lockout (as_lockout (fold (\<lambda>(rq, now, r1, r2) st. snd (admin_serve cfg labeler st rq now r1 r2))
     reqs \<lparr>as_lockout = new_lockout lcfg, as_sessions = ss, as_audit = au\<rparr>)) ip t = StateAllowed"
proof -
  have "lo_entries (as_lockout st) = Map.empty \<Longrightarrow>
    lo_entries (as_lockout (fold (\<lambda>(rq, now, r1, r2) st. snd (admin_serve cfg labeler st rq now r1 r2)) reqs st))
      = Map.empty" for st
    by (induction reqs arbitrary: st) (auto simp: admin_serve_lockout_empty)
  then show ?thesis by (simp add: check_lockout_def new_lockout_def)
qed

end
