(* ===== verification/Negcache.thy ===== *)
theory Negcache
  imports Expiry
begin

text \<open>
  The negative cache of failing backends, \<^verbatim>\<open>internal/feature/negcache/negcache.go\<close>. One
  cache serves all tenants; the key of a (tenant, onion) pair joins the two names with a NUL byte.
  Every method is one step on the record \<open>negcache\<close>; the clock readings of a method are its
  arguments (\<open>RecordFailure\<close> reads the clock up to twice). The specification is a
  machine for a single pair; the refinement shows that the shared cache runs one such
  machine for every pair, undisturbed by the other pairs, by polling and by sweeps.
\<close>

subsection \<open>Model\<close>

record negcache =
  nc_counters :: "string \<rightharpoonup> int"
  nc_blacklist :: "(string \<times> time) list"
  nc_ttl :: duration
  nc_threshold :: int

record negcache_entry =
  ne_Tenant :: string
  ne_Onion :: string
  ne_ExpiresAt :: time

definition new_cache :: "duration \<Rightarrow> int \<Rightarrow> negcache" where
  "new_cache defaultTTL failureThreshold =
     \<lparr>nc_counters = Map.empty, nc_blacklist = [], nc_ttl = defaultTTL,
      nc_threshold = failureThreshold\<rparr>"

definition negcache_configure :: "negcache \<Rightarrow> duration \<Rightarrow> int \<Rightarrow> negcache" where
  "negcache_configure c defaultTTL failureThreshold =
     c\<lparr>nc_ttl := defaultTTL, nc_threshold := failureThreshold\<rparr>"

definition key_for :: "string \<Rightarrow> string \<Rightarrow> string" where
  "key_for tenant onion = tenant @ CHR 0x00 # onion"

definition split_key :: "string \<Rightarrow> (string \<times> string) option" where
  "split_key key =
     (case index_byte key (CHR 0x00) of
        None \<Rightarrow> None
      | Some i \<Rightarrow> Some (take i key, drop (Suc i) key))"

definition is_blacklisted :: "negcache \<Rightarrow> string \<Rightarrow> string \<Rightarrow> time \<Rightarrow> bool \<times> negcache" where
  "is_blacklisted c tenant onion now =
     (let key = key_for tenant onion in
      case map_of (nc_blacklist c) key of
        None \<Rightarrow> (False, c)
      | Some e \<Rightarrow>
          if now < e then (True, c)
          else (False, c\<lparr>nc_blacklist := alist_del key (nc_blacklist c)\<rparr>))"

definition load_or_store_counter :: "negcache \<Rightarrow> string \<Rightarrow> int \<times> negcache" where
  "load_or_store_counter c key =
     (case nc_counters c key of
        Some n \<Rightarrow> (n, c)
      | None \<Rightarrow> (0, c\<lparr>nc_counters := (nc_counters c)(key \<mapsto> 0)\<rparr>))"

definition count_failure :: "negcache \<Rightarrow> string \<Rightarrow> time \<Rightarrow> negcache" where
  "count_failure c key now =
     (let (n0, c1) = load_or_store_counter c key;
          n = wrap64 (n0 + 1);
          c2 = c1\<lparr>nc_counters := (nc_counters c1)(key \<mapsto> n)\<rparr>
      in if n < nc_threshold c then c2
         else if nc_ttl c > 0 then
           (case map_of (nc_blacklist c2) key of
              Some _ \<Rightarrow> c2
            | None \<Rightarrow> c2\<lparr>nc_blacklist := alist_put key (now + nc_ttl c) (nc_blacklist c2)\<rparr>)
         else c2)"

definition negcache_record_failure ::
  "negcache \<Rightarrow> string \<Rightarrow> string \<Rightarrow> time \<Rightarrow> time \<Rightarrow> negcache" where
  "negcache_record_failure c tenant onion now1 now2 =
     (if nc_threshold c \<le> 0 then c
      else
        (let key = key_for tenant onion in
         case map_of (nc_blacklist c) key of
           None \<Rightarrow> count_failure c key now2
         | Some _ \<Rightarrow>
             (let (hit, c1) = is_blacklisted c tenant onion now1
              in if hit then c1 else count_failure c1 key now2)))"

definition negcache_record_success :: "negcache \<Rightarrow> string \<Rightarrow> string \<Rightarrow> negcache" where
  "negcache_record_success c tenant onion =
     (let key = key_for tenant onion;
          c1 = (case nc_counters c key of
                  Some _ \<Rightarrow> c\<lparr>nc_counters := (nc_counters c)(key \<mapsto> 0)\<rparr>
                | None \<Rightarrow> c)
      in c1\<lparr>nc_blacklist := alist_del key (nc_blacklist c1)\<rparr>)"

definition negcache_sweep :: "negcache \<Rightarrow> time \<Rightarrow> int \<times> negcache" where
  "negcache_sweep c now =
     (int (length (filter (\<lambda>(k, e). \<not> now < e) (nc_blacklist c))),
      c\<lparr>nc_blacklist := filter (\<lambda>(k, e). now < e) (nc_blacklist c)\<rparr>)"

definition snapshot_row :: "time \<Rightarrow> string \<times> time \<Rightarrow> negcache_entry option" where
  "snapshot_row now kv =
     (case split_key (fst kv) of
        None \<Rightarrow> None
      | Some (tenant, onion) \<Rightarrow>
          if \<not> now < snd kv then None
          else Some \<lparr>ne_Tenant = tenant, ne_Onion = onion, ne_ExpiresAt = snd kv\<rparr>)"

definition negcache_snapshot :: "negcache \<Rightarrow> time \<Rightarrow> negcache_entry list" where
  "negcache_snapshot c now =
     sort_key (\<lambda>e. (ne_Tenant e, ne_Onion e)) (List.map_filter (snapshot_row now) (nc_blacklist c))"

lemmas [gw_defs] = new_cache_def negcache_configure_def is_blacklisted_def
  load_or_store_counter_def count_failure_def negcache_record_failure_def
  negcache_record_success_def negcache_sweep_def

subsection \<open>Keys\<close>

lemma split_key_key_for: "CHR 0x00 \<notin> set tenant \<Longrightarrow> split_key (key_for tenant onion) = Some (tenant, onion)"
  by (simp add: split_key_def key_for_def index_byte_append)

lemma split_key_Some: "split_key k = Some (t, n) \<longleftrightarrow> k = key_for t n \<and> CHR 0x00 \<notin> set t"
proof
  assume "split_key k = Some (t, n)"
  then obtain i where "index_byte k (CHR 0x00) = Some i" "t = take i k" "n = drop (Suc i) k"
    by (auto simp: split_key_def split: option.splits)
  then show "k = key_for t n \<and> CHR 0x00 \<notin> set t"
    using index_byte_split[of k "CHR 0x00" i] by (simp add: key_for_def)
qed (simp add: split_key_key_for)

lemma key_for_inj:
  assumes "CHR 0x00 \<notin> set t" and "CHR 0x00 \<notin> set t'"
  shows "key_for t n = key_for t' n' \<longleftrightarrow> t = t' \<and> n = n'"
  using split_key_key_for[OF assms(1), of n] split_key_key_for[OF assms(2), of n']
  by (metis option.inject prod.inject)

subsection \<open>Invariant and the expiry interface\<close>

definition negcache_inv :: "negcache \<Rightarrow> bool" where
  "negcache_inv c \<longleftrightarrow> distinct (map fst (nc_blacklist c))"

definition negcache_live :: "negcache \<Rightarrow> time \<Rightarrow> string \<Rightarrow> bool" where
  "negcache_live c now k = (case map_of (nc_blacklist c) k of None \<Rightarrow> False | Some e \<Rightarrow> now < e)"

lemma negcache_inv_ops [simp]:
  "negcache_inv (new_cache ttl thr)"
  "negcache_inv c \<Longrightarrow> negcache_inv (negcache_configure c ttl thr)"
  "negcache_inv c \<Longrightarrow> negcache_inv (snd (is_blacklisted c t n now))"
  "negcache_inv c \<Longrightarrow> negcache_inv (count_failure c k now)"
  "negcache_inv c \<Longrightarrow> negcache_inv (negcache_record_success c t n)"
  "negcache_inv c \<Longrightarrow> negcache_inv (snd (negcache_sweep c now))"
  by (auto simp: negcache_inv_def gw_defs Let_def distinct_alist_put distinct_alist_del
      distinct_alist_filter split: option.splits)

lemma negcache_inv_record_failure [simp]:
  "negcache_inv c \<Longrightarrow> negcache_inv (negcache_record_failure c t n now1 now2)"
  using negcache_inv_ops(3)[of c t n now1]
  by (cases "is_blacklisted c t n now1")
     (simp add: negcache_record_failure_def Let_def split: option.split)

lemma map_of_negcache_sweep:
  "negcache_inv c \<Longrightarrow> map_of (nc_blacklist (snd (negcache_sweep c now))) k =
     (case map_of (nc_blacklist c) k of None \<Rightarrow> None | Some e \<Rightarrow> if now < e then Some e else None)"
  by (simp add: negcache_inv_def negcache_sweep_def Let_def map_of_alist_filter)

interpretation negcache_gc: reclaiming negcache_inv negcache_live
  "\<lambda>c now. snd (negcache_sweep c now)" "\<lambda>c k. map_of (nc_blacklist c) k \<noteq> None"
  by unfold_locales
     (auto simp: negcache_live_def map_of_negcache_sweep split: option.splits if_splits)

subsection \<open>Specification: one machine per backend\<close>

text \<open>
  The history of a cache, and the machine it implements for one pair: the count of
  consecutive failures and the deadline of the current ban. A ban does not reset the count, so the
  first failure after a ban has run out starts the next ban.
\<close>

datatype negcache_op =
    NFailure string string time time
  | NSuccess string string
  | NPoll string string time
  | NSweep time
  | NConfigure duration int

fun negcache_step :: "negcache_op \<Rightarrow> negcache \<Rightarrow> negcache" where
  "negcache_step (NFailure t n now1 now2) c = negcache_record_failure c t n now1 now2"
| "negcache_step (NSuccess t n) c = negcache_record_success c t n"
| "negcache_step (NPoll t n now) c = snd (is_blacklisted c t n now)"
| "negcache_step (NSweep now) c = snd (negcache_sweep c now)"
| "negcache_step (NConfigure ttl thr) c = negcache_configure c ttl thr"

record backend_state =
  bs_failures :: int
  bs_until :: "time option"
  bs_ttl :: duration
  bs_threshold :: int

definition banned :: "backend_state \<Rightarrow> time \<Rightarrow> bool" where
  "banned b now = (case bs_until b of None \<Rightarrow> False | Some e \<Rightarrow> now < e)"

definition backend_failure :: "time \<Rightarrow> time \<Rightarrow> backend_state \<Rightarrow> backend_state" where
  "backend_failure now1 now2 b =
     (if bs_threshold b \<le> 0 \<or> banned b now1 then b
      else
        (let n = wrap64 (bs_failures b + 1) in
         b\<lparr>bs_failures := n,
           bs_until := if bs_threshold b \<le> n \<and> 0 < bs_ttl b then Some (now2 + bs_ttl b) else None\<rparr>))"

fun backend_step :: "string \<Rightarrow> string \<Rightarrow> negcache_op \<Rightarrow> backend_state \<Rightarrow> backend_state" where
  "backend_step t n (NFailure t' n' now1 now2) b =
     (if t' = t \<and> n' = n then backend_failure now1 now2 b else b)"
| "backend_step t n (NSuccess t' n') b =
     (if t' = t \<and> n' = n then b\<lparr>bs_failures := 0, bs_until := None\<rparr> else b)"
| "backend_step t n (NConfigure ttl thr) b = b\<lparr>bs_ttl := ttl, bs_threshold := thr\<rparr>"
| "backend_step t n (NPoll t' n' now) b = b"
| "backend_step t n (NSweep now) b = b"

fun op_tenant_ok :: "negcache_op \<Rightarrow> bool" where
  "op_tenant_ok (NFailure t n now1 now2) = (CHR 0x00 \<notin> set t)"
| "op_tenant_ok (NSuccess t n) = (CHR 0x00 \<notin> set t)"
| "op_tenant_ok (NPoll t n now) = (CHR 0x00 \<notin> set t)"
| "op_tenant_ok _ = True"

fun op_times :: "negcache_op \<Rightarrow> time list" where
  "op_times (NFailure t n now1 now2) = [now1, now2]"
| "op_times (NPoll t n now) = [now]"
| "op_times (NSweep now) = [now]"
| "op_times _ = []"

text \<open>The abstraction: what the cache holds for one key, as far as it matters from \<open>now\<close> on.\<close>

definition backend_view :: "negcache \<Rightarrow> string \<Rightarrow> backend_state" where
  "backend_view c k =
     \<lparr>bs_failures = (case nc_counters c k of None \<Rightarrow> 0 | Some n \<Rightarrow> n),
      bs_until = map_of (nc_blacklist c) k, bs_ttl = nc_ttl c, bs_threshold = nc_threshold c\<rparr>"

definition same_from :: "time \<Rightarrow> backend_state \<Rightarrow> backend_state \<Rightarrow> bool" where
  "same_from now a b \<longleftrightarrow>
     bs_failures a = bs_failures b \<and> bs_ttl a = bs_ttl b \<and> bs_threshold a = bs_threshold b
     \<and> (\<forall>u\<ge>now. banned a u = banned b u)"

lemma backend_view_failure:
  "backend_view (negcache_record_failure c t n now1 now2) (key_for t n)
     = backend_failure now1 now2 (backend_view c (key_for t n))"
  by (auto simp: backend_view_def backend_failure_def banned_def gw_defs Let_def map_of_alist_put
      map_of_alist_del split: option.splits)

lemma backend_view_failure_other:
  "key_for t n \<noteq> k \<Longrightarrow> backend_view (negcache_record_failure c t n now1 now2) k = backend_view c k"
  by (auto simp: backend_view_def gw_defs Let_def map_of_alist_put
      map_of_alist_del split: option.splits)

lemma backend_view_success:
  "backend_view (negcache_record_success c t n) k =
     (if k = key_for t n then (backend_view c k)\<lparr>bs_failures := 0, bs_until := None\<rparr>
      else backend_view c k)"
  by (auto simp: backend_view_def gw_defs Let_def map_of_alist_del split: option.splits)

lemma same_from_failure:
  "same_from now a b \<Longrightarrow> now \<le> now1 \<Longrightarrow> same_from now1 (backend_failure now1 now2 a) (backend_failure now1 now2 b)"
  by (auto simp: same_from_def backend_failure_def banned_def Let_def)

lemma same_from_mono: "same_from t a b \<Longrightarrow> t \<le> u \<Longrightarrow> same_from u a b"
  by (auto simp: same_from_def)

lemma backend_view_poll:
  "now \<le> u \<Longrightarrow> banned (backend_view (snd (is_blacklisted c t n now)) k) u = banned (backend_view c k) u"
  by (auto simp: backend_view_def banned_def gw_defs Let_def map_of_alist_del split: option.splits)

lemma backend_view_sweep:
  "negcache_inv c \<Longrightarrow> now \<le> u \<Longrightarrow>
     banned (backend_view (snd (negcache_sweep c now)) k) u = banned (backend_view c k) u"
  using negcache_gc.live_sweep[of c now u k]
  by (simp add: backend_view_def banned_def negcache_live_def)

lemma same_from_poll:
  "same_from now (backend_view c k) b \<Longrightarrow>
     same_from now (backend_view (snd (is_blacklisted c t n now)) k) b"
  using backend_view_poll
  by (auto simp: same_from_def) (auto simp: backend_view_def gw_defs Let_def split: option.splits)

lemma same_from_sweep:
  "negcache_inv c \<Longrightarrow> same_from now (backend_view c k) b \<Longrightarrow>
     same_from now (backend_view (snd (negcache_sweep c now)) k) b"
  using backend_view_sweep
  by (auto simp: same_from_def) (auto simp: backend_view_def gw_defs)

lemma backend_step_sim:
  assumes inv: "negcache_inv c" and ok: "op_tenant_ok op" "CHR 0x00 \<notin> set t"
    and sim: "same_from now (backend_view c (key_for t n)) b"
    and times: "sorted (now # op_times op)"
  shows "same_from (last (now # op_times op))
           (backend_view (negcache_step op c) (key_for t n)) (backend_step t n op b)"
proof (cases op)
  case (NFailure t' n' now1 now2)
  with times have le: "now \<le> now1" "now1 \<le> now2" by auto
  show ?thesis
  proof (cases "t' = t \<and> n' = n")
    case True
    then show ?thesis
      using NFailure same_from_mono[OF same_from_failure[OF sim le(1)] le(2)]
      by (simp add: backend_view_failure)
  next
    case False
    then have "key_for t' n' \<noteq> key_for t n"
      using ok NFailure by (simp add: key_for_inj)
    then show ?thesis
      using False NFailure same_from_mono[OF sim, of now2] le
      by (auto simp: backend_view_failure_other)
  qed
next
  case (NSuccess t' n')
  then show ?thesis
    using ok sim key_for_inj[of t t' n n']
    by (auto simp: backend_view_success same_from_def banned_def)
next
  case (NPoll t' n' u)
  then show ?thesis
    using times same_from_poll[OF same_from_mono[OF sim]] by simp
next
  case (NSweep u)
  then show ?thesis
    using times same_from_sweep[OF inv same_from_mono[OF sim]] by simp
next
  case (NConfigure ttl thr)
  then show ?thesis
    using sim by (auto simp: negcache_configure_def same_from_def backend_view_def banned_def)
qed

lemma negcache_inv_step: "negcache_inv c \<Longrightarrow> negcache_inv (negcache_step op c)"
  by (cases op) simp_all

lemma backend_run_sim:
  assumes "negcache_inv c" and "list_all op_tenant_ok ops" and "CHR 0x00 \<notin> set t"
    and "same_from now (backend_view c (key_for t n)) b"
    and "sorted (now # concat (map op_times ops))"
  shows "same_from (last (now # concat (map op_times ops)))
           (backend_view (fold negcache_step ops c) (key_for t n)) (fold (backend_step t n) ops b)"
  using assms
proof (induction ops arbitrary: c b now)
  case (Cons op ops)
  let ?now = "last (now # op_times op)"
  have s1: "sorted (now # op_times op)"
    using Cons.prems(5) by (simp add: sorted_append)
  have "?now \<in> set (now # op_times op)" by (rule last_in_set) simp
  then have s2: "sorted (?now # concat (map op_times ops))"
    using Cons.prems(5) by (auto simp: sorted_append)
  have "last (now # concat (map op_times (op # ops))) = last (?now # concat (map op_times ops))"
    by simp
  moreover have "same_from (last (?now # concat (map op_times ops)))
      (backend_view (fold negcache_step ops (negcache_step op c)) (key_for t n))
      (fold (backend_step t n) ops (backend_step t n op b))"
    using Cons.prems s1 s2 by (intro Cons.IH backend_step_sim negcache_inv_step) simp_all
  ultimately show ?case by simp
qed simp

lemma sorted_bounds:
  "sorted (ts @ [now]) \<Longrightarrow> sorted (hd (ts @ [now]) # ts) \<and> last (hd (ts @ [now]) # ts) \<le> (now :: time)"
  by (cases ts) (auto simp: sorted_append)

lemma fst_is_blacklisted: "fst (is_blacklisted c t n now) = banned (backend_view c (key_for t n)) now"
  by (simp add: is_blacklisted_def banned_def backend_view_def Let_def split: option.splits)

lemma negcache_sim_fresh:
  assumes "list_all op_tenant_ok ops" and "CHR 0x00 \<notin> set tenant"
    and "sorted (concat (map op_times ops) @ [now])"
  shows "fst (is_blacklisted (fold negcache_step ops (new_cache ttl thr)) tenant onion now)
    = banned (fold (backend_step tenant onion) ops
        \<lparr>bs_failures = 0, bs_until = None, bs_ttl = ttl, bs_threshold = thr\<rparr>) now"
proof -
  let ?ts = "concat (map op_times ops)"
  let ?b = "\<lparr>bs_failures = 0, bs_until = None, bs_ttl = ttl, bs_threshold = thr\<rparr>"
  let ?t0 = "hd (?ts @ [now])"
  have sorted: "sorted (?t0 # ?ts)" and last: "last (?t0 # ?ts) \<le> now"
    using assms(3) sorted_bounds[of ?ts now] by simp_all
  have "same_from ?t0 (backend_view (new_cache ttl thr) (key_for tenant onion)) ?b"
    by (simp add: same_from_def backend_view_def new_cache_def)
  from backend_run_sim[OF _ assms(1,2) this sorted] last show ?thesis
    by (simp add: fst_is_blacklisted same_from_def)
qed

text \<open>
  C11 (refinement). For every history of failures, successes, polls, sweeps and
  reconfigurations of a fresh cache shared by all pairs, with tenants free of NUL bytes and a clock that does not run backwards,
  \<^verbatim>\<open>IsBlacklisted(tenant, onion)\<close> answers what the machine of that pair alone answers.
\<close>

theorem negcache_refines_backend:
  assumes "list_all op_tenant_ok ops" and "CHR 0x00 \<notin> set tenant"
    and "sorted (concat (map op_times ops) @ [now])"
  shows "fst (is_blacklisted (fold negcache_step ops (new_cache ttl thr)) tenant onion now)
    = banned (fold (backend_step tenant onion) ops
        \<lparr>bs_failures = 0, bs_until = None, bs_ttl = ttl, bs_threshold = thr\<rparr>) now"
  using assms by (rule negcache_sim_fresh)

theorem negcache_refines_backend_witness:
  "fst (is_blacklisted
     (fold negcache_step
        [NFailure ''a'' ''x'' 10 10, NFailure ''b'' ''x'' 11 11, NSweep 12, NFailure ''a'' ''x'' 13 14]
        (new_cache 5 2)) ''a'' ''x'' 18)"
  by (subst negcache_refines_backend) (simp_all add: backend_failure_def banned_def wrap64_def)

lemma below_threshold:
  assumes "int (length ts) < thr" and "thr \<le> max_int64"
    and "b = \<lparr>bs_failures = 0, bs_until = None, bs_ttl = ttl, bs_threshold = thr\<rparr>"
  shows "fold (\<lambda>u. backend_failure u u) ts b = b\<lparr>bs_failures := int (length ts)\<rparr>"
  using assms(1)
proof (induction ts rule: rev_induct)
  case Nil
  then show ?case using assms(3) by simp
next
  case (snoc u ts)
  then have "fold (\<lambda>u. backend_failure u u) ts b = b\<lparr>bs_failures := int (length ts)\<rparr>" by simp
  moreover have "backend_failure u u (b\<lparr>bs_failures := int (length ts)\<rparr>)
      = b\<lparr>bs_failures := int (length (ts @ [u]))\<rparr>"
    using snoc.prems assms(2,3) wrap64_id[of "int (length ts) + 1"]
    by (simp add: backend_failure_def banned_def min_int64_def)
  ultimately show ?case by simp
qed

lemma backend_view_failures:
  "backend_view (fold (\<lambda>u c. negcache_record_failure c t n u u) ts c) (key_for t n)
     = fold (\<lambda>u. backend_failure u u) ts (backend_view c (key_for t n))"
  by (induction ts arbitrary: c) (simp_all add: backend_view_failure)

lemma backend_reban:
  "0 < bs_threshold b \<Longrightarrow> bs_until b = Some e \<Longrightarrow> e \<le> u \<Longrightarrow> 0 < bs_ttl b \<Longrightarrow>
     bs_threshold b \<le> bs_failures b \<Longrightarrow> bs_failures b < max_int64 \<Longrightarrow>
     banned (backend_failure u u b) now \<longleftrightarrow> now < u + bs_ttl b"
  using wrap64_id[of "bs_failures b + 1"] by (simp add: backend_failure_def banned_def min_int64_def)

lemma at_threshold:
  assumes "int (length ts) = thr" and "0 < thr" and "thr \<le> max_int64" and "0 < ttl"
    and "b = \<lparr>bs_failures = 0, bs_until = None, bs_ttl = ttl, bs_threshold = thr\<rparr>"
  shows "fold (\<lambda>u. backend_failure u u) ts b = b\<lparr>bs_failures := thr, bs_until := Some (last ts + ttl)\<rparr>"
proof -
  from assms(1,2) have ts: "ts = butlast ts @ [last ts]" by (cases ts rule: rev_cases) auto
  have len: "int (length (butlast ts)) = thr - 1" using assms(1,2) by (cases ts) auto
  have "fold (\<lambda>u. backend_failure u u) (butlast ts) b = b\<lparr>bs_failures := thr - 1\<rparr>"
    using below_threshold[of "butlast ts" thr b ttl] len assms(3,5) by simp
  then have "fold (\<lambda>u. backend_failure u u) (butlast ts @ [last ts]) b
      = backend_failure (last ts) (last ts) (b\<lparr>bs_failures := thr - 1\<rparr>)"
    by simp
  also have "\<dots> = b\<lparr>bs_failures := thr, bs_until := Some (last ts + ttl)\<rparr>"
    using assms wrap64_id[of thr] by (simp add: backend_failure_def banned_def min_int64_def)
  finally show ?thesis using ts by simp
qed

lemma negcache_ban_exact_parts:
  assumes "0 < thr" and "thr \<le> max_int64 - 1" and "0 < ttl" and "int (length ts) \<le> thr"
    and "c = fold (\<lambda>u c. negcache_record_failure c tenant onion u u) ts (new_cache ttl thr)"
  shows "fst (is_blacklisted c tenant onion now) \<longleftrightarrow> int (length ts) = thr \<and> now < last ts + ttl"
    and "int (length ts) = thr \<Longrightarrow> last ts + ttl \<le> u \<Longrightarrow>
      fst (is_blacklisted (negcache_record_failure c tenant onion u u) tenant onion now) \<longleftrightarrow> now < u + ttl"
proof -
  define b where "b = \<lparr>bs_failures = 0, bs_until = None, bs_ttl = ttl, bs_threshold = thr\<rparr>"
  have view: "backend_view c (key_for tenant onion) = fold (\<lambda>u. backend_failure u u) ts b"
    unfolding assms(5) backend_view_failures by (simp add: backend_view_def new_cache_def b_def)
  show "fst (is_blacklisted c tenant onion now) \<longleftrightarrow> int (length ts) = thr \<and> now < last ts + ttl"
  proof (cases "int (length ts) = thr")
    case True
    then show ?thesis
      using at_threshold[OF True assms(1) _ assms(3) b_def] assms(2) view
      by (simp add: fst_is_blacklisted banned_def)
  next
    case False
    then show ?thesis
      using below_threshold[OF _ _ b_def, of ts] assms(2,4) view
      by (simp add: fst_is_blacklisted banned_def b_def)
  qed
  assume "int (length ts) = thr" and "last ts + ttl \<le> u"
  then show "fst (is_blacklisted (negcache_record_failure c tenant onion u u) tenant onion now)
      \<longleftrightarrow> now < u + ttl"
    using at_threshold[OF _ assms(1) _ assms(3) b_def, of ts] assms(1-3) view
      backend_reban[of "b\<lparr>bs_failures := thr, bs_until := Some (last ts + ttl)\<rparr>" "last ts + ttl" u now]
    by (simp add: fst_is_blacklisted backend_view_failure b_def)
qed

text \<open>
  The ban is exact: on a fresh cache with threshold \<open>k > 0\<close> and a
  positive TTL, after \<open>k\<close> failures of a pair in time order (each before the next), the pair is
  blacklisted exactly until the last of them plus the TTL; after \<open>k - 1\<close> it is not blacklisted at
  all; and once the ban has run out a single further failure starts the next one.
\<close>

theorem negcache_ban_exact:
  assumes "0 < thr" and "thr \<le> max_int64 - 1" and "0 < ttl" and "int (length ts) \<le> thr"
    and "c = fold (\<lambda>u c. negcache_record_failure c tenant onion u u) ts (new_cache ttl thr)"
  shows "(fst (is_blacklisted c tenant onion now) \<longleftrightarrow> int (length ts) = thr \<and> now < last ts + ttl)
    \<and> (int (length ts) = thr \<longrightarrow> last ts + ttl \<le> u \<longrightarrow>
      fst (is_blacklisted (negcache_record_failure c tenant onion u u) tenant onion now) \<longleftrightarrow> now < u + ttl)"
  using negcache_ban_exact_parts[OF assms] by blast

theorem negcache_ban_exact_witness:
  "fst (is_blacklisted (fold (\<lambda>u c. negcache_record_failure c ''a'' ''x'' u u) [10, 20, 30] (new_cache 60 3))
          ''a'' ''x'' 89)
   \<and> \<not> fst (is_blacklisted (fold (\<lambda>u c. negcache_record_failure c ''a'' ''x'' u u) [10, 20, 30] (new_cache 60 3))
          ''a'' ''x'' 90)
   \<and> fst (is_blacklisted (negcache_record_failure
          (fold (\<lambda>u c. negcache_record_failure c ''a'' ''x'' u u) [10, 20, 30] (new_cache 60 3))
          ''a'' ''x'' 90 90) ''a'' ''x'' 91)"
  using negcache_ban_exact [of 3 60 "[10, 20, 30]" _ "''a''" "''x''" 89 90, OF _ _ _ _ refl]
    negcache_ban_exact [of 3 60 "[10, 20, 30]" _ "''a''" "''x''" 90 90, OF _ _ _ _ refl]
    negcache_ban_exact [of 3 60 "[10, 20, 30]" _ "''a''" "''x''" 91 90, OF _ _ _ _ refl]
  by (simp add: max_int64_def)

lemma negcache_inv_run: "negcache_inv c \<Longrightarrow> negcache_inv (fold negcache_step ops c)"
  by (induction ops arbitrary: c) (simp_all add: negcache_inv_step)

lemma snapshot_row_Some:
  "snapshot_row now (k, x) = Some e \<longleftrightarrow>
     CHR 0x00 \<notin> set (ne_Tenant e) \<and> k = key_for (ne_Tenant e) (ne_Onion e)
     \<and> x = ne_ExpiresAt e \<and> now < x"
  by (cases e) (auto simp: snapshot_row_def split_key_Some split_key_key_for key_for_inj split: option.splits if_splits)

lemma in_snapshot:
  "e \<in> set (negcache_snapshot c now) \<longleftrightarrow>
     CHR 0x00 \<notin> set (ne_Tenant e) \<and> now < ne_ExpiresAt e
     \<and> (key_for (ne_Tenant e) (ne_Onion e), ne_ExpiresAt e) \<in> set (nc_blacklist c)"
  unfolding negcache_snapshot_def set_sort set_list_map_filter mem_Collect_eq
  by (metis snapshot_row_Some surj_pair)

lemma distinct_map_filter_rows:
  "distinct (map fst xs) \<Longrightarrow>
     distinct (map (\<lambda>e. (ne_Tenant e, ne_Onion e)) (List.map_filter (snapshot_row now) xs))"
proof (induction xs)
  case (Cons kv xs)
  show ?case
  proof (cases "snapshot_row now kv")
    case (Some e)
    have "(ne_Tenant e, ne_Onion e) \<notin>
        (\<lambda>e. (ne_Tenant e, ne_Onion e)) ` set (List.map_filter (snapshot_row now) xs)"
    proof
      assume "(ne_Tenant e, ne_Onion e) \<in>
        (\<lambda>e. (ne_Tenant e, ne_Onion e)) ` set (List.map_filter (snapshot_row now) xs)"
      then obtain e' kv' where "kv' \<in> set xs" "snapshot_row now kv' = Some e'"
        "ne_Tenant e' = ne_Tenant e" "ne_Onion e' = ne_Onion e"
        by (auto simp: set_list_map_filter)
      then have "fst kv' = fst kv"
        using Some snapshot_row_Some[of now "fst kv" "snd kv" e]
          snapshot_row_Some[of now "fst kv'" "snd kv'" e'] by simp
      then show False using \<open>kv' \<in> set xs\<close> Cons.prems by (auto simp: image_iff)
    qed
    with Cons Some show ?thesis by (simp add: List.map_filter_simps)
  qed (use Cons in \<open>simp add: List.map_filter_simps\<close>)
qed (simp add: List.map_filter_simps)

text \<open>
  After any history of a fresh cache, \<^verbatim>\<open>Snapshot\<close> lists exactly the pairs that
  \<^verbatim>\<open>IsBlacklisted\<close> reports, each once, in strictly ascending order of (tenant, onion).
\<close>

theorem negcache_snapshot_exact:
  fixes ops ttl thr now
  defines "c \<equiv> fold negcache_step ops (new_cache ttl thr)"
  shows "(\<lambda>e. (ne_Tenant e, ne_Onion e)) ` set (negcache_snapshot c now)
      = {(t, n). CHR 0x00 \<notin> set t \<and> fst (is_blacklisted c t n now)}"
    and "sorted_wrt (<) (map (\<lambda>e. (ne_Tenant e, ne_Onion e)) (negcache_snapshot c now))"
proof -
  have inv: "distinct (map fst (nc_blacklist c))"
    using negcache_inv_run[OF negcache_inv_ops(1)] unfolding c_def negcache_inv_def by simp
  have hit: "fst (is_blacklisted c t n now) \<longleftrightarrow> (\<exists>x. (key_for t n, x) \<in> set (nc_blacklist c) \<and> now < x)" for t n
  proof -
    have "fst (is_blacklisted c t n now) \<longleftrightarrow> (\<exists>x. map_of (nc_blacklist c) (key_for t n) = Some x \<and> now < x)"
      by (auto simp: is_blacklisted_def Let_def split: option.splits)
    then show ?thesis unfolding map_of_eq_Some_iff[OF inv] .
  qed
  show "(\<lambda>e. (ne_Tenant e, ne_Onion e)) ` set (negcache_snapshot c now)
      = {(t, n). CHR 0x00 \<notin> set t \<and> fst (is_blacklisted c t n now)}" (is "?L = ?R")
  proof
    show "?L \<subseteq> ?R" by (auto simp: in_snapshot hit)
    show "?R \<subseteq> ?L"
    proof clarify
      fix t n assume "CHR 0x00 \<notin> set t" "fst (is_blacklisted c t n now)"
      then obtain x where "\<lparr>ne_Tenant = t, ne_Onion = n, ne_ExpiresAt = x\<rparr> \<in> set (negcache_snapshot c now)"
        by (auto simp: in_snapshot hit)
      then show "(t, n) \<in> ?L" by (force simp: image_iff)
    qed
  qed
  show "sorted_wrt (<) (map (\<lambda>e. (ne_Tenant e, ne_Onion e)) (negcache_snapshot c now))"
    using distinct_map_filter_rows[OF inv, of now]
    by (simp add: strict_sorted_iff negcache_snapshot_def distinct_map)
qed

end
