(* ===== verification/Registry.thy ===== *)
theory Registry
  imports Complex_Main Prelude
begin

text \<open>
  The feature registry, \<^verbatim>\<open>internal/feature/registry.go\<close> and \<^verbatim>\<open>resolver.go\<close>, with the snapshot
  types of \<^verbatim>\<open>internal/shared/types.go\<close>. A \<^verbatim>\<open>map[string]any\<close> of parameters is a map to the
  datatype \<open>any_val\<close> of the dynamic types that the features inspect; a nil map is the empty
  map, which the code cannot tell apart by lookups. A Go interface value \<^verbatim>\<open>Feature\<close> is the
  record \<open>feature\<close> of its methods; reload observers are functions on a state of their own,
  so that their order and arguments are visible. The tenants map is iterated over, hence an
  association list. Results: the middleware chain has registration order, \<^verbatim>\<open>Reload\<close> is all or
  nothing, and every snapshot that the resolver hands out was accepted by its feature.
\<close>

subsection \<open>Model\<close>

datatype any_val =
    VString string
  | VBool bool
  | VInt int
  | VInt64 int
  | VInt32 int
  | VUint "64 word"
  | VUint64 "64 word"
  | VUint32 "32 word"
  | VDuration int
  | VFloat rat
  | VFloat32 rat
  | VStrings "string list"
  | VList "any_val list"
  | VMap "(string \<times> any_val) list"
  | VNil

record feature_snapshot =
  fs_Enabled :: bool
  fs_Params :: "string \<rightharpoonup> any_val"
  fs_Version :: "64 word"

definition zero_snapshot :: feature_snapshot where
  "zero_snapshot = \<lparr>fs_Enabled = False, fs_Params = Map.empty, fs_Version = 0\<rparr>"

text \<open>A \<^verbatim>\<open>BlockAction\<close> is a string in the source, with four valid values.\<close>

definition BlockActionDrop :: string where "BlockActionDrop = ''drop''"
definition BlockActionTimeout :: string where "BlockActionTimeout = ''timeout''"
definition BlockActionNotFound :: string where "BlockActionNotFound = ''404''"
definition BlockActionTooMany :: string where "BlockActionTooMany = ''429''"

definition block_action_is_valid :: "string \<Rightarrow> bool" where
  "block_action_is_valid a \<longleftrightarrow>
     a = BlockActionDrop \<or> a = BlockActionTimeout \<or> a = BlockActionNotFound \<or> a = BlockActionTooMany"

text \<open>
  Conversion \<^verbatim>\<open>int(n)\<close> of a \<^verbatim>\<open>float64\<close>: truncation towards zero; a value outside the range gives, on
  the 64-bit x86 targets, the least \<^verbatim>\<open>int64\<close>.
\<close>

definition float_to_int :: "rat \<Rightarrow> int" where
  "float_to_int r =
     (let n = (if r < 0 then - floor (- r) else floor r)
      in if min_int64 \<le> n \<and> n \<le> max_int64 then n else min_int64)"

record tenant_snapshot =
  ts_Host :: string
  ts_Enabled :: bool
  ts_Features :: "string \<rightharpoonup> feature_snapshot"

type_synonym globals_snapshot = "string \<rightharpoonup> feature_snapshot"

record ('rs, 'h) feature =
  f_Name :: string
  f_Middleware :: "'rs \<Rightarrow> ('h \<Rightarrow> 'h) option"
  f_Validate :: "feature_snapshot \<Rightarrow> string option"

record snapshot_state =
  sn_globals :: globals_snapshot
  sn_tenants :: "(string \<times> tenant_snapshot) list"

record ('rs, 'h, 'w) registry =
  rg_order :: "string list"
  rg_features :: "string \<rightharpoonup> ('rs, 'h) feature"
  rg_observers :: "string \<rightharpoonup> (feature_snapshot \<Rightarrow> 'w \<Rightarrow> 'w) list"
  rg_current :: snapshot_state

definition new_registry :: "('rs, 'h, 'w) registry" where
  "new_registry =
     \<lparr>rg_order = [], rg_features = Map.empty, rg_observers = Map.empty,
      rg_current = \<lparr>sn_globals = Map.empty, sn_tenants = []\<rparr>\<rparr>"

datatype register_panic = NilFeature | EmptyName | DuplicateName string

definition register :: "('rs, 'h) feature option \<Rightarrow> ('rs, 'h, 'w) registry \<Rightarrow> register_panic + ('rs, 'h, 'w) registry" where
  "register f r =
     (case f of
        None \<Rightarrow> Inl NilFeature
      | Some f \<Rightarrow>
          (let name = f_Name f in
           if name = [] then Inl EmptyName
           else if rg_features r name \<noteq> None then Inl (DuplicateName name)
           else Inr (r\<lparr>rg_features := (rg_features r)(name \<mapsto> f), rg_order := rg_order r @ [name]\<rparr>)))"

definition add_reload_observer ::
  "string \<Rightarrow> (feature_snapshot \<Rightarrow> 'w \<Rightarrow> 'w) option \<Rightarrow> ('rs, 'h, 'w) registry \<Rightarrow> ('rs, 'h, 'w) registry" where
  "add_reload_observer featureName obs r =
     (case obs of
        None \<Rightarrow> r
      | Some ob \<Rightarrow>
          r\<lparr>rg_observers := (rg_observers r)(featureName \<mapsto>
              (case rg_observers r featureName of None \<Rightarrow> [] | Some l \<Rightarrow> l) @ [ob])\<rparr>)"

text \<open>
  The loop of \<^verbatim>\<open>BuildChain\<close> runs from the last registered name to the first. A name of
  \<open>rg_order\<close> that is missing from the map would be a nil interface, whose method call panics; the
  invariant below excludes it, and the model then leaves the handler alone.
\<close>

definition wrap_with :: "'rs \<Rightarrow> ('rs, 'h) feature \<Rightarrow> 'h \<Rightarrow> 'h" where
  "wrap_with rs f h = (case f_Middleware f rs of None \<Rightarrow> h | Some mw \<Rightarrow> mw h)"

definition build_chain :: "('rs, 'h, 'w) registry \<Rightarrow> 'rs \<Rightarrow> 'h \<Rightarrow> 'h" where
  "build_chain r resolver inner =
     fold (\<lambda>name h. case rg_features r name of None \<Rightarrow> h | Some f \<Rightarrow> wrap_with resolver f h)
       (rev (rg_order r)) inner"

datatype reload_error = GlobalsError string string | TenantError string string string

definition lookup_snapshot :: "(string \<rightharpoonup> feature_snapshot) \<Rightarrow> string \<Rightarrow> feature_snapshot" where
  "lookup_snapshot m name = (case m name of None \<Rightarrow> zero_snapshot | Some s \<Rightarrow> s)"

definition validate_feature ::
  "globals_snapshot \<Rightarrow> (string \<times> tenant_snapshot) list \<Rightarrow> ('rs, 'h) feature \<Rightarrow> string \<Rightarrow> reload_error list" where
  "validate_feature globals tenants f name =
     (let gCfg = lookup_snapshot globals name in
      (case f_Validate f gCfg of None \<Rightarrow> [] | Some e \<Rightarrow> [GlobalsError name e])
      @ concat (map (\<lambda>(host, tenant).
          let cfg = (case ts_Features tenant name of None \<Rightarrow> gCfg | Some override \<Rightarrow> override)
          in case f_Validate f cfg of None \<Rightarrow> [] | Some e \<Rightarrow> [TenantError name host e]) tenants))"

definition reload_errors ::
  "('rs, 'h, 'w) registry \<Rightarrow> globals_snapshot \<Rightarrow> (string \<times> tenant_snapshot) list \<Rightarrow> reload_error list" where
  "reload_errors r globals tenants =
     concat (map (\<lambda>name. case rg_features r name of
                    None \<Rightarrow> [] | Some f \<Rightarrow> validate_feature globals tenants f name) (rg_order r))"

definition notify_observers :: "('rs, 'h, 'w) registry \<Rightarrow> globals_snapshot \<Rightarrow> 'w \<Rightarrow> 'w" where
  "notify_observers r globals w =
     fold (\<lambda>name w. fold (\<lambda>obs w. obs (lookup_snapshot globals name) w)
             (case rg_observers r name of None \<Rightarrow> [] | Some l \<Rightarrow> l) w) (rg_order r) w"

definition reload ::
  "('rs, 'h, 'w) registry \<Rightarrow> globals_snapshot \<Rightarrow> (string \<times> tenant_snapshot) list \<Rightarrow> 'w \<Rightarrow>
     reload_error list \<times> ('rs, 'h, 'w) registry \<times> 'w" where
  "reload r globals tenants w =
     (let errs = reload_errors r globals tenants in
      if errs \<noteq> [] then (errs, r, w)
      else ([], r\<lparr>rg_current := \<lparr>sn_globals = globals, sn_tenants = tenants\<rparr>\<rparr>,
            notify_observers r globals w))"

text \<open>\<^verbatim>\<open>registryResolver.Resolve\<close>: the tenant is the one attached to the request context.\<close>

definition resolve :: "('rs, 'h, 'w) registry \<Rightarrow> tenant_snapshot option \<Rightarrow> string \<Rightarrow> feature_snapshot" where
  "resolve r tenant featureName =
     (case tenant of
        Some t \<Rightarrow>
          (case ts_Features t featureName of
             Some fs \<Rightarrow> fs
           | None \<Rightarrow> lookup_snapshot (sn_globals (rg_current r)) featureName)
      | None \<Rightarrow> lookup_snapshot (sn_globals (rg_current r)) featureName)"

subsection \<open>Registration\<close>

definition registry_inv :: "('rs, 'h, 'w) registry \<Rightarrow> bool" where
  "registry_inv r \<longleftrightarrow>
     distinct (rg_order r) \<and> (\<forall>name. rg_features r name \<noteq> None \<longleftrightarrow> name \<in> set (rg_order r))
     \<and> (\<forall>name f. rg_features r name = Some f \<longrightarrow> f_Name f = name \<and> name \<noteq> [])"

text \<open>The features in registration order.\<close>

definition registered :: "('rs, 'h, 'w) registry \<Rightarrow> ('rs, 'h) feature list" where
  "registered r = List.map_filter (rg_features r) (rg_order r)"

fun register_all :: "('rs, 'h) feature list \<Rightarrow> ('rs, 'h, 'w) registry \<Rightarrow> register_panic + ('rs, 'h, 'w) registry" where
  "register_all [] r = Inr r"
| "register_all (f # fs) r =
     (case register (Some f) r of Inl p \<Rightarrow> Inl p | Inr r' \<Rightarrow> register_all fs r')"

lemma register_Inr:
  "register f r = Inr r' \<longleftrightarrow>
     (\<exists>g. f = Some g \<and> f_Name g \<noteq> [] \<and> rg_features r (f_Name g) = None
       \<and> r' = r\<lparr>rg_features := (rg_features r)(f_Name g \<mapsto> g), rg_order := rg_order r @ [f_Name g]\<rparr>)"
  by (auto simp: register_def Let_def split: option.splits)

lemma registry_inv_new: "registry_inv new_registry"
  by (simp add: registry_inv_def new_registry_def)

lemma registry_inv_order: "registry_inv r \<Longrightarrow> name \<in> set (rg_order r) \<longleftrightarrow> rg_features r name \<noteq> None"
  unfolding registry_inv_def by blast

lemma registry_inv_register:
  assumes "registry_inv r" and "register f r = Inr r'"
  shows "registry_inv r'"
proof -
  from assms(2) obtain g where g: "f_Name g \<noteq> []" "rg_features r (f_Name g) = None"
    "rg_features r' = (rg_features r)(f_Name g \<mapsto> g)" "rg_order r' = rg_order r @ [f_Name g]"
    by (auto simp: register_Inr)
  then have "f_Name g \<notin> set (rg_order r)" using registry_inv_order[OF assms(1)] by simp
  with g assms(1) show ?thesis by (simp add: registry_inv_def)
qed

lemma registered_new: "registered new_registry = []"
  by (simp add: registered_def new_registry_def List.map_filter_simps)

lemma map_filter_cong_set: "(\<And>x. x \<in> set xs \<Longrightarrow> f x = g x) \<Longrightarrow> List.map_filter f xs = List.map_filter g xs"
  by (induction xs) (simp_all add: List.map_filter_simps split: option.split)

lemma map_filter_append: "List.map_filter f (xs @ ys) = List.map_filter f xs @ List.map_filter f ys"
  by (simp add: List.map_filter_def)

lemma registered_register:
  assumes "registry_inv r" and "register (Some f) r = Inr r'"
  shows "registered r' = registered r @ [f]"
proof -
  from assms(2) have new: "rg_features r (f_Name f) = None"
    and r': "rg_features r' = (rg_features r)(f_Name f \<mapsto> f)" "rg_order r' = rg_order r @ [f_Name f]"
    by (auto simp: register_Inr)
  have "f_Name f \<notin> set (rg_order r)"
    using registry_inv_order[OF assms(1)] new by simp
  then have "List.map_filter ((rg_features r)(f_Name f \<mapsto> f)) (rg_order r) = registered r"
    unfolding registered_def by (intro map_filter_cong_set) auto
  then show ?thesis
    by (simp add: registered_def r' map_filter_append List.map_filter_simps)
qed

lemma register_all_registered:
  "registry_inv r \<Longrightarrow> register_all fs r = Inr r' \<Longrightarrow> registry_inv r' \<and> registered r' = registered r @ fs"
proof (induction fs arbitrary: r)
  case (Cons f fs)
  then obtain r1 where r1: "register (Some f) r = Inr r1" "register_all fs r1 = Inr r'"
    by (auto split: sum.splits)
  then show ?case
    using Cons.IH[of r1] registry_inv_register[OF Cons.prems(1) r1(1)]
      registered_register[OF Cons.prems(1) r1(1)] by simp
qed simp

lemma register_all_Inr:
  "registry_inv r \<Longrightarrow> (\<exists>r'. register_all fs r = Inr r') \<longleftrightarrow>
     distinct (map f_Name fs) \<and> [] \<notin> set (map f_Name fs)
     \<and> set (map f_Name fs) \<inter> dom (rg_features r) = {}"
proof (induction fs arbitrary: r)
  case (Cons f fs)
  show ?case
  proof (cases "register (Some f) r")
    case (Inl p)
    then have "f_Name f = [] \<or> f_Name f \<in> dom (rg_features r)"
      by (auto simp: register_def Let_def split: if_splits)
    with Inl show ?thesis by auto
  next
    case (Inr r1)
    then have "registry_inv r1" using Cons.prems registry_inv_register by blast
    then have "(\<exists>r'. register_all (f # fs) r = Inr r') \<longleftrightarrow>
        distinct (map f_Name fs) \<and> [] \<notin> set (map f_Name fs)
        \<and> set (map f_Name fs) \<inter> dom (rg_features r1) = {}"
      using Cons.IH[of r1] Inr by simp
    moreover have "dom (rg_features r1) = insert (f_Name f) (dom (rg_features r))"
      and "f_Name f \<noteq> []" "f_Name f \<notin> dom (rg_features r)"
      using Inr by (auto simp: register_Inr)
    ultimately show ?thesis by auto
  qed
qed simp

lemma build_chain_registered:
  assumes "registry_inv r"
  shows "build_chain r rs inner = foldr (wrap_with rs) (registered r) inner"
proof -
  have "foldr (\<lambda>name h. case rg_features r name of None \<Rightarrow> h | Some f \<Rightarrow> wrap_with rs f h) names inner
      = foldr (wrap_with rs) (List.map_filter (rg_features r) names) inner" for names
    by (induction names) (simp_all add: List.map_filter_simps split: option.split)
  then show ?thesis
    by (simp add: build_chain_def foldr_conv_fold registered_def)
qed

lemma build_chain_order_parts:
  shows "(\<exists>r :: ('rs, 'h, 'w) registry. register_all fs new_registry = Inr r)
      \<longleftrightarrow> distinct (map f_Name fs) \<and> [] \<notin> set (map f_Name fs)"
    and "register_all fs (new_registry :: ('rs, 'h, 'w) registry) = Inr r \<Longrightarrow>
      build_chain r rs inner = foldr (wrap_with rs) fs inner"
proof -
  show "(\<exists>r :: ('rs, 'h, 'w) registry. register_all fs new_registry = Inr r)
      \<longleftrightarrow> distinct (map f_Name fs) \<and> [] \<notin> set (map f_Name fs)"
    unfolding register_all_Inr[OF registry_inv_new] by (simp add: new_registry_def)
  assume "register_all fs (new_registry :: ('rs, 'h, 'w) registry) = Inr r"
  from register_all_registered[OF registry_inv_new this]
  show "build_chain r rs inner = foldr (wrap_with rs) fs inner"
    by (simp add: build_chain_registered registered_new)
qed

text \<open>
  Registering a list of features on a new registry panics exactly when a name is
  empty or occurs twice; otherwise the chain that \<^verbatim>\<open>BuildChain\<close> builds is the composition of the middlewares in
  registration order, the first one outermost.
\<close>

theorem build_chain_order:
  shows "((\<exists>r :: ('rs, 'h, 'w) registry. register_all fs new_registry = Inr r)
      \<longleftrightarrow> distinct (map f_Name fs) \<and> [] \<notin> set (map f_Name fs))
    \<and> (register_all fs (new_registry :: ('rs, 'h, 'w) registry) = Inr r \<longrightarrow>
      build_chain r rs inner = foldr (wrap_with rs) fs inner)"
  by (rule conjI[OF build_chain_order_parts(1) impI[OF build_chain_order_parts(2)]])

theorem build_chain_order_witness:
  "\<exists>r :: (unit, string, unit) registry.
     register_all [\<lparr>f_Name = ''a'', f_Middleware = \<lambda>_. Some (\<lambda>h. CHR ''a'' # h), f_Validate = \<lambda>_. None\<rparr>,
                   \<lparr>f_Name = ''b'', f_Middleware = \<lambda>_. Some (\<lambda>h. CHR ''b'' # h), f_Validate = \<lambda>_. None\<rparr>]
       new_registry = Inr r \<and> build_chain r () ''h'' = ''abh''"
proof -
  let ?fs = "[\<lparr>f_Name = ''a'', f_Middleware = \<lambda>_. Some (\<lambda>h. CHR ''a'' # h), f_Validate = \<lambda>_. None\<rparr>,
     \<lparr>f_Name = ''b'', f_Middleware = \<lambda>_. Some (\<lambda>h. CHR ''b'' # h), f_Validate = \<lambda>_. None\<rparr>]
     :: (unit, string) feature list"
  obtain r :: "(unit, string, unit) registry" where r: "register_all ?fs new_registry = Inr r"
    using build_chain_order[of ?fs] by auto
  have "build_chain r () ''h'' = ''abh''"
    using build_chain_order[of ?fs r "()" "''h''"] r by (simp add: wrap_with_def)
  with r show ?thesis by blast
qed

subsection \<open>Reload\<close>

text \<open>What \<^verbatim>\<open>Validate\<close> has accepted for a feature: the globals value and every tenant's effective value.\<close>

definition config_ok :: "globals_snapshot \<Rightarrow> (string \<times> tenant_snapshot) list \<Rightarrow> ('rs, 'h) feature \<Rightarrow> bool" where
  "config_ok globals tenants f \<longleftrightarrow>
     f_Validate f (lookup_snapshot globals (f_Name f)) = None
     \<and> list_all (\<lambda>(host, t). \<forall>override. ts_Features t (f_Name f) = Some override \<longrightarrow>
          f_Validate f override = None) tenants"

lemma validate_feature_ok:
  "validate_feature globals tenants f (f_Name f) = [] \<longleftrightarrow> config_ok globals tenants f"
  unfolding validate_feature_def config_ok_def Let_def
  by (auto simp: list_all_iff split: option.splits)

lemma reload_errors_ok:
  assumes "registry_inv r"
  shows "reload_errors r globals tenants = [] \<longleftrightarrow> list_all (config_ok globals tenants) (registered r)"
proof -
  have "(case rg_features r name of None \<Rightarrow> [] | Some f \<Rightarrow> validate_feature globals tenants f name) = []
      \<longleftrightarrow> (\<forall>f. rg_features r name = Some f \<longrightarrow> config_ok globals tenants f)" for name
  proof (cases "rg_features r name")
    case (Some f)
    with assms have "f_Name f = name" by (simp add: registry_inv_def)
    with Some show ?thesis using validate_feature_ok[of globals tenants f] by simp
  qed simp
  then show ?thesis
    unfolding reload_errors_def registered_def list_all_iff set_list_map_filter concat_eq_Nil_conv
    by auto
qed

text \<open>A run of reload attempts, and the specification: the last accepted configuration is current.\<close>

fun reload_run ::
  "(globals_snapshot \<times> (string \<times> tenant_snapshot) list) list \<Rightarrow> ('rs, 'h, 'w) registry \<Rightarrow> 'w \<Rightarrow>
     ('rs, 'h, 'w) registry \<times> 'w" where
  "reload_run [] r w = (r, w)"
| "reload_run ((g, t) # cs) r w = (case reload r g t w of (errs, r', w') \<Rightarrow> reload_run cs r' w')"

definition accepted :: "('rs, 'h) feature list \<Rightarrow> globals_snapshot \<times> (string \<times> tenant_snapshot) list \<Rightarrow> bool" where
  "accepted fs c = list_all (config_ok (fst c) (snd c)) fs"

definition current_config ::
  "('rs, 'h) feature list \<Rightarrow> (globals_snapshot \<times> (string \<times> tenant_snapshot) list) list \<Rightarrow> snapshot_state \<Rightarrow> snapshot_state" where
  "current_config fs cs s0 =
     (case filter (accepted fs) cs of
        [] \<Rightarrow> s0
      | l \<Rightarrow> \<lparr>sn_globals = fst (last l), sn_tenants = snd (last l)\<rparr>)"

lemma reload_cases:
  assumes "registry_inv r"
  shows "reload r g t w =
    (if accepted (registered r) (g, t)
     then ([], r\<lparr>rg_current := \<lparr>sn_globals = g, sn_tenants = t\<rparr>\<rparr>, notify_observers r g w)
     else (reload_errors r g t, r, w))"
  using reload_errors_ok[OF assms, of g t] by (simp add: reload_def accepted_def Let_def)

lemma registry_inv_current [simp]: "registry_inv (r\<lparr>rg_current := s\<rparr>) = registry_inv r"
  by (simp add: registry_inv_def)

lemma registered_current [simp]: "registered (r\<lparr>rg_current := s\<rparr>) = registered r"
  by (simp add: registered_def)

lemma notify_current [simp]: "notify_observers (r\<lparr>rg_current := s\<rparr>) g w = notify_observers r g w"
  by (simp add: notify_observers_def)

lemma reload_run_spec:
  "registry_inv r \<Longrightarrow>
     reload_run cs r w =
       (r\<lparr>rg_current := current_config (registered r) cs (rg_current r)\<rparr>,
        fold (\<lambda>c w. notify_observers r (fst c) w) (filter (accepted (registered r)) cs) w)"
proof (induction cs arbitrary: r w)
  case (Cons c cs)
  obtain g t where c: "c = (g, t)" by (cases c)
  show ?case
  proof (cases "accepted (registered r) (g, t)")
    case True
    then have "reload_run (c # cs) r w
        = reload_run cs (r\<lparr>rg_current := \<lparr>sn_globals = g, sn_tenants = t\<rparr>\<rparr>) (notify_observers r g w)"
      using Cons.prems by (simp add: c reload_cases)
    also have "\<dots> = (r\<lparr>rg_current := current_config (registered r) cs \<lparr>sn_globals = g, sn_tenants = t\<rparr>\<rparr>,
        fold (\<lambda>c w. notify_observers r (fst c) w) (filter (accepted (registered r)) cs) (notify_observers r g w))"
      using Cons by simp
    also have "current_config (registered r) cs \<lparr>sn_globals = g, sn_tenants = t\<rparr>
        = current_config (registered r) (c # cs) (rg_current r)"
      using True by (simp add: current_config_def c split: list.split)
    finally show ?thesis using True by (simp add: c)
  next
    case False
    then show ?thesis
      using Cons by (simp add: c reload_cases current_config_def)
  qed
qed (simp add: current_config_def)

lemma registered_fresh:
  assumes "register_all fs new_registry = Inr r"
  shows "registry_inv r" and "registered r = fs"
  using register_all_registered[OF registry_inv_new assms] by (simp_all add: registered_new)

lemma rg_current_register_all: "register_all fs r = Inr r' \<Longrightarrow> rg_current r' = rg_current r"
  by (induction fs arbitrary: r) (force simp: register_Inr split: sum.splits)+

text \<open>
  How a registry comes about: features are registered and observers added, in any order. The specification reads off the features and, for a name, its observers; on an accepted configuration each
  feature's observers are to be called with the snapshot that the globals have for it, the zero one if they have none.
\<close>

datatype ('rs, 'h, 'w) setup_step = AddFeature "('rs, 'h) feature" | AddObserver string "feature_snapshot \<Rightarrow> 'w \<Rightarrow> 'w"

fun set_up :: "('rs, 'h, 'w) setup_step list \<Rightarrow> ('rs, 'h, 'w) registry \<Rightarrow> register_panic + ('rs, 'h, 'w) registry" where
  "set_up [] r = Inr r"
| "set_up (AddFeature f # ss) r = (case register (Some f) r of Inl p \<Rightarrow> Inl p | Inr r' \<Rightarrow> set_up ss r')"
| "set_up (AddObserver n ob # ss) r = set_up ss (add_reload_observer n (Some ob) r)"

fun features_of :: "('rs, 'h, 'w) setup_step list \<Rightarrow> ('rs, 'h) feature list" where
  "features_of [] = []"
| "features_of (AddFeature f # ss) = f # features_of ss"
| "features_of (AddObserver n ob # ss) = features_of ss"

fun observers_for :: "string \<Rightarrow> ('rs, 'h, 'w) setup_step list \<Rightarrow> (feature_snapshot \<Rightarrow> 'w \<Rightarrow> 'w) list" where
  "observers_for m [] = []"
| "observers_for m (AddFeature f # ss) = observers_for m ss"
| "observers_for m (AddObserver n ob # ss) = (if n = m then [ob] else []) @ observers_for m ss"

definition observer_calls :: "('rs, 'h, 'w) setup_step list \<Rightarrow> globals_snapshot \<Rightarrow> ('w \<Rightarrow> 'w) list" where
  "observer_calls ss globals =
     concat (map (\<lambda>f. map (\<lambda>ob. ob (case globals (f_Name f) of None \<Rightarrow> zero_snapshot | Some s \<Rightarrow> s)) (observers_for (f_Name f) ss)) (features_of ss))"

definition observers_in :: "('rs, 'h, 'w) registry \<Rightarrow> string \<Rightarrow> (feature_snapshot \<Rightarrow> 'w \<Rightarrow> 'w) list" where
  "observers_in r n = (case rg_observers r n of None \<Rightarrow> [] | Some l \<Rightarrow> l)"

lemma set_up_registry:
  "registry_inv r \<Longrightarrow> set_up ss r = Inr r' \<Longrightarrow>
     registry_inv r' \<and> registered r' = registered r @ features_of ss \<and> rg_current r' = rg_current r
     \<and> (\<forall>n. observers_in r' n = observers_in r n @ observers_for n ss)"
proof (induction ss arbitrary: r)
  case (Cons x ss)
  show ?case
  proof (cases x)
    case (AddFeature f)
    then obtain r1 where r1: "register (Some f) r = Inr r1" "set_up ss r1 = Inr r'"
      using Cons.prems(2) by (auto split: sum.splits)
    have "rg_current r1 = rg_current r" "rg_observers r1 = rg_observers r" using r1(1) by (auto simp: register_Inr)
    then show ?thesis
      using Cons.IH[OF registry_inv_register[OF Cons.prems(1) r1(1)] r1(2)] registered_register[OF Cons.prems(1) r1(1)] AddFeature
      by (simp add: observers_in_def)
  next
    case (AddObserver n ob)
    let ?r = "add_reload_observer n (Some ob) r"
    have "registry_inv ?r" "registered ?r = registered r" using Cons.prems(1) by (simp_all add: add_reload_observer_def registry_inv_def registered_def)
    then show ?thesis using Cons.IH[of ?r] Cons.prems(2) AddObserver by (auto simp: add_reload_observer_def observers_in_def)
  qed
qed simp

lemma set_up_new:
  assumes "set_up ss new_registry = Inr r"
  shows "registry_inv r" and "registered r = features_of ss" and "rg_current r = \<lparr>sn_globals = Map.empty, sn_tenants = []\<rparr>" and "observers_in r n = observers_for n ss"
proof -
  have "rg_current new_registry = \<lparr>sn_globals = Map.empty, sn_tenants = []\<rparr>" "observers_in new_registry n = []"
    by (simp_all add: new_registry_def observers_in_def)
  then show "registry_inv r" "registered r = features_of ss" "rg_current r = \<lparr>sn_globals = Map.empty, sn_tenants = []\<rparr>" "observers_in r n = observers_for n ss"
    using set_up_registry[OF registry_inv_new assms] by (simp_all add: registered_new)
qed

lemma registered_names: "registry_inv r \<Longrightarrow> map f_Name (registered r) = rg_order r"
proof -
  assume inv: "registry_inv r"
  have "set ns \<subseteq> set (rg_order r) \<Longrightarrow> map f_Name (List.map_filter (rg_features r) ns) = ns" for ns
  proof (induction ns)
    case (Cons n ns)
    then have "rg_features r n \<noteq> None" using inv unfolding registry_inv_def by auto
    then obtain f where "rg_features r n = Some f" "f_Name f = n" using inv unfolding registry_inv_def by blast
    then show ?case using Cons by (simp add: List.map_filter_simps)
  qed (simp add: List.map_filter_simps)
  then show ?thesis by (simp add: registered_def)
qed

lemma notify_calls:
  assumes "set_up ss new_registry = Inr r"
  shows "notify_observers r g w = fold (\<lambda>call w. call w) (observer_calls ss g) w"
proof -
  have r: "registry_inv r" "registered r = features_of ss" "observers_in r n = observers_for n ss" for n
    using set_up_new[OF assms] by simp_all
  have "notify_observers r g w = fold (\<lambda>name w. fold (\<lambda>obs w. obs (lookup_snapshot g name) w) (observers_in r name) w) (map f_Name (features_of ss)) w"
    using registered_names[OF r(1)] by (simp add: notify_observers_def observers_in_def r(2))
  also have "\<dots> = fold (\<lambda>call w. call w) (observer_calls ss g) w"
  proof -
    have "fold (\<lambda>name w. fold (\<lambda>obs w. obs (lookup_snapshot g name) w) (observers_in r name) w) (map f_Name fs) w
        = fold (\<lambda>call w. call w) (concat (map (\<lambda>f. map (\<lambda>ob. ob (lookup_snapshot g (f_Name f))) (observers_for (f_Name f) ss)) fs)) w" for fs w
      by (induction fs arbitrary: w) (simp_all add: r(3) fold_map comp_def)
    then show ?thesis by (simp add: observer_calls_def lookup_snapshot_def)
  qed
  finally show ?thesis .
qed

text \<open>
  C15 (functional). \<^verbatim>\<open>Reload\<close> is all or nothing. Let a registry be set up by registering features and adding observers in any order, and let there be any sequence of reload attempts. Then the published
  configuration is that of the last attempt that every registered feature accepted for the globals and for every tenant (the empty one if there was none). Each accepted attempt, in order, has called every observer
  of a registered feature once, with the snapshot that its globals have for the feature: the features in the order of registration and the observers of each in the order in which they were added. A rejected
  attempt has called none.
\<close>

theorem reload_last_accepted_wins:
  assumes "set_up ss (new_registry :: ('rs, 'h, 'w) registry) = Inr r"
  shows "reload_run cs r w =
    (r\<lparr>rg_current := current_config (features_of ss) cs \<lparr>sn_globals = Map.empty, sn_tenants = []\<rparr>\<rparr>,
     fold (\<lambda>call w. call w) (concat (map (\<lambda>c. observer_calls ss (fst c)) (filter (accepted (features_of ss)) cs))) w)"
proof -
  have r: "registry_inv r" "registered r = features_of ss" "rg_current r = \<lparr>sn_globals = Map.empty, sn_tenants = []\<rparr>"
    using set_up_new[OF assms] by simp_all
  have "fold (\<lambda>c w. notify_observers r (fst c) w) l w = fold (\<lambda>call w. call w) (concat (map (\<lambda>c. observer_calls ss (fst c)) l)) w" for l w
    by (induction l arbitrary: w) (simp_all add: notify_calls[OF assms])
  then show ?thesis using reload_run_spec[OF r(1)] by (simp add: r)
qed

text \<open>One feature with two observers that write a log, and two attempts of which the second is rejected.\<close>

theorem reload_last_accepted_wins_witness:
  "\<exists>r :: (unit, unit, (nat \<times> nat) list) registry.
     set_up [AddObserver ''a'' (\<lambda>s w. w @ [(1, unat (fs_Version s))]),
             AddFeature \<lparr>f_Name = ''a'', f_Middleware = \<lambda>_. None, f_Validate = \<lambda>s. if fs_Version s = 1 then Some ''bad'' else None\<rparr>,
             AddObserver ''a'' (\<lambda>s w. w @ [(2, unat (fs_Version s))])] new_registry = Inr r
     \<and> rg_current (fst (reload_run
          [([''a'' \<mapsto> zero_snapshot\<lparr>fs_Version := 2\<rparr>], []), ([''a'' \<mapsto> zero_snapshot\<lparr>fs_Version := 1\<rparr>], [])] r []))
        = \<lparr>sn_globals = [''a'' \<mapsto> zero_snapshot\<lparr>fs_Version := 2\<rparr>], sn_tenants = []\<rparr>
     \<and> snd (reload_run [([''a'' \<mapsto> zero_snapshot\<lparr>fs_Version := 2\<rparr>], []), ([''a'' \<mapsto> zero_snapshot\<lparr>fs_Version := 1\<rparr>], [])] r []) = [(1, 2), (2, 2)]"
proof -
  let ?f = "\<lparr>f_Name = ''a'', f_Middleware = \<lambda>_. None, f_Validate = \<lambda>s. if fs_Version s = 1 then Some ''bad'' else None\<rparr> :: (unit, unit) feature"
  let ?ss = "[AddObserver ''a'' (\<lambda>s w. w @ [(1, unat (fs_Version s))]), AddFeature ?f,
    AddObserver ''a'' (\<lambda>s w. w @ [(2, unat (fs_Version s))])] :: (unit, unit, (nat \<times> nat) list) setup_step list"
  let ?cs = "[([''a'' \<mapsto> zero_snapshot\<lparr>fs_Version := 2\<rparr>], []), ([''a'' \<mapsto> zero_snapshot\<lparr>fs_Version := 1\<rparr>], [])]"
  obtain r :: "(unit, unit, (nat \<times> nat) list) registry" where r: "set_up ?ss new_registry = Inr r"
    by (simp add: register_def new_registry_def add_reload_observer_def Let_def)
  have "current_config [?f] ?cs s0 = \<lparr>sn_globals = [''a'' \<mapsto> zero_snapshot\<lparr>fs_Version := 2\<rparr>], sn_tenants = []\<rparr>" for s0
    by (simp add: current_config_def accepted_def config_ok_def lookup_snapshot_def zero_snapshot_def)
  moreover have "filter (accepted [?f]) ?cs = [hd ?cs]"
    by (simp add: accepted_def config_ok_def lookup_snapshot_def zero_snapshot_def)
  ultimately show ?thesis
    by (intro exI[of _ r] conjI r) (simp_all del: reload_run.simps filter.simps add: reload_last_accepted_wins[OF r] observer_calls_def)
qed

lemma config_ok_empty: "config_ok Map.empty [] f \<longleftrightarrow> f_Validate f zero_snapshot = None"
  by (simp add: config_ok_def lookup_snapshot_def)

lemma current_config_ok:
  assumes "f \<in> set fs" and "f_Validate f zero_snapshot = None"
    and "s = current_config fs cs \<lparr>sn_globals = Map.empty, sn_tenants = []\<rparr>"
  shows "config_ok (sn_globals s) (sn_tenants s) f"
proof (cases "filter (accepted fs) cs")
  case Nil
  then show ?thesis using assms(2,3) by (simp add: current_config_def config_ok_empty)
next
  case (Cons c l)
  then have "last (filter (accepted fs) cs) \<in> set (filter (accepted fs) cs)"
    by (intro last_in_set) simp
  then have "accepted fs (last (filter (accepted fs) cs))" by simp
  then show ?thesis
    using assms(1,3) Cons by (simp add: current_config_def accepted_def list_all_iff)
qed

text \<open>
  At every moment of a run of reload attempts, whatever snapshot the resolver returns for a
  registered feature, for a published tenant or without a tenant, is one that the feature's \<^verbatim>\<open>Validate\<close>
  accepts, provided it accepts the zero (disabled) snapshot.
\<close>

theorem resolved_snapshots_validated:
  assumes "register_all fs (new_registry :: ('rs, 'h, 'w) registry) = Inr r0"
    and "reload_run cs r0 w0 = (r, w)"
    and "f \<in> set fs" and "f_Validate f zero_snapshot = None"
    and "tenant = None \<or> (\<exists>h t. tenant = Some t \<and> (h, t) \<in> set (sn_tenants (rg_current r)))"
  shows "f_Validate f (resolve r tenant (f_Name f)) = None"
proof -
  have cur: "rg_current r = current_config fs cs \<lparr>sn_globals = Map.empty, sn_tenants = []\<rparr>"
    using reload_run_spec[OF registered_fresh(1)[OF assms(1)]] registered_fresh(2)[OF assms(1)]
      rg_current_register_all[OF assms(1)] assms(2)
    by (auto simp: new_registry_def)
  have "config_ok (sn_globals (rg_current r)) (sn_tenants (rg_current r)) f"
    using current_config_ok[OF assms(3,4) cur] .
  then show ?thesis
    using assms(5) by (auto simp: resolve_def config_ok_def list_all_iff split: option.splits)
qed

theorem resolved_snapshots_validated_witness:
  "\<exists>(r0 :: (unit, unit, nat) registry) r w (f :: (unit, unit) feature). f_Name f = ''a''
     \<and> reload_run [([''a'' \<mapsto> zero_snapshot\<lparr>fs_Version := 2\<rparr>], []), ([''a'' \<mapsto> zero_snapshot\<lparr>fs_Version := 1\<rparr>], [])] r0 0
         = (r, w)
     \<and> f_Validate f (zero_snapshot\<lparr>fs_Version := 1\<rparr>) = Some ''bad''
     \<and> f_Validate f (resolve r None ''a'') = None"
proof -
  let ?f = "\<lparr>f_Name = ''a'', f_Middleware = \<lambda>_. None,
    f_Validate = \<lambda>s. if fs_Version s = 1 then Some ''bad'' else None\<rparr> :: (unit, unit) feature"
  let ?cs = "[([''a'' \<mapsto> zero_snapshot\<lparr>fs_Version := 2\<rparr>], []), ([''a'' \<mapsto> zero_snapshot\<lparr>fs_Version := 1\<rparr>], [])]"
  obtain r0 :: "(unit, unit, nat) registry" where r0: "register_all [?f] new_registry = Inr r0"
    by (simp add: register_def new_registry_def Let_def)
  obtain r w where run: "reload_run ?cs r0 0 = (r, w)" by fastforce
  have ok: "f_Validate ?f (resolve r None (f_Name ?f)) = None"
    using resolved_snapshots_validated[OF r0 run, of ?f None] by (simp add: zero_snapshot_def)
  show ?thesis
    by (rule exI[of _ r0], rule exI[of _ r], rule exI[of _ w], rule exI[of _ ?f])
       (use ok in \<open>simp del: reload_run.simps add: run\<close>)
qed

subsection \<open>The contract of a feature\<close>

text \<open>
  What the registry expects of the \<^verbatim>\<open>Validate\<close> method of every feature: the zero snapshot, which stands for a missing one, is not refused; then whatever the
  resolver hands out has been accepted. Some features keep the stronger contract that a disabled snapshot is never
  refused. Then the configuration that disables the feature everywhere is accepted, so an operator can always
  switch a feature off.
\<close>

locale validated_feature =
  fixes validate :: "feature_snapshot \<Rightarrow> string option"
  assumes zero_ok: "validate zero_snapshot = None"
begin

lemma resolved_ok:
  assumes "register_all fs new_registry = Inr r0" and "reload_run cs r0 w0 = (r, w)"
    and "f \<in> set fs" and "f_Validate f = validate"
  shows "validate (resolve r None (f_Name f)) = None"
proof -
  have cur: "rg_current r = current_config fs cs \<lparr>sn_globals = Map.empty, sn_tenants = []\<rparr>"
    using reload_run_spec[OF registered_fresh(1)[OF assms(1)]] registered_fresh(2)[OF assms(1)]
      rg_current_register_all[OF assms(1)] assms(2)
    by (auto simp: new_registry_def)
  then show ?thesis
    using current_config_ok[OF assms(3) _ cur] assms(4) zero_ok by (simp add: resolve_def config_ok_def)
qed

end

locale feature_contract =
  fixes validate :: "feature_snapshot \<Rightarrow> string option"
  assumes disabled_ok: "\<not> fs_Enabled s \<Longrightarrow> validate s = None"
begin

lemma disabled_config_ok:
  assumes "f_Validate f = validate"
    and "\<not> fs_Enabled (lookup_snapshot globals (f_Name f))"
    and "list_all (\<lambda>(host, t). \<forall>s. ts_Features t (f_Name f) = Some s \<longrightarrow> \<not> fs_Enabled s) tenants"
  shows "config_ok globals tenants f"
  unfolding config_ok_def assms(1) using assms(2,3) by (fastforce simp: list_all_iff intro: disabled_ok)

end

sublocale feature_contract \<subseteq> validated_feature
  by unfold_locales (simp add: disabled_ok zero_snapshot_def)

end
