(* ===== verification/Ttlstore.thy ===== *)
theory Ttlstore
  imports Expiry "HOL-Library.Multiset"
begin

text \<open>
  The persistent TTL blocklist, \<^verbatim>\<open>internal/feature/ttlblock/store.go\<close>. The database is bbolt, which is
  not part of the repository: the record \<open>bolt\<close> holds the bucket operations the code calls
  (\<open>None\<close> is a returned error), an argument of every operation, and \<open>bolt_laws\<close> states what
  its documentation promises. A stored value is the entry it decodes to, or \<open>CorruptRow\<close> when
  \<^verbatim>\<open>json.Unmarshal\<close> fails on it. An error inside \<^verbatim>\<open>db.Update\<close> rolls the transaction back. SHA-256 and
  \<^verbatim>\<open>sort.Slice\<close> (any sort that returns an ordered permutation) are parameters too.
  \<^verbatim>\<open>Sweep\<close> is modelled as its two transactions, so that an \<^verbatim>\<open>Add\<close> can come between them.
\<close>

subsection \<open>Model\<close>

record ttl_entry =
  te_Tenant :: string
  te_IPOrHash :: string
  te_BlockedUntil :: time
  te_Reason :: string

datatype ttl_row = Row ttl_entry | CorruptRow

record 'b bolt =
  bk_get :: "'b \<Rightarrow> string \<Rightarrow> ttl_row option"
  bk_put :: "'b \<Rightarrow> string \<Rightarrow> ttl_row \<Rightarrow> 'b option"
  bk_delete :: "'b \<Rightarrow> string \<Rightarrow> 'b option"
  bk_rows :: "'b \<Rightarrow> (string \<times> ttl_row) list"

text \<open>
  What the code relies on: \<open>bk_rows\<close> is the bucket in the ascending byte order of its keys, each key
  once; \<^verbatim>\<open>Get\<close> looks a key up in it; a successful \<^verbatim>\<open>Put\<close> or \<^verbatim>\<open>Delete\<close> changes that key only.
\<close>

definition bolt_laws :: "'b bolt \<Rightarrow> bool" where
  "bolt_laws B \<longleftrightarrow>
     (\<forall>b. sorted_wrt (<) (map fst (bk_rows B b)))
     \<and> (\<forall>b k. bk_get B b k = map_of (bk_rows B b) k)
     \<and> (\<forall>b k v b'. bk_put B b k v = Some b' \<longrightarrow> map_of (bk_rows B b') = (map_of (bk_rows B b))(k \<mapsto> v))
     \<and> (\<forall>b k b'. bk_delete B b k = Some b' \<longrightarrow> map_of (bk_rows B b') = (map_of (bk_rows B b))(k := None))"

definition saltLen :: nat where "saltLen = 32"

definition ttl_key_for :: "(string \<Rightarrow> string) \<Rightarrow> string \<Rightarrow> string \<Rightarrow> string \<Rightarrow> string" where
  "ttl_key_for sha256 salt tenant ip =
     (let ipPart = (if length salt = saltLen then hex_encode (sha256 (ip @ salt)) else ip)
      in tenant @ CHR 0x00 # ipPart)"

definition extract_ip_part :: "string \<Rightarrow> string \<Rightarrow> string" where
  "extract_ip_part key tenant =
     (let prefix = tenant @ [CHR 0x00]
      in if length key < length prefix then key else drop (length prefix) key)"

datatype ttl_error = TenantRequired | IpRequired | TtlNotPositive | MarshalError | BoltError

text \<open>\<^verbatim>\<open>time.Time.MarshalJSON\<close> refuses years outside \<open>0..9999\<close> (bounds in UTC).\<close>

definition json_time_ok :: "time \<Rightarrow> bool" where
  "json_time_ok t \<longleftrightarrow> - 62167219200 * second \<le> t \<and> t < 253402300800 * second"

text \<open>The cursor loop \<^verbatim>\<open>Seek(prefix); hasPrefix; Next\<close>.\<close>

definition cursor_prefix :: "'b bolt \<Rightarrow> 'b \<Rightarrow> string \<Rightarrow> (string \<times> ttl_row) list" where
  "cursor_prefix B b pre =
     takeWhile (\<lambda>(k, v). has_prefix k pre) (dropWhile (\<lambda>(k, v). k < pre) (bk_rows B b))"

definition decode_row :: "string \<times> ttl_row \<Rightarrow> (string \<times> ttl_entry) option" where
  "decode_row kv = (case snd kv of Row e \<Rightarrow> Some (fst kv, e) | CorruptRow \<Rightarrow> None)"

definition tenant_rows :: "'b bolt \<Rightarrow> 'b \<Rightarrow> string \<Rightarrow> (string \<times> ttl_entry) list" where
  "tenant_rows B b tenant =
     List.map_filter decode_row
       (cursor_prefix B b (tenant @ [CHR 0x00]))"

primrec delete_keys :: "'b bolt \<Rightarrow> string list \<Rightarrow> 'b \<Rightarrow> 'b option" where
  "delete_keys B [] b = Some b"
| "delete_keys B (k # ks) b = (case bk_delete B b k of None \<Rightarrow> None | Some b' \<Rightarrow> delete_keys B ks b')"

type_synonym lru_sort = "(string \<times> time) list \<Rightarrow> (string \<times> time) list"

definition trim_tenant_lru :: "'b bolt \<Rightarrow> lru_sort \<Rightarrow> 'b \<Rightarrow> string \<Rightarrow> int \<Rightarrow> 'b option" where
  "trim_tenant_lru B srt b tenant mx =
     (let all = map (\<lambda>(k, e). (k, te_BlockedUntil e)) (tenant_rows B b tenant)
      in if int (length all) \<le> mx then Some b
         else delete_keys B (map fst (take (nat (int (length all) - mx)) (srt all))) b)"

definition ttl_add ::
  "'b bolt \<Rightarrow> (string \<Rightarrow> string) \<Rightarrow> lru_sort \<Rightarrow> string \<Rightarrow> 'b \<Rightarrow>
     string \<Rightarrow> string \<Rightarrow> duration \<Rightarrow> string \<Rightarrow> int \<Rightarrow> time \<Rightarrow> ttl_error + 'b" where
  "ttl_add B sha256 srt salt b tenant ip ttl reason mx now =
     (if tenant = [] then Inl TenantRequired
      else if ip = [] then Inl IpRequired
      else if ttl \<le> 0 then Inl TtlNotPositive
      else
        (let key = ttl_key_for sha256 salt tenant ip;
             entry = \<lparr>te_Tenant = tenant, te_IPOrHash = extract_ip_part key tenant,
                      te_BlockedUntil = now + ttl, te_Reason = reason\<rparr>
         in if \<not> json_time_ok (now + ttl) then Inl MarshalError
            else
              (case bk_put B b key (Row entry) of
                 None \<Rightarrow> Inl BoltError
               | Some b1 \<Rightarrow>
                   if mx > 0 then
                     (case trim_tenant_lru B srt b1 tenant mx of None \<Rightarrow> Inl BoltError | Some b2 \<Rightarrow> Inr b2)
                   else Inr b1)))"

definition ttl_contains ::
  "'b bolt \<Rightarrow> (string \<Rightarrow> string) \<Rightarrow> string \<Rightarrow> 'b \<Rightarrow> string \<Rightarrow> string \<Rightarrow> time \<Rightarrow> bool" where
  "ttl_contains B sha256 salt b tenant ip now =
     (if tenant = [] \<or> ip = [] then False
      else
        (case bk_get B b (ttl_key_for sha256 salt tenant ip) of
           None \<Rightarrow> False
         | Some CorruptRow \<Rightarrow> False
         | Some (Row e) \<Rightarrow> te_BlockedUntil e > now))"

definition ttl_remove ::
  "'b bolt \<Rightarrow> (string \<Rightarrow> string) \<Rightarrow> string \<Rightarrow> 'b \<Rightarrow> string \<Rightarrow> string \<Rightarrow> ttl_error + 'b" where
  "ttl_remove B sha256 salt b tenant ip =
     (if tenant = [] \<or> ip = [] then Inr b
      else
        (case bk_delete B b (ttl_key_for sha256 salt tenant ip) of
           None \<Rightarrow> Inl BoltError
         | Some b' \<Rightarrow> Inr b'))"

definition ttl_list :: "'b bolt \<Rightarrow> (ttl_entry list \<Rightarrow> ttl_entry list) \<Rightarrow> 'b \<Rightarrow> string \<Rightarrow> ttl_entry list" where
  "ttl_list B srt b tenant =
     (if tenant = [] then [] else srt (map snd (tenant_rows B b tenant)))"

definition row_dead :: "ttl_row \<Rightarrow> time \<Rightarrow> bool" where
  "row_dead v now = (case v of CorruptRow \<Rightarrow> True | Row e \<Rightarrow> \<not> te_BlockedUntil e > now)"

definition sweep_scan :: "'b bolt \<Rightarrow> 'b \<Rightarrow> time \<Rightarrow> string list" where
  "sweep_scan B b now = map fst (filter (\<lambda>(k, v). row_dead v now) (bk_rows B b))"

definition sweep_delete :: "'b bolt \<Rightarrow> string list \<Rightarrow> 'b \<Rightarrow> ttl_error + 'b" where
  "sweep_delete B toDelete b =
     (if toDelete = [] then Inr b
      else (case delete_keys B toDelete b of None \<Rightarrow> Inl BoltError | Some b' \<Rightarrow> Inr b'))"

definition ttl_sweep :: "'b bolt \<Rightarrow> 'b \<Rightarrow> time \<Rightarrow> ttl_error + 'b" where
  "ttl_sweep B b now = sweep_delete B (sweep_scan B b now) b"

subsection \<open>The salt\<close>

fun trim_right_newlines :: "string \<Rightarrow> string" where
  "trim_right_newlines s =
     (if s \<noteq> [] \<and> (last s = CHR 0x0A \<or> last s = CHR 0x0D) then trim_right_newlines (butlast s) else s)"

declare trim_right_newlines.simps [simp del]

definition hex_value :: "char \<Rightarrow> nat option" where
  "hex_value c =
     (let n = of_char c in
      if 48 \<le> n \<and> n \<le> 57 then Some (n - 48)
      else if 97 \<le> n \<and> n \<le> 102 then Some (n - 87)
      else if 65 \<le> n \<and> n \<le> 70 then Some (n - 55)
      else None)"

fun hex_decode :: "string \<Rightarrow> string option" where
  "hex_decode [] = Some []"
| "hex_decode [c] = None"
| "hex_decode (c # d # s) =
     (case (hex_value c, hex_value d, hex_decode s) of
        (Some x, Some y, Some r) \<Rightarrow> Some (char_of (16 * x + y) # r)
      | _ \<Rightarrow> None)"

definition decode_salt_maybe_hex :: "string \<Rightarrow> string" where
  "decode_salt_maybe_hex raw =
     (if length raw = saltLen then raw
      else
        (let raw = trim_right_newlines raw in
         if length raw = 2 * saltLen then
           (case hex_decode raw of Some out \<Rightarrow> out | None \<Rightarrow> [])
         else []))"

text \<open>
  The files and the \<^verbatim>\<open>meta\<close> bucket as a state: the contents of the salt file (\<open>None\<close>: it does not
  exist) and the salt row. The random bytes are an argument; I/O errors abort the function
  and are not represented.
\<close>

record salt_state =
  st_file :: "string option"
  st_db :: string

definition load_or_create_salt :: "string \<Rightarrow> salt_state \<Rightarrow> string \<times> salt_state" where
  "load_or_create_salt rnd s =
     (let diskSalt = decode_salt_maybe_hex (case st_file s of None \<Rightarrow> [] | Some raw \<Rightarrow> raw);
          dbSalt = st_db s;
          salt = (if length diskSalt = saltLen then diskSalt
                  else if length dbSalt = saltLen then dbSalt
                  else rnd);
          s1 = (if diskSalt \<noteq> salt then s\<lparr>st_file := Some (hex_encode salt)\<rparr> else s);
          s2 = (if dbSalt \<noteq> salt then s1\<lparr>st_db := salt\<rparr> else s1)
      in (salt, s2))"

subsection \<open>Cursors\<close>

lemma prefix_le: "prefix p x \<Longrightarrow> p \<le> (x :: string)"
  by (induction p x rule: list_induct2') auto

lemma prefix_block: "prefix p x \<Longrightarrow> p \<le> k \<Longrightarrow> \<not> prefix p k \<Longrightarrow> x < (k :: string)"
proof (induction p x arbitrary: k rule: list_induct2')
  case (4 a p y x)
  then show ?case by (cases k) auto
qed auto

lemma scan_prefix:
  assumes "sorted_wrt (<) (map fst rows)"
  shows "takeWhile (\<lambda>(k, v). has_prefix k pre) (dropWhile (\<lambda>(k, v). k < pre) rows)
      = filter (\<lambda>(k, v). has_prefix k (pre :: string)) rows"
  using assms
proof (induction rows)
  case (Cons kv rows)
  obtain k v where kv: "kv = (k, v)" by (cases kv)
  have later: "k < k'" if "(k', v') \<in> set rows" for k' v'
    using Cons.prems that by (force simp: kv)
  consider (before) "k < pre" | (inside) "\<not> k < pre" "prefix pre k" | (after) "\<not> k < pre" "\<not> prefix pre k"
    by blast
  then show ?case
  proof cases
    case before
    then have "\<not> prefix pre k" using prefix_le[of pre k] by auto
    with before Cons show ?thesis by (simp add: kv has_prefix_def)
  next
    case inside
    have "\<not> k' < pre" if "(k', v') \<in> set rows" for k' v'
      using later[OF that] inside(1) by auto
    then have "dropWhile (\<lambda>(k, v). k < pre) rows = rows"
      by (cases rows) auto
    with inside Cons show ?thesis by (simp add: kv has_prefix_def)
  next
    case after
    have "\<not> prefix pre k'" if "(k', v') \<in> set rows" for k' v'
      using prefix_block[of pre k' k] later[OF that] after by (auto simp: not_less)
    then have "filter (\<lambda>(k, v). has_prefix k pre) rows = []"
      by (auto simp: has_prefix_def filter_empty_conv)
    with after show ?thesis by (simp add: kv has_prefix_def)
  qed
qed simp

lemma bolt_lawsD:
  assumes "bolt_laws B"
  shows "sorted_wrt (<) (map fst (bk_rows B b))"
    and "bk_get B b k = map_of (bk_rows B b) k"
    and "bk_put B b k v = Some b' \<Longrightarrow> map_of (bk_rows B b') = (map_of (bk_rows B b))(k \<mapsto> v)"
    and "bk_delete B b k = Some b' \<Longrightarrow> map_of (bk_rows B b') = (map_of (bk_rows B b))(k := None)"
    and "distinct (map fst (bk_rows B b))"
  using assms unfolding bolt_laws_def by (blast intro: strict_sorted_iff[THEN iffD1, THEN conjunct2])+

lemma in_rows: "bolt_laws B \<Longrightarrow> (k, v) \<in> set (bk_rows B b) \<longleftrightarrow> map_of (bk_rows B b) k = Some v"
  using bolt_lawsD(5)[of B b] by simp

lemma decode_row_Some: "decode_row kv = Some (k, e) \<longleftrightarrow> kv = (k, Row e)"
  by (cases kv) (auto simp: decode_row_def split: ttl_row.splits)

lemma tenant_rows_filter:
  "bolt_laws B \<Longrightarrow> tenant_rows B b tenant =
     List.map_filter decode_row
       (filter (\<lambda>(k, v). has_prefix k (tenant @ [CHR 0x00])) (bk_rows B b))"
  by (simp add: tenant_rows_def cursor_prefix_def scan_prefix bolt_lawsD(1))

lemma in_tenant_rows:
  assumes "bolt_laws B"
  shows "(k, e) \<in> set (tenant_rows B b tenant) \<longleftrightarrow>
    map_of (bk_rows B b) k = Some (Row e) \<and> prefix (tenant @ [CHR 0x00]) k"
  unfolding tenant_rows_filter[OF assms] set_list_map_filter in_rows[OF assms, symmetric]
  by (auto simp: has_prefix_def decode_row_Some intro!: bexI[of _ "(k, Row e)"])

lemma distinct_tenant_rows:
  assumes "bolt_laws B"
  shows "distinct (map fst (tenant_rows B b tenant))"
proof -
  have keys: "fst ` set (List.map_filter decode_row xs) \<subseteq> fst ` set xs" for xs
    by (force simp: set_list_map_filter decode_row_Some)
  have "distinct (map fst xs) \<Longrightarrow> distinct (map fst (List.map_filter decode_row xs))" for xs
  proof (induction xs)
    case (Cons kv xs)
    show ?case
    proof (cases "decode_row kv")
      case (Some ke)
      then have "fst ke = fst kv" by (cases ke) (simp add: decode_row_Some)
      then have "fst ke \<notin> fst ` set (List.map_filter decode_row xs)"
        using Cons.prems keys[of xs] by auto
      with Cons Some show ?thesis by (simp add: List.map_filter_simps)
    qed (use Cons in \<open>simp add: List.map_filter_simps\<close>)
  qed (simp add: List.map_filter_simps)
  then show ?thesis
    using bolt_lawsD(5)[OF assms, of b] by (simp add: tenant_rows_filter[OF assms] distinct_map_filter)
qed

lemma delete_keys_rows:
  assumes "bolt_laws B"
  shows "delete_keys B ks b = Some b' \<Longrightarrow>
    map_of (bk_rows B b') k = (if k \<in> set ks then None else map_of (bk_rows B b) k)"
proof (induction ks arbitrary: b)
  case (Cons x ks)
  then obtain b1 where "bk_delete B b x = Some b1" "delete_keys B ks b1 = Some b'"
    by (auto split: option.splits)
  then show ?case using Cons.IH[of b1] bolt_lawsD(4)[OF assms, of b x b1] by simp
qed simp

subsection \<open>Trimming\<close>

definition lru_sorts :: "lru_sort \<Rightarrow> bool" where
  "lru_sorts srt \<longleftrightarrow> (\<forall>xs. mset (srt xs) = mset xs \<and> sorted (map snd (srt xs)))"

definition tenant_keys :: "'b bolt \<Rightarrow> 'b \<Rightarrow> string \<Rightarrow> string set" where
  "tenant_keys B b tenant = fst ` set (tenant_rows B b tenant)"

lemma in_tenant_keys: "k \<in> tenant_keys B b tenant \<longleftrightarrow> (\<exists>e. (k, e) \<in> set (tenant_rows B b tenant))"
  by (force simp: tenant_keys_def)

lemma card_tenant_keys: "bolt_laws B \<Longrightarrow> card (tenant_keys B b tenant) = length (tenant_rows B b tenant)"
  using distinct_tenant_rows[of B b tenant] distinct_card[of "map fst (tenant_rows B b tenant)"]
  by (simp add: tenant_keys_def)

lemma lru_sorts_set: "lru_sorts srt \<Longrightarrow> set (srt xs) = set xs"
  unfolding lru_sorts_def by (blast dest: mset_eq_setD)

lemma victims_keys:
  assumes "lru_sorts srt" and "distinct (map fst xs)" and "n \<le> length xs"
  shows "card (fst ` set (take n (srt xs))) = n" and "fst ` set (take n (srt xs)) \<subseteq> fst ` set xs"
proof -
  have m: "mset (srt xs) = mset xs" using assms(1) by (simp add: lru_sorts_def)
  then have d: "distinct (map fst (srt xs))"
    using assms(2) by (metis mset_eq_imp_distinct_iff mset_map)
  then have "distinct (map fst (take n (srt xs)))"
    by (simp add: take_map[symmetric])
  from distinct_card[OF this] show "card (fst ` set (take n (srt xs))) = n"
    using assms(3) mset_eq_length[OF m] by simp
  show "fst ` set (take n (srt xs)) \<subseteq> fst ` set xs"
    using mset_eq_setD[OF m] set_take_subset[of n "srt xs"] by auto
qed

lemma victims_order:
  assumes "lru_sorts srt" and "(k, t) \<in> set (take n (srt xs))" and "(k', t') \<in> set xs"
    and "(k', t') \<notin> set (take n (srt xs))"
  shows "t \<le> t'"
proof -
  note lru_sorts_set[OF assms(1), of xs]
  moreover have "set (srt xs) = set (take n (srt xs)) \<union> set (drop n (srt xs))"
    by (metis append_take_drop_id set_append)
  ultimately have "(k', t') \<in> set (drop n (srt xs))" using assms(3,4) by auto
  moreover have "sorted (map snd (take n (srt xs)) @ map snd (drop n (srt xs)))"
    using assms(1) by (simp add: lru_sorts_def flip: map_append)
  ultimately show ?thesis using assms(2) by (force simp: sorted_append)
qed

lemma trim_spec:
  assumes B: "bolt_laws B" and srt: "lru_sorts srt" and mx: "0 \<le> mx"
    and trim: "trim_tenant_lru B srt b tenant mx = Some b'"
  obtains victims where
    "\<And>k. map_of (bk_rows B b') k = (if k \<in> victims then None else map_of (bk_rows B b) k)"
    and "victims \<subseteq> tenant_keys B b tenant"
    and "card victims = length (tenant_rows B b tenant) - nat mx"
    and "\<And>k e k' e'. (k, e) \<in> set (tenant_rows B b tenant) \<Longrightarrow> k \<in> victims \<Longrightarrow>
      (k', e') \<in> set (tenant_rows B b tenant) \<Longrightarrow> k' \<notin> victims \<Longrightarrow> te_BlockedUntil e \<le> te_BlockedUntil e'"
proof (cases "int (length (tenant_rows B b tenant)) \<le> mx")
  case True
  then show ?thesis using that[of "{}"] trim mx by (simp add: trim_tenant_lru_def)
next
  case False
  let ?rows = "tenant_rows B b tenant"
  let ?all = "map (\<lambda>(k, e). (k, te_BlockedUntil e)) ?rows"
  let ?n = "length ?rows - nat mx"
  let ?v = "fst ` set (take ?n (srt ?all))"
  have fst_all: "map fst ?all = map fst ?rows" by (simp add: case_prod_unfold)
  have d: "distinct (map fst ?all)" unfolding fst_all by (rule distinct_tenant_rows[OF B])
  have keys: "fst ` set ?all = tenant_keys B b tenant"
    unfolding tenant_keys_def using arg_cong[OF fst_all, of set] by (simp only: set_map)
  have "nat (int (length ?rows) - mx) = ?n" using mx by simp
  then have "delete_keys B (map fst (take ?n (srt ?all))) b = Some b'"
    using trim False by (simp add: trim_tenant_lru_def Let_def)
  from delete_keys_rows[OF B this]
  have "map_of (bk_rows B b') k = (if k \<in> ?v then None else map_of (bk_rows B b) k)" for k by simp
  moreover have "?v \<subseteq> tenant_keys B b tenant"
    unfolding keys[symmetric] by (rule victims_keys(2)[OF srt d]) simp
  moreover have "card ?v = ?n"
    by (rule victims_keys(1)[OF srt d]) simp
  moreover have "te_BlockedUntil e \<le> te_BlockedUntil e'"
    if a: "(k, e) \<in> set ?rows" "k \<in> ?v" "(k', e') \<in> set ?rows" "k' \<notin> ?v" for k e k' e'
  proof -
    obtain t where t: "(k, t) \<in> set (take ?n (srt ?all))" using a(2) by auto
    have "(k, t) \<in> set ?all"
      using in_set_takeD[OF t] unfolding lru_sorts_set[OF srt] .
    moreover have "(k, te_BlockedUntil e) \<in> set ?all" using a(1) by force
    ultimately have "t = te_BlockedUntil e" using d by (meson eq_key_imp_eq_value)
    moreover have "(k', te_BlockedUntil e') \<in> set ?all" using a(3) by force
    moreover have "(k', te_BlockedUntil e') \<notin> set (take ?n (srt ?all))"
      using a(4) by (metis fst_conv image_eqI)
    ultimately show ?thesis using victims_order[OF srt t] by blast
  qed
  ultimately show ?thesis by (rule that)
qed

subsection \<open>Add and Contains\<close>

lemma ttl_add_Inr:
  assumes "ttl_add B sha256 srt salt b tenant ip ttl reason mx now = Inr b'"
  obtains b1 e where "bk_put B b (ttl_key_for sha256 salt tenant ip) (Row e) = Some b1"
    and "te_BlockedUntil e = now + ttl" and "tenant \<noteq> []" and "ip \<noteq> []" and "0 < ttl"
    and "mx \<le> 0 \<Longrightarrow> b' = b1" and "0 < mx \<Longrightarrow> trim_tenant_lru B srt b1 tenant mx = Some b'"
  using assms
  by (auto simp: ttl_add_def Let_def split: if_splits option.splits)

lemma key_prefix: "prefix (tenant @ [CHR 0x00]) (ttl_key_for sha256 salt tenant ip)"
  by (simp add: ttl_key_for_def Let_def)

lemma key_prefix_other:
  assumes "CHR 0x00 \<notin> set t" and "CHR 0x00 \<notin> set t'"
    and "prefix (t @ [CHR 0x00]) (ttl_key_for sha256 salt t' ip)"
  shows "t = t'"
proof -
  obtain i where "ttl_key_for sha256 salt t' ip = t' @ CHR 0x00 # i"
    by (simp add: ttl_key_for_def Let_def)
  then obtain r where "t @ CHR 0x00 # r = t' @ CHR 0x00 # i"
    using assms(3) by (auto simp: prefix_def)
  then show ?thesis
    using index_byte_append[OF assms(1), of r] index_byte_append[OF assms(2), of i] by (simp add: append_eq_append_conv)
qed

lemma tenant_keys_put:
  assumes "bolt_laws B" and "bk_put B b key v = Some b1"
  shows "tenant_keys B b1 tenant \<subseteq> insert key (tenant_keys B b tenant)"
  using bolt_lawsD(3)[OF assms]
  by (force simp: tenant_keys_def in_tenant_rows[OF assms(1)] split: if_splits)

lemma length_tenant_rows_put:
  assumes "bolt_laws B" and "bk_put B b key v = Some b1"
  shows "length (tenant_rows B b1 tenant) \<le> Suc (length (tenant_rows B b tenant))"
  using card_mono[OF _ tenant_keys_put[OF assms, of tenant]] card_insert_le_m1[of _ "tenant_keys B b tenant"]
    card_insert_if[of "tenant_keys B b tenant" key]
  by (simp add: card_tenant_keys[OF assms(1), symmetric]) (simp add: tenant_keys_def split: if_splits)

lemma ttl_contains_rows:
  "bolt_laws B \<Longrightarrow> ttl_contains B sha256 salt b tenant ip now \<longleftrightarrow>
     tenant \<noteq> [] \<and> ip \<noteq> []
     \<and> (\<exists>e. map_of (bk_rows B b) (ttl_key_for sha256 salt tenant ip) = Some (Row e) \<and> now < te_BlockedUntil e)"
  by (auto simp: ttl_contains_def bolt_lawsD(2) split: option.splits ttl_row.splits)

lemma ttl_add_rows:
  assumes B: "bolt_laws B" and "lru_sorts srt"
    and add: "ttl_add B sha256 srt salt b tenant ip ttl reason mx now = Inr b'"
    and room: "mx \<le> 0 \<or> int (length (tenant_rows B b tenant)) < mx"
  obtains e where "te_BlockedUntil e = now + ttl" and "tenant \<noteq> []" and "ip \<noteq> []"
    and "map_of (bk_rows B b') = (map_of (bk_rows B b))(ttl_key_for sha256 salt tenant ip \<mapsto> Row e)"
proof -
  from ttl_add_Inr[OF add] obtain b1 e where
    b1: "bk_put B b (ttl_key_for sha256 salt tenant ip) (Row e) = Some b1" "te_BlockedUntil e = now + ttl"
      "tenant \<noteq> []" "ip \<noteq> []" "mx \<le> 0 \<Longrightarrow> b' = b1"
      "0 < mx \<Longrightarrow> trim_tenant_lru B srt b1 tenant mx = Some b'" by blast
  have "b' = b1"
    using b1(5,6) room length_tenant_rows_put[OF B b1(1), of tenant]
    by (cases "0 < mx") (auto simp: trim_tenant_lru_def Let_def)
  then show ?thesis using that[of e] b1 bolt_lawsD(3)[OF B b1(1)] by simp
qed

text \<open>A bucket for the witnesses: the log of writes, newest first.\<close>

definition log_lookup :: "(string \<times> ttl_row option) list \<Rightarrow> string \<Rightarrow> ttl_row option" where
  "log_lookup b k = (case map_of b k of Some v \<Rightarrow> v | None \<Rightarrow> None)"

definition log_row :: "(string \<times> ttl_row option) list \<Rightarrow> string \<Rightarrow> (string \<times> ttl_row) option" where
  "log_row b k = map_option (Pair k) (log_lookup b k)"

definition log_bolt :: "(string \<times> ttl_row option) list bolt" where
  "log_bolt = \<lparr>bk_get = log_lookup, bk_put = (\<lambda>b k v. Some ((k, Some v) # b)),
     bk_delete = (\<lambda>b k. Some ((k, None) # b)),
     bk_rows = (\<lambda>b. List.map_filter (log_row b) (sort (remdups (map fst b))))\<rparr>"

lemma log_rows:
  "map_of (List.map_filter (log_row b) ks) k = (if k \<in> set ks then log_lookup b k else None)"
  by (induction ks) (auto simp: List.map_filter_simps log_row_def split: option.splits)

lemma log_rows_sorted:
  "sorted_wrt (<) ks \<Longrightarrow> sorted_wrt (<) (map fst (List.map_filter (log_row b) ks))"
  by (induction ks)
     (auto simp: List.map_filter_simps set_list_map_filter log_row_def split: option.splits)

lemma log_lookup_outside: "k \<notin> fst ` set b \<Longrightarrow> log_lookup b k = None"
  by (simp add: log_lookup_def map_of_eq_None_iff[THEN iffD2])

lemma log_bolt_laws: "bolt_laws log_bolt"
proof -
  have rows: "map_of (bk_rows log_bolt b) = log_lookup b" for b
    using log_lookup_outside[of _ b] by (auto simp: log_bolt_def log_rows fun_eq_iff)
  have "sorted_wrt (<) (sort (remdups (map fst b)))" for b :: "(string \<times> ttl_row option) list"
    by (simp add: strict_sorted_iff)
  then have "sorted_wrt (<) (map fst (bk_rows log_bolt b))" for b
    by (simp add: log_bolt_def log_rows_sorted)
  then show ?thesis
    unfolding bolt_laws_def rows
    by (auto simp: log_bolt_def log_lookup_def fun_eq_iff)
qed

lemma lru_sorts_sort_key: "lru_sorts (sort_key snd)"
  by (simp add: lru_sorts_def)

lemma ttl_add_then_contains_parts:
  assumes "bolt_laws B" and "lru_sorts srt"
    and "ttl_add B sha256 srt salt b tenant ip ttl reason mx now = Inr b'"
    and "mx \<le> 0 \<or> int (length (tenant_rows B b tenant)) < mx"
  shows "ttl_contains B sha256 salt b' tenant ip u \<longleftrightarrow> u < now + ttl"
    and "ttl_key_for sha256 salt tenant' ip' \<noteq> ttl_key_for sha256 salt tenant ip \<Longrightarrow>
      ttl_contains B sha256 salt b' tenant' ip' u = ttl_contains B sha256 salt b tenant' ip' u"
proof -
  from ttl_add_rows[OF assms] obtain e where
    e: "te_BlockedUntil e = now + ttl" "tenant \<noteq> []" "ip \<noteq> []"
      "map_of (bk_rows B b') = (map_of (bk_rows B b))(ttl_key_for sha256 salt tenant ip \<mapsto> Row e)" .
  show "ttl_contains B sha256 salt b' tenant ip u \<longleftrightarrow> u < now + ttl"
    using e by (simp add: ttl_contains_rows[OF assms(1)])
  assume "ttl_key_for sha256 salt tenant' ip' \<noteq> ttl_key_for sha256 salt tenant ip"
  then show "ttl_contains B sha256 salt b' tenant' ip' u = ttl_contains B sha256 salt b tenant' ip' u"
    using e(4) by (simp add: ttl_contains_rows[OF assms(1)])
qed

text \<open>
  As long as the tenant has room under the cap (or there is no cap), a successful
  \<^verbatim>\<open>Add\<close> blocks the address for exactly the requested time, whatever an earlier entry said, and
  changes the answer of \<^verbatim>\<open>Contains\<close> for no pair with a different key.
\<close>

theorem ttl_add_then_contains:
  assumes "bolt_laws B" and "lru_sorts srt"
    and "ttl_add B sha256 srt salt b tenant ip ttl reason mx now = Inr b'"
    and "mx \<le> 0 \<or> int (length (tenant_rows B b tenant)) < mx"
  shows "(ttl_contains B sha256 salt b' tenant ip u \<longleftrightarrow> u < now + ttl)
    \<and> (ttl_key_for sha256 salt tenant' ip' \<noteq> ttl_key_for sha256 salt tenant ip \<longrightarrow>
      ttl_contains B sha256 salt b' tenant' ip' u = ttl_contains B sha256 salt b tenant' ip' u)"
  using ttl_add_then_contains_parts[OF assms] by blast

theorem ttl_add_then_contains_witness:
  "\<exists>b'. ttl_add log_bolt id (sort_key snd) [] [] ''t'' ''1.2.3.4'' 50 [] 2 100 = Inr b'
     \<and> ttl_contains log_bolt id [] b' ''t'' ''1.2.3.4'' 149
     \<and> \<not> ttl_contains log_bolt id [] b' ''t'' ''1.2.3.4'' 150"
proof -
  obtain b' where b': "ttl_add log_bolt id (sort_key snd) [] [] ''t'' ''1.2.3.4'' 50 [] 2 100 = Inr b'"
    by (simp add: ttl_add_def json_time_ok_def second_def log_bolt_def trim_tenant_lru_def tenant_rows_def
        cursor_prefix_def log_row_def log_lookup_def List.map_filter_simps has_prefix_def ttl_key_for_def
        saltLen_def decode_row_def Let_def)
  have room: "(2::int) \<le> 0 \<or> int (length (tenant_rows log_bolt [] ''t'')) < 2"
    by (simp add: tenant_rows_def cursor_prefix_def log_bolt_def List.map_filter_simps)
  show ?thesis
    using b' ttl_add_then_contains[OF log_bolt_laws lru_sorts_sort_key b' room, of 149, THEN conjunct1]
      ttl_add_then_contains[OF log_bolt_laws lru_sorts_sort_key b' room, of 150, THEN conjunct1] by auto
qed

lemma ttl_add_enforces_cap_parts:
  assumes "bolt_laws B" and "lru_sorts srt" and "0 < mx"
    and "ttl_add B sha256 srt salt b tenant ip ttl reason mx now = Inr b'"
  shows "int (length (tenant_rows B b' tenant)) \<le> mx"
    and "(k, e) \<in> set (tenant_rows B b tenant) \<Longrightarrow> k \<notin> tenant_keys B b' tenant \<Longrightarrow>
      (k', e') \<in> set (tenant_rows B b' tenant) \<Longrightarrow> k \<noteq> ttl_key_for sha256 salt tenant ip \<Longrightarrow>
      te_BlockedUntil e \<le> te_BlockedUntil e'"
    and "CHR 0x00 \<notin> set tenant \<Longrightarrow> CHR 0x00 \<notin> set tenant' \<Longrightarrow> tenant' \<noteq> tenant \<Longrightarrow>
      ttl_contains B sha256 salt b' tenant' ip' u = ttl_contains B sha256 salt b tenant' ip' u"
proof -
  let ?key = "ttl_key_for sha256 salt tenant ip"
  note B = assms(1)
  from ttl_add_Inr[OF assms(4)] obtain b1 e1 where put: "bk_put B b ?key (Row e1) = Some b1"
    and trim: "trim_tenant_lru B srt b1 tenant mx = Some b'" using assms(3) by metis
  note rows1 = bolt_lawsD(3)[OF B put]
  from assms(3) have "0 \<le> mx" by simp
  from trim_spec[OF B assms(2) this trim] obtain victims where
    v: "\<And>k. map_of (bk_rows B b') k = (if k \<in> victims then None else map_of (bk_rows B b1) k)"
      "victims \<subseteq> tenant_keys B b1 tenant" "card victims = length (tenant_rows B b1 tenant) - nat mx"
      "\<And>k e k' e'. (k, e) \<in> set (tenant_rows B b1 tenant) \<Longrightarrow> k \<in> victims \<Longrightarrow>
        (k', e') \<in> set (tenant_rows B b1 tenant) \<Longrightarrow> k' \<notin> victims \<Longrightarrow> te_BlockedUntil e \<le> te_BlockedUntil e'"
    by auto
  have in': "(k, e) \<in> set (tenant_rows B b' tenant) \<longleftrightarrow> (k, e) \<in> set (tenant_rows B b1 tenant) \<and> k \<notin> victims" for k e
    by (simp add: in_tenant_rows[OF B] v(1))
  then have "tenant_keys B b' tenant = tenant_keys B b1 tenant - victims"
    by (auto simp: in_tenant_keys)
  then have "card (tenant_keys B b' tenant) = card (tenant_keys B b1 tenant) - card victims"
    using card_Diff_subset[OF finite_subset[OF v(2)] v(2)] by (simp add: tenant_keys_def)
  then have "length (tenant_rows B b' tenant) = length (tenant_rows B b1 tenant) - card victims"
    by (simp only: card_tenant_keys[OF B])
  then show "int (length (tenant_rows B b' tenant)) \<le> mx" using v(3) assms(3) by simp
  show "te_BlockedUntil e \<le> te_BlockedUntil e'"
    if a: "(k, e) \<in> set (tenant_rows B b tenant)" "k \<notin> tenant_keys B b' tenant"
      "(k', e') \<in> set (tenant_rows B b' tenant)" "k \<noteq> ?key"
  proof -
    have "(k, e) \<in> set (tenant_rows B b1 tenant)" using a(1,4) rows1 by (simp add: in_tenant_rows[OF B])
    moreover from this have "k \<in> victims" using a(2) in'[of k e] by (auto simp: in_tenant_keys)
    ultimately show ?thesis using v(4) a(3) in' by blast
  qed
  show "ttl_contains B sha256 salt b' tenant' ip' u = ttl_contains B sha256 salt b tenant' ip' u"
    if a: "CHR 0x00 \<notin> set tenant" "CHR 0x00 \<notin> set tenant'" "tenant' \<noteq> tenant"
  proof -
    let ?key' = "ttl_key_for sha256 salt tenant' ip'"
    have foreign: "\<not> prefix (tenant @ [CHR 0x00]) ?key'" using key_prefix_other[OF a(1,2)] a(3) by blast
    then have "?key' \<notin> victims" using v(2) by (auto simp: tenant_keys_def in_tenant_rows[OF B])
    moreover have "?key' \<noteq> ?key" using foreign key_prefix by metis
    ultimately show ?thesis by (simp add: ttl_contains_rows[OF B] v(1) rows1)
  qed
qed

text \<open>
  C16 (bounds). A successful \<^verbatim>\<open>Add\<close> with a positive cap leaves the tenant with at most that many entries; every
  entry it evicted had a deadline no later than any entry it kept; and for other tenants nothing changes.
\<close>

theorem ttl_add_enforces_cap:
  assumes "bolt_laws B" and "lru_sorts srt" and "0 < mx"
    and "ttl_add B sha256 srt salt b tenant ip ttl reason mx now = Inr b'"
  shows "(int (length (tenant_rows B b' tenant)) \<le> mx)
    \<and> ((k, e) \<in> set (tenant_rows B b tenant) \<longrightarrow> k \<notin> tenant_keys B b' tenant \<longrightarrow>
      (k', e') \<in> set (tenant_rows B b' tenant) \<longrightarrow> k \<noteq> ttl_key_for sha256 salt tenant ip \<longrightarrow>
      te_BlockedUntil e \<le> te_BlockedUntil e')
    \<and> (CHR 0x00 \<notin> set tenant \<longrightarrow> CHR 0x00 \<notin> set tenant' \<longrightarrow> tenant' \<noteq> tenant \<longrightarrow>
      ttl_contains B sha256 salt b' tenant' ip' u = ttl_contains B sha256 salt b tenant' ip' u)"
  using ttl_add_enforces_cap_parts[OF assms] by blast

theorem ttl_add_enforces_cap_witness:
  "\<exists>b'. ttl_add log_bolt id (sort_key snd) [] [(''t'' @ CHR 0x00 # ''a'', Some (Row \<lparr>te_Tenant = ''t'',
       te_IPOrHash = ''a'', te_BlockedUntil = 120, te_Reason = []\<rparr>))] ''t'' ''b'' 50 [] 1 100 = Inr b'
     \<and> int (length (tenant_rows log_bolt b' ''t'')) \<le> 1"
proof -
  let ?b = "[(''t'' @ CHR 0x00 # ''a'', Some (Row \<lparr>te_Tenant = ''t'',
       te_IPOrHash = ''a'', te_BlockedUntil = 120, te_Reason = []\<rparr>))]"
  obtain b' where b': "ttl_add log_bolt id (sort_key snd) [] ?b ''t'' ''b'' 50 [] 1 100 = Inr b'"
    by (simp add: ttl_add_def json_time_ok_def second_def log_bolt_def trim_tenant_lru_def tenant_rows_def
        cursor_prefix_def log_row_def log_lookup_def List.map_filter_simps has_prefix_def ttl_key_for_def
        saltLen_def decode_row_def Let_def)
  show ?thesis
    using b' ttl_add_enforces_cap[OF log_bolt_laws lru_sorts_sort_key _ b', THEN conjunct1] by auto
qed

text \<open>
  The entry being added takes part in the eviction: on a full tenant, a successful \<^verbatim>\<open>Add\<close> whose
  deadline lies before those of all stored entries evicts the entry it has just written, so that the address
  is not blocked at all although no error is returned.
\<close>

theorem ttl_add_may_evict_itself:
  assumes "bolt_laws B" and "lru_sorts srt" and "0 < mx"
    and "ttl_add B sha256 srt salt b tenant ip ttl reason mx now = Inr b'"
    and "ttl_key_for sha256 salt tenant ip \<notin> tenant_keys B b tenant"
    and "int (length (tenant_rows B b tenant)) = mx"
    and "list_all (\<lambda>(k, e). now + ttl < te_BlockedUntil e) (tenant_rows B b tenant)"
  shows "\<not> ttl_contains B sha256 salt b' tenant ip u"
proof -
  let ?key = "ttl_key_for sha256 salt tenant ip"
  note B = assms(1)
  from ttl_add_Inr[OF assms(4)] obtain b1 e1 where put: "bk_put B b ?key (Row e1) = Some b1"
    and e1: "te_BlockedUntil e1 = now + ttl"
    and trim: "trim_tenant_lru B srt b1 tenant mx = Some b'" using assms(3) by metis
  note rows1 = bolt_lawsD(3)[OF B put]
  have in1: "(k, e) \<in> set (tenant_rows B b1 tenant) \<longleftrightarrow>
      (if k = ?key then e = e1 else (k, e) \<in> set (tenant_rows B b tenant))" for k e
    by (auto simp: in_tenant_rows[OF B] rows1 key_prefix)
  have keys1: "tenant_keys B b1 tenant = insert ?key (tenant_keys B b tenant)"
    unfolding set_eq_iff insert_iff in_tenant_keys in1 by metis
  have len1: "length (tenant_rows B b1 tenant) = Suc (nat mx)"
    using assms(5,6) card_insert_disjoint[OF _ assms(5)] unfolding card_tenant_keys[OF B, symmetric] keys1
    by (simp add: tenant_keys_def)
  from assms(3) have "0 \<le> mx" by simp
  from trim_spec[OF B assms(2) this trim] obtain victims where
    v: "\<And>k. map_of (bk_rows B b') k = (if k \<in> victims then None else map_of (bk_rows B b1) k)"
      "victims \<subseteq> tenant_keys B b1 tenant" "card victims = length (tenant_rows B b1 tenant) - nat mx"
      "\<And>k e k' e'. (k, e) \<in> set (tenant_rows B b1 tenant) \<Longrightarrow> k \<in> victims \<Longrightarrow>
        (k', e') \<in> set (tenant_rows B b1 tenant) \<Longrightarrow> k' \<notin> victims \<Longrightarrow> te_BlockedUntil e \<le> te_BlockedUntil e'"
    by auto
  have "?key \<in> victims"
  proof (rule ccontr)
    assume out: "?key \<notin> victims"
    have "victims \<noteq> {}" using v(3) len1 by auto
    then obtain k e where k: "k \<in> victims" "(k, e) \<in> set (tenant_rows B b1 tenant)"
      using v(2) by (meson all_not_in_conv in_tenant_keys subsetD)
    moreover from this out have "(k, e) \<in> set (tenant_rows B b tenant)"
      by (auto simp: in1 split: if_splits)
    then have "now + ttl < te_BlockedUntil e" using assms(7) by (auto simp: list_all_iff)
    ultimately show False using v(4)[OF k(2,1), of ?key e1] out e1 by (simp add: in1)
  qed
  then show ?thesis by (simp add: ttl_contains_rows[OF B] v(1))
qed

theorem ttl_add_may_evict_itself_witness:
  "\<exists>b'. ttl_add log_bolt id (sort_key snd) [] [(''t'' @ CHR 0x00 # ''a'', Some (Row \<lparr>te_Tenant = ''t'',
       te_IPOrHash = ''a'', te_BlockedUntil = 500, te_Reason = []\<rparr>))] ''t'' ''b'' 50 [] 1 100 = Inr b'
     \<and> \<not> ttl_contains log_bolt id [] b' ''t'' ''b'' 101"
proof -
  let ?b = "[(''t'' @ CHR 0x00 # ''a'', Some (Row \<lparr>te_Tenant = ''t'',
       te_IPOrHash = ''a'', te_BlockedUntil = 500, te_Reason = []\<rparr>))]"
  have rows: "tenant_rows log_bolt ?b ''t'' = [(''t'' @ CHR 0x00 # ''a'', \<lparr>te_Tenant = ''t'',
       te_IPOrHash = ''a'', te_BlockedUntil = 500, te_Reason = []\<rparr>)]"
    by (simp add: log_bolt_def tenant_rows_def cursor_prefix_def log_row_def log_lookup_def
        List.map_filter_simps has_prefix_def decode_row_def)
  obtain b' where b': "ttl_add log_bolt id (sort_key snd) [] ?b ''t'' ''b'' 50 [] 1 100 = Inr b'"
    by (simp add: ttl_add_def json_time_ok_def second_def log_bolt_def trim_tenant_lru_def tenant_rows_def
        cursor_prefix_def log_row_def log_lookup_def List.map_filter_simps has_prefix_def ttl_key_for_def
        saltLen_def decode_row_def Let_def)
  have "\<not> ttl_contains log_bolt id [] b' ''t'' ''b'' 101"
    by (rule ttl_add_may_evict_itself[OF log_bolt_laws lru_sorts_sort_key _ b'])
       (simp_all add: rows[simplified] tenant_keys_def ttl_key_for_def saltLen_def)
  with b' show ?thesis by blast
qed

subsection \<open>Sweep\<close>

definition ttl_live :: "'b bolt \<Rightarrow> 'b \<Rightarrow> time \<Rightarrow> string \<Rightarrow> bool" where
  "ttl_live B b now k = (case map_of (bk_rows B b) k of None \<Rightarrow> False | Some v \<Rightarrow> \<not> row_dead v now)"

definition swept :: "'b bolt \<Rightarrow> 'b \<Rightarrow> time \<Rightarrow> 'b" where
  "swept B b now = (case ttl_sweep B b now of Inl _ \<Rightarrow> b | Inr b' \<Rightarrow> b')"

lemma in_sweep_scan:
  "bolt_laws B \<Longrightarrow> k \<in> set (sweep_scan B b now) \<longleftrightarrow>
     (\<exists>v. map_of (bk_rows B b) k = Some v \<and> row_dead v now)"
  by (force simp: sweep_scan_def in_rows[symmetric])

lemma sweep_delete_rows:
  assumes "bolt_laws B" and "sweep_delete B ks b = Inr b'"
  shows "map_of (bk_rows B b') k = (if k \<in> set ks then None else map_of (bk_rows B b) k)"
  using assms(2) delete_keys_rows[OF assms(1)]
  by (auto simp: sweep_delete_def split: if_splits option.splits)

lemma swept_rows:
  assumes "bolt_laws B"
  shows "map_of (bk_rows B (swept B b now)) k = map_of (bk_rows B b) k
    \<or> map_of (bk_rows B (swept B b now)) k = None \<and> (\<exists>v. map_of (bk_rows B b) k = Some v \<and> row_dead v now)"
  using sweep_delete_rows[OF assms, of "sweep_scan B b now" b] in_sweep_scan[OF assms, of k b now]
  by (auto simp: swept_def ttl_sweep_def split: sum.splits)

lemma row_dead_mono: "row_dead v t \<Longrightarrow> t \<le> u \<Longrightarrow> row_dead v u"
  by (auto simp: row_dead_def split: ttl_row.splits)

text \<open>The store is an instance of the expiry interface for every bucket with the documented laws.\<close>

lemma ttl_sweepable:
  assumes "bolt_laws B"
  shows "sweepable (\<lambda>_. True) (ttl_live B) (swept B)"
proof
  fix b t u k
  assume "t \<le> (u :: time)"
  then show "ttl_live B (swept B b t) u k \<longleftrightarrow> ttl_live B b u k"
    using swept_rows[OF assms, of b t k] by (auto simp: ttl_live_def dest: row_dead_mono)
next
  fix b t u k
  assume "t \<le> (u :: time)" "ttl_live B b u k"
  then show "ttl_live B b t k"
    by (auto simp: ttl_live_def dest: row_dead_mono split: option.splits)
qed simp

lemma ttl_contains_live:
  "bolt_laws B \<Longrightarrow> ttl_contains B sha256 salt b tenant ip now \<longleftrightarrow>
     tenant \<noteq> [] \<and> ip \<noteq> [] \<and> ttl_live B b now (ttl_key_for sha256 salt tenant ip)"
  by (auto simp: ttl_contains_rows ttl_live_def row_dead_def split: option.splits ttl_row.splits)

lemma ttl_sweep_invisible_parts:
  assumes "bolt_laws B"
  shows "list_all (\<lambda>t. t \<le> now) ts \<Longrightarrow>
      ttl_contains B sha256 salt (fold (\<lambda>t b. swept B b t) ts b) tenant ip now
        = ttl_contains B sha256 salt b tenant ip now"
    and "ttl_sweep B b now = Inr b' \<Longrightarrow>
      (\<exists>v. map_of (bk_rows B b') k = Some v) \<longleftrightarrow> ttl_live B b now k"
proof -
  show "ttl_contains B sha256 salt (fold (\<lambda>t b. swept B b t) ts b) tenant ip now
        = ttl_contains B sha256 salt b tenant ip now" if "list_all (\<lambda>t. t \<le> now) ts"
    using sweepable.live_sweeps[OF ttl_sweepable[OF assms] TrueI that]
    by (simp add: ttl_contains_live[OF assms])
  assume "ttl_sweep B b now = Inr b'"
  then show "(\<exists>v. map_of (bk_rows B b') k = Some v) \<longleftrightarrow> ttl_live B b now k"
    using sweep_delete_rows[OF assms, of "sweep_scan B b now" b b' k] in_sweep_scan[OF assms, of k b now]
    by (auto simp: ttl_sweep_def ttl_live_def split: option.splits if_splits)
qed

text \<open>
  Sweeps at any earlier times, successful or failing, never change an answer of \<^verbatim>\<open>Contains\<close>; and after a
  successful sweep exactly the entries that still block are stored.
\<close>

theorem ttl_sweep_invisible:
  assumes "bolt_laws B"
  shows "(list_all (\<lambda>t. t \<le> now) ts \<longrightarrow>
      ttl_contains B sha256 salt (fold (\<lambda>t b. swept B b t) ts b) tenant ip now
        = ttl_contains B sha256 salt b tenant ip now)
    \<and> (ttl_sweep B b now = Inr b' \<longrightarrow>
      (\<exists>v. map_of (bk_rows B b') k = Some v) \<longleftrightarrow> ttl_live B b now k)"
  using ttl_sweep_invisible_parts[OF assms] by blast

theorem ttl_sweep_invisible_witness:
  "ttl_contains log_bolt id [] (fold (\<lambda>t b. swept log_bolt b t) [10, 20]
       [(''t'' @ CHR 0x00 # ''a'', Some (Row \<lparr>te_Tenant = ''t'', te_IPOrHash = ''a'', te_BlockedUntil = 50, te_Reason = []\<rparr>))])
       ''t'' ''a'' 49"
  by (subst ttl_sweep_invisible[OF log_bolt_laws, THEN conjunct1, rule_format])
     (simp_all add: ttl_contains_def log_bolt_def log_lookup_def ttl_key_for_def saltLen_def)

text \<open>
  \<^verbatim>\<open>Sweep\<close> collects the expired keys in one transaction and deletes them in another one. If the address is blocked
  again between the two, the delete removes the new entry: after a scan at \<open>t0\<close> that saw the expired entry, a successful
  \<^verbatim>\<open>Add\<close>, and the delete, the address is not blocked, however long the requested time.
\<close>

theorem ttl_sweep_race_loses_block:
  assumes "bolt_laws B"
    and "map_of (bk_rows B b) (ttl_key_for sha256 salt tenant ip) = Some v" and "row_dead v t0"
    and "ttl_add B sha256 srt salt b tenant ip ttl reason mx now = Inr b1"
    and "sweep_delete B (sweep_scan B b t0) b1 = Inr b2"
  shows "\<not> ttl_contains B sha256 salt b2 tenant ip u"
proof -
  have "ttl_key_for sha256 salt tenant ip \<in> set (sweep_scan B b t0)"
    using in_sweep_scan[OF assms(1)] assms(2,3) by blast
  then show ?thesis
    by (simp add: ttl_contains_rows[OF assms(1)] sweep_delete_rows[OF assms(1,5)])
qed

theorem ttl_sweep_race_loses_block_witness:
  "\<exists>b1 b2. ttl_add log_bolt id (sort_key snd) []
       [(''t'' @ CHR 0x00 # ''a'', Some (Row \<lparr>te_Tenant = ''t'', te_IPOrHash = ''a'', te_BlockedUntil = 50, te_Reason = []\<rparr>))]
       ''t'' ''a'' 1000 [] 0 60 = Inr b1
     \<and> ttl_contains log_bolt id [] b1 ''t'' ''a'' 61
     \<and> sweep_delete log_bolt (sweep_scan log_bolt
       [(''t'' @ CHR 0x00 # ''a'', Some (Row \<lparr>te_Tenant = ''t'', te_IPOrHash = ''a'', te_BlockedUntil = 50, te_Reason = []\<rparr>))] 60) b1
         = Inr b2
     \<and> \<not> ttl_contains log_bolt id [] b2 ''t'' ''a'' 61"
proof -
  let ?e = "\<lparr>te_Tenant = ''t'', te_IPOrHash = ''a'', te_BlockedUntil = 50, te_Reason = []\<rparr>"
  let ?b = "[(''t'' @ CHR 0x00 # ''a'', Some (Row ?e))]"
  obtain b1 where b1: "ttl_add log_bolt id (sort_key snd) [] ?b ''t'' ''a'' 1000 [] 0 60 = Inr b1"
    and hit: "ttl_contains log_bolt id [] b1 ''t'' ''a'' 61"
    by (simp add: ttl_add_def json_time_ok_def second_def log_bolt_def ttl_contains_def log_lookup_def
        ttl_key_for_def saltLen_def Let_def)
  obtain b2 where b2: "sweep_delete log_bolt (sweep_scan log_bolt ?b 60) b1 = Inr b2"
    by (simp add: sweep_delete_def sweep_scan_def log_bolt_def log_row_def log_lookup_def
        List.map_filter_simps row_dead_def)
  have "map_of (bk_rows log_bolt ?b) (ttl_key_for id [] ''t'' ''a'') = Some (Row ?e)"
    by (simp add: log_bolt_def log_row_def log_lookup_def List.map_filter_simps ttl_key_for_def saltLen_def)
  from ttl_sweep_race_loses_block[OF log_bolt_laws this _ b1 b2]
  have "\<not> ttl_contains log_bolt id [] b2 ''t'' ''a'' 61" by (simp add: row_dead_def)
  with b1 hit b2 show ?thesis by blast
qed

subsection \<open>The salt survives\<close>

lemma below_16: "n < (16::nat) \<longleftrightarrow> n \<in> set [0..<16]"
  by simp

lemma hex_digit_props:
  "list_all (\<lambda>n. hex_value (hex_digit n) = Some n \<and> hex_digit n \<noteq> CHR 0x0A \<and> hex_digit n \<noteq> CHR 0x0D) [0..<16]"
  by code_simp

lemma hex_digit_ok: "n < 16 \<Longrightarrow> hex_value (hex_digit n) = Some n \<and> hex_digit n \<noteq> CHR 0x0A \<and> hex_digit n \<noteq> CHR 0x0D"
  using hex_digit_props unfolding list_all_iff below_16 by blast

lemma of_char_bound: "(of_char c :: nat) < 256"
  using nat_of_char_less_256 by simp

lemma hex_roundtrip: "hex_decode (hex_encode s) = Some s"
proof (induction s)
  case (Cons c s)
  have "hex_value (hex_digit (of_char c div 16)) = Some (of_char c div 16)"
    and "hex_value (hex_digit (of_char c mod 16)) = Some (of_char c mod 16)"
    using of_char_bound[of c] by (simp_all add: hex_digit_ok less_mult_imp_div_less)
  then show ?case using Cons by (simp add: hex_encode_def)
qed (simp add: hex_encode_def)

lemma length_hex_encode [simp]: "length (hex_encode s) = 2 * length s"
  by (induction s) (simp_all add: hex_encode_def)

lemma hex_encode_last: "s \<noteq> [] \<Longrightarrow> last (hex_encode s) = hex_digit (of_char (last s) mod 16)"
  by (induction s) (auto simp: hex_encode_def)

lemma decode_salt_hex: "length salt = saltLen \<Longrightarrow> decode_salt_maybe_hex (hex_encode salt) = salt"
proof -
  assume len: "length salt = saltLen"
  then have "salt \<noteq> []" by (auto simp: saltLen_def)
  then have "trim_right_newlines (hex_encode salt) = hex_encode salt"
    using hex_digit_ok[of "of_char (last salt) mod 16"]
    by (subst trim_right_newlines.simps) (simp add: hex_encode_last)
  with len show ?thesis
    by (simp add: decode_salt_maybe_hex_def hex_roundtrip saltLen_def)
qed

lemma load_salt_cases:
  assumes "length rnd = saltLen" and "load_or_create_salt rnd s = (salt, s')"
  shows "length salt = saltLen" and "st_db s' = salt"
    and "decode_salt_maybe_hex (case st_file s' of None \<Rightarrow> [] | Some raw \<Rightarrow> raw) = salt"
proof -
  define d where "d = decode_salt_maybe_hex (case st_file s of None \<Rightarrow> [] | Some raw \<Rightarrow> raw)"
  have r: "salt = (if length d = saltLen then d else if length (st_db s) = saltLen then st_db s else rnd)"
    "s' = \<lparr>st_file = (if d \<noteq> salt then Some (hex_encode salt) else st_file s), st_db = salt\<rparr>"
    using assms(2) by (simp_all add: load_or_create_salt_def Let_def d_def[symmetric] split: if_splits) auto
  show len: "length salt = saltLen" using assms(1) unfolding r(1) by simp
  show "st_db s' = salt" unfolding r(2) by simp
  show "decode_salt_maybe_hex (case st_file s' of None \<Rightarrow> [] | Some raw \<Rightarrow> raw) = salt"
  proof (cases "d = salt")
    case True
    then show ?thesis using d_def by (simp add: r(2))
  next
    case False
    then show ?thesis using decode_salt_hex[OF len] by (simp add: r(2))
  qed
qed

text \<open>
  Once a salt has been loaded or created, every later open returns the same salt and generates no new
  one, also when the salt file has been deleted in between, or the database replaced by one without a salt.
\<close>

theorem salt_is_stable:
  assumes "length rnd = saltLen" and "load_or_create_salt rnd s = (salt, s')"
  shows "fst (load_or_create_salt rnd' s') = salt"
    and "fst (load_or_create_salt rnd' (s'\<lparr>st_file := None\<rparr>)) = salt"
    and "fst (load_or_create_salt rnd' (s'\<lparr>st_db := []\<rparr>)) = salt"
proof -
  note l = load_salt_cases[OF assms]
  have empty: "length (decode_salt_maybe_hex []) \<noteq> saltLen"
    by (simp add: decode_salt_maybe_hex_def saltLen_def trim_right_newlines.simps)
  show "fst (load_or_create_salt rnd' s') = salt"
    and "fst (load_or_create_salt rnd' (s'\<lparr>st_db := []\<rparr>)) = salt"
    using l by (simp_all add: load_or_create_salt_def Let_def)
  show "fst (load_or_create_salt rnd' (s'\<lparr>st_file := None\<rparr>)) = salt"
    using l empty by (simp add: load_or_create_salt_def Let_def)
qed

theorem salt_is_stable_witness:
  "fst (load_or_create_salt [] ((snd (load_or_create_salt (replicate 32 CHR ''x'') \<lparr>st_file = None, st_db = []\<rparr>))
     \<lparr>st_file := None\<rparr>)) = replicate 32 CHR ''x''"
proof -
  have "fst (load_or_create_salt (replicate 32 CHR ''x'') \<lparr>st_file = None, st_db = []\<rparr>) = replicate 32 CHR ''x''"
    by (simp add: load_or_create_salt_def decode_salt_maybe_hex_def saltLen_def trim_right_newlines.simps Let_def)
  moreover have "length (replicate 32 CHR ''x'') = saltLen" by (simp add: saltLen_def)
  ultimately show ?thesis
    using salt_is_stable(2)[of "replicate 32 CHR ''x''" "\<lparr>st_file = None, st_db = []\<rparr>"]
    by (metis prod.collapse)
qed

end
