(* ===== verification/Ttlblock.thy ===== *)
theory Ttlblock
  imports Registry Ttlstore
begin

text \<open>
  The \<^verbatim>\<open>ttl_blocklist\<close> feature, \<^verbatim>\<open>internal/feature/ttlblock/ttlblock.go\<close>, over the store of theory
  \<open>Ttlstore\<close>. The store handle is a type variable: \<^verbatim>\<open>openStore\<close> is an argument (\<open>None\<close> is an
  error), and \<open>ttl_observe\<close> reports which handle it opened and which it closed. The sweeper
  goroutine only calls \<^verbatim>\<open>Sweep\<close>. \<^verbatim>\<open>time.ParseDuration\<close> is the parameter \<open>parse_duration\<close>. What the
  middleware does with a request is a verdict: pass it on, or apply an action with the
  given duration.
\<close>

subsection \<open>Model\<close>

definition ttl_FeatureName :: string where "ttl_FeatureName = ''ttl_blocklist''"

record ttl_params =
  tp_DBPath :: string
  tp_DefaultTTL :: duration
  tp_Action :: string
  tp_SaltedHashes :: bool
  tp_SaltFile :: string
  tp_MaxEntries :: int
  tp_TrustXFF :: bool

definition ttl_defaults :: ttl_params where
  "ttl_defaults =
     \<lparr>tp_DBPath = ''/var/lib/gateway/ttlblock.db'', tp_DefaultTTL = 24 * 3600 * second,
      tp_Action = BlockActionDrop, tp_SaltedHashes = True, tp_SaltFile = ''/etc/gateway/ttlblock-salt'',
      tp_MaxEntries = 100000, tp_TrustXFF = False\<rparr>"

definition ttl_parse_params :: "(string \<Rightarrow> duration option) \<Rightarrow> (string \<rightharpoonup> any_val) \<Rightarrow> ttl_params" where
  "ttl_parse_params parse_duration p =
     \<lparr>tp_DBPath =
        (case p ''db_path'' of
           Some (VString v) \<Rightarrow> if v \<noteq> [] then v else tp_DBPath ttl_defaults
         | _ \<Rightarrow> tp_DBPath ttl_defaults),
      tp_DefaultTTL =
        (case p ''default_ttl'' of
           Some (VString v) \<Rightarrow>
             if v = [] then tp_DefaultTTL ttl_defaults
             else (case parse_duration v of
                     Some d \<Rightarrow> if d > 0 then d else tp_DefaultTTL ttl_defaults
                   | None \<Rightarrow> tp_DefaultTTL ttl_defaults)
         | _ \<Rightarrow> tp_DefaultTTL ttl_defaults),
      tp_Action =
        (case p ''action'' of
           Some (VString v) \<Rightarrow>
             if v \<noteq> [] \<and> block_action_is_valid v then v else tp_Action ttl_defaults
         | _ \<Rightarrow> tp_Action ttl_defaults),
      tp_SaltedHashes =
        (case p ''salted_hashes'' of Some (VBool v) \<Rightarrow> v | _ \<Rightarrow> tp_SaltedHashes ttl_defaults),
      tp_SaltFile =
        (case p ''salt_file'' of Some (VString v) \<Rightarrow> v | _ \<Rightarrow> tp_SaltFile ttl_defaults),
      tp_MaxEntries =
        (case p ''max_entries'' of
           Some (VInt n) \<Rightarrow> n
         | Some (VInt64 n) \<Rightarrow> n
         | Some (VFloat r) \<Rightarrow> float_to_int r
         | _ \<Rightarrow> tp_MaxEntries ttl_defaults),
      tp_TrustXFF =
        (case p ''trust_xff'' of Some (VBool v) \<Rightarrow> v | _ \<Rightarrow> tp_TrustXFF ttl_defaults)\<rparr>"

definition ttl_validate :: "(string \<Rightarrow> duration option) \<Rightarrow> feature_snapshot \<Rightarrow> string option" where
  "ttl_validate parse_duration cfg =
     (if \<not> fs_Enabled cfg then None
      else
        (let p = fs_Params cfg;
             bad_ttl = (case p ''default_ttl'' of
                          Some (VString v) \<Rightarrow> v \<noteq> [] \<and> parse_duration v = None | _ \<Rightarrow> False);
             bad_action = (case p ''action'' of
                          Some (VString v) \<Rightarrow> v \<noteq> [] \<and> \<not> block_action_is_valid v | _ \<Rightarrow> False);
             bad_max = (case p ''max_entries'' of
                          Some (VInt n) \<Rightarrow> n < 0 | Some (VInt64 n) \<Rightarrow> n < 0 | Some (VFloat r) \<Rightarrow> r < 0 | _ \<Rightarrow> False)
         in if bad_ttl then Some ''default_ttl''
            else if bad_action then Some ''action''
            else if bad_max then Some ''max_entries''
            else None))"

record 's ttl_feature =
  tf_enabled :: bool
  tf_store :: "'s option"
  tf_globalCfg :: ttl_params
  tf_tenantCfg :: "string \<rightharpoonup> ttl_params"

text \<open>The zero \<^verbatim>\<open>Params\<close> value that a new feature starts with.\<close>

definition ttl_zero_params :: ttl_params where
  "ttl_zero_params =
     \<lparr>tp_DBPath = [], tp_DefaultTTL = 0, tp_Action = [], tp_SaltedHashes = False, tp_SaltFile = [],
      tp_MaxEntries = 0, tp_TrustXFF = False\<rparr>"

definition new_ttl_feature :: "'s ttl_feature" where
  "new_ttl_feature =
     \<lparr>tf_enabled = False, tf_store = None, tf_globalCfg = ttl_zero_params, tf_tenantCfg = Map.empty\<rparr>"

definition ttl_observe ::
  "(string \<Rightarrow> duration option) \<Rightarrow> (string \<Rightarrow> string \<Rightarrow> 's option) \<Rightarrow> feature_snapshot \<Rightarrow> 's ttl_feature \<Rightarrow>
     's ttl_feature \<times> 's option \<times> 's option" where
  "ttl_observe parse_duration openStore snap f =
     (let newCfg = ttl_parse_params parse_duration (fs_Params snap);
          oldPath = tp_DBPath (tf_globalCfg f);
          oldStore = tf_store f;
          f1 = f\<lparr>tf_enabled := fs_Enabled snap, tf_globalCfg := newCfg\<rparr>
      in if \<not> fs_Enabled snap then
           (case oldStore of
              None \<Rightarrow> (f1, None, None)
            | Some s \<Rightarrow> (f1\<lparr>tf_store := None\<rparr>, None, Some s))
         else if oldStore = None \<or> oldPath \<noteq> tp_DBPath newCfg then
           (let saltFile = (if tp_SaltedHashes newCfg then tp_SaltFile newCfg else [])
            in case openStore (tp_DBPath newCfg) saltFile of
                 None \<Rightarrow> (f1, None, None)
               | Some newStore \<Rightarrow> (f1\<lparr>tf_store := Some newStore\<rparr>, Some newStore, oldStore))
         else (f1, None, None))"

definition ttl_register_tenants ::
  "(string \<Rightarrow> duration option) \<Rightarrow> (string \<times> tenant_snapshot) list \<Rightarrow> 's ttl_feature \<Rightarrow> 's ttl_feature" where
  "ttl_register_tenants parse_duration tenants f =
     f\<lparr>tf_tenantCfg := (\<lambda>host.
         case map_of tenants host of
           None \<Rightarrow> None
         | Some t \<Rightarrow>
             (case ts_Features t ttl_FeatureName of
                None \<Rightarrow> None
              | Some snap \<Rightarrow>
                  if fs_Enabled snap then Some (ttl_parse_params parse_duration (fs_Params snap))
                  else None))\<rparr>"

definition ttl_effective_params :: "'s ttl_feature \<Rightarrow> string \<Rightarrow> ttl_params option" where
  "ttl_effective_params f host =
     (case tf_tenantCfg f host of
        Some p \<Rightarrow> Some p
      | None \<Rightarrow> if tf_enabled f then Some (tf_globalCfg f) else None)"

definition ttl_set_store :: "'s option \<Rightarrow> 's ttl_feature \<Rightarrow> 's ttl_feature" where
  "ttl_set_store s f = f\<lparr>tf_store := s\<rparr>"

record ttl_request =
  rq_XFF :: string
  rq_RemoteAddr :: string

definition resolve_client_ip :: "ttl_request \<Rightarrow> bool \<Rightarrow> string" where
  "resolve_client_ip r trustXFF =
     (let remote =
            (if rq_RemoteAddr r = [] then []
             else (case split_host_port (rq_RemoteAddr r) of
                     None \<Rightarrow> trim_space (rq_RemoteAddr r)
                   | Some host \<Rightarrow> host))
      in if trustXFF \<and> rq_XFF r \<noteq> [] then
           (let xff = (case index_byte (rq_XFF r) CHR '','' of
                         Some (Suc i) \<Rightarrow> take (Suc i) (rq_XFF r)
                       | _ \<Rightarrow> rq_XFF r);
                ip = trim_space xff
            in if ip \<noteq> [] then ip else remote)
         else remote)"

datatype ttl_verdict = TtlNext | TtlNotFound | TtlTooMany duration | TtlTimeout duration | TtlDrop

definition ttl_apply_action :: "string \<Rightarrow> duration \<Rightarrow> ttl_verdict" where
  "ttl_apply_action action ttl =
     (if action = BlockActionNotFound then TtlNotFound
      else if action = BlockActionTooMany then TtlTooMany ttl
      else if action = BlockActionTimeout then TtlTimeout ttl
      else TtlDrop)"

text \<open>
  The resolver argument is \<open>None\<close> for a nil resolver, otherwise its answer for this request. \<open>contains\<close> is
  the store's \<^verbatim>\<open>Contains\<close> at the time of the request.
\<close>

definition ttl_middleware ::
  "('s \<Rightarrow> string \<Rightarrow> string \<Rightarrow> bool) \<Rightarrow> 's ttl_feature \<Rightarrow> feature_snapshot option \<Rightarrow>
     tenant_snapshot option \<Rightarrow> ttl_request \<Rightarrow> ttl_verdict" where
  "ttl_middleware contains f resolver tenant r =
     (if \<not> tf_enabled f then TtlNext
      else
        (let host = (case tenant of None \<Rightarrow> [] | Some t \<Rightarrow> ts_Host t) in
         case ttl_effective_params f host of
           None \<Rightarrow> TtlNext
         | Some params \<Rightarrow>
             if (case tenant of
                   Some t \<Rightarrow>
                     (case ts_Features t ttl_FeatureName of
                        Some snap \<Rightarrow> \<not> fs_Enabled snap
                      | None \<Rightarrow> False)
                 | None \<Rightarrow> (case resolver of Some snap \<Rightarrow> \<not> fs_Enabled snap | None \<Rightarrow> False))
             then TtlNext
             else
               (case tf_store f of
                  None \<Rightarrow> TtlNext
                | Some s \<Rightarrow>
                    (let ip = resolve_client_ip r (tp_TrustXFF params) in
                     if ip = [] then TtlNext
                     else if \<not> contains s host ip then TtlNext
                     else ttl_apply_action (tp_Action params) (tp_DefaultTTL params)))))"

subsection \<open>Parameters\<close>

interpretation ttl_contract: feature_contract "ttl_validate parse_duration" for parse_duration
  by unfold_locales (simp add: ttl_validate_def)

lemma ttl_parsed_ttl: "0 < tp_DefaultTTL (ttl_parse_params parse_duration p)"
  by (cases "p ''default_ttl''" rule: option.exhaust; cases "the (p ''default_ttl'')")
    (simp_all add: ttl_parse_params_def ttl_defaults_def second_def split: option.split)

lemma ttl_parsed_action: "block_action_is_valid (tp_Action (ttl_parse_params parse_duration p))"
  by (cases "p ''action''" rule: option.exhaust; cases "the (p ''action'')")
    (simp_all add: ttl_parse_params_def ttl_defaults_def block_action_is_valid_def)

lemma ttl_accepted_max:
  assumes "ttl_validate parse_duration \<lparr>fs_Enabled = True, fs_Params = p, fs_Version = v\<rparr> = None"
  shows "case p ''max_entries'' of
           Some (VInt n) \<Rightarrow> 0 \<le> n | Some (VInt64 n) \<Rightarrow> 0 \<le> n | Some (VFloat r) \<Rightarrow> 0 \<le> r | _ \<Rightarrow> True"
  using assms by (cases "p ''max_entries''" rule: option.exhaust; cases "the (p ''max_entries'')")
    (simp_all add: ttl_validate_def Let_def not_less split: if_split_asm)

lemma float_to_int_nonneg:
  assumes "0 \<le> r" and "r < 2 ^ 63"
  shows "0 \<le> float_to_int r"
proof -
  have "floor r < 2 ^ 63" using assms(2) by (simp add: floor_less_iff)
  then show ?thesis using assms(1) by (simp add: float_to_int_def Let_def max_int64_def min_int64_def)
qed

lemma ttl_parsed_max:
  assumes "case p ''max_entries'' of
             Some (VInt n) \<Rightarrow> 0 \<le> n | Some (VInt64 n) \<Rightarrow> 0 \<le> n | Some (VFloat r) \<Rightarrow> 0 \<le> r | _ \<Rightarrow> True"
    and "\<forall>r. p ''max_entries'' = Some (VFloat r) \<longrightarrow> r < 2 ^ 63"
  shows "0 \<le> tp_MaxEntries (ttl_parse_params parse_duration p)"
  using assms by (cases "p ''max_entries''" rule: option.exhaust; cases "the (p ''max_entries'')")
    (simp_all add: ttl_parse_params_def ttl_defaults_def float_to_int_nonneg)

text \<open>
  Whatever the parameters of a snapshot are, the parsed default TTL is positive and the action is one of the four
  valid ones; and if \<^verbatim>\<open>Validate\<close> accepted the enabled snapshot, the entry cap is not negative, unless it was given as a
  floating-point number beyond the \<^verbatim>\<open>int64\<close> range.
\<close>

theorem ttl_params_sane:
  shows "0 < tp_DefaultTTL (ttl_parse_params parse_duration p)"
    and "block_action_is_valid (tp_Action (ttl_parse_params parse_duration p))"
    and "ttl_validate parse_duration \<lparr>fs_Enabled = True, fs_Params = p, fs_Version = v\<rparr> = None \<Longrightarrow>
      (\<forall>r. p ''max_entries'' = Some (VFloat r) \<longrightarrow> r < 2 ^ 63) \<Longrightarrow>
      0 \<le> tp_MaxEntries (ttl_parse_params parse_duration p)"
  by (rule ttl_parsed_ttl, rule ttl_parsed_action, rule ttl_parsed_max) (rule ttl_accepted_max)

theorem ttl_params_sane_witness:
  "0 \<le> tp_MaxEntries (ttl_parse_params (\<lambda>_. None) [''max_entries'' \<mapsto> VInt 7])"
  by (rule ttl_params_sane(3)[of _ _ 0]) (simp_all add: ttl_validate_def Let_def)

subsection \<open>The store handle\<close>

text \<open>A run of reload notifications, each with the behaviour of \<^verbatim>\<open>openStore\<close> at that moment; the handles opened and closed are logged.\<close>

fun ttl_observe_run ::
  "(string \<Rightarrow> duration option) \<Rightarrow> (feature_snapshot \<times> (string \<Rightarrow> string \<Rightarrow> 's option)) list \<Rightarrow> 's ttl_feature \<Rightarrow>
     's ttl_feature \<times> 's list \<times> 's list" where
  "ttl_observe_run pd [] f = (f, [], [])"
| "ttl_observe_run pd ((snap, openS) # rest) f =
     (case ttl_observe pd openS snap f of
        (f1, opened, gone) \<Rightarrow>
          (case ttl_observe_run pd rest f1 of
             (f2, os, cs) \<Rightarrow> (f2, (case opened of None \<Rightarrow> [] | Some s \<Rightarrow> [s]) @ os,
                                (case gone of None \<Rightarrow> [] | Some s \<Rightarrow> [s]) @ cs)))"

definition handles :: "'s option \<Rightarrow> 's multiset" where
  "handles x = (case x of None \<Rightarrow> {#} | Some s \<Rightarrow> {#s#})"

lemma ttl_observe_handles:
  "ttl_observe pd openS snap f = (f', opened, gone) \<Longrightarrow>
     handles (tf_store f) + handles opened = handles gone + handles (tf_store f')"
  by (auto simp: ttl_observe_def Let_def handles_def split: if_splits option.splits)

lemma ttl_observe_run_handles:
  "ttl_observe_run pd evs f = (f', os, cs) \<Longrightarrow>
     handles (tf_store f) + mset os = mset cs + handles (tf_store f')"
proof (induction pd evs f arbitrary: os cs rule: ttl_observe_run.induct)
  case (2 pd snap openS rest f)
  obtain f1 opened gone where step: "ttl_observe pd openS snap f = (f1, opened, gone)"
    by (cases "ttl_observe pd openS snap f")
  obtain os' cs' where run: "ttl_observe_run pd rest f1 = (f', os', cs')"
    and "os = (case opened of None \<Rightarrow> [] | Some s \<Rightarrow> [s]) @ os'"
    and "cs = (case gone of None \<Rightarrow> [] | Some s \<Rightarrow> [s]) @ cs'"
    using "2.prems" step by (auto split: prod.splits)
  then have "mset os = handles opened + mset os'" "mset cs = handles gone + mset cs'"
    by (simp_all add: handles_def split: option.splits)
  then show ?case
    using "2.IH"[OF step[symmetric] refl run] ttl_observe_handles[OF step]
    by (metis add.assoc add.left_commute)
qed simp

lemma ttl_observe_no_leak_parts:
  assumes "ttl_observe_run parse_duration evs new_ttl_feature = (f, opened, gone)"
  shows "mset opened = mset gone + (case tf_store f of None \<Rightarrow> {#} | Some s \<Rightarrow> {#s#})"
    and "\<not> fs_Enabled snap \<Longrightarrow> tf_store (fst (ttl_observe parse_duration openS snap f)) = None"
  using ttl_observe_run_handles[OF assms]
  by (simp_all add: new_ttl_feature_def handles_def ttl_observe_def Let_def split: option.splits)

text \<open>
  No database handle leaks: over any sequence of reloads of a new feature, with stores that open or fail to
  open at will, the handles opened are exactly those closed plus the one in use; and after a disabling reload none is in use.
\<close>

theorem ttl_observe_no_leak:
  assumes "ttl_observe_run parse_duration evs new_ttl_feature = (f, opened, gone)"
  shows "(mset opened = mset gone + (case tf_store f of None \<Rightarrow> {#} | Some s \<Rightarrow> {#s#}))
    \<and> (\<not> fs_Enabled snap \<longrightarrow> tf_store (fst (ttl_observe parse_duration openS snap f)) = None)"
  using ttl_observe_no_leak_parts[OF assms] by blast

theorem ttl_observe_no_leak_witness:
  "case ttl_observe_run (\<lambda>_. None)
      [(\<lparr>fs_Enabled = True, fs_Params = [''db_path'' \<mapsto> VString ''a''], fs_Version = 1\<rparr>, \<lambda>p _. Some p),
       (\<lparr>fs_Enabled = True, fs_Params = [''db_path'' \<mapsto> VString ''b''], fs_Version = 2\<rparr>, \<lambda>p _. Some p)]
      new_ttl_feature of
     (f, opened, gone) \<Rightarrow>
       mset opened = mset gone + (case tf_store f of None \<Rightarrow> {#} | Some s \<Rightarrow> {#s#})"
  using ttl_observe_no_leak[of "\<lambda>_. None"
      "[(\<lparr>fs_Enabled = True, fs_Params = [''db_path'' \<mapsto> VString ''a''], fs_Version = 1\<rparr>, \<lambda>p _. Some p),
       (\<lparr>fs_Enabled = True, fs_Params = [''db_path'' \<mapsto> VString ''b''], fs_Version = 2\<rparr>, \<lambda>p _. Some p)]"]
  by (auto split: prod.split)

text \<open>
  A failed reopen is never retried: if a reload moves an open store to a new path and opening the new database
  fails, every later reload with the same configuration keeps the old database, even if the new one could now be opened.
\<close>

theorem ttl_failed_reopen_sticks:
  assumes "tf_store f = Some s" and "fs_Enabled snap"
    and "fst (ttl_observe parse_duration (\<lambda>_ _. None) snap f) = f1"
  shows "tf_store ((fst \<circ> ttl_observe parse_duration openStore snap) f1) = Some s"
    and "(fst \<circ> ttl_observe parse_duration openStore snap) f1 = f1"
  using assms by (auto simp: ttl_observe_def Let_def split: if_splits)

theorem ttl_failed_reopen_sticks_witness:
  "tf_store ((fst \<circ> ttl_observe (\<lambda>_. None) (\<lambda>p _. Some p)
       \<lparr>fs_Enabled = True, fs_Params = [''db_path'' \<mapsto> VString ''new''], fs_Version = 2\<rparr>)
     (fst (ttl_observe (\<lambda>_. None) (\<lambda>_ _. None)
       \<lparr>fs_Enabled = True, fs_Params = [''db_path'' \<mapsto> VString ''new''], fs_Version = 2\<rparr>
       \<lparr>tf_enabled = True, tf_store = Some ''old'', tf_globalCfg = ttl_defaults, tf_tenantCfg = Map.empty\<rparr>)))
   = Some ''old''"
  by (rule ttl_failed_reopen_sticks(1)[OF _ _ refl]) simp_all

subsection \<open>Requests\<close>

text \<open>
  With the feature disabled in the globals, a tenant's override that enables it has no effect: after the
  disabling notification and the registration of tenants, every request of such a tenant is passed
  on, although the resolver reports the feature as enabled for it.
\<close>

theorem ttl_tenant_cannot_enable:
  assumes "\<not> fs_Enabled snap" and "ts_Features t ttl_FeatureName = Some override" and "fs_Enabled override"
    and "f' = ttl_register_tenants parse_duration tenants (fst (ttl_observe parse_duration openStore snap f))"
  shows "ttl_middleware contains f' resolver (Some t) r = TtlNext"
    and "fs_Enabled (resolve reg (Some t) ttl_FeatureName)"
  using assms by (auto simp: ttl_middleware_def ttl_register_tenants_def ttl_observe_def Let_def resolve_def
      split: option.splits)

theorem ttl_tenant_cannot_enable_witness:
  "ttl_middleware (\<lambda>_ _ _. True)
     (ttl_register_tenants (\<lambda>_. None)
        [(''h'', \<lparr>ts_Host = ''h'', ts_Enabled = True, ts_Features = [ttl_FeatureName \<mapsto> zero_snapshot\<lparr>fs_Enabled := True\<rparr>]\<rparr>)]
        (fst (ttl_observe (\<lambda>_. None) (\<lambda>_ _. Some ()) zero_snapshot new_ttl_feature))) None
     (Some \<lparr>ts_Host = ''h'', ts_Enabled = True, ts_Features = [ttl_FeatureName \<mapsto> zero_snapshot\<lparr>fs_Enabled := True\<rparr>]\<rparr>)
     \<lparr>rq_XFF = [], rq_RemoteAddr = ''1.2.3.4:5''\<rparr> = TtlNext"
  by (rule ttl_tenant_cannot_enable(1)[OF _ _ _ refl,
      where snap = zero_snapshot and override = "zero_snapshot\<lparr>fs_Enabled := True\<rparr>"])
     (simp_all add: zero_snapshot_def)

lemma ttl_middleware_active:
  assumes "tf_enabled f" and "tf_store f = Some b"
    and "\<forall>snap. ts_Features t ttl_FeatureName = Some snap \<longrightarrow> fs_Enabled snap"
    and "ttl_effective_params f (ts_Host t) = Some params"
    and "resolve_client_ip r (tp_TrustXFF params) = ip" and "ip \<noteq> []"
  shows "ttl_middleware contains f resolver (Some t) r =
    (if contains b (ts_Host t) ip then ttl_apply_action (tp_Action params) (tp_DefaultTTL params) else TtlNext)"
  using assms by (auto simp: ttl_middleware_def Let_def split: option.splits)

lemma ttl_effective_params_enabled: "tf_enabled f \<Longrightarrow> \<exists>params. ttl_effective_params f host = Some params"
  by (simp add: ttl_effective_params_def split: option.splits)

lemma ttl_block_end_to_end_parts:
  assumes "bolt_laws B" and "lru_sorts srt"
    and "ttl_add B sha256 srt salt b (ts_Host t) ip ttl reason mx now = Inr b'"
    and "mx \<le> 0 \<or> int (length (tenant_rows B b (ts_Host t))) < mx"
    and "tf_enabled f" and "tf_store f = Some b'"
    and "\<forall>snap. ts_Features t ttl_FeatureName = Some snap \<longrightarrow> fs_Enabled snap"
    and "ttl_effective_params f (ts_Host t) = Some params"
  shows "resolve_client_ip r (tp_TrustXFF params) = ip \<Longrightarrow>
      ttl_middleware (\<lambda>s h i. ttl_contains B sha256 salt s h i u) f resolver (Some t) r =
        (if u < now + ttl then ttl_apply_action (tp_Action params) (tp_DefaultTTL params) else TtlNext)"
    and "ttl_key_for sha256 salt (ts_Host t) (resolve_client_ip r (tp_TrustXFF params))
        \<noteq> ttl_key_for sha256 salt (ts_Host t) ip \<Longrightarrow>
      ttl_middleware (\<lambda>s h i. ttl_contains B sha256 salt s h i u) f resolver (Some t) r =
        ttl_middleware (\<lambda>s h i. ttl_contains B sha256 salt s h i u) (f\<lparr>tf_store := Some b\<rparr>) resolver (Some t) r"
proof -
  from ttl_add_rows[OF assms(1-4)] obtain e where
    e: "te_BlockedUntil e = now + ttl" "ts_Host t \<noteq> []" "ip \<noteq> []"
      "map_of (bk_rows B b') = (map_of (bk_rows B b))(ttl_key_for sha256 salt (ts_Host t) ip \<mapsto> Row e)" .
  show "ttl_middleware (\<lambda>s h i. ttl_contains B sha256 salt s h i u) f resolver (Some t) r =
        (if u < now + ttl then ttl_apply_action (tp_Action params) (tp_DefaultTTL params) else TtlNext)"
    if "resolve_client_ip r (tp_TrustXFF params) = ip"
    using ttl_middleware_active[OF assms(5-8) that e(3)] e
    by (simp add: ttl_contains_rows[OF assms(1)])
  let ?ip = "resolve_client_ip r (tp_TrustXFF params)"
  assume other: "ttl_key_for sha256 salt (ts_Host t) ?ip \<noteq> ttl_key_for sha256 salt (ts_Host t) ip"
  have eff: "ttl_effective_params (f\<lparr>tf_store := Some b\<rparr>) (ts_Host t) = Some params"
    using assms(8) by (simp add: ttl_effective_params_def split: option.splits if_splits)
  show "ttl_middleware (\<lambda>s h i. ttl_contains B sha256 salt s h i u) f resolver (Some t) r =
        ttl_middleware (\<lambda>s h i. ttl_contains B sha256 salt s h i u) (f\<lparr>tf_store := Some b\<rparr>) resolver (Some t) r"
  proof (cases "?ip = []")
    case True
    then show ?thesis using assms(5-8) eff by (simp add: ttl_middleware_def Let_def split: option.splits)
  next
    case False
    then show ?thesis
      using ttl_middleware_active[OF assms(5-8) refl] ttl_middleware_active[OF _ _ assms(7) eff refl, of b]
        assms(5) e(4) other
      by (simp add: ttl_contains_rows[OF assms(1)])
  qed
qed

text \<open>
  End to end: with the feature enabled and not switched off for the tenant, once an address has been added for the
  tenant's host (with room under the cap), requests that resolve to that address get the
  configured action up to the end of the block and pass afterwards, and requests from every other address
  fare as before the \<^verbatim>\<open>Add\<close>.
\<close>

theorem ttl_block_end_to_end:
  assumes "bolt_laws B" and "lru_sorts srt"
    and "ttl_add B sha256 srt salt b (ts_Host t) ip ttl reason mx now = Inr b'"
    and "mx \<le> 0 \<or> int (length (tenant_rows B b (ts_Host t))) < mx"
    and "tf_enabled f" and "tf_store f = Some b'"
    and "\<forall>snap. ts_Features t ttl_FeatureName = Some snap \<longrightarrow> fs_Enabled snap"
    and "ttl_effective_params f (ts_Host t) = Some params"
  shows "(resolve_client_ip r (tp_TrustXFF params) = ip \<longrightarrow>
      ttl_middleware (\<lambda>s h i. ttl_contains B sha256 salt s h i u) f resolver (Some t) r =
        (if u < now + ttl then ttl_apply_action (tp_Action params) (tp_DefaultTTL params) else TtlNext))
    \<and> (ttl_key_for sha256 salt (ts_Host t) (resolve_client_ip r (tp_TrustXFF params))
        \<noteq> ttl_key_for sha256 salt (ts_Host t) ip \<longrightarrow>
      ttl_middleware (\<lambda>s h i. ttl_contains B sha256 salt s h i u) f resolver (Some t) r =
        ttl_middleware (\<lambda>s h i. ttl_contains B sha256 salt s h i u) (f\<lparr>tf_store := Some b\<rparr>) resolver (Some t) r)"
  using ttl_block_end_to_end_parts[OF assms] by blast

theorem ttl_block_end_to_end_witness:
  "\<exists>b'. ttl_add log_bolt id (sort_key snd) [] [] ''h'' ''1.2.3.4'' 50 [] 2 100 = Inr b'
     \<and> ttl_middleware (\<lambda>s h i. ttl_contains log_bolt id [] s h i 149)
         \<lparr>tf_enabled = True, tf_store = Some b', tf_globalCfg = ttl_defaults\<lparr>tp_Action := BlockActionNotFound\<rparr>, tf_tenantCfg = Map.empty\<rparr>
         None (Some \<lparr>ts_Host = ''h'', ts_Enabled = True, ts_Features = Map.empty\<rparr>)
         \<lparr>rq_XFF = [], rq_RemoteAddr = ''1.2.3.4:5''\<rparr> = TtlNotFound"
proof -
  let ?t = "\<lparr>ts_Host = ''h'', ts_Enabled = True, ts_Features = Map.empty\<rparr>"
  let ?params = "ttl_defaults\<lparr>tp_Action := BlockActionNotFound\<rparr>"
  obtain b' where b': "ttl_add log_bolt id (sort_key snd) [] [] (ts_Host ?t) ''1.2.3.4'' 50 [] 2 100 = Inr b'"
    by (simp add: ttl_add_def json_time_ok_def second_def log_bolt_def trim_tenant_lru_def tenant_rows_def
        cursor_prefix_def log_row_def log_lookup_def List.map_filter_simps has_prefix_def ttl_key_for_def
        saltLen_def decode_row_def Let_def)
  have room: "(2::int) \<le> 0 \<or> int (length (tenant_rows log_bolt [] (ts_Host ?t))) < 2"
    by (simp add: tenant_rows_def cursor_prefix_def log_bolt_def List.map_filter_simps)
  have ip: "resolve_client_ip \<lparr>rq_XFF = [], rq_RemoteAddr = ''1.2.3.4:5''\<rparr> (tp_TrustXFF ?params) = ''1.2.3.4''"
    by (simp add: resolve_client_ip_def ttl_defaults_def split_host_port_def)
  have "ttl_middleware (\<lambda>s h i. ttl_contains log_bolt id [] s h i 149)
         \<lparr>tf_enabled = True, tf_store = Some b', tf_globalCfg = ?params, tf_tenantCfg = Map.empty\<rparr>
         None (Some ?t) \<lparr>rq_XFF = [], rq_RemoteAddr = ''1.2.3.4:5''\<rparr> = TtlNotFound"
    by (subst ttl_block_end_to_end[OF log_bolt_laws lru_sorts_sort_key b' room, where params = ?params, THEN conjunct1, rule_format])
       (use ip in \<open>simp_all add: ttl_effective_params_def ttl_apply_action_def\<close>)
  then show ?thesis using b' by auto
qed

end
