(* ===== verification/Float64.thy ===== *)
theory Float64
  imports Complex_Main Prelude
begin

text \<open>
  IEEE binary64 arithmetic on finite values, for the load scores. A finite \<^verbatim>\<open>float64\<close> is the rational number it
  denotes; \<open>fl\<close> rounds a rational to the nearest representable one, ties to even, with 53 bits of
  precision and the least exponent of the subnormal numbers. An operation of the source is
  the exact operation followed by \<open>fl\<close>. Overflow to infinity is not represented: the
  operands of the sources are bounded far below it, which \<open>fl_abs_bound\<close> is used to show.
\<close>

fun bit_length :: "nat \<Rightarrow> nat" where
  "bit_length n = (if n = 0 then 0 else Suc (bit_length (n div 2)))"

declare bit_length.simps [simp del]

definition ilog2 :: "rat \<Rightarrow> int" where
  "ilog2 x =
     (let (p, q) = quotient_of x;
          k = int (bit_length (nat p)) - int (bit_length (nat q))
      in if 2 powi k \<le> x then k else k - 1)"

definition round_half_even :: "rat \<Rightarrow> int" where
  "round_half_even y =
     (let n = floor y; d = y - of_int n
      in if d < 1 / 2 then n else if 1 / 2 < d then n + 1 else if even n then n else n + 1)"

definition fl :: "rat \<Rightarrow> rat" where
  "fl x =
     (if x = 0 then 0
      else (let e = max (ilog2 \<bar>x\<bar> - 52) (- 1074)
            in of_int (round_half_even (x / 2 powi e)) * 2 powi e))"

definition max_float64 :: rat where
  "max_float64 = (2 - 1 / 2 ^ 52) * 2 ^ 1023"

lemma bit_length_upper: "n < 2 ^ bit_length n"
proof (induction n rule: bit_length.induct)
  case (1 n)
  show ?case
  proof (cases "n = 0")
    case False
    then have "bit_length n = Suc (bit_length (n div 2))" by (subst bit_length.simps) simp
    then show ?thesis using 1[OF False] by simp
  qed simp
qed

lemma bit_length_lower: "0 < n \<Longrightarrow> 2 ^ bit_length n \<le> 2 * n"
proof (induction n rule: bit_length.induct)
  case (1 n)
  then have len: "bit_length n = Suc (bit_length (n div 2))" by (subst bit_length.simps) simp
  show ?case
  proof (cases "n div 2 = 0")
    case True
    then have "bit_length (n div 2) = 0" by (subst bit_length.simps) simp
    then show ?thesis using len 1 by simp
  next
    case False
    then have "2 ^ bit_length (n div 2) \<le> 2 * (n div 2)" using 1 by simp
    then show ?thesis using len by simp
  qed
qed

lemma ilog2_lower:
  assumes "0 < x"
  shows "2 powi (ilog2 x) \<le> x"
proof -
  obtain p q where pq: "quotient_of x = (p, q)" by (cases "quotient_of x")
  have x: "x = of_int p / of_int q" and q: "0 < q" using quotient_of_div[OF pq] quotient_of_denom_pos[OF pq] by auto
  with assms have p: "0 < p" by (simp add: zero_less_divide_iff)
  let ?bp = "bit_length (nat p)" and ?bq = "bit_length (nat q)"
  have "(2 :: rat) ^ ?bp \<le> 2 * of_int p"
  proof -
    have "rat_of_nat (2 ^ ?bp) \<le> rat_of_nat (2 * nat p)"
      using bit_length_lower[of "nat p"] p by (simp only: of_nat_le_iff zero_less_nat_eq)
    then show ?thesis using p by simp
  qed
  moreover have "of_int q \<le> (2 :: rat) ^ ?bq"
  proof -
    have "rat_of_nat (nat q) \<le> rat_of_nat (2 ^ ?bq)"
      using bit_length_upper[of "nat q"] by (simp only: of_nat_le_iff less_imp_le)
    then show ?thesis using q by simp
  qed
  ultimately have "(2 :: rat) ^ ?bp * of_int q \<le> (2 * of_int p) * 2 ^ ?bq"
    using p q by (intro mult_mono) auto
  then have "(2 :: rat) ^ ?bp / 2 ^ ?bq / 2 \<le> x"
    using q by (simp add: x field_simps)
  moreover have "(2 :: rat) powi (int ?bp - int ?bq - 1) = 2 ^ ?bp / 2 ^ ?bq / 2"
    by (simp add: power_int_diff)
  ultimately show ?thesis by (simp add: ilog2_def pq Let_def)
qed

lemma round_half_even_bound: "\<bar>of_int (round_half_even y) - y\<bar> \<le> 1 / 2"
proof -
  have "of_int (floor y) \<le> y" "y < of_int (floor y) + 1" using floor_correct[of y] by auto
  then show ?thesis unfolding round_half_even_def Let_def by (auto simp: abs_le_iff)
qed

lemma fl_error: "\<bar>fl x - x\<bar> \<le> max \<bar>x\<bar> 1 / 2"
proof (cases "x = 0")
  case False
  define e where "e = max (ilog2 \<bar>x\<bar> - 52) (- 1074)"
  have pos: "0 < (2 :: rat) powi e" by simp
  have "(2 :: rat) powi e \<le> max \<bar>x\<bar> 1"
  proof (cases "ilog2 \<bar>x\<bar> - 52 \<le> - 1074")
    case True
    then have "(2 :: rat) powi e \<le> 2 powi 0" unfolding e_def by (intro power_int_increasing) auto
    then show ?thesis by simp
  next
    case no: False
    then have "(2 :: rat) powi e \<le> 2 powi (ilog2 \<bar>x\<bar>)" unfolding e_def by (intro power_int_increasing) auto
    also have "\<dots> \<le> \<bar>x\<bar>" using ilog2_lower[of "\<bar>x\<bar>"] False by simp
    finally show ?thesis by simp
  qed
  moreover have "\<bar>of_int (round_half_even (x / 2 powi e)) - x / 2 powi e\<bar> * 2 powi e \<le> 1 / 2 * 2 powi e"
    by (intro mult_right_mono round_half_even_bound) simp
  then have "\<bar>(of_int (round_half_even (x / 2 powi e)) - x / 2 powi e) * 2 powi e\<bar> \<le> 2 powi e / 2"
    using pos by (simp add: abs_mult)
  then have "\<bar>fl x - x\<bar> \<le> 2 powi e / 2"
    using False pos by (simp add: fl_def e_def[symmetric] left_diff_distrib)
  ultimately show ?thesis by linarith
qed (simp add: fl_def)

lemma fl_0 [simp]: "fl 0 = 0"
  by (simp add: fl_def)

lemma fl_abs_bound: "\<bar>fl x\<bar> \<le> 2 * \<bar>x\<bar> + 1"
  using fl_error[of x] by linarith

lemma fl_lower: "1 \<le> x \<Longrightarrow> x / 2 \<le> fl x"
  using fl_error[of x] by linarith

lemma fl_add_bound:
  assumes "\<bar>x\<bar> \<le> a" and "\<bar>y\<bar> \<le> b"
  shows "\<bar>fl (x + y)\<bar> \<le> 2 * (a + b) + 1"
proof -
  have "f \<le> 2 * s + 1 \<Longrightarrow> s \<le> p + q \<Longrightarrow> p \<le> a \<Longrightarrow> q \<le> b \<Longrightarrow> f \<le> 2 * (a + b) + 1" for f s p q :: rat
    by simp
  from this[OF fl_abs_bound[of "x + y"] abs_triangle_ineq assms] show ?thesis .
qed

text \<open>A sharper error bound, and exactness on integers below \<open>2 ^ 53\<close>.\<close>

lemma powi_max: "(2 :: rat) powi (max i j) \<le> 2 powi i + 2 powi j"
  by (cases "i \<le> j") (simp_all add: max_def)

lemma fl_close: "\<bar>fl x - x\<bar> \<le> \<bar>x\<bar> / 2 ^ 53 + 1 / 2 ^ 1075"
proof (cases "x = 0")
  case False
  define e where "e = max (ilog2 \<bar>x\<bar> - 52) (- 1074)"
  have pos: "0 < (2 :: rat) powi e" by simp
  have "(2 :: rat) powi (ilog2 \<bar>x\<bar> - 52) = 2 powi (ilog2 \<bar>x\<bar>) / 2 ^ 52"
    using power_int_diff[of "2 :: rat" "ilog2 \<bar>x\<bar>" 52] by (simp only: power_int_numeral) simp
  also have "\<dots> \<le> \<bar>x\<bar> / 2 ^ 52" using ilog2_lower[of "\<bar>x\<bar>"] False by (intro divide_right_mono) auto
  finally have "(2 :: rat) powi (ilog2 \<bar>x\<bar> - 52) \<le> \<bar>x\<bar> / 2 ^ 52" .
  moreover have "(2 :: rat) powi (- 1074) = 1 / 2 ^ 1074" 
    by (simp only: power_int_minus power_int_numeral inverse_eq_divide)
  moreover have "0 \<le> \<bar>x\<bar> / 2 ^ 52" "0 \<le> (1 :: rat) / 2 ^ 1074" by simp_all
  ultimately have e: "(2 :: rat) powi e \<le> \<bar>x\<bar> / 2 ^ 52 + 1 / 2 ^ 1074"
    using powi_max[of "ilog2 \<bar>x\<bar> - 52" "- 1074"] unfolding e_def by linarith
  have "\<bar>of_int (round_half_even (x / 2 powi e)) - x / 2 powi e\<bar> * 2 powi e \<le> 1 / 2 * 2 powi e"
    by (intro mult_right_mono round_half_even_bound) simp
  then have "\<bar>(of_int (round_half_even (x / 2 powi e)) - x / 2 powi e) * 2 powi e\<bar> \<le> 2 powi e / 2"
    using pos by (simp add: abs_mult)
  then have "\<bar>fl x - x\<bar> \<le> 2 powi e / 2"
    using False pos by (simp add: fl_def e_def[symmetric] left_diff_distrib)
  also have "\<dots> \<le> (\<bar>x\<bar> / 2 ^ 52 + 1 / 2 ^ 1074) / 2" using e by simp
  also have "\<dots> = \<bar>x\<bar> / 2 ^ 53 + 1 / 2 ^ 1075"
  proof -
    have "(2 :: rat) ^ 53 = 2 * 2 ^ 52" "(2 :: rat) ^ 1075 = 2 * 2 ^ 1074" using power_Suc[of "2 :: rat" 52] power_Suc[of "2 :: rat" 1074] by simp_all
    then show ?thesis by (simp only: add_divide_distrib divide_divide_eq_left mult.commute)
  qed
  finally show ?thesis .
qed simp

lemma round_half_even_int [simp]: "round_half_even (of_int n) = n"
  by (simp add: round_half_even_def)

lemma fl_of_int:
  assumes "\<bar>n\<bar> < 2 ^ 53"
  shows "fl (of_int n) = of_int n"
proof (cases "n = 0")
  case False
  define e where "e = max (ilog2 \<bar>of_int n\<bar> - 52) (- 1074)"
  have "(2 :: rat) powi ilog2 \<bar>of_int n\<bar> \<le> \<bar>of_int n\<bar>" using ilog2_lower[of "\<bar>of_int n\<bar>"] False by simp
  also have "\<dots> < 2 ^ 53"
  proof -
    have "rat_of_int \<bar>n\<bar> < rat_of_int (2 ^ 53)" using assms by (simp only: of_int_less_iff)
    then show ?thesis by simp
  qed
  finally have lt: "(2 :: rat) powi ilog2 \<bar>of_int n\<bar> < 2 powi 53" by (simp only: power_int_numeral)
  have "ilog2 \<bar>of_int n\<bar> < 53"
  proof (rule ccontr)
    assume "\<not> ?thesis"
    then have "(2 :: rat) powi 53 \<le> 2 powi ilog2 \<bar>of_int n\<bar>" by (intro power_int_increasing) auto
    with lt show False by linarith
  qed
  then have e: "e \<le> 0" by (simp add: e_def)
  then obtain k where k: "e = - int k" by (metis nonpos_int_cases)
  then have p: "(2 :: rat) powi e = inverse (2 ^ k)" by (simp add: power_int_minus)
  have "rat_of_int n / 2 powi e = of_int (n * 2 ^ k)" by (simp add: p divide_inverse)
  then have "rat_of_int (round_half_even (of_int n / 2 powi e)) * 2 powi e = of_int (n * 2 ^ k) * inverse (2 ^ k)"
    by (simp only: round_half_even_int p)
  also have "\<dots> = of_int n" by simp
  finally show ?thesis using False by (simp add: fl_def e_def[symmetric] Let_def)
qed simp

text \<open>Comparing a quotient of counts with one half is exact.\<close>

lemma fl_half_exact:
  assumes "0 \<le> b" and "b \<le> t" and "0 < t" and "t \<le> 2 ^ 50"
  shows "1 / 2 \<le> fl (fl (of_int b) / fl (of_int t)) \<longleftrightarrow> t \<le> 2 * b"
proof -
  define x :: rat where "x = of_int b / of_int t"
  have "fl (of_int b) = of_int b" "fl (of_int t) = of_int t" using assms by (intro fl_of_int; simp)+
  then have fx: "fl (fl (of_int b) / fl (of_int t)) = fl x" by (simp add: x_def)
  have x: "0 \<le> x" "x \<le> 1" using assms by (simp_all add: x_def divide_le_eq_1)
  define d :: rat where "d = 1 / (2 * of_int t)"
  have "rat_of_int t \<le> rat_of_int (2 ^ 50)" using assms(4) by (simp only: of_int_le_iff)
  then have "(1 :: rat) / (2 * 2 ^ 50) \<le> d" unfolding d_def using assms(3) by (intro divide_left_mono) auto
  then have d: "1 / 2 ^ 53 + 1 / 2 ^ 1075 < d" by (rule less_le_trans[rotated]) (simp add: field_simps)
  have "x / 2 ^ 53 \<le> 1 / 2 ^ 53" using x by (intro divide_right_mono) auto
  then have close: "\<bar>fl x - x\<bar> < d" using fl_close[of x] x d by simp
  have t: "(0 :: rat) < of_int t" using assms(3) by simp
  have x2: "x = (2 * of_int b) / (2 * of_int t)" by (simp add: x_def)
  have half: "1 / 2 + d = (of_int t + 1) / (2 * of_int t)" "1 / 2 - d = (of_int t - 1) / (2 * of_int t)"
    using t by (simp_all add: d_def field_simps)
  consider "2 * b = t" | "t + 1 \<le> 2 * b" | "2 * b + 1 \<le> t" by linarith
  then show ?thesis
  proof cases
    case 1
    then have "rat_of_int t = 2 * of_int b" by (metis of_int_mult of_int_numeral)
    then have "x = 1 / 2" using t by (simp add: x_def)
    moreover have "fl (1 / 2) = 1 / 2" by code_simp
    ultimately have "fl x = 1 / 2" by (simp only:)
    then show ?thesis using 1 fx by simp
  next
    case 2
    then have "rat_of_int (t + 1) \<le> rat_of_int (2 * b)" by (simp only: of_int_le_iff)
    then have "1 / 2 + d \<le> x" unfolding half x2 using t by (intro divide_right_mono) auto
    then show ?thesis using close 2 fx by (auto simp: abs_less_iff)
  next
    case 3
    then have "rat_of_int (2 * b + 1) \<le> rat_of_int t" by (simp only: of_int_le_iff)
    then have "x \<le> 1 / 2 - d" unfolding half x2 using t by (intro divide_right_mono) auto
    then show ?thesis using close 3 fx by (auto simp: abs_less_iff)
  qed
qed

end
