(* ===== verification/Ratelimit.thy ===== *)
theory Ratelimit
  imports Registry Float64
begin

text \<open>
  The \<^verbatim>\<open>rate_limit\<close> feature, \<^verbatim>\<open>internal/feature/ratelimit/ratelimit.go\<close>. The token bucket of
  \<^verbatim>\<open>golang.org/x/time/rate\<close> is not part of the sources: it is the parameter \<open>limiter_lib\<close>, a
  constructor and \<^verbatim>\<open>Allow\<close>, which returns its answer and the limiter's next state. The
  limiters of a cache are held by value, since each \<^verbatim>\<open>visitor\<close> owns its limiter;
  connection trackers, which requests keep pointers to while the sweeper removes them from
  the map, live in a heap, and so do the tenant states, which a reload replaces under running
  requests. Every \<^verbatim>\<open>time.Now()\<close> of a request is a reading of the argument \<open>clk\<close>. A request is
  entered (\<open>rl_serve_enter\<close>) and, once the next handler or the answer to a rejected request, which may wait, has returned, left
  (\<open>rl_serve_exit\<close>); both run without interruption here. Theory \<open>Conncap\<close> has the connection cap under
  every interleaving of the individual atomic accesses. The parameter values are finite numbers.
\<close>

subsection \<open>Parameters\<close>

definition rl_FeatureName :: string where "rl_FeatureName = ''rate_limit''"

definition defaultPerIPRPS :: rat where "defaultPerIPRPS = 10"
definition defaultPerIPBurst :: int where "defaultPerIPBurst = 20"
definition defaultPerIPConns :: int where "defaultPerIPConns = 50"
definition defaultAPIRPS :: rat where "defaultAPIRPS = 5"
definition defaultAPIBurst :: int where "defaultAPIBurst = 10"
definition defaultGlobalRPS :: rat where "defaultGlobalRPS = 1000"
definition defaultCleanupSeconds :: int where "defaultCleanupSeconds = 300"
definition defaultIdleTTLSeconds :: int where "defaultIdleTTLSeconds = 600"
definition defaultTimeoutSeconds :: int where "defaultTimeoutSeconds = 30"
definition defaultAPIPathPrefix :: string where "defaultAPIPathPrefix = ''/api/''"

lemmas rl_default_defs = defaultPerIPRPS_def defaultPerIPBurst_def defaultPerIPConns_def defaultAPIRPS_def
  defaultAPIBurst_def defaultGlobalRPS_def defaultCleanupSeconds_def defaultIdleTTLSeconds_def
  defaultTimeoutSeconds_def defaultAPIPathPrefix_def

definition ActionTooMany :: string where "ActionTooMany = ''429''"
definition ActionDrop :: string where "ActionDrop = ''drop''"
definition ActionTimeout :: string where "ActionTimeout = ''timeout''"

definition action_normalized :: "string \<Rightarrow> string" where
  "action_normalized a =
     (if a = ActionTooMany \<or> a = ActionDrop \<or> a = ActionTimeout then a else ActionTooMany)"

record rl_params =
  rp_PerIPRPS :: rat
  rp_PerIPBurst :: int
  rp_PerIPConns :: int
  rp_APIRPS :: rat
  rp_APIBurst :: int
  rp_APIPathPrefixes :: "string list"
  rp_GlobalRPS :: rat
  rp_CleanupInterval :: duration
  rp_IdleTTL :: duration
  rp_TrustXFF :: bool
  rp_ActionOnExceed :: string
  rp_TimeoutOnExceed :: duration

definition rl_default_params :: rl_params where
  "rl_default_params =
     \<lparr>rp_PerIPRPS = defaultPerIPRPS, rp_PerIPBurst = defaultPerIPBurst,
      rp_PerIPConns = defaultPerIPConns, rp_APIRPS = defaultAPIRPS, rp_APIBurst = defaultAPIBurst,
      rp_APIPathPrefixes = [defaultAPIPathPrefix], rp_GlobalRPS = defaultGlobalRPS,
      rp_CleanupInterval = defaultCleanupSeconds * second, rp_IdleTTL = defaultIdleTTLSeconds * second,
      rp_TrustXFF = False, rp_ActionOnExceed = ActionTooMany,
      rp_TimeoutOnExceed = defaultTimeoutSeconds * second\<rparr>"

text \<open>A missing key reads as a nil interface, here \<open>None\<close>.\<close>

fun as_float :: "any_val option \<Rightarrow> rat option" where
  "as_float (Some (VFloat x)) = Some x"
| "as_float (Some (VFloat32 x)) = Some x"
| "as_float (Some (VInt x)) = Some (fl (of_int x))"
| "as_float (Some (VInt64 x)) = Some (fl (of_int x))"
| "as_float (Some (VInt32 x)) = Some (fl (of_int x))"
| "as_float (Some (VUint w)) = Some (fl (of_int (uint w)))"
| "as_float (Some (VUint64 w)) = Some (fl (of_int (uint w)))"
| "as_float _ = None"

fun as_int :: "any_val option \<Rightarrow> int option" where
  "as_int (Some (VInt x)) = Some x"
| "as_int (Some (VInt64 x)) = Some x"
| "as_int (Some (VInt32 x)) = Some x"
| "as_int (Some (VUint w)) = Some (sint w)"
| "as_int (Some (VUint64 w)) = Some (sint w)"
| "as_int (Some (VFloat x)) = Some (float_to_int x)"
| "as_int (Some (VFloat32 x)) = Some (float_to_int x)"
| "as_int _ = None"

fun as_bool :: "any_val option \<Rightarrow> bool option" where
  "as_bool (Some (VBool b)) = Some b"
| "as_bool _ = None"

fun any_string :: "any_val \<Rightarrow> string option" where
  "any_string (VString s) = Some s"
| "any_string _ = None"

fun as_string_slice :: "any_val option \<Rightarrow> string list option" where
  "as_string_slice (Some (VStrings s)) = Some s"
| "as_string_slice (Some (VList s)) = Some (List.map_filter any_string s)"
| "as_string_slice _ = None"

definition or_default :: "'a option \<Rightarrow> 'a \<Rightarrow> 'a" where
  "or_default x d = (case x of None \<Rightarrow> d | Some v \<Rightarrow> v)"

text \<open>The durations given as a number of seconds: \<^verbatim>\<open>time.Duration(v) * time.Second\<close> wraps.\<close>

definition seconds_param :: "any_val option \<Rightarrow> duration option" where
  "seconds_param x =
     (case as_int x of None \<Rightarrow> None | Some v \<Rightarrow> if v > 0 then Some (wrap64 (v * second)) else None)"

definition rl_parse_params :: "(string \<rightharpoonup> any_val) \<Rightarrow> rl_params" where
  "rl_parse_params p =
     (let d = rl_default_params;
          cleanup = seconds_param (p ''cleanup_interval_seconds'');
          idle = (case cleanup of None \<Rightarrow> rp_IdleTTL d | Some iv \<Rightarrow> wrap64 (2 * iv))
      in \<lparr>rp_PerIPRPS = or_default (as_float (p ''per_ip_rps'')) (rp_PerIPRPS d),
          rp_PerIPBurst = or_default (as_int (p ''per_ip_burst'')) (rp_PerIPBurst d),
          rp_PerIPConns = or_default (as_int (p ''per_ip_conns'')) (rp_PerIPConns d),
          rp_APIRPS = or_default (as_float (p ''api_rps'')) (rp_APIRPS d),
          rp_APIBurst = or_default (as_int (p ''api_burst'')) (rp_APIBurst d),
          rp_APIPathPrefixes = or_default (as_string_slice (p ''api_path_prefixes'')) (rp_APIPathPrefixes d),
          rp_GlobalRPS = or_default (as_float (p ''global_rps'')) (rp_GlobalRPS d),
          rp_CleanupInterval = or_default cleanup (rp_CleanupInterval d),
          rp_IdleTTL = or_default (seconds_param (p ''idle_ttl_seconds'')) idle,
          rp_TrustXFF = or_default (as_bool (p ''trust_xff'')) (rp_TrustXFF d),
          rp_ActionOnExceed =
            (case p ''action_on_exceed'' of
               Some (VString v) \<Rightarrow> action_normalized v
             | _ \<Rightarrow> rp_ActionOnExceed d),
          rp_TimeoutOnExceed =
            or_default (seconds_param (p ''timeout_on_exceed_seconds'')) (rp_TimeoutOnExceed d)\<rparr>)"

definition neg_float :: "any_val option \<Rightarrow> bool" where
  "neg_float x = (case as_float x of None \<Rightarrow> False | Some v \<Rightarrow> v < 0)"

definition neg_int :: "any_val option \<Rightarrow> bool" where
  "neg_int x = (case as_int x of None \<Rightarrow> False | Some v \<Rightarrow> v < 0)"

definition rl_validate :: "feature_snapshot \<Rightarrow> string option" where
  "rl_validate cfg =
     (let p = fs_Params cfg in
      if neg_float (p ''per_ip_rps'') then Some ''per_ip_rps must be >= 0''
      else if neg_int (p ''per_ip_burst'') then Some ''per_ip_burst must be >= 0''
      else if neg_int (p ''per_ip_conns'') then Some ''per_ip_conns must be >= 0''
      else if neg_float (p ''api_rps'') then Some ''api_rps must be >= 0''
      else if neg_int (p ''api_burst'') then Some ''api_burst must be >= 0''
      else if neg_float (p ''global_rps'') then Some ''global_rps must be >= 0''
      else if neg_int (p ''cleanup_interval_seconds'') then Some ''cleanup_interval_seconds must be >= 0''
      else
        (case p ''action_on_exceed'' of
           Some (VString v) \<Rightarrow>
             if v \<noteq> [] \<and> v \<noteq> ActionTooMany \<and> v \<noteq> ActionDrop \<and> v \<noteq> ActionTimeout
             then Some ''action_on_exceed must be one of \"429\", \"drop\", \"timeout\"''
             else None
         | _ \<Rightarrow> None))"

subsection \<open>Limiter caches\<close>

record 'l limiter_lib =
  lib_NewLimiter :: "rat \<Rightarrow> int \<Rightarrow> 'l"
  lib_Allow :: "'l \<Rightarrow> time \<Rightarrow> bool \<times> 'l"

record 'l visitor =
  v_limiter :: 'l
  v_lastSeen :: time

record 'l limiter_cache =
  lc_m :: "(string \<times> 'l visitor) list"
  lc_makeLim :: 'l

definition new_visitor :: "'l \<Rightarrow> time \<Rightarrow> 'l visitor" where
  "new_visitor l now = \<lparr>v_limiter = l, v_lastSeen = now\<rparr>"

definition new_limiter_cache :: "'l \<Rightarrow> 'l limiter_cache" where
  "new_limiter_cache mk = \<lparr>lc_m = [], lc_makeLim = mk\<rparr>"

definition get_or_create :: "string \<Rightarrow> time \<Rightarrow> 'l limiter_cache \<Rightarrow> 'l \<times> 'l limiter_cache" where
  "get_or_create ip now c =
     (case map_of (lc_m c) ip of
        Some v \<Rightarrow> (v_limiter v, c\<lparr>lc_m := alist_put ip (v\<lparr>v_lastSeen := now\<rparr>) (lc_m c)\<rparr>)
      | None \<Rightarrow>
          (let v = new_visitor (lc_makeLim c) now
           in (v_limiter v, c\<lparr>lc_m := alist_put ip v (lc_m c)\<rparr>)))"

text \<open>\<^verbatim>\<open>lim := c.getOrCreate(ip, now); lim.Allow()\<close>: the call changes the limiter that the visitor holds.\<close>

definition set_limiter :: "string \<Rightarrow> 'l \<Rightarrow> 'l limiter_cache \<Rightarrow> 'l limiter_cache" where
  "set_limiter ip l c =
     (case map_of (lc_m c) ip of
        None \<Rightarrow> c
      | Some v \<Rightarrow> c\<lparr>lc_m := alist_put ip (v\<lparr>v_limiter := l\<rparr>) (lc_m c)\<rparr>)"

definition bucket_allow ::
  "'l limiter_lib \<Rightarrow> string \<Rightarrow> time \<Rightarrow> time \<Rightarrow> 'l limiter_cache \<Rightarrow> bool \<times> 'l limiter_cache" where
  "bucket_allow lib ip now t c =
     (let (l, c1) = get_or_create ip now c;
          (ok, l') = lib_Allow lib l t
      in (ok, set_limiter ip l' c1))"

definition lc_sweep :: "time \<Rightarrow> 'l limiter_cache \<Rightarrow> int \<times> 'l limiter_cache" where
  "lc_sweep cutoff c =
     (int (length (filter (\<lambda>(k, v). v_lastSeen v < cutoff) (lc_m c))),
      c\<lparr>lc_m := filter (\<lambda>(k, v). \<not> v_lastSeen v < cutoff) (lc_m c)\<rparr>)"

definition lc_size :: "'l limiter_cache \<Rightarrow> int" where
  "lc_size c = int (length (lc_m c))"

subsection \<open>Connection trackers\<close>

record conn_tracker =
  ct_count :: int
  ct_lastSeen :: time

record conn_table =
  cn_map :: "(string \<times> nat) list"
  cn_heap :: "nat \<Rightarrow> conn_tracker"
  cn_next :: nat

definition new_conn_table :: conn_table where
  "new_conn_table = \<lparr>cn_map = [], cn_heap = (\<lambda>_. \<lparr>ct_count = 0, ct_lastSeen = 0\<rparr>), cn_next = 0\<rparr>"

definition conn_alloc :: "time \<Rightarrow> conn_table \<Rightarrow> nat \<times> conn_table" where
  "conn_alloc now t =
     (cn_next t,
      t\<lparr>cn_heap := (cn_heap t)(cn_next t := \<lparr>ct_count = 0, ct_lastSeen = now\<rparr>), cn_next := Suc (cn_next t)\<rparr>)"

definition conn_load_or_store :: "string \<Rightarrow> nat \<Rightarrow> conn_table \<Rightarrow> nat \<times> conn_table" where
  "conn_load_or_store ip r t =
     (case map_of (cn_map t) ip of
        Some r' \<Rightarrow> (r', t)
      | None \<Rightarrow> (r, t\<lparr>cn_map := alist_put ip r (cn_map t)\<rparr>))"

definition get_conn_tracker :: "string \<Rightarrow> time \<Rightarrow> conn_table \<Rightarrow> nat \<times> conn_table" where
  "get_conn_tracker ip now t =
     (case map_of (cn_map t) ip of
        Some r \<Rightarrow> (r, t)
      | None \<Rightarrow> (let (r, t1) = conn_alloc now t in conn_load_or_store ip r t1))"

definition conn_stamp :: "nat \<Rightarrow> time \<Rightarrow> conn_table \<Rightarrow> conn_table" where
  "conn_stamp r now t = t\<lparr>cn_heap := (cn_heap t)(r := (cn_heap t r)\<lparr>ct_lastSeen := now\<rparr>)\<rparr>"

definition conn_set :: "nat \<Rightarrow> int \<Rightarrow> conn_table \<Rightarrow> conn_table" where
  "conn_set r n t = t\<lparr>cn_heap := (cn_heap t)(r := (cn_heap t r)\<lparr>ct_count := n\<rparr>)\<rparr>"

definition conn_count :: "conn_table \<Rightarrow> nat \<Rightarrow> int" where
  "conn_count t r = ct_count (cn_heap t r)"

text \<open>
  The compare-and-swap loop, run alone: the swap succeeds the first time. \<open>None\<close> is the rejection at the cap.
\<close>

definition conn_acquire :: "int \<Rightarrow> string \<Rightarrow> time \<Rightarrow> time \<Rightarrow> conn_table \<Rightarrow> nat option \<times> conn_table" where
  "conn_acquire cap ip t1 t2 t =
     (let (r, ta) = get_conn_tracker ip t1 t;
          tb = conn_stamp r t2 ta;
          cur = conn_count tb r
      in if cur \<ge> cap then (None, tb) else (Some r, conn_set r (cur + 1) tb))"

definition conn_release :: "nat \<Rightarrow> time \<Rightarrow> conn_table \<Rightarrow> conn_table" where
  "conn_release r now t = conn_stamp r now (conn_set r (conn_count t r - 1) t)"

definition conn_idle :: "time \<Rightarrow> conn_table \<Rightarrow> nat \<Rightarrow> bool" where
  "conn_idle cutoff t r \<longleftrightarrow> conn_count t r = 0 \<and> ct_lastSeen (cn_heap t r) < cutoff"

definition sweep_conn_counts :: "time \<Rightarrow> conn_table \<Rightarrow> int \<times> conn_table" where
  "sweep_conn_counts cutoff t =
     (int (length (filter (\<lambda>(k, r). conn_idle cutoff t r) (cn_map t))),
      t\<lparr>cn_map := filter (\<lambda>(k, r). \<not> conn_idle cutoff t r) (cn_map t)\<rparr>)"

definition conn_counts_size :: "conn_table \<Rightarrow> int" where
  "conn_counts_size t = int (length (cn_map t))"

subsection \<open>Tenant states and the feature\<close>

record 'l rl_state =
  st_cfg :: rl_params
  st_ipBuckets :: "'l limiter_cache"
  st_apiBuckets :: "'l limiter_cache"
  st_connCounts :: conn_table
  st_globalLimiter :: 'l

definition new_global_limiter :: "'l limiter_lib \<Rightarrow> rl_params \<Rightarrow> 'l" where
  "new_global_limiter lib p =
     (let b0 = float_to_int (rp_GlobalRPS p);
          b1 = (if b0 < rp_PerIPBurst p then rp_PerIPBurst p else b0);
          burst = (if b1 < 1 then 1 else b1)
      in lib_NewLimiter lib (rp_GlobalRPS p) burst)"

definition new_tenant_state :: "'l limiter_lib \<Rightarrow> rl_params \<Rightarrow> 'l rl_state" where
  "new_tenant_state lib cfg =
     \<lparr>st_cfg = cfg,
      st_ipBuckets = new_limiter_cache (lib_NewLimiter lib (rp_PerIPRPS cfg) (rp_PerIPBurst cfg)),
      st_apiBuckets = new_limiter_cache (lib_NewLimiter lib (rp_APIRPS cfg) (rp_APIBurst cfg)),
      st_connCounts = new_conn_table,
      st_globalLimiter = new_global_limiter lib cfg\<rparr>"

text \<open>
  The tenant states are objects: \<open>rf_buckets\<close> maps a host to the address of its current one, and a request keeps
  the address it started with.
\<close>

record 'l rl_feature =
  rf_enabled :: bool
  rf_buckets :: "(string \<times> nat) list"
  rf_states :: "nat \<rightharpoonup> 'l rl_state"
  rf_next :: nat
  rf_globalDefault :: rl_params
  rf_sweepInterval :: duration

definition new_rl_feature :: "'l rl_feature" where
  "new_rl_feature =
     \<lparr>rf_enabled = False, rf_buckets = [], rf_states = Map.empty, rf_next = 0,
      rf_globalDefault = rl_default_params, rf_sweepInterval = defaultCleanupSeconds * second\<rparr>"

definition sweep_interval_from_globals :: "'l rl_feature \<Rightarrow> 'l rl_feature" where
  "sweep_interval_from_globals f =
     (let iv = rp_CleanupInterval (rf_globalDefault f)
      in f\<lparr>rf_sweepInterval := if iv \<le> 0 then defaultCleanupSeconds * second else iv\<rparr>)"

definition rl_observe :: "feature_snapshot \<Rightarrow> 'l rl_feature \<Rightarrow> 'l rl_feature" where
  "rl_observe snap f =
     sweep_interval_from_globals
       (f\<lparr>rf_globalDefault := rl_parse_params (fs_Params snap), rf_enabled := fs_Enabled snap\<rparr>)"

fun alloc_states ::
  "'l limiter_lib \<Rightarrow> (string \<times> rl_params) list \<Rightarrow> (string \<times> nat) list \<Rightarrow> 'l rl_feature \<Rightarrow>
     (string \<times> nat) list \<times> 'l rl_feature" where
  "alloc_states lib [] newStates f = (newStates, f)"
| "alloc_states lib ((host, p) # rest) newStates f =
     alloc_states lib rest (alist_put host (rf_next f) newStates)
       (f\<lparr>rf_states := (rf_states f)(rf_next f \<mapsto> new_tenant_state lib p), rf_next := Suc (rf_next f)\<rparr>)"

definition apply_tenants :: "'l limiter_lib \<Rightarrow> (string \<times> rl_params) list \<Rightarrow> 'l rl_feature \<Rightarrow> 'l rl_feature" where
  "apply_tenants lib tenantParams f =
     (let (newStates, f1) = alloc_states lib tenantParams [] f in f1\<lparr>rf_buckets := newStates\<rparr>)"

definition effective_rl_params :: "rl_params \<Rightarrow> tenant_snapshot \<Rightarrow> rl_params option" where
  "effective_rl_params gdef t =
     (if \<not> ts_Enabled t then None
      else (case ts_Features t rl_FeatureName of
              Some override \<Rightarrow>
                if \<not> fs_Enabled override then None else Some (rl_parse_params (fs_Params override))
            | None \<Rightarrow> Some gdef))"

definition apply_from_snapshots ::
  "'l limiter_lib \<Rightarrow> (string \<times> tenant_snapshot) list \<Rightarrow> 'l rl_feature \<Rightarrow> 'l rl_feature" where
  "apply_from_snapshots lib tenants f =
     apply_tenants lib
       (List.map_filter (\<lambda>(host, t). map_option (Pair host) (effective_rl_params (rf_globalDefault f) t)) tenants) f"

definition state_for :: "'l rl_feature \<Rightarrow> string \<Rightarrow> nat option" where
  "state_for f host = map_of (rf_buckets f) host"

definition sweep_ttl :: "rl_params \<Rightarrow> duration" where
  "sweep_ttl cfg =
     (let t1 = (if rp_IdleTTL cfg \<le> 0 then wrap64 (2 * rp_CleanupInterval cfg) else rp_IdleTTL cfg)
      in if t1 \<le> 0 then 2 * defaultCleanupSeconds * second else t1)"

definition sweep_state :: "time \<Rightarrow> 'l rl_state \<Rightarrow> 'l rl_state" where
  "sweep_state now st =
     (let cutoff = now - sweep_ttl (st_cfg st)
      in st\<lparr>st_ipBuckets := snd (lc_sweep cutoff (st_ipBuckets st)),
            st_apiBuckets := snd (lc_sweep cutoff (st_apiBuckets st)),
            st_connCounts := snd (sweep_conn_counts cutoff (st_connCounts st))\<rparr>)"

definition rl_update :: "nat \<Rightarrow> ('l rl_state \<Rightarrow> 'l rl_state) \<Rightarrow> 'l rl_feature \<Rightarrow> 'l rl_feature" where
  "rl_update a g f = f\<lparr>rf_states := (rf_states f)(a := map_option g (rf_states f a))\<rparr>"

definition sweep_all_tenants :: "time \<Rightarrow> 'l rl_feature \<Rightarrow> 'l rl_feature" where
  "sweep_all_tenants now f =
     fold (\<lambda>(host, a). rl_update a (sweep_state now)) (rf_buckets f) f"

subsection \<open>Requests\<close>

record rl_request =
  rr_Path :: string
  rr_CFConnectingIP :: string
  rr_XForwardedFor :: string
  rr_RemoteAddr :: string

definition rl_client_ip :: "rl_request \<Rightarrow> bool \<Rightarrow> string" where
  "rl_client_ip r trustXFF =
     (if trustXFF \<and> rr_CFConnectingIP r \<noteq> [] then rr_CFConnectingIP r
      else if trustXFF \<and> rr_XForwardedFor r \<noteq> [] then
        (case index_byte (rr_XForwardedFor r) CHR '','' of
           Some i \<Rightarrow> trim_space (take i (rr_XForwardedFor r))
         | None \<Rightarrow> trim_space (rr_XForwardedFor r))
      else (case split_host_port (rr_RemoteAddr r) of
              None \<Rightarrow> rr_RemoteAddr r
            | Some host \<Rightarrow> host))"

definition matches_any_prefix :: "(string \<Rightarrow> string) \<Rightarrow> string \<Rightarrow> string list \<Rightarrow> bool" where
  "matches_any_prefix uni path ps =
     (let lowered = to_lower uni path
      in list_ex (\<lambda>p. p \<noteq> [] \<and> has_prefix lowered (to_lower uni p)) ps)"

text \<open>
  The answer to a request over a limit. \<open>hijacked\<close> tells whether the connection could be taken over; the second
  component of \<open>RlAnswer\<close> is the longest time that the handler waits first.
\<close>

datatype rl_answer = RlClosed | RlAnswer nat duration "string option" string

definition rl_apply_action :: "rl_params \<Rightarrow> bool \<Rightarrow> rl_answer" where
  "rl_apply_action cfg hijacked =
     (if rp_ActionOnExceed cfg = ActionDrop then
        (if hijacked then RlClosed else RlAnswer 400 0 None [])
      else if rp_ActionOnExceed cfg = ActionTimeout then
        (let d = (if rp_TimeoutOnExceed cfg \<le> 0 then defaultTimeoutSeconds * second else rp_TimeoutOnExceed cfg)
         in RlAnswer 408 d (Some ''3'') [])
      else RlAnswer 429 0 (Some ''3'') ''Too Many Requests'')"

text \<open>
  A request either passes to the next handler or is over a limit and gets \<open>rl_apply_action\<close>. In both cases it may hold a connection slot, which the deferred function releases when it is done: a request that a
  token bucket rejects keeps its slot while the answer waits.
\<close>

datatype rl_outcome = RlOver "nat option" | RlPass "nat option"

fun held_slot :: "rl_outcome \<Rightarrow> nat option" where
  "held_slot (RlOver slot) = slot"
| "held_slot (RlPass slot) = slot"

definition rl_connections ::
  "'l rl_state \<Rightarrow> string \<Rightarrow> (nat \<Rightarrow> time) \<Rightarrow> rl_outcome \<times> 'l rl_state" where
  "rl_connections st ip clk =
     (if rp_PerIPConns (st_cfg st) > 0 then
        (case conn_acquire (rp_PerIPConns (st_cfg st)) ip (clk 1) (clk 2) (st_connCounts st) of
           (None, t) \<Rightarrow> (RlOver None, st\<lparr>st_connCounts := t\<rparr>)
         | (Some r, t) \<Rightarrow> (RlPass (Some r), st\<lparr>st_connCounts := t\<rparr>))
      else (RlPass None, st))"

definition rl_serve_exit :: "nat option \<Rightarrow> time \<Rightarrow> 'l rl_state \<Rightarrow> 'l rl_state" where
  "rl_serve_exit slot now st =
     (case slot of
        None \<Rightarrow> st
      | Some r \<Rightarrow> st\<lparr>st_connCounts := conn_release r now (st_connCounts st)\<rparr>)"

definition uses_api_bucket :: "(string \<Rightarrow> string) \<Rightarrow> rl_params \<Rightarrow> string \<Rightarrow> bool" where
  "uses_api_bucket uni cfg path \<longleftrightarrow> matches_any_prefix uni path (rp_APIPathPrefixes cfg) \<and> rp_APIRPS cfg > 0"

definition rl_bucket ::
  "'l limiter_lib \<Rightarrow> (string \<Rightarrow> string) \<Rightarrow> 'l rl_state \<Rightarrow> string \<Rightarrow> string \<Rightarrow> (nat \<Rightarrow> time) \<Rightarrow> bool \<times> 'l rl_state" where
  "rl_bucket lib uni st path ip clk =
     (if uses_api_bucket uni (st_cfg st) path then
        (let (ok, c) = bucket_allow lib ip (clk 3) (clk 4) (st_apiBuckets st) in (ok, st\<lparr>st_apiBuckets := c\<rparr>))
      else
        (let (ok, c) = bucket_allow lib ip (clk 3) (clk 4) (st_ipBuckets st) in (ok, st\<lparr>st_ipBuckets := c\<rparr>)))"

definition rl_serve_enter ::
  "'l limiter_lib \<Rightarrow> (string \<Rightarrow> string) \<Rightarrow> 'l rl_state \<Rightarrow> rl_request \<Rightarrow> (nat \<Rightarrow> time) \<Rightarrow> rl_outcome \<times> 'l rl_state" where
  "rl_serve_enter lib uni st r clk =
     (let (ok, g) = lib_Allow lib (st_globalLimiter st) (clk 0);
          st1 = st\<lparr>st_globalLimiter := g\<rparr>
      in if \<not> ok then (RlOver None, st1)
         else
           (let ip = rl_client_ip r (rp_TrustXFF (st_cfg st)) in
            case rl_connections st1 ip clk of
              (RlOver slot, st2) \<Rightarrow> (RlOver slot, st2)
            | (RlPass slot, st2) \<Rightarrow>
                (let (ok2, st3) = rl_bucket lib uni st2 (rr_Path r) ip clk
                 in (if ok2 then RlPass slot else RlOver slot, st3))))"

text \<open>
  The middleware. \<open>RlSkip\<close> passes the request on without looking at it; otherwise the outcome comes with the address of the
  tenant state, on which the request is left later.
\<close>

datatype rl_verdict = RlSkip | RlServed nat rl_outcome

definition rl_middleware ::
  "'l limiter_lib \<Rightarrow> (string \<Rightarrow> string) \<Rightarrow> 'l rl_feature \<Rightarrow> tenant_snapshot option \<Rightarrow> rl_request \<Rightarrow> (nat \<Rightarrow> time) \<Rightarrow>
     rl_verdict \<times> 'l rl_feature" where
  "rl_middleware lib uni f tenant r clk =
     (if \<not> rf_enabled f then (RlSkip, f)
      else
        (case tenant of
           None \<Rightarrow> (RlSkip, f)
         | Some t \<Rightarrow>
             (case state_for f (ts_Host t) of
                None \<Rightarrow> (RlSkip, f)
              | Some a \<Rightarrow>
                  (case rf_states f a of
                     None \<Rightarrow> (RlSkip, f)
                   | Some st \<Rightarrow>
                       (let (res, st') = rl_serve_enter lib uni st r clk
                        in (RlServed a res, f\<lparr>rf_states := (rf_states f)(a \<mapsto> st')\<rparr>))))))"

definition rl_leave :: "nat \<Rightarrow> nat option \<Rightarrow> time \<Rightarrow> 'l rl_feature \<Rightarrow> 'l rl_feature" where
  "rl_leave a slot now f = rl_update a (rl_serve_exit slot now) f"

subsection \<open>Accepted parameters\<close>

interpretation rl_contract: validated_feature rl_validate
  by unfold_locales
    (simp add: rl_validate_def zero_snapshot_def Let_def neg_float_def neg_int_def)

lemma or_default_nonneg_int: "\<not> neg_int x \<Longrightarrow> 0 \<le> d \<Longrightarrow> 0 \<le> or_default (as_int x) d"
  by (auto simp: neg_int_def or_default_def split: option.splits)

lemma or_default_nonneg_float: "\<not> neg_float x \<Longrightarrow> 0 \<le> d \<Longrightarrow> 0 \<le> or_default (as_float x) d"
  by (auto simp: neg_float_def or_default_def split: option.splits)

lemma rl_validate_NoneD:
  assumes "rl_validate cfg = None"
  shows "\<not> neg_float (fs_Params cfg ''per_ip_rps'')" and "\<not> neg_int (fs_Params cfg ''per_ip_burst'')"
    and "\<not> neg_int (fs_Params cfg ''per_ip_conns'')" and "\<not> neg_float (fs_Params cfg ''api_rps'')"
    and "\<not> neg_int (fs_Params cfg ''api_burst'')" and "\<not> neg_float (fs_Params cfg ''global_rps'')"
  using assms by (simp_all add: rl_validate_def Let_def split: if_split_asm)

definition rl_action_valid :: "string \<Rightarrow> bool" where
  "rl_action_valid a \<longleftrightarrow> a = ActionTooMany \<or> a = ActionDrop \<or> a = ActionTimeout"

lemma rl_parsed_action: "rl_action_valid (rp_ActionOnExceed (rl_parse_params p))"
  by (cases "p ''action_on_exceed''" rule: option.exhaust; cases "the (p ''action_on_exceed'')")
    (simp_all add: rl_parse_params_def Let_def rl_default_params_def rl_action_valid_def action_normalized_def)

definition rl_params_ok :: "rl_params \<Rightarrow> bool" where
  "rl_params_ok p \<longleftrightarrow>
     0 \<le> rp_PerIPRPS p \<and> 0 \<le> rp_PerIPBurst p \<and> 0 \<le> rp_PerIPConns p \<and> 0 \<le> rp_APIRPS p
     \<and> 0 \<le> rp_APIBurst p \<and> 0 \<le> rp_GlobalRPS p \<and> rl_action_valid (rp_ActionOnExceed p)"

lemma rl_accepted_params:
  assumes "rl_validate cfg = None"
  shows "rl_params_ok (rl_parse_params (fs_Params cfg))"
  using rl_validate_NoneD[OF assms] rl_parsed_action[of "fs_Params cfg"]
  unfolding rl_params_ok_def
  by (simp add: rl_parse_params_def Let_def rl_default_params_def rl_default_defs
      or_default_nonneg_int or_default_nonneg_float)

lemma sweep_ttl_pos: "0 < sweep_ttl cfg"
  by (auto simp: sweep_ttl_def Let_def defaultCleanupSeconds_def second_def)

lemma sweep_interval_pos: "0 < rf_sweepInterval (rl_observe snap f)"
  by (auto simp: rl_observe_def sweep_interval_from_globals_def Let_def defaultCleanupSeconds_def second_def)

text \<open>
  The rate limiter runs on sane parameters. Whatever sequence of reloads, good or bad, the registry went through,
  the parameters that the feature parses from its resolved global snapshot have no negative rate, burst or connection
  cap and one of the three known actions; and whatever it observes, its sweep interval and the idle time
  of every sweep are positive, even where the conversion of seconds to nanoseconds wrapped around.
\<close>

theorem rl_params_sane:
  assumes "register_all fs new_registry = Inr r0" and "reload_run cs r0 w0 = (r, w)"
    and "f \<in> set fs" and "f_Name f = rl_FeatureName" and "f_Validate f = rl_validate"
  shows "rl_params_ok (rl_parse_params (fs_Params (resolve r None rl_FeatureName)))
    \<and> (\<forall>snap rf. 0 < rf_sweepInterval (rl_observe snap rf) \<and> 0 < sweep_ttl (rl_parse_params (fs_Params snap)))"
  using rl_accepted_params[OF rl_contract.resolved_ok[OF assms(1-3,5)]] assms(4)
  by (simp add: sweep_ttl_pos sweep_interval_pos)

theorem rl_params_sane_witness:
  "rl_params_ok (rl_parse_params (fs_Params (resolve
     (fst (reload_run [([rl_FeatureName \<mapsto> \<lparr>fs_Enabled = True, fs_Params = [''per_ip_burst'' \<mapsto> VInt 7], fs_Version = 1\<rparr>], [])]
        (projr (register_all [\<lparr>f_Name = rl_FeatureName, f_Middleware = (\<lambda>_. None), f_Validate = rl_validate\<rparr>]
           (new_registry :: (unit, unit, unit) registry))) ()))
     None rl_FeatureName)))"
  (is "rl_params_ok (rl_parse_params (fs_Params (resolve (fst ?run) None _)))")
proof -
  let ?f = "\<lparr>f_Name = rl_FeatureName, f_Middleware = (\<lambda>_. None), f_Validate = rl_validate\<rparr> :: (unit, unit) feature"
  have "register_all [?f] (new_registry :: (unit, unit, unit) registry) = Inr (projr (register_all [?f] new_registry))"
    by (simp add: register_def new_registry_def rl_FeatureName_def Let_def)
  from rl_params_sane[OF this, of _ "()" "fst ?run" "snd ?run" ?f, OF prod.collapse[symmetric]]
  show ?thesis by (rule conjunct1) simp_all
qed

subsection \<open>Invariant of a tenant state\<close>

text \<open>Each address has one tracker entry at most, and the entries point below the allocation counter.\<close>

definition conn_table_inv :: "conn_table \<Rightarrow> bool" where
  "conn_table_inv t \<longleftrightarrow>
     distinct (map fst (cn_map t))
     \<and> (\<forall>ip ip' r. map_of (cn_map t) ip = Some r \<longrightarrow> map_of (cn_map t) ip' = Some r \<longrightarrow> ip = ip')
     \<and> (\<forall>ip r. map_of (cn_map t) ip = Some r \<longrightarrow> r < cn_next t)"

definition cache_inv :: "'l limiter_cache \<Rightarrow> bool" where
  "cache_inv c \<longleftrightarrow> distinct (map fst (lc_m c))"

definition rl_state_inv :: "'l rl_state \<Rightarrow> bool" where
  "rl_state_inv st \<longleftrightarrow>
     cache_inv (st_ipBuckets st) \<and> cache_inv (st_apiBuckets st) \<and> conn_table_inv (st_connCounts st)"

lemma conn_ops_map [simp]:
  "cn_map (conn_stamp r now t) = cn_map t" "cn_next (conn_stamp r now t) = cn_next t"
  "cn_map (conn_set r n t) = cn_map t" "cn_next (conn_set r n t) = cn_next t"
  "cn_map (conn_release r now t) = cn_map t" "cn_next (conn_release r now t) = cn_next t"
  by (simp_all add: conn_stamp_def conn_set_def conn_release_def)

lemma conn_ops_count [simp]:
  "conn_count (conn_stamp r now t) q = conn_count t q"
  "conn_count (conn_set r n t) q = (if q = r then n else conn_count t q)"
  "conn_count (conn_release r now t) q = (if q = r then conn_count t r - 1 else conn_count t q)"
  by (simp_all add: conn_count_def conn_stamp_def conn_set_def conn_release_def)

lemma conn_table_inv_ops [simp]:
  "conn_table_inv (conn_stamp r now t) = conn_table_inv t"
  "conn_table_inv (conn_set r n t) = conn_table_inv t"
  "conn_table_inv (conn_release r now t) = conn_table_inv t"
  by (simp_all add: conn_table_inv_def)

lemma get_conn_tracker_cases:
  assumes "get_conn_tracker ip now t = (r, t')"
  obtains "map_of (cn_map t) ip = Some r" and "t' = t"
  | "map_of (cn_map t) ip = None" and "r = cn_next t"
    and "t' = t\<lparr>cn_map := alist_put ip (cn_next t) (cn_map t),
                cn_heap := (cn_heap t)(cn_next t := \<lparr>ct_count = 0, ct_lastSeen = now\<rparr>), cn_next := Suc (cn_next t)\<rparr>"
  using assms by (cases "map_of (cn_map t) ip")
    (auto simp: get_conn_tracker_def conn_alloc_def conn_load_or_store_def)

lemma conn_table_inv_get:
  assumes "conn_table_inv t" and "get_conn_tracker ip now t = (r, t')"
  shows "conn_table_inv t'" and "map_of (cn_map t') ip = Some r"
    and "ip' \<noteq> ip \<Longrightarrow> map_of (cn_map t') ip' = map_of (cn_map t) ip'"
    and "q < cn_next t \<Longrightarrow> conn_count t' q = conn_count t q"
proof -
  show "conn_table_inv t'"
    using assms(2)
  proof (cases rule: get_conn_tracker_cases)
    case 2
    have "map_of (cn_map t) x \<noteq> Some (cn_next t)" for x
      using assms(1) unfolding conn_table_inv_def by (metis less_irrefl)
    then show ?thesis
      using assms(1) unfolding conn_table_inv_def 2
      by (auto simp: map_of_alist_put distinct_alist_put intro: less_SucI)
  qed (use assms(1) in simp)
  show "map_of (cn_map t') ip = Some r"
    using assms(2) by (cases rule: get_conn_tracker_cases) (simp_all add: map_of_alist_put)
  show "map_of (cn_map t') ip' = map_of (cn_map t) ip'" if "ip' \<noteq> ip"
    using assms(2) that by (cases rule: get_conn_tracker_cases) (simp_all add: map_of_alist_put)
  show "conn_count t' q = conn_count t q" if "q < cn_next t"
    using assms(2) that by (cases rule: get_conn_tracker_cases) (simp_all add: conn_count_def)
qed

text \<open>The connections counted for an address.\<close>

definition conns_of :: "conn_table \<Rightarrow> string \<Rightarrow> int" where
  "conns_of t ip = (case map_of (cn_map t) ip of None \<Rightarrow> 0 | Some r \<Rightarrow> conn_count t r)"

lemma get_conn_tracker_count:
  assumes "get_conn_tracker ip now t = (r, t')"
  shows "conn_count t' r = conns_of t ip"
  using assms by (cases rule: get_conn_tracker_cases) (simp_all add: conns_of_def conn_count_def)

lemma conns_of_get_other:
  assumes "conn_table_inv t" and "get_conn_tracker ip now t = (r, t')" and "ip' \<noteq> ip"
  shows "conns_of t' ip' = conns_of t ip'"
  using conn_table_inv_get(3)[OF assms(1,2,3)] conn_table_inv_get(4)[OF assms(1,2)] assms(1)
  by (auto simp: conns_of_def conn_table_inv_def split: option.splits)

lemma conn_table_other_ref:
  assumes "conn_table_inv t" and "map_of (cn_map t) ip = Some r" and "ip' \<noteq> ip"
  shows "map_of (cn_map t) ip' \<noteq> Some r"
  using assms unfolding conn_table_inv_def by blast

lemma conn_acquire_cases:
  assumes "conn_acquire cap ip t1 t2 t = (res, t')"
  obtains r ta where "get_conn_tracker ip t1 t = (r, ta)" and "cap \<le> conns_of t ip" and "res = None"
    and "t' = conn_stamp r t2 ta"
  | r ta where "get_conn_tracker ip t1 t = (r, ta)" and "conns_of t ip < cap" and "res = Some r"
    and "t' = conn_set r (conns_of t ip + 1) (conn_stamp r t2 ta)"
proof -
  obtain r ta where g: "get_conn_tracker ip t1 t = (r, ta)" by (cases "get_conn_tracker ip t1 t")
  from assms that get_conn_tracker_count[OF g] show ?thesis
    by (simp add: conn_acquire_def g Let_def split: if_splits)
qed

lemma conn_acquire_spec:
  assumes "conn_table_inv t" and "conn_acquire cap ip t1 t2 t = (res, t')"
  shows "conn_table_inv t'" and "res = None \<longleftrightarrow> cap \<le> conns_of t ip"
    and "conns_of t' ip = conns_of t ip + (if res = None then 0 else 1)"
    and "ip' \<noteq> ip \<Longrightarrow> conns_of t' ip' = conns_of t ip'"
    and "res = Some r \<Longrightarrow> map_of (cn_map t') ip = Some r"
proof -
  from assms(2) have "\<exists>q ta. get_conn_tracker ip t1 t = (q, ta) \<and> (res = None \<or> res = Some q)
    \<and> (res = None \<longleftrightarrow> cap \<le> conns_of t ip)
    \<and> t' = (if res = None then conn_stamp q t2 ta else conn_set q (conns_of t ip + 1) (conn_stamp q t2 ta))"
    by (cases rule: conn_acquire_cases) (simp_all add: not_le)
  then obtain q ta where g: "get_conn_tracker ip t1 t = (q, ta)" and res: "res = None \<or> res = Some q"
    and ch: "res = None \<longleftrightarrow> cap \<le> conns_of t ip"
    and t': "t' = (if res = None then conn_stamp q t2 ta
                   else conn_set q (conns_of t ip + 1) (conn_stamp q t2 ta))"
    by blast
  have ta: "conn_table_inv ta" and m: "map_of (cn_map ta) ip = Some q"
    using conn_table_inv_get[OF assms(1) g] by simp_all
  show "conn_table_inv t'" using ta by (simp add: t')
  show "res = None \<longleftrightarrow> cap \<le> conns_of t ip" by (rule ch)
  show "conns_of t' ip = conns_of t ip + (if res = None then 0 else 1)"
    using m get_conn_tracker_count[OF g] by (simp add: t' conns_of_def)
  show "conns_of t' ip' = conns_of t ip'" if "ip' \<noteq> ip"
    using conns_of_get_other[OF assms(1) g that] conn_table_other_ref[OF ta m that]
    by (auto simp: t' conns_of_def split: option.splits)
  show "map_of (cn_map t') ip = Some r" if "res = Some r"
    using res that m by (auto simp: t')
qed

lemma conns_of_release:
  assumes "conn_table_inv t" and "map_of (cn_map t) ip = Some r"
  shows "conns_of (conn_release r now t) ip = conns_of t ip - 1"
    and "ip' \<noteq> ip \<Longrightarrow> conns_of (conn_release r now t) ip' = conns_of t ip'"
  using assms(2) conn_table_other_ref[OF assms] by (auto simp: conns_of_def split: option.splits)

text \<open>The limiter that a request of an address meets in a cache.\<close>

definition limiter_of :: "'l limiter_cache \<Rightarrow> string \<Rightarrow> 'l" where
  "limiter_of c ip = (case map_of (lc_m c) ip of None \<Rightarrow> lc_makeLim c | Some v \<Rightarrow> v_limiter v)"

lemma bucket_allow_eq:
  "bucket_allow lib ip now t c =
     (fst (lib_Allow lib (limiter_of c ip) t),
      c\<lparr>lc_m := alist_put ip \<lparr>v_limiter = snd (lib_Allow lib (limiter_of c ip) t), v_lastSeen = now\<rparr> (lc_m c)\<rparr>)"
proof -
  have twice: "alist_put ip x (alist_put ip y m) = alist_put ip x m" for x y :: "'a visitor" and m
    by (induction ip y m rule: alist_put.induct) auto
  have upd: "v\<lparr>v_lastSeen := now, v_limiter := l\<rparr> = \<lparr>v_limiter = l, v_lastSeen = now\<rparr>" for v :: "'a visitor" and l
    by (cases v) simp
  show ?thesis
    by (cases "map_of (lc_m c) ip"; cases "lib_Allow lib (limiter_of c ip) t")
      (simp_all add: bucket_allow_def get_or_create_def set_limiter_def limiter_of_def new_visitor_def
        map_of_alist_put twice upd)
qed

lemma cache_inv_bucket_allow: "cache_inv c \<Longrightarrow> cache_inv (snd (bucket_allow lib ip now t c))"
  by (simp add: bucket_allow_eq cache_inv_def distinct_alist_put)

lemma map_of_bucket_allow_other:
  "ip' \<noteq> ip \<Longrightarrow> map_of (lc_m (snd (bucket_allow lib ip now t c))) ip' = map_of (lc_m c) ip'"
  by (simp add: bucket_allow_eq map_of_alist_put)

text \<open>The bucket that a path is charged to.\<close>

definition charged_bucket :: "(string \<Rightarrow> string) \<Rightarrow> 'l rl_state \<Rightarrow> string \<Rightarrow> 'l limiter_cache" where
  "charged_bucket uni st path = (if uses_api_bucket uni (st_cfg st) path then st_apiBuckets st else st_ipBuckets st)"

definition rl_admits :: "'l limiter_lib \<Rightarrow> (string \<Rightarrow> string) \<Rightarrow> 'l rl_state \<Rightarrow> rl_request \<Rightarrow> (nat \<Rightarrow> time) \<Rightarrow> bool" where
  "rl_admits lib uni st r clk \<longleftrightarrow>
     (let ip = rl_client_ip r (rp_TrustXFF (st_cfg st)); cap = rp_PerIPConns (st_cfg st)
      in fst (lib_Allow lib (st_globalLimiter st) (clk 0))
         \<and> (cap \<le> 0 \<or> conns_of (st_connCounts st) ip < cap)
         \<and> fst (lib_Allow lib (limiter_of (charged_bucket uni st (rr_Path r)) ip) (clk 4)))"

text \<open>What \<^verbatim>\<open>serve\<close> may touch for an address: every other address keeps its buckets and its count.\<close>

definition same_for_others :: "string \<Rightarrow> 'l rl_state \<Rightarrow> 'l rl_state \<Rightarrow> bool" where
  "same_for_others ip st st' \<longleftrightarrow>
     st_cfg st' = st_cfg st
     \<and> lc_makeLim (st_ipBuckets st') = lc_makeLim (st_ipBuckets st)
     \<and> lc_makeLim (st_apiBuckets st') = lc_makeLim (st_apiBuckets st)
     \<and> (\<forall>ip'. ip' \<noteq> ip \<longrightarrow>
          map_of (lc_m (st_ipBuckets st')) ip' = map_of (lc_m (st_ipBuckets st)) ip'
          \<and> map_of (lc_m (st_apiBuckets st')) ip' = map_of (lc_m (st_apiBuckets st)) ip'
          \<and> conns_of (st_connCounts st') ip' = conns_of (st_connCounts st) ip')"

lemma same_for_others_trans:
  "same_for_others ip a b \<Longrightarrow> same_for_others ip b c \<Longrightarrow> same_for_others ip a c"
  by (simp add: same_for_others_def)

lemma same_for_others_refl [simp]: "same_for_others ip st st"
  "same_for_others ip st (st\<lparr>st_globalLimiter := g\<rparr>)"
  by (simp_all add: same_for_others_def)

lemma rl_connections_spec:
  assumes "rl_state_inv st" and "rl_connections st ip clk = (res, st')"
  shows "rl_state_inv st'" and "same_for_others ip st st'"
    and "res = (if 0 < rp_PerIPConns (st_cfg st) \<and> rp_PerIPConns (st_cfg st) \<le> conns_of (st_connCounts st) ip then RlOver None else RlPass (held_slot res))"
    and "held_slot res = None \<longleftrightarrow> rp_PerIPConns (st_cfg st) \<le> 0 \<or> rp_PerIPConns (st_cfg st) \<le> conns_of (st_connCounts st) ip"
    and "res = RlPass (Some q) \<Longrightarrow> map_of (cn_map (st_connCounts st')) ip = Some q"
    and "st_ipBuckets st' = st_ipBuckets st" and "st_apiBuckets st' = st_apiBuckets st"
    and "conns_of (st_connCounts st') ip
           = conns_of (st_connCounts st) ip + (case res of RlPass (Some _) \<Rightarrow> 1 | _ \<Rightarrow> 0)"
proof -
  let ?cap = "rp_PerIPConns (st_cfg st)"
  obtain a t where acq: "conn_acquire ?cap ip (clk 1) (clk 2) (st_connCounts st) = (a, t)"
    by (cases "conn_acquire ?cap ip (clk 1) (clk 2) (st_connCounts st)")
  have inv: "conn_table_inv (st_connCounts st)" using assms(1) by (simp add: rl_state_inv_def)
  note spec = conn_acquire_spec[OF inv acq]
  have "0 < ?cap \<and> res = (case a of None \<Rightarrow> RlOver None | Some r \<Rightarrow> RlPass (Some r)) \<and> st' = st\<lparr>st_connCounts := t\<rparr>
    \<or> ?cap \<le> 0 \<and> res = RlPass None \<and> st' = st"
    using assms(2) by (simp add: rl_connections_def acq del: One_nat_def split: if_splits option.splits)
  then show "rl_state_inv st'" and "same_for_others ip st st'"
    and "res = (if 0 < ?cap \<and> ?cap \<le> conns_of (st_connCounts st) ip then RlOver None else RlPass (held_slot res))"
    and "held_slot res = None \<longleftrightarrow> ?cap \<le> 0 \<or> ?cap \<le> conns_of (st_connCounts st) ip"
    and "res = RlPass (Some q) \<Longrightarrow> map_of (cn_map (st_connCounts st')) ip = Some q"
    and "st_ipBuckets st' = st_ipBuckets st" and "st_apiBuckets st' = st_apiBuckets st"
    and "conns_of (st_connCounts st') ip
           = conns_of (st_connCounts st) ip + (case res of RlPass (Some _) \<Rightarrow> 1 | _ \<Rightarrow> 0)"
    using assms(1) spec by (auto simp: rl_state_inv_def same_for_others_def split: option.splits)
qed

lemma rl_bucket_spec:
  assumes "rl_bucket lib uni st path ip clk = (ok, st')"
  shows "ok \<longleftrightarrow> fst (lib_Allow lib (limiter_of (charged_bucket uni st path) ip) (clk 4))"
    and "rl_state_inv st \<Longrightarrow> rl_state_inv st'" and "same_for_others ip st st'"
    and "st_connCounts st' = st_connCounts st"
proof -
  let ?b = "bucket_allow lib ip (clk 3) (clk 4)"
  have "ok = fst (?b (charged_bucket uni st path))
    \<and> (st' = st\<lparr>st_apiBuckets := snd (?b (st_apiBuckets st))\<rparr> \<or> st' = st\<lparr>st_ipBuckets := snd (?b (st_ipBuckets st))\<rparr>)"
    using assms by (simp add: rl_bucket_def charged_bucket_def split: if_splits prod.splits)
  then show "ok \<longleftrightarrow> fst (lib_Allow lib (limiter_of (charged_bucket uni st path) ip) (clk 4))"
    and "rl_state_inv st \<Longrightarrow> rl_state_inv st'" and "same_for_others ip st st'"
    and "st_connCounts st' = st_connCounts st"
    by (auto simp: bucket_allow_eq rl_state_inv_def same_for_others_def cache_inv_def distinct_alist_put
        map_of_alist_put)
qed

lemma rl_serve_exit_spec:
  assumes "rl_state_inv st" and "\<And>q. slot = Some q \<Longrightarrow> map_of (cn_map (st_connCounts st)) ip = Some q"
  shows "rl_state_inv (rl_serve_exit slot now st)" and "same_for_others ip st (rl_serve_exit slot now st)"
    and "conns_of (st_connCounts (rl_serve_exit slot now st)) ip
           = conns_of (st_connCounts st) ip - (case slot of Some _ \<Rightarrow> 1 | None \<Rightarrow> 0)"
  using assms conns_of_release[of "st_connCounts st" ip]
  by (auto simp: rl_serve_exit_def rl_state_inv_def same_for_others_def split: option.splits)


lemma rl_serve_enter_cases:
  assumes "rl_serve_enter lib uni st r clk = (res, st')" and ip: "ip = rl_client_ip r (rp_TrustXFF (st_cfg st))"
  obtains (Global) "\<not> fst (lib_Allow lib (st_globalLimiter st) (clk 0))" and "res = RlOver None"
    and "st' = st\<lparr>st_globalLimiter := snd (lib_Allow lib (st_globalLimiter st) (clk 0))\<rparr>"
  | (Conns) st1 slot where "fst (lib_Allow lib (st_globalLimiter st) (clk 0))" and "res = RlOver slot"
    and "st1 = st\<lparr>st_globalLimiter := snd (lib_Allow lib (st_globalLimiter st) (clk 0))\<rparr>"
    and "rl_connections st1 ip clk = (RlOver slot, st')"
  | (Bucket) st1 slot st2 ok where "fst (lib_Allow lib (st_globalLimiter st) (clk 0))"
    and "st1 = st\<lparr>st_globalLimiter := snd (lib_Allow lib (st_globalLimiter st) (clk 0))\<rparr>"
    and "rl_connections st1 ip clk = (RlPass slot, st2)"
    and "rl_bucket lib uni st2 (rr_Path r) ip clk = (ok, st')"
    and "res = (if ok then RlPass slot else RlOver slot)"
proof -
  obtain g g' where g: "lib_Allow lib (st_globalLimiter st) (clk 0) = (g, g')"
    by (cases "lib_Allow lib (st_globalLimiter st) (clk 0)")
  obtain c st2 where c: "rl_connections (st\<lparr>st_globalLimiter := g'\<rparr>) ip clk = (c, st2)"
    by (cases "rl_connections (st\<lparr>st_globalLimiter := g'\<rparr>) ip clk")
  obtain ok st3 where b: "rl_bucket lib uni st2 (rr_Path r) ip clk = (ok, st3)"
    by (cases "rl_bucket lib uni st2 (rr_Path r) ip clk")
  have eq: "(res, st') = (if \<not> g then (RlOver None, st\<lparr>st_globalLimiter := g'\<rparr>)
     else case c of RlOver slot \<Rightarrow> (RlOver slot, st2)
        | RlPass slot \<Rightarrow> (if ok then RlPass slot else RlOver slot, st3))"
    using assms(1) c b by (cases g; cases c) (auto simp: rl_serve_enter_def g ip Let_def)
  show ?thesis
  proof (cases g)
    case True
    show ?thesis
    proof (cases c)
      case (RlOver slot)
      with eq True show ?thesis using Conns[OF _ _ refl] c g by simp
    next
      case (RlPass slot)
      have "res = (if ok then RlPass slot else RlOver slot)" and "st' = st3"
        using eq True RlPass by (simp_all split: if_splits)
      then show ?thesis using Bucket[OF _ refl] b c g True RlPass by simp
    qed
  qed (use eq Global g in simp)
qed

lemma charged_bucket_cong:
  "st_cfg st' = st_cfg st \<Longrightarrow> st_apiBuckets st' = st_apiBuckets st \<Longrightarrow> st_ipBuckets st' = st_ipBuckets st \<Longrightarrow>
     charged_bucket uni st' path = charged_bucket uni st path"
  by (simp add: charged_bucket_def)

text \<open>When a request takes a connection slot: the cap is on, the global limiter admits it, and its address is below the cap.\<close>

definition takes_slot :: "'l limiter_lib \<Rightarrow> 'l rl_state \<Rightarrow> rl_request \<Rightarrow> (nat \<Rightarrow> time) \<Rightarrow> bool" where
  "takes_slot lib st r clk \<longleftrightarrow>
     0 < rp_PerIPConns (st_cfg st) \<and> fst (lib_Allow lib (st_globalLimiter st) (clk 0))
     \<and> conns_of (st_connCounts st) (rl_client_ip r (rp_TrustXFF (st_cfg st))) < rp_PerIPConns (st_cfg st)"

lemma rl_serve_enter_spec:
  assumes "rl_state_inv st" and "rl_serve_enter lib uni st r clk = (res, st')"
    and ip: "ip = rl_client_ip r (rp_TrustXFF (st_cfg st))"
  shows "rl_state_inv st'" and "same_for_others ip st st'"
    and "res = (if rl_admits lib uni st r clk then RlPass (held_slot res) else RlOver (held_slot res))"
    and "held_slot res \<noteq> None \<longleftrightarrow> takes_slot lib st r clk"
    and "held_slot res = Some q \<Longrightarrow> map_of (cn_map (st_connCounts st')) ip = Some q"
    and "conns_of (st_connCounts st') ip = conns_of (st_connCounts st) ip + (case held_slot res of Some _ \<Rightarrow> 1 | None \<Rightarrow> 0)"
proof -
  have "rl_state_inv st' \<and> same_for_others ip st st'
    \<and> res = (if rl_admits lib uni st r clk then RlPass (held_slot res) else RlOver (held_slot res))
    \<and> (held_slot res \<noteq> None \<longleftrightarrow> takes_slot lib st r clk)
    \<and> (held_slot res = Some q \<longrightarrow> map_of (cn_map (st_connCounts st')) ip = Some q)
    \<and> conns_of (st_connCounts st') ip = conns_of (st_connCounts st) ip + (case held_slot res of Some _ \<Rightarrow> 1 | None \<Rightarrow> 0)"
    using assms(2) ip
  proof (cases rule: rl_serve_enter_cases)
    case Global
    then show ?thesis using assms(1) by (simp add: rl_admits_def takes_slot_def Let_def rl_state_inv_def)
  next
    case (Conns st1 slot)
    have inv1: "rl_state_inv st1" and same1: "same_for_others ip st st1" and eq1: "st_connCounts st1 = st_connCounts st" "st_cfg st1 = st_cfg st"
      using assms(1) Conns(3) by (simp_all add: rl_state_inv_def)
    note c = rl_connections_spec[OF inv1 Conns(4)]
    from c(3) have over: "0 < rp_PerIPConns (st_cfg st) \<and> rp_PerIPConns (st_cfg st) \<le> conns_of (st_connCounts st) ip" "slot = None"
      by (simp_all add: eq1 split: if_splits)
    then have "\<not> rl_admits lib uni st r clk" "\<not> takes_slot lib st r clk" by (simp_all add: rl_admits_def takes_slot_def Let_def ip[symmetric])
    then show ?thesis using Conns(2) c(1,8) same_for_others_trans[OF same1 c(2)] eq1 over(2) by simp
  next
    case (Bucket st1 slot st2 ok)
    have inv1: "rl_state_inv st1" and same1: "same_for_others ip st st1"
      and eq1: "st_connCounts st1 = st_connCounts st" "st_cfg st1 = st_cfg st"
        "st_ipBuckets st1 = st_ipBuckets st" "st_apiBuckets st1 = st_apiBuckets st"
      using assms(1) Bucket(2) by (simp_all add: rl_state_inv_def)
    note c = rl_connections_spec[OF inv1 Bucket(3)]
    note b = rl_bucket_spec[OF Bucket(4)]
    have same2: "same_for_others ip st st'"
      using same_for_others_trans[OF same_for_others_trans[OF same1 c(2)] b(3)] .
    have inv3: "rl_state_inv st'" using b(2)[OF c(1)] .
    have slot3: "map_of (cn_map (st_connCounts st')) ip = Some q" if "slot = Some q" for q
      using c(5)[of q] that b(4) by simp
    have held: "held_slot res = slot" using Bucket(5) by simp
    have taken: "slot \<noteq> None \<longleftrightarrow> takes_slot lib st r clk"
      using c(4) Bucket(1) by (auto simp: takes_slot_def eq1 ip[symmetric])
    have "charged_bucket uni st2 (rr_Path r) = charged_bucket uni st (rr_Path r)"
      using c(2,6,7) eq1 by (intro charged_bucket_cong) (simp_all add: same_for_others_def)
    with c(3) b(1) Bucket(1) have adm: "ok \<longleftrightarrow> rl_admits lib uni st r clk"
      by (auto simp: rl_admits_def Let_def eq1 ip[symmetric] not_less not_le split: if_splits)
    have "conns_of (st_connCounts st') ip = conns_of (st_connCounts st) ip + (case slot of Some _ \<Rightarrow> 1 | None \<Rightarrow> 0)"
      using c(8) b(4) eq1(1) by simp
    then show ?thesis using Bucket(5) inv3 same2 adm slot3 taken unfolding held by simp
  qed
  then show "rl_state_inv st'" and "same_for_others ip st st'"
    and "res = (if rl_admits lib uni st r clk then RlPass (held_slot res) else RlOver (held_slot res))"
    and "held_slot res \<noteq> None \<longleftrightarrow> takes_slot lib st r clk"
    and "held_slot res = Some q \<Longrightarrow> map_of (cn_map (st_connCounts st')) ip = Some q"
    and "conns_of (st_connCounts st') ip = conns_of (st_connCounts st) ip + (case held_slot res of Some _ \<Rightarrow> 1 | None \<Rightarrow> 0)"
    by blast+
qed

subsection \<open>Invariant of the feature\<close>

inductive rl_reachable :: "'l limiter_lib \<Rightarrow> (string \<Rightarrow> string) \<Rightarrow> 'l rl_feature \<Rightarrow> bool" for lib uni where
  start: "rl_reachable lib uni new_rl_feature"
| observe: "rl_reachable lib uni f \<Longrightarrow> rl_reachable lib uni (rl_observe snap f)"
| tenants: "rl_reachable lib uni f \<Longrightarrow> rl_reachable lib uni (apply_from_snapshots lib ts f)"
| sweep: "rl_reachable lib uni f \<Longrightarrow> rl_reachable lib uni (sweep_all_tenants now f)"
| request: "rl_reachable lib uni f \<Longrightarrow> rl_reachable lib uni (snd (rl_middleware lib uni f tenant r clk))"
| leave: "rl_reachable lib uni f \<Longrightarrow> rl_reachable lib uni (rl_leave a slot now f)"

definition rl_inv :: "'l rl_feature \<Rightarrow> bool" where
  "rl_inv f \<longleftrightarrow>
     (\<forall>host a. map_of (rf_buckets f) host = Some a \<longrightarrow> rf_states f a \<noteq> None)
     \<and> (\<forall>host host' a. map_of (rf_buckets f) host = Some a \<longrightarrow> map_of (rf_buckets f) host' = Some a \<longrightarrow> host = host')
     \<and> (\<forall>a st. rf_states f a = Some st \<longrightarrow> a < rf_next f \<and> rl_state_inv st)"

lemma rl_state_inv_new: "rl_state_inv (new_tenant_state lib p)"
  by (simp add: rl_state_inv_def new_tenant_state_def cache_inv_def new_limiter_cache_def conn_table_inv_def
      new_conn_table_def)

lemma conn_table_inv_sweep: "conn_table_inv t \<Longrightarrow> conn_table_inv (snd (sweep_conn_counts cutoff t))"
  by (simp add: conn_table_inv_def sweep_conn_counts_def map_of_alist_filter[where P = "\<lambda>k. P" for P] distinct_alist_filter
      split: option.splits if_splits)

lemma rl_state_inv_sweep: "rl_state_inv st \<Longrightarrow> rl_state_inv (sweep_state now st)"
  by (simp add: rl_state_inv_def sweep_state_def Let_def conn_table_inv_sweep cache_inv_def lc_sweep_def
      distinct_alist_filter)

lemma rl_state_inv_exit: "rl_state_inv st \<Longrightarrow> rl_state_inv (rl_serve_exit slot now st)"
  by (simp add: rl_state_inv_def rl_serve_exit_def split: option.splits)

lemma rl_inv_update:
  assumes "rl_inv f" and "\<And>st. rf_states f a = Some st \<Longrightarrow> rl_state_inv (g st)"
  shows "rl_inv (rl_update a g f)"
  using assms unfolding rl_inv_def rl_update_def by (auto split: if_splits)

lemma rl_inv_fresh:
  assumes "rl_inv f"
  shows "map_of (rf_buckets f) h \<noteq> Some (rf_next f)"
proof
  assume "map_of (rf_buckets f) h = Some (rf_next f)"
  with assms obtain st where "rf_states f (rf_next f) = Some st" unfolding rl_inv_def by blast
  with assms have "rf_next f < rf_next f" unfolding rl_inv_def by blast
  then show False by simp
qed

lemma rl_inv_alloc:
  assumes "rl_inv (f\<lparr>rf_buckets := m\<rparr>)"
  shows "rl_inv (f\<lparr>rf_states := (rf_states f)(rf_next f \<mapsto> new_tenant_state lib p), rf_next := Suc (rf_next f),
           rf_buckets := alist_put host (rf_next f) m\<rparr>)"
proof -
  have fresh: "map_of m h \<noteq> Some (rf_next f)" for h using rl_inv_fresh[OF assms, of h] by simp
  have dom: "rf_states f a \<noteq> None" if "map_of m h = Some a" for h a using assms that by (simp add: rl_inv_def)
  have inj: "h = h'" if "map_of m h = Some a" "map_of m h' = Some a" for h h' a
    using assms that by (simp add: rl_inv_def)
  have st: "a < rf_next f \<and> rl_state_inv x" if "rf_states f a = Some x" for a x
    using assms that by (simp add: rl_inv_def)
  show "rl_inv (f\<lparr>rf_states := (rf_states f)(rf_next f \<mapsto> new_tenant_state lib p), rf_next := Suc (rf_next f),
           rf_buckets := alist_put host (rf_next f) m\<rparr>)"
    unfolding rl_inv_def using dom inj st rl_state_inv_new[of lib p] fresh
    by (auto simp: less_Suc_eq map_of_alist_put dest: inj split: if_splits)
qed

lemma alloc_states_inv:
  assumes "alloc_states lib ps m f = (m', f')" and "rl_inv (f\<lparr>rf_buckets := m\<rparr>)"
  shows "rl_inv (f'\<lparr>rf_buckets := m'\<rparr>)"
  using assms
proof (induction lib ps m f rule: alloc_states.induct)
  case (2 lib host p rest m f)
  show ?case by (rule "2.IH") (use "2.prems" rl_inv_alloc[OF "2.prems"(2)] in simp_all)
qed simp

lemma rl_inv_apply:
  assumes "rl_inv f"
  shows "rl_inv (apply_from_snapshots lib ts f)"
proof -
  have "rl_inv (f\<lparr>rf_buckets := []\<rparr>)" using assms by (simp add: rl_inv_def)
  then show ?thesis
    by (auto simp: apply_from_snapshots_def apply_tenants_def split: prod.splits intro: alloc_states_inv)
qed

lemma rl_inv_sweep:
  assumes "rl_inv f"
  shows "rl_inv (sweep_all_tenants now f)"
proof -
  have "rl_inv (fold (\<lambda>(host, a). rl_update a (sweep_state now)) bs f)" for bs
    using assms
  proof (induction bs arbitrary: f)
    case (Cons b bs)
    have "rl_inv (rl_update (snd b) (sweep_state now) f)"
      by (rule rl_inv_update[OF Cons.prems]) (use Cons.prems in \<open>auto simp: rl_inv_def intro: rl_state_inv_sweep\<close>)
    from Cons.IH[OF this] show ?case by (simp add: case_prod_beta)
  qed simp
  then show ?thesis by (simp add: sweep_all_tenants_def)
qed

lemma rl_middleware_cases:
  assumes "rl_inv f"
  obtains "rl_middleware lib uni f tenant r clk = (RlSkip, f)"
    and "\<not> rf_enabled f \<or> tenant = None \<or> (\<exists>t. tenant = Some t \<and> state_for f (ts_Host t) = None)"
  | t a st res st' where "rf_enabled f" and "tenant = Some t" and "state_for f (ts_Host t) = Some a" and "rf_states f a = Some st"
    and "rl_state_inv st" and "rl_serve_enter lib uni st r clk = (res, st')"
    and "rl_middleware lib uni f tenant r clk = (RlServed a res, f\<lparr>rf_states := (rf_states f)(a \<mapsto> st')\<rparr>)"
proof (cases "\<not> rf_enabled f \<or> tenant = None \<or> (\<exists>t. tenant = Some t \<and> state_for f (ts_Host t) = None)")
  case True
  then show ?thesis using that(1) by (auto simp: rl_middleware_def split: option.splits)
next
  case False
  then obtain t a where ta: "rf_enabled f" "tenant = Some t" "state_for f (ts_Host t) = Some a" by auto
  with assms obtain st where st: "rf_states f a = Some st" "rl_state_inv st"
    unfolding rl_inv_def state_for_def by blast
  obtain res st' where "rl_serve_enter lib uni st r clk = (res, st')" by (cases "rl_serve_enter lib uni st r clk")
  then show ?thesis using that(2)[OF ta st] ta st by (simp add: rl_middleware_def)
qed

lemma rl_reachable_inv: "rl_reachable lib uni f \<Longrightarrow> rl_inv f"
proof (induction rule: rl_reachable.induct)
  case start
  show ?case by (simp add: rl_inv_def new_rl_feature_def)
next
  case (observe f snap)
  then show ?case by (simp add: rl_inv_def rl_observe_def sweep_interval_from_globals_def Let_def)
next
  case (request f tenant r clk)
  show ?case
    using request.IH
  proof (cases rule: rl_middleware_cases[where lib = lib and uni = uni and tenant = tenant and r = r and clk = clk])
    case (2 t a st res st')
    have "rl_state_inv st'" using rl_serve_enter_spec(1)[OF 2(5,6) refl] .
    then show ?thesis using rl_inv_update[OF request.IH, of a "\<lambda>_. st'"] 2(4,7) by (simp add: rl_update_def)
  qed (use request.IH in simp)
next
  case (leave f a slot now)
  show ?case unfolding rl_leave_def
    by (rule rl_inv_update[OF leave.IH]) (use leave.IH in \<open>auto simp: rl_inv_def intro: rl_state_inv_exit\<close>)
qed (simp_all add: rl_inv_apply rl_inv_sweep)

subsection \<open>What a request gets and whom it affects\<close>

text \<open>
  C19 (functional). The decision on a request and its reach. In every state that reloads, sweeps and earlier requests can lead to, a request skips the limiter exactly when the feature is off or its tenant has no
  state; otherwise it passes exactly when the tenant's global limiter admits it, its address has fewer connections than the cap (if there is one), and the bucket its path is charged to admits it. It takes a
  connection slot exactly when the cap is on, the global limiter admits it and its address is below the cap, so also when the bucket then turns it away: such a request keeps the slot until its answer, which may wait,
  is over. The count of its address is one higher with a slot and the same without one, and back at what it was when the slot is released. No other tenant's state changes, and within the tenant no other
  address sees its buckets or its connection count change.
\<close>

theorem rl_request_decision:
  assumes "rl_reachable lib uni f" and "rl_middleware lib uni f tenant r clk = (v, f')"
  shows "(v = RlSkip \<longleftrightarrow> \<not> rf_enabled f \<or> tenant = None \<or> (\<exists>t. tenant = Some t \<and> state_for f (ts_Host t) = None))
    \<and> (v = RlSkip \<longrightarrow> f' = f)
    \<and> (\<forall>a res. v = RlServed a res \<longrightarrow>
         (\<exists>t st st' ip slot. tenant = Some t \<and> state_for f (ts_Host t) = Some a
            \<and> rf_states f a = Some st \<and> f' = f\<lparr>rf_states := (rf_states f)(a \<mapsto> st')\<rparr>
            \<and> ip = rl_client_ip r (rp_TrustXFF (st_cfg st))
            \<and> res = (if rl_admits lib uni st r clk then RlPass slot else RlOver slot)
            \<and> (slot \<noteq> None \<longleftrightarrow> takes_slot lib st r clk)
            \<and> same_for_others ip st st'
            \<and> conns_of (st_connCounts st') ip = conns_of (st_connCounts st) ip + (if slot = None then 0 else 1)
            \<and> (\<forall>now. conns_of (st_connCounts (rl_serve_exit slot now st')) ip = conns_of (st_connCounts st) ip)))"
  using rl_reachable_inv[OF assms(1)]
proof (cases rule: rl_middleware_cases[where lib = lib and uni = uni and tenant = tenant and r = r and clk = clk])
  case 1
  then show ?thesis using assms(2) by simp
next
  case (2 t a st res st')
  let ?ip = "rl_client_ip r (rp_TrustXFF (st_cfg st))" and ?slot = "held_slot res"
  note spec = rl_serve_enter_spec[OF 2(5,6) refl]
  have cnt: "conns_of (st_connCounts st') ?ip = conns_of (st_connCounts st) ?ip + (if ?slot = None then 0 else 1)"
    using spec(6) by (cases ?slot) simp_all
  have "conns_of (st_connCounts (rl_serve_exit ?slot now st')) ?ip = conns_of (st_connCounts st) ?ip" for now
    using rl_serve_exit_spec(3)[OF spec(1) spec(5), of ?slot now] cnt by (cases ?slot) simp_all
  then have "\<exists>slot. res = (if rl_admits lib uni st r clk then RlPass slot else RlOver slot) \<and> (slot \<noteq> None \<longleftrightarrow> takes_slot lib st r clk)
      \<and> conns_of (st_connCounts st') ?ip = conns_of (st_connCounts st) ?ip + (if slot = None then 0 else 1)
      \<and> (\<forall>now. conns_of (st_connCounts (rl_serve_exit slot now st')) ?ip = conns_of (st_connCounts st) ?ip)"
    using spec(3,4) cnt by (intro exI[of _ ?slot] conjI allI) simp_all
  then have "\<exists>t' st0 st1 ip slot. tenant = Some t' \<and> state_for f (ts_Host t') = Some a \<and> rf_states f a = Some st0
      \<and> f\<lparr>rf_states := (rf_states f)(a \<mapsto> st')\<rparr> = f\<lparr>rf_states := (rf_states f)(a \<mapsto> st1)\<rparr> \<and> ip = rl_client_ip r (rp_TrustXFF (st_cfg st0))
      \<and> res = (if rl_admits lib uni st0 r clk then RlPass slot else RlOver slot) \<and> (slot \<noteq> None \<longleftrightarrow> takes_slot lib st0 r clk)
      \<and> same_for_others ip st0 st1 \<and> conns_of (st_connCounts st1) ip = conns_of (st_connCounts st0) ip + (if slot = None then 0 else 1)
      \<and> (\<forall>now. conns_of (st_connCounts (rl_serve_exit slot now st1)) ip = conns_of (st_connCounts st0) ip)"
    using 2(2-4) spec(2) by blast
  moreover have "v = RlServed a res" "f' = f\<lparr>rf_states := (rf_states f)(a \<mapsto> st')\<rparr>" using assms(2) 2(7) by simp_all
  ultimately show ?thesis using 2(1-3) by simp
qed

text \<open>
  A small limiter with the documented behaviour for a burst of one: a request is admitted when none was within the last
  \<open>d\<close> nanoseconds. It serves as the library in examples.
\<close>

definition gap_allow :: "duration \<Rightarrow> time option \<Rightarrow> time \<Rightarrow> bool \<times> time option" where
  "gap_allow d l t =
     (case l of None \<Rightarrow> (True, Some t) | Some x \<Rightarrow> if t < x + d then (False, l) else (True, Some t))"

definition gap_lib :: "duration \<Rightarrow> time option limiter_lib" where
  "gap_lib d = \<lparr>lib_NewLimiter = (\<lambda>_ _. None), lib_Allow = gap_allow d\<rparr>"

definition demo_tenant :: tenant_snapshot where
  "demo_tenant = \<lparr>ts_Host = ''a.example'', ts_Enabled = True, ts_Features = Map.empty\<rparr>"

definition demo_request :: rl_request where
  "demo_request =
     \<lparr>rr_Path = ''/x'', rr_CFConnectingIP = [], rr_XForwardedFor = [], rr_RemoteAddr = ''192.0.2.1:99''\<rparr>"

definition demo_rl_feature :: "time option rl_feature" where
  "demo_rl_feature =
     apply_from_snapshots (gap_lib second) [(''a.example'', demo_tenant)]
       (rl_observe \<lparr>fs_Enabled = True, fs_Params = Map.empty, fs_Version = 1\<rparr> new_rl_feature)"

lemma demo_rl_reachable: "rl_reachable (gap_lib second) id demo_rl_feature"
  unfolding demo_rl_feature_def by (intro rl_reachable.intros)

lemma demo_rl_state:
  "rf_states demo_rl_feature 0 = Some (new_tenant_state (gap_lib second) (rl_parse_params Map.empty))"
  "state_for demo_rl_feature ''a.example'' = Some 0" "rf_enabled demo_rl_feature"
  by (simp_all add: demo_rl_feature_def apply_from_snapshots_def apply_tenants_def effective_rl_params_def
      demo_tenant_def rl_observe_def sweep_interval_from_globals_def Let_def new_rl_feature_def state_for_def
      List.map_filter_simps)

lemma demo_parsed: "rl_parse_params Map.empty = rl_default_params"
  by (simp add: rl_parse_params_def Let_def seconds_param_def or_default_def rl_default_params_def)

lemma demo_served:
  "fst (rl_serve_enter (gap_lib second) id (new_tenant_state (gap_lib second) rl_default_params) demo_request (\<lambda>_. 0))
     = RlPass (Some 0)"
  by (simp add: rl_serve_enter_def new_tenant_state_def gap_lib_def gap_allow_def new_global_limiter_def Let_def
      rl_connections_def rl_default_params_def rl_default_defs conn_acquire_def get_conn_tracker_def conn_alloc_def
      conn_load_or_store_def new_conn_table_def conn_count_def conn_stamp_def rl_bucket_def uses_api_bucket_def
      matches_any_prefix_def to_lower_def is_ascii_def ascii_lower_def demo_request_def has_prefix_def
      bucket_allow_eq limiter_of_def new_limiter_cache_def)

theorem rl_request_decision_witness:
  "\<exists>st. rf_states (snd (rl_middleware (gap_lib second) id demo_rl_feature (Some demo_tenant) demo_request (\<lambda>_. 0))) 0 = Some st
     \<and> conns_of (st_connCounts st) (rl_client_ip demo_request False) = 1"
proof -
  let ?m = "rl_middleware (gap_lib second) id demo_rl_feature (Some demo_tenant) demo_request (\<lambda>_. 0)"
  have "fst ?m = RlServed 0 (RlPass (Some 0))"
    using demo_served by (simp add: rl_middleware_def demo_rl_state demo_parsed demo_tenant_def case_prod_beta)
  then have v: "?m = (RlServed 0 (RlPass (Some 0)), snd ?m)" by (cases ?m) simp
  show ?thesis
    using rl_request_decision[OF demo_rl_reachable v] demo_rl_state(1)
    by (auto simp: demo_parsed new_tenant_state_def rl_default_params_def rl_default_defs conns_of_def new_conn_table_def split: if_splits)
qed

subsection \<open>Sweeping is not observable\<close>

text \<open>
  What the code relies on of the token bucket: a limiter that was last used a while ago answers like a new one
  and continues like a new one, because it has filled up again. \<open>used_limiter\<close> are the states of a limiter of the given rate
  and burst whose last call was no later than the given time.
\<close>

inductive used_limiter :: "'l limiter_lib \<Rightarrow> rat \<Rightarrow> int \<Rightarrow> 'l \<Rightarrow> time \<Rightarrow> bool" for lib rps burst where
  fresh: "used_limiter lib rps burst (lib_NewLimiter lib rps burst) t"
| call: "used_limiter lib rps burst l t \<Longrightarrow> t \<le> t' \<Longrightarrow> used_limiter lib rps burst (snd (lib_Allow lib l t')) t'"

definition refills_within :: "'l limiter_lib \<Rightarrow> rat \<Rightarrow> int \<Rightarrow> duration \<Rightarrow> bool" where
  "refills_within lib rps burst d \<longleftrightarrow>
     (\<forall>l t t'. used_limiter lib rps burst l t \<longrightarrow> t + d \<le> t' \<longrightarrow>
        lib_Allow lib l t' = lib_Allow lib (lib_NewLimiter lib rps burst) t')"

text \<open>
  A run of one cache: requests, which stamp the visitor and a little later ask its limiter, and sweeps. \<open>slack\<close> bounds the
  time between the two.
\<close>

datatype cache_event = CacheReq string time time | CacheSweep time

fun cache_run :: "'l limiter_lib \<Rightarrow> duration \<Rightarrow> cache_event list \<Rightarrow> 'l limiter_cache \<Rightarrow> bool list" where
  "cache_run lib ttl [] c = []"
| "cache_run lib ttl (CacheReq ip now t # evs) c =
     (let (ok, c') = bucket_allow lib ip now t c in ok # cache_run lib ttl evs c')"
| "cache_run lib ttl (CacheSweep now # evs) c = cache_run lib ttl evs (snd (lc_sweep (now - ttl) c))"

fun is_request :: "cache_event \<Rightarrow> bool" where
  "is_request (CacheReq ip now t) = True"
| "is_request (CacheSweep now) = False"

fun cache_timed :: "duration \<Rightarrow> time \<Rightarrow> cache_event list \<Rightarrow> bool" where
  "cache_timed slack T [] = True"
| "cache_timed slack T (CacheReq ip now t # evs) = (T \<le> now \<and> now \<le> t \<and> t \<le> now + slack \<and> cache_timed slack t evs)"
| "cache_timed slack T (CacheSweep now # evs) = (T \<le> now \<and> cache_timed slack now evs)"

text \<open>
  The swept cache against the unswept one, at time \<open>T\<close>: each visitor of the latter is either in the former too or was seen too
  long ago to matter.
\<close>

definition visitor_sim ::
  "'l limiter_lib \<Rightarrow> rat \<Rightarrow> int \<Rightarrow> duration \<Rightarrow> duration \<Rightarrow> time \<Rightarrow> 'l visitor option \<Rightarrow> 'l visitor option \<Rightarrow> bool" where
  "visitor_sim lib rps burst slack ttl T v w \<longleftrightarrow>
     (case w of
        None \<Rightarrow> v = None
      | Some x \<Rightarrow>
          (\<exists>u. used_limiter lib rps burst (v_limiter x) u \<and> u \<le> v_lastSeen x + slack \<and> u \<le> T)
          \<and> (v = Some x \<or> v = None \<and> v_lastSeen x + ttl \<le> T))"

definition cache_sim ::
  "'l limiter_lib \<Rightarrow> rat \<Rightarrow> int \<Rightarrow> duration \<Rightarrow> duration \<Rightarrow> time \<Rightarrow> 'l limiter_cache \<Rightarrow> 'l limiter_cache \<Rightarrow> bool" where
  "cache_sim lib rps burst slack ttl T c c0 \<longleftrightarrow>
     cache_inv c \<and> lc_makeLim c = lib_NewLimiter lib rps burst \<and> lc_makeLim c0 = lib_NewLimiter lib rps burst
     \<and> (\<forall>ip. visitor_sim lib rps burst slack ttl T (map_of (lc_m c) ip) (map_of (lc_m c0) ip))"

lemma visitor_sim_later:
  "visitor_sim lib rps burst slack ttl T v w \<Longrightarrow> T \<le> T' \<Longrightarrow> visitor_sim lib rps burst slack ttl T' v w"
  by (fastforce simp: visitor_sim_def split: option.splits)

lemma visitor_sim_sweep:
  assumes "visitor_sim lib rps burst slack ttl T v w" and "T \<le> now"
  shows "visitor_sim lib rps burst slack ttl now
           (case v of None \<Rightarrow> None | Some x \<Rightarrow> if \<not> v_lastSeen x < now - ttl then Some x else None) w"
  using visitor_sim_later[OF assms] by (auto simp: visitor_sim_def split: option.splits)

lemma cache_sim_sweep:
  assumes "cache_sim lib rps burst slack ttl T c c0" and "T \<le> now"
  shows "cache_sim lib rps burst slack ttl now (snd (lc_sweep (now - ttl) c)) c0"
  using assms visitor_sim_sweep[of lib rps burst slack ttl T "map_of (lc_m c) ip" "map_of (lc_m c0) ip" now for ip]
  by (simp add: cache_sim_def lc_sweep_def cache_inv_def distinct_alist_filter
      map_of_alist_filter[where P = "\<lambda>k v. \<not> v_lastSeen v < now - ttl"])

lemma visitor_sim_allow:
  assumes sim: "cache_sim lib rps burst slack ttl T c c0" and refill: "refills_within lib rps burst d"
    and ttl: "d + slack \<le> ttl" and times: "T \<le> now" "now \<le> t" "t \<le> now + slack"
  shows "lib_Allow lib (limiter_of c ip) t = lib_Allow lib (limiter_of c0 ip) t"
    and "used_limiter lib rps burst (snd (lib_Allow lib (limiter_of c0 ip) t)) t"
proof -
  have vs: "visitor_sim lib rps burst slack ttl T (map_of (lc_m c) ip) (map_of (lc_m c0) ip)"
    and mk: "lc_makeLim c = lib_NewLimiter lib rps burst" "lc_makeLim c0 = lib_NewLimiter lib rps burst"
    using sim by (simp_all add: cache_sim_def)
  show "used_limiter lib rps burst (snd (lib_Allow lib (limiter_of c0 ip) t)) t"
  proof (cases "map_of (lc_m c0) ip")
    case None
    then show ?thesis using mk by (simp add: limiter_of_def) (rule used_limiter.call[OF used_limiter.fresh order_refl])
  next
    case (Some x)
    with vs obtain u where "used_limiter lib rps burst (v_limiter x) u" "u \<le> T" by (auto simp: visitor_sim_def)
    from used_limiter.call[OF this(1)] this(2) times Some show ?thesis by (simp add: limiter_of_def)
  qed
  show "lib_Allow lib (limiter_of c ip) t = lib_Allow lib (limiter_of c0 ip) t"
  proof (cases "map_of (lc_m c) ip = map_of (lc_m c0) ip")
    case False
    with vs obtain x u where x: "map_of (lc_m c0) ip = Some x" "map_of (lc_m c) ip = None" "v_lastSeen x + ttl \<le> T"
      and u: "used_limiter lib rps burst (v_limiter x) u" "u \<le> v_lastSeen x + slack"
      by (auto simp: visitor_sim_def split: option.splits)
    have "u + d \<le> t" using x(3) u(2) ttl times by linarith
    with refill u(1) have "lib_Allow lib (v_limiter x) t = lib_Allow lib (lib_NewLimiter lib rps burst) t"
      unfolding refills_within_def by blast
    then show ?thesis using x mk by (simp add: limiter_of_def)
  qed (use mk in \<open>simp add: limiter_of_def split: option.split\<close>)
qed

lemma cache_sim_allow:
  assumes "cache_sim lib rps burst slack ttl T c c0" and "refills_within lib rps burst d"
    and "d + slack \<le> ttl" and "T \<le> now" "now \<le> t" "t \<le> now + slack"
  shows "cache_sim lib rps burst slack ttl t (snd (bucket_allow lib ip now t c)) (snd (bucket_allow lib ip now t c0))"
proof -
  note a = visitor_sim_allow[OF assms, of ip]
  have later: "visitor_sim lib rps burst slack ttl t (map_of (lc_m c) x) (map_of (lc_m c0) x)" for x
    by (rule visitor_sim_later[where T = T]) (use assms(1,4,5) in \<open>simp_all add: cache_sim_def\<close>)
  have new: "visitor_sim lib rps burst slack ttl t (Some v) (Some v)"
    if "v = \<lparr>v_limiter = snd (lib_Allow lib (limiter_of c0 ip) t), v_lastSeen = now\<rparr>" for v
    using that a(2) assms(6) by (auto simp: visitor_sim_def)
  show ?thesis
    using assms(1) later new by (simp add: cache_sim_def bucket_allow_eq a(1) cache_inv_def distinct_alist_put map_of_alist_put)
qed

lemma cache_run_sim:
  assumes "cache_sim lib rps burst slack ttl T c c0" and "refills_within lib rps burst d" and "d + slack \<le> ttl"
    and "cache_timed slack T evs"
  shows "cache_run lib ttl evs c = cache_run lib ttl (filter is_request evs) c0"
  using assms(1,4)
proof (induction evs arbitrary: T c c0)
  case (Cons e evs)
  show ?case
  proof (cases e)
    case (CacheReq ip now t)
    with Cons.prems have times: "T \<le> now" "now \<le> t" "t \<le> now + slack" and rest: "cache_timed slack t evs" by simp_all
    note IH = Cons.IH[OF cache_sim_allow[OF Cons.prems(1) assms(2,3) times] rest]
    show ?thesis using IH[of ip] visitor_sim_allow(1)[OF Cons.prems(1) assms(2,3) times, of ip] CacheReq
      by (simp add: case_prod_beta Let_def) (simp add: bucket_allow_eq)
  next
    case (CacheSweep now)
    with Cons show ?thesis using Cons.IH[OF cache_sim_sweep[OF Cons.prems(1)]] by simp
  qed
qed simp

text \<open>
  Evicting idle visitors never changes a decision. If the token bucket fills up within \<open>d\<close> and the idle time of the
  sweeps is at least \<open>d\<close> plus the time a request may take between stamping its visitor and asking its limiter, then
  a cache under any sequence of requests and sweeps gives exactly the answers it would give without sweeps.
\<close>

theorem bucket_sweep_invisible:
  assumes "refills_within lib rps burst d" and "d + slack \<le> ttl" and "cache_timed slack T evs"
  shows "cache_run lib ttl evs (new_limiter_cache (lib_NewLimiter lib rps burst))
    = cache_run lib ttl (filter is_request evs) (new_limiter_cache (lib_NewLimiter lib rps burst))"
  by (rule cache_run_sim[OF _ assms])
    (simp add: cache_sim_def visitor_sim_def new_limiter_cache_def cache_inv_def)

lemma gap_used: "used_limiter (gap_lib d) rps burst l t \<Longrightarrow> l = None \<or> (\<exists>x. l = Some x \<and> x \<le> t)"
  by (induction rule: used_limiter.induct) (auto simp: gap_lib_def gap_allow_def split: if_splits)

lemma gap_refills: "0 \<le> d \<Longrightarrow> refills_within (gap_lib d) rps burst d"
  unfolding refills_within_def using gap_used[of d rps burst]
  by (fastforce simp: gap_lib_def gap_allow_def)

theorem bucket_sweep_invisible_witness:
  "cache_run (gap_lib 5) 10 [CacheReq ''a'' 0 1, CacheReq ''a'' 2 2, CacheSweep 30, CacheReq ''a'' 31 31]
       (new_limiter_cache None) = [True, False, True]"
  using bucket_sweep_invisible[OF gap_refills[of 5], where slack = 1 and ttl = 10 and T = 0 and rps = 1 and burst = 1
      and evs = "[CacheReq ''a'' 0 1, CacheReq ''a'' 2 2, CacheSweep 30, CacheReq ''a'' 31 31]"]
  by (simp add: gap_lib_def bucket_allow_eq limiter_of_def new_limiter_cache_def gap_allow_def Let_def)

end
