(* ===== verification/Conncap.thy ===== *)
theory Conncap
  imports Ratelimit
begin

text \<open>
  The connection cap of the rate limiter under concurrency. Requests are threads with a program counter; every
  atomic access of \<^verbatim>\<open>serve\<close>, \<^verbatim>\<open>getConnTracker\<close> and \<^verbatim>\<open>sweepConnCounts\<close> to the shared map and to a tracker is one step
  of its own, so that the compare-and-swap loop, the deferred release and the sweeper interleave in every possible way. The
  sweeper visits entries of the map in any order. A clock reading is any time not in the future. \<open>quiet\<close> restricts the
  runs to those in which an entry is deleted only while no request of its address is between looking
  it up and leaving. Results: on every tracker the count is the number of requests inside, never above the
  cap, and it returns to zero; for an address, the cap holds in quiet runs, and is exceeded in a run
  where the sweeper's deletion falls between a request's lookup and its stamp.
\<close>

subsection \<open>Model\<close>

datatype conn_pc =
    Idle
  | Missed string
  | Fresh string nat
  | Got string nat
  | Stamped string nat
  | Loaded string nat int
  | Active string nat
  | Released string nat

datatype sweep_pc =
    SwIdle
  | SwRange time
  | SwVisit time string nat
  | SwZero time string nat
  | SwOld time string nat

record conn_sys =
  sy_tab :: conn_table
  sy_pcs :: "conn_pc list"
  sy_sweep :: sweep_pc
  sy_clock :: time

datatype conn_event =
    Tick duration
  | Lookup nat string
  | Alloc nat time
  | LoadOrStore nat
  | Stamp nat time
  | LoadCount nat
  | CompareSwap nat
  | Release nat
  | Restamp nat time
  | SweepBegin time
  | SweepVisit string
  | SweepCount
  | SweepSeen
  | SweepDelete
  | SweepEnd

definition conn_init :: "nat \<Rightarrow> conn_sys" where
  "conn_init n = \<lparr>sy_tab = new_conn_table, sy_pcs = replicate n Idle, sy_sweep = SwIdle, sy_clock = 0\<rparr>"

text \<open>The address and the tracker that a request works on, from the lookup until it leaves.\<close>

fun pc_holds :: "conn_pc \<Rightarrow> (string \<times> nat) option" where
  "pc_holds (Got ip r) = Some (ip, r)"
| "pc_holds (Stamped ip r) = Some (ip, r)"
| "pc_holds (Loaded ip r cur) = Some (ip, r)"
| "pc_holds (Active ip r) = Some (ip, r)"
| "pc_holds (Released ip r) = Some (ip, r)"
| "pc_holds _ = None"

definition pc_at :: "conn_sys \<Rightarrow> nat \<Rightarrow> conn_pc option" where
  "pc_at s i = (if i < length (sy_pcs s) then Some (sy_pcs s ! i) else None)"

definition set_pc :: "nat \<Rightarrow> conn_pc \<Rightarrow> conn_sys \<Rightarrow> conn_sys" where
  "set_pc i p s = s\<lparr>sy_pcs := (sy_pcs s)[i := p]\<rparr>"

fun request_step :: "int \<Rightarrow> conn_event \<Rightarrow> conn_sys \<Rightarrow> conn_sys option" where
  "request_step cap (Lookup i ip) s =
     (case pc_at s i of
        Some Idle \<Rightarrow>
          (case map_of (cn_map (sy_tab s)) ip of
             Some r \<Rightarrow> Some (set_pc i (Got ip r) s)
           | None \<Rightarrow> Some (set_pc i (Missed ip) s))
      | _ \<Rightarrow> None)"
| "request_step cap (Alloc i now) s =
     (case pc_at s i of
        Some (Missed ip) \<Rightarrow>
          if now \<le> sy_clock s then
            (let (r, t) = conn_alloc now (sy_tab s) in Some (set_pc i (Fresh ip r) (s\<lparr>sy_tab := t\<rparr>)))
          else None
      | _ \<Rightarrow> None)"
| "request_step cap (LoadOrStore i) s =
     (case pc_at s i of
        Some (Fresh ip r) \<Rightarrow>
          (let (r', t) = conn_load_or_store ip r (sy_tab s) in Some (set_pc i (Got ip r') (s\<lparr>sy_tab := t\<rparr>)))
      | _ \<Rightarrow> None)"
| "request_step cap (Stamp i now) s =
     (case pc_at s i of
        Some (Got ip r) \<Rightarrow>
          if now \<le> sy_clock s then
            Some (set_pc i (Stamped ip r) (s\<lparr>sy_tab := conn_stamp r now (sy_tab s)\<rparr>))
          else None
      | _ \<Rightarrow> None)"
| "request_step cap (LoadCount i) s =
     (case pc_at s i of
        Some (Stamped ip r) \<Rightarrow>
          (let cur = conn_count (sy_tab s) r
           in if cur \<ge> cap then Some (set_pc i Idle s) else Some (set_pc i (Loaded ip r cur) s))
      | _ \<Rightarrow> None)"
| "request_step cap (CompareSwap i) s =
     (case pc_at s i of
        Some (Loaded ip r cur) \<Rightarrow>
          if conn_count (sy_tab s) r = cur
          then Some (set_pc i (Active ip r) (s\<lparr>sy_tab := conn_set r (cur + 1) (sy_tab s)\<rparr>))
          else Some (set_pc i (Stamped ip r) s)
      | _ \<Rightarrow> None)"
| "request_step cap (Release i) s =
     (case pc_at s i of
        Some (Active ip r) \<Rightarrow>
          Some (set_pc i (Released ip r) (s\<lparr>sy_tab := conn_set r (conn_count (sy_tab s) r - 1) (sy_tab s)\<rparr>))
      | _ \<Rightarrow> None)"
| "request_step cap (Restamp i now) s =
     (case pc_at s i of
        Some (Released ip r) \<Rightarrow>
          if now \<le> sy_clock s then Some (set_pc i Idle (s\<lparr>sy_tab := conn_stamp r now (sy_tab s)\<rparr>)) else None
      | _ \<Rightarrow> None)"
| "request_step cap _ s = None"

fun sweeper_step :: "bool \<Rightarrow> duration \<Rightarrow> conn_event \<Rightarrow> conn_sys \<Rightarrow> conn_sys option" where
  "sweeper_step busy ttl (SweepBegin now) s =
     (if sy_sweep s = SwIdle \<and> now \<le> sy_clock s then Some (s\<lparr>sy_sweep := SwRange (now - ttl)\<rparr>) else None)"
| "sweeper_step busy ttl (SweepVisit k) s =
     (case sy_sweep s of
        SwRange cutoff \<Rightarrow>
          (case map_of (cn_map (sy_tab s)) k of
             Some r \<Rightarrow> Some (s\<lparr>sy_sweep := SwVisit cutoff k r\<rparr>)
           | None \<Rightarrow> None)
      | _ \<Rightarrow> None)"
| "sweeper_step busy ttl SweepCount s =
     (case sy_sweep s of
        SwVisit cutoff k r \<Rightarrow>
          Some (s\<lparr>sy_sweep := if conn_count (sy_tab s) r = 0 then SwZero cutoff k r else SwRange cutoff\<rparr>)
      | _ \<Rightarrow> None)"
| "sweeper_step busy ttl SweepSeen s =
     (case sy_sweep s of
        SwZero cutoff k r \<Rightarrow>
          Some (s\<lparr>sy_sweep := if ct_lastSeen (cn_heap (sy_tab s) r) < cutoff then SwOld cutoff k r else SwRange cutoff\<rparr>)
      | _ \<Rightarrow> None)"
| "sweeper_step busy ttl SweepDelete s =
     (case sy_sweep s of
        SwOld cutoff k r \<Rightarrow>
          if busy then None
          else Some (s\<lparr>sy_sweep := SwRange cutoff, sy_tab := (sy_tab s)\<lparr>cn_map := alist_del k (cn_map (sy_tab s))\<rparr>\<rparr>)
      | _ \<Rightarrow> None)"
| "sweeper_step busy ttl SweepEnd s =
     (case sy_sweep s of SwRange cutoff \<Rightarrow> Some (s\<lparr>sy_sweep := SwIdle\<rparr>) | _ \<Rightarrow> None)"
| "sweeper_step busy ttl _ s = None"

definition sweeping_busy :: "conn_sys \<Rightarrow> bool" where
  "sweeping_busy s \<longleftrightarrow>
     (case sy_sweep s of
        SwOld cutoff k r \<Rightarrow> list_ex (\<lambda>p. map_option fst (pc_holds p) = Some k) (sy_pcs s)
      | _ \<Rightarrow> False)"

definition conn_step :: "bool \<Rightarrow> int \<Rightarrow> duration \<Rightarrow> conn_event \<Rightarrow> conn_sys \<Rightarrow> conn_sys option" where
  "conn_step quiet cap ttl e s =
     (case e of
        Tick d \<Rightarrow> if 0 \<le> d then Some (s\<lparr>sy_clock := sy_clock s + d\<rparr>) else None
      | _ \<Rightarrow>
          (case request_step cap e s of
             Some s' \<Rightarrow> Some s'
           | None \<Rightarrow> sweeper_step (quiet \<and> sweeping_busy s) ttl e s))"

fun conn_run :: "bool \<Rightarrow> int \<Rightarrow> duration \<Rightarrow> conn_event list \<Rightarrow> conn_sys \<Rightarrow> conn_sys option" where
  "conn_run quiet cap ttl [] s = Some s"
| "conn_run quiet cap ttl (e # es) s =
     (case conn_step quiet cap ttl e s of None \<Rightarrow> None | Some s' \<Rightarrow> conn_run quiet cap ttl es s')"

definition active_on :: "nat \<Rightarrow> conn_pc \<Rightarrow> bool" where
  "active_on r p \<longleftrightarrow> (case p of Active ip q \<Rightarrow> q = r | _ \<Rightarrow> False)"

definition active_of :: "string \<Rightarrow> conn_pc \<Rightarrow> bool" where
  "active_of ip p \<longleftrightarrow> (case p of Active k q \<Rightarrow> k = ip | _ \<Rightarrow> False)"

definition count_pcs :: "(conn_pc \<Rightarrow> bool) \<Rightarrow> conn_sys \<Rightarrow> int" where
  "count_pcs P s = int (length (filter P (sy_pcs s)))"

subsection \<open>Steps by cases\<close>

lemma count_list_update:
  assumes "i < length xs"
  shows "int (length (filter P (xs[i := p])))
    = int (length (filter P xs)) - (if P (xs ! i) then 1 else 0) + (if P p then 1 else 0)"
proof -
  have "length (filter P xs)
    = length (filter P (take i xs)) + (if P (xs ! i) then 1 else 0) + length (filter P (drop (Suc i) xs))"
    by (subst id_take_nth_drop[OF assms]) simp
  moreover have "length (filter P (xs[i := p]))
    = length (filter P (take i xs)) + (if P p then 1 else 0) + length (filter P (drop (Suc i) xs))"
    by (subst upd_conv_take_nth_drop[OF assms]) simp
  ultimately show ?thesis by simp
qed

lemma count_set_pc:
  assumes "pc_at s i = Some p0"
  shows "count_pcs P (set_pc i p (s\<lparr>sy_tab := t\<rparr>))
    = count_pcs P s - (if P p0 then 1 else 0) + (if P p then 1 else 0)"
  using assms count_list_update[of i "sy_pcs s" P p] by (simp add: count_pcs_def set_pc_def pc_at_def split: if_split_asm)

text \<open>
  Every step of a request replaces its program counter and possibly the table. The rules are the steps of the source, with
  their conditions.
\<close>

inductive request_move :: "int \<Rightarrow> conn_table \<Rightarrow> conn_pc \<Rightarrow> conn_table \<Rightarrow> conn_pc \<Rightarrow> bool" for cap where
  hit: "map_of (cn_map t) ip = Some r \<Longrightarrow> request_move cap t Idle t (Got ip r)"
| miss: "map_of (cn_map t) ip = None \<Longrightarrow> request_move cap t Idle t (Missed ip)"
| alloc: "conn_alloc now t = (r, t') \<Longrightarrow> request_move cap t (Missed ip) t' (Fresh ip r)"
| store: "conn_load_or_store ip r t = (r', t') \<Longrightarrow> request_move cap t (Fresh ip r) t' (Got ip r')"
| stamp: "request_move cap t (Got ip r) (conn_stamp r now t) (Stamped ip r)"
| reject: "cap \<le> conn_count t r \<Longrightarrow> request_move cap t (Stamped ip r) t Idle"
| loaded: "conn_count t r < cap \<Longrightarrow> request_move cap t (Stamped ip r) t (Loaded ip r (conn_count t r))"
| swapped: "request_move cap t (Loaded ip r (conn_count t r)) (conn_set r (conn_count t r + 1) t) (Active ip r)"
| retry: "conn_count t r \<noteq> cur \<Longrightarrow> request_move cap t (Loaded ip r cur) t (Stamped ip r)"
| release: "request_move cap t (Active ip r) (conn_set r (conn_count t r - 1) t) (Released ip r)"
| restamp: "request_move cap t (Released ip r) (conn_stamp r now t) Idle"

lemma request_step_move:
  assumes "request_step cap e s = Some s'"
  shows "\<exists>i p t p'. pc_at s i = Some p \<and> request_move cap (sy_tab s) p t p' \<and> s' = set_pc i p' (s\<lparr>sy_tab := t\<rparr>)"
  using assms
  by (induction cap e s rule: request_step.induct)
    (fastforce simp: Let_def set_pc_def intro: request_move.intros split: option.splits conn_pc.splits if_splits prod.splits)+

lemma sweeper_step_cases:
  assumes "sweeper_step busy ttl e s = Some s'"
  obtains "sy_tab s' = sy_tab s" and "sy_pcs s' = sy_pcs s"
  | cutoff k r where "\<not> busy" and "sy_sweep s = SwOld cutoff k r" and "sy_pcs s' = sy_pcs s"
    and "sy_tab s' = (sy_tab s)\<lparr>cn_map := alist_del k (cn_map (sy_tab s))\<rparr>"
  using assms by (induction busy ttl e s rule: sweeper_step.induct)
    (auto split: option.splits sweep_pc.splits if_splits)

lemma conn_step_cases:
  assumes "conn_step quiet cap ttl e s = Some s'"
  obtains (Request) i p t p' where "pc_at s i = Some p" and "request_move cap (sy_tab s) p t p'"
    and "s' = set_pc i p' (s\<lparr>sy_tab := t\<rparr>)"
  | (Silent) "sy_tab s' = sy_tab s" and "sy_pcs s' = sy_pcs s"
  | (Delete) cutoff k r where "\<not> (quiet \<and> sweeping_busy s)" and "sy_sweep s = SwOld cutoff k r"
    and "sy_pcs s' = sy_pcs s" and "sy_tab s' = (sy_tab s)\<lparr>cn_map := alist_del k (cn_map (sy_tab s))\<rparr>"
proof (cases "\<exists>d. e = Tick d")
  case True
  then show ?thesis using assms Silent by (auto simp: conn_step_def split: if_splits)
next
  case False
  with assms have or: "request_step cap e s = Some s' \<or> sweeper_step (quiet \<and> sweeping_busy s) ttl e s = Some s'"
    by (auto simp: conn_step_def split: conn_event.splits option.splits)
  then show ?thesis
  proof
    assume "request_step cap e s = Some s'"
    from request_step_move[OF this] Request show ?thesis by blast
  next
    assume "sweeper_step (quiet \<and> sweeping_busy s) ttl e s = Some s'"
    then show ?thesis by (cases rule: sweeper_step_cases) (use Silent Delete in blast)+
  qed
qed

subsection \<open>The count of a tracker\<close>

definition pc_ok :: "int \<Rightarrow> nat \<Rightarrow> conn_pc \<Rightarrow> bool" where
  "pc_ok cap n p \<longleftrightarrow>
     (case pc_holds p of Some (ip, r) \<Rightarrow> r < n | None \<Rightarrow> True)
     \<and> (case p of Fresh ip r \<Rightarrow> r < n | Loaded ip r cur \<Rightarrow> cur < cap | _ \<Rightarrow> True)"

definition conn_inv :: "int \<Rightarrow> conn_sys \<Rightarrow> bool" where
  "conn_inv cap s \<longleftrightarrow>
     (\<forall>r. conn_count (sy_tab s) r = count_pcs (active_on r) s \<and> count_pcs (active_on r) s \<le> cap)
     \<and> (\<forall>p \<in> set (sy_pcs s). pc_ok cap (cn_next (sy_tab s)) p)
     \<and> (\<forall>k r. map_of (cn_map (sy_tab s)) k = Some r \<longrightarrow> r < cn_next (sy_tab s))"

lemma count_pcs_nonneg: "0 \<le> count_pcs P s"
  by (simp add: count_pcs_def)

lemma move_count:
  assumes "request_move cap t p t' p'" and "conn_count t (cn_next t) = 0"
  shows "conn_count t' r = conn_count t r - (if active_on r p then 1 else 0) + (if active_on r p' then 1 else 0)"
  using assms by (cases rule: request_move.cases)
    (auto simp: active_on_def conn_alloc_def conn_load_or_store_def conn_count_def[of "_\<lparr>cn_heap := _, cn_next := _\<rparr>"]
      conn_count_def[of "_\<lparr>cn_map := _\<rparr>"] conn_count_def[symmetric] split: option.splits)

lemma move_cap:
  assumes "request_move cap t p t' p'" and "pc_ok cap n p" and "0 < cap" and "\<And>q. conn_count t q \<le> cap"
  shows "conn_count t' r \<le> cap"
  using assms(1)
proof (cases rule: request_move.cases)
  case (swapped ip q)
  then show ?thesis using assms(2,4) by (simp add: pc_ok_def)
next
  case (release ip q)
  then show ?thesis using assms(4)[of q] assms(4)[of r] by simp
qed (use assms(3,4) in \<open>auto simp: conn_alloc_def conn_load_or_store_def conn_count_def conn_stamp_def split: option.splits\<close>)

lemma move_next:
  assumes "request_move cap t p t' p'"
  shows "cn_next t \<le> cn_next t'"
  using assms by (cases rule: request_move.cases)
    (auto simp: conn_alloc_def conn_load_or_store_def split: option.splits)

lemma move_pc_ok:
  assumes "request_move cap t p t' p'" and "pc_ok cap (cn_next t) p"
    and "\<And>k r. map_of (cn_map t) k = Some r \<Longrightarrow> r < cn_next t"
  shows "pc_ok cap (cn_next t') p'"
    and "map_of (cn_map t') k = Some r \<Longrightarrow> r < cn_next t'"
  using assms by (cases rule: request_move.cases;
    fastforce simp: pc_ok_def conn_alloc_def conn_load_or_store_def map_of_alist_put split: option.splits if_splits)+

lemma pc_ok_mono: "pc_ok cap n p \<Longrightarrow> n \<le> m \<Longrightarrow> pc_ok cap m p"
  by (auto simp: pc_ok_def split: option.splits conn_pc.splits)

lemma inactive_next:
  assumes "conn_inv cap s"
  shows "conn_count (sy_tab s) (cn_next (sy_tab s)) = 0"
proof -
  have "\<not> active_on (cn_next (sy_tab s)) p" if "p \<in> set (sy_pcs s)" for p
    using assms that by (fastforce simp: conn_inv_def pc_ok_def active_on_def split: conn_pc.splits)
  then have "filter (active_on (cn_next (sy_tab s))) (sy_pcs s) = []" by (simp add: filter_empty_conv)
  with assms show ?thesis by (simp add: conn_inv_def count_pcs_def)
qed

lemma conn_inv_move:
  assumes "conn_inv cap s" and "0 < cap" and "pc_at s i = Some p" and "request_move cap (sy_tab s) p t p'"
  shows "conn_inv cap (set_pc i p' (s\<lparr>sy_tab := t\<rparr>))"
proof -
  have ok: "pc_ok cap (cn_next (sy_tab s)) p"
    using assms(1,3) by (auto simp: conn_inv_def pc_at_def split: if_splits)
  have le: "conn_count (sy_tab s) q \<le> cap" for q using assms(1) by (simp add: conn_inv_def)
  have map: "r < cn_next (sy_tab s)" if "map_of (cn_map (sy_tab s)) k = Some r" for k r
    using assms(1) that unfolding conn_inv_def by blast
  have "conn_count t r = count_pcs (active_on r) (set_pc i p' (s\<lparr>sy_tab := t\<rparr>))" for r
    using move_count[OF assms(4) inactive_next[OF assms(1)], of r] count_set_pc[OF assms(3)] assms(1)
    by (simp add: conn_inv_def)
  moreover have "conn_count t r \<le> cap" for r
    using move_cap[OF assms(4) ok assms(2) le] .
  moreover have "pc_ok cap (cn_next t) q" if "q \<in> set ((sy_pcs s)[i := p'])" for q
  proof -
    from that have "q = p' \<or> q \<in> set (sy_pcs s)" using set_update_subset_insert[of "sy_pcs s" i p'] by blast
    then show ?thesis
      using move_pc_ok(1)[OF assms(4) ok map] pc_ok_mono[OF _ move_next[OF assms(4)]] assms(1)
      by (auto simp: conn_inv_def)
  qed
  moreover have "r < cn_next t" if "map_of (cn_map t) k = Some r" for k r
    using move_pc_ok(2)[OF assms(4) ok map that] .
  ultimately show ?thesis by (simp add: conn_inv_def set_pc_def)
qed

lemma conn_inv_step:
  assumes "conn_inv cap s" and "0 < cap" and "conn_step quiet cap ttl e s = Some s'"
  shows "conn_inv cap s'"
  using assms(3)
proof (cases rule: conn_step_cases)
  case (Request i p t p')
  then show ?thesis using conn_inv_move[OF assms(1,2)] by simp
next
  case Silent
  then show ?thesis using assms(1) by (simp add: conn_inv_def count_pcs_def)
next
  case (Delete cutoff k r)
  then show ?thesis
    using assms(1) by (auto simp: conn_inv_def count_pcs_def conn_count_def map_of_alist_del)
qed

lemma conn_inv_run:
  assumes "conn_inv cap s" and "0 < cap" and "conn_run quiet cap ttl es s = Some s'"
  shows "conn_inv cap s'"
  using assms
proof (induction quiet cap ttl es s rule: conn_run.induct)
  case (2 quiet cap ttl e es s)
  from "2.prems"(3) obtain s1 where "conn_step quiet cap ttl e s = Some s1" "conn_run quiet cap ttl es s1 = Some s'"
    by (auto split: option.splits)
  with "2.IH" conn_inv_step[OF "2.prems"(1,2)] "2.prems"(2) show ?case by blast
qed simp

lemma count_replicate_Idle: "\<not> P Idle \<Longrightarrow> filter P (replicate n Idle) = []"
  by (induction n) simp_all

lemma conn_inv_init: "0 < cap \<Longrightarrow> conn_inv cap (conn_init n)"
  by (simp add: conn_inv_def conn_init_def new_conn_table_def conn_count_def count_pcs_def count_replicate_Idle
      active_on_def pc_ok_def)

text \<open>
  Every tracker counts right. Under every interleaving of requests, clock ticks and sweeps, the count of a
  tracker is the number of requests that have entered and not left through it; it lies between zero and the cap;
  and once every request has left it is zero, so no slot is ever lost.
\<close>

theorem conn_tracker_exact:
  assumes "0 < cap" and "conn_run quiet cap ttl es (conn_init n) = Some s"
  shows "conn_count (sy_tab s) r = count_pcs (active_on r) s \<and> 0 \<le> conn_count (sy_tab s) r
    \<and> conn_count (sy_tab s) r \<le> cap
    \<and> (list_all (\<lambda>p. p = Idle) (sy_pcs s) \<longrightarrow> conn_count (sy_tab s) r = 0)"
proof -
  have inv: "conn_count (sy_tab s) r = count_pcs (active_on r) s" "conn_count (sy_tab s) r \<le> cap"
    using conn_inv_run[OF conn_inv_init[OF assms(1)] assms] by (simp_all add: conn_inv_def)
  have "count_pcs (active_on r) s = 0" if "list_all (\<lambda>p. p = Idle) (sy_pcs s)"
    using that by (auto simp: count_pcs_def list_all_iff active_on_def filter_empty_conv)
  with inv count_pcs_nonneg[of "active_on r" s] show ?thesis by simp
qed

theorem conn_tracker_exact_witness:
  "\<exists>s. conn_run False 2 600 [Lookup 0 ''a'', Alloc 0 0, LoadOrStore 0, Stamp 0 0, LoadCount 0, CompareSwap 0] (conn_init 2) = Some s
     \<and> conn_count (sy_tab s) 0 = 1 \<and> 1 \<le> (2 :: int)"
proof -
  let ?es = "[Lookup 0 ''a'', Alloc 0 0, LoadOrStore 0, Stamp 0 0, LoadCount 0, CompareSwap 0]"
  obtain s where s: "conn_run False 2 600 ?es (conn_init 2) = Some s" and c: "conn_count (sy_tab s) 0 = 1"
    by (simp add: conn_step_def conn_init_def pc_at_def set_pc_def conn_alloc_def conn_load_or_store_def
        conn_count_def conn_stamp_def conn_set_def new_conn_table_def numeral_2_eq_2)
  show ?thesis using conn_tracker_exact[OF _ s, of 0] s c by auto
qed

subsection \<open>The cap of an address\<close>

definition held_current :: "conn_table \<Rightarrow> conn_pc \<Rightarrow> bool" where
  "held_current t p \<longleftrightarrow> (case pc_holds p of Some (ip, r) \<Rightarrow> map_of (cn_map t) ip = Some r | None \<Rightarrow> True)"

definition quiet_inv :: "conn_sys \<Rightarrow> bool" where
  "quiet_inv s \<longleftrightarrow> (\<forall>p \<in> set (sy_pcs s). held_current (sy_tab s) p)"

lemma move_held:
  assumes "request_move cap t p t' p'" and "held_current t p"
  shows "held_current t' p'" and "held_current t q \<Longrightarrow> held_current t' q"
  using assms by (cases rule: request_move.cases;
    auto simp: held_current_def conn_alloc_def conn_load_or_store_def map_of_alist_put split: option.splits if_splits)+

lemma quiet_inv_step:
  assumes "quiet_inv s" and "conn_step True cap ttl e s = Some s'"
  shows "quiet_inv s'"
  using assms(2)
proof (cases rule: conn_step_cases)
  case (Request i p t p')
  have p: "held_current (sy_tab s) p"
    using assms(1) Request(1) by (auto simp: quiet_inv_def pc_at_def split: if_splits)
  have "q = p' \<or> q \<in> set (sy_pcs s)" if "q \<in> set ((sy_pcs s)[i := p'])" for q
    using that set_update_subset_insert[of "sy_pcs s" i p'] by blast
  then show ?thesis
    using move_held[OF Request(2) p] assms(1) by (auto simp: quiet_inv_def Request(3) set_pc_def)
next
  case Silent
  then show ?thesis using assms(1) by (simp add: quiet_inv_def)
next
  case (Delete cutoff k r)
  then have "map_option fst (pc_holds p) \<noteq> Some k" if "p \<in> set (sy_pcs s)" for p
    using that by (simp add: sweeping_busy_def list_ex_iff)
  then show ?thesis
    using assms(1) Delete(3,4) by (fastforce simp: quiet_inv_def held_current_def map_of_alist_del split: option.splits)
qed

lemma quiet_inv_run:
  "conn_run True cap ttl es s = Some s' \<Longrightarrow> quiet_inv s \<Longrightarrow> quiet_inv s'"
  by (induction es arbitrary: s) (auto split: option.splits intro: quiet_inv_step)

lemma count_pcs_mono:
  assumes "\<And>p. p \<in> set (sy_pcs s) \<Longrightarrow> P p \<Longrightarrow> Q p"
  shows "count_pcs P s \<le> count_pcs Q s"
proof -
  have "filter P (sy_pcs s) = filter P (filter Q (sy_pcs s))"
    using assms by (auto intro: filter_cong)
  then show ?thesis unfolding count_pcs_def by (metis length_filter_le of_nat_le_iff)
qed

text \<open>
  C20 (safety). The connection cap holds for every address in every run whose sweeps delete a tracker only while no request of its
  address is between looking it up and leaving: at any moment at most \<^verbatim>\<open>PerIPConns\<close> requests of the address are inside.
\<close>

theorem conn_cap_per_address:
  assumes "0 < cap" and "conn_run True cap ttl es (conn_init n) = Some s"
  shows "count_pcs (active_of ip) s \<le> cap"
proof (cases "map_of (cn_map (sy_tab s)) ip")
  case None
  have "quiet_inv s"
    using quiet_inv_run[OF assms(2)] by (simp add: quiet_inv_def conn_init_def held_current_def)
  with None have "count_pcs (active_of ip) s \<le> count_pcs (\<lambda>_. False) s"
    by (intro count_pcs_mono) (force simp: quiet_inv_def held_current_def active_of_def split: conn_pc.splits)
  then show ?thesis using assms(1) by (simp add: count_pcs_def)
next
  case (Some r)
  have "quiet_inv s"
    using quiet_inv_run[OF assms(2)] by (simp add: quiet_inv_def conn_init_def held_current_def)
  with Some have "count_pcs (active_of ip) s \<le> count_pcs (active_on r) s"
    by (intro count_pcs_mono) (force simp: quiet_inv_def held_current_def active_of_def active_on_def split: conn_pc.splits)
  also have "\<dots> \<le> cap"
    using conn_inv_run[OF conn_inv_init[OF assms(1)] assms] by (simp add: conn_inv_def)
  finally show ?thesis .
qed

lemmas conn_eval = conn_step_def conn_init_def pc_at_def set_pc_def conn_alloc_def conn_load_or_store_def
  conn_count_def conn_stamp_def conn_set_def new_conn_table_def alist_del_def sweeping_busy_def

definition enter_new :: "nat \<Rightarrow> time \<Rightarrow> conn_event list" where
  "enter_new i now = [Lookup i ''a'', Alloc i now, LoadOrStore i, Stamp i now, LoadCount i, CompareSwap i]"

theorem conn_cap_per_address_witness:
  "\<exists>s. conn_run True 1 600 (enter_new 0 0 @ [Lookup 1 ''a'', Stamp 1 0, LoadCount 1]) (conn_init 2) = Some s
     \<and> count_pcs (active_of ''a'') s \<le> 1 \<and> sy_pcs s ! 0 = Active ''a'' 0 \<and> sy_pcs s ! 1 = Idle"
proof -
  obtain s where s: "conn_run True 1 600 (enter_new 0 0 @ [Lookup 1 ''a'', Stamp 1 0, LoadCount 1]) (conn_init 2) = Some s"
    and pcs: "sy_pcs s ! 0 = Active ''a'' 0" "sy_pcs s ! 1 = Idle"
    by (simp add: enter_new_def conn_eval numeral_2_eq_2)
  show ?thesis using conn_cap_per_address[OF _ s, of "''a''"] s pcs by auto
qed

text \<open>
  Without that proviso the cap fails. With a cap of one and the default idle time, there is a run of three requests and one sweep
  after which two requests of the same address are inside: the sweeper has found the tracker idle and old, a request looks it up,
  the sweeper deletes it, the request enters through the orphaned tracker and the next one through a new tracker.
\<close>

theorem conn_cap_race:
  "\<exists>es s. conn_run False 1 (defaultIdleTTLSeconds * second) es (conn_init 3) = Some s
     \<and> count_pcs (active_of ''a'') s = 2"
proof -
  let ?T = "601 * second"
  let ?es = "enter_new 2 0 @ [Release 2, Restamp 2 0, Tick ?T, SweepBegin ?T, SweepVisit ''a'', SweepCount, SweepSeen,
    Lookup 0 ''a'', SweepDelete, Stamp 0 ?T, LoadCount 0, CompareSwap 0] @ enter_new 1 ?T"
  have "\<exists>s. conn_run False 1 (defaultIdleTTLSeconds * second) ?es (conn_init 3) = Some s
     \<and> count_pcs (active_of ''a'') s = 2"
    by (simp add: enter_new_def conn_eval numeral_3_eq_3 defaultIdleTTLSeconds_def second_def count_pcs_def active_of_def)
  then show ?thesis by blast
qed

lemma conn_run_append:
  "conn_run quiet cap ttl es s = Some s1 \<Longrightarrow> conn_run quiet cap ttl (es @ fs) s = conn_run quiet cap ttl fs s1"
  by (induction es arbitrary: s) (auto split: option.splits)

text \<open>A request that runs alone does what \<open>conn_acquire\<close> says.\<close>

lemma acquire_alone:
  assumes "pc_at s i = Some Idle" and "t1 \<le> sy_clock s" and "t2 \<le> sy_clock s"
    and "conn_acquire cap ip t1 t2 (sy_tab s) = (res, t)"
  shows "\<exists>es s'. conn_run quiet cap ttl es s = Some s' \<and> sy_tab s' = t
    \<and> pc_at s' i = Some (case res of None \<Rightarrow> Idle | Some r \<Rightarrow> Active ip r)"
proof (cases "map_of (cn_map (sy_tab s)) ip")
  case None
  have len: "i < length (sy_pcs s)" and pc: "sy_pcs s ! i = Idle"
    using assms(1) by (simp_all add: pc_at_def split: if_splits)
  let ?es = "[Lookup i ip, Alloc i t1, LoadOrStore i, Stamp i t2, LoadCount i] @ (if res = None then [] else [CompareSwap i])"
  have "\<exists>s'. conn_run quiet cap ttl ?es s = Some s' \<and> sy_tab s' = t
    \<and> pc_at s' i = Some (case res of None \<Rightarrow> Idle | Some r \<Rightarrow> Active ip r)"
    using assms(2-4) None len pc
    by (auto simp: conn_acquire_def get_conn_tracker_def conn_eval Let_def split: if_splits)
  then show ?thesis by blast
next
  case (Some r)
  have len: "i < length (sy_pcs s)" and pc: "sy_pcs s ! i = Idle"
    using assms(1) by (simp_all add: pc_at_def split: if_splits)
  let ?c = "conn_count (sy_tab s) r" and ?t = "conn_stamp r t2 (sy_tab s)"
  have run: "conn_run quiet cap ttl [Lookup i ip, Stamp i t2] s = Some (set_pc i (Stamped ip r) (s\<lparr>sy_tab := ?t\<rparr>))"
    using assms(3) Some len pc by (simp add: conn_step_def pc_at_def set_pc_def)
  have res: "(res, t) = (if cap \<le> ?c then (None, ?t) else (Some r, conn_set r (?c + 1) ?t))"
    using assms(4) Some by (auto simp: conn_acquire_def get_conn_tracker_def Let_def)
  show ?thesis
  proof (cases "cap \<le> ?c")
    case True
    then have "conn_run quiet cap ttl ([Lookup i ip, Stamp i t2] @ [LoadCount i]) s = Some (set_pc i Idle (s\<lparr>sy_tab := ?t\<rparr>))"
      using len by (subst conn_run_append[OF run]) (simp add: conn_step_def pc_at_def set_pc_def)
    then show ?thesis using res True len by (fastforce simp: set_pc_def pc_at_def)
  next
    case False
    then have "conn_run quiet cap ttl ([Lookup i ip, Stamp i t2] @ [LoadCount i, CompareSwap i]) s
        = Some (set_pc i (Active ip r) (s\<lparr>sy_tab := conn_set r (?c + 1) ?t\<rparr>))"
      using len by (subst conn_run_append[OF run]) (simp add: conn_step_def pc_at_def set_pc_def)
    then show ?thesis using res False len by (fastforce simp: set_pc_def pc_at_def)
  qed
qed

end
