(* ===== verification/Pool.thy ===== *)
theory Pool
  imports Float64 "HOL-Library.Multiset"
begin

text \<open>
  The pool of Tor processes: \<^verbatim>\<open>internal/torpool/manager.go\<close>, \<^verbatim>\<open>balancer.go\<close> and the load score of
  \<^verbatim>\<open>internal/shared/types.go\<close>. Starting a process, waiting for its bootstrap and killing it are the operating
  system's: \<open>env\<close> says for each port whether \<^verbatim>\<open>spawnInstance\<close> bootstraps (and the identity of the
  process) or fails, and the operations return the list of the instances they kill. Each mutation runs under \<^verbatim>\<open>opMu\<close>, hence
  as one step. The interface \<^verbatim>\<open>PortForgetter\<close> is the locale \<open>port_forgetter\<close>, which theory \<open>Pool_Health\<close>
  interprets with the health checker; \<^verbatim>\<open>sort.Slice\<close> is any function that returns an ordered
  permutation.
\<close>

subsection \<open>Instances and scores\<close>

record backend_info =
  bi_Port :: int
  bi_Alive :: bool
  bi_ActiveConns :: int
  bi_LatencyMs :: int
  bi_ErrorRate :: rat
  bi_Backend :: string

definition score :: "backend_info \<Rightarrow> rat" where
  "score b =
     (if \<not> bi_Alive b then max_float64
      else fl (fl (fl (of_int (wrap64 (bi_ActiveConns b * 2))) + fl (fl (of_int (bi_LatencyMs b)) / 100))
               + fl (bi_ErrorRate b * 10)))"

record tor_instance =
  ti_Proc :: nat
  ti_Port :: int
  ti_Backend :: string
  ti_Alive :: bool
  ti_ActiveConns :: int
  ti_LatencyMs :: int
  ti_ErrorCount :: int
  ti_TotalCount :: int

definition info :: "tor_instance \<Rightarrow> backend_info" where
  "info t =
     \<lparr>bi_Port = ti_Port t, bi_Alive = ti_Alive t, bi_ActiveConns = ti_ActiveConns t,
      bi_LatencyMs = ti_LatencyMs t,
      bi_ErrorRate =
        (if ti_TotalCount t > 0 then fl (fl (of_int (ti_ErrorCount t)) / fl (of_int (ti_TotalCount t))) else 0),
      bi_Backend = ti_Backend t\<rparr>"

fun pick_best_from :: "backend_info option \<Rightarrow> backend_info list \<Rightarrow> backend_info option" where
  "pick_best_from best [] = best"
| "pick_best_from best (b # bs) =
     (if \<not> bi_Alive b then pick_best_from best bs
      else if (case best of None \<Rightarrow> True | Some c \<Rightarrow> score b < score c) then pick_best_from (Some b) bs
      else pick_best_from best bs)"

definition pick_best :: "backend_info list \<Rightarrow> backend_info option" where
  "pick_best bs = pick_best_from None bs"

subsection \<open>Manager\<close>

record pool_cfg =
  pc_MinInstances :: int
  pc_MaxInstances :: int
  pc_SocksBasePort :: int
  pc_MinSuccessfulOnStart :: int
  pc_Backends :: "string list"
  pc_ScaleUpThreshold :: rat
  pc_ScaleDownThreshold :: rat
  pc_ScaleCooldown :: duration

record pool_manager =
  pm_instances :: "tor_instance list"
  pm_shuttingDown :: bool

datatype pool_error = ErrShuttingDown | CtxErr | NoInstance int | SpawnFailed int | TooFewOnStart int | SlicePanic

datatype spawn_outcome = Bootstrapped nat | SpawnError

type_synonym pool_env = "int \<Rightarrow> spawn_outcome"

definition new_manager :: pool_manager where
  "new_manager = \<lparr>pm_instances = [], pm_shuttingDown = False\<rparr>"

definition fresh_instance :: "nat \<Rightarrow> int \<Rightarrow> string \<Rightarrow> tor_instance" where
  "fresh_instance pid port backend =
     \<lparr>ti_Proc = pid, ti_Port = port, ti_Backend = backend, ti_Alive = True, ti_ActiveConns = 0,
      ti_LatencyMs = 0, ti_ErrorCount = 0, ti_TotalCount = 0\<rparr>"

definition spawn_instance :: "pool_env \<Rightarrow> int \<Rightarrow> string \<Rightarrow> pool_manager \<Rightarrow> pool_error option \<times> pool_manager" where
  "spawn_instance env port backend m =
     (case env port of
        SpawnError \<Rightarrow> (Some (SpawnFailed port), m)
      | Bootstrapped pid \<Rightarrow> (None, m\<lparr>pm_instances := pm_instances m @ [fresh_instance pid port backend]\<rparr>))"

text \<open>
  \<^verbatim>\<open>Start\<close>, after the checks of the binary and the data directory: the spawns run in parallel and are collected; \<open>ctxErr\<close>
  says whether the context was cancelled by the time they have finished. \<^verbatim>\<open>spawnInstanceReturning\<close> takes each new
  instance off the list again, so that only the final append counts.
\<close>

definition backend_at :: "pool_cfg \<Rightarrow> int \<Rightarrow> string" where
  "backend_at cfg i =
     (if pc_Backends cfg \<noteq> [] then pc_Backends cfg ! nat (i mod int (length (pc_Backends cfg))) else [])"

definition start_one :: "pool_cfg \<Rightarrow> pool_env \<Rightarrow> int \<Rightarrow> tor_instance option" where
  "start_one cfg env i =
     (let port = pc_SocksBasePort cfg + i in
      case env port of
        SpawnError \<Rightarrow> None
      | Bootstrapped pid \<Rightarrow> Some (fresh_instance pid port (backend_at cfg i)))"

definition start_results :: "pool_cfg \<Rightarrow> pool_env \<Rightarrow> tor_instance list" where
  "start_results cfg env = List.map_filter (start_one cfg env) [0..pc_MinInstances cfg - 1]"

definition pool_start ::
  "pool_cfg \<Rightarrow> pool_env \<Rightarrow> bool \<Rightarrow> pool_manager \<Rightarrow> pool_error option \<times> pool_manager \<times> tor_instance list" where
  "pool_start cfg env ctxErr m =
     (let target = pc_MinInstances cfg in
      if target \<le> 0 then (None, m, [])
      else
        (let successes = start_results cfg env;
             minOK0 = (if pc_MinSuccessfulOnStart cfg \<le> 0 then 1 else pc_MinSuccessfulOnStart cfg);
             minOK = (if minOK0 > target then target else minOK0)
         in if ctxErr then (Some CtxErr, m, successes)
            else if int (length successes) < minOK then
              (Some (TooFewOnStart (int (length successes))), m, successes)
            else (None, m\<lparr>pm_instances := pm_instances m @ sort_key ti_Port successes\<rparr>, [])))"

definition alive_instances :: "pool_manager \<Rightarrow> tor_instance list" where
  "alive_instances m = filter ti_Alive (pm_instances m)"

definition pool_count :: "pool_manager \<Rightarrow> int \<times> int" where
  "pool_count m = (int (length (pm_instances m)), int (length (filter ti_Alive (pm_instances m))))"

text \<open>\<^verbatim>\<open>for usedPorts[port] { port++ }\<close>\<close>

function free_port :: "int list \<Rightarrow> int \<Rightarrow> int" where
  "free_port used port = (if port \<in> set used then free_port used (port + 1) else port)"
  by pat_completeness auto
termination
proof (relation "measure (\<lambda>(used, port). card {p \<in> set used. port \<le> p})", goal_cases)
  case (2 used port)
  then have "port \<in> {p \<in> set used. port \<le> p}" "port \<notin> {p \<in> set used. port + 1 \<le> p}" by auto
  moreover have "{p \<in> set used. port + 1 \<le> p} \<subseteq> {p \<in> set used. port \<le> p}" by auto
  ultimately have "{p \<in> set used. port + 1 \<le> p} \<subset> {p \<in> set used. port \<le> p}" by blast
  then show ?case by (auto intro: psubset_card_mono)
qed simp

declare free_port.simps [simp del]

primrec scale_up :: "nat \<Rightarrow> pool_cfg \<Rightarrow> pool_env \<Rightarrow> int list \<Rightarrow> pool_manager \<Rightarrow> pool_error option \<times> pool_manager" where
  "scale_up 0 cfg env used m = (None, m)"
| "scale_up (Suc n) cfg env used m =
     (let port = free_port used (pc_SocksBasePort cfg);
          backend = backend_at cfg port
      in case spawn_instance env port backend m of
           (Some e, m1) \<Rightarrow> (Some e, m1)
         | (None, m1) \<Rightarrow> scale_up n cfg env (port # used) m1)"

definition clamp_target :: "pool_cfg \<Rightarrow> int \<Rightarrow> int" where
  "clamp_target cfg target =
     (let t = (if target < pc_MinInstances cfg then pc_MinInstances cfg else target)
      in if pc_MaxInstances cfg > 0 \<and> t > pc_MaxInstances cfg then pc_MaxInstances cfg else t)"

definition scale_to_locked ::
  "pool_cfg \<Rightarrow> (tor_instance list \<Rightarrow> tor_instance list) \<Rightarrow> (int \<Rightarrow> 'h \<Rightarrow> 'h) option \<Rightarrow> pool_env \<Rightarrow> int \<Rightarrow>
     pool_manager \<Rightarrow> 'h \<Rightarrow> pool_error option \<times> pool_manager \<times> 'h \<times> tor_instance list" where
  "scale_to_locked cfg srt forget env target0 m h =
     (let target = clamp_target cfg target0;
          current = int (length (pm_instances m))
      in if target < current then
           (if target < 0 then (Some SlicePanic, m, h, [])
            else
              (let sorted = srt (pm_instances m);
                   toKill = drop (nat target) sorted;
                   h' = (case forget of None \<Rightarrow> h | Some fg \<Rightarrow> fold (\<lambda>inst. fg (ti_Port inst)) toKill h)
               in (None, m\<lparr>pm_instances := take (nat target) sorted\<rparr>, h', toKill)))
         else if target > current then
           (case scale_up (nat (target - current)) cfg env (map ti_Port (pm_instances m)) m of
              (e, m') \<Rightarrow> (e, m', h, []))
         else (None, m, h, []))"

definition do_mutation :: "bool \<Rightarrow> pool_manager \<Rightarrow> (pool_error \<Rightarrow> 'r) \<Rightarrow> 'r \<Rightarrow> 'r" where
  "do_mutation ctxErr m refuse body =
     (if pm_shuttingDown m then refuse ErrShuttingDown else if ctxErr then refuse CtxErr else body)"

declare do_mutation_def [simp]

definition scale_to ::
  "pool_cfg \<Rightarrow> (tor_instance list \<Rightarrow> tor_instance list) \<Rightarrow> (int \<Rightarrow> 'h \<Rightarrow> 'h) option \<Rightarrow> pool_env \<Rightarrow> bool \<Rightarrow> int \<Rightarrow>
     pool_manager \<Rightarrow> 'h \<Rightarrow> pool_error option \<times> pool_manager \<times> 'h \<times> tor_instance list" where
  "scale_to cfg srt forget env ctxErr target m h =
     do_mutation ctxErr m (\<lambda>e. (Some e, m, h, [])) (scale_to_locked cfg srt forget env target m h)"

text \<open>Removal of the first instance on a port: \<^verbatim>\<open>append(instances[:idx], instances[idx+1:]...)\<close>.\<close>

fun remove_port :: "int \<Rightarrow> tor_instance list \<Rightarrow> (tor_instance \<times> tor_instance list) option" where
  "remove_port port [] = None"
| "remove_port port (t # ts) =
     (if ti_Port t = port then Some (t, ts)
      else map_option (\<lambda>(d, r). (d, t # r)) (remove_port port ts))"

definition replace_instance ::
  "pool_env \<Rightarrow> bool \<Rightarrow> int \<Rightarrow> pool_manager \<Rightarrow> pool_error option \<times> pool_manager \<times> tor_instance list" where
  "replace_instance env ctxErr port m =
     do_mutation ctxErr m (\<lambda>e. (Some e, m, []))
        (case remove_port port (pm_instances m) of
           None \<Rightarrow> (Some (NoInstance port), m, [])
         | Some (dead, rest) \<Rightarrow>
             (case spawn_instance env port (ti_Backend dead) (m\<lparr>pm_instances := rest\<rparr>) of
                (e, m') \<Rightarrow> (e, m', [dead])))"

definition pool_shutdown :: "pool_manager \<Rightarrow> pool_manager \<times> tor_instance list" where
  "pool_shutdown m = (\<lparr>pm_instances = [], pm_shuttingDown = True\<rparr>, pm_instances m)"

subsection \<open>Scaler\<close>

definition scale_direction :: "rat \<Rightarrow> rat \<Rightarrow> rat \<Rightarrow> int" where
  "scale_direction load upThreshold downThreshold =
     (if load > upThreshold then 1 else if load < downThreshold then - 1 else 0)"

definition scale_step :: "rat \<Rightarrow> int" where
  "scale_step load = (if load > fl (9 / 10) then 3 else 1)"

definition pool_load :: "pool_manager \<Rightarrow> rat" where
  "pool_load m =
     fl (fl (of_int (fold (\<lambda>inst s. wrap64 (s + ti_ActiveConns inst)) (pm_instances m) 0))
         / fl (of_int (snd (pool_count m) * 70)))"

text \<open>The target that \<^verbatim>\<open>evaluate\<close> decides on; \<open>None\<close> where it returns without scaling.\<close>

definition scaler_target :: "pool_cfg \<Rightarrow> time \<Rightarrow> time \<Rightarrow> pool_manager \<Rightarrow> int option" where
  "scaler_target cfg lastScale now m =
     (let cooldown = (if pc_ScaleCooldown cfg = 0 then 60 * second else pc_ScaleCooldown cfg);
          (total, alive) = pool_count m
      in if lastScale \<noteq> zero_time \<and> time_sub now lastScale < cooldown then None
         else if alive = 0 then None
         else
           (let load = pool_load m;
                up = (if pc_ScaleUpThreshold cfg = 0 then fl (8 / 10) else pc_ScaleUpThreshold cfg);
                down = (if pc_ScaleDownThreshold cfg = 0 then fl (2 / 10) else pc_ScaleDownThreshold cfg);
                dir = scale_direction load up down
            in if dir = 0 then None
               else
                 (let step = scale_step load;
                      newTarget = (if dir = 1 then total + step
                                   else if total - step < pc_MinInstances cfg then pc_MinInstances cfg
                                   else total - step)
                  in if newTarget = total then None else Some newTarget)))"

definition scaler_evaluate ::
  "pool_cfg \<Rightarrow> (tor_instance list \<Rightarrow> tor_instance list) \<Rightarrow> (int \<Rightarrow> 'h \<Rightarrow> 'h) option \<Rightarrow> pool_env \<Rightarrow> bool \<Rightarrow>
     time \<Rightarrow> time \<Rightarrow> time \<Rightarrow> pool_manager \<Rightarrow> 'h \<Rightarrow> time \<times> pool_manager \<times> 'h \<times> tor_instance list" where
  "scaler_evaluate cfg srt forget env ctxErr lastScale now now2 m h =
     (case scaler_target cfg lastScale now m of
        None \<Rightarrow> (lastScale, m, h, [])
      | Some newTarget \<Rightarrow>
          (case scale_to cfg srt forget env ctxErr newTarget m h of
             (Some e, m', h', killed) \<Rightarrow> (lastScale, m', h', killed)
           | (None, m', h', killed) \<Rightarrow> (now2, m', h', killed)))"

subsection \<open>Picking the best backend\<close>

lemma pick_best_from_spec:
  "pick_best_from best bs = Some b \<Longrightarrow>
     (best = Some b \<or> b \<in> set bs \<and> bi_Alive b)
     \<and> (\<forall>c. best = Some c \<longrightarrow> score b \<le> score c)
     \<and> (\<forall>c\<in>set bs. bi_Alive c \<longrightarrow> score b \<le> score c)"
proof (induction best bs rule: pick_best_from.induct)
  case (2 best c bs)
  show ?case
  proof (cases "\<not> bi_Alive c")
    case True
    with 2 show ?thesis by auto
  next
    case alive: False
    show ?thesis
    proof (cases "case best of None \<Rightarrow> True | Some d \<Rightarrow> score c < score d")
      case True
      then have "pick_best_from (Some c) bs = Some b" using "2.prems" alive by simp
      from "2.IH"(2)[OF _ True this] alive True show ?thesis
        by (auto split: option.splits)
    next
      case False
      then have "pick_best_from best bs = Some b" using "2.prems" alive by simp
      from "2.IH"(3)[OF _ False this] alive False show ?thesis
        by (auto split: option.splits)
    qed
  qed
qed simp

lemma pick_best_from_None:
  "pick_best_from best bs = None \<longleftrightarrow> best = None \<and> list_all (\<lambda>b. \<not> bi_Alive b) bs"
  by (induction best bs rule: pick_best_from.induct) (auto split: option.splits)

text \<open>
  \<^verbatim>\<open>pickBest\<close> returns an alive backend of the list whose score is minimal among the alive ones, and nil
  exactly when none is alive.
\<close>

theorem pick_best_minimal:
  shows "pick_best bs = None \<longleftrightarrow> (\<forall>b\<in>set bs. \<not> bi_Alive b)"
    and "pick_best bs = Some b \<Longrightarrow> b \<in> set bs \<and> bi_Alive b \<and> (\<forall>c\<in>set bs. bi_Alive c \<longrightarrow> score b \<le> score c)"
  using pick_best_from_spec[of None bs b]
  by (auto simp: pick_best_def pick_best_from_None list_all_iff)

theorem pick_best_minimal_witness:
  "\<exists>b. pick_best [\<lparr>bi_Port = 1, bi_Alive = False, bi_ActiveConns = 0, bi_LatencyMs = 0, bi_ErrorRate = 0, bi_Backend = []\<rparr>,
       \<lparr>bi_Port = 2, bi_Alive = True, bi_ActiveConns = 0, bi_LatencyMs = 0, bi_ErrorRate = 0, bi_Backend = []\<rparr>] = Some b
     \<and> bi_Alive b"
proof -
  let ?bs = "[\<lparr>bi_Port = 1, bi_Alive = False, bi_ActiveConns = 0, bi_LatencyMs = 0, bi_ErrorRate = 0, bi_Backend = []\<rparr>,
       \<lparr>bi_Port = 2, bi_Alive = True, bi_ActiveConns = 0, bi_LatencyMs = 0, bi_ErrorRate = 0, bi_Backend = []\<rparr>]"
  have "pick_best ?bs \<noteq> None" unfolding pick_best_minimal(1) by simp
  then obtain b where b: "pick_best ?bs = Some b" by blast
  then show ?thesis using pick_best_minimal(2)[OF b] by blast
qed

subsection \<open>Scaling\<close>

definition pool_sorts :: "(tor_instance list \<Rightarrow> tor_instance list) \<Rightarrow> bool" where
  "pool_sorts srt \<longleftrightarrow> (\<forall>xs. mset (srt xs) = mset xs \<and> sorted (map (\<lambda>t. score (info t)) (srt xs)))"

definition pool_inv :: "pool_manager \<Rightarrow> bool" where
  "pool_inv m \<longleftrightarrow> distinct (map ti_Port (pm_instances m))"

lemma free_port_unused: "free_port used port \<notin> set used"
  by (induction used port rule: free_port.induct) (subst free_port.simps, simp)

lemma free_port_lower: "port \<le> free_port used port"
  by (induction used port rule: free_port.induct) (subst free_port.simps, force)

lemma free_port_least: "port \<le> q \<Longrightarrow> q < free_port used port \<Longrightarrow> q \<in> set used"
proof (induction used port rule: free_port.induct)
  case (1 used port)
  show ?case
  proof (cases "port \<in> set used")
    case True
    then have "free_port used port = free_port used (port + 1)" by (subst free_port.simps) simp
    with 1 True show ?thesis by (cases "q = port") auto
  next
    case False
    then have "free_port used port = port" by (subst free_port.simps) simp
    with 1 show ?thesis by simp
  qed
qed

lemma spawn_instance_cases:
  obtains (ok) pid where "env port = Bootstrapped pid"
      "spawn_instance env port be m = (None, m\<lparr>pm_instances := pm_instances m @ [fresh_instance pid port be]\<rparr>)"
    | (failed) "spawn_instance env port be m = (Some (SpawnFailed port), m)"
  by (cases "env port") (auto simp: spawn_instance_def)

text \<open>What a scale-up adds: instances on ports that were free, the least ones from the base port on.\<close>

lemma scale_up_spec:
  "pool_inv m \<Longrightarrow> ti_Port ` set (pm_instances m) \<subseteq> set used \<Longrightarrow> scale_up n cfg env used m = (e, m') \<Longrightarrow>
     \<exists>new. m' = m\<lparr>pm_instances := pm_instances m @ new\<rparr> \<and> pool_inv m'
       \<and> ti_Port ` set new \<inter> set used = {}
       \<and> list_all (\<lambda>t. pc_SocksBasePort cfg \<le> ti_Port t \<and> ti_Alive t) new
       \<and> length new \<le> n \<and> (e = None \<longrightarrow> length new = n)"
proof (induction n arbitrary: used m)
  case 0
  then show ?case by (intro exI[of _ "[]"]) simp
next
  case (Suc n)
  let ?port = "free_port used (pc_SocksBasePort cfg)"
  let ?be = "backend_at cfg ?port"
  have port: "?port \<notin> set used" "pc_SocksBasePort cfg \<le> ?port"
    using free_port_unused free_port_lower by auto
  show ?case
  proof (cases rule: spawn_instance_cases[of env ?port ?be m])
    case (ok pid)
    let ?t = "fresh_instance pid ?port ?be"
    let ?m1 = "m\<lparr>pm_instances := pm_instances m @ [?t]\<rparr>"
    have "?port \<notin> ti_Port ` set (pm_instances m)" using Suc.prems(2) port(1) by blast
    then have "pool_inv ?m1" using Suc.prems(1) by (simp add: pool_inv_def fresh_instance_def)
    moreover have "ti_Port ` set (pm_instances ?m1) \<subseteq> set (?port # used)"
      using Suc.prems(2) by (auto simp: fresh_instance_def)
    moreover have "scale_up n cfg env (?port # used) ?m1 = (e, m')"
      using Suc.prems(3) ok(2) by (simp add: Let_def)
    ultimately obtain new where new: "m' = ?m1\<lparr>pm_instances := pm_instances ?m1 @ new\<rparr>" "pool_inv m'"
      "ti_Port ` set new \<inter> set (?port # used) = {}"
      "list_all (\<lambda>t. pc_SocksBasePort cfg \<le> ti_Port t \<and> ti_Alive t) new"
      "length new \<le> n \<and> (e = None \<longrightarrow> length new = n)"
      using Suc.IH[of ?m1 "?port # used"] by blast
    have "ti_Port ?t = ?port" "ti_Alive ?t" by (simp_all add: fresh_instance_def)
    with new port show ?thesis by (intro exI[of _ "?t # new"]) auto
  next
    case failed
    then have "e \<noteq> None" "m' = m" using Suc.prems(3) by (auto simp: Let_def)
    then show ?thesis using Suc.prems(1) by (intro exI[of _ "[]"]) simp
  qed
qed

lemma clamp_target_bounds:
  assumes "pc_MaxInstances cfg \<le> 0 \<or> pc_MinInstances cfg \<le> pc_MaxInstances cfg"
  shows "pc_MinInstances cfg \<le> clamp_target cfg t"
    and "0 < pc_MaxInstances cfg \<Longrightarrow> clamp_target cfg t \<le> pc_MaxInstances cfg"
  using assms by (auto simp: clamp_target_def Let_def)

lemma pool_sortsD:
  assumes "pool_sorts srt"
  shows "set (srt xs) = set xs" and "length (srt xs) = length xs"
    and "mset (map ti_Port (srt xs)) = mset (map ti_Port xs)"
    and "sorted (map (\<lambda>t. score (info t)) (srt xs))"
  using assms unfolding pool_sorts_def by (auto dest: mset_eq_setD mset_eq_length)

text \<open>Counters as the 64-bit atomics hold them; a probe counts an error only together with a probe.\<close>

definition counters_ok :: "tor_instance \<Rightarrow> bool" where
  "counters_ok t \<longleftrightarrow>
     \<bar>ti_ActiveConns t\<bar> \<le> 2 ^ 63 \<and> \<bar>ti_LatencyMs t\<bar> \<le> 2 ^ 63 \<and> \<bar>ti_ErrorCount t\<bar> \<le> 2 ^ 63"

lemma of_int_abs_le: "\<bar>n\<bar> \<le> 2 ^ 63 \<Longrightarrow> \<bar>rat_of_int n\<bar> \<le> 2 ^ 63"
  by (metis of_int_abs of_int_le_iff of_int_numeral of_int_power)

lemma error_rate_bound:
  assumes "counters_ok t"
  shows "\<bar>bi_ErrorRate (info t)\<bar> \<le> 2 ^ 68"
proof (cases "ti_TotalCount t > 0")
  case True
  have e: "\<bar>fl (of_int (ti_ErrorCount t))\<bar> \<le> 2 ^ 64 + 1"
    using fl_abs_bound[of "of_int (ti_ErrorCount t)"] of_int_abs_le[of "ti_ErrorCount t"] assms
    by (simp add: counters_ok_def)
  have "(1 :: rat) \<le> of_int (ti_TotalCount t)" using True by simp
  then have d: "1 / 2 \<le> fl (of_int (ti_TotalCount t))"
    using fl_lower[of "of_int (ti_TotalCount t)"]
    by simp
  have "\<bar>fl (of_int (ti_ErrorCount t)) / fl (of_int (ti_TotalCount t))\<bar> \<le> (2 ^ 64 + 1) / (1 / 2)"
    unfolding abs_divide using e d by (intro frac_le) auto
  then show ?thesis
    using True fl_abs_bound[of "fl (of_int (ti_ErrorCount t)) / fl (of_int (ti_TotalCount t))"]
    by (simp add: info_def)
qed (simp add: info_def)

lemma score_alive_less:
  assumes "ti_Alive t" and "counters_ok t"
  shows "score (info t) < max_float64"
proof -
  let ?a = "fl (of_int (wrap64 (ti_ActiveConns t * 2)))" and ?l = "fl (fl (of_int (ti_LatencyMs t)) / 100)"
    and ?r = "fl (bi_ErrorRate (info t) * 10)"
  have "\<bar>wrap64 (ti_ActiveConns t * 2)\<bar> \<le> 2 ^ 63"
    using wrap64_range[of "ti_ActiveConns t * 2"] by (simp add: min_int64_def max_int64_def abs_le_iff)
  then have a: "\<bar>?a\<bar> \<le> 2 ^ 64 + 1"
    using fl_abs_bound[of "of_int (wrap64 (ti_ActiveConns t * 2))"] of_int_abs_le by fastforce
  have "\<bar>fl (of_int (ti_LatencyMs t))\<bar> \<le> 2 ^ 64 + 1"
    using fl_abs_bound[of "of_int (ti_LatencyMs t)"] of_int_abs_le[of "ti_LatencyMs t"] assms(2)
    by (simp add: counters_ok_def)
  then have l: "\<bar>?l\<bar> \<le> 2 ^ 64"
    using fl_abs_bound[of "fl (of_int (ti_LatencyMs t)) / 100"] by simp
  have r: "\<bar>?r\<bar> \<le> 2 ^ 73"
    using fl_abs_bound[of "bi_ErrorRate (info t) * 10"] error_rate_bound[OF assms(2)] by simp
  have "\<bar>fl (?a + ?l)\<bar> \<le> 2 ^ 68"
    using fl_add_bound[OF a l] by simp
  then have "\<bar>fl (fl (?a + ?l) + ?r)\<bar> \<le> 2 ^ 76"
    using fl_add_bound[OF _ r] by fastforce
  moreover have "(2 :: rat) ^ 76 < max_float64"
  proof -
    have "(2 :: rat) ^ 76 < 2 ^ 1023" by (rule power_strict_increasing) simp_all
    also have "2 ^ 1023 = 1 * (2 :: rat) ^ 1023" by (simp only: mult_1)
    also have "\<dots> \<le> (2 - 1 / 2 ^ 52 :: rat) * 2 ^ 1023" by (rule mult_right_mono) simp_all
    finally show ?thesis unfolding max_float64_def by (simp only: mult_1)
  qed
  ultimately show ?thesis using assms(1) by (simp add: score_def info_def)
qed

lemma scale_to_active:
  "\<not> pm_shuttingDown m \<Longrightarrow> \<not> ctxErr \<Longrightarrow>
     scale_to cfg srt forget env ctxErr target m h = scale_to_locked cfg srt forget env target m h"
  by (simp add: scale_to_def)

lemma pool_inv_sorted:
  assumes "pool_sorts srt" and "pool_inv m"
  shows "distinct (map ti_Port (srt (pm_instances m)))"
  using mset_eq_imp_distinct_iff[OF pool_sortsD(3)[OF assms(1)]] assms(2) by (simp add: pool_inv_def)

lemma scale_to_locked_inv:
  assumes "pool_sorts srt" and "pool_inv m" and "scale_to_locked cfg srt forget env target m h = (e, m', h', killed)"
  shows "pool_inv m'" and "pm_shuttingDown m' = pm_shuttingDown m"
    and "e = None \<Longrightarrow> int (length (pm_instances m')) = clamp_target cfg target"
proof -
  let ?t = "clamp_target cfg target"
  have "pool_inv m' \<and> pm_shuttingDown m' = pm_shuttingDown m
      \<and> (e = None \<longrightarrow> int (length (pm_instances m')) = ?t)"
  proof (cases "?t < int (length (pm_instances m))")
    case down: True
    have "distinct (map ti_Port (take k (srt (pm_instances m))))" for k
      using pool_inv_sorted[OF assms(1,2)] by (simp add: take_map[symmetric])
    then show ?thesis
      using down assms(3) pool_sortsD(2)[OF assms(1), of "pm_instances m"] assms(2)
      by (auto simp: scale_to_locked_def Let_def pool_inv_def split: if_splits)
  next
    case no: False
    show ?thesis
    proof (cases "int (length (pm_instances m)) < ?t")
      case up: True
      then obtain new where "m' = m\<lparr>pm_instances := pm_instances m @ new\<rparr>" "pool_inv m'"
        "e = None \<longrightarrow> length new = nat (?t - int (length (pm_instances m)))"
        using assms(2,3) scale_up_spec[OF assms(2), of "map ti_Port (pm_instances m)" _ cfg env e m']
        by (fastforce simp: scale_to_locked_def Let_def split: prod.splits)
      with up show ?thesis by auto
    next
      case False
      with no assms(2,3) show ?thesis by (auto simp: scale_to_locked_def Let_def)
    qed
  qed
  then show "pool_inv m'" "pm_shuttingDown m' = pm_shuttingDown m"
    "e = None \<Longrightarrow> int (length (pm_instances m')) = ?t" by auto
qed

lemma scale_up_succeeds:
  "(\<And>p. env p \<noteq> SpawnError) \<Longrightarrow> fst (scale_up n cfg env used m) = None"
proof (induction n arbitrary: used m)
  case (Suc n)
  show ?case
    by (cases rule: spawn_instance_cases[of env "free_port used (pc_SocksBasePort cfg)"
          "backend_at cfg (free_port used (pc_SocksBasePort cfg))" m])
       (use Suc in \<open>auto simp: Let_def spawn_instance_def split: spawn_outcome.splits\<close>)
qed simp

lemma scale_to_locked_ok:
  assumes "\<And>p. env p \<noteq> SpawnError" and "0 \<le> clamp_target cfg target"
  shows "fst (scale_to_locked cfg srt forget env target m h) = None"
  using assms(2) scale_up_succeeds[OF assms(1)] by (simp add: scale_to_locked_def Let_def case_prod_unfold)

lemma scale_to_reaches_target_parts:
  assumes "pool_sorts srt" and "pool_inv m" and "0 \<le> pc_MinInstances cfg"
    and "pc_MaxInstances cfg \<le> 0 \<or> pc_MinInstances cfg \<le> pc_MaxInstances cfg"
    and "scale_to cfg srt forget env ctxErr target m h = (e, m', h', killed)"
  shows "e = None \<Longrightarrow> int (length (pm_instances m')) = clamp_target cfg target"
    and "pc_MinInstances cfg \<le> clamp_target cfg target"
    and "0 < pc_MaxInstances cfg \<Longrightarrow> clamp_target cfg target \<le> pc_MaxInstances cfg"
    and "distinct (map ti_Port (pm_instances m'))"
    and "\<not> pm_shuttingDown m \<Longrightarrow> \<not> ctxErr \<Longrightarrow> (\<And>p. env p \<noteq> SpawnError) \<Longrightarrow> e = None"
proof -
  note locked = scale_to_locked_inv[OF assms(1,2)]
  show "pc_MinInstances cfg \<le> clamp_target cfg target"
    and "0 < pc_MaxInstances cfg \<Longrightarrow> clamp_target cfg target \<le> pc_MaxInstances cfg"
    using clamp_target_bounds[OF assms(4)] by auto
  show "int (length (pm_instances m')) = clamp_target cfg target" if "e = None"
    using assms(5) locked(3) that by (auto simp: scale_to_def split: if_splits)
  show "distinct (map ti_Port (pm_instances m'))"
    using assms(2,5) locked(1) by (auto simp: scale_to_def pool_inv_def split: if_splits)
  show "e = None" if "\<not> pm_shuttingDown m" "\<not> ctxErr" "\<And>p. env p \<noteq> SpawnError"
  proof -
    have "fst (scale_to_locked cfg srt forget env target m h) = None"
      using that(3) assms(3) clamp_target_bounds(1)[OF assms(4), of target] by (intro scale_to_locked_ok) auto
    then show ?thesis using assms(5) by (simp add: scale_to_active[OF that(1,2)])
  qed
qed

text \<open>
  C14 (functional). With a sane configuration, a \<^verbatim>\<open>ScaleTo\<close> that returns no error leaves exactly the requested number of
  instances, clamped to the configured minimum and maximum, all on different ports; and it does return no
  error when the pool is not shutting down, the context is alive and every spawn bootstraps.
\<close>

theorem scale_to_reaches_target:
  assumes "pool_sorts srt" and "pool_inv m" and "0 \<le> pc_MinInstances cfg"
    and "pc_MaxInstances cfg \<le> 0 \<or> pc_MinInstances cfg \<le> pc_MaxInstances cfg"
    and "scale_to cfg srt forget env ctxErr target m h = (e, m', h', killed)"
  shows "(e = None \<longrightarrow> int (length (pm_instances m')) = clamp_target cfg target)
    \<and> (pc_MinInstances cfg \<le> clamp_target cfg target)
    \<and> (0 < pc_MaxInstances cfg \<longrightarrow> clamp_target cfg target \<le> pc_MaxInstances cfg)
    \<and> (distinct (map ti_Port (pm_instances m')))
    \<and> (\<not> pm_shuttingDown m \<longrightarrow> \<not> ctxErr \<longrightarrow> (\<forall>p. env p \<noteq> SpawnError) \<longrightarrow> e = None)"
  using scale_to_reaches_target_parts[OF assms] by blast

definition sort_by_score :: "tor_instance list \<Rightarrow> tor_instance list" where
  "sort_by_score = sort_key (\<lambda>t. score (info t))"

lemma pool_sorts_sort_by_score: "pool_sorts sort_by_score"
  by (simp add: pool_sorts_def sort_by_score_def)

theorem scale_to_reaches_target_witness:
  "let cfg = \<lparr>pc_MinInstances = 1, pc_MaxInstances = 4, pc_SocksBasePort = 9050, pc_MinSuccessfulOnStart = 1,
               pc_Backends = [''b''], pc_ScaleUpThreshold = 0, pc_ScaleDownThreshold = 0, pc_ScaleCooldown = 0\<rparr>;
       r = scale_to cfg sort_by_score None (\<lambda>p. Bootstrapped (nat p)) False 9 new_manager ()
   in fst r = None \<and> int (length (pm_instances (fst (snd r)))) = 4"
proof -
  let ?cfg = "\<lparr>pc_MinInstances = 1, pc_MaxInstances = 4, pc_SocksBasePort = 9050, pc_MinSuccessfulOnStart = 1,
               pc_Backends = [''b''], pc_ScaleUpThreshold = 0, pc_ScaleDownThreshold = 0, pc_ScaleCooldown = 0\<rparr>"
  let ?env = "\<lambda>p :: int. Bootstrapped (nat p)"
  obtain e m' h' k where r: "scale_to ?cfg sort_by_score None ?env False 9 new_manager () = (e, m', h', k)"
    by (cases "scale_to ?cfg sort_by_score None ?env False 9 new_manager ()") auto
  note t = scale_to_reaches_target[OF pool_sorts_sort_by_score _ _ _ r]
  have "e = None" using t by (simp add: pool_inv_def new_manager_def)
  moreover from this have "int (length (pm_instances m')) = 4"
    using t by (simp add: pool_inv_def new_manager_def clamp_target_def)
  ultimately show ?thesis using r by simp
qed

lemma scale_down_keeps_best_parts:
  assumes "pool_sorts srt" and "list_all counters_ok (pm_instances m)"
    and "\<not> pm_shuttingDown m" and "0 \<le> clamp_target cfg target"
    and "clamp_target cfg target < int (length (pm_instances m))"
    and "scale_to cfg srt forget env False target m h = (e, m', h', killed)"
  shows "e = None" and "mset (pm_instances m) = mset (pm_instances m') + mset killed"
    and "t \<in> set (pm_instances m') \<Longrightarrow> k \<in> set killed \<Longrightarrow> score (info t) \<le> score (info k)"
    and "t \<in> set (pm_instances m') \<Longrightarrow> k \<in> set killed \<Longrightarrow> ti_Alive k \<Longrightarrow> ti_Alive t"
proof -
  let ?s = "srt (pm_instances m)" and ?n = "nat (clamp_target cfg target)"
  have r: "e = None" "pm_instances m' = take ?n ?s" "killed = drop ?n ?s"
    using assms(3-6) by (auto simp: scale_to_def scale_to_locked_def Let_def)
  show "e = None" by (rule r(1))
  have "mset (take ?n ?s) + mset (drop ?n ?s) = mset ?s" by (metis append_take_drop_id mset_append)
  then show "mset (pm_instances m) = mset (pm_instances m') + mset killed"
    using assms(1) by (simp add: r pool_sorts_def)
  have "sorted (map (\<lambda>t. score (info t)) (take ?n ?s) @ map (\<lambda>t. score (info t)) (drop ?n ?s))"
    using pool_sortsD(4)[OF assms(1), of "pm_instances m"] by (simp flip: map_append)
  then have le: "score (info t) \<le> score (info k)" if "t \<in> set (pm_instances m')" "k \<in> set killed" for t k
    using that by (auto simp: sorted_append r)
  show "score (info t) \<le> score (info k)" if "t \<in> set (pm_instances m')" "k \<in> set killed"
    using le that .
  show "ti_Alive t" if tk: "t \<in> set (pm_instances m')" "k \<in> set killed" "ti_Alive k"
  proof (rule ccontr)
    assume "\<not> ti_Alive t"
    then have "score (info t) = max_float64" by (simp add: score_def info_def)
    moreover have "k \<in> set (pm_instances m)"
      using tk(2) pool_sortsD(1)[OF assms(1)] set_drop_subset[of ?n ?s] by (auto simp: r)
    then have "score (info k) < max_float64"
      using score_alive_less[OF tk(3)] assms(2) by (simp add: list_all_iff)
    ultimately show False using le[OF tk(1,2)] by simp
  qed
qed

text \<open>
  A scale-down keeps the best instances: the old pool is exactly what it keeps and what it kills, no kept instance
  scores worse than a killed one, and, for counters within the 64-bit range, no alive instance is
  killed while a dead one is kept.
\<close>

theorem scale_down_keeps_best:
  assumes "pool_sorts srt" and "list_all counters_ok (pm_instances m)"
    and "\<not> pm_shuttingDown m" and "0 \<le> clamp_target cfg target"
    and "clamp_target cfg target < int (length (pm_instances m))"
    and "scale_to cfg srt forget env False target m h = (e, m', h', killed)"
  shows "(e = None)
    \<and> (mset (pm_instances m) = mset (pm_instances m') + mset killed)
    \<and> (t \<in> set (pm_instances m') \<longrightarrow> k \<in> set killed \<longrightarrow> score (info t) \<le> score (info k))
    \<and> (t \<in> set (pm_instances m') \<longrightarrow> k \<in> set killed \<longrightarrow> ti_Alive k \<longrightarrow> ti_Alive t)"
  using scale_down_keeps_best_parts[OF assms] by blast

theorem scale_down_keeps_best_witness:
  "let cfg = \<lparr>pc_MinInstances = 1, pc_MaxInstances = 4, pc_SocksBasePort = 9050, pc_MinSuccessfulOnStart = 1,
               pc_Backends = [''b''], pc_ScaleUpThreshold = 0, pc_ScaleDownThreshold = 0, pc_ScaleCooldown = 0\<rparr>;
       dead = (fresh_instance 1 9050 ''b'')\<lparr>ti_Alive := False\<rparr>; ok = fresh_instance 2 9051 ''b'';
       r = scale_to cfg sort_by_score None (\<lambda>p. SpawnError) False 1 \<lparr>pm_instances = [dead, ok], pm_shuttingDown = False\<rparr> ()
   in fst r = None \<and> mset [dead, ok] = mset (pm_instances (fst (snd r))) + mset (snd (snd (snd r)))"
proof -
  let ?cfg = "\<lparr>pc_MinInstances = 1, pc_MaxInstances = 4, pc_SocksBasePort = 9050, pc_MinSuccessfulOnStart = 1,
               pc_Backends = [''b''], pc_ScaleUpThreshold = 0, pc_ScaleDownThreshold = 0, pc_ScaleCooldown = 0\<rparr>"
  let ?m = "\<lparr>pm_instances = [(fresh_instance 1 9050 ''b'')\<lparr>ti_Alive := False\<rparr>, fresh_instance 2 9051 ''b''],
              pm_shuttingDown = False\<rparr>"
  obtain e m' h' k where r: "scale_to ?cfg sort_by_score None (\<lambda>p. SpawnError) False 1 ?m () = (e, m', h', k)"
    by (cases "scale_to ?cfg sort_by_score None (\<lambda>p. SpawnError) False 1 ?m ()") auto
  note t = scale_down_keeps_best[OF pool_sorts_sort_by_score _ _ _ _ r]
  have "e = None" by (rule t[THEN conjunct1]) (simp_all add: counters_ok_def fresh_instance_def clamp_target_def)
  moreover have "mset (pm_instances ?m) = mset (pm_instances m') + mset k"
    by (rule t[THEN conjunct2, THEN conjunct1]) (simp_all add: counters_ok_def fresh_instance_def clamp_target_def)
  ultimately show ?thesis using r by simp
qed

subsection \<open>Start, replacement and shutdown\<close>

lemma distinct_map_filter_ports:
  assumes "distinct xs" and "inj_on g (set xs)" and "\<And>x t. f x = Some t \<Longrightarrow> ti_Port t = g x"
  shows "distinct (map ti_Port (List.map_filter f xs))"
  using assms(1,2)
proof (induction xs)
  case (Cons x xs)
  show ?case
  proof (cases "f x")
    case (Some t)
    have "ti_Port t \<notin> ti_Port ` set (List.map_filter f xs)"
      using Cons.prems Some assms(3) by (fastforce simp: set_list_map_filter inj_on_def)
    with Cons Some show ?thesis by (simp add: List.map_filter_simps)
  qed (use Cons in \<open>simp add: List.map_filter_simps\<close>)
qed (simp add: List.map_filter_simps)

lemma start_one_Some:
  "start_one cfg env i = Some t \<longleftrightarrow>
     (\<exists>pid. env (pc_SocksBasePort cfg + i) = Bootstrapped pid
        \<and> t = fresh_instance pid (pc_SocksBasePort cfg + i) (backend_at cfg i))"
  by (auto simp: start_one_def Let_def split: spawn_outcome.splits)

lemma in_start_results:
  "t \<in> set (start_results cfg env) \<longleftrightarrow> (\<exists>i. 0 \<le> i \<and> i < pc_MinInstances cfg \<and> start_one cfg env i = Some t)"
  by (auto simp: start_results_def set_list_map_filter)

lemma start_results_distinct: "distinct (map ti_Port (start_results cfg env))"
  unfolding start_results_def
  by (rule distinct_map_filter_ports[where g = "\<lambda>i. pc_SocksBasePort cfg + i"])
     (auto simp: inj_on_def start_one_Some fresh_instance_def)

lemma start_tolerant_parts:
  assumes "0 < pc_MinInstances cfg"
    and "need = min (pc_MinInstances cfg) (max 1 (pc_MinSuccessfulOnStart cfg))"
    and "pool_start cfg env ctxErr new_manager = (e, m, killed)"
  shows "e = None \<longleftrightarrow> \<not> ctxErr \<and> need \<le> int (length (start_results cfg env))"
    and "e \<noteq> None \<Longrightarrow> m = new_manager \<and> killed = start_results cfg env"
    and "e = None \<Longrightarrow> killed = [] \<and> need \<le> int (length (pm_instances m))
      \<and> sorted_wrt (<) (map ti_Port (pm_instances m))"
    and "e = None \<Longrightarrow> t \<in> set (pm_instances m) \<Longrightarrow>
      ti_Alive t \<and> pc_SocksBasePort cfg \<le> ti_Port t \<and> ti_Port t < pc_SocksBasePort cfg + pc_MinInstances cfg"
proof -
  let ?ok = "\<not> ctxErr \<and> need \<le> int (length (start_results cfg env))"
  have r: "(e = None \<longleftrightarrow> ?ok) \<and>
      (?ok \<longrightarrow> killed = [] \<and> pm_instances m = sort_key ti_Port (start_results cfg env))
      \<and> (\<not> ?ok \<longrightarrow> m = new_manager \<and> killed = start_results cfg env)"
    using assms by (auto simp: pool_start_def Let_def new_manager_def Suc_le_eq split: if_splits)
  show "e = None \<longleftrightarrow> ?ok" and "e \<noteq> None \<Longrightarrow> m = new_manager \<and> killed = start_results cfg env"
    using r by auto
  show "killed = [] \<and> need \<le> int (length (pm_instances m)) \<and> sorted_wrt (<) (map ti_Port (pm_instances m))"
    if "e = None"
    using r that start_results_distinct[of cfg env] by (simp add: strict_sorted_iff distinct_map)
  show "ti_Alive t \<and> pc_SocksBasePort cfg \<le> ti_Port t \<and> ti_Port t < pc_SocksBasePort cfg + pc_MinInstances cfg"
    if "e = None" "t \<in> set (pm_instances m)"
    using r that by (auto simp: in_start_results start_one_Some fresh_instance_def)
qed

text \<open>
  \<^verbatim>\<open>Start\<close> is tolerant and does not leak: if it returns no error on an empty pool, the pool has at least the
  required number of instances, all alive, in ascending order of their ports, which lie in the configured range, and nothing was killed; if it
  returns an error, the pool is as before and every process that did come up has been killed. It
  succeeds whenever the context is alive and at least the required number of spawns bootstrap.
\<close>

theorem start_tolerant:
  assumes "0 < pc_MinInstances cfg"
    and "need = min (pc_MinInstances cfg) (max 1 (pc_MinSuccessfulOnStart cfg))"
    and "pool_start cfg env ctxErr new_manager = (e, m, killed)"
  shows "(e = None \<longleftrightarrow> \<not> ctxErr \<and> need \<le> int (length (start_results cfg env)))
    \<and> (e \<noteq> None \<longrightarrow> m = new_manager \<and> killed = start_results cfg env)
    \<and> (e = None \<longrightarrow> killed = [] \<and> need \<le> int (length (pm_instances m))
      \<and> sorted_wrt (<) (map ti_Port (pm_instances m)))
    \<and> (e = None \<longrightarrow> t \<in> set (pm_instances m) \<longrightarrow>
      ti_Alive t \<and> pc_SocksBasePort cfg \<le> ti_Port t \<and> ti_Port t < pc_SocksBasePort cfg + pc_MinInstances cfg)"
  using start_tolerant_parts[OF assms] by blast

theorem start_tolerant_witness:
  "let cfg = \<lparr>pc_MinInstances = 3, pc_MaxInstances = 4, pc_SocksBasePort = 9050, pc_MinSuccessfulOnStart = 2,
               pc_Backends = [], pc_ScaleUpThreshold = 0, pc_ScaleDownThreshold = 0, pc_ScaleCooldown = 0\<rparr>
   in fst (pool_start cfg (\<lambda>p. if p = 9051 then SpawnError else Bootstrapped (nat p)) False new_manager) = None"
proof -
  let ?cfg = "\<lparr>pc_MinInstances = 3, pc_MaxInstances = 4, pc_SocksBasePort = 9050, pc_MinSuccessfulOnStart = 2,
               pc_Backends = [], pc_ScaleUpThreshold = 0, pc_ScaleDownThreshold = 0, pc_ScaleCooldown = 0\<rparr>"
  let ?env = "\<lambda>p :: int. if p = 9051 then SpawnError else Bootstrapped (nat p)"
  obtain e m k where r: "pool_start ?cfg ?env False new_manager = (e, m, k)"
    by (cases "pool_start ?cfg ?env False new_manager") auto
  have "length (start_results ?cfg ?env) = 2"
    by (simp add: start_results_def start_one_def upto.simps List.map_filter_simps)
  then have "e = None" using start_tolerant[OF _ refl r, THEN conjunct1] by simp
  with r show ?thesis by simp
qed

lemma remove_port_None: "remove_port port ts = None \<longleftrightarrow> port \<notin> ti_Port ` set ts"
  by (induction port ts rule: remove_port.induct) auto

lemma remove_port_Some:
  "remove_port port ts = Some (d, rest) \<Longrightarrow>
     mset ts = add_mset d (mset rest) \<and> ti_Port d = port \<and> d \<in> set ts"
  by (induction port ts arbitrary: rest rule: remove_port.induct) (auto split: if_splits)

lemma remove_port_inv:
  assumes "distinct (map ti_Port ts)" and "remove_port port ts = Some (d, rest)"
  shows "distinct (map ti_Port rest)" and "port \<notin> ti_Port ` set rest"
    and "ti_Port ` set ts = insert port (ti_Port ` set rest)"
proof -
  note r = remove_port_Some[OF assms(2)]
  then have "mset (map ti_Port ts) = mset (ti_Port d # map ti_Port rest)" by simp
  then have "distinct (ti_Port d # map ti_Port rest)"
    using assms(1) mset_eq_imp_distinct_iff by blast
  then show "distinct (map ti_Port rest)" "port \<notin> ti_Port ` set rest" using r by auto
  have "set ts = insert d (set rest)" using r by (metis set_mset_add_mset_insert set_mset_mset)
  then show "ti_Port ` set ts = insert port (ti_Port ` set rest)" using r by simp
qed

lemma replace_instance_cases:
  assumes "replace_instance env ctxErr port m = (e, m', killed)"
  obtains (refused) "m' = m" "killed = []" "e \<noteq> None"
    | (failed) d rest where "remove_port port (pm_instances m) = Some (d, rest)" "e = Some (SpawnFailed port)"
        "m' = m\<lparr>pm_instances := rest\<rparr>" "killed = [d]"
    | (replaced) d rest pid where "remove_port port (pm_instances m) = Some (d, rest)" "e = None" "killed = [d]"
        "m' = m\<lparr>pm_instances := rest @ [fresh_instance pid port (ti_Backend d)]\<rparr>"
proof (cases "pm_shuttingDown m \<or> ctxErr \<or> remove_port port (pm_instances m) = None")
  case True
  with assms show ?thesis by (auto simp: replace_instance_def intro: refused split: if_splits)
next
  case False
  then obtain d rest where rm: "remove_port port (pm_instances m) = Some (d, rest)" by auto
  show ?thesis
  proof (cases rule: spawn_instance_cases[of env port "ti_Backend d" "m\<lparr>pm_instances := rest\<rparr>"])
    case (ok pid)
    with False rm assms show ?thesis by (intro replaced[OF rm]) (auto simp: replace_instance_def)
  next
    case failed
    with False rm assms that(2)[OF rm] show ?thesis by (auto simp: replace_instance_def)
  qed
qed

lemma replace_instance_inv:
  assumes "pool_inv m" and "replace_instance env ctxErr port m = (e, m', killed)"
  shows "pool_inv m'" and "pm_shuttingDown m' = pm_shuttingDown m"
proof -
  have "pool_inv m' \<and> pm_shuttingDown m' = pm_shuttingDown m"
    using assms(2)
  proof (cases rule: replace_instance_cases)
    case (failed d rest)
    then show ?thesis using remove_port_inv[OF _ failed(1)] assms(1) by (simp add: pool_inv_def)
  next
    case (replaced d rest pid)
    then show ?thesis
      using remove_port_inv[OF _ replaced(1)] assms(1) by (simp add: pool_inv_def fresh_instance_def)
  qed (use assms(1) in simp)
  then show "pool_inv m'" "pm_shuttingDown m' = pm_shuttingDown m" by auto
qed

text \<open>
  The mutations of the manager, as one alphabet. A probe or a request only changes the counters of an instance, which \<open>PoolTouch\<close>
  covers: any change that keeps process and port.
\<close>

datatype pool_op =
    PoolScale pool_env bool int
  | PoolReplace pool_env bool int
  | PoolTouch "tor_instance \<Rightarrow> tor_instance"
  | PoolShutdown

definition touch :: "(tor_instance \<Rightarrow> tor_instance) \<Rightarrow> tor_instance \<Rightarrow> tor_instance" where
  "touch f t = (f t)\<lparr>ti_Port := ti_Port t, ti_Proc := ti_Proc t\<rparr>"

fun pool_step :: "pool_cfg \<Rightarrow> (tor_instance list \<Rightarrow> tor_instance list) \<Rightarrow> pool_op \<Rightarrow> pool_manager \<Rightarrow> pool_manager" where
  "pool_step cfg srt (PoolScale env ctxErr target) m = fst (snd (scale_to cfg srt None env ctxErr target m ()))"
| "pool_step cfg srt (PoolReplace env ctxErr port) m = fst (snd (replace_instance env ctxErr port m))"
| "pool_step cfg srt (PoolTouch f) m = m\<lparr>pm_instances := map (touch f) (pm_instances m)\<rparr>"
| "pool_step cfg srt PoolShutdown m = fst (pool_shutdown m)"

lemma pool_inv_step:
  assumes "pool_sorts srt" and "pool_inv m"
  shows "pool_inv (pool_step cfg srt op m)"
proof (cases op)
  case (PoolScale env ctxErr target)
  obtain e m' h' k where r: "scale_to cfg srt None env ctxErr target m () = (e, m', h', k)"
    by (cases "scale_to cfg srt None env ctxErr target m ()") auto
  then have "pool_inv m'"
    using assms scale_to_locked_inv(1)[OF assms] by (auto simp: scale_to_def split: if_splits)
  with r PoolScale show ?thesis by simp
next
  case (PoolReplace env ctxErr port)
  then show ?thesis
    using replace_instance_inv(1)[OF assms(2)] by (cases "replace_instance env ctxErr port m") simp
next
  case (PoolTouch f)
  have "ti_Port \<circ> touch f = ti_Port" by (simp add: touch_def fun_eq_iff)
  then show ?thesis using PoolTouch assms(2) by (simp add: pool_inv_def)
next
  case PoolShutdown
  then show ?thesis by (simp add: pool_inv_def pool_shutdown_def)
qed

text \<open>
  Whatever sequence of scale requests, replacements, probe updates and shutdowns runs after \<^verbatim>\<open>Start\<close>, with any
  spawns failing and any contexts cancelled, no two instances of the pool ever share a port.
\<close>

theorem pool_ports_distinct:
  assumes "pool_sorts srt" and "pool_start cfg env ctxErr new_manager = (e, m, killed)"
  shows "distinct (map ti_Port (pm_instances (fold (pool_step cfg srt) ops m)))"
proof -
  have "pool_inv m"
    using assms(2) start_results_distinct[of cfg env]
    by (auto simp: pool_start_def Let_def pool_inv_def new_manager_def distinct_map split: if_splits)
  then have "pool_inv (fold (pool_step cfg srt) ops m)"
    by (induction ops arbitrary: m) (simp_all add: pool_inv_step[OF assms(1)])
  then show ?thesis by (simp add: pool_inv_def)
qed

theorem pool_ports_distinct_witness:
  "let cfg = \<lparr>pc_MinInstances = 1, pc_MaxInstances = 4, pc_SocksBasePort = 9050, pc_MinSuccessfulOnStart = 1,
               pc_Backends = [], pc_ScaleUpThreshold = 0, pc_ScaleDownThreshold = 0, pc_ScaleCooldown = 0\<rparr>;
       env = (\<lambda>p. Bootstrapped (nat p))
   in distinct (map ti_Port (pm_instances (fold (pool_step cfg sort_by_score)
        [PoolScale env False 3, PoolReplace env False 9051] (fst (snd (pool_start cfg env False new_manager))))))"
proof -
  let ?cfg = "\<lparr>pc_MinInstances = 1, pc_MaxInstances = 4, pc_SocksBasePort = 9050, pc_MinSuccessfulOnStart = 1,
               pc_Backends = [], pc_ScaleUpThreshold = 0, pc_ScaleDownThreshold = 0, pc_ScaleCooldown = 0\<rparr>"
  let ?env = "\<lambda>p :: int. Bootstrapped (nat p)"
  obtain e m k where r: "pool_start ?cfg ?env False new_manager = (e, m, k)"
    by (cases "pool_start ?cfg ?env False new_manager") auto
  show ?thesis
    unfolding Let_def r snd_conv fst_conv by (rule pool_ports_distinct[OF pool_sorts_sort_by_score r])
qed

text \<open>
  Shutdown is final: after it the pool stays empty, and every scale or replace request is refused with
  \<^verbatim>\<open>ErrShuttingDown\<close> and kills nothing, whatever else runs in between.
\<close>

theorem shutdown_is_final:
  fixes cfg srt ops m
  defines "m' \<equiv> fold (pool_step cfg srt) ops (fst (pool_shutdown m))"
  shows "pm_instances m' = []"
    and "scale_to cfg srt forget env ctxErr target m' h = (Some ErrShuttingDown, m', h, [])"
    and "replace_instance env ctxErr port m' = (Some ErrShuttingDown, m', [])"
proof -
  have step: "pool_step cfg srt op \<lparr>pm_instances = [], pm_shuttingDown = True\<rparr> = \<lparr>pm_instances = [], pm_shuttingDown = True\<rparr>" for op
    by (cases op) (simp_all add: scale_to_def replace_instance_def pool_shutdown_def)
  have "m' = \<lparr>pm_instances = [], pm_shuttingDown = True\<rparr>"
    unfolding m'_def pool_shutdown_def fst_conv by (induction ops) (simp_all add: step)
  then show "pm_instances m' = []"
    and "scale_to cfg srt forget env ctxErr target m' h = (Some ErrShuttingDown, m', h, [])"
    and "replace_instance env ctxErr port m' = (Some ErrShuttingDown, m', [])"
    by (simp_all add: scale_to_def replace_instance_def)
qed

text \<open>
  A failed replacement is not retried: the old instance has left the pool for good, so the port is
  gone, every later replacement of it is refused, and only an explicit scale-up can bring the pool back to its size.
\<close>

theorem failed_replace_loses_instance:
  assumes "pool_inv m" and "\<not> pm_shuttingDown m" and "port \<in> ti_Port ` set (pm_instances m)"
    and "env port = SpawnError"
    and "replace_instance env False port m = (e, m', killed)"
  shows "e = Some (SpawnFailed port)"
    and "length (pm_instances m') + 1 = length (pm_instances m)"
    and "port \<notin> ti_Port ` set (pm_instances m')"
    and "replace_instance env' False port m' = (Some (NoInstance port), m', [])"
proof -
  obtain d rest where rm: "remove_port port (pm_instances m) = Some (d, rest)"
    using assms(3) remove_port_None[of port "pm_instances m"] by fastforce
  have r: "e = Some (SpawnFailed port)" "m' = m\<lparr>pm_instances := rest\<rparr>"
    using assms(2,4,5) rm by (auto simp: replace_instance_def spawn_instance_def)
  have size: "size (mset (pm_instances m)) = Suc (size (mset rest))"
    using remove_port_Some[OF rm] by simp
  have gone: "port \<notin> ti_Port ` set rest"
    using remove_port_inv(2)[OF _ rm] assms(1) by (simp add: pool_inv_def)
  show "e = Some (SpawnFailed port)" by (rule r(1))
  show "length (pm_instances m') + 1 = length (pm_instances m)" using size by (simp add: r(2))
  show "port \<notin> ti_Port ` set (pm_instances m')" using gone by (simp add: r(2))
  show "replace_instance env' False port m' = (Some (NoInstance port), m', [])"
    using gone remove_port_None[of port rest] assms(2) by (simp add: r(2) replace_instance_def)
qed

theorem failed_replace_loses_instance_witness:
  "pm_instances (fst (snd (replace_instance (\<lambda>_. SpawnError) False 9050
     \<lparr>pm_instances = [fresh_instance 1 9050 []], pm_shuttingDown = False\<rparr>))) = []"
proof -
  let ?m = "\<lparr>pm_instances = [fresh_instance 1 9050 []], pm_shuttingDown = False\<rparr>"
  obtain e m' k where r: "replace_instance (\<lambda>_. SpawnError) False 9050 ?m = (e, m', k)"
    by (cases "replace_instance (\<lambda>_. SpawnError) False 9050 ?m") auto
  have "length (pm_instances m') + 1 = length (pm_instances ?m)"
    by (rule failed_replace_loses_instance(2)[OF _ _ _ _ r])
       (simp_all add: pool_inv_def fresh_instance_def)
  with r show ?thesis by simp
qed

end
