(* ===== verification/Pool_Health.thy ===== *)
theory Pool_Health
  imports Pool
begin

text \<open>
  The health checker of the pool, \<^verbatim>\<open>internal/torpool/health.go\<close>. The per-port \<^verbatim>\<open>sync.Map\<close>s are maps
  of the record \<open>health\<close>. The atomic flags of \<^verbatim>\<open>replacing\<close> are shared between the map and the goroutines
  that clear them, so they live in a store of their own, addressed by numbers: after \<^verbatim>\<open>ForgetPort\<close> a running goroutine still
  holds a flag that is no longer in the map. The result of a probe (failed or not, and the latency) and the clock are
  arguments. \<^verbatim>\<open>checkAll\<close> probes all instances in parallel; their ports differ, so the model takes them one
  by one. A started replacement goroutine is an entry of \<open>ps_inflight\<close>, and its body runs as a later step.
\<close>

subsection \<open>Model\<close>

definition failure_threshold :: int where "failure_threshold = 3"

record health =
  hc_trackers :: "int \<rightharpoonup> int"
  hc_transports :: "int set"
  hc_replacing :: "int \<rightharpoonup> nat"
  hc_quarantined :: "int \<rightharpoonup> time \<times> time"
  hc_flags :: "nat \<rightharpoonup> bool"
  hc_next :: nat

definition new_health :: health where
  "new_health = \<lparr>hc_trackers = Map.empty, hc_transports = {}, hc_replacing = Map.empty,
     hc_quarantined = Map.empty, hc_flags = Map.empty, hc_next = 0\<rparr>"

definition tracker_for :: "health \<Rightarrow> int \<Rightarrow> int" where
  "tracker_for h port = (case hc_trackers h port of None \<Rightarrow> 0 | Some n \<Rightarrow> n)"

definition replace_async :: "int \<Rightarrow> health \<Rightarrow> health \<times> (int \<times> nat) option" where
  "replace_async port h =
     (let (flag, h1) =
            (case hc_replacing h port of
               Some f \<Rightarrow> (f, h)
             | None \<Rightarrow> (hc_next h, h\<lparr>hc_replacing := (hc_replacing h)(port \<mapsto> hc_next h),
                                     hc_flags := (hc_flags h)(hc_next h \<mapsto> False), hc_next := hc_next h + 1\<rparr>))
      in if hc_flags h1 flag = Some True then (h1, None)
         else (h1\<lparr>hc_flags := (hc_flags h1)(flag \<mapsto> True)\<rparr>, Some (port, flag)))"

definition replace_finish :: "int \<times> nat \<Rightarrow> bool \<Rightarrow> health \<Rightarrow> health" where
  "replace_finish pf success h =
     (let (port, flag) = pf;
          h1 = h\<lparr>hc_flags := (hc_flags h)(flag \<mapsto> False)\<rparr>
      in if success \<and> hc_trackers h port \<noteq> None
         then h1\<lparr>hc_trackers := (hc_trackers h1)(port \<mapsto> 0)\<rparr>
         else h1)"

definition probe_failed ::
  "duration \<Rightarrow> int \<Rightarrow> time \<Rightarrow> health \<Rightarrow> health \<times> bool \<times> (int \<times> nat) option" where
  "probe_failed grace port now h =
     (let n = tracker_for h port + 1;
          h1 = h\<lparr>hc_trackers := (hc_trackers h)(port \<mapsto> n)\<rparr>
      in if \<not> n \<ge> failure_threshold then (h1, False, None)
         else
           (let h2 = h1\<lparr>hc_transports := hc_transports h1 - {port}\<rparr> in
            if grace \<le> 0 then (case replace_async port h2 of (h3, g) \<Rightarrow> (h3, True, g))
            else
              (case hc_quarantined h2 port of
                 Some (since, expiresAt) \<Rightarrow>
                   if now > expiresAt then
                     (case replace_async port (h2\<lparr>hc_quarantined := (hc_quarantined h2)(port := None)\<rparr>) of
                        (h3, g) \<Rightarrow> (h3, True, g))
                   else (h2, True, None)
               | None \<Rightarrow>
                   (h2\<lparr>hc_quarantined := (hc_quarantined h2)(port \<mapsto> (now, now + grace))\<rparr>, True, None))))"

text \<open>
  \<^verbatim>\<open>checkOne\<close>: the updated checker and instance, and the replacement goroutine it started, if any. Its first lines
  create the tracker; the probe itself caches a transport for the port.
\<close>

definition begin_probe :: "int \<Rightarrow> health \<Rightarrow> health" where
  "begin_probe port h =
     h\<lparr>hc_trackers := (hc_trackers h)(port \<mapsto> tracker_for h port), hc_transports := insert port (hc_transports h)\<rparr>"

definition check_one ::
  "duration \<Rightarrow> tor_instance \<Rightarrow> bool \<Rightarrow> int \<Rightarrow> time \<Rightarrow> health \<Rightarrow> health \<times> tor_instance \<times> (int \<times> nat) option" where
  "check_one grace inst failed latency now h =
     (let port = ti_Port inst;
          h0 = begin_probe port h;
          inst0 = inst\<lparr>ti_TotalCount := wrap64 (ti_TotalCount inst + 1)\<rparr>
      in if failed then
           (let inst1 = inst0\<lparr>ti_ErrorCount := wrap64 (ti_ErrorCount inst0 + 1)\<rparr>
            in case probe_failed grace port now h0 of
                 (h1, dead, g) \<Rightarrow> (h1, (if dead then inst1\<lparr>ti_Alive := False\<rparr> else inst1), g))
         else
           (h0\<lparr>hc_trackers := (hc_trackers h0)(port \<mapsto> 0),
               hc_quarantined := (hc_quarantined h0)(port := None)\<rparr>,
            inst0\<lparr>ti_Alive := True, ti_LatencyMs := latency\<rparr>, None))"

fun check_all ::
  "duration \<Rightarrow> (tor_instance \<Rightarrow> bool \<times> int \<times> time) \<Rightarrow> tor_instance list \<Rightarrow> health \<Rightarrow>
     health \<times> tor_instance list \<times> (int \<times> nat) list" where
  "check_all grace probe [] h = (h, [], [])"
| "check_all grace probe (t # ts) h =
     (case probe t of (failed, latency, now) \<Rightarrow>
        (case check_one grace t failed latency now h of (h1, t1, g) \<Rightarrow>
           (case check_all grace probe ts h1 of (h2, ts2, gs) \<Rightarrow>
              (h2, t1 # ts2, (case g of None \<Rightarrow> gs | Some x \<Rightarrow> x # gs)))))"

definition forget_port :: "int \<Rightarrow> health \<Rightarrow> health" where
  "forget_port port h =
     h\<lparr>hc_trackers := (hc_trackers h)(port := None), hc_transports := hc_transports h - {port},
       hc_replacing := (hc_replacing h)(port := None), hc_quarantined := (hc_quarantined h)(port := None)\<rparr>"

subsection \<open>Forgetting ports\<close>

text \<open>
  The interface between the manager and the checker. The client's lemma: after a scale-down the checker
  remembers nothing of the killed ports and all it knew of the others.
\<close>

locale port_forgetter =
  fixes forget :: "int \<Rightarrow> 'h \<Rightarrow> 'h"
    and memory :: "'h \<Rightarrow> int \<Rightarrow> 'm"
    and blank :: 'm
  assumes memory_forget: "memory (forget p h) q = (if q = p then blank else memory h q)"
begin

lemma memory_forget_all:
  "memory (fold (\<lambda>t. forget (ti_Port t)) ts h) q = (if q \<in> ti_Port ` set ts then blank else memory h q)"
  by (induction ts arbitrary: h) (auto simp: memory_forget)

lemma scale_down_memory:
  assumes "pool_sorts srt" and "pool_inv m"
    and "scale_to cfg srt (Some forget) env ctxErr target m h = (e, m', h', killed)"
  shows "t \<in> set killed \<Longrightarrow> memory h' (ti_Port t) = blank"
    and "t \<in> set (pm_instances m') \<Longrightarrow> t \<in> set (pm_instances m) \<Longrightarrow> memory h' (ti_Port t) = memory h (ti_Port t)"
proof -
  let ?s = "srt (pm_instances m)" and ?n = "nat (clamp_target cfg target)"
  have cases: "killed = [] \<and> h' = h
      \<or> killed = drop ?n ?s \<and> pm_instances m' = take ?n ?s \<and> h' = fold (\<lambda>t. forget (ti_Port t)) killed h"
    using assms(3) by (auto simp: scale_to_def scale_to_locked_def Let_def split: if_splits prod.splits)
  then show "memory h' (ti_Port t) = blank" if "t \<in> set killed"
    using that by (auto simp: memory_forget_all)
  show "memory h' (ti_Port t) = memory h (ti_Port t)" if "t \<in> set (pm_instances m')" "t \<in> set (pm_instances m)"
    using cases
  proof
    assume r: "killed = drop ?n ?s \<and> pm_instances m' = take ?n ?s \<and> h' = fold (\<lambda>t. forget (ti_Port t)) killed h"
    have "distinct (map ti_Port (take ?n ?s @ drop ?n ?s))"
      using pool_inv_sorted[OF assms(1,2)] by simp
    then have "ti_Port t \<notin> ti_Port ` set killed" using that(1) r by (auto simp del: append_take_drop_id)
    then show ?thesis using r by (simp add: memory_forget_all)
  qed simp
qed

end

text \<open>Everything the health checker keeps about a port.\<close>

definition port_memory :: "health \<Rightarrow> int \<Rightarrow> int option \<times> bool \<times> nat option \<times> (time \<times> time) option" where
  "port_memory h port =
     (hc_trackers h port, port \<in> hc_transports h, hc_replacing h port, hc_quarantined h port)"

interpretation checker: port_forgetter forget_port port_memory "(None, False, None, None)"
  by unfold_locales (simp add: port_memory_def forget_port_def)

text \<open>
  After a scale-down wired to the health checker, the checker holds no state for any killed port, so a later instance on that
  port starts with a clean record, and its state for every surviving instance is unchanged.
\<close>

theorem scale_down_forgets_ports:
  assumes "pool_sorts srt" and "pool_inv m"
    and "scale_to cfg srt (Some forget_port) env ctxErr target m h = (e, m', h', killed)"
  shows "t \<in> set killed \<Longrightarrow> port_memory h' (ti_Port t) = (None, False, None, None)"
    and "t \<in> set (pm_instances m') \<Longrightarrow> t \<in> set (pm_instances m) \<Longrightarrow>
      port_memory h' (ti_Port t) = port_memory h (ti_Port t)"
  using checker.scale_down_memory[OF assms] by auto

theorem scale_down_forgets_ports_witness:
  "\<exists>m' h' t. scale_to \<lparr>pc_MinInstances = 0, pc_MaxInstances = 4, pc_SocksBasePort = 9050, pc_MinSuccessfulOnStart = 1,
        pc_Backends = [], pc_ScaleUpThreshold = 0, pc_ScaleDownThreshold = 0, pc_ScaleCooldown = 0\<rparr>
       sort_by_score (Some forget_port) (\<lambda>_. SpawnError) False 0
       \<lparr>pm_instances = [fresh_instance 1 9050 []], pm_shuttingDown = False\<rparr>
       (new_health\<lparr>hc_trackers := [9050 \<mapsto> 2]\<rparr>) = (None, m', h', [t])
     \<and> port_memory h' (ti_Port t) = (None, False, None, None)"
proof -
  let ?cfg = "\<lparr>pc_MinInstances = 0, pc_MaxInstances = 4, pc_SocksBasePort = 9050, pc_MinSuccessfulOnStart = 1,
        pc_Backends = [], pc_ScaleUpThreshold = 0, pc_ScaleDownThreshold = 0, pc_ScaleCooldown = 0\<rparr>"
  let ?m = "\<lparr>pm_instances = [fresh_instance 1 9050 []], pm_shuttingDown = False\<rparr>"
  obtain m' h' t where r: "scale_to ?cfg sort_by_score (Some forget_port) (\<lambda>_. SpawnError) False 0 ?m
      (new_health\<lparr>hc_trackers := [9050 \<mapsto> 2]\<rparr>) = (None, m', h', [t])"
    by (simp add: scale_to_def scale_to_locked_def clamp_target_def sort_by_score_def)
  have "port_memory h' (ti_Port t) = (None, False, None, None)"
    by (rule scale_down_forgets_ports(1)[OF pool_sorts_sort_by_score _ r]) (simp_all add: pool_inv_def)
  with r show ?thesis by blast
qed

subsection \<open>Quarantine\<close>

text \<open>The probes of one instance, oldest first: failed, latency, time.\<close>

type_synonym probe = "bool \<times> int \<times> time"

fun probe_run :: "duration \<Rightarrow> probe list \<Rightarrow> health \<times> tor_instance \<Rightarrow> health \<times> tor_instance" where
  "probe_run grace [] s = s"
| "probe_run grace ((failed, latency, now) # evs) (h, t) =
     (case check_one grace t failed latency now h of (h1, t1, g) \<Rightarrow> probe_run grace evs (h1, t1))"

definition trailing_failures :: "probe list \<Rightarrow> probe list" where
  "trailing_failures evs = takeWhile fst (rev evs)"

lemma trailing_failures_snoc:
  "trailing_failures (evs @ [ev]) = (if fst ev then ev # trailing_failures evs else [])"
  by (simp add: trailing_failures_def)

lemma probe_run_snoc:
  "probe_run grace (evs @ [(failed, latency, now)]) s =
     (let (h, t) = probe_run grace evs s; (h1, t1, g) = check_one grace t failed latency now h in (h1, t1))"
  by (induction grace evs s rule: probe_run.induct) (auto split: prod.splits)

lemma replace_async_frame [simp]:
  "hc_trackers (fst (replace_async port h)) = hc_trackers h"
  "hc_quarantined (fst (replace_async port h)) = hc_quarantined h"
  by (auto simp: replace_async_def Let_def split: option.splits prod.splits)

lemma probe_failed_cases:
  assumes "probe_failed grace port now h = (h', dead, g)"
    and "h2 = h\<lparr>hc_trackers := (hc_trackers h)(port \<mapsto> tracker_for h port + 1), hc_transports := hc_transports h - {port}\<rparr>"
  obtains (few) "tracker_for h port + 1 < 3" "\<not> dead" "g = None"
      "h' = h\<lparr>hc_trackers := (hc_trackers h)(port \<mapsto> tracker_for h port + 1)\<rparr>"
    | (at_once) "3 \<le> tracker_for h port + 1" "dead" "grace \<le> 0" "replace_async port h2 = (h', g)"
    | (expired) since ex where "3 \<le> tracker_for h port + 1" "dead" "hc_quarantined h port = Some (since, ex)" "ex < now"
        "replace_async port (h2\<lparr>hc_quarantined := (hc_quarantined h2)(port := None)\<rparr>) = (h', g)"
    | (waiting) "3 \<le> tracker_for h port + 1" "dead" "h' = h2" "g = None"
    | (entered) "3 \<le> tracker_for h port + 1" "dead" "0 < grace" "hc_quarantined h port = None" "g = None"
        "h' = h2\<lparr>hc_quarantined := (hc_quarantined h2)(port \<mapsto> (now, now + grace))\<rparr>"
proof (cases "tracker_for h port + 1 < 3")
  case True
  with assms(1) few show ?thesis by (simp add: probe_failed_def failure_threshold_def Let_def)
next
  case n: False
  show ?thesis
  proof (cases "grace \<le> 0")
    case True
    with n assms at_once show ?thesis
      by (auto simp: probe_failed_def failure_threshold_def Let_def split: prod.splits)
  next
    case pos: False
    show ?thesis
    proof (cases "hc_quarantined h port")
      case None
      with n pos assms entered show ?thesis by (simp add: probe_failed_def failure_threshold_def Let_def)
    next
      case (Some q)
      obtain since ex where q: "q = (since, ex)" by (cases q)
      show ?thesis
      proof (cases "ex < now")
        case True
        with n pos Some q assms expired show ?thesis
          by (auto simp: probe_failed_def failure_threshold_def Let_def split: prod.splits)
      next
        case False
        with n pos Some q assms waiting show ?thesis by (simp add: probe_failed_def failure_threshold_def Let_def)
      qed
    qed
  qed
qed

lemma replace_asyncD:
  "replace_async port h = (h', g) \<Longrightarrow> hc_trackers h' = hc_trackers h \<and> hc_quarantined h' = hc_quarantined h"
  using replace_async_frame[of port h] by simp

lemma probe_failed_spec:
  assumes "probe_failed grace port now h = (h', dead, g)"
  shows "hc_trackers h' = (hc_trackers h)(port \<mapsto> tracker_for h port + 1)"
    and "dead \<longleftrightarrow> 3 \<le> tracker_for h port + 1"
    and "hc_quarantined h' port = Some (since, ex) \<Longrightarrow>
      0 < grace \<and> since = now \<and> ex = now + grace \<or> hc_quarantined h port = Some (since, ex)"
    and "g \<noteq> None \<Longrightarrow> dead \<and> (0 < grace \<longrightarrow> (\<exists>since ex. hc_quarantined h port = Some (since, ex) \<and> ex < now))"
proof -
  note cases = probe_failed_cases[OF assms refl]
  show "hc_trackers h' = (hc_trackers h)(port \<mapsto> tracker_for h port + 1)"
    by (rule cases) (simp_all, auto dest!: replace_asyncD)
  show "dead \<longleftrightarrow> 3 \<le> tracker_for h port + 1"
    by (rule cases) simp_all
  show "0 < grace \<and> since = now \<and> ex = now + grace \<or> hc_quarantined h port = Some (since, ex)"
    if "hc_quarantined h' port = Some (since, ex)"
    using that by (cases rule: cases) (auto dest!: replace_asyncD)
  show "dead \<and> (0 < grace \<longrightarrow> (\<exists>since ex. hc_quarantined h port = Some (since, ex) \<and> ex < now))" if "g \<noteq> None"
    using that by (cases rule: cases) auto
qed

lemma begin_probe_frame [simp]:
  "tracker_for (begin_probe port h) q = tracker_for h q"
  "hc_quarantined (begin_probe port h) = hc_quarantined h"
  "hc_replacing (begin_probe port h) = hc_replacing h"
  "hc_flags (begin_probe port h) = hc_flags h"
  "hc_next (begin_probe port h) = hc_next h"
  by (auto simp: begin_probe_def tracker_for_def)

lemma check_one_port: "check_one grace t failed latency now h = (h1, t1, g) \<Longrightarrow> ti_Port t1 = ti_Port t"
  by (auto simp: check_one_def Let_def split: if_splits prod.splits)

text \<open>What the checker knows of an instance after a history of probes.\<close>

definition probe_inv :: "duration \<Rightarrow> probe list \<Rightarrow> health \<Rightarrow> tor_instance \<Rightarrow> bool" where
  "probe_inv grace evs h t \<longleftrightarrow>
     tracker_for h (ti_Port t) = int (length (trailing_failures evs))
     \<and> (ti_Alive t \<longleftrightarrow> length (trailing_failures evs) < 3)
     \<and> (\<forall>since ex. hc_quarantined h (ti_Port t) = Some (since, ex) \<longrightarrow>
          ex = since + grace \<and> since \<in> (\<lambda>(f, l, n). n) ` set (trailing_failures evs))"

lemma check_one_inv:
  assumes inv: "probe_inv grace evs h t" and step: "check_one grace t failed latency now h = (h', t', g)"
  shows "probe_inv grace (evs @ [(failed, latency, now)]) h' t'"
    and "g \<noteq> None \<Longrightarrow> failed \<and> 2 \<le> length (trailing_failures evs)
      \<and> (0 < grace \<longrightarrow> (\<exists>since \<in> (\<lambda>(f, l, n). n) ` set (trailing_failures evs). since + grace < now))"
proof -
  let ?p = "ti_Port t"
  let ?h0 = "begin_probe ?p h"
  have "probe_inv grace (evs @ [(failed, latency, now)]) h' t' \<and> (g \<noteq> None \<longrightarrow> failed \<and> 2 \<le> length (trailing_failures evs)
      \<and> (0 < grace \<longrightarrow> (\<exists>since \<in> (\<lambda>(f, l, n). n) ` set (trailing_failures evs). since + grace < now)))"
  proof (cases failed)
    case True
    obtain h1 dead g1 where pf: "probe_failed grace ?p now ?h0 = (h1, dead, g1)"
      by (cases "probe_failed grace ?p now ?h0")
    note spec = probe_failed_spec[OF pf]
    have r: "h' = h1" "g = g1" "ti_Port t' = ?p" "ti_Alive t' \<longleftrightarrow> \<not> dead \<and> ti_Alive t"
      using step True pf by (auto simp: check_one_def Let_def split: if_splits)
    have tr: "tracker_for ?h0 ?p = int (length (trailing_failures evs))"
      using inv by (simp add: probe_inv_def)
    have "tracker_for h' ?p = int (length (trailing_failures evs)) + 1"
      using spec(1) tr r(1) by (simp add: tracker_for_def)
    moreover have "ti_Alive t' \<longleftrightarrow> length (trailing_failures evs) + 1 < 3"
      using spec(2) tr r(4) inv by (auto simp: probe_inv_def)
    moreover have "ex = since + grace \<and> since \<in> insert now ((\<lambda>(f, l, n). n) ` set (trailing_failures evs))"
      if "hc_quarantined h' ?p = Some (since, ex)" for since ex
      using spec(3)[of since ex] that inv r(1) by (auto simp: probe_inv_def)
    ultimately have "probe_inv grace (evs @ [(failed, latency, now)]) h' t'"
      using True r(3) by (simp add: probe_inv_def trailing_failures_snoc)
    moreover have "2 \<le> length (trailing_failures evs)
        \<and> (0 < grace \<longrightarrow> (\<exists>since \<in> (\<lambda>(f, l, n). n) ` set (trailing_failures evs). since + grace < now))" if "g \<noteq> None"
    proof -
      have d: "dead" "0 < grace \<longrightarrow> (\<exists>since ex. hc_quarantined ?h0 ?p = Some (since, ex) \<and> ex < now)"
        using spec(4) that r(2) by auto
      have "2 \<le> length (trailing_failures evs)" using d(1) spec(2) tr by simp
      moreover have "\<exists>since \<in> (\<lambda>(f, l, n). n) ` set (trailing_failures evs). since + grace < now" if pos: "0 < grace"
      proof -
        obtain since ex where q: "hc_quarantined ?h0 ?p = Some (since, ex)" "ex < now" using d(2) pos by blast
        have "ex = since + grace \<and> since \<in> (\<lambda>(f, l, n). n) ` set (trailing_failures evs)"
          using inv q(1) unfolding probe_inv_def begin_probe_frame by blast
        then show ?thesis using q(2) by blast
      qed
      ultimately show ?thesis by blast
    qed
    ultimately show ?thesis using True by blast
  next
    case False
    then have r: "tracker_for h' ?p = 0" "hc_quarantined h' ?p = None" "ti_Alive t'" "g = None" "ti_Port t' = ?p"
      using step by (auto simp: check_one_def Let_def tracker_for_def begin_probe_def)
    then show ?thesis using False by (simp add: probe_inv_def trailing_failures_snoc)
  qed
  then show "probe_inv grace (evs @ [(failed, latency, now)]) h' t'"
    and "g \<noteq> None \<Longrightarrow> failed \<and> 2 \<le> length (trailing_failures evs)
      \<and> (0 < grace \<longrightarrow> (\<exists>since \<in> (\<lambda>(f, l, n). n) ` set (trailing_failures evs). since + grace < now))" by blast+
qed

lemma probe_run_inv:
  assumes "ti_Alive t" and "port_memory h (ti_Port t) = (None, False, None, None)"
    and "probe_run grace evs (h, t) = (h', t')"
  shows "probe_inv grace evs h' t' \<and> ti_Port t' = ti_Port t"
  using assms(3)
proof (induction evs arbitrary: h' t' rule: rev_induct)
  case Nil
  then show ?case
    using assms(1,2) by (auto simp: probe_inv_def trailing_failures_def tracker_for_def port_memory_def)
next
  case (snoc ev evs)
  obtain failed latency now where ev: "ev = (failed, latency, now)" by (cases ev)
  obtain h1 t1 where run: "probe_run grace evs (h, t) = (h1, t1)" by fastforce
  obtain g where "check_one grace t1 failed latency now h1 = (h', t', g)"
    using snoc.prems by (auto simp: ev probe_run_snoc run split: prod.splits)
  then show ?case using snoc.IH[OF run] check_one_inv(1)[of grace evs h1 t1] check_one_port ev by fastforce
qed

lemma alive_iff_recent_success_parts:
  assumes "ti_Alive t" and "port_memory h (ti_Port t) = (None, False, None, None)"
    and "probe_run grace evs (h, t) = (h', t')"
  shows "ti_Alive t' \<longleftrightarrow> length (trailing_failures evs) < 3"
    and "tracker_for h' (ti_Port t) = int (length (trailing_failures evs))"
    and "evs \<noteq> [] \<Longrightarrow> \<not> fst (last evs) \<Longrightarrow> ti_Alive t' \<and> hc_quarantined h' (ti_Port t) = None"
proof -
  from probe_run_inv[OF assms] have inv: "probe_inv grace evs h' t'" and port: "ti_Port t' = ti_Port t" by auto
  then show "ti_Alive t' \<longleftrightarrow> length (trailing_failures evs) < 3"
    and "tracker_for h' (ti_Port t) = int (length (trailing_failures evs))"
    by (simp_all add: probe_inv_def)
  assume "evs \<noteq> []" "\<not> fst (last evs)"
  then have "trailing_failures evs = []" by (cases evs rule: rev_cases) (simp_all add: trailing_failures_def)
  then show "ti_Alive t' \<and> hc_quarantined h' (ti_Port t) = None"
    using inv port by (auto simp: probe_inv_def) (metis option.exhaust surj_pair)
qed

text \<open>
  An instance that starts alive is out of the load balancer exactly while its last three probes (or more) have all failed: the
  tracker counts the trailing failures, and a single successful probe lifts the quarantine and brings the instance
  back.
\<close>

theorem alive_iff_recent_success:
  assumes "ti_Alive t" and "port_memory h (ti_Port t) = (None, False, None, None)"
    and "probe_run grace evs (h, t) = (h', t')"
  shows "(ti_Alive t' \<longleftrightarrow> length (trailing_failures evs) < 3)
    \<and> (tracker_for h' (ti_Port t) = int (length (trailing_failures evs)))
    \<and> (evs \<noteq> [] \<longrightarrow> \<not> fst (last evs) \<longrightarrow> ti_Alive t' \<and> hc_quarantined h' (ti_Port t) = None)"
  using alive_iff_recent_success_parts[OF assms] by blast

theorem alive_iff_recent_success_witness:
  "\<not> ti_Alive (snd (probe_run 100 [(False, 5, 0), (True, 0, 10), (True, 0, 20), (True, 0, 30)]
       (new_health, fresh_instance 1 9050 [])))"
proof -
  obtain h' t' where r: "probe_run 100 [(False, 5, 0), (True, 0, 10), (True, 0, 20), (True, 0, 30)]
       (new_health, fresh_instance 1 9050 []) = (h', t')" by fastforce
  have "ti_Alive t' \<longleftrightarrow> length (trailing_failures [(False, 5, 0), (True, 0, 10), (True, 0, 20), (True, 0, 30)]) < 3"
    by (rule alive_iff_recent_success[OF _ _ r, THEN conjunct1])
       (simp_all add: fresh_instance_def port_memory_def new_health_def)
  with r show ?thesis by (simp add: trailing_failures_def)
qed

subsection \<open>What leads to a replacement\<close>

text \<open>
  Everything that happens to the checker, in the order in which it happens, for all ports: a probe of an instance, the end of a replacement goroutine, and the forgetting of a port. The instances that are
  probed on one port may be different processes.
\<close>

datatype port_event = Probed tor_instance bool int time | Replaced int nat bool | Forgot int

fun port_event_step :: "duration \<Rightarrow> port_event \<Rightarrow> health \<Rightarrow> health" where
  "port_event_step grace (Probed t failed latency now) h = fst (check_one grace t failed latency now h)"
| "port_event_step grace (Replaced port flag success) h = replace_finish (port, flag) success h"
| "port_event_step grace (Forgot port) h = forget_port port h"














lemma tracker_for_upd:
  "tracker_for (h\<lparr>hc_trackers := (hc_trackers h)(port \<mapsto> n)\<rparr>) port = n"
  "tracker_for (h\<lparr>hc_trackers := (hc_trackers h)(port \<mapsto> n), hc_transports := ts, hc_quarantined := qs\<rparr>) port = n"
  by (simp_all add: tracker_for_def)

lemma probe_failed_few:
  "tracker_for h port + 1 < 3 \<Longrightarrow>
     probe_failed grace port now h = (h\<lparr>hc_trackers := (hc_trackers h)(port \<mapsto> tracker_for h port + 1)\<rparr>, False, None)"
  by (simp add: probe_failed_def failure_threshold_def Let_def)

lemma probe_failed_enter:
  "3 \<le> tracker_for h port + 1 \<Longrightarrow> 0 < grace \<Longrightarrow> hc_quarantined h port = None \<Longrightarrow>
     probe_failed grace port now h =
       (h\<lparr>hc_trackers := (hc_trackers h)(port \<mapsto> tracker_for h port + 1), hc_transports := hc_transports h - {port},
          hc_quarantined := (hc_quarantined h)(port \<mapsto> (now, now + grace))\<rparr>, True, None)"
  by (simp add: probe_failed_def failure_threshold_def Let_def)



text \<open>A first process whose quarantine runs out.\<close>

definition first_process :: tor_instance where
  "first_process = fresh_instance 1 9050 []"

definition failing_events :: "port_event list" where
  "failing_events = map (\<lambda>now. Probed first_process True 0 now) [10, 20, 30]"



text \<open>
  A replacement does not end the quarantine of its port. A replacement waits for other changes of the pool to finish; when a tick falls into that time, the process that is about to be replaced fails again and puts the port
  back in quarantine. If the new process then does not answer its first three probes after that quarantine has run out, it is replaced at the third one, without a grace period of its own.
\<close>

definition second_process :: tor_instance where
  "second_process = fresh_instance 2 9050 []"

theorem quarantine_outlives_replacement:
  "\<exists>h' t' g. check_one 100 second_process True 0 370
       (fold (port_event_step 100)
          (failing_events @ [Probed first_process True 0 131, Probed first_process True 0 190, Replaced 9050 0 True,
             Probed second_process True 0 250, Probed second_process True 0 310]) new_health) = (h', t', Some g)"
  by (simp add: failing_events_def first_process_def second_process_def check_one_def probe_failed_def begin_probe_def tracker_for_def new_health_def fresh_instance_def
      failure_threshold_def replace_async_def replace_finish_def Let_def)

subsection \<open>The running pool\<close>

text \<open>
  Manager, checker and the replacement goroutines that have been started and not yet run. The steps that happen by
  themselves are a tick of the checker, the body of a replacement goroutine and an evaluation of the scaler; an operator can
  also send a scale request. \<open>ps_lastScale\<close> is the scaler's field.
\<close>

record pool_sys =
  ps_mgr :: pool_manager
  ps_health :: health
  ps_inflight :: "(int \<times> nat) list"
  ps_lastScale :: time

inductive auto_step ::
  "pool_cfg \<Rightarrow> (tor_instance list \<Rightarrow> tor_instance list) \<Rightarrow> duration \<Rightarrow> pool_sys \<Rightarrow> pool_sys \<Rightarrow> bool"
  for cfg srt grace where
  tick: "check_all grace probe (pm_instances (ps_mgr s)) (ps_health s) = (h', ts, gs) \<Longrightarrow>
    auto_step cfg srt grace s
      (s\<lparr>ps_mgr := (ps_mgr s)\<lparr>pm_instances := ts\<rparr>, ps_health := h', ps_inflight := ps_inflight s @ gs\<rparr>)"
| replace: "ps_inflight s = xs @ (port, flag) # ys \<Longrightarrow>
    replace_instance env ctxErr port (ps_mgr s) = (e, m', killed) \<Longrightarrow>
    auto_step cfg srt grace s
      (s\<lparr>ps_mgr := m', ps_health := replace_finish (port, flag) (e = None) (ps_health s), ps_inflight := xs @ ys\<rparr>)"
| evaluate: "scaler_evaluate cfg srt (Some forget_port) env ctxErr (ps_lastScale s) now now2 (ps_mgr s) (ps_health s)
      = (last', m', h', killed) \<Longrightarrow>
    auto_step cfg srt grace s (s\<lparr>ps_mgr := m', ps_health := h', ps_lastScale := last'\<rparr>)"

inductive pool_sys_step ::
  "pool_cfg \<Rightarrow> (tor_instance list \<Rightarrow> tor_instance list) \<Rightarrow> duration \<Rightarrow> pool_sys \<Rightarrow> pool_sys \<Rightarrow> bool"
  for cfg srt grace where
  auto: "auto_step cfg srt grace s s' \<Longrightarrow> pool_sys_step cfg srt grace s s'"
| scale: "scale_to cfg srt (Some forget_port) env ctxErr target (ps_mgr s) (ps_health s) = (e, m', h', killed) \<Longrightarrow>
    pool_sys_step cfg srt grace s (s\<lparr>ps_mgr := m', ps_health := h'\<rparr>)"

text \<open>
  A pool without an alive instance is not revived by the scaler, and a pool that has become empty (which failed
  replacements can bring about) stays empty: no sequence of checker ticks, replacement goroutines and
  scaler evaluations ever spawns an instance again.
\<close>

theorem empty_pool_stays_empty:
  shows "(auto_step cfg srt grace)\<^sup>*\<^sup>* s s' \<Longrightarrow> pm_instances (ps_mgr s) = [] \<Longrightarrow> pm_instances (ps_mgr s') = []"
    and "alive_instances m = [] \<Longrightarrow> scaler_target cfg lastScale now m = None"
proof -
  have idle: "scaler_target cfg lastScale now m = None" if "alive_instances m = []" for lastScale now m
    using that by (auto simp: scaler_target_def pool_count_def alive_instances_def Let_def filter_empty_conv)
  then show "alive_instances m = [] \<Longrightarrow> scaler_target cfg lastScale now m = None" .
  have step: "pm_instances (ps_mgr s') = []" if "auto_step cfg srt grace s s'" "pm_instances (ps_mgr s) = []" for s s'
    using that
  proof cases
    case (replace xs port flag ys env ctxErr e m' killed)
    from replace(3) that(2) have "m' = ps_mgr s"
      by (auto simp: replace_instance_def split: if_splits)
    then show ?thesis using replace(1) that(2) by simp
  next
    case (evaluate env ctxErr now now2 last' m' h' killed)
    have "scaler_target cfg (ps_lastScale s) now (ps_mgr s) = None"
      using that(2) by (intro idle) (simp add: alive_instances_def)
    then show ?thesis using evaluate that(2) by (simp add: scaler_evaluate_def)
  qed auto
  show "pm_instances (ps_mgr s') = []" if "(auto_step cfg srt grace)\<^sup>*\<^sup>* s s'" "pm_instances (ps_mgr s) = []"
    using that by (induction rule: rtranclp_induct) (auto dest: step)
qed

theorem empty_pool_stays_empty_witness:
  "scaler_target \<lparr>pc_MinInstances = 2, pc_MaxInstances = 4, pc_SocksBasePort = 9050, pc_MinSuccessfulOnStart = 1,
        pc_Backends = [], pc_ScaleUpThreshold = 0, pc_ScaleDownThreshold = 0, pc_ScaleCooldown = 0\<rparr> zero_time 0 new_manager = None"
  by (rule empty_pool_stays_empty(2)) (simp add: alive_instances_def new_manager_def)

text \<open>The flags: every goroutine in flight holds a raised flag of its own.\<close>

definition flags_inv :: "health \<Rightarrow> (int \<times> nat) list \<Rightarrow> bool" where
  "flags_inv h gs \<longleftrightarrow>
     distinct (map snd gs) \<and> (\<forall>(p, f)\<in>set gs. hc_flags h f = Some True)
     \<and> (\<forall>f b. hc_flags h f = Some b \<longrightarrow> f < hc_next h)
     \<and> (\<forall>p f. hc_replacing h p = Some f \<longrightarrow> hc_flags h f \<noteq> None)"

lemma flags_inv_async:
  assumes "flags_inv h gs" and "replace_async port h = (h', g)"
  shows "flags_inv h' (gs @ (case g of None \<Rightarrow> [] | Some x \<Rightarrow> [x]))"
proof (cases "hc_replacing h port")
  case None
  have fresh: "hc_flags h (hc_next h) = None"
    using assms(1) unfolding flags_inv_def by (metis less_irrefl option.exhaust)
  then have "hc_next h \<notin> snd ` set gs" using assms(1) by (fastforce simp: flags_inv_def)
  moreover have "h' = h\<lparr>hc_replacing := (hc_replacing h)(port \<mapsto> hc_next h),
      hc_flags := (hc_flags h)(hc_next h \<mapsto> True), hc_next := hc_next h + 1\<rparr>" "g = Some (port, hc_next h)"
    using assms(2) None by (auto simp: replace_async_def Let_def)
  ultimately show ?thesis using assms(1) fresh unfolding flags_inv_def
    by (auto simp: less_Suc_eq split: if_splits)
next
  case (Some f)
  show ?thesis
  proof (cases "hc_flags h f = Some True")
    case True
    then show ?thesis using Some assms by (simp add: replace_async_def)
  next
    case False
    then have "f \<notin> snd ` set gs" using assms(1) by (fastforce simp: flags_inv_def)
    moreover have "h' = h\<lparr>hc_flags := (hc_flags h)(f \<mapsto> True)\<rparr>" "g = Some (port, f)"
      using assms(2) Some False by (auto simp: replace_async_def Let_def)
    moreover have "f < hc_next h" using Some assms(1) by (auto simp: flags_inv_def)
    ultimately show ?thesis using assms(1) unfolding flags_inv_def by (auto split: if_splits)
  qed
qed

lemma flags_inv_cong:
  "hc_flags h' = hc_flags h \<Longrightarrow> hc_replacing h' = hc_replacing h \<Longrightarrow> hc_next h' = hc_next h \<Longrightarrow>
     flags_inv h' gs = flags_inv h gs"
  by (simp add: flags_inv_def)

lemma flags_inv_probe_failed:
  assumes "flags_inv h gs" and "probe_failed grace port now h = (h', dead, g)"
  shows "flags_inv h' (gs @ (case g of None \<Rightarrow> [] | Some x \<Rightarrow> [x]))"
proof -
  let ?h2 = "h\<lparr>hc_trackers := (hc_trackers h)(port \<mapsto> tracker_for h port + 1), hc_transports := hc_transports h - {port}\<rparr>"
  have inv2: "flags_inv ?h2 gs" "flags_inv (?h2\<lparr>hc_quarantined := q\<rparr>) gs" for q
    using assms(1) by (simp_all add: flags_inv_def)
  show ?thesis
  proof (cases rule: probe_failed_cases[OF assms(2) refl])
    case 1
    then show ?thesis using assms(1) by (simp add: flags_inv_def)
  next
    case 2
    then show ?thesis using flags_inv_async[OF inv2(1)] by blast
  next
    case (3 since ex)
    then show ?thesis using flags_inv_async[OF inv2(2)] by blast
  next
    case 4
    then show ?thesis using inv2(1) by simp
  next
    case 5
    then show ?thesis using inv2(2) by simp
  qed
qed

lemma flags_inv_check_one:
  assumes "flags_inv h gs" and "check_one grace t failed latency now h = (h', t', g)"
  shows "flags_inv h' (gs @ (case g of None \<Rightarrow> [] | Some x \<Rightarrow> [x]))"
proof (cases failed)
  case True
  obtain h1 dead g1 where pf: "probe_failed grace (ti_Port t) now (begin_probe (ti_Port t) h) = (h1, dead, g1)"
    by (cases "probe_failed grace (ti_Port t) now (begin_probe (ti_Port t) h)")
  have "flags_inv (begin_probe (ti_Port t) h) gs" using assms(1) by (simp add: flags_inv_def)
  from flags_inv_probe_failed[OF this pf] show ?thesis
    using assms(2) True pf by (auto simp: check_one_def Let_def)
next
  case False
  then show ?thesis using assms by (auto simp: check_one_def Let_def flags_inv_def)
qed

lemma flags_inv_check_all:
  "flags_inv h gs \<Longrightarrow> check_all grace probe ts h = (h', ts', new) \<Longrightarrow> flags_inv h' (gs @ new)"
proof (induction grace probe ts h arbitrary: gs h' ts' new rule: check_all.induct)
  case (2 grace probe t ts h)
  obtain failed latency now where p: "probe t = (failed, latency, now)" by (cases "probe t")
  obtain h1 t1 g where c: "check_one grace t failed latency now h = (h1, t1, g)"
    by (cases "check_one grace t failed latency now h")
  obtain h2 ts2 rest where r: "check_all grace probe ts h1 = (h2, ts2, rest)"
    by (cases "check_all grace probe ts h1")
  note "2.IH"[OF p[symmetric] refl c[symmetric] refl flags_inv_check_one[OF "2.prems"(1) c] r]
  moreover have "h' = h2" "new = (case g of None \<Rightarrow> rest | Some x \<Rightarrow> x # rest)"
    using "2.prems"(2) p c r by (auto split: option.splits)
  ultimately show ?case by (cases g) simp_all
qed simp

lemma flags_inv_finish:
  assumes "flags_inv h (xs @ (port, flag) # ys)"
  shows "flags_inv (replace_finish (port, flag) ok h) (xs @ ys)"
proof -
  have frame: "hc_flags (replace_finish (port, flag) ok h) = (hc_flags h)(flag \<mapsto> False)"
    "hc_replacing (replace_finish (port, flag) ok h) = hc_replacing h"
    "hc_next (replace_finish (port, flag) ok h) = hc_next h"
    by (simp_all add: replace_finish_def Let_def)
  have "flag \<notin> snd ` set (xs @ ys)" using assms by (auto simp: flags_inv_def)
  then have other: "f \<noteq> flag" if "(p, f) \<in> set (xs @ ys)" for p f using that by force
  have raised: "hc_flags h flag = Some True" using assms by (auto simp: flags_inv_def)
  show ?thesis
    using assms other raised unfolding flags_inv_def frame
    by (intro conjI) (auto simp: fun_upd_def, fastforce+)
qed

lemma flags_inv_forget: "flags_inv h gs \<Longrightarrow> flags_inv (forget_port p h) gs"
  by (auto simp: flags_inv_def forget_port_def)

lemma flags_inv_forget_all: "flags_inv h gs \<Longrightarrow> flags_inv (fold (\<lambda>t. forget_port (ti_Port t)) ts h) gs"
  by (induction ts arbitrary: h) (simp_all add: flags_inv_forget)

lemma flags_inv_scale:
  "flags_inv h gs \<Longrightarrow> scale_to cfg srt (Some forget_port) env ctxErr target m h = (e, m', h', killed) \<Longrightarrow> flags_inv h' gs"
  by (auto simp: scale_to_def scale_to_locked_def Let_def flags_inv_forget_all split: if_splits prod.splits)

lemma flags_inv_step:
  assumes "pool_sys_step cfg srt grace s s'" and "flags_inv (ps_health s) (ps_inflight s)"
  shows "flags_inv (ps_health s') (ps_inflight s')"
  using assms(1)
proof cases
  case auto
  then show ?thesis
  proof cases
    case (tick probe h' ts gs)
    then show ?thesis using flags_inv_check_all[OF assms(2)] by simp
  next
    case (replace xs port flag ys env ctxErr e m' killed)
    then show ?thesis using flags_inv_finish[of "ps_health s" xs port flag ys] assms(2) by simp
  next
    case (evaluate env ctxErr now now2 last' m' h' killed)
    then show ?thesis using assms(2) flags_inv_scale[OF assms(2)]
      by (auto simp: scaler_evaluate_def split: option.splits prod.splits)
  qed
next
  case (scale env ctxErr target e m' h' killed)
  then show ?thesis using flags_inv_scale[OF assms(2)] by simp
qed

lemma one_replacement_per_port_parts:
  assumes "(pool_sys_step cfg srt grace)\<^sup>*\<^sup>*
      \<lparr>ps_mgr = m0, ps_health = new_health, ps_inflight = [], ps_lastScale = zero_time\<rparr> s"
  shows "distinct (map fst (filter (\<lambda>(p, f). hc_replacing (ps_health s) p = Some f) (ps_inflight s)))"
    and "(p, f) \<in> set (ps_inflight s) \<Longrightarrow> hc_replacing (ps_health s) p = Some f \<Longrightarrow>
      snd (replace_async p (ps_health s)) = None"
proof -
  have inv: "flags_inv (ps_health s) (ps_inflight s)"
    using assms
  proof (induction rule: rtranclp_induct)
    case base
    show ?case by (simp add: new_health_def flags_inv_def)
  next
    case (step y z)
    then show ?case using flags_inv_step by blast
  qed
  let ?reg = "filter (\<lambda>(p, f). hc_replacing (ps_health s) p = Some f) (ps_inflight s)"
  have "distinct (map snd ?reg)" using inv by (simp add: flags_inv_def distinct_map_filter)
  moreover have "inj_on fst (set ?reg)" by (auto simp: inj_on_def)
  ultimately show "distinct (map fst ?reg)" by (simp add: distinct_map)
  assume "(p, f) \<in> set (ps_inflight s)" "hc_replacing (ps_health s) p = Some f"
  then show "snd (replace_async p (ps_health s)) = None"
    using inv by (auto simp: flags_inv_def replace_async_def)
qed

text \<open>
  However ticks, replacement goroutines, scaler evaluations and scale requests interleave, at most one replacement
  per port is in flight among those whose flag the checker still has registered, and while one is, another
  replacement of the port is not started.
\<close>

theorem one_replacement_per_port:
  assumes "(pool_sys_step cfg srt grace)\<^sup>*\<^sup>*
      \<lparr>ps_mgr = m0, ps_health = new_health, ps_inflight = [], ps_lastScale = zero_time\<rparr> s"
  shows "(distinct (map fst (filter (\<lambda>(p, f). hc_replacing (ps_health s) p = Some f) (ps_inflight s))))
    \<and> ((p, f) \<in> set (ps_inflight s) \<longrightarrow> hc_replacing (ps_health s) p = Some f \<longrightarrow>
      snd (replace_async p (ps_health s)) = None)"
  using one_replacement_per_port_parts[OF assms] by blast

theorem one_replacement_per_port_witness:
  "distinct (map fst (filter (\<lambda>(p, f). hc_replacing new_health p = Some f) []))"
  using one_replacement_per_port[of undefined undefined 0 new_manager
      "\<lparr>ps_mgr = new_manager, ps_health = new_health, ps_inflight = [], ps_lastScale = zero_time\<rparr>"]
  by simp

end
