(* ===== verification/Selector.thy ===== *)
theory Selector
  imports Prelude "HOL-Library.Multiset"
begin

text \<open>
  Mirror selection of the door: \<^verbatim>\<open>internal/door/selection.go\<close>, the slug configuration and its validation in
  \<^verbatim>\<open>internal/config/door.go\<close>, and the mirror record of \<^verbatim>\<open>internal/shared/types.go\<close>. The round-robin
  counter is a 64-bit word; \<^verbatim>\<open>Pick\<close> returns it updated. The eight bytes read from \<^verbatim>\<open>crypto/rand\<close>
  are an argument, \<open>None\<close> when the read fails; the weights are Go ints, whose sum wraps.
\<close>

subsection \<open>Configuration\<close>

definition StrategyRandom :: string where "StrategyRandom = ''random''"
definition StrategyWeighted :: string where "StrategyWeighted = ''weighted''"
definition StrategyRoundRobin :: string where "StrategyRoundRobin = ''round_robin''"
definition CoverKindStaticFile :: string where "CoverKindStaticFile = ''static_file''"
definition CoverKindStaticHTML :: string where "CoverKindStaticHTML = ''static_html''"
definition CoverKindPassthrough404 :: string where "CoverKindPassthrough404 = ''passthrough_404''"

record cover_conf =
  cc_Enabled :: bool
  cc_Kind :: string
  cc_Path :: string
  cc_ContentType :: string
  cc_Headers :: "(string \<times> string) list"

record slug_conf =
  sc_Slug :: string
  sc_Strategy :: string
  sc_TargetTenants :: "string list"
  sc_Status :: int
  sc_ExcludeRegions :: "string list"
  sc_Weight :: int

record door_conf =
  dc_Cover :: cover_conf
  dc_Slugs :: "slug_conf list"

datatype door_error =
    DoorRequired | BadCoverKind | CoverPathRequired | NoSlugs
  | SlugRequired nat | BadStrategy nat | BadStatus nat

definition is_valid_cover_kind :: "string \<Rightarrow> bool" where
  "is_valid_cover_kind k \<longleftrightarrow> k = CoverKindStaticFile \<or> k = CoverKindStaticHTML \<or> k = CoverKindPassthrough404"

definition is_valid_strategy :: "string \<Rightarrow> bool" where
  "is_valid_strategy s \<longleftrightarrow> s = StrategyRandom \<or> s = StrategyWeighted \<or> s = StrategyRoundRobin"

text \<open>The loop over the slugs fills in defaults in place; the first bad entry ends it.\<close>

definition validate_slug :: "nat \<Rightarrow> slug_conf \<Rightarrow> door_error + slug_conf" where
  "validate_slug i s =
     (if sc_Slug s = [] then Inl (SlugRequired i)
      else
        (let s = (if sc_Strategy s = [] then s\<lparr>sc_Strategy := StrategyRandom\<rparr> else s) in
         if \<not> is_valid_strategy (sc_Strategy s) then Inl (BadStrategy i)
         else
           (let s = (if sc_Status s = 0 then s\<lparr>sc_Status := 302\<rparr> else s) in
            if sc_Status s \<noteq> 302 \<and> sc_Status s \<noteq> 307 then Inl (BadStatus i) else Inr s)))"

fun validate_slugs :: "nat \<Rightarrow> slug_conf list \<Rightarrow> door_error + slug_conf list" where
  "validate_slugs i [] = Inr []"
| "validate_slugs i (s # ss) =
     (case validate_slug i s of
        Inl e \<Rightarrow> Inl e
      | Inr s' \<Rightarrow> (case validate_slugs (Suc i) ss of Inl e \<Rightarrow> Inl e | Inr ss' \<Rightarrow> Inr (s' # ss')))"

definition validate_door :: "door_conf option \<Rightarrow> door_error + door_conf" where
  "validate_door d =
     (case d of
        None \<Rightarrow> Inl DoorRequired
      | Some d \<Rightarrow>
          let c = dc_Cover d in
          if cc_Enabled c \<and> \<not> is_valid_cover_kind (cc_Kind c) then Inl BadCoverKind
          else if cc_Enabled c \<and> cc_Kind c \<noteq> CoverKindPassthrough404 \<and> cc_Path c = [] then Inl CoverPathRequired
          else if dc_Slugs d = [] then Inl NoSlugs
          else (case validate_slugs 0 (dc_Slugs d) of
                  Inl e \<Rightarrow> Inl e
                | Inr ss \<Rightarrow> Inr (d\<lparr>dc_Slugs := ss\<rparr>)))"

subsection \<open>Selector\<close>

record mirror_info =
  mi_Host :: string
  mi_Verdict :: string
  mi_ManualBlock :: bool
  mi_Weight :: int
  mi_TargetTenants :: "string list"
  mi_BlockedRegions :: "string list"
  mi_Version :: "64 word"

record selector =
  sel_mirrors :: "mirror_info list"
  sel_rrCounter :: "64 word"

definition new_selector :: selector where
  "new_selector = \<lparr>sel_mirrors = [], sel_rrCounter = 0\<rparr>"

definition update_mirrors :: "mirror_info list \<Rightarrow> selector \<Rightarrow> selector" where
  "update_mirrors ms s = s\<lparr>sel_mirrors := ms\<rparr>"

fun upsert_in :: "mirror_info \<Rightarrow> mirror_info list \<Rightarrow> mirror_info list" where
  "upsert_in m [] = [m]"
| "upsert_in m (x # xs) = (if mi_Host x = mi_Host m then m # xs else x # upsert_in m xs)"

definition upsert_mirror :: "mirror_info \<Rightarrow> selector \<Rightarrow> selector" where
  "upsert_mirror m s = s\<lparr>sel_mirrors := upsert_in m (sel_mirrors s)\<rparr>"

fun remove_in :: "string \<Rightarrow> mirror_info list \<Rightarrow> mirror_info list" where
  "remove_in host [] = []"
| "remove_in host (x # xs) = (if mi_Host x = host then xs else x # remove_in host xs)"

definition remove_mirror :: "string \<Rightarrow> selector \<Rightarrow> selector" where
  "remove_mirror host s = s\<lparr>sel_mirrors := remove_in host (sel_mirrors s)\<rparr>"

definition tenants_match :: "string list \<Rightarrow> string list \<Rightarrow> bool" where
  "tenants_match mirrorTenants slugTenants =
     (if slugTenants = [] then True
      else if mirrorTenants = [] then False
      else list_ex (\<lambda>wanted. list_ex (\<lambda>got. wanted = got) mirrorTenants) slugTenants)"

definition region_blocked :: "string list \<Rightarrow> string list \<Rightarrow> bool" where
  "region_blocked mirrorBlocked excludeRegions =
     (if mirrorBlocked = [] \<or> excludeRegions = [] then False
      else list_ex (\<lambda>blocked. list_ex (\<lambda>ex. blocked = ex) excludeRegions) mirrorBlocked)"

definition mirror_eligible :: "mirror_info \<Rightarrow> slug_conf \<Rightarrow> bool" where
  "mirror_eligible m slug =
     (if mi_Verdict m \<noteq> ''live'' then False
      else if mi_ManualBlock m then False
      else if \<not> tenants_match (mi_TargetTenants m) (sc_TargetTenants slug) then False
      else if region_blocked (mi_BlockedRegions m) (sc_ExcludeRegions slug) then False
      else True)"

definition crypto_rand_intn :: "int \<Rightarrow> 64 word option \<Rightarrow> int" where
  "crypto_rand_intn n rnd =
     (if n \<le> 1 then 0
      else (case rnd of None \<Rightarrow> 0 | Some u \<Rightarrow> int (unat u mod nat n)))"

definition mirror_weight :: "mirror_info \<Rightarrow> int" where
  "mirror_weight m = (if mi_Weight m \<le> 0 then 1 else mi_Weight m)"

fun weighted_scan :: "int \<Rightarrow> int \<Rightarrow> mirror_info list \<Rightarrow> string option" where
  "weighted_scan r s [] = None"
| "weighted_scan r s (m # ms) =
     (let s' = wrap64 (s + mirror_weight m) in if r < s' then Some (mi_Host m) else weighted_scan r s' ms)"

definition pick_weighted :: "mirror_info list \<Rightarrow> 64 word option \<Rightarrow> string" where
  "pick_weighted c rnd =
     (let total = fold (\<lambda>m t. wrap64 (t + mirror_weight m)) c 0;
          r = crypto_rand_intn total rnd
      in case weighted_scan r 0 c of Some h \<Rightarrow> h | None \<Rightarrow> mi_Host (last c))"

definition pick_random :: "mirror_info list \<Rightarrow> 64 word option \<Rightarrow> string" where
  "pick_random c rnd = mi_Host (c ! nat (crypto_rand_intn (int (length c)) rnd))"

definition candidates :: "selector \<Rightarrow> slug_conf \<Rightarrow> mirror_info list" where
  "candidates s slug = filter (\<lambda>m. mirror_eligible m slug) (sel_mirrors s)"

definition pick :: "selector \<Rightarrow> slug_conf \<Rightarrow> 64 word option \<Rightarrow> string option \<times> selector" where
  "pick s slug rnd =
     (let cs = candidates s slug in
      if cs = [] then (None, s)
      else if sc_Strategy slug = StrategyRoundRobin then
        (let idx = sel_rrCounter s
         in (Some (mi_Host (cs ! (unat idx mod length cs))), s\<lparr>sel_rrCounter := sel_rrCounter s + 1\<rparr>))
      else if sc_Strategy slug = StrategyWeighted then (Some (pick_weighted cs rnd), s)
      else (Some (pick_random cs rnd), s))"

subsection \<open>Validation\<close>

lemma validate_slug_Inr:
  "validate_slug i s = Inr s' \<Longrightarrow>
     sc_Slug s' = sc_Slug s \<and> sc_Slug s \<noteq> [] \<and> is_valid_strategy (sc_Strategy s') \<and> sc_Status s' \<in> {302, 307}"
  by (auto simp: validate_slug_def Let_def split: if_splits)

lemma validate_slugs_Inr:
  "validate_slugs i ss = Inr ss' \<Longrightarrow>
     map sc_Slug ss' = map sc_Slug ss
     \<and> list_all (\<lambda>s. sc_Slug s \<noteq> [] \<and> is_valid_strategy (sc_Strategy s) \<and> sc_Status s \<in> {302, 307}) ss'"
  by (induction i ss arbitrary: ss' rule: validate_slugs.induct)
     (auto split: sum.splits dest: validate_slug_Inr)

subsection \<open>Picking\<close>

text \<open>The specification of the filter chain.\<close>

definition eligible :: "mirror_info \<Rightarrow> slug_conf \<Rightarrow> bool" where
  "eligible m slug \<longleftrightarrow>
     mi_Verdict m = ''live'' \<and> \<not> mi_ManualBlock m
     \<and> (sc_TargetTenants slug = [] \<or> set (mi_TargetTenants m) \<inter> set (sc_TargetTenants slug) \<noteq> {})
     \<and> set (mi_BlockedRegions m) \<inter> set (sc_ExcludeRegions slug) = {}"

lemma mirror_eligible_eq: "mirror_eligible m slug = eligible m slug"
  by (auto simp: mirror_eligible_def eligible_def tenants_match_def region_blocked_def list_ex_iff)

lemma crypto_rand_intn_range: "0 < n \<Longrightarrow> 0 \<le> crypto_rand_intn n rnd \<and> crypto_rand_intn n rnd < n"
proof -
  assume n: "0 < n"
  have "unat u mod nat n < nat n" for u :: "64 word" using n by simp
  then show ?thesis using n by (auto simp: crypto_rand_intn_def zless_nat_eq_int_zless split: option.splits)
qed

lemma weighted_scan_in: "weighted_scan r s ms = Some h \<Longrightarrow> h \<in> mi_Host ` set ms"
  by (induction r s ms rule: weighted_scan.induct) (auto simp: Let_def split: if_splits)

lemma pick_weighted_in: "c \<noteq> [] \<Longrightarrow> pick_weighted c rnd \<in> mi_Host ` set c"
  by (auto simp: pick_weighted_def Let_def dest: weighted_scan_in split: option.splits)

lemma pick_random_in: "c \<noteq> [] \<Longrightarrow> pick_random c rnd \<in> mi_Host ` set c"
  using crypto_rand_intn_range[of "int (length c)" rnd] by (simp add: pick_random_def nat_less_iff)

lemma pick_cases:
  "pick s slug rnd = (r, s') \<Longrightarrow>
     (if candidates s slug = [] then r = None \<and> s' = s
      else (\<exists>m\<in>set (candidates s slug). r = Some (mi_Host m)) \<and> sel_mirrors s' = sel_mirrors s)"
  using pick_weighted_in[of "candidates s slug" rnd] pick_random_in[of "candidates s slug" rnd]
  by (auto simp: pick_def Let_def split: if_splits)

lemma pick_eligible_only_parts:
  shows "fst (pick s slug rnd) = None \<longleftrightarrow> (\<forall>m\<in>set (sel_mirrors s). \<not> eligible m slug)"
    and "fst (pick s slug rnd) = Some host \<Longrightarrow> \<exists>m\<in>set (sel_mirrors s). mi_Host m = host \<and> eligible m slug"
proof -
  obtain r s' where r: "pick s slug rnd = (r, s')" by fastforce
  have cs: "m \<in> set (candidates s slug) \<longleftrightarrow> m \<in> set (sel_mirrors s) \<and> eligible m slug" for m
    by (simp add: candidates_def mirror_eligible_eq)
  show "fst (pick s slug rnd) = None \<longleftrightarrow> (\<forall>m\<in>set (sel_mirrors s). \<not> eligible m slug)"
  proof -
    have "candidates s slug = [] \<longleftrightarrow> (\<forall>m\<in>set (sel_mirrors s). \<not> eligible m slug)"
      by (simp add: candidates_def mirror_eligible_eq filter_empty_conv)
    then show ?thesis using pick_cases[OF r] r by (auto split: if_splits)
  qed
  assume "fst (pick s slug rnd) = Some host"
  then show "\<exists>m\<in>set (sel_mirrors s). mi_Host m = host \<and> eligible m slug"
    using pick_cases[OF r] r cs by (auto split: if_splits)
qed

text \<open>
  Whatever the strategy, the counter and the random bytes, \<^verbatim>\<open>Pick\<close> finds a mirror exactly when one is eligible, and the host
  it returns is that of an eligible mirror: live, not manually blocked, serving one of the slug's tenants (if it names any) and not blocked in an excluded
  region.
\<close>

theorem pick_eligible_only:
  shows "(fst (pick s slug rnd) = None \<longleftrightarrow> (\<forall>m\<in>set (sel_mirrors s). \<not> eligible m slug))
    \<and> (fst (pick s slug rnd) = Some host \<longrightarrow> (\<exists>m\<in>set (sel_mirrors s). mi_Host m = host \<and> eligible m slug))"
  using pick_eligible_only_parts by blast

theorem pick_eligible_only_witness:
  "\<exists>m\<in>{\<lparr>mi_Host = ''m'', mi_Verdict = ''live'', mi_ManualBlock = False, mi_Weight = 1, mi_TargetTenants = [],
         mi_BlockedRegions = [], mi_Version = 1\<rparr>}. mi_Host m = ''m'' \<and>
     eligible m \<lparr>sc_Slug = ''s'', sc_Strategy = StrategyRandom, sc_TargetTenants = [], sc_Status = 302,
                 sc_ExcludeRegions = [], sc_Weight = 0\<rparr>"
  using pick_eligible_only[of "\<lparr>sel_mirrors = [\<lparr>mi_Host = ''m'', mi_Verdict = ''live'', mi_ManualBlock = False,
      mi_Weight = 1, mi_TargetTenants = [], mi_BlockedRegions = [], mi_Version = 1\<rparr>], sel_rrCounter = 0\<rparr>"
    "\<lparr>sc_Slug = ''s'', sc_Strategy = StrategyRandom, sc_TargetTenants = [], sc_Status = 302,
      sc_ExcludeRegions = [], sc_Weight = 0\<rparr>" None "''m''"]
  by (simp add: pick_def candidates_def mirror_eligible_def tenants_match_def region_blocked_def
      StrategyRandom_def StrategyRoundRobin_def StrategyWeighted_def pick_random_def crypto_rand_intn_def)

text \<open>A run of consecutive picks for one slug.\<close>

fun pick_run :: "nat \<Rightarrow> selector \<Rightarrow> slug_conf \<Rightarrow> string list" where
  "pick_run 0 s slug = []"
| "pick_run (Suc n) s slug =
     (case pick s slug None of (None, s') \<Rightarrow> [] | (Some h, s') \<Rightarrow> h # pick_run n s' slug)"

lemma candidates_counter [simp]: "candidates (s\<lparr>sel_rrCounter := c\<rparr>) slug = candidates s slug"
  by (simp add: candidates_def)

lemma pick_run_round_robin:
  assumes "sc_Strategy slug = StrategyRoundRobin" and "candidates s slug \<noteq> []"
    and "unat (sel_rrCounter s) + n \<le> 2 ^ 64"
  shows "pick_run n s slug = map (\<lambda>i. mi_Host (candidates s slug ! ((unat (sel_rrCounter s) + i) mod length (candidates s slug)))) [0..<n]"
  using assms
proof (induction n arbitrary: s)
  case (Suc n)
  let ?s' = "s\<lparr>sel_rrCounter := sel_rrCounter s + 1\<rparr>"
  let ?cs = "candidates s slug"
  have step: "pick s slug None = (Some (mi_Host (?cs ! (unat (sel_rrCounter s) mod length ?cs))), ?s')"
    using Suc.prems by (simp add: pick_def Let_def)
  show ?case
  proof (cases n)
    case 0
    then show ?thesis using step by simp
  next
    case (Suc k)
    then have "unat (sel_rrCounter s) + 1 < 2 ^ LENGTH(64)" using Suc.prems(3) by simp
    then have "unat (sel_rrCounter s + 1) = unat (sel_rrCounter s) + 1"
      by (simp add: unat_word_ariths)
    moreover from this have "pick_run n ?s' slug =
        map (\<lambda>i. mi_Host (?cs ! ((unat (sel_rrCounter s) + 1 + i) mod length ?cs))) [0..<n]"
      using Suc.IH[of ?s'] Suc.prems by simp
    ultimately show ?thesis
      using step by (simp add: map_upt_Suc del: upt_Suc)
  qed
qed simp

lemma rotate_as_map: "xs \<noteq> [] \<Longrightarrow> map (\<lambda>i. xs ! ((m + i) mod length xs)) [0..<length xs] = rotate m xs"
  by (intro nth_equalityI) (simp_all add: nth_rotate)

lemma mset_rotate_eq: "mset (rotate m xs) = mset xs"
proof (induction m)
  case (Suc m)
  have "mset (rotate1 ys) = mset ys" for ys :: "'a list" by (cases ys) simp_all
  with Suc show ?case by simp
qed simp

lemma round_robin_fair_parts:
  assumes "sc_Strategy slug = StrategyRoundRobin" and "candidates s slug = cs" and "cs \<noteq> []"
    and "unat (sel_rrCounter s) + length cs \<le> 2 ^ 64"
  shows "pick_run (length cs) s slug = map mi_Host (rotate (unat (sel_rrCounter s)) cs)"
    and "mset (pick_run (length cs) s slug) = mset (map mi_Host cs)"
proof -
  have "pick_run (length cs) s slug
      = map mi_Host (map (\<lambda>i. cs ! ((unat (sel_rrCounter s) + i) mod length cs)) [0..<length cs])"
    using pick_run_round_robin[OF assms(1)] assms by simp
  then show r: "pick_run (length cs) s slug = map mi_Host (rotate (unat (sel_rrCounter s)) cs)"
    by (simp only: rotate_as_map[OF assms(3)])
  show "mset (pick_run (length cs) s slug) = mset (map mi_Host cs)"
    by (simp add: r mset_rotate_eq)
qed

text \<open>
  Round robin is fair: as long as the 64-bit counter does not wrap, the picks of a slug walk through its candidates in the order of the table,
  so that any \<open>n\<close> consecutive picks among \<open>n\<close> candidates return each of them exactly once.
\<close>

theorem round_robin_fair:
  assumes "sc_Strategy slug = StrategyRoundRobin" and "candidates s slug = cs" and "cs \<noteq> []"
    and "unat (sel_rrCounter s) + length cs \<le> 2 ^ 64"
  shows "(pick_run (length cs) s slug = map mi_Host (rotate (unat (sel_rrCounter s)) cs))
    \<and> (mset (pick_run (length cs) s slug) = mset (map mi_Host cs))"
  using round_robin_fair_parts[OF assms] by blast

definition demo_mirror :: "string \<Rightarrow> int \<Rightarrow> mirror_info" where
  "demo_mirror host w = \<lparr>mi_Host = host, mi_Verdict = ''live'', mi_ManualBlock = False, mi_Weight = w,
     mi_TargetTenants = [], mi_BlockedRegions = [], mi_Version = 1\<rparr>"

definition demo_slug :: "string \<Rightarrow> slug_conf" where
  "demo_slug strategy = \<lparr>sc_Slug = ''s'', sc_Strategy = strategy, sc_TargetTenants = [], sc_Status = 302,
     sc_ExcludeRegions = [], sc_Weight = 0\<rparr>"

theorem round_robin_fair_witness:
  "mset (pick_run 2 \<lparr>sel_mirrors = [demo_mirror ''a'' 1, demo_mirror ''b'' 1], sel_rrCounter = 5\<rparr> (demo_slug StrategyRoundRobin))
     = mset [''a'', ''b'']"
proof -
  let ?s = "\<lparr>sel_mirrors = [demo_mirror ''a'' 1, demo_mirror ''b'' 1], sel_rrCounter = 5\<rparr>"
  let ?cs = "[demo_mirror ''a'' 1, demo_mirror ''b'' 1]"
  have cs: "candidates ?s (demo_slug StrategyRoundRobin) = ?cs"
    by (simp add: candidates_def demo_mirror_def demo_slug_def mirror_eligible_def tenants_match_def region_blocked_def)
  have "mset (pick_run (length ?cs) ?s (demo_slug StrategyRoundRobin)) = mset (map mi_Host ?cs)"
    by (rule round_robin_fair[OF _ cs, THEN conjunct2]) (simp_all add: demo_slug_def)
  moreover have "length ?cs = 2" "map mi_Host ?cs = [''a'', ''b'']" by (simp_all add: demo_mirror_def)
  ultimately show ?thesis by (simp only:)
qed

lemma mirror_weight_pos: "0 < mirror_weight m"
  by (simp add: mirror_weight_def)

lemma weights_fold:
  "0 \<le> t \<Longrightarrow> t + sum_list (map mirror_weight c) \<le> max_int64 \<Longrightarrow>
     fold (\<lambda>m t. wrap64 (t + mirror_weight m)) c t = t + sum_list (map mirror_weight c)"
proof (induction c arbitrary: t)
  case (Cons m c)
  have "0 \<le> sum_list (map mirror_weight c)" by (rule sum_list_nonneg) (auto simp: mirror_weight_def)
  then have "wrap64 (t + mirror_weight m) = t + mirror_weight m"
    using Cons.prems mirror_weight_pos[of m] by (intro wrap64_id) (auto simp: min_int64_def)
  then show ?case using Cons mirror_weight_pos[of m] by (simp add: add.assoc)
qed simp

text \<open>Of the numbers from \<open>s\<close> up to the sum of the weights, as many as its weight select a candidate.\<close>

lemma weighted_scan_share:
  "0 \<le> s \<Longrightarrow> s + sum_list (map mirror_weight c) \<le> max_int64 \<Longrightarrow> distinct (map mi_Host c) \<Longrightarrow> m \<in> set c \<Longrightarrow>
     card {r \<in> {s..<s + sum_list (map mirror_weight c)}. weighted_scan r s c = Some (mi_Host m)} = nat (mirror_weight m)"
proof (induction c arbitrary: s)
  case (Cons x c)
  let ?w = "mirror_weight x" and ?W = "sum_list (map mirror_weight c)"
  have W: "0 \<le> ?W" by (rule sum_list_nonneg) (auto simp: mirror_weight_def)
  have s': "wrap64 (s + ?w) = s + ?w"
    using Cons.prems W mirror_weight_pos[of x] by (intro wrap64_id) (auto simp: min_int64_def)
  show ?case
  proof (cases "m = x")
    case True
    have "weighted_scan r (s + ?w) c \<noteq> Some (mi_Host x)" for r
      using weighted_scan_in[of r "s + ?w" c "mi_Host x"] Cons.prems(3) by auto
    then have "{r \<in> {s..<s + sum_list (map mirror_weight (x # c))}. weighted_scan r s (x # c) = Some (mi_Host m)} = {s..<s + ?w}"
      using True W by (auto simp: s' Let_def)
    then show ?thesis using True by simp
  next
    case False
    then have mc: "m \<in> set c" using Cons.prems(4) by simp
    then have "mi_Host m \<in> mi_Host ` set c" by (rule imageI)
    moreover have "mi_Host x \<notin> mi_Host ` set c" using Cons.prems(3) by simp
    ultimately have m: "m \<in> set c" "mi_Host m \<noteq> mi_Host x" using mc by metis+
    then have "{r \<in> {s..<s + sum_list (map mirror_weight (x # c))}. weighted_scan r s (x # c) = Some (mi_Host m)}
        = {r \<in> {s + ?w..<s + ?w + ?W}. weighted_scan r (s + ?w) c = Some (mi_Host m)}"
      using mirror_weight_pos[of x] by (auto simp: s' Let_def)
    then show ?thesis
      using Cons.IH[of "s + ?w"] Cons.prems m(1) mirror_weight_pos[of x] by (simp add: add.assoc)
  qed
qed simp

lemma pick_weighted_index:
  assumes "sum_list (map mirror_weight c) \<le> max_int64" and "int r < sum_list (map mirror_weight c)"
  shows "pick_weighted c (Some (of_nat r)) =
    (case weighted_scan (int r) 0 c of Some h \<Rightarrow> h | None \<Rightarrow> mi_Host (last c))"
proof -
  let ?W = "sum_list (map mirror_weight c)"
  have "int r < 2 ^ 64" using assms by (simp add: max_int64_def)
  then have "r < 2 ^ LENGTH(64)" by simp
  then have "unat (of_nat r :: 64 word) = r" by (simp add: unat_of_nat take_bit_nat_eq_self)
  then have "crypto_rand_intn ?W (Some (of_nat r)) = int r"
    using assms(2) by (auto simp: crypto_rand_intn_def nat_less_iff)
  then show ?thesis
    using weights_fold[of 0 c] assms(1) by (simp add: pick_weighted_def)
qed

lemma weighted_scan_total:
  assumes "0 \<le> s" and "s + sum_list (map mirror_weight c) \<le> max_int64" and "s \<le> r" and "r < s + sum_list (map mirror_weight c)"
  shows "weighted_scan r s c \<noteq> None"
  using assms
proof (induction c arbitrary: s)
  case (Cons x c)
  have W: "0 \<le> sum_list (map mirror_weight c)" by (rule sum_list_nonneg) (auto simp: mirror_weight_def)
  have "wrap64 (s + mirror_weight x) = s + mirror_weight x"
    using Cons.prems W mirror_weight_pos[of x] by (intro wrap64_id) (auto simp: min_int64_def)
  then show ?case using Cons mirror_weight_pos[of x] by (simp add: add.assoc Let_def)
qed simp

text \<open>
  Weighted selection is proportional: when the weights (non-positive ones counted as one) sum up within the \<^verbatim>\<open>int\<close> range to \<open>W\<close>
  and the hosts differ, exactly \<open>weight\<close> of the \<open>W\<close> residues that the random number can have select a given candidate.
\<close>

theorem weighted_pick_proportional:
  assumes "sum_list (map mirror_weight c) \<le> max_int64" and "distinct (map mi_Host c)" and "m \<in> set c"
  shows "card {r. int r < sum_list (map mirror_weight c) \<and> pick_weighted c (Some (of_nat r)) = mi_Host m}
    = nat (mirror_weight m)"
proof -
  let ?W = "sum_list (map mirror_weight c)"
  let ?R = "{r \<in> {0..<0 + ?W}. weighted_scan r 0 c = Some (mi_Host m)}"
  have eq: "pick_weighted c (Some (of_nat r)) = mi_Host m \<longleftrightarrow> weighted_scan (int r) 0 c = Some (mi_Host m)"
    if "int r < ?W" for r
    using pick_weighted_index[OF assms(1) that] weighted_scan_total[of 0 c "int r"] assms(1) that
    by (auto split: option.splits)
  have "{r. int r < ?W \<and> pick_weighted c (Some (of_nat r)) = mi_Host m} = nat ` ?R"
  proof (intro set_eqI iffI)
    fix r
    assume "r \<in> {r. int r < ?W \<and> pick_weighted c (Some (of_nat r)) = mi_Host m}"
    then have "int r \<in> ?R" using eq[of r] by simp
    then show "r \<in> nat ` ?R" by (rule rev_image_eqI) simp
  next
    fix r
    assume "r \<in> nat ` ?R"
    then obtain i where "i \<in> ?R" "r = nat i" by (rule imageE)
    then have "int r \<in> ?R" by simp
    then show "r \<in> {r. int r < ?W \<and> pick_weighted c (Some (of_nat r)) = mi_Host m}" using eq[of r] by simp
  qed
  moreover have "inj_on nat ?R" by (auto simp: inj_on_def)
  ultimately show ?thesis
    using weighted_scan_share[of 0 c m] assms by (simp add: card_image)
qed

theorem weighted_pick_proportional_witness:
  "card {r. int r < sum_list (map mirror_weight [demo_mirror ''a'' 3, demo_mirror ''b'' 0])
      \<and> pick_weighted [demo_mirror ''a'' 3, demo_mirror ''b'' 0] (Some (of_nat r)) = mi_Host (demo_mirror ''a'' 3)} = 3"
proof -
  have "nat (mirror_weight (demo_mirror ''a'' 3)) = 3" by (simp add: demo_mirror_def mirror_weight_def)
  then show ?thesis
    by (subst weighted_pick_proportional) (simp_all add: demo_mirror_def mirror_weight_def max_int64_def)
qed

end
