(* ===== verification/Sse.thy ===== *)
theory Sse
  imports Prelude
begin

text \<open>
  The wire between hub and door: the events of \<^verbatim>\<open>internal/shared/events.go\<close>, the frame writer of
  \<^verbatim>\<open>internal/hub/stream.go\<close> and the frame parser of \<^verbatim>\<open>internal/door/snapshot.go\<close>. JSON encoding
  (\<^verbatim>\<open>encoding/json\<close> on the event struct) is a pair of function arguments; the theorems state what they need of it
  for the events that are sent. A connection is the bytes that arrive and how they end; \<open>ctx i\<close> says whether the context
  is cancelled when the loop tests it for the \<open>i\<close>th time.
\<close>

subsection \<open>Events\<close>

definition EventSnapshot :: string where "EventSnapshot = ''snapshot''"
definition EventTenantUpsert :: string where "EventTenantUpsert = ''tenant_upsert''"
definition EventTenantDelete :: string where "EventTenantDelete = ''tenant_delete''"
definition EventGlobalsUpdate :: string where "EventGlobalsUpdate = ''globals_update''"
definition EventMirrorSnapshot :: string where "EventMirrorSnapshot = ''mirror_snapshot''"
definition EventMirrorUpsert :: string where "EventMirrorUpsert = ''mirror_upsert''"
definition EventMirrorDelete :: string where "EventMirrorDelete = ''mirror_delete''"

record config_stream_event =
  ev_Type :: string
  ev_Data :: string
  ev_Timestamp :: time

subsection \<open>Writing frames\<close>

definition write_sse :: "(config_stream_event \<Rightarrow> string option) \<Rightarrow> config_stream_event \<Rightarrow> string option" where
  "write_sse marshal ev =
     (case marshal ev of
        None \<Rightarrow> None
      | Some payload \<Rightarrow>
          Some (''event: '' @ ev_Type ev @ [CHR 0x0A] @ ''data: '' @ payload @ [CHR 0x0A, CHR 0x0A]))"

definition keepalive :: string where
  "keepalive = '': keepalive'' @ [CHR 0x0A, CHR 0x0A]"

subsection \<open>Parsing frames\<close>

datatype sse_error = StreamClosedBeforeEvent | ReadError string
datatype stream_end = EndEOF | EndErr string

record sse_state =
  ss_evType :: string
  ss_data :: string
  ss_events :: "config_stream_event list"

definition sse_init :: sse_state where
  "sse_init = \<lparr>ss_evType = [], ss_data = [], ss_events = []\<rparr>"

definition trim_right_crlf :: "string \<Rightarrow> string" where
  "trim_right_crlf s = rev (dropWhile (\<lambda>c. c = CHR 0x0D \<or> c = CHR 0x0A) (rev s))"

definition handle_line :: "string \<Rightarrow> sse_state \<Rightarrow> sse_state" where
  "handle_line line st =
     (if has_prefix line '':'' then st
      else (case index_byte line CHR '':'' of
              None \<Rightarrow> st
            | Some idx \<Rightarrow>
                let key = take idx line;
                    val0 = drop (Suc idx) line;
                    val = (if has_prefix val0 '' '' then drop 1 val0 else val0)
                in if key = ''event'' then st\<lparr>ss_evType := val\<rparr>
                   else if key = ''data'' then
                     (let d = (if ss_data st \<noteq> [] then ss_data st @ [CHR 0x0A] else ss_data st)
                      in st\<lparr>ss_data := d @ val\<rparr>)
                   else st))"

text \<open>
  The closure \<^verbatim>\<open>flush\<close>: its first result and the state it leaves. The time of a synthesised event is the zero value.
\<close>

definition flush_event :: "(string \<Rightarrow> config_stream_event option) \<Rightarrow> sse_state \<Rightarrow> config_stream_event option" where
  "flush_event unmarshal st =
     (if ss_data st = [] then None
      else (case unmarshal (ss_data st) of
              Some ev \<Rightarrow> Some ev
            | None \<Rightarrow>
                if ss_evType st \<noteq> [] then Some \<lparr>ev_Type = ss_evType st, ev_Data = ss_data st, ev_Timestamp = zero_time\<rparr>
                else None))"

definition sse_flush :: "(string \<Rightarrow> config_stream_event option) \<Rightarrow> int \<Rightarrow> sse_state \<Rightarrow> bool \<times> sse_state" where
  "sse_flush unmarshal stop st =
     (case flush_event unmarshal st of
        None \<Rightarrow> (False, st\<lparr>ss_evType := [], ss_data := []\<rparr>)
      | Some ev \<Rightarrow>
          (let evs = ss_events st @ [ev]
           in (0 \<le> stop \<and> stop \<le> int (length evs), \<lparr>ss_evType = [], ss_data = [], ss_events = evs\<rparr>)))"

function parse_sse ::
  "(string \<Rightarrow> config_stream_event option) \<Rightarrow> (nat \<Rightarrow> bool) \<Rightarrow> stream_end \<Rightarrow> int \<Rightarrow> nat \<Rightarrow> string \<Rightarrow> sse_state
     \<Rightarrow> sse_state \<times> string \<times> sse_error option" where
  "parse_sse unmarshal ctx ending stop i inp st =
     (if ctx i then (st, inp, None)
      else (case index_byte inp (CHR 0x0A) of
              None \<Rightarrow>
                (case ending of
                   EndErr e \<Rightarrow> (st, [], Some (ReadError e))
                 | EndEOF \<Rightarrow>
                     (let st' = (if inp \<noteq> [] then snd (sse_flush unmarshal stop (handle_line inp st)) else st)
                      in if 0 \<le> stop \<and> int (length (ss_events st')) < stop
                         then (st', [], Some StreamClosedBeforeEvent) else (st', [], None)))
            | Some k \<Rightarrow>
                let trimmed = trim_right_crlf (take (Suc k) inp); rest = drop (Suc k) inp
                in if trimmed = [] then
                     (case sse_flush unmarshal stop st of
                        (done, st') \<Rightarrow> if done then (st', rest, None) else parse_sse unmarshal ctx ending stop (Suc i) rest st')
                   else parse_sse unmarshal ctx ending stop (Suc i) rest (handle_line trimmed st)))"
  by pat_completeness auto
termination
  by (relation "measure (\<lambda>(_, _, _, _, _, inp, _). length inp)")
     (auto dest: index_byte_Some)

declare parse_sse.simps [simp del]

text \<open>
  \<^verbatim>\<open>readAllEvents\<close> and \<^verbatim>\<open>readOneEvent\<close>: the events delivered, the bytes left in the buffered reader and the error.
\<close>

definition read_all_events ::
  "(string \<Rightarrow> config_stream_event option) \<Rightarrow> (nat \<Rightarrow> bool) \<Rightarrow> stream_end \<Rightarrow> string
     \<Rightarrow> config_stream_event list \<times> string \<times> sse_error option" where
  "read_all_events unmarshal ctx ending inp =
     (case parse_sse unmarshal ctx ending (- 1) 0 inp sse_init of (st, rest, e) \<Rightarrow> (ss_events st, rest, e))"

definition read_one_event ::
  "(string \<Rightarrow> config_stream_event option) \<Rightarrow> (nat \<Rightarrow> bool) \<Rightarrow> stream_end \<Rightarrow> string
     \<Rightarrow> config_stream_event list \<times> string \<times> sse_error option" where
  "read_one_event unmarshal ctx ending inp =
     (case parse_sse unmarshal ctx ending 1 0 inp sse_init of (st, rest, e) \<Rightarrow> (ss_events st, rest, e))"

lemmas [gw_defs] = write_sse_def handle_line_def flush_event_def sse_flush_def

subsection \<open>One line at a time\<close>

lemma trim_right_crlf_line:
  "s \<noteq> [] \<Longrightarrow> last s \<noteq> CHR 0x0D \<Longrightarrow> last s \<noteq> CHR 0x0A \<Longrightarrow> trim_right_crlf (s @ [CHR 0x0A]) = s"
  by (cases s rule: rev_cases) (simp_all add: trim_right_crlf_def)

lemma trim_right_crlf_snoc [simp]: "trim_right_crlf (s @ [CHR 0x0A]) = trim_right_crlf s"
  by (simp add: trim_right_crlf_def)

lemma trim_right_crlf_Nil [simp]: "trim_right_crlf [] = []"
  by (simp add: trim_right_crlf_def)

lemma trim_right_crlf_Cons:
  "x \<noteq> CHR 0x0D \<Longrightarrow> x \<noteq> CHR 0x0A \<Longrightarrow> trim_right_crlf (x # s) = x # trim_right_crlf s"
  by (auto simp: trim_right_crlf_def dropWhile_append)

lemma parse_blank_line:
  assumes "\<not> ctx i"
  shows "parse_sse unmarshal ctx ending stop i (CHR 0x0A # rest) st =
     (case sse_flush unmarshal stop st of
        (done, st') \<Rightarrow> if done then (st', rest, None) else parse_sse unmarshal ctx ending stop (Suc i) rest st')"
proof -
  have "trim_right_crlf [CHR 0x0A] = []" by (simp add: trim_right_crlf_def)
  then show ?thesis by (subst parse_sse.simps) (simp add: assms)
qed

lemma parse_line:
  assumes "\<not> ctx i" and "CHR 0x0A \<notin> set s" and "trim_right_crlf s \<noteq> []"
  shows "parse_sse unmarshal ctx ending stop i (s @ CHR 0x0A # rest) st
    = parse_sse unmarshal ctx ending stop (Suc i) rest (handle_line (trim_right_crlf s) st)"
  using assms index_byte_append[OF assms(2), of rest]
  by (subst parse_sse.simps) simp

lemma handle_event_line: "handle_line (''event: '' @ v) st = st\<lparr>ss_evType := v\<rparr>"
  by (simp add: handle_line_def has_prefix_def)

lemma handle_data_line: "ss_data st = [] \<Longrightarrow> handle_line (''data: '' @ v) st = st\<lparr>ss_data := v\<rparr>"
  by (simp add: handle_line_def has_prefix_def)

lemma handle_comment: "handle_line (CHR '':'' # v) st = st"
  by (simp add: handle_line_def has_prefix_def)

subsection \<open>Frames\<close>

text \<open>
  What the wire needs of the JSON encoding of an event: one non-empty line that decodes to the event again.
\<close>

definition wire_ok ::
  "(config_stream_event \<Rightarrow> string option) \<Rightarrow> (string \<Rightarrow> config_stream_event option) \<Rightarrow> config_stream_event \<Rightarrow> bool" where
  "wire_ok marshal unmarshal ev \<longleftrightarrow>
     CHR 0x0A \<notin> set (ev_Type ev)
     \<and> (case marshal ev of
          None \<Rightarrow> False
        | Some p \<Rightarrow> p \<noteq> [] \<and> CHR 0x0A \<notin> set p \<and> last p \<noteq> CHR 0x0D \<and> unmarshal p = Some ev)"

text \<open>What the stream handler writes: event frames and keepalive comments.\<close>

datatype wire_item = Frame config_stream_event | Keepalive

fun item_bytes :: "(config_stream_event \<Rightarrow> string option) \<Rightarrow> wire_item \<Rightarrow> string" where
  "item_bytes marshal (Frame ev) = (case write_sse marshal ev of None \<Rightarrow> [] | Some s \<Rightarrow> s)"
| "item_bytes marshal Keepalive = keepalive"

fun item_events :: "wire_item \<Rightarrow> config_stream_event list" where
  "item_events (Frame ev) = [ev]"
| "item_events Keepalive = []"

definition wire_bytes :: "(config_stream_event \<Rightarrow> string option) \<Rightarrow> wire_item list \<Rightarrow> string" where
  "wire_bytes marshal items = concat (map (item_bytes marshal) items)"

definition wire_events :: "wire_item list \<Rightarrow> config_stream_event list" where
  "wire_events items = concat (map item_events items)"

abbreviation never :: "nat \<Rightarrow> bool" where
  "never \<equiv> \<lambda>_. False"

abbreviation clean_state :: "config_stream_event list \<Rightarrow> sse_state" where
  "clean_state evs \<equiv> \<lparr>ss_evType = [], ss_data = [], ss_events = evs\<rparr>"

lemma trim_right_data:
  "p \<noteq> [] \<Longrightarrow> last p \<noteq> CHR 0x0D \<Longrightarrow> CHR 0x0A \<notin> set p \<Longrightarrow> trim_right_crlf (s @ p) = s @ p"
  by (cases p rule: rev_cases) (auto simp: trim_right_crlf_def)

lemma trim_right_event: "\<exists>v. trim_right_crlf (''event: '' @ t) = ''event: '' @ v"
proof (cases "\<forall>c\<in>set t. c = CHR 0x0D \<or> c = CHR 0x0A")
  case True
  then have "trim_right_crlf (''event: '' @ t) = ''event: ''"
    by (simp add: trim_right_crlf_def dropWhile_append3 dropWhile_append)
  then show ?thesis by (metis append_Nil2)
next
  case False
  then have "dropWhile (\<lambda>c. c = CHR 0x0D \<or> c = CHR 0x0A) (rev t) \<noteq> []" by (simp add: dropWhile_eq_Nil_conv)
  then have "trim_right_crlf (''event: '' @ t) = ''event: '' @ rev (dropWhile (\<lambda>c. c = CHR 0x0D \<or> c = CHR 0x0A) (rev t))"
    by (simp add: trim_right_crlf_def dropWhile_append)
  then show ?thesis by blast
qed

lemma parse_frame:
  assumes "wire_ok marshal unmarshal ev"
  shows "parse_sse unmarshal never ending stop i (item_bytes marshal (Frame ev) @ rest) (clean_state evs) =
     (if 0 \<le> stop \<and> stop \<le> int (Suc (length evs)) then (clean_state (evs @ [ev]), rest, None)
      else parse_sse unmarshal never ending stop (Suc (Suc (Suc i))) rest (clean_state (evs @ [ev])))"
proof -
  from assms obtain p where p: "marshal ev = Some p" "p \<noteq> []" "CHR 0x0A \<notin> set p" "last p \<noteq> CHR 0x0D" "unmarshal p = Some ev"
    and t: "CHR 0x0A \<notin> set (ev_Type ev)"
    by (auto simp: wire_ok_def split: option.splits)
  obtain v where v: "trim_right_crlf (''event: '' @ ev_Type ev) = ''event: '' @ v" using trim_right_event by blast
  let ?data = "''data: '' @ p" and ?st = "\<lparr>ss_evType = v, ss_data = [], ss_events = evs\<rparr>"
  have "item_bytes marshal (Frame ev) @ rest
      = (''event: '' @ ev_Type ev) @ CHR 0x0A # (?data @ CHR 0x0A # CHR 0x0A # rest)"
    by (simp add: write_sse_def p(1))
  moreover have "parse_sse unmarshal never ending stop i
      ((''event: '' @ ev_Type ev) @ CHR 0x0A # (?data @ CHR 0x0A # CHR 0x0A # rest)) (clean_state evs)
      = parse_sse unmarshal never ending stop (Suc i) (?data @ CHR 0x0A # CHR 0x0A # rest) ?st"
    using t v by (subst parse_line) (simp_all add: handle_event_line[simplified])
  moreover have "\<dots> = parse_sse unmarshal never ending stop (Suc (Suc i)) (CHR 0x0A # rest) (?st\<lparr>ss_data := p\<rparr>)"
    using p trim_right_data[of p "''data: ''"] by (subst parse_line) (simp_all add: handle_data_line[simplified])
  ultimately show ?thesis
    using p by (simp add: parse_blank_line sse_flush_def flush_event_def Let_def)
qed

lemma parse_keepalive:
  "parse_sse unmarshal never ending stop i (item_bytes marshal Keepalive @ rest) (clean_state evs)
     = parse_sse unmarshal never ending stop (i + 2) rest (clean_state evs)"
proof -
  have l: "item_bytes marshal Keepalive @ rest = '': keepalive'' @ CHR 0x0A # CHR 0x0A # rest"
    by (simp add: keepalive_def)
  have t: "trim_right_crlf '': keepalive'' = '': keepalive''" by (simp add: trim_right_crlf_def)
  have "parse_sse unmarshal never ending stop i ('': keepalive'' @ CHR 0x0A # CHR 0x0A # rest) (clean_state evs)
      = parse_sse unmarshal never ending stop (Suc i) (CHR 0x0A # rest) (clean_state evs)"
    by (subst parse_line) (simp_all only: t handle_comment, simp_all)
  then show ?thesis unfolding l by (simp add: parse_blank_line sse_flush_def flush_event_def)
qed

text \<open>Draining whole frames.\<close>

lemma parse_wire:
  assumes "stop < 0" and "list_all (wire_ok marshal unmarshal) (wire_events items)"
  shows "\<exists>j. parse_sse unmarshal never ending stop i (wire_bytes marshal items @ rest) (clean_state evs)
    = parse_sse unmarshal never ending stop j rest (clean_state (evs @ wire_events items))"
  using assms(2)
proof (induction items arbitrary: i evs)
  case Nil
  then show ?case by (auto simp: wire_bytes_def wire_events_def)
next
  case (Cons x items)
  have b: "wire_bytes marshal (x # items) @ rest = item_bytes marshal x @ (wire_bytes marshal items @ rest)"
    by (simp add: wire_bytes_def)
  show ?case
  proof (cases x)
    case (Frame ev)
    with Cons.prems have "wire_ok marshal unmarshal ev" "list_all (wire_ok marshal unmarshal) (wire_events items)"
      by (simp_all add: wire_events_def)
    with Cons.IH[of "Suc (Suc (Suc i))" "evs @ [ev]"] show ?thesis
      using assms(1) Frame unfolding b by (simp add: parse_frame wire_events_def del: item_bytes.simps)
  next
    case Keepalive
    with Cons.prems Cons.IH[of "i + 2" evs] show ?thesis
      unfolding b by (simp add: parse_keepalive wire_events_def del: item_bytes.simps)
  qed
qed

lemma handle_line_events [simp]: "ss_events (handle_line l st) = ss_events st"
  by (auto simp: handle_line_def Let_def split: option.splits)

lemma sse_flush_events: "sse_flush unmarshal stop st = (d, st') \<Longrightarrow> prefix (ss_events st) (ss_events st')"
  by (auto simp: sse_flush_def Let_def split: option.splits)

lemma parse_events_grow:
  "prefix (ss_events st) (ss_events (fst (parse_sse unmarshal ctx ending stop i inp st)))"
proof (induction unmarshal ctx ending stop i inp st rule: parse_sse.induct)
  case (1 unmarshal ctx ending stop i inp st)
  show ?case
  proof (cases "ctx i \<or> index_byte inp (CHR 0x0A) = None")
    case True
    obtain d st' where "sse_flush unmarshal stop (handle_line inp st) = (d, st')" by fastforce
    with True sse_flush_events[OF this] show ?thesis
      by (subst parse_sse.simps) (auto split: stream_end.splits)
  next
    case False
    then obtain k where k: "index_byte inp (CHR 0x0A) = Some k" "\<not> ctx i" by auto
    obtain d st' where f: "sse_flush unmarshal stop st = (d, st')" by fastforce
    show ?thesis
      using "1.IH"(1)[OF k(2,1) refl refl _ f[symmetric]] "1.IH"(2)[OF k(2,1) refl refl] sse_flush_events[OF f] k f
      by (subst parse_sse.simps) (auto simp: Let_def intro: prefix_order.trans)
  qed
qed

lemma sse_wire_roundtrip_parts:
  assumes "list_all (wire_ok marshal unmarshal) (wire_events items)"
  shows "read_all_events unmarshal never EndEOF (wire_bytes marshal items) = (wire_events items, [], None)"
    and "prefix (wire_events items) (fst (read_all_events unmarshal never ending (wire_bytes marshal items @ tail)))"
proof -
  have c: "sse_init = clean_state []" by (simp add: sse_init_def)
  have s: "(- 1 :: int) < 0" by simp
  obtain j where j: "parse_sse unmarshal never EndEOF (- 1) 0 (wire_bytes marshal items @ []) sse_init
      = parse_sse unmarshal never EndEOF (- 1) j [] (clean_state ([] @ wire_events items))"
    using parse_wire[OF s assms] unfolding c by blast
  have "parse_sse unmarshal never EndEOF (- 1) j [] (clean_state (wire_events items)) = (clean_state (wire_events items), [], None)"
    by (subst parse_sse.simps) simp
  with j show "read_all_events unmarshal never EndEOF (wire_bytes marshal items) = (wire_events items, [], None)"
    by (simp add: read_all_events_def)
  obtain k where k: "parse_sse unmarshal never ending (- 1) 0 (wire_bytes marshal items @ tail) sse_init
      = parse_sse unmarshal never ending (- 1) k tail (clean_state ([] @ wire_events items))"
    using parse_wire[OF s assms] unfolding c by blast
  show "prefix (wire_events items) (fst (read_all_events unmarshal never ending (wire_bytes marshal items @ tail)))"
    using parse_events_grow[of "clean_state (wire_events items)" unmarshal never ending "- 1" k tail]
    by (simp add: read_all_events_def k case_prod_beta)
qed

text \<open>
  C32 (roundtrip). Hub and door agree on the wire: if every event's JSON is a single line that decodes to the event, then whatever keepalives the
  hub interleaves, the door's parser delivers exactly the events that were written, in order, and reports a clean end; if the connection
  breaks off later, at any byte and in any way, the events of the complete frames are still delivered first and in order.
\<close>

theorem sse_wire_roundtrip:
  assumes "list_all (wire_ok marshal unmarshal) (wire_events items)"
  shows "(read_all_events unmarshal never EndEOF (wire_bytes marshal items) = (wire_events items, [], None))
    \<and> (prefix (wire_events items) (fst (read_all_events unmarshal never ending (wire_bytes marshal items @ tail))))"
  using sse_wire_roundtrip_parts[OF assms] by blast

definition demo_event :: config_stream_event where
  "demo_event = \<lparr>ev_Type = EventMirrorDelete, ev_Data = ''{}'', ev_Timestamp = 0\<rparr>"

theorem sse_wire_roundtrip_witness:
  "read_all_events (\<lambda>s. if s = ''{e}'' then Some demo_event else None) never EndEOF
     (wire_bytes (\<lambda>_. Some ''{e}'') [Keepalive, Frame demo_event, Frame demo_event]) = ([demo_event, demo_event], [], None)"
  using sse_wire_roundtrip[THEN conjunct1, of "\<lambda>_. Some ''{e}''" "\<lambda>s. if s = ''{e}'' then Some demo_event else None"
      "[Keepalive, Frame demo_event, Frame demo_event]"]
  by (simp add: wire_events_def wire_ok_def demo_event_def EventMirrorDelete_def)

text \<open>Keepalives before the first frame are skipped by the reader that waits for one event.\<close>

lemma read_one_frame:
  assumes "wire_ok marshal unmarshal ev"
  shows "read_one_event unmarshal never ending (wire_bytes marshal (replicate n Keepalive @ [Frame ev]) @ rest) = ([ev], rest, None)"
proof -
  have "parse_sse unmarshal never ending 1 i (wire_bytes marshal (replicate n Keepalive @ [Frame ev]) @ rest) (clean_state [])
      = (clean_state [ev], rest, None)" for i
  proof (induction n arbitrary: i)
    case 0
    then show ?case using parse_frame[OF assms, of ending 1 i rest "[]"] by (simp add: wire_bytes_def del: item_bytes.simps)
  next
    case (Suc n)
    have "wire_bytes marshal (replicate (Suc n) Keepalive @ [Frame ev]) @ rest
        = item_bytes marshal Keepalive @ (wire_bytes marshal (replicate n Keepalive @ [Frame ev]) @ rest)"
      by (simp add: wire_bytes_def)
    then show ?case using Suc.IH[of "i + 2"] by (simp only: parse_keepalive)
  qed
  then show ?thesis by (simp add: read_one_event_def sse_init_def)
qed

end
