(* ===== verification/Door.thy ===== *)
theory Door
  imports Selector Gate Sse
begin

text \<open>
  The door: \<^verbatim>\<open>internal/door/redirect.go\<close> (slug matching and redirects), \<^verbatim>\<open>cover.go\<close> (the cover page),
  \<^verbatim>\<open>door.go\<close> (routing) and \<^verbatim>\<open>snapshot.go\<close> (the hub's events applied to the selector). A response is the status, the
  header as an association list with canonical keys, and the body. The cover file, its digest and its formatted modification time
  come from arguments, as do the random bytes of a pick and the JSON decoders of the event payloads.
\<close>

subsection \<open>Responses\<close>

record http_request =
  hr_Method :: string
  hr_Path :: string
  hr_RawPath :: string
  hr_RawQuery :: string
  hr_IfNoneMatch :: string

record http_response =
  hs_Status :: int
  hs_Header :: "(string \<times> string) list"
  hs_Body :: string

text \<open>\<^verbatim>\<open>textproto.CanonicalMIMEHeaderKey\<close>: keys made of token bytes get upper case at the start and after hyphens.\<close>

definition is_token_byte :: "char \<Rightarrow> bool" where
  "is_token_byte c \<longleftrightarrow>
     (let n = (of_char c :: nat) in 48 \<le> n \<and> n \<le> 57 \<or> 65 \<le> n \<and> n \<le> 90 \<or> 97 \<le> n \<and> n \<le> 122)
     \<or> c \<in> set ''!#$%&*+-.^_`|~'' \<or> c = CHR 0x27"

fun canon_bytes :: "bool \<Rightarrow> string \<Rightarrow> string" where
  "canon_bytes upper [] = []"
| "canon_bytes upper (c # cs) =
     (let c' = (if upper then ascii_upper c else ascii_lower c) in c' # canon_bytes (c' = CHR ''-'') cs)"

definition canonical_key :: "string \<Rightarrow> string" where
  "canonical_key k = (if list_all is_token_byte k then canon_bytes True k else k)"

definition header_set :: "string \<Rightarrow> string \<Rightarrow> (string \<times> string) list \<Rightarrow> (string \<times> string) list" where
  "header_set k v h = alist_put (canonical_key k) v h"

definition header_del :: "string \<Rightarrow> (string \<times> string) list \<Rightarrow> (string \<times> string) list" where
  "header_del k h = alist_del (canonical_key k) h"

text \<open>\<^verbatim>\<open>WriteHeader\<close> panics outside the three-digit status codes.\<close>

datatype door_outcome = DoorResponse http_response | DoorGate gate_outcome | DoorPanic

definition write_header :: "int \<Rightarrow> (string \<times> string) list \<Rightarrow> string \<Rightarrow> door_outcome" where
  "write_header status h body =
     (if status < 100 \<or> 999 < status then DoorPanic
      else DoorResponse \<lparr>hs_Status = status, hs_Header = h, hs_Body = body\<rparr>)"

definition write_empty :: "int \<Rightarrow> (string \<times> string) list \<Rightarrow> door_outcome" where
  "write_empty status h = write_header status (header_set ''Content-Length'' ''0'' h) []"

subsection \<open>Redirects\<close>

record compiled_slug =
  cs_slug :: string
  cs_cfg :: slug_conf

definition update_slugs :: "slug_conf list \<Rightarrow> compiled_slug list" where
  "update_slugs slugs = map (\<lambda>s. \<lparr>cs_slug = sc_Slug s, cs_cfg = s\<rparr>) slugs"

definition split_first_segment :: "string \<Rightarrow> string \<times> string" where
  "split_first_segment p0 =
     (if p0 = [] \<or> p0 = ''/'' then ([], [])
      else (let p = (if hd p0 = CHR ''/'' then tl p0 else p0) in
            case index_byte p CHR ''/'' of None \<Rightarrow> (p, []) | Some idx \<Rightarrow> (take idx p, drop idx p)))"

definition ensure_leading_slash :: "string \<Rightarrow> string" where
  "ensure_leading_slash p =
     (if p = [] then ''/'' else if hd p = CHR ''/'' then p else ''/'' @ p)"

text \<open>\<^verbatim>\<open>subtle.ConstantTimeByteEq\<close>; the conversion \<^verbatim>\<open>byte(len(...))\<close> keeps the low eight bits.\<close>

definition constant_time_byte_eq :: "8 word \<Rightarrow> 8 word \<Rightarrow> int" where
  "constant_time_byte_eq x y = (if x = y then 1 else 0)"

fun match_loop :: "string \<Rightarrow> nat \<Rightarrow> compiled_slug list \<Rightarrow> int \<Rightarrow> int" where
  "match_loop first i [] matchIdx = matchIdx"
| "match_loop first i (c # cs) matchIdx =
     (let padded = pad_bytes (length (cs_slug c)) first;
          eq = constant_time_compare padded (cs_slug c);
          lenEq = constant_time_byte_eq (of_nat (length first)) (of_nat (length (cs_slug c)))
      in match_loop first (Suc i) cs (if eq = 1 \<and> lenEq = 1 \<and> matchIdx = - 1 then int i else matchIdx))"

definition match_slug :: "compiled_slug list \<Rightarrow> string \<Rightarrow> (slug_conf \<times> string) option" where
  "match_slug compiled p =
     (let (first, rest) = split_first_segment p in
      if compiled = [] then None
      else (let matchIdx = match_loop first 0 compiled (- 1) in
            if matchIdx < 0 then None else Some (cs_cfg (compiled ! nat matchIdx), rest)))"

definition redirect_serve ::
  "compiled_slug list \<Rightarrow> selector \<Rightarrow> 64 word option \<Rightarrow> http_request \<Rightarrow> door_outcome \<times> selector" where
  "redirect_serve slugs sel rnd r =
     (if hr_Method r = ''HEAD'' then (write_empty 200 [], sel)
      else if hr_Method r \<noteq> ''GET'' then (write_empty 405 [], sel)
      else (case match_slug slugs (hr_Path r) of
              None \<Rightarrow> (write_empty 404 [], sel)
            | Some (slug, remainder) \<Rightarrow>
                (case pick sel slug rnd of
                   (None, sel') \<Rightarrow> (write_empty 503 [], sel')
                 | (Some host, sel') \<Rightarrow>
                     let target0 = ''https://'' @ host @ ensure_leading_slash remainder;
                         target = (if hr_RawQuery r \<noteq> [] then target0 @ ''?'' @ hr_RawQuery r else target0)
                     in (write_header (sc_Status slug)
                           (header_set ''Content-Length'' ''0'' (header_set ''Location'' target [])) [], sel'))))"

subsection \<open>Cover page\<close>

datatype cover_error = CoverNoPath | CoverLoad string

record cover_handler =
  cov_cfg :: cover_conf
  cov_body :: string
  cov_modTime :: string
  cov_etag :: string

text \<open>The file reader yields the body and the modification time in \<^verbatim>\<open>http.TimeFormat\<close>, or an error.\<close>

definition new_cover_handler ::
  "(string \<Rightarrow> string + string \<times> string) \<Rightarrow> (string \<Rightarrow> string) \<Rightarrow> cover_conf \<Rightarrow> cover_error + cover_handler" where
  "new_cover_handler readFileWithStat sha256 cfg =
     (if \<not> cc_Enabled cfg \<or> cc_Kind cfg = CoverKindPassthrough404
      then Inr \<lparr>cov_cfg = cfg, cov_body = [], cov_modTime = [], cov_etag = []\<rparr>
      else if cc_Path cfg = [] then Inl CoverNoPath
      else (case readFileWithStat (cc_Path cfg) of
              Inl e \<Rightarrow> Inl (CoverLoad e)
            | Inr (body, modTime) \<Rightarrow>
                Inr \<lparr>cov_cfg = cfg, cov_body = body, cov_modTime = modTime,
                     cov_etag = ''W/'' @ [CHR 0x22] @ hex_encode (take 8 (sha256 body)) @ [CHR 0x22]\<rparr>))"

text \<open>The configured headers in the iteration order of the map.\<close>

definition apply_headers :: "(string \<times> string) list \<Rightarrow> (string \<times> string) list \<Rightarrow> (string \<times> string) list" where
  "apply_headers hs h = fold (\<lambda>(k, v) h. if v = [] then header_del k h else header_set k v h) hs h"

definition cover_serve :: "cover_handler \<Rightarrow> http_request \<Rightarrow> door_outcome" where
  "cover_serve h r =
     (let cfg = cov_cfg h in
      if \<not> cc_Enabled cfg \<or> cc_Kind cfg = CoverKindPassthrough404 then write_empty 404 []
      else if hr_Method r \<noteq> ''GET'' \<and> hr_Method r \<noteq> ''HEAD'' then write_empty 405 []
      else
        (let h1 = apply_headers (cc_Headers cfg) [];
             h2 = (if cc_ContentType cfg \<noteq> [] then header_set ''Content-Type'' (cc_ContentType cfg) h1
                   else if cc_Kind cfg = CoverKindStaticHTML then header_set ''Content-Type'' ''text/html; charset=utf-8'' h1
                   else h1);
             h3 = header_set ''Last-Modified'' (cov_modTime h) (header_set ''ETag'' (cov_etag h) h2)
         in if hr_IfNoneMatch r \<noteq> [] \<and> hr_IfNoneMatch r = cov_etag h then write_empty 304 h3
            else (let h4 = header_set ''Content-Length'' (digits (length (cov_body h))) h3
                  in write_header 200 h4 (if hr_Method r = ''HEAD'' then [] else cov_body h))))"

subsection \<open>Server\<close>

record door_server =
  ds_cover :: cover_handler
  ds_slugs :: "compiled_slug list"
  ds_sel :: selector
  ds_gate :: gate

datatype new_server_error = CfgRequired | SelectorRequired | CoverHandlerError cover_error

definition new_server ::
  "(string \<Rightarrow> string + string \<times> string) \<Rightarrow> (string \<Rightarrow> string) \<Rightarrow> door_conf option \<Rightarrow> selector option \<Rightarrow> gate option
     \<Rightarrow> new_server_error + door_server" where
  "new_server readFileWithStat sha256 cfg sel gate =
     (case cfg of
        None \<Rightarrow> Inl CfgRequired
      | Some c \<Rightarrow>
          (case sel of
             None \<Rightarrow> Inl SelectorRequired
           | Some s \<Rightarrow>
               (case new_cover_handler readFileWithStat sha256 (dc_Cover c) of
                  Inl e \<Rightarrow> Inl (CoverHandlerError e)
                | Inr cover \<Rightarrow>
                    Inr \<lparr>ds_cover = cover, ds_slugs = update_slugs (dc_Slugs c), ds_sel = s,
                         ds_gate = (case gate of
                            None \<Rightarrow> gate_new \<lparr>gc_Enabled = False, gc_Slug = [], gc_Token1 = [], gc_Token2 = []\<rparr>
                          | Some g \<Rightarrow> g)\<rparr>)))"

definition server_update_slugs :: "slug_conf list \<Rightarrow> door_server \<Rightarrow> door_server" where
  "server_update_slugs slugs s = s\<lparr>ds_slugs := update_slugs slugs\<rparr>"

definition door_serve :: "door_server \<Rightarrow> bool \<Rightarrow> 64 word option \<Rightarrow> http_request \<Rightarrow> door_outcome \<times> door_server" where
  "door_serve s has_handler rnd r =
     (if matches_prefix (ds_gate s) (hr_Path r)
      then (DoorGate (gate_serve (ds_gate s) has_handler (hr_Path r) (hr_RawPath r)), s)
      else if hr_Method r = ''HEAD'' then (write_empty 200 [], s)
      else if hr_Method r \<noteq> ''GET'' then (write_empty 405 [], s)
      else if match_slug (ds_slugs s) (hr_Path r) \<noteq> None
      then (case redirect_serve (ds_slugs s) (ds_sel s) rnd r of (out, sel') \<Rightarrow> (out, s\<lparr>ds_sel := sel'\<rparr>))
      else (cover_serve (ds_cover s) r, s))"

subsection \<open>Events from the hub\<close>

text \<open>The decoders of the three payloads.\<close>

record mirror_json =
  um_snapshot :: "string \<Rightarrow> mirror_info list option"
  um_mirror :: "string \<Rightarrow> mirror_info option"
  um_delete :: "string \<Rightarrow> string option"

definition apply_event :: "mirror_json \<Rightarrow> config_stream_event \<Rightarrow> selector \<Rightarrow> selector" where
  "apply_event J ev sel =
     (if ev_Type ev = EventMirrorSnapshot then
        (case um_snapshot J (ev_Data ev) of None \<Rightarrow> sel | Some ms \<Rightarrow> update_mirrors ms sel)
      else if ev_Type ev = EventMirrorUpsert then
        (case um_mirror J (ev_Data ev) of None \<Rightarrow> sel | Some m \<Rightarrow> upsert_mirror m sel)
      else if ev_Type ev = EventMirrorDelete then
        (case um_delete J (ev_Data ev) of None \<Rightarrow> sel | Some host \<Rightarrow> remove_mirror host sel)
      else sel)"

text \<open>
  \<^verbatim>\<open>Start\<close> on an opened stream, and then the first pass of \<^verbatim>\<open>run\<close> over the same buffered reader; a later
  reconnect is \<^verbatim>\<open>connectAndConsume\<close>.
\<close>

definition snapshot_start ::
  "mirror_json \<Rightarrow> (string \<Rightarrow> config_stream_event option) \<Rightarrow> (nat \<Rightarrow> bool) \<Rightarrow> stream_end \<Rightarrow> string \<Rightarrow> selector
     \<Rightarrow> selector \<times> string \<times> sse_error option" where
  "snapshot_start J unmarshal ctx ending inp sel =
     (case read_one_event unmarshal ctx ending inp of (evs, rest, e) \<Rightarrow> (fold (apply_event J) evs sel, rest, e))"

definition connect_and_consume ::
  "mirror_json \<Rightarrow> (string \<Rightarrow> config_stream_event option) \<Rightarrow> (nat \<Rightarrow> bool) \<Rightarrow> stream_end \<Rightarrow> string \<Rightarrow> selector
     \<Rightarrow> selector \<times> sse_error option" where
  "connect_and_consume J unmarshal ctx ending inp sel =
     (case read_all_events unmarshal ctx ending inp of (evs, rest, e) \<Rightarrow> (fold (apply_event J) evs sel, e))"

definition next_backoff :: "duration \<Rightarrow> duration \<Rightarrow> duration" where
  "next_backoff cur mx = (let cur' = wrap64 (cur * 2) in if cur' > mx then mx else cur')"

definition stream_url :: "string \<Rightarrow> string option \<Rightarrow> string" where
  "stream_url override hubURL =
     (if override \<noteq> [] then override
      else (case hubURL of
              None \<Rightarrow> []
            | Some u \<Rightarrow>
                let base = rev (dropWhile (\<lambda>c. c = CHR ''/'') (rev u))
                in if base = [] then [] else base @ ''/v1/config/stream''))"

lemmas [gw_defs] = match_slug_def redirect_serve_def cover_serve_def door_serve_def apply_event_def

subsection \<open>Slug matching\<close>

definition slug_hit :: "string \<Rightarrow> string \<Rightarrow> bool" where
  "slug_hit first slug \<longleftrightarrow>
     pad_bytes (length slug) first = slug \<and> (of_nat (length first) :: 8 word) = of_nat (length slug)"

lemma match_loop_found: "matchIdx \<noteq> - 1 \<Longrightarrow> match_loop first i cs matchIdx = matchIdx"
  by (induction cs arbitrary: i) (simp_all add: Let_def)

lemma match_loop_step:
  "match_loop first i (c # cs) matchIdx =
     match_loop first (Suc i) cs (if slug_hit first (cs_slug c) \<and> matchIdx = - 1 then int i else matchIdx)"
  by (simp add: slug_hit_def constant_time_byte_eq_def Let_def)

lemma match_loop_eq:
  "match_loop first i cs (- 1) =
     (let k = length (takeWhile (\<lambda>c. \<not> slug_hit first (cs_slug c)) cs) in if k < length cs then int (i + k) else - 1)"
proof (induction cs arbitrary: i)
  case (Cons c cs)
  show ?case
  proof (cases "slug_hit first (cs_slug c)")
    case True
    then show ?thesis by (simp add: match_loop_step match_loop_found del: match_loop.simps)
  next
    case False
    then show ?thesis using Cons.IH[of "Suc i"] by (simp add: match_loop_step Let_def del: match_loop.simps)
  qed
qed simp

lemma find_takeWhile:
  "find P xs = (let k = length (takeWhile (\<lambda>x. \<not> P x) xs) in if k < length xs then Some (xs ! k) else None)"
  by (induction xs) (simp_all add: Let_def)

lemma find_map: "find P (map f xs) = map_option f (find (P \<circ> f) xs)"
  by (induction xs) simp_all

lemma match_slug_eq:
  "match_slug (update_slugs slugs) p =
     map_option (\<lambda>s. (s, snd (split_first_segment p))) (find (\<lambda>s. slug_hit (fst (split_first_segment p)) (sc_Slug s)) slugs)"
proof -
  let ?cs = "update_slugs slugs" and ?first = "fst (split_first_segment p)"
  have "match_slug ?cs p = map_option (\<lambda>c. (cs_cfg c, snd (split_first_segment p))) (find (\<lambda>c. slug_hit ?first (cs_slug c)) ?cs)"
    by (simp add: match_slug_def match_loop_eq find_takeWhile Let_def split: prod.split)
  then show ?thesis
    by (simp add: update_slugs_def find_map o_def option.map_comp)
qed

lemma split_first_segment_eq:
  assumes "CHR ''/'' \<notin> set first" and "rest = [] \<or> hd rest = CHR ''/''"
  shows "split_first_segment (CHR ''/'' # first @ rest) = (first, rest)"
proof (cases rest)
  case Nil
  then show ?thesis using assms by (auto simp: split_first_segment_def index_byte_None[THEN iffD2])
next
  case (Cons c t)
  then show ?thesis using assms index_byte_append[of "CHR ''/''" first t] by (simp add: split_first_segment_def)
qed

lemma slug_hit_iff:
  assumes "CHR 0x00 \<notin> set slug"
  shows "slug_hit first slug \<longleftrightarrow> prefix slug first \<and> (length first - length slug) mod 256 = 0"
proof -
  have "(of_nat (length first) :: 8 word) = of_nat (length slug) \<longleftrightarrow> length first mod 256 = length slug mod 256"
    by (simp add: word_of_nat_eq_iff take_bit_eq_mod)
  moreover have "length first mod 256 = length slug mod 256 \<longleftrightarrow> (length first - length slug) mod 256 = 0"
    if "length slug \<le> length first"
    using that by (metis mod_eq_dvd_iff_nat mod_0_imp_dvd dvd_imp_mod_0)
  ultimately show ?thesis
    using pad_bytes_eq_nul_free[OF assms] pad_bytes_prefix[of slug first] prefix_length_le[of slug first]
    by (auto simp: slug_hit_def)
qed

lemma slug_hit_short:
  "prefix slug first \<Longrightarrow> length first < 256 \<Longrightarrow> (length first - length slug) mod 256 = 0 \<longleftrightarrow> slug = first"
  by (auto simp: prefix_def)

lemma find_cong_set: "(\<And>x. x \<in> set xs \<Longrightarrow> P x = Q x) \<Longrightarrow> find P xs = find Q xs"
  by (induction xs) auto

text \<open>
  The exact behaviour of the constant-time slug comparison, for slugs without NUL bytes: the first configured slug wins that is a prefix
  of the path's first segment and whose length differs from the segment's by a multiple of 256, since only the low bytes of the two lengths are compared. So
  for segments shorter than 256 bytes it is equality with the slug, and a slug followed by 256 more characters is accepted as well.
\<close>

theorem slug_match_exact:
  assumes "list_all (\<lambda>s. CHR 0x00 \<notin> set (sc_Slug s)) slugs"
    and "CHR ''/'' \<notin> set first" and "rest = [] \<or> hd rest = CHR ''/''"
  shows "match_slug (update_slugs slugs) (CHR ''/'' # first @ rest) =
      map_option (\<lambda>s. (s, rest)) (find (\<lambda>s. prefix (sc_Slug s) first \<and> (length first - length (sc_Slug s)) mod 256 = 0) slugs)
    \<and> (length first < 256 \<longrightarrow> match_slug (update_slugs slugs) (CHR ''/'' # first @ rest) =
      map_option (\<lambda>s. (s, rest)) (find (\<lambda>s. sc_Slug s = first) slugs))"
proof -
  let ?P = "\<lambda>s. prefix (sc_Slug s) first \<and> (length first - length (sc_Slug s)) mod 256 = 0"
  have m: "match_slug (update_slugs slugs) (CHR ''/'' # first @ rest) =
      map_option (\<lambda>s. (s, rest)) (find (\<lambda>s. slug_hit first (sc_Slug s)) slugs)"
    by (simp add: match_slug_eq split_first_segment_eq[OF assms(2,3)])
  have "find (\<lambda>s. slug_hit first (sc_Slug s)) slugs = find ?P slugs"
    using assms(1) by (intro find_cong_set) (simp add: slug_hit_iff list_all_iff)
  moreover have "find ?P slugs = find (\<lambda>s. sc_Slug s = first) slugs" if "length first < 256"
  proof (intro find_cong_set)
    fix s
    show "?P s = (sc_Slug s = first)" using slug_hit_short[of "sc_Slug s" first] that by (cases "sc_Slug s = first") auto
  qed
  ultimately show ?thesis using m by simp
qed

theorem slug_match_exact_witness:
  "match_slug (update_slugs [demo_slug StrategyRandom]) (CHR ''/'' # (''s'' @ replicate 256 (CHR ''x'')) @ ''/a'')
     = Some (demo_slug StrategyRandom, ''/a'')"
proof -
  have "prefix ''s'' (''s'' @ replicate 256 (CHR ''x''))" by (rule prefixI) (rule refl)
  then show ?thesis
    using slug_match_exact[of "[demo_slug StrategyRandom]" "''s'' @ replicate 256 (CHR ''x'')" "''/a''"]
    by (simp add: demo_slug_def)
qed

subsection \<open>Routing\<close>

text \<open>The slugs of a validated configuration.\<close>

definition slugs_ok :: "slug_conf list \<Rightarrow> bool" where
  "slugs_ok slugs \<longleftrightarrow> list_all (\<lambda>s. sc_Slug s \<noteq> [] \<and> is_valid_strategy (sc_Strategy s) \<and> sc_Status s \<in> {302, 307}) slugs"

lemma validate_door_slugs_ok: "validate_door d = Inr d' \<Longrightarrow> slugs_ok (dc_Slugs d')"
  using validate_slugs_Inr
  by (fastforce simp: validate_door_def slugs_ok_def Let_def split: option.splits if_splits sum.splits)

lemma match_slug_in:
  "match_slug (update_slugs slugs) p = Some (slug, rest) \<Longrightarrow> slug \<in> set slugs"
  by (auto simp: match_slug_eq find_Some_iff)

definition redirect_target :: "string \<Rightarrow> string \<Rightarrow> string \<Rightarrow> string" where
  "redirect_target host rest query =
     ''https://'' @ host @ (if rest = [] then ''/'' else rest) @ (if query = [] then [] else ''?'' @ query)"

lemma split_first_rest: "snd (split_first_segment p) = [] \<or> hd (snd (split_first_segment p)) = CHR ''/''"
proof -
  let ?q = "if hd p = CHR ''/'' then tl p else p"
  have "hd (drop i ?q) = CHR ''/''" if "index_byte ?q (CHR ''/'') = Some i" for i
    using index_byte_Some[OF that] by (simp add: hd_drop_conv_nth)
  then show ?thesis by (auto simp: split_first_segment_def Let_def split: option.splits)
qed

lemma match_slug_rest: "match_slug (update_slugs slugs) p = Some (slug, rest) \<Longrightarrow> rest = [] \<or> hd rest = CHR ''/''"
  using split_first_rest[of p] by (auto simp: match_slug_eq)

lemma canonical_constants [simp]:
  "canonical_key ''Content-Length'' = ''Content-Length''" "canonical_key ''Location'' = ''Location''"
  by (simp_all add: canonical_key_def is_token_byte_def ascii_upper_def ascii_lower_def Let_def)

lemma write_empty_eq:
  "100 \<le> status \<Longrightarrow> status \<le> 999 \<Longrightarrow>
     write_empty status [] = DoorResponse \<lparr>hs_Status = status, hs_Header = [(''Content-Length'', ''0'')], hs_Body = []\<rparr>"
  by (simp add: write_empty_def write_header_def header_set_def)

text \<open>What a redirect handler that was entered on a match answers.\<close>

lemma redirect_serve_cases:
  assumes "slugs_ok slugs" and "hr_Method r = ''GET''" and "match_slug (update_slugs slugs) (hr_Path r) = Some (slug, rest)"
    and "pick sel slug rnd = (found, sel')"
  shows "redirect_serve (update_slugs slugs) sel rnd r =
    ((case found of
        None \<Rightarrow> DoorResponse \<lparr>hs_Status = 503, hs_Header = [(''Content-Length'', ''0'')], hs_Body = []\<rparr>
      | Some host \<Rightarrow> DoorResponse \<lparr>hs_Status = sc_Status slug,
          hs_Header = [(''Location'', redirect_target host rest (hr_RawQuery r)), (''Content-Length'', ''0'')], hs_Body = []\<rparr>),
     sel')"
proof -
  have st: "sc_Status slug = 302 \<or> sc_Status slug = 307"
    using match_slug_in[OF assms(3)] assms(1) by (auto simp: slugs_ok_def list_all_iff)
  have "ensure_leading_slash rest = (if rest = [] then ''/'' else rest)"
    using match_slug_rest[OF assms(3)] by (auto simp: ensure_leading_slash_def)
  then show ?thesis
    using assms st
    by (auto simp: redirect_serve_def write_empty_eq write_header_def header_set_def redirect_target_def Let_def split: option.split)
qed

lemma cover_serve_status:
  "\<exists>resp. cover_serve h r = DoorResponse resp \<and> hs_Status resp \<in> {200, 304, 404, 405}"
  by (auto simp: cover_serve_def write_empty_def write_header_def Let_def)

text \<open>
  C17 (safety). With a validated slug configuration the door never panics and answers outside the gate only with the statuses 200, 302, 304, 307, 404, 405 and 503. A
  redirect status is answered only to a \<^verbatim>\<open>GET\<close> whose path does not match the gate and matches a configured slug, with that slug's status, an empty
  body and, as the only other header, a location at an eligible mirror of the current table that keeps the rest of the path and the query; 503 is answered only if the path matches a slug
  for which no mirror of the table is eligible.
\<close>

theorem door_redirects_only_to_eligible:
  assumes "slugs_ok slugs" and "ds_slugs s = update_slugs slugs" and "door_serve s has_handler rnd r = (out, s')"
    and "\<not> matches_prefix (ds_gate s) (hr_Path r)"
  shows "\<exists>resp. out = DoorResponse resp \<and> hs_Status resp \<in> {200, 302, 304, 307, 404, 405, 503}
    \<and> (hs_Status resp \<in> {302, 307} \<longrightarrow>
        hr_Method r = ''GET'' \<and> hs_Body resp = []
        \<and> (\<exists>slug rest m. match_slug (update_slugs slugs) (hr_Path r) = Some (slug, rest) \<and> hs_Status resp = sc_Status slug
             \<and> m \<in> set (sel_mirrors (ds_sel s)) \<and> eligible m slug
             \<and> hs_Header resp = [(''Location'', redirect_target (mi_Host m) rest (hr_RawQuery r)), (''Content-Length'', ''0'')]))
    \<and> (hs_Status resp = 503 \<longrightarrow>
        (\<exists>slug rest. match_slug (update_slugs slugs) (hr_Path r) = Some (slug, rest)
           \<and> (\<forall>m\<in>set (sel_mirrors (ds_sel s)). \<not> eligible m slug)))"
proof (cases "hr_Method r = ''GET'' \<and> match_slug (ds_slugs s) (hr_Path r) \<noteq> None")
  case True
  then obtain slug rest where m: "match_slug (update_slugs slugs) (hr_Path r) = Some (slug, rest)" using assms(2) by auto
  obtain found sel' where p: "pick (ds_sel s) slug rnd = (found, sel')" by fastforce
  note red = redirect_serve_cases[OF assms(1) conjunct1[OF True] m p]
  have out: "out = fst (redirect_serve (update_slugs slugs) (ds_sel s) rnd r)"
    using assms(2-4) True by (auto simp: door_serve_def split: prod.splits)
  have st: "sc_Status slug \<in> {302, 307}"
    using match_slug_in[OF m] assms(1) by (auto simp: slugs_ok_def list_all_iff)
  show ?thesis
  proof (cases found)
    case None
    then have "\<forall>m\<in>set (sel_mirrors (ds_sel s)). \<not> eligible m slug"
      using pick_eligible_only_parts(1)[of "ds_sel s" slug rnd] p by simp
    with None show ?thesis using out red m by simp
  next
    case (Some host)
    then obtain mi where "mi \<in> set (sel_mirrors (ds_sel s))" "mi_Host mi = host" "eligible mi slug"
      using pick_eligible_only_parts(2)[of "ds_sel s" slug rnd host] p by auto
    then show ?thesis using Some out red m st True by auto
  qed
next
  case False
  obtain resp where c: "cover_serve (ds_cover s) r = DoorResponse resp" "hs_Status resp \<in> {200, 304, 404, 405}"
    using cover_serve_status by blast
  have "out = DoorResponse resp \<or> out = write_empty 200 [] \<or> out = write_empty 405 []"
    using False assms(3,4) c(1) by (auto simp: door_serve_def split: if_splits)
  then show ?thesis using c(2) by (auto simp: write_empty_eq)
qed

theorem door_redirects_only_to_eligible_witness:
  "\<exists>resp. fst (door_serve \<lparr>ds_cover = \<lparr>cov_cfg = \<lparr>cc_Enabled = False, cc_Kind = [], cc_Path = [], cc_ContentType = [], cc_Headers = []\<rparr>,
        cov_body = [], cov_modTime = [], cov_etag = []\<rparr>, ds_slugs = update_slugs [demo_slug StrategyRandom],
        ds_sel = \<lparr>sel_mirrors = [demo_mirror ''m.example'' 1], sel_rrCounter = 0\<rparr>,
        ds_gate = gate_new \<lparr>gc_Enabled = False, gc_Slug = [], gc_Token1 = [], gc_Token2 = []\<rparr>\<rparr> True None
      \<lparr>hr_Method = ''GET'', hr_Path = ''/s/a'', hr_RawPath = [], hr_RawQuery = ''q=1'', hr_IfNoneMatch = []\<rparr>) = DoorResponse resp
     \<and> hs_Status resp \<in> {200, 302, 304, 307, 404, 405, 503}"
proof -
  let ?s = "\<lparr>ds_cover = \<lparr>cov_cfg = \<lparr>cc_Enabled = False, cc_Kind = [], cc_Path = [], cc_ContentType = [], cc_Headers = []\<rparr>,
        cov_body = [], cov_modTime = [], cov_etag = []\<rparr>, ds_slugs = update_slugs [demo_slug StrategyRandom],
        ds_sel = \<lparr>sel_mirrors = [demo_mirror ''m.example'' 1], sel_rrCounter = 0\<rparr>,
        ds_gate = gate_new \<lparr>gc_Enabled = False, gc_Slug = [], gc_Token1 = [], gc_Token2 = []\<rparr>\<rparr>"
  let ?r = "\<lparr>hr_Method = ''GET'', hr_Path = ''/s/a'', hr_RawPath = [], hr_RawQuery = ''q=1'', hr_IfNoneMatch = []\<rparr>"
  obtain out s' where o: "door_serve ?s True None ?r = (out, s')" by fastforce
  have "\<not> matches_prefix (ds_gate ?s) (hr_Path ?r)" by (simp add: gate_disabled)
  from door_redirects_only_to_eligible[OF _ _ o this, of "[demo_slug StrategyRandom]"]
  show ?thesis unfolding o by (auto simp: slugs_ok_def demo_slug_def is_valid_strategy_def)
qed

subsection \<open>The mirror table\<close>

text \<open>
  The contract of the event stream: the table is a map from hosts to mirrors, a snapshot replaces it, an upsert and a delete change one key,
  and everything else is ignored.
\<close>

datatype mirror_delta = MSnapshot "mirror_info list" | MUpsert mirror_info | MDelete string

definition decode_delta :: "mirror_json \<Rightarrow> config_stream_event \<Rightarrow> mirror_delta option" where
  "decode_delta J ev =
     (if ev_Type ev = EventMirrorSnapshot then map_option MSnapshot (um_snapshot J (ev_Data ev))
      else if ev_Type ev = EventMirrorUpsert then map_option MUpsert (um_mirror J (ev_Data ev))
      else if ev_Type ev = EventMirrorDelete then map_option MDelete (um_delete J (ev_Data ev))
      else None)"

definition mirror_map :: "mirror_info list \<Rightarrow> string \<rightharpoonup> mirror_info" where
  "mirror_map ms = map_of (map (\<lambda>m. (mi_Host m, m)) ms)"

fun delta_spec :: "mirror_delta \<Rightarrow> (string \<rightharpoonup> mirror_info) \<Rightarrow> (string \<rightharpoonup> mirror_info)" where
  "delta_spec (MSnapshot ms) t = mirror_map ms"
| "delta_spec (MUpsert m) t = t(mi_Host m \<mapsto> m)"
| "delta_spec (MDelete host) t = t(host := None)"

definition event_spec :: "mirror_json \<Rightarrow> config_stream_event \<Rightarrow> (string \<rightharpoonup> mirror_info) \<Rightarrow> (string \<rightharpoonup> mirror_info)" where
  "event_spec J ev t = (case decode_delta J ev of None \<Rightarrow> t | Some d \<Rightarrow> delta_spec d t)"

definition hosts_distinct :: "mirror_info list \<Rightarrow> bool" where
  "hosts_distinct ms \<longleftrightarrow> distinct (map mi_Host ms)"

definition snapshot_distinct :: "mirror_json \<Rightarrow> config_stream_event \<Rightarrow> bool" where
  "snapshot_distinct J ev \<longleftrightarrow> (case decode_delta J ev of Some (MSnapshot ms) \<Rightarrow> hosts_distinct ms | _ \<Rightarrow> True)"

lemma hosts_upsert: "mi_Host ` set (upsert_in m ms) = insert (mi_Host m) (mi_Host ` set ms)"
  by (induction m ms rule: upsert_in.induct) auto

lemma hosts_distinct_upsert: "hosts_distinct ms \<Longrightarrow> hosts_distinct (upsert_in m ms)"
  using hosts_upsert by (induction m ms rule: upsert_in.induct) (auto simp: hosts_distinct_def)

lemma set_remove_in: "set (remove_in host ms) \<subseteq> set ms"
  by (induction host ms rule: remove_in.induct) auto

lemma hosts_distinct_remove: "hosts_distinct ms \<Longrightarrow> hosts_distinct (remove_in host ms)"
  using set_remove_in by (induction host ms rule: remove_in.induct) (fastforce simp: hosts_distinct_def)+

lemma mirror_map_upsert: "mirror_map (upsert_in m ms) = (mirror_map ms)(mi_Host m \<mapsto> m)"
  by (induction m ms rule: upsert_in.induct) (auto simp: mirror_map_def fun_eq_iff)

lemma mirror_map_remove: "hosts_distinct ms \<Longrightarrow> mirror_map (remove_in host ms) = (mirror_map ms)(host := None)"
proof (induction host ms rule: remove_in.induct)
  case (2 host x xs)
  then have "mirror_map xs (mi_Host x) = None"
    by (auto simp: hosts_distinct_def mirror_map_def map_of_eq_None_iff)
  with 2 show ?case by (auto simp: hosts_distinct_def mirror_map_def fun_eq_iff)
qed (simp add: mirror_map_def)

lemma apply_event_refines:
  assumes "hosts_distinct (sel_mirrors sel)" and "snapshot_distinct J ev"
  shows "hosts_distinct (sel_mirrors (apply_event J ev sel))
    \<and> mirror_map (sel_mirrors (apply_event J ev sel)) = event_spec J ev (mirror_map (sel_mirrors sel))"
  using assms
  by (auto simp: apply_event_def event_spec_def snapshot_distinct_def decode_delta_def update_mirrors_def upsert_mirror_def
      remove_mirror_def hosts_distinct_upsert hosts_distinct_remove mirror_map_upsert mirror_map_remove split: option.splits)

lemma apply_events_refine:
  assumes "hosts_distinct (sel_mirrors sel)" and "list_all (snapshot_distinct J) evs"
  shows "hosts_distinct (sel_mirrors (fold (apply_event J) evs sel))
    \<and> mirror_map (sel_mirrors (fold (apply_event J) evs sel)) = fold (event_spec J) evs (mirror_map (sel_mirrors sel))"
  using assms by (induction evs arbitrary: sel) (simp_all add: apply_event_refines)

text \<open>
  The door's mirror table refines the contract of the event stream: over any events whose snapshots name each host once, the hosts of the selector's list stay distinct
  and, read as a map, it is what the map semantics of the events gives; malformed payloads and events of other kinds change nothing.
\<close>

theorem door_table_refines_events:
  assumes "hosts_distinct (sel_mirrors sel)" and "list_all (snapshot_distinct J) evs"
  shows "hosts_distinct (sel_mirrors (fold (apply_event J) evs sel))
    \<and> mirror_map (sel_mirrors (fold (apply_event J) evs sel)) = fold (event_spec J) evs (mirror_map (sel_mirrors sel))"
  by (rule apply_events_refine[OF assms])

theorem door_table_refines_events_witness:
  "let J = \<lparr>um_snapshot = \<lambda>_. Some [demo_mirror ''a'' 1, demo_mirror ''b'' 1], um_mirror = \<lambda>_. Some (demo_mirror ''a'' 2), um_delete = \<lambda>d. Some d\<rparr>;
       evs = [\<lparr>ev_Type = EventMirrorSnapshot, ev_Data = [], ev_Timestamp = 0\<rparr>, \<lparr>ev_Type = EventMirrorDelete, ev_Data = ''b'', ev_Timestamp = 0\<rparr>]
   in mirror_map (sel_mirrors (fold (apply_event J) evs new_selector)) = fold (event_spec J) evs (mirror_map [])"
  unfolding Let_def
  by (subst door_table_refines_events[THEN conjunct2])
     (simp_all add: new_selector_def hosts_distinct_def snapshot_distinct_def decode_delta_def demo_mirror_def EventMirrorDelete_def
       EventMirrorSnapshot_def EventMirrorUpsert_def)

subsection \<open>Reconnecting\<close>

definition min_backoff :: duration where "min_backoff = second div 2"
definition max_backoff :: duration where "max_backoff = 30 * second"

text \<open>
  The delay before the \<open>n\<close>th reconnect doubles from half a second up to thirty seconds; it is never reset, also not by a connection that
  stayed up for long.
\<close>

lemma backoff_delays: "((\<lambda>b. next_backoff b max_backoff) ^^ n) min_backoff = min max_backoff (min_backoff * 2 ^ n)"
proof (induction n)
  case (Suc n)
  let ?b = "min max_backoff (min_backoff * 2 ^ n)"
  have "0 \<le> ?b" "?b \<le> max_backoff" by (simp_all add: min_backoff_def max_backoff_def second_def)
  then have "wrap64 (?b * 2) = ?b * 2"
    by (intro wrap64_id) (simp_all add: min_int64_def max_int64_def max_backoff_def second_def)
  then have "next_backoff ?b max_backoff = min max_backoff (?b * 2)" by (auto simp: next_backoff_def Let_def)
  also have "\<dots> = min max_backoff (min_backoff * 2 ^ Suc n)" by (auto simp: min_def max_backoff_def second_def)
  finally show ?case using Suc.IH by simp
qed (simp add: min_backoff_def max_backoff_def second_def)

end
