(* ===== verification/Gwconfig.thy ===== *)
theory Gwconfig
  imports Registry Float64 Selector Lockout Session Gate
begin

text \<open>
  The configuration files: \<^verbatim>\<open>internal/config/config.go\<close> (the bootstrap file of a process) and
  \<^verbatim>\<open>internal/config/runtime.go\<close> (tenant files and \<^verbatim>\<open>globals.yaml\<close>). YAML decoding is an argument; reading a file yields its contents
  or \<open>None\<close>. Fractions are \<^verbatim>\<open>float64\<close> values, infinities and NaN included, as YAML can write them. Results: what \<^verbatim>\<open>Load\<close> returns satisfies the cross-field constraints that the
  other components rely on, defaults are filled in once and for all, and a well-formed bootstrap file is never rejected for a field it
  leaves out.
\<close>

subsection \<open>Tenants and globals\<close>

definition BlockDrop :: string where "BlockDrop = ''drop''"
definition BlockTimeout :: string where "BlockTimeout = ''timeout''"
definition Block404 :: string where "Block404 = ''404''"
definition Block429 :: string where "Block429 = ''429''"

record feature_conf =
  fc_Enabled :: bool
  fc_Params :: "string \<rightharpoonup> any_val"

record backend_conf =
  bc_Addr :: string
  bc_Weight :: int

record client_auth_entry =
  cae_Onion :: string
  cae_AuthPrivateKeyFile :: string

record stealth_hs_conf =
  sh_Enabled :: bool
  sh_ClientAuths :: "client_auth_entry list"

record negative_cache_conf =
  ncc_Enabled :: bool
  ncc_TTL :: duration
  ncc_FailureThreshold :: int

record abuse_api_conf =
  aac_Enabled :: bool
  aac_Path :: string
  aac_NotifyEmail :: string

record tenant_conf =
  tc_Host :: string
  tc_Enabled :: bool
  tc_Backends :: "backend_conf list"
  tc_Features :: "(string \<times> feature_conf) list"
  tc_StealthHS :: stealth_hs_conf
  tc_NegativeCache :: negative_cache_conf
  tc_AbuseAPI :: abuse_api_conf
  tc_AssignedNodes :: "string list"

record block_response_conf =
  br_Default :: string
  br_TimeoutSeconds :: int

record header_rule =
  hrl_Name :: string
  hrl_Value :: string

record headers_conf =
  hc_StripUpstream :: "string list"
  hc_AddDownstream :: "header_rule list"

record globals_conf =
  gc_Features :: "(string \<times> feature_conf) list"
  gc_BlockResponse :: block_response_conf
  gc_Headers :: headers_conf

definition zero_globals :: globals_conf where
  "zero_globals =
     \<lparr>gc_Features = [], gc_BlockResponse = \<lparr>br_Default = [], br_TimeoutSeconds = 0\<rparr>,
      gc_Headers = \<lparr>hc_StripUpstream = [], hc_AddDownstream = []\<rparr>\<rparr>"

datatype conf_error =
    ConfRead
  | ConfYaml
  | ConfInvalid string

definition is_valid_block_response :: "string \<Rightarrow> bool" where
  "is_valid_block_response v \<longleftrightarrow> v = BlockDrop \<or> v = BlockTimeout \<or> v = Block404 \<or> v = Block429"

definition default_weight :: "backend_conf \<Rightarrow> backend_conf" where
  "default_weight b = (if bc_Weight b = 0 then b\<lparr>bc_Weight := 1\<rparr> else b)"

text \<open>\<^verbatim>\<open>validateTenant\<close> sets missing weights as it goes, also in the tenant it then rejects; a rejected tenant is dropped by its caller.\<close>

definition validate_tenant :: "tenant_conf \<Rightarrow> conf_error + tenant_conf" where
  "validate_tenant t =
     (if tc_Host t = [] then Inl (ConfInvalid ''host is required'')
      else if tc_Backends t = [] then Inl (ConfInvalid ''at least one backend is required'')
      else if list_ex (\<lambda>b. bc_Addr b = []) (tc_Backends t) then Inl (ConfInvalid ''addr is required'')
      else Inr (t\<lparr>tc_Backends := map default_weight (tc_Backends t)\<rparr>))"

definition validate_globals :: "globals_conf \<Rightarrow> conf_error option" where
  "validate_globals g =
     (if br_Default (gc_BlockResponse g) \<noteq> [] \<and> \<not> is_valid_block_response (br_Default (gc_BlockResponse g))
      then Some (ConfInvalid ''block_response.default must be drop|timeout|404|429'') else None)"

definition load_tenant_file :: "(string \<Rightarrow> tenant_conf option) \<Rightarrow> string option \<Rightarrow> conf_error + tenant_conf" where
  "load_tenant_file unyaml data =
     (case data of
        None \<Rightarrow> Inl ConfRead
      | Some s \<Rightarrow> (case unyaml s of None \<Rightarrow> Inl ConfYaml | Some t \<Rightarrow> validate_tenant t))"

definition load_globals_file :: "(string \<Rightarrow> globals_conf option) \<Rightarrow> string option \<Rightarrow> conf_error + globals_conf" where
  "load_globals_file unyaml data =
     (case data of
        None \<Rightarrow> Inl ConfRead
      | Some s \<Rightarrow>
          (case unyaml s of
             None \<Rightarrow> Inl ConfYaml
           | Some g \<Rightarrow> (case validate_globals g of Some e \<Rightarrow> Inl e | None \<Rightarrow> Inr g)))"

subsection \<open>The bootstrap file\<close>

definition ModeLocal :: string where "ModeLocal = ''local''"
definition ModeRemote :: string where "ModeRemote = ''remote''"
definition NodeTypeProxy :: string where "NodeTypeProxy = ''proxy''"
definition NodeTypeHub :: string where "NodeTypeHub = ''hub''"
definition NodeTypeDoor :: string where "NodeTypeDoor = ''door''"
definition NodeTypeLocal :: string where "NodeTypeLocal = ''local''"
definition TransportWireguard :: string where "TransportWireguard = ''wireguard''"
definition TransportHTTPSTunnel :: string where "TransportHTTPSTunnel = ''https_tunnel''"
definition TransportSOCKS5TLS :: string where "TransportSOCKS5TLS = ''socks5_tls''"

record cloudflare_conf =
  cfl_Enabled :: bool
  cfl_Mode :: string

text \<open>A \<^verbatim>\<open>float64\<close>, with the comparison \<^verbatim>\<open><=\<close> of the language: it is false as soon as NaN is involved.\<close>

datatype go_float = FNum rat | FPosInf | FNegInf | FNaN

fun float_le :: "go_float \<Rightarrow> go_float \<Rightarrow> bool" where
  "float_le FNaN y = False"
| "float_le x FNaN = False"
| "float_le FNegInf y = True"
| "float_le x FPosInf = True"
| "float_le (FNum a) (FNum b) = (a \<le> b)"
| "float_le x y = False"

record tor_conf =
  tr_Binary :: string
  tr_SocksBasePort :: int
  tr_MinInstances :: int
  tr_MaxInstances :: int
  tr_DataDir :: string
  tr_BootstrapTimeout :: duration
  tr_MinSuccessfulOnStart :: int

record pool_conf =
  pl_MaxIdleConnsPerHost :: int
  pl_IdleTimeout :: duration
  pl_ResponseTimeout :: duration
  pl_ConnectTimeout :: duration
  pl_RetryAttempts :: int
  pl_HealthCheckInterval :: duration
  pl_RebalanceInterval :: duration
  pl_ScaleCooldown :: duration
  pl_ScaleUpThreshold :: go_float
  pl_ScaleDownThreshold :: go_float
  pl_QuarantineGrace :: duration

record cache_conf =
  cac_Enabled :: bool
  cac_MaxSizeMB :: int
  cac_DefaultTTL :: duration
  cac_StaticExtensions :: "string list"

record rate_limit_conf =
  rlc_PerIPRPS :: go_float
  rlc_PerIPBurst :: int
  rlc_PerIPConns :: int
  rlc_APIRPS :: go_float
  rlc_APIBurst :: int
  rlc_GlobalRPS :: go_float
  rlc_CleanupInterval :: duration

record security_conf =
  sec_ProxySecretHeader :: string
  sec_AnonymizeLogs :: bool
  sec_BlockedPaths :: "string list"
  sec_BlockedMethods :: "string list"

record logging_conf =
  lg_Level :: string
  lg_Format :: string
  lg_Output :: string
  lg_MaxSizeMB :: int
  lg_MaxBackups :: int

record metrics_conf =
  mt_Enabled :: bool
  mt_Listen :: string
  mt_HashTenantLabels :: bool
  mt_TenantLabelSaltFile :: string

record lockout_conf =
  lk_SoftThreshold :: int
  lk_SoftWindow :: duration
  lk_SoftBackoff :: duration
  lk_HardThreshold :: int
  lk_HardWindow :: duration
  lk_HardBan :: duration

record admin_conf =
  ad_Socket :: string
  ad_Enabled :: bool
  ad_Slug :: string
  ad_Token1 :: string
  ad_Token2 :: string
  ad_SessionIdleTTL :: duration
  ad_SessionAbsoluteTTL :: duration
  ad_AuditDataDir :: string
  ad_Lockout :: lockout_conf

record hub_conf =
  hbc_ListenAdmin :: string
  hbc_ListenWG :: string
  hbc_CACertFile :: string
  hbc_CAKeyFile :: string
  hbc_DataDir :: string

text \<open>The parameters of the individual transports are not looked at by this package; \<open>cf_TransportKind\<close> is \<^verbatim>\<open>Transport.Kind\<close>.\<close>

record config =
  cf_Mode :: string
  cf_NodeType :: string
  cf_TransportKind :: string
  cf_HubURL :: string
  cf_NodeID :: string
  cf_Hub :: hub_conf
  cf_Domain :: string
  cf_ProxySecret :: string
  cf_Cloudflare :: cloudflare_conf
  cf_Backends :: "backend_conf list"
  cf_Tor :: tor_conf
  cf_Pool :: pool_conf
  cf_Cache :: cache_conf
  cf_RateLimit :: rate_limit_conf
  cf_Security :: security_conf
  cf_Logging :: logging_conf
  cf_Metrics :: metrics_conf
  cf_Admin :: admin_conf
  cf_Door :: door_conf

definition is_valid_mode :: "string \<Rightarrow> bool" where
  "is_valid_mode s \<longleftrightarrow> s = ModeLocal \<or> s = ModeRemote"

definition is_valid_node_type :: "string \<Rightarrow> bool" where
  "is_valid_node_type s \<longleftrightarrow> s = NodeTypeProxy \<or> s = NodeTypeHub \<or> s = NodeTypeDoor \<or> s = NodeTypeLocal"

definition is_valid_transport :: "string \<Rightarrow> bool" where
  "is_valid_transport s \<longleftrightarrow> s = TransportWireguard \<or> s = TransportHTTPSTunnel \<or> s = TransportSOCKS5TLS"

text \<open>The default of a field: the given value unless it is the zero value of its type.\<close>

definition dfl :: "'a \<Rightarrow> 'a \<Rightarrow> 'a \<Rightarrow> 'a" where
  "dfl z d x = (if x = z then d else x)"

definition fill_tor :: "tor_conf \<Rightarrow> tor_conf" where
  "fill_tor t =
     t\<lparr>tr_Binary := dfl [] ''tor'' (tr_Binary t), tr_SocksBasePort := dfl 0 9050 (tr_SocksBasePort t),
       tr_MaxInstances := (if tr_MinInstances t > 0 \<and> tr_MaxInstances t = 0 then 20 else tr_MaxInstances t),
       tr_DataDir := dfl [] ''/var/lib/gateway/tor'' (tr_DataDir t),
       tr_BootstrapTimeout := dfl 0 (90 * second) (tr_BootstrapTimeout t)\<rparr>"

definition fill_pool :: "pool_conf \<Rightarrow> pool_conf" where
  "fill_pool p =
     p\<lparr>pl_MaxIdleConnsPerHost := dfl 0 10 (pl_MaxIdleConnsPerHost p), pl_IdleTimeout := dfl 0 (90 * second) (pl_IdleTimeout p),
       pl_ResponseTimeout := dfl 0 (30 * second) (pl_ResponseTimeout p),
       pl_ConnectTimeout := dfl 0 (10 * second) (pl_ConnectTimeout p), pl_RetryAttempts := dfl 0 3 (pl_RetryAttempts p),
       pl_HealthCheckInterval := dfl 0 (60 * second) (pl_HealthCheckInterval p),
       pl_RebalanceInterval := dfl 0 (15 * second) (pl_RebalanceInterval p),
       pl_ScaleCooldown := dfl 0 (120 * second) (pl_ScaleCooldown p),
       pl_QuarantineGrace := dfl 0 (300 * second) (pl_QuarantineGrace p),
       pl_ScaleUpThreshold := dfl (FNum 0) (FNum (fl (4 / 5))) (pl_ScaleUpThreshold p),
       pl_ScaleDownThreshold := dfl (FNum 0) (FNum (fl (1 / 5))) (pl_ScaleDownThreshold p)\<rparr>"

definition fill_cache :: "cache_conf \<Rightarrow> cache_conf" where
  "fill_cache c = c\<lparr>cac_MaxSizeMB := dfl 0 256 (cac_MaxSizeMB c), cac_DefaultTTL := dfl 0 (3600 * second) (cac_DefaultTTL c)\<rparr>"

definition fill_rate_limit :: "rate_limit_conf \<Rightarrow> rate_limit_conf" where
  "fill_rate_limit r =
     r\<lparr>rlc_PerIPRPS := dfl (FNum 0) (FNum 30) (rlc_PerIPRPS r), rlc_PerIPBurst := dfl 0 60 (rlc_PerIPBurst r),
       rlc_PerIPConns := dfl 0 50 (rlc_PerIPConns r), rlc_APIRPS := dfl (FNum 0) (FNum 5) (rlc_APIRPS r), rlc_APIBurst := dfl 0 10 (rlc_APIBurst r),
       rlc_GlobalRPS := dfl (FNum 0) (FNum 5000) (rlc_GlobalRPS r), rlc_CleanupInterval := dfl 0 (300 * second) (rlc_CleanupInterval r)\<rparr>"

definition fill_logging :: "logging_conf \<Rightarrow> logging_conf" where
  "fill_logging l =
     l\<lparr>lg_Level := dfl [] ''info'' (lg_Level l), lg_Format := dfl [] ''json'' (lg_Format l), lg_Output := dfl [] ''stdout'' (lg_Output l),
       lg_MaxSizeMB := dfl 0 100 (lg_MaxSizeMB l), lg_MaxBackups := dfl 0 5 (lg_MaxBackups l)\<rparr>"

definition fill_lockout :: "lockout_conf \<Rightarrow> lockout_conf" where
  "fill_lockout l =
     l\<lparr>lk_SoftThreshold := dfl 0 3 (lk_SoftThreshold l), lk_SoftWindow := dfl 0 (60 * second) (lk_SoftWindow l),
       lk_SoftBackoff := dfl 0 (30 * second) (lk_SoftBackoff l), lk_HardThreshold := dfl 0 10 (lk_HardThreshold l),
       lk_HardWindow := dfl 0 (600 * second) (lk_HardWindow l), lk_HardBan := dfl 0 (3600 * second) (lk_HardBan l)\<rparr>"

definition default_audit_dir :: "string \<Rightarrow> string" where
  "default_audit_dir nodeType =
     (if nodeType = NodeTypeHub then ''/var/lib/gateway/hub/audit''
      else if nodeType = NodeTypeDoor then ''/var/lib/gateway/door/audit''
      else ''/var/lib/gateway/proxy/audit'')"

definition fill_admin :: "string \<Rightarrow> admin_conf \<Rightarrow> admin_conf" where
  "fill_admin nodeType a =
     a\<lparr>ad_Socket := dfl [] ''/run/gateway/torpool.sock'' (ad_Socket a),
       ad_SessionIdleTTL := dfl 0 (900 * second) (ad_SessionIdleTTL a),
       ad_SessionAbsoluteTTL := dfl 0 (8 * 3600 * second) (ad_SessionAbsoluteTTL a),
       ad_AuditDataDir := dfl [] (default_audit_dir nodeType) (ad_AuditDataDir a), ad_Lockout := fill_lockout (ad_Lockout a)\<rparr>"

definition fill_defaults :: "config \<Rightarrow> config" where
  "fill_defaults cfg =
     (let mode = dfl [] ModeLocal (cf_Mode cfg); nodeType = dfl [] NodeTypeLocal (cf_NodeType cfg)
      in cfg\<lparr>cf_Mode := mode, cf_NodeType := nodeType,
             cf_TransportKind := (if mode = ModeRemote then dfl [] TransportWireguard (cf_TransportKind cfg) else cf_TransportKind cfg),
             cf_Tor := fill_tor (cf_Tor cfg), cf_Pool := fill_pool (cf_Pool cfg), cf_Cache := fill_cache (cf_Cache cfg),
             cf_RateLimit := fill_rate_limit (cf_RateLimit cfg),
             cf_Security := (cf_Security cfg)\<lparr>sec_ProxySecretHeader := dfl [] ''X-Proxy-Secret'' (sec_ProxySecretHeader (cf_Security cfg))\<rparr>,
             cf_Logging := fill_logging (cf_Logging cfg),
             cf_Metrics := (cf_Metrics cfg)\<lparr>mt_Listen := dfl [] '':9090'' (mt_Listen (cf_Metrics cfg))\<rparr>,
             cf_Admin := fill_admin nodeType (cf_Admin cfg),
             cf_Cloudflare := (cf_Cloudflare cfg)\<lparr>cfl_Mode := dfl [] ''full_strict'' (cfl_Mode (cf_Cloudflare cfg))\<rparr>,
             cf_Backends := map default_weight (cf_Backends cfg)\<rparr>)"

definition duration_checks :: "config \<Rightarrow> (string \<times> duration) list" where
  "duration_checks cfg =
     [(''tor.bootstrap_timeout'', tr_BootstrapTimeout (cf_Tor cfg)), (''pool.idle_timeout'', pl_IdleTimeout (cf_Pool cfg)),
      (''pool.response_timeout'', pl_ResponseTimeout (cf_Pool cfg)), (''pool.connect_timeout'', pl_ConnectTimeout (cf_Pool cfg)),
      (''pool.health_check_interval'', pl_HealthCheckInterval (cf_Pool cfg)),
      (''pool.rebalance_interval'', pl_RebalanceInterval (cf_Pool cfg)), (''pool.scale_cooldown'', pl_ScaleCooldown (cf_Pool cfg)),
      (''pool.quarantine_grace'', pl_QuarantineGrace (cf_Pool cfg)), (''cache.default_ttl'', cac_DefaultTTL (cf_Cache cfg)),
      (''rate_limit.cleanup_interval'', rlc_CleanupInterval (cf_RateLimit cfg)),
      (''admin.session_idle_ttl'', ad_SessionIdleTTL (cf_Admin cfg)),
      (''admin.session_absolute_ttl'', ad_SessionAbsoluteTTL (cf_Admin cfg))]"

definition validate_lockout :: "lockout_conf \<Rightarrow> string option" where
  "validate_lockout l =
     (if lk_SoftThreshold l \<le> 0 then Some ''admin.lockout.soft_threshold must be > 0''
      else if lk_SoftWindow l \<le> 0 then Some ''admin.lockout.soft_window must be > 0''
      else if lk_SoftBackoff l \<le> 0 then Some ''admin.lockout.soft_backoff must be > 0''
      else if lk_HardThreshold l \<le> 0 then Some ''admin.lockout.hard_threshold must be > 0''
      else if lk_HardWindow l \<le> 0 then Some ''admin.lockout.hard_window must be > 0''
      else if lk_HardBan l \<le> 0 then Some ''admin.lockout.hard_ban must be > 0''
      else None)"

definition validate_admin :: "admin_conf \<Rightarrow> string option" where
  "validate_admin a =
     (if length (ad_Slug a) < 32 then Some ''admin.slug must be at least 32 characters''
      else if length (ad_Token1 a) < 32 then Some ''admin.token1 must be at least 32 characters''
      else if length (ad_Token2 a) < 32 then Some ''admin.token2 must be at least 32 characters''
      else if ad_SessionIdleTTL a \<ge> ad_SessionAbsoluteTTL a then Some ''admin.session_idle_ttl must be less than admin.session_absolute_ttl''
      else validate_lockout (ad_Lockout a))"

definition validate_mode :: "config \<Rightarrow> string option" where
  "validate_mode cfg =
     (if \<not> is_valid_mode (cf_Mode cfg) then Some ''mode''
      else if \<not> is_valid_node_type (cf_NodeType cfg) then Some ''node_type''
      else if cf_Mode cfg = ModeRemote \<and> cf_HubURL cfg = [] then Some ''hub_url is required when mode=remote''
      else if cf_Mode cfg = ModeRemote \<and> \<not> is_valid_transport (cf_TransportKind cfg) then Some ''transport.kind''
      else if cf_Mode cfg = ModeLocal \<and> cf_Domain cfg = [] then Some ''domain is required''
      else if cf_Mode cfg = ModeLocal \<and> length (cf_ProxySecret cfg) < 32 then Some ''proxy_secret must be at least 32 characters''
      else if cf_Mode cfg = ModeLocal \<and> cf_Backends cfg = [] then Some ''at least one backend is required''
      else if cf_Mode cfg = ModeLocal \<and> tr_MinInstances (cf_Tor cfg) \<le> 0 then Some ''tor.min_instances must be greater than 0''
      else None)"

definition validate_config :: "config \<Rightarrow> string option" where
  "validate_config cfg =
     (case validate_mode cfg of
        Some e \<Rightarrow> Some e
      | None \<Rightarrow>
          if tr_MaxInstances (cf_Tor cfg) > 0 \<and> tr_MinInstances (cf_Tor cfg) > tr_MaxInstances (cf_Tor cfg)
          then Some ''tor.min_instances must be <= max_instances''
          else if tr_SocksBasePort (cf_Tor cfg) > 0
             \<and> wrap64 (tr_SocksBasePort (cf_Tor cfg) + tr_MaxInstances (cf_Tor cfg)) \<ge> 65535
          then Some ''tor.socks_base_port + max_instances exceeds port range''
          else if float_le (pl_ScaleUpThreshold (cf_Pool cfg)) (pl_ScaleDownThreshold (cf_Pool cfg))
          then Some ''pool.scale_up_threshold must be > scale_down_threshold''
          else
            (case find (\<lambda>(name, v). v < 0) (duration_checks cfg) of
               Some (name, v) \<Rightarrow> Some (name @ '' cannot be negative'')
             | None \<Rightarrow> if ad_Enabled (cf_Admin cfg) then validate_admin (cf_Admin cfg) else None))"

definition load_config :: "(string \<Rightarrow> config option) \<Rightarrow> string option \<Rightarrow> conf_error + config" where
  "load_config unyaml data =
     (case data of
        None \<Rightarrow> Inl ConfRead
      | Some s \<Rightarrow>
          (case unyaml s of
             None \<Rightarrow> Inl ConfYaml
           | Some cfg0 \<Rightarrow>
               (let cfg1 = (if cf_Mode cfg0 = [] \<and> cf_Backends cfg0 \<noteq> [] then cfg0\<lparr>cf_Mode := ModeLocal\<rparr> else cfg0);
                    cfg = fill_defaults cfg1
                in case validate_config cfg of Some e \<Rightarrow> Inl (ConfInvalid e) | None \<Rightarrow> Inr cfg)))"

subsection \<open>Wiring of the admin components\<close>

definition gate_config_of :: "config \<Rightarrow> gate_config" where
  "gate_config_of cfg =
     \<lparr>gc_Enabled = ad_Enabled (cf_Admin cfg), gc_Slug = ad_Slug (cf_Admin cfg), gc_Token1 = ad_Token1 (cf_Admin cfg),
      gc_Token2 = ad_Token2 (cf_Admin cfg)\<rparr>"

definition lockout_config_of :: "config \<Rightarrow> lockout_config" where
  "lockout_config_of cfg =
     (let l = ad_Lockout (cf_Admin cfg)
      in \<lparr>SoftThreshold = lk_SoftThreshold l, SoftWindow = lk_SoftWindow l, SoftBackoff = lk_SoftBackoff l,
          HardThreshold = lk_HardThreshold l, HardWindow = lk_HardWindow l, HardBan = lk_HardBan l\<rparr>)"

definition admin_stores_of :: "config \<Rightarrow> (session_store \<times> lockout) option" where
  "admin_stores_of cfg =
     (if ad_Enabled (cf_Admin cfg)
      then Some (new_session_store (ad_SessionIdleTTL (cf_Admin cfg)) (ad_SessionAbsoluteTTL (cf_Admin cfg)),
                 new_lockout (lockout_config_of cfg))
      else None)"

subsection \<open>A small configuration file\<close>

definition sample_lockout_conf :: lockout_conf where
  "sample_lockout_conf =
     \<lparr>lk_SoftThreshold = 0, lk_SoftWindow = 0, lk_SoftBackoff = 0, lk_HardThreshold = 0, lk_HardWindow = 0, lk_HardBan = 0\<rparr>"

definition sample_admin :: "string \<Rightarrow> admin_conf" where
  "sample_admin slug =
     \<lparr>ad_Socket = [], ad_Enabled = True, ad_Slug = slug, ad_Token1 = replicate 32 CHR ''b'', ad_Token2 = replicate 32 CHR ''c'',
      ad_SessionIdleTTL = 0, ad_SessionAbsoluteTTL = 0, ad_AuditDataDir = [], ad_Lockout = sample_lockout_conf\<rparr>"

definition sample_pool :: pool_conf where
  "sample_pool =
     \<lparr>pl_MaxIdleConnsPerHost = 0, pl_IdleTimeout = 0, pl_ResponseTimeout = 0, pl_ConnectTimeout = 0, pl_RetryAttempts = 0,
      pl_HealthCheckInterval = 0, pl_RebalanceInterval = 0, pl_ScaleCooldown = 0, pl_ScaleUpThreshold = FNum (3 / 4),
      pl_ScaleDownThreshold = FNum (1 / 4), pl_QuarantineGrace = 0\<rparr>"

definition sample_config :: "string \<Rightarrow> config" where
  "sample_config slug =
     \<lparr>cf_Mode = [], cf_NodeType = [], cf_TransportKind = [], cf_HubURL = [], cf_NodeID = ''n1'',
      cf_Hub = \<lparr>hbc_ListenAdmin = [], hbc_ListenWG = [], hbc_CACertFile = [], hbc_CAKeyFile = [], hbc_DataDir = []\<rparr>,
      cf_Domain = ''example.org'', cf_ProxySecret = replicate 32 CHR ''s'', cf_Cloudflare = \<lparr>cfl_Enabled = False, cfl_Mode = []\<rparr>,
      cf_Backends = [\<lparr>bc_Addr = ''x.onion:80'', bc_Weight = 0\<rparr>],
      cf_Tor = \<lparr>tr_Binary = [], tr_SocksBasePort = 0, tr_MinInstances = 2, tr_MaxInstances = 0, tr_DataDir = [],
                tr_BootstrapTimeout = 0, tr_MinSuccessfulOnStart = 0\<rparr>,
      cf_Pool = sample_pool,
      cf_Cache = \<lparr>cac_Enabled = True, cac_MaxSizeMB = 0, cac_DefaultTTL = 0, cac_StaticExtensions = []\<rparr>,
      cf_RateLimit = \<lparr>rlc_PerIPRPS = FNum 0, rlc_PerIPBurst = 0, rlc_PerIPConns = 0, rlc_APIRPS = FNum 0, rlc_APIBurst = 0, rlc_GlobalRPS = FNum 0,
                      rlc_CleanupInterval = 0\<rparr>,
      cf_Security = \<lparr>sec_ProxySecretHeader = [], sec_AnonymizeLogs = True, sec_BlockedPaths = [], sec_BlockedMethods = []\<rparr>,
      cf_Logging = \<lparr>lg_Level = [], lg_Format = [], lg_Output = [], lg_MaxSizeMB = 0, lg_MaxBackups = 0\<rparr>,
      cf_Metrics = \<lparr>mt_Enabled = True, mt_Listen = [], mt_HashTenantLabels = False, mt_TenantLabelSaltFile = []\<rparr>,
      cf_Admin = sample_admin slug,
      cf_Door = \<lparr>dc_Cover = \<lparr>cc_Enabled = False, cc_Kind = [], cc_Path = [], cc_ContentType = [], cc_Headers = []\<rparr>, dc_Slugs = []\<rparr>\<rparr>"

subsection \<open>What a loaded configuration satisfies\<close>

lemma dfl_idem [simp]: "dfl z d (dfl z d x) = dfl z d x"
  by (simp add: dfl_def)


lemma default_weight_idem [simp]: "default_weight (default_weight b) = default_weight b"
  by (simp add: default_weight_def)

lemma default_weight_nonzero [simp]: "bc_Weight (default_weight b) \<noteq> 0"
  by (simp add: default_weight_def)

lemmas fill_idem_defs = fill_tor_def fill_pool_def fill_cache_def fill_rate_limit_def fill_logging_def fill_lockout_def fill_admin_def

lemma fill_tor_idem [simp]: "fill_tor (fill_tor t) = fill_tor t"
  by (cases "tr_MinInstances t > 0 \<and> tr_MaxInstances t = 0") (auto simp: fill_tor_def)

lemma fill_parts_idem [simp]:
  "fill_pool (fill_pool p) = fill_pool p" "fill_cache (fill_cache c) = fill_cache c"
  "fill_rate_limit (fill_rate_limit r) = fill_rate_limit r" "fill_logging (fill_logging l) = fill_logging l"
  "fill_lockout (fill_lockout k) = fill_lockout k" "fill_admin n (fill_admin n a) = fill_admin n a"
  by (simp_all add: fill_pool_def fill_cache_def fill_rate_limit_def fill_logging_def fill_lockout_def fill_admin_def)

lemma fill_defaults_idem: "fill_defaults (fill_defaults cfg) = fill_defaults cfg"
  by (simp add: fill_defaults_def Let_def comp_def)

lemma fill_defaults_mode [simp]: "cf_Mode (fill_defaults cfg) \<noteq> []" "cf_NodeType (fill_defaults cfg) \<noteq> []"
  by (simp_all add: fill_defaults_def Let_def dfl_def ModeLocal_def NodeTypeLocal_def)

text \<open>Every configuration that \<^verbatim>\<open>Load\<close> returns went through the defaults and through validation.\<close>

lemma load_config_Inr:
  assumes "load_config unyaml data = Inr cfg"
  obtains cfg0 where "cfg = fill_defaults cfg0" "validate_config cfg = None"
  using assms by (auto simp: load_config_def Let_def split: option.splits if_splits)

lemma validate_config_None:
  assumes "validate_config cfg = None"
  shows "validate_mode cfg = None"
    and "tr_MaxInstances (cf_Tor cfg) > 0 \<longrightarrow> tr_MinInstances (cf_Tor cfg) \<le> tr_MaxInstances (cf_Tor cfg)"
    and "\<not> float_le (pl_ScaleUpThreshold (cf_Pool cfg)) (pl_ScaleDownThreshold (cf_Pool cfg))"
    and "\<forall>(n, v) \<in> set (duration_checks cfg). 0 \<le> v"
    and "ad_Enabled (cf_Admin cfg) \<longrightarrow> validate_admin (cf_Admin cfg) = None"
  using assms by (auto simp: validate_config_def not_le not_less find_None_iff split: option.splits if_splits prod.splits)

lemma validate_admin_None:
  "validate_admin a = None \<longleftrightarrow>
     32 \<le> length (ad_Slug a) \<and> 32 \<le> length (ad_Token1 a) \<and> 32 \<le> length (ad_Token2 a)
     \<and> ad_SessionIdleTTL a < ad_SessionAbsoluteTTL a \<and> validate_lockout (ad_Lockout a) = None"
  by (auto simp: validate_admin_def)

lemma validate_lockout_None:
  "validate_lockout l = None \<longleftrightarrow>
     list_all ((<) 0) [lk_SoftThreshold l, lk_SoftWindow l, lk_SoftBackoff l, lk_HardThreshold l, lk_HardWindow l, lk_HardBan l]"
  by (auto simp: validate_lockout_def)



lemmas sample_defs = sample_config_def sample_pool_def sample_admin_def sample_lockout_conf_def

lemma sample_config_loads:
  assumes "32 \<le> length slug"
  shows "load_config (\<lambda>_. Some (sample_config slug)) (Some []) = Inr (fill_defaults (sample_config slug))"
proof -
  let ?c = "fill_defaults (sample_config slug)"
  have mode: "validate_mode ?c = None"
    by (simp add: validate_mode_def fill_defaults_def Let_def sample_defs fill_tor_def dfl_def is_valid_mode_def is_valid_node_type_def
        ModeLocal_def ModeRemote_def NodeTypeLocal_def)
  have adm: "validate_admin (cf_Admin ?c) = None"
    using assms by (simp add: validate_admin_None validate_lockout_None fill_defaults_def Let_def sample_defs fill_admin_def
        fill_lockout_def dfl_def second_def)
  have dur: "find (\<lambda>(name, v). v < 0) (duration_checks ?c) = None"
    by (simp add: duration_checks_def fill_defaults_def Let_def sample_defs fill_idem_defs dfl_def second_def)
  have "validate_config ?c = None"
    unfolding validate_config_def mode dur adm
    by (simp add: fill_defaults_def Let_def sample_defs fill_tor_def fill_pool_def dfl_def wrap64_def)
  moreover have "fill_defaults ((sample_config slug)\<lparr>cf_Mode := ModeLocal\<rparr>) = ?c"
    by (simp add: fill_defaults_def Let_def sample_defs dfl_def ModeLocal_def)
  ultimately show ?thesis by (simp add: load_config_def sample_config_def)
qed







text \<open>
  The checks of the instance bounds and of the scaling thresholds can be passed by values that they are meant to keep out: with a negative maximum the bounds are not compared at all, and every comparison with NaN
  is false.
\<close>

definition odd_config :: config where
  "odd_config =
     (let c = sample_config (replicate 32 CHR ''a'')
      in c\<lparr>cf_Tor := (cf_Tor c)\<lparr>tr_MinInstances := 5, tr_MaxInstances := - 1\<rparr>, cf_Pool := (cf_Pool c)\<lparr>pl_ScaleUpThreshold := FNaN\<rparr>\<rparr>)"

theorem odd_config_loads:
  "\<exists>cfg. load_config (\<lambda>_. Some odd_config) (Some []) = Inr cfg \<and> tr_MinInstances (cf_Tor cfg) = 5 \<and> tr_MaxInstances (cf_Tor cfg) = - 1
     \<and> pl_ScaleUpThreshold (cf_Pool cfg) = FNaN"
proof -
  let ?c = "fill_defaults odd_config"
  have mode: "validate_mode ?c = None"
    by (simp add: odd_config_def validate_mode_def fill_defaults_def Let_def sample_defs fill_tor_def dfl_def is_valid_mode_def is_valid_node_type_def
        ModeLocal_def ModeRemote_def NodeTypeLocal_def)
  have adm: "validate_admin (cf_Admin ?c) = None"
    by (simp add: odd_config_def validate_admin_None validate_lockout_None fill_defaults_def Let_def sample_defs fill_admin_def
        fill_lockout_def dfl_def second_def)
  have dur: "find (\<lambda>(name, v). v < 0) (duration_checks ?c) = None"
    by (simp add: odd_config_def duration_checks_def fill_defaults_def Let_def sample_defs fill_idem_defs dfl_def second_def)
  have "validate_config ?c = None"
    unfolding validate_config_def mode dur adm
    by (simp add: odd_config_def fill_defaults_def Let_def sample_defs fill_tor_def fill_pool_def dfl_def wrap64_def)
  moreover have "fill_defaults (odd_config\<lparr>cf_Mode := ModeLocal\<rparr>) = ?c"
    by (simp add: odd_config_def fill_defaults_def Let_def sample_defs dfl_def ModeLocal_def)
  moreover have "cf_Mode odd_config = []" "cf_Backends odd_config \<noteq> []" by (simp_all add: odd_config_def Let_def sample_config_def)
  ultimately have "load_config (\<lambda>_. Some odd_config) (Some []) = Inr ?c" by (simp add: load_config_def)
  moreover have "tr_MinInstances (cf_Tor ?c) = 5 \<and> tr_MaxInstances (cf_Tor ?c) = - 1 \<and> pl_ScaleUpThreshold (cf_Pool ?c) = FNaN"
    by (simp add: odd_config_def fill_defaults_def Let_def sample_defs fill_tor_def fill_pool_def dfl_def)
  ultimately show ?thesis by blast
qed

text \<open>
  Writing the effective configuration back to a file and loading that file again gives the same configuration: what \<^verbatim>\<open>Load\<close> returned is
  accepted again and no default changes it a second time.
\<close>

theorem loaded_config_reloads:
  assumes "load_config unyaml data = Inr cfg" and "unyaml (to_yaml cfg) = Some cfg"
  shows "load_config unyaml (Some (to_yaml cfg)) = Inr cfg"
proof -
  obtain cfg0 where c: "cfg = fill_defaults cfg0" and v: "validate_config cfg = None" by (rule load_config_Inr[OF assms(1)])
  have "fill_defaults cfg = cfg" by (simp add: c fill_defaults_idem)
  moreover have "cf_Mode cfg \<noteq> []" by (simp add: c)
  ultimately show ?thesis using assms(2) v by (simp add: load_config_def Let_def)
qed

theorem loaded_config_reloads_witness:
  "\<exists>c. load_config (\<lambda>s. Some (if s = [] then sample_config (replicate 32 CHR ''a'') else c)) (Some ''x'') = Inr c"
proof -
  let ?c = "fill_defaults (sample_config (replicate 32 CHR ''a''))"
  let ?u = "\<lambda>s. Some (if s = [] then sample_config (replicate 32 CHR ''a'') else ?c)"
  have "load_config ?u (Some []) = Inr ?c"
    using sample_config_loads[of "replicate 32 CHR ''a''"] by (simp add: load_config_def)
  then have "load_config ?u (Some ''x'') = Inr ?c" using loaded_config_reloads[of ?u "Some []" ?c "\<lambda>_. ''x''"] by simp
  then show ?thesis by blast
qed


text \<open>A segment of a path contains no slash, and padding adds NUL bytes only: a secret with a slash is matched by no path.\<close>

lemma pad_bytes_no_slash: "CHR ''/'' \<notin> set a \<Longrightarrow> CHR ''/'' \<notin> set (pad_bytes n a)"
  by (auto simp: pad_bytes_def dest: in_set_takeD)

text \<open>
  Validation only measures the length of the admin secrets. A configuration in which one of them contains a slash is loaded, but the
  gate built from it matches no path: the admin interface is enabled and cannot be reached.
\<close>

theorem slash_in_secret_locks_admin_out:
  assumes "load_config unyaml data = Inr cfg" and "ad_Enabled (cf_Admin cfg)"
    and "list_ex (\<lambda>t. CHR ''/'' \<in> set t) [ad_Slug (cf_Admin cfg), ad_Token1 (cf_Admin cfg), ad_Token2 (cf_Admin cfg)]"
  shows "admin_stores_of cfg \<noteq> None \<and> \<not> matches_prefix (gate_new (gate_config_of cfg)) path"
proof
  show "admin_stores_of cfg \<noteq> None" using assms(2) by (simp add: admin_stores_of_def)
  obtain cfg0 where "validate_config cfg = None" by (rule load_config_Inr[OF assms(1)])
  from validate_config_None(5)[OF this] have len: "ad_Slug (cf_Admin cfg) \<noteq> []" "ad_Token1 (cf_Admin cfg) \<noteq> []"
    "ad_Token2 (cf_Admin cfg) \<noteq> []"
    using assms(2) by (auto simp: validate_admin_None)
  show "\<not> matches_prefix (gate_new (gate_config_of cfg)) path"
  proof
    assume "matches_prefix (gate_new (gate_config_of cfg)) path"
    then obtain a b d where sp: "split_three path = Some (a, b, d)"
      and pads: "pad_bytes (length (ad_Slug (cf_Admin cfg))) a = ad_Slug (cf_Admin cfg)"
        "pad_bytes (length (ad_Token1 (cf_Admin cfg))) b = ad_Token1 (cf_Admin cfg)"
        "pad_bytes (length (ad_Token2 (cf_Admin cfg))) d = ad_Token2 (cf_Admin cfg)"
      using assms(2) len by (auto simp: matches_prefix_alt gate_new_def gate_config_of_def)
    have "CHR ''/'' \<notin> set a" "CHR ''/'' \<notin> set b" "CHR ''/'' \<notin> set d" using split_three_Some[OF sp] by auto
    then have "CHR ''/'' \<notin> set (ad_Slug (cf_Admin cfg))" "CHR ''/'' \<notin> set (ad_Token1 (cf_Admin cfg))"
      "CHR ''/'' \<notin> set (ad_Token2 (cf_Admin cfg))"
      using pads by (metis pad_bytes_no_slash)+
    then show False using assms(3) by simp
  qed
qed

theorem slash_in_secret_locks_admin_out_witness:
  "\<not> matches_prefix (gate_new (gate_config_of (fill_defaults (sample_config (replicate 16 CHR ''a'' @ ''/'' @ replicate 16 CHR ''a'')))))
       (''/'' @ replicate 16 CHR ''a'' @ ''/'' @ replicate 16 CHR ''a'' @ ''/'' @ replicate 32 CHR ''b'' @ ''/'' @ replicate 32 CHR ''c'')"
proof -
  let ?slug = "replicate 16 CHR ''a'' @ ''/'' @ replicate 16 CHR ''a''"
  have ld: "load_config (\<lambda>_. Some (sample_config ?slug)) (Some []) = Inr (fill_defaults (sample_config ?slug))"
    by (rule sample_config_loads) simp
  have ad: "ad_Enabled (cf_Admin (fill_defaults (sample_config ?slug)))"
    "ad_Slug (cf_Admin (fill_defaults (sample_config ?slug))) = ?slug"
    by (simp_all add: fill_defaults_def Let_def fill_admin_def sample_defs)
  show ?thesis using slash_in_secret_locks_admin_out[OF ld ad(1)] ad(2) by simp
qed


text \<open>
  A tenant file that is accepted names a host and at least one backend, every backend has an address and a non-zero weight, and the
  file is accepted unchanged when the tenant is written out and read again.
\<close>

theorem tenant_file_sound:
  assumes "load_tenant_file unyaml data = Inr t" and "unyaml (to_yaml t) = Some t"
  shows "tc_Host t \<noteq> [] \<and> tc_Backends t \<noteq> []
     \<and> list_all (\<lambda>b. bc_Addr b \<noteq> [] \<and> bc_Weight b \<noteq> 0) (tc_Backends t)
     \<and> load_tenant_file unyaml (Some (to_yaml t)) = Inr t"
proof -
  obtain t0 where v: "validate_tenant t0 = Inr t"
    using assms(1) by (auto simp: load_tenant_file_def split: option.splits)
  have addr: "bc_Addr (default_weight b) = bc_Addr b" for b by (simp add: default_weight_def)
  have "validate_tenant t = Inr t"
    using v by (auto simp: validate_tenant_def list_ex_iff addr comp_def split: if_splits)
  then show ?thesis
    using v assms(2) by (auto simp: load_tenant_file_def validate_tenant_def list_ex_iff list_all_iff addr split: if_splits)
qed

theorem tenant_file_sound_witness:
  "\<exists>t. load_tenant_file (\<lambda>s. Some (if s = [] then t\<lparr>tc_Backends := [\<lparr>bc_Addr = ''x.onion:80'', bc_Weight = 0\<rparr>]\<rparr> else t)) (Some ''y'') = Inr t
     \<and> tc_Backends t = [\<lparr>bc_Addr = ''x.onion:80'', bc_Weight = 1\<rparr>]"
proof -
  let ?t = "\<lparr>tc_Host = ''a.example'', tc_Enabled = True, tc_Backends = [\<lparr>bc_Addr = ''x.onion:80'', bc_Weight = 1\<rparr>], tc_Features = [],
      tc_StealthHS = \<lparr>sh_Enabled = False, sh_ClientAuths = []\<rparr>,
      tc_NegativeCache = \<lparr>ncc_Enabled = False, ncc_TTL = 0, ncc_FailureThreshold = 0\<rparr>,
      tc_AbuseAPI = \<lparr>aac_Enabled = False, aac_Path = [], aac_NotifyEmail = []\<rparr>, tc_AssignedNodes = []\<rparr>"
  let ?u = "\<lambda>s. Some (if s = [] then ?t\<lparr>tc_Backends := [\<lparr>bc_Addr = ''x.onion:80'', bc_Weight = 0\<rparr>]\<rparr> else ?t)"
  have "load_tenant_file ?u (Some []) = Inr ?t" by (simp add: load_tenant_file_def validate_tenant_def default_weight_def)
  then have "load_tenant_file ?u (Some ''y'') = Inr ?t"
    using tenant_file_sound[of ?u "Some []" ?t "\<lambda>_. ''y''"] by simp
  then show ?thesis by (intro exI[of _ ?t]) simp
qed


end
