(* ===== verification/Broadcast.thy ===== *)
theory Broadcast
  imports Prelude
begin

text \<open>
  Publishing of the hub: the bounded subscriber queues that \<^verbatim>\<open>internal/hub/registry.go\<close> and
  \<^verbatim>\<open>internal/hub/mirrors.go\<close> share (the second file's copy differs only in the event type), the channel of an SSE
  connection in \<^verbatim>\<open>internal/hub/stream.go\<close>, and the contract between a registry and the replicas that follow its events.

  A buffered channel is the list of its elements; the goroutine that drains it takes them one by one and \<open>sb_seen\<close> are the
  events handed to the subscriber so far. An operation of a registry is its new state and the events it broadcasts; broadcasting appends them
  to every queue.
\<close>

subsection \<open>Subscriber queues\<close>

record 'e sub_state =
  sb_ch :: "'e list"
  sb_closed :: bool
  sb_seen :: "'e list"

definition subBuffer :: nat where "subBuffer = 32"

definition new_sub :: "'e sub_state" where
  "new_sub = \<lparr>sb_ch = [], sb_closed = False, sb_seen = []\<rparr>"

text \<open>The loop of \<^verbatim>\<open>enqueue\<close>: send if there is room, else receive the oldest and try again.\<close>

function enqueue_loop :: "'e \<Rightarrow> 'e list \<Rightarrow> 'e list" where
  "enqueue_loop ev ch = (if length ch < subBuffer then ch @ [ev] else enqueue_loop ev (tl ch))"
  by pat_completeness auto
termination by (relation "measure (\<lambda>(ev, ch). length ch)") (auto simp: subBuffer_def)

declare enqueue_loop.simps [simp del]

definition enqueue :: "'e \<Rightarrow> 'e sub_state \<Rightarrow> 'e sub_state" where
  "enqueue ev s = (if sb_closed s then s else s\<lparr>sb_ch := enqueue_loop ev (sb_ch s)\<rparr>)"

definition close_chan :: "'e sub_state \<Rightarrow> 'e sub_state" where
  "close_chan s = (if sb_closed s then s else s\<lparr>sb_closed := True\<rparr>)"

definition drain :: "'e sub_state \<Rightarrow> 'e sub_state" where
  "drain s = (case sb_ch s of [] \<Rightarrow> s | ev # ch \<Rightarrow> s\<lparr>sb_ch := ch, sb_seen := sb_seen s @ [ev]\<rparr>)"

type_synonym 'e subs = "(64 word \<times> 'e sub_state) list"

definition broadcast :: "'e \<Rightarrow> 'e subs \<Rightarrow> 'e subs" where
  "broadcast ev subs = map (\<lambda>(i, st). (i, enqueue ev st)) subs"

text \<open>\<^verbatim>\<open>removeSub\<close>: the table without the subscriber, and the closed queue whose rest its goroutine still delivers.\<close>

definition remove_sub :: "64 word \<Rightarrow> 'e subs \<Rightarrow> 'e subs \<times> 'e sub_state option" where
  "remove_sub i subs =
     (case map_of subs i of None \<Rightarrow> (subs, None) | Some st \<Rightarrow> (alist_del i subs, Some (close_chan st)))"

text \<open>\<^verbatim>\<open>streamSubscriber.OnEvent\<close> with a channel of capacity \<open>cap\<close>: drop the oldest once, then try once more.\<close>

definition streamBuffer :: nat where "streamBuffer = 64"

definition on_event :: "nat \<Rightarrow> 'e \<Rightarrow> 'e list \<times> bool \<Rightarrow> 'e list \<times> bool" where
  "on_event cap ev s =
     (case s of (out, closed) \<Rightarrow>
        if closed then (out, closed)
        else if length out < cap then (out @ [ev], closed)
        else (let out' = tl out in if length out' < cap then (out' @ [ev], closed) else (out', closed)))"

subsection \<open>Queues are bounded and keep the newest events in order\<close>

lemma enqueue_loop_room: "length ch < subBuffer \<Longrightarrow> enqueue_loop ev ch = ch @ [ev]"
  by (simp add: enqueue_loop.simps)

lemma enqueue_loop_full: "length ch = subBuffer \<Longrightarrow> enqueue_loop ev ch = tl ch @ [ev]"
  by (subst enqueue_loop.simps) (simp add: enqueue_loop_room subBuffer_def)

text \<open>The two queue disciplines are one.\<close>

lemma on_event_enqueue_loop:
  "length ch \<le> subBuffer \<Longrightarrow> on_event subBuffer ev (ch, False) = (enqueue_loop ev ch, False)"
  by (cases "length ch = subBuffer") (simp_all add: on_event_def enqueue_loop_room enqueue_loop_full Let_def subBuffer_def)

datatype 'e queue_op = QEnq 'e | QDrain

fun queue_step :: "'e queue_op \<Rightarrow> 'e sub_state \<Rightarrow> 'e sub_state" where
  "queue_step (QEnq e) s = enqueue e s"
| "queue_step QDrain s = drain s"

fun enqueued :: "'e queue_op list \<Rightarrow> 'e list" where
  "enqueued [] = []"
| "enqueued (QEnq e # ops) = e # enqueued ops"
| "enqueued (QDrain # ops) = enqueued ops"

text \<open>No operation of the sequence finds the queue full.\<close>

fun no_overflow :: "'e queue_op list \<Rightarrow> 'e sub_state \<Rightarrow> bool" where
  "no_overflow [] s = True"
| "no_overflow (op # ops) s \<longleftrightarrow>
     (case op of QEnq e \<Rightarrow> length (sb_ch s) < subBuffer | QDrain \<Rightarrow> True) \<and> no_overflow ops (queue_step op s)"

definition queue_inv :: "'e list \<Rightarrow> 'e sub_state \<Rightarrow> bool" where
  "queue_inv es s \<longleftrightarrow>
     \<not> sb_closed s \<and> length (sb_ch s) \<le> subBuffer \<and> suffix (sb_ch s) es \<and> subseq (sb_seen s @ sb_ch s) es"

lemma queue_inv_enqueue:
  assumes "queue_inv es s"
  shows "queue_inv (es @ [e]) (enqueue e s)"
proof (cases "length (sb_ch s) = subBuffer")
  case True
  then obtain x xs where ch: "sb_ch s = x # xs" by (cases "sb_ch s") (auto simp: subBuffer_def)
  have "suffix xs es" using assms ch by (auto simp: queue_inv_def suffix_def)
  moreover have "subseq (sb_seen s @ xs) (sb_seen s @ x # xs)" by (intro list_emb_append_mono) auto
  then have "subseq (sb_seen s @ xs) es"
    using assms ch by (auto simp: queue_inv_def intro: subseq_order.trans)
  then have "subseq ((sb_seen s @ xs) @ [e]) (es @ [e])" by (rule list_emb_append_mono) simp
  ultimately have "suffix (xs @ [e]) (es @ [e])" "subseq (sb_seen s @ xs @ [e]) (es @ [e])" by (simp_all add: suffix_def)
  then show ?thesis using assms True ch by (simp add: queue_inv_def enqueue_def enqueue_loop_full)
next
  case False
  then have "length (sb_ch s) < subBuffer" using assms by (simp add: queue_inv_def)
  then show ?thesis using assms by (auto simp: queue_inv_def enqueue_def enqueue_loop_room suffix_def)
qed

lemma queue_inv_drain: "queue_inv es s \<Longrightarrow> queue_inv es (drain s)"
  by (auto simp: queue_inv_def drain_def suffix_def split: list.splits)

lemma queue_inv_run: "queue_inv es s \<Longrightarrow> queue_inv (es @ enqueued ops) (fold queue_step ops s)"
proof (induction ops arbitrary: es s)
  case (Cons op ops)
  show ?case
  proof (cases op)
    case (QEnq e)
    then show ?thesis using Cons.IH[OF queue_inv_enqueue[OF Cons.prems, of e]] by simp
  next
    case QDrain
    then show ?thesis using Cons.IH[OF queue_inv_drain[OF Cons.prems]] by simp
  qed
qed simp

lemma enqueue_lossless:
  "\<not> sb_closed s \<Longrightarrow> length (sb_ch s) < subBuffer \<Longrightarrow>
     sb_seen (enqueue e s) @ sb_ch (enqueue e s) = (sb_seen s @ sb_ch s) @ [e] \<and> \<not> sb_closed (enqueue e s)"
  by (simp add: enqueue_def enqueue_loop_room)

lemma drain_lossless: "sb_seen (drain s) @ sb_ch (drain s) = sb_seen s @ sb_ch s \<and> sb_closed (drain s) = sb_closed s"
  by (auto simp: drain_def split: list.splits)

lemma queue_lossless:
  "\<not> sb_closed s \<Longrightarrow> no_overflow ops s \<Longrightarrow>
     sb_seen (fold queue_step ops s) @ sb_ch (fold queue_step ops s) = (sb_seen s @ sb_ch s) @ enqueued ops"
proof (induction ops arbitrary: s)
  case (Cons op ops)
  show ?case
  proof (cases op)
    case (QEnq e)
    with Cons.prems Cons.IH[of "enqueue e s"] enqueue_lossless[of s e] show ?thesis by simp
  next
    case QDrain
    with Cons.prems Cons.IH[of "drain s"] drain_lossless[of s] show ?thesis by simp
  qed
qed simp

text \<open>The channel of an SSE connection under the same operations: \<^verbatim>\<open>OnEvent\<close> and the receive of the loop in \<^verbatim>\<open>ServeHTTP\<close>.\<close>

fun stream_queue_step :: "'e queue_op \<Rightarrow> 'e sub_state \<Rightarrow> 'e sub_state" where
  "stream_queue_step (QEnq e) s = (case on_event streamBuffer e (sb_ch s, sb_closed s) of (out, closed) \<Rightarrow> s\<lparr>sb_ch := out, sb_closed := closed\<rparr>)"
| "stream_queue_step QDrain s = drain s"

fun stream_no_overflow :: "'e queue_op list \<Rightarrow> 'e sub_state \<Rightarrow> bool" where
  "stream_no_overflow [] s = True"
| "stream_no_overflow (op # ops) s \<longleftrightarrow>
     (case op of QEnq e \<Rightarrow> length (sb_ch s) < streamBuffer | QDrain \<Rightarrow> True) \<and> stream_no_overflow ops (stream_queue_step op s)"

lemma stream_queue_lossless:
  "\<not> sb_closed s \<Longrightarrow> stream_no_overflow ops s \<Longrightarrow>
     sb_seen (fold stream_queue_step ops s) @ sb_ch (fold stream_queue_step ops s) = (sb_seen s @ sb_ch s) @ enqueued ops"
proof (induction ops arbitrary: s)
  case (Cons op ops)
  show ?case
  proof (cases op)
    case (QEnq e)
    then have "stream_queue_step op s = s\<lparr>sb_ch := sb_ch s @ [e], sb_closed := False\<rparr>" using Cons.prems by (simp add: on_event_def)
    then show ?thesis using Cons.prems Cons.IH[of "s\<lparr>sb_ch := sb_ch s @ [e], sb_closed := False\<rparr>"] QEnq by (simp del: stream_queue_step.simps)
  next
    case QDrain
    with Cons.prems Cons.IH[of "drain s"] drain_lossless[of s] show ?thesis by simp
  qed
qed simp

text \<open>What a consumer that has caught up was handed, when nothing was dropped.\<close>

lemma queues_delivered:
  "no_overflow qs new_sub \<Longrightarrow> sb_ch (fold queue_step qs new_sub) = [] \<Longrightarrow> sb_seen (fold queue_step qs new_sub) = enqueued qs"
  "stream_no_overflow qs new_sub \<Longrightarrow> sb_ch (fold stream_queue_step qs new_sub) = [] \<Longrightarrow> sb_seen (fold stream_queue_step qs new_sub) = enqueued qs"
  using queue_lossless[of new_sub qs] stream_queue_lossless[of new_sub qs] by (simp_all add: new_sub_def)

text \<open>
  A subscriber queue is bounded and keeps order: for every interleaving of broadcasts and deliveries, at most 32 events are pending and they are the most recent ones
  without a gap; what the subscriber has been handed, followed by what is pending, is a subsequence of the broadcast events; and nothing at all is lost as long as no broadcast finds
  the queue full.
\<close>

theorem subscriber_queue_fifo:
  assumes "s = fold queue_step ops new_sub"
  shows "length (sb_ch s) \<le> subBuffer \<and> suffix (sb_ch s) (enqueued ops) \<and> subseq (sb_seen s @ sb_ch s) (enqueued ops)
    \<and> (no_overflow ops new_sub \<longrightarrow> sb_seen s @ sb_ch s = enqueued ops)"
proof -
  have "queue_inv [] new_sub" by (simp add: queue_inv_def new_sub_def)
  from queue_inv_run[OF this, of ops] have "queue_inv (enqueued ops) s" by (simp add: assms)
  moreover have "no_overflow ops new_sub \<Longrightarrow> sb_seen s @ sb_ch s = enqueued ops"
    using queue_lossless[of new_sub ops] by (simp add: assms new_sub_def)
  ultimately show ?thesis by (simp add: queue_inv_def)
qed

theorem subscriber_queue_fifo_witness:
  "let s = fold queue_step (map QEnq [1..<40] @ [QDrain]) (new_sub :: nat sub_state)
   in length (sb_ch s) \<le> 32 \<and> suffix (sb_ch s) (enqueued (map QEnq [1..<40] @ [QDrain]))"
  using subscriber_queue_fifo[OF refl, of "map QEnq [1..<40] @ [QDrain]"] by (simp add: Let_def subBuffer_def)

subsection \<open>Replicas\<close>

text \<open>A run of operations, with the events it broadcasts.\<close>

fun publish_run :: "('op \<Rightarrow> 's \<Rightarrow> 's \<times> 'e list) \<Rightarrow> 'op list \<Rightarrow> 's \<Rightarrow> 's \<times> 'e list" where
  "publish_run step [] s = (s, [])"
| "publish_run step (op # ops) s =
     (case step op s of (s', evs) \<Rightarrow> case publish_run step ops s' of (s'', evs') \<Rightarrow> (s'', evs @ evs'))"

text \<open>
  The contract of a registry whose events a replica applies: the events of an operation, applied in order to the view of the old state, give the view
  of the new one, and a snapshot event gives the view of the state it was taken in whatever the replica had before.
\<close>

locale publisher =
  fixes inv :: "'s \<Rightarrow> bool" and view :: "'s \<Rightarrow> 'v" and step :: "'op \<Rightarrow> 's \<Rightarrow> 's \<times> 'e list"
    and snapshot :: "'s \<Rightarrow> 'e" and replay :: "'e \<Rightarrow> 'v \<Rightarrow> 'v"
  assumes inv_step: "inv s \<Longrightarrow> step op s = (s', evs) \<Longrightarrow> inv s'"
    and replay_step: "inv s \<Longrightarrow> step op s = (s', evs) \<Longrightarrow> fold replay evs (view s) = view s'"
    and replay_snapshot: "inv s \<Longrightarrow> replay (snapshot s) v = view s"
begin

lemma publish_run_inv: "inv s \<Longrightarrow> publish_run step ops s = (s', evs) \<Longrightarrow> inv s'"
  by (induction ops arbitrary: s s' evs) (auto split: prod.splits dest: inv_step)

lemma publish_run_replay: "inv s \<Longrightarrow> publish_run step ops s = (s', evs) \<Longrightarrow> fold replay evs (view s) = view s'"
proof (induction ops arbitrary: s s' evs)
  case (Cons op ops)
  obtain s1 e1 where 1: "step op s = (s1, e1)" by fastforce
  obtain s2 e2 where 2: "publish_run step ops s1 = (s2, e2)" by fastforce
  show ?case
    using Cons.IH[OF inv_step[OF Cons.prems(1) 1] 2] replay_step[OF Cons.prems(1) 1] Cons.prems(2) 1 2 by auto
qed simp

lemma replica_in_sync:
  assumes "inv s" and "publish_run step ops s = (s', evs)"
  shows "fold replay (snapshot s # evs) v = view s'"
  using publish_run_replay[OF assms] by (simp add: replay_snapshot[OF assms(1)])

text \<open>Through the queue: once everything pending has been delivered.\<close>

lemma replica_in_sync_queued:
  assumes "inv s" and "publish_run step ops s = (s', evs)" and "enqueued qs = snapshot s # evs" and "no_overflow qs new_sub"
    and "sb_ch (fold queue_step qs new_sub) = []"
  shows "fold replay (sb_seen (fold queue_step qs new_sub)) v = view s'"
  using queue_lossless[of new_sub qs] replica_in_sync[OF assms(1,2)] assms(3-5) by (simp add: new_sub_def)

end

end
