(* ===== verification/Storage.thy ===== *)
theory Storage
  imports Prelude
begin

text \<open>
  The file-backed persistence of the hub, \<^verbatim>\<open>internal/hub/storage.go\<close>: file names made from host names and atomic writes. A
  directory is an association list from names to entries; \<open>read_dir\<close> lists it sorted by name, as \<^verbatim>\<open>os.ReadDir\<close> does.
  Whether a system call succeeds is an argument. A failed atomic write leaves the directory as it was.
\<close>

subsection \<open>Runes\<close>

definition byte_in :: "nat \<Rightarrow> nat \<Rightarrow> char \<Rightarrow> bool" where
  "byte_in lo hi c \<longleftrightarrow> lo \<le> of_char c \<and> of_char c \<le> hi"

text \<open>The bytes of the first rune of a non-empty string; an invalid encoding counts as one byte.\<close>

fun rune_width :: "string \<Rightarrow> nat" where
  "rune_width (a # b # c # d # _) =
     (if byte_in 0xC2 0xDF a \<and> byte_in 0x80 0xBF b then 2
      else if (byte_in 0xE0 0xE0 a \<and> byte_in 0xA0 0xBF b \<or> byte_in 0xE1 0xEC a \<and> byte_in 0x80 0xBF b
           \<or> byte_in 0xED 0xED a \<and> byte_in 0x80 0x9F b \<or> byte_in 0xEE 0xEF a \<and> byte_in 0x80 0xBF b) \<and> byte_in 0x80 0xBF c then 3
      else if (byte_in 0xF0 0xF0 a \<and> byte_in 0x90 0xBF b \<or> byte_in 0xF1 0xF3 a \<and> byte_in 0x80 0xBF b
           \<or> byte_in 0xF4 0xF4 a \<and> byte_in 0x80 0x8F b) \<and> byte_in 0x80 0xBF c \<and> byte_in 0x80 0xBF d then 4
      else 1)"
| "rune_width [a, b, c] =
     (if byte_in 0xC2 0xDF a \<and> byte_in 0x80 0xBF b then 2
      else if (byte_in 0xE0 0xE0 a \<and> byte_in 0xA0 0xBF b \<or> byte_in 0xE1 0xEC a \<and> byte_in 0x80 0xBF b
           \<or> byte_in 0xED 0xED a \<and> byte_in 0x80 0x9F b \<or> byte_in 0xEE 0xEF a \<and> byte_in 0x80 0xBF b) \<and> byte_in 0x80 0xBF c then 3
      else 1)"
| "rune_width [a, b] = (if byte_in 0xC2 0xDF a \<and> byte_in 0x80 0xBF b then 2 else 1)"
| "rune_width [a] = 1"
| "rune_width [] = 1"

lemma rune_width_pos: "0 < rune_width s"
  by (induction s rule: rune_width.induct) simp_all

lemma rune_width_ascii: "of_char c < (128::nat) \<Longrightarrow> rune_width (c # s) = 1"
  by (cases "c # s" rule: rune_width.cases) (auto simp: byte_in_def)

function runes :: "string \<Rightarrow> string list" where
  "runes s = (if s = [] then [] else take (rune_width s) s # runes (drop (rune_width s) s))"
  by pat_completeness auto
termination
proof (relation "measure length")
  fix s :: string
  assume "s \<noteq> []"
  then show "(drop (rune_width s) s, s) \<in> measure length" using rune_width_pos[of s] by simp
qed simp

declare runes.simps [simp del]

lemma runes_Nil [simp]: "runes [] = []"
  by (simp add: runes.simps)

lemma runes_ascii: "of_char c < (128::nat) \<Longrightarrow> runes (c # s) = [c] # runes s"
  by (subst runes.simps) (simp add: rune_width_ascii)

subsection \<open>File names\<close>

definition host_byte_ok :: "char \<Rightarrow> bool" where
  "host_byte_ok c \<longleftrightarrow> byte_in 97 122 c \<or> byte_in 48 57 c \<or> c = CHR ''-'' \<or> c = CHR ''.'' \<or> c = CHR ''_''"

fun sanitize_rune :: "string \<Rightarrow> string" where
  "sanitize_rune [c] = (if host_byte_ok c then [c] else ''-'')"
| "sanitize_rune r = ''-''"

definition sanitize_host :: "(string \<Rightarrow> string) \<Rightarrow> string \<Rightarrow> string" where
  "sanitize_host uni host = concat (map sanitize_rune (runes (to_lower uni (trim_space host))))"

definition yaml_ext :: string where "yaml_ext = ''.yaml''"

definition is_yaml_name :: "(string \<Rightarrow> string) \<Rightarrow> string \<Rightarrow> bool" where
  "is_yaml_name uni name \<longleftrightarrow> has_suffix (to_lower uni name) yaml_ext"

text \<open>A file event that schedules a reload.\<close>

definition relevant_event :: "(string \<Rightarrow> string) \<Rightarrow> string \<Rightarrow> bool" where
  "relevant_event uni base = (if has_prefix base ''.tmp-'' then False else is_yaml_name uni base)"

subsection \<open>Directories\<close>

datatype dirent = DirEnt | FileEnt string | UnreadableEnt

type_synonym directory = "(string \<times> dirent) list"

datatype storage_error = WriteFailed string | RemoveFailed string | MarshalFailed | ReadFailed string | ParseFailed string | ReadDirFailed

definition read_dir :: "directory \<Rightarrow> directory" where
  "read_dir d = sort_key fst d"

definition atomic_write :: "bool \<Rightarrow> string \<Rightarrow> string \<Rightarrow> directory \<Rightarrow> storage_error + directory" where
  "atomic_write ok name data d =
     (if \<not> ok \<or> map_of d name = Some DirEnt then Inl (WriteFailed name) else Inr (alist_put name (FileEnt data) d))"

definition remove_file :: "bool \<Rightarrow> string \<Rightarrow> directory \<Rightarrow> storage_error + directory" where
  "remove_file ok name d =
     (if map_of d name = None then Inr d else if \<not> ok then Inl (RemoveFailed name) else Inr (alist_del name d))"

subsection \<open>Sanitised names\<close>

lemma runes_ascii_string: "is_ascii s \<Longrightarrow> runes s = map (\<lambda>c. [c]) s"
  by (induction s) (simp_all add: is_ascii_def runes_ascii)

lemma sanitize_bytes:
  "concat (map sanitize_rune (map (\<lambda>c. [c]) s)) = map (\<lambda>c. if host_byte_ok c then c else CHR ''-'') s"
  by (induction s) simp_all

lemma sanitize_ascii:
  "is_ascii (trim_space host) \<Longrightarrow>
     sanitize_host uni host = map (\<lambda>c. if host_byte_ok c then c else CHR ''-'') (map ascii_lower (trim_space host))"
  by (simp only: sanitize_host_def to_lower_def if_True runes_ascii_string is_ascii_lower sanitize_bytes)

lemma sanitize_rune_safe: "c \<in> set (sanitize_rune r) \<Longrightarrow> host_byte_ok c"
  by (induction r rule: sanitize_rune.induct) (auto simp: host_byte_ok_def split: if_splits)

lemma sanitize_host_safe: "list_all host_byte_ok (sanitize_host uni host)"
  using sanitize_rune_safe by (fastforce simp: sanitize_host_def list_all_iff)

lemma host_byte_no_slash: "host_byte_ok c \<Longrightarrow> c \<noteq> CHR ''/''"
  by (auto simp: host_byte_ok_def byte_in_def)

lemma host_byte_ascii: "host_byte_ok c \<Longrightarrow> of_char c < (128::nat)"
  by (auto simp: host_byte_ok_def byte_in_def)

text \<open>A file name made from a host has no separator and is recognised as a YAML file again.\<close>

lemma yaml_name_sanitized: "is_yaml_name uni (sanitize_host uni' host @ yaml_ext)"
proof -
  have "is_ascii (sanitize_host uni' host @ yaml_ext)"
    using sanitize_host_safe[of uni' host] host_byte_ascii by (auto simp: is_ascii_def yaml_ext_def list_all_iff)
  then have "to_lower uni (sanitize_host uni' host @ yaml_ext) = map ascii_lower (sanitize_host uni' host) @ yaml_ext"
    by (simp add: to_lower_def yaml_ext_def ascii_lower_def)
  then show ?thesis by (simp add: is_yaml_name_def has_suffix_def suffix_def)
qed

lemma set_read_dir [simp]: "set (read_dir d) = set d"
  by (simp add: read_dir_def)

lemma distinct_read_dir: "distinct (map fst d) \<Longrightarrow> distinct (map fst (read_dir d))"
  by (simp add: read_dir_def distinct_map)

lemma atomic_write_Inr:
  "atomic_write ok name data d = Inr d' \<Longrightarrow> map_of d' = (map_of d)(name \<mapsto> FileEnt data) \<and> (distinct (map fst d) \<longrightarrow> distinct (map fst d'))"
  by (auto simp: atomic_write_def map_of_alist_put distinct_alist_put split: if_splits)

lemma remove_file_Inr:
  "remove_file ok name d = Inr d' \<Longrightarrow> map_of d' = (map_of d)(name := None) \<and> (distinct (map fst d) \<longrightarrow> distinct (map fst d'))"
  by (auto simp: remove_file_def map_of_alist_del distinct_alist_del split: if_splits)

end
