(* ===== verification/Mirrors.thy ===== *)
theory Mirrors
  imports Selector Sse Broadcast Storage Float64
begin

text \<open>
  The hub's mirror-health registry, \<^verbatim>\<open>internal/hub/mirrors.go\<close>, its probe loop \<^verbatim>\<open>mirrors_monitor.go\<close> and its
  projection onto the event stream in \<^verbatim>\<open>stream.go\<close>. An operation returns an error or none, the events it broadcasts, and the new
  registry. \<^verbatim>\<open>ForceBlock\<close>, \<^verbatim>\<open>Unblock\<close> and \<^verbatim>\<open>UpdateHealth\<close> read and change a copy of a record under the lock
  (\<open>*_prepare\<close>), release the lock and call \<^verbatim>\<open>Upsert\<close>, so that other operations can run in between. YAML and JSON are arguments; a nil map and an empty one are
  identified; the block threshold is a finite \<^verbatim>\<open>float64\<close>.
\<close>

subsection \<open>Data\<close>

definition VerdictLive :: string where "VerdictLive = ''live''"
definition VerdictDegraded :: string where "VerdictDegraded = ''degraded''"
definition VerdictBlocked :: string where "VerdictBlocked = ''blocked''"
definition VerdictUnknown :: string where "VerdictUnknown = ''unknown''"

record region_status =
  rst_Status :: string
  rst_LatencyMs :: int
  rst_At :: time

record mirror_health =
  mh_Host :: string
  mh_LastCheck :: time
  mh_Regions :: "(string \<times> region_status) list"
  mh_Verdict :: string
  mh_BlockedCount :: int
  mh_TotalChecked :: int
  mh_ManualBlock :: bool
  mh_ManualNote :: string
  mh_Weight :: int
  mh_TargetTenants :: "string list"

definition zero_mirror :: mirror_health where
  "zero_mirror = \<lparr>mh_Host = [], mh_LastCheck = zero_time, mh_Regions = [], mh_Verdict = [], mh_BlockedCount = 0,
     mh_TotalChecked = 0, mh_ManualBlock = False, mh_ManualNote = [], mh_Weight = 0, mh_TargetTenants = []\<rparr>"

definition MirrorEventSnapshot :: string where "MirrorEventSnapshot = ''mirror_snapshot''"
definition MirrorEventUpsert :: string where "MirrorEventUpsert = ''mirror_upsert''"
definition MirrorEventDelete :: string where "MirrorEventDelete = ''mirror_delete''"

record mirror_event =
  me_Type :: string
  me_Mirrors :: "mirror_health list"
  me_Mirror :: mirror_health
  me_Host :: string
  me_Timestamp :: time
  me_Version :: "64 word"

record mirror_registry =
  mr_mirrors :: "(string \<times> mirror_health) list"
  mr_version :: "64 word"
  mr_dir :: directory

text \<open>The libraries the registry calls: YAML, and the Unicode case mapping of \<^verbatim>\<open>strings.ToLower\<close>.\<close>

record hub_env =
  he_yaml :: "mirror_health \<Rightarrow> string option"
  he_unyaml :: "string \<Rightarrow> mirror_health option"
  he_uni :: "string \<Rightarrow> string"

datatype mirror_error = CtxDone | HostRequired | UnknownHost string | StorageErr storage_error

type_synonym mirror_result = "mirror_error option \<times> mirror_event list \<times> mirror_registry"

subsection \<open>Operations\<close>

definition mirror_path :: "hub_env \<Rightarrow> string \<Rightarrow> string" where
  "mirror_path E host = sanitize_host (he_uni E) host @ yaml_ext"

definition write_mirror :: "hub_env \<Rightarrow> bool \<Rightarrow> mirror_health \<Rightarrow> directory \<Rightarrow> storage_error + directory" where
  "write_mirror E ok m d =
     (case he_yaml E m of None \<Rightarrow> Inl MarshalFailed | Some data \<Rightarrow> atomic_write ok (mirror_path E (mh_Host m)) data d)"

definition mirror_get :: "mirror_registry \<Rightarrow> string \<Rightarrow> mirror_health option" where
  "mirror_get reg host = map_of (mr_mirrors reg) host"

definition mirror_list :: "mirror_registry \<Rightarrow> mirror_health list" where
  "mirror_list reg = sort_key mh_Host (map snd (mr_mirrors reg))"

definition with_defaults :: "mirror_health \<Rightarrow> mirror_health" where
  "with_defaults m =
     (let m = (if mh_Verdict m = [] then m\<lparr>mh_Verdict := VerdictUnknown\<rparr> else m)
      in if mh_Weight m = 0 then m\<lparr>mh_Weight := 1\<rparr> else m)"

definition mirror_upsert :: "hub_env \<Rightarrow> bool \<Rightarrow> bool \<Rightarrow> time \<Rightarrow> mirror_health \<Rightarrow> mirror_registry \<Rightarrow> mirror_result" where
  "mirror_upsert E ok ctx now m0 reg =
     (if ctx then (Some CtxDone, [], reg)
      else if mh_Host m0 = [] then (Some HostRequired, [], reg)
      else
        (let m = with_defaults m0 in
         case write_mirror E ok m (mr_dir reg) of
           Inl e \<Rightarrow> (Some (StorageErr e), [], reg)
         | Inr d \<Rightarrow>
             (let v = mr_version reg + 1
              in (None,
                  [\<lparr>me_Type = MirrorEventUpsert, me_Mirrors = [], me_Mirror = m, me_Host = mh_Host m, me_Timestamp = now, me_Version = v\<rparr>],
                  \<lparr>mr_mirrors = alist_put (mh_Host m) m (mr_mirrors reg), mr_version = v, mr_dir = d\<rparr>))))"

definition mirror_delete :: "hub_env \<Rightarrow> bool \<Rightarrow> bool \<Rightarrow> time \<Rightarrow> string \<Rightarrow> mirror_registry \<Rightarrow> mirror_result" where
  "mirror_delete E ok ctx now host reg =
     (if ctx then (Some CtxDone, [], reg)
      else if host = [] then (Some HostRequired, [], reg)
      else
        (case remove_file ok (mirror_path E host) (mr_dir reg) of
           Inl e \<Rightarrow> (Some (StorageErr e), [], reg)
         | Inr d \<Rightarrow>
             (let existed = (map_of (mr_mirrors reg) host \<noteq> None);
                  v = (if existed then mr_version reg + 1 else mr_version reg);
                  reg' = \<lparr>mr_mirrors = alist_del host (mr_mirrors reg), mr_version = v, mr_dir = d\<rparr>
              in if \<not> existed then (None, [], reg')
                 else (None,
                       [\<lparr>me_Type = MirrorEventDelete, me_Mirrors = [], me_Mirror = zero_mirror, me_Host = host, me_Timestamp = now, me_Version = v\<rparr>],
                       reg'))))"

text \<open>The record an operation works on: a copy of the stored one or a fresh registration.\<close>

definition mirror_or_new :: "string \<Rightarrow> mirror_registry \<Rightarrow> mirror_health" where
  "mirror_or_new host reg =
     (case map_of (mr_mirrors reg) host of Some m \<Rightarrow> m | None \<Rightarrow> zero_mirror\<lparr>mh_Host := host, mh_Weight := 1\<rparr>)"

definition force_block_prepare :: "string \<Rightarrow> string \<Rightarrow> mirror_registry \<Rightarrow> mirror_health" where
  "force_block_prepare host note reg =
     (mirror_or_new host reg)\<lparr>mh_ManualBlock := True, mh_ManualNote := note, mh_Verdict := VerdictBlocked\<rparr>"

definition force_block :: "hub_env \<Rightarrow> bool \<Rightarrow> bool \<Rightarrow> bool \<Rightarrow> time \<Rightarrow> string \<Rightarrow> string \<Rightarrow> mirror_registry \<Rightarrow> mirror_result" where
  "force_block E ok ctx ctx' now host note reg =
     (if ctx then (Some CtxDone, [], reg)
      else if host = [] then (Some HostRequired, [], reg)
      else mirror_upsert E ok ctx' now (force_block_prepare host note reg) reg)"

definition unblock :: "hub_env \<Rightarrow> bool \<Rightarrow> bool \<Rightarrow> bool \<Rightarrow> time \<Rightarrow> string \<Rightarrow> mirror_registry \<Rightarrow> mirror_result" where
  "unblock E ok ctx ctx' now host reg =
     (if ctx then (Some CtxDone, [], reg)
      else if host = [] then (Some HostRequired, [], reg)
      else
        (case map_of (mr_mirrors reg) host of
           None \<Rightarrow> (Some (UnknownHost host), [], reg)
         | Some m \<Rightarrow>
             mirror_upsert E ok ctx' now (m\<lparr>mh_ManualBlock := False, mh_ManualNote := [], mh_Verdict := VerdictUnknown\<rparr>) reg))"

text \<open>
  \<^verbatim>\<open>statusIsFailure\<close>: the case labels are compared with the lower-cased status, the value returned for them with the status itself.
\<close>

definition status_is_failure :: "(string \<Rightarrow> string) \<Rightarrow> string \<Rightarrow> bool" where
  "status_is_failure uni s = (if to_lower uni s = ''ok'' \<or> to_lower uni s = [] then s = [] else True)"

definition failed_regions :: "(string \<Rightarrow> string) \<Rightarrow> (string \<times> region_status) list \<Rightarrow> (string \<times> region_status) list" where
  "failed_regions uni rs = filter (\<lambda>(k, r). status_is_failure uni (rst_Status r)) rs"

definition update_health_prepare ::
  "(string \<Rightarrow> string) \<Rightarrow> time \<Rightarrow> string \<Rightarrow> (string \<times> region_status) list option \<Rightarrow> rat \<Rightarrow> mirror_registry \<Rightarrow> mirror_health" where
  "update_health_prepare uni now host results thresholdPct reg =
     (let m = (mirror_or_new host reg)\<lparr>mh_LastCheck := now\<rparr>;
          m = (case results of None \<Rightarrow> m | Some rs \<Rightarrow> m\<lparr>mh_Regions := rs\<rparr>);
          rs = (case results of None \<Rightarrow> [] | Some rs \<Rightarrow> rs);
          total = int (length rs);
          blocked = int (length (failed_regions uni rs));
          m = m\<lparr>mh_TotalChecked := total, mh_BlockedCount := blocked\<rparr>
      in if mh_ManualBlock m then m\<lparr>mh_Verdict := VerdictBlocked\<rparr>
         else if total = 0 then (if mh_Verdict m = [] then m\<lparr>mh_Verdict := VerdictUnknown\<rparr> else m)
         else
           (let frac = fl (fl (of_int blocked) / fl (of_int total)) in
            if frac \<ge> thresholdPct then m\<lparr>mh_Verdict := VerdictBlocked\<rparr>
            else if blocked > 0 then m\<lparr>mh_Verdict := VerdictDegraded\<rparr>
            else m\<lparr>mh_Verdict := VerdictLive\<rparr>))"

definition update_health ::
  "hub_env \<Rightarrow> bool \<Rightarrow> bool \<Rightarrow> bool \<Rightarrow> time \<Rightarrow> string \<Rightarrow> (string \<times> region_status) list option \<Rightarrow> rat \<Rightarrow> mirror_registry \<Rightarrow> mirror_result" where
  "update_health E ok ctx ctx' now host results thresholdPct reg =
     (if ctx then (Some CtxDone, [], reg)
      else if host = [] then (Some HostRequired, [], reg)
      else mirror_upsert E ok ctx' now (update_health_prepare (he_uni E) now host results thresholdPct reg) reg)"

subsection \<open>Loading\<close>

definition read_mirror_file :: "hub_env \<Rightarrow> string \<Rightarrow> dirent \<Rightarrow> storage_error + mirror_health" where
  "read_mirror_file E name ent =
     (case ent of
        FileEnt data \<Rightarrow> (case he_unyaml E data of None \<Rightarrow> Inl (ParseFailed name) | Some m \<Rightarrow> Inr m)
      | _ \<Rightarrow> Inl (ReadFailed name))"

fun load_entries ::
  "hub_env \<Rightarrow> directory \<Rightarrow> (string \<times> mirror_health) list \<Rightarrow> storage_error list
     \<Rightarrow> (string \<times> mirror_health) list \<times> storage_error list" where
  "load_entries E [] loaded errs = (loaded, errs)"
| "load_entries E ((name, ent) # es) loaded errs =
     (if ent = DirEnt \<or> \<not> is_yaml_name (he_uni E) name then load_entries E es loaded errs
      else (case read_mirror_file E name ent of
              Inl e \<Rightarrow> load_entries E es loaded (errs @ [e])
            | Inr m \<Rightarrow>
                if mh_Host m = [] then load_entries E es loaded errs
                else load_entries E es (alist_put (mh_Host m) (with_defaults m) loaded) errs))"

datatype readdir_result = RdOk | RdNotExist | RdError

definition load_from_disk :: "hub_env \<Rightarrow> readdir_result \<Rightarrow> mirror_registry \<Rightarrow> storage_error list \<times> mirror_registry" where
  "load_from_disk E rd reg =
     (case rd of
        RdNotExist \<Rightarrow> ([], reg)
      | RdError \<Rightarrow> ([ReadDirFailed], reg)
      | RdOk \<Rightarrow>
          (case load_entries E (read_dir (mr_dir reg)) [] [] of
             (loaded, errs) \<Rightarrow> (errs, reg\<lparr>mr_mirrors := loaded, mr_version := mr_version reg + 1\<rparr>)))"

definition mirror_equal :: "hub_env \<Rightarrow> mirror_health \<Rightarrow> mirror_health \<Rightarrow> bool" where
  "mirror_equal E a b =
     (case (he_yaml E a, he_yaml E b) of (Some x, Some y) \<Rightarrow> x = y | _ \<Rightarrow> False)"

text \<open>The events for a reload that turned \<open>prev\<close> into \<open>current\<close>.\<close>

definition changed_hosts :: "hub_env \<Rightarrow> (string \<times> mirror_health) list \<Rightarrow> (string \<times> mirror_health) list \<Rightarrow> string list" where
  "changed_hosts E prev current =
     filter (\<lambda>h. case (map_of prev h, map_of current h) of (Some pv, Some cur) \<Rightarrow> \<not> mirror_equal E pv cur | _ \<Rightarrow> True)
       (sort (map fst current))"

definition gone_hosts :: "(string \<times> mirror_health) list \<Rightarrow> (string \<times> mirror_health) list \<Rightarrow> string list" where
  "gone_hosts prev current = sort (filter (\<lambda>h. map_of current h = None) (map fst prev))"

definition on_external_change :: "hub_env \<Rightarrow> readdir_result \<Rightarrow> time \<Rightarrow> mirror_registry \<Rightarrow> mirror_event list \<times> mirror_registry" where
  "on_external_change E rd now reg =
     (let prev = mr_mirrors reg in
      case load_from_disk E rd reg of
        (errs, reg') \<Rightarrow>
          if errs \<noteq> [] then ([], reg')
          else
            (let current = mr_mirrors reg'; version = mr_version reg'
             in (map (\<lambda>h. \<lparr>me_Type = MirrorEventUpsert, me_Mirrors = [],
                           me_Mirror = (case map_of current h of Some m \<Rightarrow> m | None \<Rightarrow> zero_mirror),
                           me_Host = h, me_Timestamp = now, me_Version = version\<rparr>) (changed_hosts E prev current)
                 @ map (\<lambda>h. \<lparr>me_Type = MirrorEventDelete, me_Mirrors = [], me_Mirror = zero_mirror,
                             me_Host = h, me_Timestamp = now, me_Version = version\<rparr>) (gone_hosts prev current),
                 reg')))"

subsection \<open>Subscribing\<close>

record mirror_hub =
  hb_reg :: mirror_registry
  hb_closed :: bool
  hb_subID :: "64 word"
  hb_subs :: "mirror_event subs"

definition snapshot_event :: "time \<Rightarrow> mirror_registry \<Rightarrow> mirror_event" where
  "snapshot_event now reg =
     \<lparr>me_Type = MirrorEventSnapshot, me_Mirrors = mirror_list reg, me_Mirror = zero_mirror, me_Host = [],
      me_Timestamp = now, me_Version = mr_version reg\<rparr>"

text \<open>
  \<^verbatim>\<open>Subscribe\<close> under the lock: the subscriber is registered and its snapshot taken; the second part enqueues the snapshot after
  the lock has been released.
\<close>

definition subscribe_register :: "time \<Rightarrow> mirror_hub \<Rightarrow> (64 word \<times> mirror_event) option \<times> mirror_hub" where
  "subscribe_register now h =
     (let i = hb_subID h + 1 in
      if hb_closed h then (None, h\<lparr>hb_subID := i\<rparr>)
      else (Some (i, snapshot_event now (hb_reg h)), h\<lparr>hb_subID := i, hb_subs := alist_put i new_sub (hb_subs h)\<rparr>))"

definition subscribe_seed :: "64 word \<Rightarrow> mirror_event \<Rightarrow> mirror_hub \<Rightarrow> mirror_hub" where
  "subscribe_seed i ev h = h\<lparr>hb_subs := map (\<lambda>(j, st). (j, if j = i then enqueue ev st else st)) (hb_subs h)\<rparr>"

definition publish :: "mirror_result \<Rightarrow> mirror_hub \<Rightarrow> mirror_error option \<times> mirror_hub" where
  "publish r h = (case r of (e, evs, reg') \<Rightarrow> (e, h\<lparr>hb_reg := reg', hb_subs := fold broadcast evs (hb_subs h)\<rparr>))"

definition hub_close :: "mirror_hub \<Rightarrow> mirror_event subs \<times> mirror_hub" where
  "hub_close h =
     (if hb_closed h then ([], h)
      else (map (\<lambda>(i, st). (i, close_chan st)) (hb_subs h), h\<lparr>hb_closed := True, hb_subs := []\<rparr>))"

subsection \<open>The stream\<close>

definition blocked_regions :: "(string \<Rightarrow> string) \<Rightarrow> mirror_health \<Rightarrow> string list" where
  "blocked_regions uni m = map fst (failed_regions uni (mh_Regions m))"

definition mirror_info_from_health :: "(string \<Rightarrow> string) \<Rightarrow> mirror_health \<Rightarrow> 64 word \<Rightarrow> mirror_info" where
  "mirror_info_from_health uni m version =
     \<lparr>mi_Host = mh_Host m, mi_Verdict = mh_Verdict m, mi_ManualBlock = mh_ManualBlock m, mi_Weight = mh_Weight m,
      mi_TargetTenants = mh_TargetTenants m, mi_BlockedRegions = blocked_regions uni m, mi_Version = version\<rparr>"

text \<open>The JSON encoders of the three payloads.\<close>

record mirror_encoders =
  en_snapshot :: "mirror_info list \<Rightarrow> 64 word \<Rightarrow> string option"
  en_mirror :: "mirror_info \<Rightarrow> string option"
  en_delete :: "string \<Rightarrow> string option"

definition new_mirror_snapshot_event :: "mirror_encoders \<Rightarrow> time \<Rightarrow> mirror_info list \<Rightarrow> 64 word \<Rightarrow> config_stream_event option" where
  "new_mirror_snapshot_event en now mirrors version =
     map_option (\<lambda>p. \<lparr>ev_Type = EventMirrorSnapshot, ev_Data = p, ev_Timestamp = now\<rparr>) (en_snapshot en mirrors version)"

definition new_mirror_upsert_event :: "mirror_encoders \<Rightarrow> time \<Rightarrow> mirror_info \<Rightarrow> config_stream_event option" where
  "new_mirror_upsert_event en now m =
     map_option (\<lambda>p. \<lparr>ev_Type = EventMirrorUpsert, ev_Data = p, ev_Timestamp = now\<rparr>) (en_mirror en m)"

definition new_mirror_delete_event :: "mirror_encoders \<Rightarrow> time \<Rightarrow> string \<Rightarrow> config_stream_event option" where
  "new_mirror_delete_event en now host =
     map_option (\<lambda>p. \<lparr>ev_Type = EventMirrorDelete, ev_Data = p, ev_Timestamp = now\<rparr>) (en_delete en host)"

definition on_mirror_event :: "mirror_encoders \<Rightarrow> (string \<Rightarrow> string) \<Rightarrow> time \<Rightarrow> mirror_event \<Rightarrow> config_stream_event option" where
  "on_mirror_event en uni now ev =
     (if me_Type ev = MirrorEventSnapshot then
        new_mirror_snapshot_event en now (map (\<lambda>m. mirror_info_from_health uni m (me_Version ev)) (me_Mirrors ev)) (me_Version ev)
      else if me_Type ev = MirrorEventUpsert then
        new_mirror_upsert_event en now (mirror_info_from_health uni (me_Mirror ev) (me_Version ev))
      else if me_Type ev = MirrorEventDelete then new_mirror_delete_event en now (me_Host ev)
      else None)"

subsection \<open>The monitor\<close>

record monitor_config =
  mc_Enabled :: bool
  mc_Interval :: duration
  mc_Regions :: "string list"
  mc_MaxNodes :: int
  mc_ThresholdPct :: rat

text \<open>\<^verbatim>\<open>LoadCheckHostSettings\<close> yields \<open>None\<close> on an error; a missing file reads as zero settings.\<close>

definition resolve_settings :: "monitor_config option \<Rightarrow> monitor_config \<Rightarrow> monitor_config" where
  "resolve_settings settings cfg =
     (let out = (case settings of
            None \<Rightarrow> cfg
          | Some s \<Rightarrow>
              let o1 = (if mc_Interval s > 0 then cfg\<lparr>mc_Interval := mc_Interval s\<rparr> else cfg);
                  o2 = (if mc_MaxNodes s > 0 then o1\<lparr>mc_MaxNodes := mc_MaxNodes s\<rparr> else o1);
                  o3 = (if mc_ThresholdPct s > 0 then o2\<lparr>mc_ThresholdPct := mc_ThresholdPct s\<rparr> else o2);
                  o4 = (if mc_Regions s \<noteq> [] then o3\<lparr>mc_Regions := mc_Regions s\<rparr> else o3)
              in if mc_Interval s > 0 \<or> mc_Regions s \<noteq> [] \<or> mc_MaxNodes s > 0 \<or> mc_ThresholdPct s > 0
                 then o4\<lparr>mc_Enabled := mc_Enabled s\<rparr> else o4);
          out = (if mc_MaxNodes out = 0 then out\<lparr>mc_MaxNodes := 5\<rparr> else out)
      in if mc_ThresholdPct out = 0 then out\<lparr>mc_ThresholdPct := 1 / 2\<rparr> else out)"

definition effective_interval :: "monitor_config option \<Rightarrow> monitor_config \<Rightarrow> duration" where
  "effective_interval settings cfg =
     (let c = resolve_settings settings cfg in if mc_Interval c > 0 then mc_Interval c else 300 * second)"

text \<open>
  One pass over the mirrors listed at its start. The client's answer for a host is \<open>None\<close> on an error, else the node results; the
  arguments say for each host whether the context is cancelled at each of the three times it is looked at, and whether the write succeeds.
\<close>

record node_check =
  nc_Status :: string
  nc_LatencyMs :: int

fun check_mirrors ::
  "hub_env \<Rightarrow> (string \<Rightarrow> bool) \<Rightarrow> (string \<Rightarrow> nat \<Rightarrow> bool) \<Rightarrow> (string \<Rightarrow> (string \<times> node_check) list option) \<Rightarrow> time \<Rightarrow> rat
     \<Rightarrow> mirror_health list \<Rightarrow> bool \<Rightarrow> mirror_event list \<Rightarrow> mirror_registry \<Rightarrow> bool \<times> mirror_event list \<times> mirror_registry" where
  "check_mirrors E ok ctx client now thr [] failed evs reg = (failed, evs, reg)"
| "check_mirrors E ok ctx client now thr (mh # mhs) failed evs reg =
     (if mh_ManualBlock mh then check_mirrors E ok ctx client now thr mhs failed evs reg
      else if ctx (mh_Host mh) 0 then (True, evs, reg)
      else
        (case client (mh_Host mh) of
           None \<Rightarrow> check_mirrors E ok ctx client now thr mhs True evs reg
         | Some results \<Rightarrow>
             (let rr = map (\<lambda>(k, nc). (k, \<lparr>rst_Status = nc_Status nc, rst_LatencyMs = nc_LatencyMs nc, rst_At = now\<rparr>)) results in
              case update_health E (ok (mh_Host mh)) (ctx (mh_Host mh) 1) (ctx (mh_Host mh) 2) now (mh_Host mh) (Some rr) thr reg of
                (e, evs', reg') \<Rightarrow> check_mirrors E ok ctx client now thr mhs (failed \<or> e \<noteq> None) (evs @ evs') reg')))"

definition check_once ::
  "hub_env \<Rightarrow> (string \<Rightarrow> bool) \<Rightarrow> (string \<Rightarrow> nat \<Rightarrow> bool) \<Rightarrow> (string \<Rightarrow> (string \<times> node_check) list option) \<Rightarrow> time
     \<Rightarrow> monitor_config option \<Rightarrow> monitor_config \<Rightarrow> mirror_registry \<Rightarrow> bool \<times> mirror_event list \<times> mirror_registry" where
  "check_once E ok ctx client now settings cfg reg =
     (let c = resolve_settings settings cfg in
      if \<not> mc_Enabled c then (False, [], reg)
      else check_mirrors E ok ctx client now (mc_ThresholdPct c) (mirror_list reg) False [] reg)"

lemmas [gw_defs] = mirror_upsert_def mirror_delete_def force_block_def unblock_def update_health_def

subsection \<open>Invariant and events\<close>

definition mirrors_ok :: "mirror_registry \<Rightarrow> bool" where
  "mirrors_ok reg \<longleftrightarrow> distinct (map fst (mr_mirrors reg))
     \<and> list_all (\<lambda>(h, m). mh_Host m = h \<and> h \<noteq> [] \<and> mh_Verdict m \<noteq> [] \<and> mh_Weight m \<noteq> 0) (mr_mirrors reg)"

lemma with_defaults_simps [simp]:
  "mh_Host (with_defaults m) = mh_Host m" "mh_ManualBlock (with_defaults m) = mh_ManualBlock m"
  "mh_Regions (with_defaults m) = mh_Regions m" "mh_TargetTenants (with_defaults m) = mh_TargetTenants m"
  by (auto simp: with_defaults_def Let_def)

lemma with_defaults_verdict: "mh_Verdict (with_defaults m) = (if mh_Verdict m = [] then VerdictUnknown else mh_Verdict m)"
  by (auto simp: with_defaults_def Let_def)

lemma with_defaults_weight: "mh_Weight (with_defaults m) = (if mh_Weight m = 0 then 1 else mh_Weight m)"
  by (auto simp: with_defaults_def Let_def)

lemma with_defaults_ok: "mh_Verdict (with_defaults m) \<noteq> [] \<and> mh_Weight (with_defaults m) \<noteq> 0"
  by (simp add: with_defaults_verdict with_defaults_weight VerdictUnknown_def)

text \<open>An upsert either fails and changes nothing, or stores the record and publishes exactly that.\<close>

lemma mirror_upsert_cases:
  assumes "mirror_upsert E ok ctx now m reg = (e, evs, reg')"
  obtains (fail) "e \<noteq> None" "evs = []" "reg' = reg"
  | (changed) d where "e = None" "mh_Host m \<noteq> []"
      "evs = [\<lparr>me_Type = MirrorEventUpsert, me_Mirrors = [], me_Mirror = with_defaults m, me_Host = mh_Host m, me_Timestamp = now,
                me_Version = mr_version reg + 1\<rparr>]"
      "write_mirror E ok (with_defaults m) (mr_dir reg) = Inr d"
      "reg' = \<lparr>mr_mirrors = alist_put (mh_Host m) (with_defaults m) (mr_mirrors reg), mr_version = mr_version reg + 1, mr_dir = d\<rparr>"
proof (cases "ctx \<or> mh_Host m = []")
  case True
  with assms show thesis by (intro fail) (auto simp: mirror_upsert_def split: if_splits)
next
  case False
  show thesis
  proof (cases "write_mirror E ok (with_defaults m) (mr_dir reg)")
    case (Inl x)
    with assms False show thesis by (intro fail) (auto simp: mirror_upsert_def)
  next
    case (Inr d)
    with assms False show thesis by (intro changed[of d]) (auto simp: mirror_upsert_def Let_def)
  qed
qed

lemma mirror_delete_cases:
  assumes "mirror_delete E ok ctx now host reg = (e, evs, reg')"
  obtains (fail) "e \<noteq> None" "evs = []" "reg' = reg"
  | (absent) d where "e = None" "evs = []" "map_of (mr_mirrors reg) host = None"
      "remove_file ok (mirror_path E host) (mr_dir reg) = Inr d" "host \<noteq> []"
      "reg' = \<lparr>mr_mirrors = alist_del host (mr_mirrors reg), mr_version = mr_version reg, mr_dir = d\<rparr>"
  | (changed) d where "e = None" "map_of (mr_mirrors reg) host \<noteq> None"
      "evs = [\<lparr>me_Type = MirrorEventDelete, me_Mirrors = [], me_Mirror = zero_mirror, me_Host = host, me_Timestamp = now,
                me_Version = mr_version reg + 1\<rparr>]"
      "remove_file ok (mirror_path E host) (mr_dir reg) = Inr d" "host \<noteq> []"
      "reg' = \<lparr>mr_mirrors = alist_del host (mr_mirrors reg), mr_version = mr_version reg + 1, mr_dir = d\<rparr>"
proof (cases "ctx \<or> host = []")
  case True
  with assms show thesis by (intro fail) (auto simp: mirror_delete_def split: if_splits)
next
  case False
  show thesis
  proof (cases "remove_file ok (mirror_path E host) (mr_dir reg)")
    case (Inl x)
    with assms False show thesis by (intro fail) (auto simp: mirror_delete_def)
  next
    case (Inr d)
    show thesis
    proof (cases "map_of (mr_mirrors reg) host = None")
      case True
      with assms False Inr show thesis by (intro absent[of d]) (auto simp: mirror_delete_def Let_def)
    next
      case existed: False
      with assms False Inr show thesis by (intro changed[of d]) (auto simp: mirror_delete_def Let_def)
    qed
  qed
qed

text \<open>The operations as one type, each with the outcomes of its environment.\<close>

datatype mirror_op =
    OpUpsert bool bool time mirror_health
  | OpDelete bool bool time string
  | OpForceBlock bool bool bool time string string
  | OpUnblock bool bool bool time string
  | OpUpdateHealth bool bool bool time string "(string \<times> region_status) list option" rat

fun mirror_do :: "hub_env \<Rightarrow> mirror_op \<Rightarrow> mirror_registry \<Rightarrow> mirror_result" where
  "mirror_do E (OpUpsert ok ctx now m) reg = mirror_upsert E ok ctx now m reg"
| "mirror_do E (OpDelete ok ctx now host) reg = mirror_delete E ok ctx now host reg"
| "mirror_do E (OpForceBlock ok ctx ctx' now host note) reg = force_block E ok ctx ctx' now host note reg"
| "mirror_do E (OpUnblock ok ctx ctx' now host) reg = unblock E ok ctx ctx' now host reg"
| "mirror_do E (OpUpdateHealth ok ctx ctx' now host results thr) reg = update_health E ok ctx ctx' now host results thr reg"

definition mirror_step :: "hub_env \<Rightarrow> mirror_op \<Rightarrow> mirror_registry \<Rightarrow> mirror_registry \<times> mirror_event list" where
  "mirror_step E op reg = (case mirror_do E op reg of (e, evs, reg') \<Rightarrow> (reg', evs))"

text \<open>Every operation is nothing, an upsert of some record, or a delete.\<close>

lemma mirror_do_cases:
  assumes "mirror_do E op reg = (e, evs, reg')"
  obtains (none) "evs = []" "reg' = reg" "e \<noteq> None"
  | (upsert) ok ctx now m where "mirror_upsert E ok ctx now m reg = (e, evs, reg')"
  | (delete) ok ctx now host where "op = OpDelete ok ctx now host" "mirror_delete E ok ctx now host reg = (e, evs, reg')"
  using assms
  by (cases op) (auto simp: force_block_def unblock_def update_health_def split: if_splits option.splits)

definition mirror_view :: "(string \<Rightarrow> string) \<Rightarrow> mirror_registry \<Rightarrow> string \<rightharpoonup> mirror_info" where
  "mirror_view uni reg = (\<lambda>h. map_option (\<lambda>m. mirror_info_from_health uni m 0) (map_of (mr_mirrors reg) h))"

definition mirror_replay :: "(string \<Rightarrow> string) \<Rightarrow> mirror_event \<Rightarrow> (string \<rightharpoonup> mirror_info) \<Rightarrow> string \<rightharpoonup> mirror_info" where
  "mirror_replay uni ev v =
     (if me_Type ev = MirrorEventSnapshot then map_of (map (\<lambda>m. (mh_Host m, mirror_info_from_health uni m 0)) (me_Mirrors ev))
      else if me_Type ev = MirrorEventUpsert then v(mh_Host (me_Mirror ev) \<mapsto> mirror_info_from_health uni (me_Mirror ev) 0)
      else if me_Type ev = MirrorEventDelete then v(me_Host ev := None)
      else v)"

lemmas mirror_event_types = MirrorEventSnapshot_def MirrorEventUpsert_def MirrorEventDelete_def

lemma mirrors_ok_put:
  "mirrors_ok reg \<Longrightarrow> mh_Host m \<noteq> [] \<Longrightarrow>
     mirrors_ok \<lparr>mr_mirrors = alist_put (mh_Host m) (with_defaults m) (mr_mirrors reg), mr_version = v, mr_dir = d\<rparr>"
  using set_alist_put[of "mh_Host m" "with_defaults m" "mr_mirrors reg"] with_defaults_ok[of m]
  by (fastforce simp: mirrors_ok_def distinct_alist_put list_all_iff)

lemma mirrors_ok_del: "mirrors_ok reg \<Longrightarrow> mirrors_ok \<lparr>mr_mirrors = alist_del host (mr_mirrors reg), mr_version = v, mr_dir = d\<rparr>"
  using set_alist_del[of host "mr_mirrors reg"] by (fastforce simp: mirrors_ok_def distinct_alist_del list_all_iff)

lemma mirrors_ok_do:
  assumes "mirrors_ok reg" and "mirror_do E op reg = (e, evs, reg')"
  shows "mirrors_ok reg'"
  using assms(2)
proof (cases rule: mirror_do_cases)
  case none
  with assms(1) show ?thesis by simp
next
  case (upsert ok ctx now m)
  then show ?thesis by (cases rule: mirror_upsert_cases) (use assms(1) in \<open>auto intro: mirrors_ok_put\<close>)
next
  case (delete ok ctx now host)
  from delete(2) show ?thesis by (cases rule: mirror_delete_cases) (use assms(1) in \<open>auto intro: mirrors_ok_del\<close>)
qed

lemma mirror_replay_do:
  assumes "mirror_do E op reg = (e, evs, reg')"
  shows "fold (mirror_replay uni) evs (mirror_view uni reg) = mirror_view uni reg'"
  using assms
proof (cases rule: mirror_do_cases)
  case none
  then show ?thesis by simp
next
  case (upsert ok ctx now m)
  then show ?thesis
    by (cases rule: mirror_upsert_cases)
       (auto simp: mirror_replay_def mirror_event_types mirror_view_def map_of_alist_put fun_eq_iff)
next
  case (delete ok ctx now host)
  from delete(2) show ?thesis
    by (cases rule: mirror_delete_cases)
       (auto simp: mirror_replay_def mirror_event_types mirror_view_def map_of_alist_del fun_eq_iff)
qed

lemma mirror_list_distinct:
  assumes "mirrors_ok reg"
  shows "distinct (map mh_Host (mirror_list reg))"
proof -
  have hosts: "map mh_Host (map snd (mr_mirrors reg)) = map fst (mr_mirrors reg)"
    using assms by (auto simp: mirrors_ok_def list_all_iff)
  have "distinct (map mh_Host (sort_key mh_Host ms)) \<longleftrightarrow> distinct (map mh_Host ms)" for ms
    by (simp add: distinct_map)
  then have "distinct (map mh_Host (mirror_list reg)) \<longleftrightarrow> distinct (map mh_Host (map snd (mr_mirrors reg)))"
    unfolding mirror_list_def .
  also have "\<dots>" using assms unfolding hosts mirrors_ok_def by simp
  finally show ?thesis .
qed

lemma mirror_list_map:
  assumes "mirrors_ok reg"
  shows "map_of (map (\<lambda>m. (mh_Host m, f m)) (mirror_list reg)) h = map_option f (map_of (mr_mirrors reg) h)"
proof -
  have d: "distinct (map fst (map (\<lambda>m. (mh_Host m, f m)) (mirror_list reg)))"
    using mirror_list_distinct[OF assms] by (simp add: o_def)
  have mem: "(h, m) \<in> set (mr_mirrors reg) \<longleftrightarrow> m \<in> set (mirror_list reg) \<and> mh_Host m = h" for m
    using assms by (force simp: mirror_list_def mirrors_ok_def list_all_iff)
  have "map_of (map (\<lambda>m. (mh_Host m, f m)) (mirror_list reg)) h = Some x
      \<longleftrightarrow> (\<exists>m. (h, m) \<in> set (mr_mirrors reg) \<and> x = f m)" for x
    unfolding map_of_eq_Some_iff[OF d] mem by auto
  then have iff: "map_of (map (\<lambda>m. (mh_Host m, f m)) (mirror_list reg)) h = Some x
      \<longleftrightarrow> map_option f (map_of (mr_mirrors reg) h) = Some x" for x
    using assms by (auto simp: mirrors_ok_def)
  show ?thesis by (cases "map_option f (map_of (mr_mirrors reg) h)") (use iff in \<open>auto simp del: map_option_eq_Some\<close>)
qed

lemma mirror_replay_snapshot: "mirrors_ok reg \<Longrightarrow> mirror_replay uni (snapshot_event now reg) v = mirror_view uni reg"
  by (auto simp: mirror_replay_def snapshot_event_def mirror_view_def mirror_list_map fun_eq_iff)

interpretation mirror_pub: publisher mirrors_ok "mirror_view uni" "mirror_step E" "snapshot_event now" "mirror_replay uni"
  for uni E now
  by unfold_locales
     (auto simp: mirror_step_def mirror_replay_snapshot mirror_replay_do split: prod.splits intro: mirrors_ok_do)

subsection \<open>Verdicts\<close>

lemma mirror_upsert_get:
  "mirror_upsert E ok ctx now m reg = (None, evs, reg') \<Longrightarrow>
     mirror_get reg' h = (if h = mh_Host m then Some (with_defaults m) else mirror_get reg h)"
  by (erule mirror_upsert_cases) (auto simp: mirror_get_def map_of_alist_put)

lemma mirror_or_new_host: "mirrors_ok reg \<Longrightarrow> mh_Host (mirror_or_new host reg) = host"
  by (auto simp: mirror_or_new_def mirrors_ok_def list_all_iff zero_mirror_def dest: map_of_SomeD split: option.splits)

lemma mirror_or_new_manual: "mh_ManualBlock (mirror_or_new host reg) \<longleftrightarrow> (\<exists>m. mirror_get reg host = Some m \<and> mh_ManualBlock m)"
  by (auto simp: mirror_or_new_def mirror_get_def zero_mirror_def split: option.splits)

lemma update_health_prepare_keeps:
  "mh_Host (update_health_prepare uni now host rs thr reg) = mh_Host (mirror_or_new host reg)"
  "mh_ManualBlock (update_health_prepare uni now host rs thr reg) = mh_ManualBlock (mirror_or_new host reg)"
  by (auto simp: update_health_prepare_def Let_def split: option.splits)

lemma update_health_prepare_blocked:
  "mh_ManualBlock (mirror_or_new host reg) \<Longrightarrow> mh_Verdict (update_health_prepare uni now host rs thr reg) = VerdictBlocked"
  by (auto simp: update_health_prepare_def Let_def split: option.splits)

lemma update_health_prepare_verdict:
  assumes "\<not> mh_ManualBlock (mirror_or_new host reg)" and "rs \<noteq> []"
  shows "mh_Verdict (update_health_prepare uni now host (Some rs) thr reg) =
    (if thr \<le> fl (fl (of_int (int (length (failed_regions uni rs)))) / fl (of_int (int (length rs)))) then VerdictBlocked
     else if failed_regions uni rs \<noteq> [] then VerdictDegraded else VerdictLive)"
  using assms by (simp add: update_health_prepare_def Let_def)

lemma failed_regions_le: "length (failed_regions uni rs) \<le> length rs"
  by (simp add: failed_regions_def)

text \<open>
  The documented verdict rules hold exactly at the default threshold of one half, in spite of the floating-point division (for up to \<open>2 ^ 50\<close> vantage points): after a
  successful probe update of a mirror that is not manually blocked, it is blocked if at least half of the vantage points failed, degraded if some but fewer did, live if none did; and no other mirror has changed.
\<close>

theorem mirror_verdict_exact:
  assumes "mirrors_ok reg" and "update_health E ok ctx ctx' now host (Some rs) (1 / 2) reg = (None, evs, reg')"
    and "\<forall>m. mirror_get reg host = Some m \<longrightarrow> \<not> mh_ManualBlock m" and "rs \<noteq> []" and "length rs \<le> 2 ^ 50"
  shows "\<exists>m. mirror_get reg' host = Some m
      \<and> mh_Verdict m = (if length rs \<le> 2 * length (failed_regions (he_uni E) rs) then VerdictBlocked
                        else if failed_regions (he_uni E) rs \<noteq> [] then VerdictDegraded else VerdictLive)
      \<and> (\<forall>h. h \<noteq> host \<longrightarrow> mirror_get reg' h = mirror_get reg h)"
proof -
  let ?f = "failed_regions (he_uni E) rs" and ?m = "update_health_prepare (he_uni E) now host (Some rs) (1 / 2) reg"
  have up: "mirror_upsert E ok ctx' now ?m reg = (None, evs, reg')"
    using assms(2) by (auto simp: update_health_def split: if_splits)
  have host: "mh_Host ?m = host" by (simp only: update_health_prepare_keeps mirror_or_new_host[OF assms(1)])
  have "int (length rs) \<le> int (2 ^ 50)" using assms(5) by (simp only: of_nat_le_iff)
  then have "1 / 2 \<le> fl (fl (of_int (int (length ?f))) / fl (of_int (int (length rs)))) \<longleftrightarrow> int (length rs) \<le> 2 * int (length ?f)"
    using assms(4) failed_regions_le[of "he_uni E" rs] by (intro fl_half_exact) auto
  moreover have "\<not> mh_ManualBlock (mirror_or_new host reg)" using assms(3) by (simp add: mirror_or_new_manual)
  ultimately have "mh_Verdict ?m = (if length rs \<le> 2 * length ?f then VerdictBlocked else if ?f \<noteq> [] then VerdictDegraded else VerdictLive)"
    using update_health_prepare_verdict[of host reg rs "he_uni E" now "1 / 2"] assms(4) by simp
  then show ?thesis
    using mirror_upsert_get[OF up] host
    by (auto simp: with_defaults_verdict VerdictBlocked_def VerdictDegraded_def VerdictLive_def)
qed

definition demo_env :: hub_env where
  "demo_env = \<lparr>he_yaml = \<lambda>_. Some ''y'', he_unyaml = \<lambda>_. None, he_uni = id\<rparr>"

definition empty_registry :: mirror_registry where
  "empty_registry = \<lparr>mr_mirrors = [], mr_version = 0, mr_dir = []\<rparr>"

definition demo_region :: "string \<Rightarrow> region_status" where
  "demo_region st = \<lparr>rst_Status = st, rst_LatencyMs = 1, rst_At = 0\<rparr>"

lemma empty_registry_ok [simp]: "mirrors_ok empty_registry"
  by (simp add: mirrors_ok_def empty_registry_def)

lemma demo_upsert_succeeds:
  "mh_Host m \<noteq> [] \<Longrightarrow> mr_dir reg = [] \<Longrightarrow> \<exists>evs reg'. mirror_upsert demo_env True False now m reg = (None, evs, reg')"
  by (simp add: mirror_upsert_def write_mirror_def demo_env_def atomic_write_def Let_def)

theorem mirror_verdict_exact_witness:
  "\<exists>evs reg' m. update_health demo_env True False False 7 ''a'' (Some [(''de'', demo_region ''ok''), (''ru'', demo_region ''timeout'')]) (1 / 2) empty_registry
       = (None, evs, reg') \<and> mirror_get reg' ''a'' = Some m \<and> mh_Verdict m = VerdictBlocked"
proof -
  let ?rs = "[(''de'', demo_region ''ok''), (''ru'', demo_region ''timeout'')]"
  have "\<exists>evs reg'. update_health demo_env True False False 7 ''a'' (Some ?rs) (1 / 2) empty_registry = (None, evs, reg')"
    using demo_upsert_succeeds[of "update_health_prepare id 7 ''a'' (Some ?rs) (1 / 2) empty_registry" empty_registry 7]
    by (simp add: update_health_def update_health_prepare_keeps mirror_or_new_host)
       (simp add: demo_env_def empty_registry_def)
  then obtain evs reg' where up: "update_health demo_env True False False 7 ''a'' (Some ?rs) (1 / 2) empty_registry = (None, evs, reg')" by blast
  have "length ?rs \<le> 2 * length (failed_regions (he_uni demo_env) ?rs)"
    by (simp add: failed_regions_def status_is_failure_def demo_region_def demo_env_def to_lower_def is_ascii_def ascii_lower_def)
  then show ?thesis
    using mirror_verdict_exact[OF empty_registry_ok up] up by (auto simp: mirror_get_def empty_registry_def)
qed

subsection \<open>Manual blocks\<close>

fun op_keeps_block :: "string \<Rightarrow> mirror_op \<Rightarrow> bool" where
  "op_keeps_block host (OpUpsert ok ctx now m) \<longleftrightarrow> mh_Host m \<noteq> host"
| "op_keeps_block host (OpDelete ok ctx now h) \<longleftrightarrow> h \<noteq> host"
| "op_keeps_block host (OpUnblock ok ctx ctx' now h) \<longleftrightarrow> h \<noteq> host"
| "op_keeps_block host _ \<longleftrightarrow> True"

definition pinned :: "string \<Rightarrow> mirror_registry \<Rightarrow> bool" where
  "pinned host reg \<longleftrightarrow> (\<exists>m. mirror_get reg host = Some m \<and> mh_ManualBlock m \<and> mh_Verdict m = VerdictBlocked)"

lemma pinned_upsert:
  assumes "mirror_upsert E ok ctx now m reg = (e, evs, reg')" and "pinned host reg"
    and "mh_Host m = host \<Longrightarrow> mh_ManualBlock m \<and> mh_Verdict m = VerdictBlocked"
  shows "pinned host reg'"
  using assms(1)
proof (cases rule: mirror_upsert_cases)
  case (changed d)
  then have "mirror_get reg' h = (if h = mh_Host m then Some (with_defaults m) else mirror_get reg h)" for h
    using mirror_upsert_get assms(1) by blast
  then show ?thesis
    using assms(2,3) by (auto simp: pinned_def with_defaults_verdict VerdictBlocked_def)
qed (use assms(2) in simp)

lemma pinned_or_new: "pinned host reg \<Longrightarrow> mh_ManualBlock (mirror_or_new host reg)"
  by (auto simp: pinned_def mirror_or_new_manual)

lemma pinned_do:
  assumes "mirrors_ok reg" and "pinned host reg" and "op_keeps_block host op" and "mirror_do E op reg = (e, evs, reg')"
  shows "pinned host reg'"
proof (cases op)
  case (OpUpsert ok ctx now m)
  then show ?thesis using assms pinned_upsert[of E ok ctx now m reg e evs reg' host] by simp
next
  case (OpDelete ok ctx now h)
  then have "mirror_delete E ok ctx now h reg = (e, evs, reg')" using assms(4) by simp
  then show ?thesis
    by (cases rule: mirror_delete_cases) (use assms OpDelete in \<open>auto simp: pinned_def mirror_get_def map_of_alist_del\<close>)
next
  case (OpForceBlock ok ctx ctx' now h nt)
  have "mh_Host (force_block_prepare h nt reg) = h" by (simp add: force_block_prepare_def mirror_or_new_host[OF assms(1)])
  then show ?thesis
    using assms OpForceBlock pinned_upsert[of E ok ctx' now "force_block_prepare h nt reg" reg e evs reg' host]
    by (auto simp: force_block_def force_block_prepare_def split: if_splits)
next
  case (OpUnblock ok ctx ctx' now h)
  have "map_of (mr_mirrors reg) h = Some m \<Longrightarrow> mh_Host m = h" for m
    using assms(1) by (auto simp: mirrors_ok_def list_all_iff dest: map_of_SomeD)
  then show ?thesis
    using assms OpUnblock
    by (auto simp: unblock_def split: if_splits option.splits elim!: pinned_upsert)
next
  case (OpUpdateHealth ok ctx ctx' now h rs thr)
  let ?m = "update_health_prepare (he_uni E) now h rs thr reg"
  have "mh_Host ?m = h" by (simp only: update_health_prepare_keeps mirror_or_new_host[OF assms(1)])
  moreover have "mh_ManualBlock ?m \<and> mh_Verdict ?m = VerdictBlocked" if "h = host"
    using pinned_or_new[OF assms(2)] that by (simp add: update_health_prepare_keeps update_health_prepare_blocked)
  ultimately show ?thesis
    using assms OpUpdateHealth pinned_upsert[of E ok ctx' now ?m reg e evs reg' host]
    by (auto simp: update_health_def split: if_splits)
qed

lemma pinned_run:
  "mirrors_ok reg \<Longrightarrow> pinned host reg \<Longrightarrow> list_all (op_keeps_block host) ops \<Longrightarrow>
     pinned host (fst (publish_run (mirror_step E) ops reg))"
proof (induction ops arbitrary: reg)
  case (Cons op ops)
  obtain e evs reg' where d: "mirror_do E op reg = (e, evs, reg')" by (cases "mirror_do E op reg")
  have "pinned host (fst (publish_run (mirror_step E) ops reg'))"
    using Cons.IH[OF mirrors_ok_do[OF Cons.prems(1) d] pinned_do[OF Cons.prems(1,2) _ d]] Cons.prems(3) by simp
  moreover have "mirror_step E op reg = (reg', evs)" by (simp add: mirror_step_def d)
  ultimately show ?case by (simp add: case_prod_beta)
qed simp

text \<open>
  The operator's kill switch holds: after a successful \<^verbatim>\<open>ForceBlock\<close>, whatever complete operations follow (probe updates of any outcome, operations on other mirrors,
  failed writes, cancelled requests) short of an upsert, delete or unblock of this very mirror, the mirror stays manually blocked with verdict blocked, and no slug of a door finds what is published of it eligible.
\<close>

theorem manual_block_sticks:
  assumes "mirrors_ok reg" and "force_block E ok ctx ctx' now host note reg = (None, evs, reg1)"
    and "list_all (op_keeps_block host) ops" and "publish_run (mirror_step E) ops reg1 = (reg2, evs2)"
  shows "\<exists>m. mirror_get reg2 host = Some m \<and> mh_ManualBlock m \<and> mh_Verdict m = VerdictBlocked
    \<and> \<not> eligible (mirror_info_from_health (he_uni E) m v) slug"
proof -
  have up: "mirror_upsert E ok ctx' now (force_block_prepare host note reg) reg = (None, evs, reg1)"
    using assms(2) by (auto simp: force_block_def split: if_splits)
  have "mh_Host (force_block_prepare host note reg) = host"
    by (simp add: force_block_prepare_def mirror_or_new_host[OF assms(1)])
  with mirror_upsert_get[OF up, of host] have p: "pinned host reg1"
    by (simp add: pinned_def force_block_prepare_def with_defaults_verdict VerdictBlocked_def)
  have "mirror_do E (OpForceBlock ok ctx ctx' now host note) reg = (None, evs, reg1)" using assms(2) by simp
  from pinned_run[OF mirrors_ok_do[OF assms(1) this] p assms(3), of E] assms(4) have "pinned host reg2" by simp
  then show ?thesis by (auto simp: pinned_def eligible_def mirror_info_from_health_def)
qed

lemma demo_force_block:
  "\<exists>evs reg1. force_block demo_env True False False 1 ''a'' ''note'' empty_registry = (None, evs, reg1)"
  using demo_upsert_succeeds[of "force_block_prepare ''a'' ''note'' empty_registry" empty_registry 1]
  by (simp add: force_block_def force_block_prepare_def mirror_or_new_host) (simp add: empty_registry_def)

theorem manual_block_sticks_witness:
  "\<exists>evs reg1. force_block demo_env True False False 1 ''a'' ''note'' empty_registry = (None, evs, reg1)
     \<and> (\<exists>m. mirror_get (fst (publish_run (mirror_step demo_env) [OpUpdateHealth True False False 2 ''a'' (Some [(''de'', demo_region ''ok'')]) (1 / 2)] reg1)) ''a'' = Some m
         \<and> mh_ManualBlock m \<and> mh_Verdict m = VerdictBlocked)"
proof -
  obtain evs reg1 where f: "force_block demo_env True False False 1 ''a'' ''note'' empty_registry = (None, evs, reg1)"
    using demo_force_block by blast
  let ?ops = "[OpUpdateHealth True False False 2 ''a'' (Some [(''de'', demo_region ''ok'')]) (1 / 2)]"
  obtain reg2 evs2 where r: "publish_run (mirror_step demo_env) ?ops reg1 = (reg2, evs2)" by fastforce
  have "list_all (op_keeps_block ''a'') ?ops" by simp
  from manual_block_sticks[OF empty_registry_ok f this r] f r show ?thesis by auto
qed

text \<open>
  The kill switch does not hold across interleavings: a probe update that has read the record before a \<^verbatim>\<open>ForceBlock\<close> and stores it after it undoes the block, although
  \<^verbatim>\<open>UpdateHealth\<close> documents that the flag is never overridden by a probe. If the probe found no failure (and the threshold is positive), the mirror is even live again.
\<close>

theorem manual_block_lost_update:
  assumes "mirrors_ok reg" and "\<forall>m. mirror_get reg host = Some m \<longrightarrow> \<not> mh_ManualBlock m"
    and "m = update_health_prepare (he_uni E) t0 host (Some rs) thr reg"
    and "force_block E ok ctx ctx' t1 host note reg = (None, evs, reg1)"
    and "mirror_upsert E ok' ctx'' t2 m reg1 = (None, evs', reg2)"
  shows "\<exists>m'. mirror_get reg2 host = Some m' \<and> \<not> mh_ManualBlock m'
    \<and> (rs \<noteq> [] \<and> failed_regions (he_uni E) rs = [] \<and> 0 < thr \<longrightarrow> mh_Verdict m' = VerdictLive)"
proof -
  have n: "\<not> mh_ManualBlock (mirror_or_new host reg)" using assms(2) by (simp add: mirror_or_new_manual)
  have "mh_Host m = host" "\<not> mh_ManualBlock m"
    using n by (simp_all add: assms(3) update_health_prepare_keeps mirror_or_new_host[OF assms(1)])
  moreover have "mh_Verdict m = VerdictLive" if "rs \<noteq> []" "failed_regions (he_uni E) rs = []" "0 < thr"
    using update_health_prepare_verdict[OF n that(1), of "he_uni E" t0 thr] that by (simp add: assms(3))
  ultimately show ?thesis
    using mirror_upsert_get[OF assms(5), of host] by (auto simp: with_defaults_verdict VerdictLive_def)
qed

theorem manual_block_lost_update_witness:
  "\<exists>evs reg1 evs' reg2 m'. force_block demo_env True False False 1 ''a'' ''note'' empty_registry = (None, evs, reg1)
     \<and> mirror_upsert demo_env True False 2 (update_health_prepare id 0 ''a'' (Some [(''de'', demo_region ''ok'')]) (1 / 2) empty_registry) reg1 = (None, evs', reg2)
     \<and> mirror_get reg2 ''a'' = Some m' \<and> mh_Verdict m' = VerdictLive"
proof -
  let ?rs = "[(''de'', demo_region ''ok'')]" and ?m = "update_health_prepare id 0 ''a'' (Some [(''de'', demo_region ''ok'')]) (1 / 2) empty_registry"
  obtain evs reg1 where f: "force_block demo_env True False False 1 ''a'' ''note'' empty_registry = (None, evs, reg1)"
    using demo_force_block by blast
  then have "mirror_upsert demo_env True False 1 (force_block_prepare ''a'' ''note'' empty_registry) empty_registry = (None, evs, reg1)"
    by (simp add: force_block_def)
  then have "\<exists>n. mr_dir reg1 = [(n, FileEnt ''y'')]"
    by (rule mirror_upsert_cases) (auto simp: empty_registry_def write_mirror_def demo_env_def atomic_write_def)
  then have "\<exists>evs' reg2. mirror_upsert demo_env True False 2 ?m reg1 = (None, evs', reg2)"
    by (auto simp: mirror_upsert_def update_health_prepare_keeps mirror_or_new_host write_mirror_def demo_env_def atomic_write_def Let_def split: if_splits)
  then obtain evs' reg2 where u: "mirror_upsert demo_env True False 2 ?m reg1 = (None, evs', reg2)" by blast
  have "he_uni demo_env = id" by (simp add: demo_env_def)
  moreover have "failed_regions id ?rs = []"
    by (simp add: failed_regions_def status_is_failure_def demo_region_def to_lower_def is_ascii_def ascii_lower_def)
  ultimately show ?thesis
    using manual_block_lost_update[OF empty_registry_ok _ _ f u, of 0 ?rs "1 / 2"] f u
    by (auto simp: mirror_get_def empty_registry_def)
qed

subsection \<open>Subscribing\<close>

lemma map_of_broadcast: "map_of (broadcast ev subs) i = map_option (enqueue ev) (map_of subs i)"
  by (induction subs) (auto simp: broadcast_def)

lemma map_of_broadcasts: "map_of (fold broadcast evs subs) i = map_option (fold enqueue evs) (map_of subs i)"
  by (induction evs arbitrary: subs) (simp_all add: map_of_broadcast option.map_comp option.map_id o_def)

lemma map_of_seed: "map_of (hb_subs (subscribe_seed i ev h)) i = map_option (enqueue ev) (map_of (hb_subs h) i)"
proof -
  have "map_of (map (\<lambda>(j, st). (j, if j = i then enqueue ev st else st)) subs) i = map_option (enqueue ev) (map_of subs i)" for subs
    by (induction subs) auto
  then show ?thesis by (simp add: subscribe_seed_def)
qed

lemma mirror_do_one_event: "mirror_do E op reg = (e, evs, reg') \<Longrightarrow> length evs \<le> 1"
  by (erule mirror_do_cases) (auto elim: mirror_upsert_cases mirror_delete_cases)

lemma enqueue_fresh: "length evs \<le> 2 \<Longrightarrow> fold enqueue evs new_sub = new_sub\<lparr>sb_ch := evs\<rparr>"
  by (cases evs; cases "tl evs") (auto simp: enqueue_def enqueue_loop_room new_sub_def subBuffer_def)

text \<open>
  The snapshot of a new subscriber is taken together with its registration, but enqueued only after the lock has been released. If an operation publishes its event in between, the
  subscriber receives the event first and the older snapshot second, and its replica ends up in the state before the operation; in the other order it ends up in the state after it. The
  comment in \<^verbatim>\<open>Subscribe\<close> claims that such a race is excluded.
\<close>

theorem subscribe_snapshot_race:
  assumes "mirrors_ok (hb_reg h)" and "subscribe_register now h = (Some (i, snap), h1)"
    and "mirror_do E op (hb_reg h1) = (e, [ev], reg')"
  shows "(\<exists>st. map_of (hb_subs (subscribe_seed i snap (snd (publish (e, [ev], reg') h1)))) i = Some st
      \<and> sb_ch st = [ev, snap] \<and> fold (mirror_replay uni) (sb_ch st) v = mirror_view uni (hb_reg h))
    \<and> (\<exists>st. map_of (hb_subs (snd (publish (e, [ev], reg') (subscribe_seed i snap h1)))) i = Some st
      \<and> sb_ch st = [snap, ev] \<and> fold (mirror_replay uni) (sb_ch st) v = mirror_view uni reg')"
proof -
  have h1: "hb_reg h1 = hb_reg h" "map_of (hb_subs h1) i = Some new_sub" and snap: "snap = snapshot_event now (hb_reg h)"
    using assms(2) by (auto simp: subscribe_register_def map_of_alist_put Let_def split: if_splits)
  have "mirror_replay uni snap w = mirror_view uni (hb_reg h)" for w
    by (simp add: snap mirror_replay_snapshot[OF assms(1)])
  moreover have "mirror_replay uni ev (mirror_view uni (hb_reg h)) = mirror_view uni reg'"
    using mirror_replay_do[OF assms(3), of uni] h1 by simp
  moreover have "enqueue snap (enqueue ev new_sub) = new_sub\<lparr>sb_ch := [ev, snap]\<rparr>"
    "enqueue ev (enqueue snap new_sub) = new_sub\<lparr>sb_ch := [snap, ev]\<rparr>"
    using enqueue_fresh[of "[ev, snap]"] enqueue_fresh[of "[snap, ev]"] by simp_all
  ultimately show ?thesis
    using h1 map_of_seed[of i snap h1] by (simp add: map_of_seed publish_def map_of_broadcast)
qed

theorem subscribe_snapshot_race_witness:
  "\<exists>i snap h1 e ev reg'. subscribe_register 0 \<lparr>hb_reg = empty_registry, hb_closed = False, hb_subID = 0, hb_subs = []\<rparr> = (Some (i, snap), h1)
     \<and> mirror_do demo_env (OpForceBlock True False False 1 ''a'' ''note'') (hb_reg h1) = (e, [ev], reg')
     \<and> (\<exists>st. map_of (hb_subs (subscribe_seed i snap (snd (publish (e, [ev], reg') h1)))) i = Some st \<and> sb_ch st = [ev, snap])"
proof -
  let ?h = "\<lparr>hb_reg = empty_registry, hb_closed = False, hb_subID = 0, hb_subs = []\<rparr>"
  obtain i snap h1 where s: "subscribe_register 0 ?h = (Some (i, snap), h1)" and h1: "hb_reg h1 = empty_registry"
    by (simp add: subscribe_register_def)
  obtain evs reg' where f: "force_block demo_env True False False 1 ''a'' ''note'' empty_registry = (None, evs, reg')"
    using demo_force_block by blast
  then have "mirror_upsert demo_env True False 1 (force_block_prepare ''a'' ''note'' empty_registry) empty_registry = (None, evs, reg')"
    by (simp add: force_block_def)
  then obtain ev where "evs = [ev]" by (rule mirror_upsert_cases) auto
  with f h1 have d: "mirror_do demo_env (OpForceBlock True False False 1 ''a'' ''note'') (hb_reg h1) = (None, [ev], reg')" by simp
  show ?thesis
    using subscribe_snapshot_race[OF _ s d] s d by fastforce
qed

subsection \<open>Reloading from disk\<close>

definition disk_sync :: "hub_env \<Rightarrow> mirror_registry \<Rightarrow> bool" where
  "disk_sync E reg \<longleftrightarrow> distinct (map fst (mr_dir reg))
     \<and> (\<forall>h m. mirror_get reg h = Some m \<longrightarrow> (\<exists>c. he_yaml E m = Some c \<and> map_of (mr_dir reg) (mirror_path E h) = Some (FileEnt c)))
     \<and> (\<forall>n ent. map_of (mr_dir reg) n = Some ent \<and> is_yaml_name (he_uni E) n \<and> ent \<noteq> DirEnt \<longrightarrow>
          (\<exists>h m. mirror_get reg h = Some m \<and> n = mirror_path E h))"

fun op_host :: "mirror_op \<Rightarrow> string" where
  "op_host (OpUpsert ok ctx now m) = mh_Host m"
| "op_host (OpDelete ok ctx now host) = host"
| "op_host (OpForceBlock ok ctx ctx' now host note) = host"
| "op_host (OpUnblock ok ctx ctx' now host) = host"
| "op_host (OpUpdateHealth ok ctx ctx' now host rs thr) = host"

lemma disk_sync_upsert:
  assumes "disk_sync E reg" and "mirror_upsert E ok ctx now m reg = (e, evs, reg')"
    and "inj_on (mirror_path E) H" and "dom (mirror_get reg) \<subseteq> H" and "mh_Host m \<in> H"
  shows "disk_sync E reg'"
  using assms(2)
proof (cases rule: mirror_upsert_cases)
  case (changed d)
  then obtain c where c: "he_yaml E (with_defaults m) = Some c" "atomic_write ok (mirror_path E (mh_Host m)) c (mr_dir reg) = Inr d"
    by (auto simp: write_mirror_def split: option.splits)
  note w = atomic_write_Inr[OF c(2)]
  have get: "mirror_get reg' h = (if h = mh_Host m then Some (with_defaults m) else mirror_get reg h)" for h
    using changed assms(2) mirror_upsert_get by blast
  have other: "mirror_path E h \<noteq> mirror_path E (mh_Host m)" if "mirror_get reg h = Some x" "h \<noteq> mh_Host m" for h x
    using assms(3-5) that by (auto simp: inj_on_def)
  have d: "mr_dir reg' = d" using changed by simp
  show ?thesis
    unfolding disk_sync_def get d
    using w c(1) assms(1) other by (auto simp: disk_sync_def split: if_splits) metis+
qed (use assms(1) in simp)

lemma disk_sync_delete:
  assumes "disk_sync E reg" and "mirror_delete E ok ctx now host reg = (e, evs, reg')"
    and "inj_on (mirror_path E) H" and "dom (mirror_get reg) \<subseteq> H" and "host \<in> H"
  shows "disk_sync E reg'"
proof -
  have other: "mirror_path E h \<noteq> mirror_path E host" if "mirror_get reg h = Some x" "h \<noteq> host" for h x
    using assms(3-5) that by (auto simp: inj_on_def)
  have *: "disk_sync E reg'"
    if d: "remove_file ok (mirror_path E host) (mr_dir reg) = Inr d" and r: "mr_mirrors reg' = alist_del host (mr_mirrors reg)" "mr_dir reg' = d" for d
  proof -
    note w = remove_file_Inr[OF d]
    have get: "mirror_get reg' h = (if h = host then None else mirror_get reg h)" for h
      by (simp add: mirror_get_def r map_of_alist_del)
    show ?thesis
      unfolding disk_sync_def get r using w assms(1) other by (auto simp: disk_sync_def split: if_splits) metis+
  qed
  from assms(2) show ?thesis
    by (cases rule: mirror_delete_cases) (use assms(1) * in \<open>auto\<close>)
qed

lemma mirror_do_upsert_host:
  assumes "mirrors_ok reg" and "mirror_do E op reg = (e, evs, reg')"
  shows "reg' = reg \<or> (\<exists>ok ctx now m. mh_Host m = op_host op \<and> mirror_upsert E ok ctx now m reg = (e, evs, reg'))
    \<or> (\<exists>ok ctx now. mirror_delete E ok ctx now (op_host op) reg = (e, evs, reg'))"
proof -
  have stored: "map_of (mr_mirrors reg) h = Some m \<Longrightarrow> mh_Host m = h" for h m
    using assms(1) by (auto simp: mirrors_ok_def list_all_iff dest: map_of_SomeD)
  have upd: "mh_Host (update_health_prepare uni now h rs thr reg) = h" for uni now h rs thr
    by (simp only: update_health_prepare_keeps mirror_or_new_host[OF assms(1)])
  have frc: "mh_Host (force_block_prepare h nt reg) = h" for h nt
    by (simp add: force_block_prepare_def mirror_or_new_host[OF assms(1)])
  show ?thesis
  proof (cases op)
    case (OpUnblock ok ctx ctx' now h)
    show ?thesis
    proof (cases "map_of (mr_mirrors reg) h")
      case None
      then show ?thesis using OpUnblock assms(2) by (auto simp: unblock_def split: if_splits)
    next
      case (Some m)
      let ?m = "m\<lparr>mh_ManualBlock := False, mh_ManualNote := [], mh_Verdict := VerdictUnknown\<rparr>"
      have "reg' = reg \<or> mirror_upsert E ok ctx' now ?m reg = (e, evs, reg')" and "mh_Host ?m = h"
        using OpUnblock Some assms(2) stored[OF Some] by (auto simp: unblock_def split: if_splits)
      then show ?thesis using OpUnblock by (metis op_host.simps(4))
    qed
  next
    case (OpForceBlock ok ctx ctx' now h nt)
    then have "reg' = reg \<or> mirror_upsert E ok ctx' now (force_block_prepare h nt reg) reg = (e, evs, reg')"
      using assms(2) by (auto simp: force_block_def split: if_splits)
    then show ?thesis using OpForceBlock frc by (metis op_host.simps(3))
  next
    case (OpUpdateHealth ok ctx ctx' now h rs thr)
    then have "reg' = reg \<or> mirror_upsert E ok ctx' now (update_health_prepare (he_uni E) now h rs thr reg) reg = (e, evs, reg')"
      using assms(2) by (auto simp: update_health_def split: if_splits)
    then show ?thesis using OpUpdateHealth upd by (metis op_host.simps(5))
  qed (use assms(2) in auto)
qed

lemma mirror_do_dom:
  assumes "mirrors_ok reg" and "mirror_do E op reg = (e, evs, reg')"
  shows "dom (mirror_get reg') \<subseteq> insert (op_host op) (dom (mirror_get reg))"
  using mirror_do_upsert_host[OF assms]
  by (auto simp: mirror_get_def map_of_alist_put map_of_alist_del elim!: mirror_upsert_cases mirror_delete_cases split: if_splits)

lemma disk_sync_run:
  assumes "inj_on (mirror_path E) H"
  shows "mirrors_ok reg \<Longrightarrow> disk_sync E reg \<Longrightarrow> dom (mirror_get reg) \<subseteq> H \<Longrightarrow> list_all (\<lambda>op. op_host op \<in> H) ops \<Longrightarrow>
    disk_sync E (fst (publish_run (mirror_step E) ops reg)) \<and> mirrors_ok (fst (publish_run (mirror_step E) ops reg))"
proof (induction ops arbitrary: reg)
  case (Cons op ops)
  obtain e evs reg' where d: "mirror_do E op reg = (e, evs, reg')" by (cases "mirror_do E op reg")
  have h: "op_host op \<in> H" using Cons.prems(4) by simp
  have "disk_sync E reg'"
    using mirror_do_upsert_host[OF Cons.prems(1) d] Cons.prems(2,3) h assms
    by (metis disk_sync_upsert disk_sync_delete)
  moreover have "dom (mirror_get reg') \<subseteq> H" using mirror_do_dom[OF Cons.prems(1) d] Cons.prems(3) h by auto
  ultimately have "disk_sync E (fst (publish_run (mirror_step E) ops reg')) \<and> mirrors_ok (fst (publish_run (mirror_step E) ops reg'))"
    using Cons.IH[OF mirrors_ok_do[OF Cons.prems(1) d]] Cons.prems(4) by simp
  moreover have "mirror_step E op reg = (reg', evs)" by (simp add: mirror_step_def d)
  ultimately show ?case by (simp add: case_prod_beta)
qed simp

text \<open>Loading files that all belong to the map \<open>M\<close>.\<close>

definition entry_loads :: "hub_env \<Rightarrow> (string \<rightharpoonup> mirror_health) \<Rightarrow> string \<times> dirent \<Rightarrow> bool" where
  "entry_loads E M p \<longleftrightarrow> (case p of (n, ent) \<Rightarrow>
     (ent = DirEnt \<or> \<not> is_yaml_name (he_uni E) n)
     \<or> (\<exists>c m. ent = FileEnt c \<and> he_unyaml E c = Some m \<and> mh_Host m \<noteq> [] \<and> M (mh_Host m) = Some (with_defaults m)))"

lemma load_entries_map:
  assumes "list_all (entry_loads E M) es" and "map_of loaded \<subseteq>\<^sub>m M"
  shows "\<exists>loaded'. load_entries E es loaded errs = (loaded', errs) \<and> map_of loaded' \<subseteq>\<^sub>m M \<and> dom (map_of loaded) \<subseteq> dom (map_of loaded')
    \<and> (\<forall>n c m. (n, FileEnt c) \<in> set es \<and> is_yaml_name (he_uni E) n \<and> he_unyaml E c = Some m \<longrightarrow> mh_Host m \<in> dom (map_of loaded'))"
  using assms
proof (induction es arbitrary: loaded)
  case (Cons p es)
  obtain n ent where p: "p = (n, ent)" by fastforce
  show ?case
  proof (cases "ent = DirEnt \<or> \<not> is_yaml_name (he_uni E) n")
    case True
    with Cons.IH[of loaded] Cons.prems p show ?thesis by auto blast
  next
    case False
    with Cons.prems(1) p obtain c m where cm: "ent = FileEnt c" "he_unyaml E c = Some m" "mh_Host m \<noteq> []" "M (mh_Host m) = Some (with_defaults m)"
      by (auto simp: entry_loads_def)
    let ?l = "alist_put (mh_Host m) (with_defaults m) loaded"
    have "map_of ?l \<subseteq>\<^sub>m M" using Cons.prems(2) cm(4) by (auto simp: map_of_alist_put map_le_def)
    then obtain loaded' where l: "load_entries E es ?l errs = (loaded', errs)" "map_of loaded' \<subseteq>\<^sub>m M" "dom (map_of ?l) \<subseteq> dom (map_of loaded')"
      "\<forall>n c m. (n, FileEnt c) \<in> set es \<and> is_yaml_name (he_uni E) n \<and> he_unyaml E c = Some m \<longrightarrow> mh_Host m \<in> dom (map_of loaded')"
      using Cons.IH[of ?l] Cons.prems(1) by auto
    have "load_entries E (p # es) loaded errs = (loaded', errs)"
      using False cm l(1) by (simp add: p read_mirror_file_def)
    then show ?thesis using l(2-4) cm p by (auto simp: map_of_alist_put)
  qed
qed auto

lemma load_synced:
  assumes "disk_sync E reg" and "mirrors_ok reg"
    and "\<forall>h m c. mirror_get reg h = Some m \<and> he_yaml E m = Some c \<longrightarrow> he_unyaml E c = Some m"
  shows "\<exists>reg'. load_from_disk E RdOk reg = ([], reg') \<and> mirror_get reg' = mirror_get reg"
proof -
  have stored: "mh_Host m = h \<and> h \<noteq> [] \<and> with_defaults m = m" if "mirror_get reg h = Some m" for h m
    using assms(2) that by (auto simp: mirrors_ok_def list_all_iff mirror_get_def with_defaults_def Let_def dest!: map_of_SomeD)
  have kept: "\<exists>c. he_yaml E m = Some c \<and> he_unyaml E c = Some m \<and> map_of (mr_dir reg) (mirror_path E h) = Some (FileEnt c)"
    if "mirror_get reg h = Some m" for h m
    using assms(1,3) that unfolding disk_sync_def by blast
  have d: "distinct (map fst (mr_dir reg))" using assms(1) by (simp add: disk_sync_def)
  have "entry_loads E (mirror_get reg) (n, ent)" if "(n, ent) \<in> set (mr_dir reg)" for n ent
  proof (cases "ent = DirEnt \<or> \<not> is_yaml_name (he_uni E) n")
    case False
    have n: "map_of (mr_dir reg) n = Some ent" using that d by simp
    with False obtain h m where hm: "mirror_get reg h = Some m" "n = mirror_path E h"
      using assms(1) unfolding disk_sync_def by blast
    then show ?thesis using kept[OF hm(1)] n stored[OF hm(1)] by (auto simp: entry_loads_def)
  qed (auto simp: entry_loads_def)
  then have "list_all (entry_loads E (mirror_get reg)) (read_dir (mr_dir reg))" by (auto simp: list_all_iff)
  from load_entries_map[OF this, of "[]" "[]"] obtain l where
    l: "load_entries E (read_dir (mr_dir reg)) [] [] = (l, [])" "map_of l \<subseteq>\<^sub>m mirror_get reg"
      "\<forall>n c m. (n, FileEnt c) \<in> set (mr_dir reg) \<and> is_yaml_name (he_uni E) n \<and> he_unyaml E c = Some m \<longrightarrow> mh_Host m \<in> dom (map_of l)"
    by auto
  have "h \<in> dom (map_of l)" if hm: "mirror_get reg h = Some m" for h m
  proof -
    obtain c where "he_unyaml E c = Some m" "(mirror_path E h, FileEnt c) \<in> set (mr_dir reg)"
      using kept[OF hm] by (auto dest: map_of_SomeD)
    moreover have "is_yaml_name (he_uni E) (mirror_path E h)" by (simp add: mirror_path_def yaml_name_sanitized)
    ultimately show ?thesis using l(3) stored[OF hm] by blast
  qed
  then have "map_of l = mirror_get reg" using l(2) by (intro map_le_antisym) (auto simp: map_le_def)
  then show ?thesis using l(1) by (simp add: load_from_disk_def mirror_get_def fun_eq_iff)
qed

text \<open>
  C31 (roundtrip). Restarting the hub loses nothing: start with an empty registry and directory, run any operations with any write failures on hosts whose sanitised file names differ, and let the
  YAML encodings of the mirrors now stored decode to them again. Then loading the directory reports no error and gives every host the record it had in memory.
\<close>

theorem mirror_restart_roundtrip:
  assumes "inj_on (mirror_path E) H" and "list_all (\<lambda>op. op_host op \<in> H) ops"
    and "publish_run (mirror_step E) ops empty_registry = (reg, evs)"
    and "\<forall>h m c. mirror_get reg h = Some m \<and> he_yaml E m = Some c \<longrightarrow> he_unyaml E c = Some m"
  shows "\<exists>reg'. load_from_disk E RdOk reg = ([], reg') \<and> (\<forall>h. mirror_get reg' h = mirror_get reg h)"
proof -
  have "disk_sync E empty_registry" "dom (mirror_get empty_registry) \<subseteq> H"
    by (auto simp: disk_sync_def empty_registry_def mirror_get_def)
  from disk_sync_run[OF assms(1) empty_registry_ok this assms(2)] assms(3)
  have "disk_sync E reg" "mirrors_ok reg" by auto
  from load_synced[OF this assms(4)] show ?thesis by auto
qed

theorem mirror_restart_roundtrip_witness:
  "let E = \<lparr>he_yaml = \<lambda>_. Some ''y'', he_unyaml = \<lambda>_. Some (zero_mirror\<lparr>mh_Host := ''a'', mh_Verdict := VerdictUnknown, mh_Weight := 1\<rparr>), he_uni = id\<rparr>;
       reg = fst (publish_run (mirror_step E) [OpUpsert True False 1 (zero_mirror\<lparr>mh_Host := ''a''\<rparr>)] empty_registry)
   in \<exists>reg'. load_from_disk E RdOk reg = ([], reg') \<and> (\<forall>h. mirror_get reg' h = mirror_get reg h)"
proof -
  let ?E = "\<lparr>he_yaml = \<lambda>_. Some ''y'', he_unyaml = \<lambda>_. Some (zero_mirror\<lparr>mh_Host := ''a'', mh_Verdict := VerdictUnknown, mh_Weight := 1\<rparr>), he_uni = id\<rparr>"
  let ?ops = "[OpUpsert True False 1 (zero_mirror\<lparr>mh_Host := ''a''\<rparr>)]"
  obtain reg evs where r: "publish_run (mirror_step ?E) ?ops empty_registry = (reg, evs)" by fastforce
  have inj: "inj_on (mirror_path ?E) {''a''}" by simp
  have "mr_mirrors reg = [(''a'', zero_mirror\<lparr>mh_Host := ''a'', mh_Verdict := VerdictUnknown, mh_Weight := 1\<rparr>)]"
    using r by (auto simp: mirror_step_def mirror_upsert_def write_mirror_def atomic_write_def with_defaults_def empty_registry_def zero_mirror_def Let_def)
  then have "\<exists>reg'. load_from_disk ?E RdOk reg = ([], reg') \<and> (\<forall>h. mirror_get reg' h = mirror_get reg h)"
    by (intro mirror_restart_roundtrip[OF inj _ r]) (simp_all add: mirror_get_def zero_mirror_def)
  then show ?thesis using r by (simp add: Let_def)
qed

text \<open>
  A reload in which any file is malformed replaces the in-memory mirrors by those of the files that could be read, but publishes nothing: a replica that was in sync keeps the mirrors of
  the old state.
\<close>

lemma external_change_malformed_silent:
  assumes "load_from_disk E RdOk reg = (errs, reg1)" and "errs \<noteq> []"
  shows "on_external_change E RdOk now reg = ([], reg1)
    \<and> mr_mirrors reg1 = fst (load_entries E (read_dir (mr_dir reg)) [] [])"
  using assms by (auto simp: on_external_change_def load_from_disk_def split: prod.splits)

end
