(* ===== verification/Tenants.thy ===== *)
theory Tenants
  imports Gwconfig Mirrors
begin

text \<open>
  The hub's tenant registry, \<^verbatim>\<open>internal/hub/registry.go\<close>, with the tenant half of \<^verbatim>\<open>storage.go\<close> and the tenant
  events of \<^verbatim>\<open>internal/shared/events.go\<close>. An operation returns how it ended, what it hands to the event constructors, and the
  new registry; \<open>encode_payload\<close> is the constructor that turns such a payload into an event. The in-memory map is an option because the source
  lets it become nil, and assigning to a nil map is a run-time panic. The panic happens with the lock held, which no later call can then
  acquire: \<open>tg_stuck\<close>. YAML, JSON and the outcomes of system calls are arguments. The theorems show that the events keep a replica in sync,
  and what happens to a hub whose API accepted a file that its loader refuses.
\<close>

subsection \<open>Data\<close>

record backend_ref =
  bkr_OnionAddr :: string
  bkr_Weight :: int
  bkr_NegativelyCached :: bool

record tenant_info =
  ti_Host :: string
  ti_Enabled :: bool
  ti_Backends :: "backend_ref list"
  ti_FeatureSnapshots :: "(string \<times> feature_snapshot) list"
  ti_Version :: "64 word"

text \<open>The data directory: the entry for \<^verbatim>\<open>globals.yaml\<close>, if any, and the tenants directory.\<close>

record hub_data =
  hd_globals :: "dirent option"
  hd_tenants :: directory

text \<open>The YAML library and the case mapping, and \<^verbatim>\<open>json.Marshal\<close> on the configuration types.\<close>

record tenant_env =
  te_yaml :: "tenant_conf \<Rightarrow> string option"
  te_unyaml :: "string \<Rightarrow> tenant_conf option"
  te_gyaml :: "globals_conf \<Rightarrow> string option"
  te_gunyaml :: "string \<Rightarrow> globals_conf option"
  te_json :: "tenant_conf \<Rightarrow> string option"
  te_gjson :: "globals_conf \<Rightarrow> string option"
  te_uni :: "string \<Rightarrow> string"

record tenant_registry =
  tg_globals :: globals_conf
  tg_tenants :: "(string \<times> tenant_conf) list option"
  tg_version :: "64 word"
  tg_data :: hub_data
  tg_stuck :: bool

datatype tenant_payload =
    PSnapshot "tenant_info list" globals_conf "64 word"
  | PGlobals globals_conf
  | PUpsert tenant_info
  | PDelete string

datatype tenant_error = TCtxDone | THostRequired | TStorage storage_error | TEncode

datatype tenant_outcome = TOk | TErr tenant_error | TPanic | TBlocked

type_synonym tenant_result = "tenant_outcome \<times> tenant_payload list \<times> tenant_registry"

definition tenant_map :: "tenant_registry \<Rightarrow> (string \<times> tenant_conf) list" where
  "tenant_map reg = (case tg_tenants reg of None \<Rightarrow> [] | Some ts \<Rightarrow> ts)"

subsection \<open>Storage\<close>

definition tenant_path :: "tenant_env \<Rightarrow> string \<Rightarrow> string" where
  "tenant_path E host = sanitize_host (te_uni E) host @ yaml_ext"

definition write_tenant :: "tenant_env \<Rightarrow> bool \<Rightarrow> string \<Rightarrow> tenant_conf \<Rightarrow> hub_data \<Rightarrow> tenant_error + hub_data" where
  "write_tenant E ok host t d =
     (if host = [] then Inl THostRequired
      else
        (case te_yaml E (t\<lparr>tc_Host := host\<rparr>) of
           None \<Rightarrow> Inl (TStorage MarshalFailed)
         | Some data \<Rightarrow>
             (case atomic_write ok (tenant_path E host) data (hd_tenants d) of
                Inl e \<Rightarrow> Inl (TStorage e)
              | Inr dir \<Rightarrow> Inr (d\<lparr>hd_tenants := dir\<rparr>))))"

definition delete_tenant_file :: "tenant_env \<Rightarrow> bool \<Rightarrow> string \<Rightarrow> hub_data \<Rightarrow> tenant_error + hub_data" where
  "delete_tenant_file E ok host d =
     (case remove_file ok (tenant_path E host) (hd_tenants d) of
        Inl e \<Rightarrow> Inl (TStorage e)
      | Inr dir \<Rightarrow> Inr (d\<lparr>hd_tenants := dir\<rparr>))"

definition globalsFile :: string where "globalsFile = ''globals.yaml''"

definition write_globals :: "tenant_env \<Rightarrow> bool \<Rightarrow> globals_conf \<Rightarrow> hub_data \<Rightarrow> tenant_error + hub_data" where
  "write_globals E ok g d =
     (case te_gyaml E g of
        None \<Rightarrow> Inl (TStorage MarshalFailed)
      | Some data \<Rightarrow>
          if \<not> ok \<or> hd_globals d = Some DirEnt then Inl (TStorage (WriteFailed globalsFile))
          else Inr (d\<lparr>hd_globals := Some (FileEnt data)\<rparr>))"

datatype load_error = LoadConf conf_error | LoadStat | LoadReadDir

definition file_data :: "dirent \<Rightarrow> string option" where
  "file_data ent = (case ent of FileEnt s \<Rightarrow> Some s | _ \<Rightarrow> None)"

fun load_tenant_entries ::
  "tenant_env \<Rightarrow> directory \<Rightarrow> (string \<times> tenant_conf) list \<Rightarrow> load_error list \<Rightarrow> (string \<times> tenant_conf) list \<times> load_error list" where
  "load_tenant_entries E [] tenants errs = (tenants, errs)"
| "load_tenant_entries E ((name, ent) # es) tenants errs =
     (if ent = DirEnt \<or> \<not> is_yaml_name (te_uni E) name then load_tenant_entries E es tenants errs
      else (case load_tenant_file (te_unyaml E) (file_data ent) of
              Inl e \<Rightarrow> load_tenant_entries E es tenants (errs @ [LoadConf e])
            | Inr tc \<Rightarrow> load_tenant_entries E es (alist_put (tc_Host tc) tc tenants) errs))"

text \<open>\<^verbatim>\<open>LoadAll\<close>; \<open>stat\<close> says that looking at \<^verbatim>\<open>globals.yaml\<close> fails for another reason than its absence.\<close>

definition load_all ::
  "tenant_env \<Rightarrow> bool \<Rightarrow> readdir_result \<Rightarrow> hub_data \<Rightarrow> globals_conf \<times> (string \<times> tenant_conf) list option \<times> load_error list" where
  "load_all E stat rd d =
     (let globals = (if stat then Inl LoadStat
                     else (case hd_globals d of
                             None \<Rightarrow> Inr zero_globals
                           | Some ent \<Rightarrow>
                               (case load_globals_file (te_gunyaml E) (file_data ent) of
                                  Inl e \<Rightarrow> Inl (LoadConf e)
                                | Inr g \<Rightarrow> Inr g)))
      in case globals of
           Inl e \<Rightarrow> (zero_globals, None, [e])
         | Inr g \<Rightarrow>
             (case rd of
                RdNotExist \<Rightarrow> (g, Some [], [])
              | RdError \<Rightarrow> (zero_globals, None, [LoadReadDir])
              | RdOk \<Rightarrow>
                  (case load_tenant_entries E (read_dir (hd_tenants d)) [] [] of (ts, errs) \<Rightarrow> (g, Some ts, errs))))"

subsection \<open>Operations\<close>

definition tenants_load_from_disk :: "tenant_env \<Rightarrow> bool \<Rightarrow> readdir_result \<Rightarrow> tenant_registry \<Rightarrow> load_error list \<times> tenant_registry" where
  "tenants_load_from_disk E stat rd reg =
     (case load_all E stat rd (tg_data reg) of
        (g, ts, errs) \<Rightarrow> (errs, reg\<lparr>tg_globals := g, tg_tenants := ts, tg_version := tg_version reg + 1\<rparr>))"

text \<open>\<^verbatim>\<open>New\<close> on a directory that could be created and is watched.\<close>

definition registry_new :: "tenant_env \<Rightarrow> bool \<Rightarrow> readdir_result \<Rightarrow> hub_data \<Rightarrow> tenant_registry" where
  "registry_new E stat rd d =
     snd (tenants_load_from_disk E stat rd
            \<lparr>tg_globals = zero_globals, tg_tenants = Some [], tg_version = 0, tg_data = d, tg_stuck = False\<rparr>)"

definition tenant_snapshot_of :: "tenant_registry \<Rightarrow> globals_conf \<times> (string \<times> tenant_conf) list" where
  "tenant_snapshot_of reg = (tg_globals reg, tenant_map reg)"

definition tenant_get :: "tenant_registry \<Rightarrow> string \<Rightarrow> tenant_conf option" where
  "tenant_get reg host = map_of (tenant_map reg) host"

definition tenant_info_from :: "tenant_conf \<Rightarrow> 64 word \<Rightarrow> tenant_info" where
  "tenant_info_from t version =
     \<lparr>ti_Host = tc_Host t, ti_Enabled = tc_Enabled t,
      ti_Backends = map (\<lambda>b. \<lparr>bkr_OnionAddr = bc_Addr b, bkr_Weight = bc_Weight b, bkr_NegativelyCached = False\<rparr>) (tc_Backends t),
      ti_FeatureSnapshots =
        map (\<lambda>(name, f). (name, \<lparr>fs_Enabled = fc_Enabled f, fs_Params = fc_Params f, fs_Version = version\<rparr>)) (tc_Features t),
      ti_Version = version\<rparr>"

text \<open>The file is written first; the lock is taken afterwards, and a registry that is stuck does not return from that.\<close>

definition upsert_tenant :: "tenant_env \<Rightarrow> bool \<Rightarrow> bool \<Rightarrow> tenant_conf \<Rightarrow> tenant_registry \<Rightarrow> tenant_result" where
  "upsert_tenant E ok ctx t reg =
     (if ctx then (TErr TCtxDone, [], reg)
      else if tc_Host t = [] then (TErr THostRequired, [], reg)
      else
        (case write_tenant E ok (tc_Host t) t (tg_data reg) of
           Inl e \<Rightarrow> (TErr e, [], reg)
         | Inr d \<Rightarrow>
             (let reg1 = reg\<lparr>tg_data := d\<rparr> in
              if tg_stuck reg then (TBlocked, [], reg1)
              else
                (case tg_tenants reg of
                   None \<Rightarrow> (TPanic, [], reg1\<lparr>tg_stuck := True\<rparr>)
                 | Some ts \<Rightarrow>
                     (let v = tg_version reg + 1
                      in (TOk, [PUpsert (tenant_info_from t v)],
                          reg1\<lparr>tg_tenants := Some (alist_put (tc_Host t) t ts), tg_version := v\<rparr>))))))"

definition delete_tenant :: "tenant_env \<Rightarrow> bool \<Rightarrow> bool \<Rightarrow> string \<Rightarrow> tenant_registry \<Rightarrow> tenant_result" where
  "delete_tenant E ok ctx host reg =
     (if ctx then (TErr TCtxDone, [], reg)
      else if host = [] then (TErr THostRequired, [], reg)
      else
        (case delete_tenant_file E ok host (tg_data reg) of
           Inl e \<Rightarrow> (TErr e, [], reg)
         | Inr d \<Rightarrow>
             (let reg1 = reg\<lparr>tg_data := d\<rparr> in
              if tg_stuck reg then (TBlocked, [], reg1)
              else if tenant_get reg host = None then (TOk, [], reg1)
              else (TOk, [PDelete host],
                    reg1\<lparr>tg_tenants := map_option (alist_del host) (tg_tenants reg), tg_version := tg_version reg + 1\<rparr>))))"

definition set_globals :: "tenant_env \<Rightarrow> bool \<Rightarrow> bool \<Rightarrow> globals_conf \<Rightarrow> tenant_registry \<Rightarrow> tenant_result" where
  "set_globals E ok ctx g reg =
     (if ctx then (TErr TCtxDone, [], reg)
      else
        (case write_globals E ok g (tg_data reg) of
           Inl e \<Rightarrow> (TErr e, [], reg)
         | Inr d \<Rightarrow>
             (let reg1 = reg\<lparr>tg_data := d\<rparr> in
              if tg_stuck reg then (TBlocked, [], reg1)
              else (TOk, [PGlobals g], reg1\<lparr>tg_globals := g, tg_version := tg_version reg + 1\<rparr>))))"

definition tenant_equal :: "tenant_env \<Rightarrow> tenant_conf \<Rightarrow> tenant_conf \<Rightarrow> bool" where
  "tenant_equal E a b = (case (te_json E a, te_json E b) of (Some x, Some y) \<Rightarrow> x = y | _ \<Rightarrow> False)"

definition globals_text :: "tenant_env \<Rightarrow> globals_conf \<Rightarrow> string" where
  "globals_text E g = (case te_gjson E g of None \<Rightarrow> [] | Some s \<Rightarrow> s)"

definition changed_tenants :: "tenant_env \<Rightarrow> (string \<times> tenant_conf) list \<Rightarrow> (string \<times> tenant_conf) list \<Rightarrow> string list" where
  "changed_tenants E prev tenants =
     filter (\<lambda>h. case (map_of prev h, map_of tenants h) of (Some pt, Some t) \<Rightarrow> \<not> tenant_equal E pt t | _ \<Rightarrow> True)
       (sort (map fst tenants))"

definition gone_tenants :: "(string \<times> tenant_conf) list \<Rightarrow> (string \<times> tenant_conf) list \<Rightarrow> string list" where
  "gone_tenants prev tenants = sort (filter (\<lambda>h. map_of tenants h = None) (map fst prev))"

text \<open>
  \<^verbatim>\<open>onExternalChange\<close> in three parts: the copy of the state under the read lock, the loading of the files without a lock, and the swap under the write lock with the broadcasts after it, which compare
  with the copy. A stuck registry does not get past either lock. Other operations may run between the parts; \<open>tenants_external_change\<close> is the run without them.
\<close>

definition external_payloads ::
  "tenant_env \<Rightarrow> globals_conf \<times> (string \<times> tenant_conf) list \<Rightarrow> globals_conf \<Rightarrow> (string \<times> tenant_conf) list \<Rightarrow> 64 word \<Rightarrow> tenant_payload list" where
  "external_payloads E prev globals ts v =
     (case prev of (pglobals, pts) \<Rightarrow>
        (if globals_text E pglobals \<noteq> globals_text E globals then [PGlobals globals] else [])
        @ List.map_filter (\<lambda>h. map_option (\<lambda>t. PUpsert (tenant_info_from t v)) (map_of ts h)) (changed_tenants E pts ts)
        @ map PDelete (gone_tenants pts ts))"

definition external_swap ::
  "tenant_env \<Rightarrow> globals_conf \<times> (string \<times> tenant_conf) list \<Rightarrow> globals_conf \<times> (string \<times> tenant_conf) list option \<times> load_error list
     \<Rightarrow> tenant_registry \<Rightarrow> tenant_payload list \<times> tenant_registry" where
  "external_swap E prev loaded reg =
     (case loaded of (globals, tenants, errs) \<Rightarrow>
        if errs \<noteq> [] \<or> tg_stuck reg then ([], reg)
        else
          (let v = tg_version reg + 1; ts = (case tenants of None \<Rightarrow> [] | Some ts \<Rightarrow> ts)
           in (external_payloads E prev globals ts v, reg\<lparr>tg_globals := globals, tg_tenants := tenants, tg_version := v\<rparr>)))"

definition tenants_external_change ::
  "tenant_env \<Rightarrow> bool \<Rightarrow> readdir_result \<Rightarrow> tenant_registry \<Rightarrow> tenant_payload list \<times> tenant_registry" where
  "tenants_external_change E stat rd reg =
     (if tg_stuck reg then ([], reg)
      else external_swap E (tenant_snapshot_of reg) (load_all E stat rd (tg_data reg)) reg)"

subsection \<open>Events\<close>

text \<open>The JSON encoders of the payload types.\<close>

record tenant_encoders =
  tj_snapshot :: "tenant_info list \<Rightarrow> string \<Rightarrow> 64 word \<Rightarrow> string option"
  tj_info :: "tenant_info \<Rightarrow> string option"
  tj_delete :: "string \<Rightarrow> string option"

definition new_snapshot_event :: "tenant_encoders \<Rightarrow> time \<Rightarrow> tenant_info list \<Rightarrow> string \<Rightarrow> 64 word \<Rightarrow> config_stream_event option" where
  "new_snapshot_event J now tenants globals version =
     map_option (\<lambda>p. \<lparr>ev_Type = EventSnapshot, ev_Data = p, ev_Timestamp = now\<rparr>) (tj_snapshot J tenants globals version)"

definition new_tenant_upsert_event :: "tenant_encoders \<Rightarrow> time \<Rightarrow> tenant_info \<Rightarrow> config_stream_event option" where
  "new_tenant_upsert_event J now t = map_option (\<lambda>p. \<lparr>ev_Type = EventTenantUpsert, ev_Data = p, ev_Timestamp = now\<rparr>) (tj_info J t)"

definition new_tenant_delete_event :: "tenant_encoders \<Rightarrow> time \<Rightarrow> string \<Rightarrow> config_stream_event option" where
  "new_tenant_delete_event J now host =
     map_option (\<lambda>p. \<lparr>ev_Type = EventTenantDelete, ev_Data = p, ev_Timestamp = now\<rparr>) (tj_delete J host)"

definition new_globals_event :: "time \<Rightarrow> string \<Rightarrow> config_stream_event" where
  "new_globals_event now raw = \<lparr>ev_Type = EventGlobalsUpdate, ev_Data = raw, ev_Timestamp = now\<rparr>"

text \<open>The event that is broadcast for a payload of an operation, and for one of a reload or a snapshot.\<close>

definition encode_payload :: "tenant_env \<Rightarrow> tenant_encoders \<Rightarrow> time \<Rightarrow> tenant_payload \<Rightarrow> config_stream_event option" where
  "encode_payload E J now p =
     (case p of
        PSnapshot ts g v \<Rightarrow> new_snapshot_event J now ts (globals_text E g) v
      | PGlobals g \<Rightarrow> map_option (new_globals_event now) (te_gjson E g)
      | PUpsert t \<Rightarrow> new_tenant_upsert_event J now t
      | PDelete h \<Rightarrow> new_tenant_delete_event J now h)"

definition encode_reload :: "tenant_env \<Rightarrow> tenant_encoders \<Rightarrow> time \<Rightarrow> tenant_payload \<Rightarrow> config_stream_event option" where
  "encode_reload E J now p =
     (case p of PGlobals g \<Rightarrow> Some (new_globals_event now (globals_text E g)) | _ \<Rightarrow> encode_payload E J now p)"

record tenant_hub =
  th_reg :: tenant_registry
  th_closed :: bool
  th_subID :: "64 word"
  th_subs :: "config_stream_event subs"

text \<open>The end of an operation: encode its payload, report an encoding error, or broadcast.\<close>

definition tenant_publish ::
  "tenant_env \<Rightarrow> tenant_encoders \<Rightarrow> time \<Rightarrow> tenant_result \<Rightarrow> tenant_hub \<Rightarrow> tenant_outcome \<times> tenant_hub" where
  "tenant_publish E J now r h =
     (case r of (oc, ps, reg') \<Rightarrow>
        (case those (map (encode_payload E J now) ps) of
           None \<Rightarrow> (TErr TEncode, h\<lparr>th_reg := reg'\<rparr>)
         | Some evs \<Rightarrow> (oc, h\<lparr>th_reg := reg', th_subs := fold broadcast evs (th_subs h)\<rparr>)))"

text \<open>The end of a reload: what cannot be encoded is skipped.\<close>

definition reload_publish ::
  "tenant_env \<Rightarrow> tenant_encoders \<Rightarrow> time \<Rightarrow> tenant_payload list \<times> tenant_registry \<Rightarrow> tenant_hub \<Rightarrow> tenant_hub" where
  "reload_publish E J now r h =
     (case r of (ps, reg') \<Rightarrow>
        h\<lparr>th_reg := reg', th_subs := fold broadcast (List.map_filter (encode_reload E J now) ps) (th_subs h)\<rparr>)"

definition tenant_snapshot_payload :: "tenant_registry \<Rightarrow> tenant_payload" where
  "tenant_snapshot_payload reg =
     PSnapshot (sort_key ti_Host (map (\<lambda>(h, t). tenant_info_from t (tg_version reg)) (tenant_map reg))) (tg_globals reg) (tg_version reg)"

text \<open>\<^verbatim>\<open>Subscribe\<close> under the lock, and the seeding after it has been released; a snapshot that cannot be encoded is not sent.\<close>

definition tenant_subscribe_register :: "tenant_hub \<Rightarrow> (64 word \<times> tenant_payload) option \<times> tenant_hub" where
  "tenant_subscribe_register h =
     (let i = th_subID h + 1 in
      if th_closed h then (None, h\<lparr>th_subID := i\<rparr>)
      else (Some (i, tenant_snapshot_payload (th_reg h)), h\<lparr>th_subID := i, th_subs := alist_put i new_sub (th_subs h)\<rparr>))"

definition tenant_subscribe_seed ::
  "tenant_env \<Rightarrow> tenant_encoders \<Rightarrow> time \<Rightarrow> 64 word \<Rightarrow> tenant_payload \<Rightarrow> tenant_hub \<Rightarrow> tenant_hub" where
  "tenant_subscribe_seed E J now i p h =
     (case encode_payload E J now p of
        None \<Rightarrow> h
      | Some ev \<Rightarrow> h\<lparr>th_subs := map (\<lambda>(j, st). (j, if j = i then enqueue ev st else st)) (th_subs h)\<rparr>)"

definition tenant_hub_close :: "tenant_hub \<Rightarrow> config_stream_event subs \<times> tenant_hub" where
  "tenant_hub_close h =
     (if th_closed h then ([], h)
      else (map (\<lambda>(i, st). (i, close_chan st)) (th_subs h), h\<lparr>th_closed := True, th_subs := []\<rparr>))"

subsection \<open>Operations as one type\<close>

datatype tenant_op =
    TUpsert bool bool tenant_conf
  | TDelete bool bool string
  | TSetGlobals bool bool globals_conf

fun tenant_do :: "tenant_env \<Rightarrow> tenant_op \<Rightarrow> tenant_registry \<Rightarrow> tenant_result" where
  "tenant_do E (TUpsert ok ctx t) reg = upsert_tenant E ok ctx t reg"
| "tenant_do E (TDelete ok ctx host) reg = delete_tenant E ok ctx host reg"
| "tenant_do E (TSetGlobals ok ctx g) reg = set_globals E ok ctx g reg"

definition tenant_step :: "tenant_env \<Rightarrow> tenant_op \<Rightarrow> tenant_registry \<Rightarrow> tenant_registry \<times> tenant_payload list" where
  "tenant_step E op reg = (case tenant_do E op reg of (oc, ps, reg') \<Rightarrow> (reg', ps))"

definition tenants_ok :: "tenant_registry \<Rightarrow> bool" where
  "tenants_ok reg \<longleftrightarrow> distinct (map fst (tenant_map reg)) \<and> list_all (\<lambda>(h, t). tc_Host t = h) (tenant_map reg)"

text \<open>What a replica of the registry has: globals and tenants, without the version stamps.\<close>

type_synonym tenant_view = "globals_conf \<times> (string \<rightharpoonup> tenant_info)"

definition tenants_view :: "tenant_registry \<Rightarrow> tenant_view" where
  "tenants_view reg = (tg_globals reg, \<lambda>h. map_option (\<lambda>t. tenant_info_from t 0) (tenant_get reg h))"

definition strip_version :: "tenant_info \<Rightarrow> tenant_info" where
  "strip_version i =
     i\<lparr>ti_FeatureSnapshots := map (\<lambda>(n, f). (n, f\<lparr>fs_Version := 0\<rparr>)) (ti_FeatureSnapshots i), ti_Version := 0\<rparr>"

definition tenant_replay :: "tenant_payload \<Rightarrow> tenant_view \<Rightarrow> tenant_view" where
  "tenant_replay p v =
     (case p of
        PSnapshot ts g ver \<Rightarrow> (g, map_of (map (\<lambda>i. (ti_Host i, strip_version i)) ts))
      | PGlobals g \<Rightarrow> (g, snd v)
      | PUpsert i \<Rightarrow> (fst v, (snd v)(ti_Host i \<mapsto> strip_version i))
      | PDelete h \<Rightarrow> (fst v, (snd v)(h := None)))"

subsection \<open>Replicas stay in sync\<close>

lemma strip_tenant_info [simp]: "strip_version (tenant_info_from t v) = tenant_info_from t 0"
  by (simp add: strip_version_def tenant_info_from_def comp_def split_beta)

lemma ti_Host_from [simp]: "ti_Host (tenant_info_from t v) = tc_Host t"
  by (simp add: tenant_info_from_def)

lemma tenant_map_simps [simp]:
  "tg_tenants reg = Some ts \<Longrightarrow> tenant_map reg = ts" "tg_tenants reg = None \<Longrightarrow> tenant_map reg = []"
  "tenant_map (reg\<lparr>tg_tenants := Some ts\<rparr>) = ts" "tenant_map (reg\<lparr>tg_data := d\<rparr>) = tenant_map reg"
  "tenant_map (reg\<lparr>tg_stuck := b\<rparr>) = tenant_map reg" "tenant_map (reg\<lparr>tg_version := v\<rparr>) = tenant_map reg"
  "tenant_map (reg\<lparr>tg_globals := g\<rparr>) = tenant_map reg"
  by (simp_all add: tenant_map_def)

text \<open>An upsert changes at most the disk, or stores the tenant and publishes it.\<close>

lemma upsert_tenant_cases:
  assumes "upsert_tenant E ok ctx t reg = (oc, ps, reg')"
  obtains (quiet) "oc \<noteq> TOk" "ps = []" "tg_globals reg' = tg_globals reg" "tg_tenants reg' = tg_tenants reg"
      "tg_version reg' = tg_version reg"
  | (stored) d ts where "oc = TOk" "tc_Host t \<noteq> []" "write_tenant E ok (tc_Host t) t (tg_data reg) = Inr d" "tg_tenants reg = Some ts"
      "ps = [PUpsert (tenant_info_from t (tg_version reg + 1))]" "\<not> tg_stuck reg"
      "reg' = reg\<lparr>tg_data := d, tg_tenants := Some (alist_put (tc_Host t) t ts), tg_version := tg_version reg + 1\<rparr>"
proof (cases "ctx \<or> tc_Host t = []")
  case True
  with assms show thesis by (intro quiet) (auto simp: upsert_tenant_def split: if_splits)
next
  case False
  show thesis
  proof (cases "write_tenant E ok (tc_Host t) t (tg_data reg)")
    case (Inl e)
    with assms False show thesis by (intro quiet) (auto simp: upsert_tenant_def)
  next
    case (Inr d)
    show thesis
    proof (cases "tg_stuck reg \<or> tg_tenants reg = None")
      case True
      with assms False Inr show thesis by (intro quiet) (auto simp: upsert_tenant_def Let_def split: if_splits)
    next
      case up: False
      then obtain ts where "tg_tenants reg = Some ts" by auto
      with assms False Inr up show thesis by (intro stored[of d ts]) (auto simp: upsert_tenant_def Let_def)
    qed
  qed
qed

lemma delete_tenant_cases:
  assumes "delete_tenant E ok ctx host reg = (oc, ps, reg')"
  obtains (quiet) "ps = []" "tg_globals reg' = tg_globals reg" "tg_tenants reg' = tg_tenants reg" "tg_version reg' = tg_version reg"
  | (gone) d ts where "oc = TOk" "delete_tenant_file E ok host (tg_data reg) = Inr d" "tg_tenants reg = Some ts" "map_of ts host \<noteq> None"
      "ps = [PDelete host]" "\<not> tg_stuck reg"
      "reg' = reg\<lparr>tg_data := d, tg_tenants := Some (alist_del host ts), tg_version := tg_version reg + 1\<rparr>"
proof (cases "ctx \<or> host = []")
  case True
  with assms show thesis by (intro quiet) (auto simp: delete_tenant_def split: if_splits)
next
  case False
  show thesis
  proof (cases "delete_tenant_file E ok host (tg_data reg)")
    case (Inl e)
    with assms False show thesis by (intro quiet) (auto simp: delete_tenant_def)
  next
    case (Inr d)
    show thesis
    proof (cases "tg_stuck reg \<or> tenant_get reg host = None")
      case True
      with assms False Inr show thesis by (intro quiet) (auto simp: delete_tenant_def Let_def split: if_splits)
    next
      case up: False
      then obtain ts where "tg_tenants reg = Some ts" "map_of ts host \<noteq> None"
        by (cases "tg_tenants reg") (auto simp: tenant_get_def)
      with assms False Inr up show thesis by (intro gone[of d ts]) (auto simp: delete_tenant_def Let_def)
    qed
  qed
qed

lemma set_globals_cases:
  assumes "set_globals E ok ctx g reg = (oc, ps, reg')"
  obtains (quiet) "oc \<noteq> TOk" "ps = []" "tg_globals reg' = tg_globals reg" "tg_tenants reg' = tg_tenants reg"
      "tg_version reg' = tg_version reg"
  | (stored) d where "oc = TOk" "write_globals E ok g (tg_data reg) = Inr d" "ps = [PGlobals g]" "\<not> tg_stuck reg"
      "reg' = reg\<lparr>tg_data := d, tg_globals := g, tg_version := tg_version reg + 1\<rparr>"
proof (cases "write_globals E ok g (tg_data reg)")
  case (Inl e)
  with assms show thesis by (intro quiet) (auto simp: set_globals_def split: if_splits)
next
  case (Inr d)
  show thesis
  proof (cases "ctx \<or> tg_stuck reg")
    case True
    with assms Inr show thesis by (intro quiet) (auto simp: set_globals_def Let_def split: if_splits)
  next
    case False
    with assms Inr show thesis by (intro stored[of d]) (auto simp: set_globals_def Let_def)
  qed
qed

lemma tenants_quiet:
  assumes "tg_globals reg' = tg_globals reg" "tg_tenants reg' = tg_tenants reg"
  shows "tenants_ok reg' = tenants_ok reg" "tenants_view reg' = tenants_view reg"
  using assms by (simp_all add: tenants_ok_def tenants_view_def tenant_get_def tenant_map_def)

lemma tenant_do_sync:
  assumes "tenants_ok reg" and "tenant_do E op reg = (oc, ps, reg')"
  shows "tenants_ok reg' \<and> fold tenant_replay ps (tenants_view reg) = tenants_view reg'"
proof (cases op)
  case (TUpsert ok ctx t)
  with assms(2) have "upsert_tenant E ok ctx t reg = (oc, ps, reg')" by simp
  then show ?thesis
  proof (cases rule: upsert_tenant_cases)
    case quiet
    then show ?thesis using assms(1) tenants_quiet[of reg' reg] by simp
  next
    case (stored d ts)
    then show ?thesis
      using assms(1) set_alist_put[of "tc_Host t" t ts]
      by (auto simp: tenants_ok_def distinct_alist_put list_all_iff tenants_view_def tenant_get_def tenant_map_def map_of_alist_put
          tenant_replay_def fun_eq_iff)
  qed
next
  case (TDelete ok ctx host)
  with assms(2) have "delete_tenant E ok ctx host reg = (oc, ps, reg')" by simp
  then show ?thesis
  proof (cases rule: delete_tenant_cases)
    case quiet
    then show ?thesis using assms(1) tenants_quiet[of reg' reg] by simp
  next
    case (gone d ts)
    then show ?thesis
      using assms(1) set_alist_del[of host ts]
      by (auto simp: tenants_ok_def distinct_alist_del list_all_iff tenants_view_def tenant_get_def tenant_map_def map_of_alist_del
          tenant_replay_def fun_eq_iff)
  qed
next
  case (TSetGlobals ok ctx g)
  with assms(2) have "set_globals E ok ctx g reg = (oc, ps, reg')" by simp
  then show ?thesis
  proof (cases rule: set_globals_cases)
    case quiet
    then show ?thesis using assms(1) tenants_quiet[of reg' reg] by simp
  next
    case (stored d)
    then show ?thesis
      using assms(1) by (auto simp: tenants_ok_def tenants_view_def tenant_get_def tenant_map_def tenant_replay_def)
  qed
qed

lemma tenant_infos_map:
  assumes "distinct (map fst ts)" and "list_all (\<lambda>(h, t). tc_Host t = h) ts"
  shows "map_of (map (\<lambda>i. (ti_Host i, strip_version i)) (sort_key ti_Host (map (\<lambda>(h, t). tenant_info_from t v) ts)))
    = (\<lambda>h. map_option (\<lambda>t. tenant_info_from t 0) (map_of ts h))" (is "map_of ?L = ?R")
proof -
  let ?P = "map (\<lambda>(h, t). (h, tenant_info_from t 0)) ts"
  have hosts: "(h, t) \<in> set ts \<Longrightarrow> tc_Host t = h" for h t using assms(2) by (auto simp: list_all_iff)
  have fsts: "map ti_Host (map (\<lambda>(h, t). tenant_info_from t v) ts) = map fst ts" using hosts by auto
  have d1: "distinct (map fst ?L)"
  proof -
    have "distinct (map ti_Host (map (\<lambda>(h, t). tenant_info_from t v) ts))" using assms(1) unfolding fsts .
    moreover have "distinct (map ti_Host (sort_key ti_Host is)) \<longleftrightarrow> distinct (map ti_Host is)" for "is" by (simp add: distinct_map)
    ultimately have "distinct (map ti_Host (sort_key ti_Host (map (\<lambda>(h, t). tenant_info_from t v) ts)))" by blast
    then show ?thesis by (simp add: comp_def)
  qed
  have d2: "distinct (map fst ?P)" using assms(1) by (simp add: comp_def split_beta)
  have "set ?L = set ?P" using hosts by force
  then have "map_of ?L = map_of ?P" using map_of_inject_set[OF d1 d2] by blast
  also have "\<dots> = ?R" by (simp add: map_of_map fun_eq_iff)
  finally show ?thesis .
qed

lemma tenant_replay_snapshot: "tenants_ok reg \<Longrightarrow> tenant_replay (tenant_snapshot_payload reg) v = tenants_view reg"
  by (simp add: tenant_replay_def tenant_snapshot_payload_def tenants_ok_def tenants_view_def tenant_get_def tenant_infos_map)

interpretation tenant_pub: publisher tenants_ok tenants_view "tenant_step E" tenant_snapshot_payload tenant_replay
  for E
  by unfold_locales
     (auto simp: tenant_step_def tenant_replay_snapshot split: prod.splits dest: tenant_do_sync)

subsection \<open>Reloads\<close>

text \<open>A reload publishes exactly the difference, if equal JSON texts mean equal views for the values involved.\<close>

definition texts_decide :: "tenant_env \<Rightarrow> tenant_registry \<Rightarrow> globals_conf \<Rightarrow> (string \<times> tenant_conf) list \<Rightarrow> bool" where
  "texts_decide E reg g ts \<longleftrightarrow>
     (globals_text E (tg_globals reg) = globals_text E g \<longrightarrow> tg_globals reg = g)
     \<and> list_all (\<lambda>(h, t). case tenant_get reg h of
          None \<Rightarrow> True
        | Some pt \<Rightarrow> tenant_equal E pt t \<longrightarrow> tenant_info_from pt 0 = tenant_info_from t 0) ts"

lemma load_tenant_entries_ok:
  "distinct (map fst ts) \<Longrightarrow> list_all (\<lambda>(h, t). tc_Host t = h) ts \<Longrightarrow>
     load_tenant_entries E es ts errs = (ts', errs') \<Longrightarrow> distinct (map fst ts') \<and> list_all (\<lambda>(h, t). tc_Host t = h) ts'"
proof (induction E es ts errs rule: load_tenant_entries.induct)
  case (2 E name ent es ts errs)
  show ?case
  proof (cases "ent = DirEnt \<or> \<not> is_yaml_name (te_uni E) name")
    case True
    then show ?thesis using 2 by simp
  next
    case False
    show ?thesis
    proof (cases "load_tenant_file (te_unyaml E) (file_data ent)")
      case (Inl e)
      then show ?thesis using 2 False by simp
    next
      case (Inr tc)
      have "list_all (\<lambda>(h, t). tc_Host t = h) (alist_put (tc_Host tc) tc ts)"
        using 2(5) set_alist_put[of "tc_Host tc" tc ts] by (auto simp: list_all_iff)
      then show ?thesis using 2 False Inr by (simp add: distinct_alist_put)
    qed
  qed
qed simp

lemma load_all_ok:
  assumes "load_all E stat rd d = (g, Some ts, errs)"
  shows "distinct (map fst ts) \<and> list_all (\<lambda>(h, t). tc_Host t = h) ts"
  using assms load_tenant_entries_ok[of "[]" E "read_dir (hd_tenants d)" "[]"]
  by (auto simp: load_all_def Let_def split: sum.splits readdir_result.splits prod.splits if_splits option.splits)

lemma load_all_no_error: "load_all E stat rd d = (g, tso, []) \<Longrightarrow> \<exists>ts. tso = Some ts"
  by (auto simp: load_all_def Let_def split: sum.splits readdir_result.splits prod.splits if_splits option.splits)

lemma fold_upserts:
  assumes "list_all (\<lambda>h. map_of ts h \<noteq> None) hs" and "list_all (\<lambda>(h, t). tc_Host t = h) ts"
  shows "fold tenant_replay (List.map_filter (\<lambda>h. map_option (\<lambda>t. PUpsert (tenant_info_from t v)) (map_of ts h)) hs) w
    = (fst w, \<lambda>h. if h \<in> set hs then map_option (\<lambda>t. tenant_info_from t 0) (map_of ts h) else snd w h)"
  using assms(1)
proof (induction hs arbitrary: w)
  case (Cons h hs)
  then obtain t where t: "map_of ts h = Some t" by auto
  then have "tc_Host t = h" using assms(2) by (auto simp: list_all_iff dest!: map_of_SomeD)
  then show ?case using Cons t by (auto simp: List.map_filter_simps tenant_replay_def fun_eq_iff)
qed (simp add: List.map_filter_simps)

lemma fold_deletes: "fold tenant_replay (map PDelete hs) w = (fst w, \<lambda>h. if h \<in> set hs then None else snd w h)"
  by (induction hs arbitrary: w) (auto simp: tenant_replay_def fun_eq_iff)

lemma set_changed_tenants:
  "h \<in> set (changed_tenants E prev ts) \<longleftrightarrow>
     (\<exists>t. map_of ts h = Some t \<and> (\<forall>pt. map_of prev h = Some pt \<longrightarrow> \<not> tenant_equal E pt t))"
  by (auto simp: changed_tenants_def split: option.splits dest: weak_map_of_SomeI map_of_SomeD) (force dest: map_of_SomeD)+

lemma distinct_map_filter_inj:
  assumes "distinct xs" and "\<And>x y a. x \<in> set xs \<Longrightarrow> y \<in> set xs \<Longrightarrow> f x = Some a \<Longrightarrow> f y = Some a \<Longrightarrow> x = y"
  shows "distinct (List.map_filter f xs)"
  using assms
proof (induction xs)
  case (Cons x xs)
  have "distinct (List.map_filter f xs)" using Cons by auto
  moreover have "a \<notin> set (List.map_filter f xs)" if "f x = Some a" for a
    using Cons.prems that by (auto simp: set_list_map_filter)
  ultimately show ?case by (auto simp: List.map_filter_simps split: option.split)
qed (simp add: List.map_filter_simps)

lemma set_gone_tenants: "h \<in> set (gone_tenants prev ts) \<longleftrightarrow> map_of ts h = None \<and> map_of prev h \<noteq> None"
  by (auto simp: gone_tenants_def map_of_eq_None_iff)

lemma tenant_equal_text: "tenant_equal E a b \<longleftrightarrow> (\<exists>x. te_json E a = Some x \<and> te_json E b = Some x)"
  by (auto simp: tenant_equal_def split: option.splits)

text \<open>What the diff against a previous state consists of.\<close>

lemma external_payloads_exact:
  assumes "distinct (map fst pts)" and "distinct (map fst ts)" and "list_all (\<lambda>(h, t). tc_Host t = h) ts"
  shows "distinct (external_payloads E (pg, pts) g ts v)"
    and "p \<in> set (external_payloads E (pg, pts) g ts v) \<longleftrightarrow>
      (case p of
         PGlobals g' \<Rightarrow> g' = g \<and> globals_text E pg \<noteq> globals_text E g
       | PUpsert ti \<Rightarrow> (\<exists>h t. map_of ts h = Some t \<and> ti = tenant_info_from t v
           \<and> (\<forall>pt x. map_of pts h = Some pt \<longrightarrow> te_json E pt = Some x \<longrightarrow> te_json E t \<noteq> Some x))
       | PDelete h \<Rightarrow> map_of ts h = None \<and> map_of pts h \<noteq> None
       | PSnapshot tis g' v' \<Rightarrow> False)"
proof -
  let ?up = "\<lambda>h. map_option (\<lambda>t. PUpsert (tenant_info_from t v)) (map_of ts h)"
  have host: "tc_Host t = h" if "map_of ts h = Some t" for h t
    using assms(3) map_of_SomeD[OF that] by (auto simp: list_all_iff)
  have "distinct (List.map_filter ?up (changed_tenants E pts ts))"
  proof (rule distinct_map_filter_inj)
    show "distinct (changed_tenants E pts ts)" using assms(2) by (simp add: changed_tenants_def)
    fix x y a
    assume "?up x = Some a" "?up y = Some a"
    then obtain t t' where t: "map_of ts x = Some t" "map_of ts y = Some t'" "tenant_info_from t v = tenant_info_from t' v" by auto
    from arg_cong[OF t(3), of ti_Host] have "tc_Host t = tc_Host t'" by (simp add: tenant_info_from_def)
    then show "x = y" using host[OF t(1)] host[OF t(2)] by simp
  qed
  moreover have "distinct (map PDelete (gone_tenants pts ts))"
    using assms(1) by (simp add: gone_tenants_def distinct_map distinct_filter inj_on_def)
  ultimately show "distinct (external_payloads E (pg, pts) g ts v)"
    by (auto simp: external_payloads_def set_list_map_filter)
  show "p \<in> set (external_payloads E (pg, pts) g ts v) \<longleftrightarrow>
      (case p of
         PGlobals g' \<Rightarrow> g' = g \<and> globals_text E pg \<noteq> globals_text E g
       | PUpsert ti \<Rightarrow> (\<exists>h t. map_of ts h = Some t \<and> ti = tenant_info_from t v
           \<and> (\<forall>pt x. map_of pts h = Some pt \<longrightarrow> te_json E pt = Some x \<longrightarrow> te_json E t \<noteq> Some x))
       | PDelete h \<Rightarrow> map_of ts h = None \<and> map_of pts h \<noteq> None
       | PSnapshot tis g' v' \<Rightarrow> False)"
    by (cases p) (auto simp: external_payloads_def set_list_map_filter set_changed_tenants set_gone_tenants tenant_equal_text, blast+)
qed

lemma external_payloads_replay:
  assumes "tenants_ok reg" and "texts_decide E reg g ts" and "list_all (\<lambda>(h, t). tc_Host t = h) ts"
  shows "fold tenant_replay (external_payloads E (tenant_snapshot_of reg) g ts v) (tenants_view reg) = (g, \<lambda>h. map_option (\<lambda>t. tenant_info_from t 0) (map_of ts h))"
proof -
  let ?prev = "tenant_map reg"
  define w where "w = (g, snd (tenants_view reg))"
  have fw: "fst w = g" by (simp add: w_def)
  have glob: "fold tenant_replay (if globals_text E (tg_globals reg) \<noteq> globals_text E g then [PGlobals g] else []) (tenants_view reg) = w"
    using assms(2) by (auto simp: texts_decide_def tenant_replay_def tenants_view_def w_def)
  have ch: "list_all (\<lambda>h. map_of ts h \<noteq> None) (changed_tenants E ?prev ts)"
    by (auto simp: list_all_iff set_changed_tenants)
  have up: "fold tenant_replay (List.map_filter (\<lambda>h. map_option (\<lambda>t. PUpsert (tenant_info_from t v)) (map_of ts h)) (changed_tenants E ?prev ts)) w
      = (g, \<lambda>h. if h \<in> set (changed_tenants E ?prev ts) then map_option (\<lambda>t. tenant_info_from t 0) (map_of ts h) else snd w h)"
    unfolding fold_upserts[OF ch assms(3)] by (simp add: fw)
  have same: "tenant_info_from pt 0 = tenant_info_from t 0"
    if "map_of ts h = Some t" "map_of ?prev h = Some pt" "tenant_equal E pt t" for h t pt
    using assms(2) that map_of_SomeD[OF that(1)] by (auto simp: texts_decide_def list_all_iff tenant_get_def)
  have pt: "(if h \<in> set (gone_tenants ?prev ts) then None
      else if h \<in> set (changed_tenants E ?prev ts) then map_option (\<lambda>t. tenant_info_from t 0) (map_of ts h) else snd w h)
      = map_option (\<lambda>t. tenant_info_from t 0) (map_of ts h)" for h
  proof (cases "map_of ts h")
    case None
    then show ?thesis by (cases "map_of ?prev h") (auto simp: set_gone_tenants set_changed_tenants w_def tenants_view_def tenant_get_def)
  next
    case (Some t)
    then show ?thesis
      using same[OF Some] by (cases "map_of ?prev h") (auto simp: set_gone_tenants set_changed_tenants w_def tenants_view_def tenant_get_def)
  qed
  show ?thesis
    unfolding external_payloads_def tenant_snapshot_of_def prod.case fold_append comp_def glob up fold_deletes fst_conv snd_conv pt ..
qed

text \<open>
  C18 (refinement). A reload after an edit of the data directory, with no other operation in between, publishes exactly what changed. If the loader reports no error, the registry ends with what was loaded, and
  the payloads are, without repetition: the new globals if their JSON text differs from the old one; an upsert, with the new version, for each loaded tenant that the registry did not have or had with another JSON
  text; and a deletion for each tenant of the registry that was not loaded. If values with equal JSON texts have equal views, a replica that was in sync before and applies them is in sync afterwards.
\<close>

theorem external_change_in_sync:
  assumes "tenants_ok reg" and "\<not> tg_stuck reg" and "load_all E stat rd (tg_data reg) = (g, Some ts, [])"
    and "tenants_external_change E stat rd reg = (ps, reg')"
  shows "tenants_ok reg' \<and> tg_globals reg' = g \<and> tenant_map reg' = ts \<and> distinct ps
    \<and> (\<forall>p. p \<in> set ps \<longleftrightarrow>
         (case p of
            PGlobals g' \<Rightarrow> g' = g \<and> globals_text E (tg_globals reg) \<noteq> globals_text E g
          | PUpsert ti \<Rightarrow> (\<exists>h t. map_of ts h = Some t \<and> ti = tenant_info_from t (tg_version reg + 1)
              \<and> (\<forall>pt x. tenant_get reg h = Some pt \<longrightarrow> te_json E pt = Some x \<longrightarrow> te_json E t \<noteq> Some x))
          | PDelete h \<Rightarrow> map_of ts h = None \<and> tenant_get reg h \<noteq> None
          | PSnapshot tis g' v' \<Rightarrow> False))
    \<and> (texts_decide E reg g ts \<longrightarrow> fold tenant_replay ps (tenants_view reg) = tenants_view reg')"
proof -
  note ok = load_all_ok[OF assms(3)]
  let ?v = "tg_version reg + 1"
  have reg': "reg' = reg\<lparr>tg_globals := g, tg_tenants := Some ts, tg_version := ?v\<rparr>"
    and ps: "ps = external_payloads E (tg_globals reg, tenant_map reg) g ts ?v"
    using assms(2-4) by (simp_all add: tenants_external_change_def external_swap_def tenant_snapshot_of_def Let_def)
  have map': "tenant_map reg' = ts" "tg_globals reg' = g" by (simp_all add: reg' tenant_map_def)
  have "fold tenant_replay ps (tenants_view reg) = tenants_view reg'" if "texts_decide E reg g ts"
    using external_payloads_replay[OF assms(1) that conjunct2[OF ok], of ?v] by (simp add: ps tenant_snapshot_of_def tenants_view_def tenant_get_def map')
  moreover have "tenants_ok reg'" using ok by (simp add: tenants_ok_def map')
  moreover have "distinct (map fst (tenant_map reg))" using assms(1) by (simp add: tenants_ok_def)
  note exact = external_payloads_exact[OF this conjunct1[OF ok] conjunct2[OF ok]]
  ultimately show ?thesis using map' unfolding ps exact(2) tenant_get_def by (simp add: exact(1))
qed

text \<open>
  The diff is against the copy that was taken before the files were read. If a tenant is stored between the reading of the files and the swap, the registry forgets it again, and since the copy does not have it
  either, no deletion is published: subscribers keep a tenant that the registry does not have, until the next change of a file is noticed.
\<close>

theorem external_change_race:
  assumes "load_all E stat rd (tg_data reg) = (g, Some ts, [])" and "tenant_get reg (tc_Host t) = None" and "map_of ts (tc_Host t) = None"
    and "upsert_tenant E ok False t reg = (TOk, ps1, reg1)" and "\<not> tg_stuck reg"
    and "external_swap E (tenant_snapshot_of reg) (g, Some ts, []) reg1 = (ps2, reg2)"
  shows "tenant_get reg2 (tc_Host t) = None \<and> snd (fold tenant_replay (ps1 @ ps2) (tenants_view reg)) (tc_Host t) = Some (tenant_info_from t 0)"
proof -
  note ok = load_all_ok[OF assms(1)]
  obtain v where up: "ps1 = [PUpsert (tenant_info_from t v)]" "tg_stuck reg1 = tg_stuck reg"
    using assms(4) by (cases rule: upsert_tenant_cases) auto
  have swap: "tenant_map reg2 = ts" "ps2 = external_payloads E (tg_globals reg, tenant_map reg) g ts (tg_version reg1 + 1)"
    using assms(5,6) up(2) by (auto simp: external_swap_def tenant_snapshot_of_def tenant_map_def Let_def)
  let ?h = "tc_Host t"
  have up2: "snd (fold tenant_replay (List.map_filter (\<lambda>h. map_option (\<lambda>t. PUpsert (tenant_info_from t v')) (map_of ts h)) (changed_tenants E pts ts)) w) ?h = snd w ?h" for v' pts w
  proof -
    have "list_all (\<lambda>h. map_of ts h \<noteq> None) (changed_tenants E pts ts)" by (auto simp: list_all_iff set_changed_tenants)
    from fold_upserts[OF this conjunct2[OF ok]] show ?thesis using assms(3) by (simp add: set_changed_tenants)
  qed
  have gl: "snd (fold tenant_replay (if c then [PGlobals g] else []) w) = snd w" for c w by (simp add: tenant_replay_def)
  have "?h \<notin> set (gone_tenants (tenant_map reg) ts)" using assms(2) by (simp add: set_gone_tenants tenant_get_def)
  then have "snd (fold tenant_replay ps2 w) ?h = snd w ?h" for w
    by (simp add: swap(2) external_payloads_def fold_deletes up2 gl)
  moreover have "snd (fold tenant_replay ps1 w) ?h = Some (tenant_info_from t 0)" for w
    by (simp add: up(1) tenant_replay_def)
  ultimately show ?thesis using assms(3) swap(1) by (simp add: tenant_get_def)
qed

definition sample_tenant :: tenant_conf where
  "sample_tenant =
     \<lparr>tc_Host = ''a.example'', tc_Enabled = True, tc_Backends = [\<lparr>bc_Addr = ''x.onion:80'', bc_Weight = 1\<rparr>], tc_Features = [],
      tc_StealthHS = \<lparr>sh_Enabled = False, sh_ClientAuths = []\<rparr>,
      tc_NegativeCache = \<lparr>ncc_Enabled = False, ncc_TTL = 0, ncc_FailureThreshold = 0\<rparr>,
      tc_AbuseAPI = \<lparr>aac_Enabled = False, aac_Path = [], aac_NotifyEmail = []\<rparr>, tc_AssignedNodes = []\<rparr>"

definition bad_tenant :: tenant_conf where
  "bad_tenant = sample_tenant\<lparr>tc_Host := ''b.example'', tc_Backends := []\<rparr>"

definition bad_globals :: globals_conf where
  "bad_globals = zero_globals\<lparr>gc_BlockResponse := \<lparr>br_Default = ''teapot'', br_TimeoutSeconds = 0\<rparr>\<rparr>"

definition sample_tenant_env :: tenant_env where
  "sample_tenant_env =
     \<lparr>te_yaml = \<lambda>t. if t = sample_tenant then Some ''t'' else if t = bad_tenant then Some ''b'' else None,
      te_unyaml = \<lambda>s. if s = ''t'' then Some sample_tenant else if s = ''b'' then Some bad_tenant else None,
      te_gyaml = \<lambda>g. if g = bad_globals then Some ''g'' else None, te_gunyaml = \<lambda>s. if s = ''g'' then Some bad_globals else None,
      te_json = \<lambda>t. if t = sample_tenant then Some ''j'' else None, te_gjson = \<lambda>g. if g = bad_globals then Some ''k'' else Some ''z'',
      te_uni = id\<rparr>"

definition fresh_registry :: tenant_registry where
  "fresh_registry =
     \<lparr>tg_globals = zero_globals, tg_tenants = Some [], tg_version = 1, tg_data = \<lparr>hd_globals = None, hd_tenants = []\<rparr>, tg_stuck = False\<rparr>"

theorem external_change_in_sync_witness:
  "\<exists>ps reg'. tenants_external_change sample_tenant_env False RdOk
      (fresh_registry\<lparr>tg_data := \<lparr>hd_globals = None, hd_tenants = [(''a.example.yaml'', FileEnt ''t'')]\<rparr>\<rparr>) = (ps, reg')
    \<and> tenant_map reg' = [(''a.example'', sample_tenant)]
    \<and> fold tenant_replay ps (tenants_view fresh_registry) = tenants_view reg'"
proof -
  let ?reg = "fresh_registry\<lparr>tg_data := \<lparr>hd_globals = None, hd_tenants = [(''a.example.yaml'', FileEnt ''t'')]\<rparr>\<rparr>"
  have yn: "is_yaml_name id ''a.example.yaml''" by (simp add: is_yaml_name_def to_lower_def is_ascii_def ascii_lower_def has_suffix_def yaml_ext_def suffix_def)
  have "load_tenant_file (te_unyaml sample_tenant_env) (Some ''t'') = Inr sample_tenant"
    by (simp add: load_tenant_file_def sample_tenant_env_def validate_tenant_def sample_tenant_def default_weight_def)
  then have l: "load_all sample_tenant_env False RdOk (tg_data ?reg) = (zero_globals, Some [(''a.example'', sample_tenant)], [])"
    using yn by (simp add: load_all_def read_dir_def file_data_def sample_tenant_env_def sample_tenant_def)
  obtain ps reg' where e: "tenants_external_change sample_tenant_env False RdOk ?reg = (ps, reg')" by fastforce
  have "tenants_ok ?reg" "\<not> tg_stuck ?reg" by (simp_all add: fresh_registry_def tenants_ok_def tenant_map_def)
  moreover have td: "texts_decide sample_tenant_env ?reg zero_globals [(''a.example'', sample_tenant)]"
    by (simp add: texts_decide_def fresh_registry_def tenant_get_def tenant_map_def)
  ultimately have "tenant_map reg' = [(''a.example'', sample_tenant)] \<and> fold tenant_replay ps (tenants_view ?reg) = tenants_view reg'"
    using external_change_in_sync[OF _ _ l e] by blast
  moreover have "tenants_view ?reg = tenants_view fresh_registry" by (simp add: tenants_view_def tenant_get_def)
  ultimately show ?thesis using e by auto
qed

theorem external_change_race_witness:
  "\<exists>ps1 reg1 ps2 reg2. upsert_tenant sample_tenant_env True False sample_tenant fresh_registry = (TOk, ps1, reg1)
     \<and> external_swap sample_tenant_env (tenant_snapshot_of fresh_registry) (load_all sample_tenant_env False RdOk (tg_data fresh_registry)) reg1 = (ps2, reg2)
     \<and> tenant_get reg2 ''a.example'' = None \<and> snd (fold tenant_replay (ps1 @ ps2) (tenants_view fresh_registry)) ''a.example'' \<noteq> None"
proof -
  have same: "sample_tenant\<lparr>tc_Host := tc_Host sample_tenant\<rparr> = sample_tenant" by simp
  have host: "tc_Host sample_tenant = ''a.example''" by (simp add: sample_tenant_def)
  have l: "load_all sample_tenant_env False RdOk (tg_data fresh_registry) = (zero_globals, Some [], [])"
    by (simp add: load_all_def read_dir_def fresh_registry_def)
  obtain d where "write_tenant sample_tenant_env True (tc_Host sample_tenant) sample_tenant (tg_data fresh_registry) = Inr d"
    unfolding write_tenant_def same by (simp add: sample_tenant_env_def atomic_write_def fresh_registry_def sample_tenant_def)
  then obtain ps1 reg1 where u: "upsert_tenant sample_tenant_env True False sample_tenant fresh_registry = (TOk, ps1, reg1)"
    by (simp add: upsert_tenant_def fresh_registry_def Let_def sample_tenant_def[THEN arg_cong, of tc_Host])
  obtain ps2 reg2 where e: "external_swap sample_tenant_env (tenant_snapshot_of fresh_registry) (zero_globals, Some [], []) reg1 = (ps2, reg2)" by fastforce
  have "tenant_get fresh_registry (tc_Host sample_tenant) = None" "\<not> tg_stuck fresh_registry" by (simp_all add: tenant_get_def tenant_map_def fresh_registry_def)
  then show ?thesis using external_change_race[OF l _ _ u _ e] u e l by (simp add: host)
qed

subsection \<open>What the API accepts and the loader refuses\<close>

text \<open>
  The API does not validate what it stores. Globals with an unknown block response are accepted and published, but after a restart the loader
  refuses the file: the hub starts with no tenants at all, although every tenant file is intact, the first tenant that is stored makes the
  process panic on the nil map with the lock held, and from then on no operation on tenants returns.
\<close>

theorem unvalidated_globals_brick_restart:
  assumes "set_globals E ok ctx g reg = (TOk, ps, reg1)" and "validate_globals g \<noteq> None"
    and "\<forall>data. te_gyaml E g = Some data \<longrightarrow> te_gunyaml E data = Some g"
    and "tc_Host t \<noteq> []" and "write_tenant E True (tc_Host t) t (tg_data reg1) = Inr d"
  shows "tenant_map (registry_new E False RdOk (tg_data reg1)) = []
    \<and> (\<exists>reg2. upsert_tenant E True False t (registry_new E False RdOk (tg_data reg1)) = (TPanic, [], reg2)
        \<and> (\<forall>ok' ctx' t' oc ps' reg3. upsert_tenant E ok' ctx' t' reg2 = (oc, ps', reg3) \<longrightarrow> oc \<noteq> TOk \<and> ps' = []))"
proof -
  obtain d1 where w: "write_globals E ok g (tg_data reg) = Inr d1" and r1: "tg_data reg1 = d1"
    using assms(1) by (cases rule: set_globals_cases) auto
  from w obtain data where y: "te_gyaml E g = Some data" "hd_globals d1 = Some (FileEnt data)"
    by (auto simp: write_globals_def split: option.splits if_splits)
  obtain e where "load_globals_file (te_gunyaml E) (Some data) = Inl e"
    using assms(2,3) y(1) by (auto simp: load_globals_file_def)
  then have "load_all E False RdOk d1 = (zero_globals, None, [LoadConf e])"
    by (simp add: load_all_def y(2) file_data_def)
  then have new: "registry_new E False RdOk (tg_data reg1)
      = \<lparr>tg_globals = zero_globals, tg_tenants = None, tg_version = 1, tg_data = d1, tg_stuck = False\<rparr>" (is "_ = ?new")
    by (simp add: registry_new_def tenants_load_from_disk_def r1)
  let ?reg2 = "?new\<lparr>tg_data := d, tg_stuck := True\<rparr>"
  have "upsert_tenant E True False t ?new = (TPanic, [], ?reg2)" using assms(4,5) by (simp add: upsert_tenant_def r1 Let_def)
  moreover have "oc \<noteq> TOk \<and> ps' = []" if "upsert_tenant E ok' ctx' t' ?reg2 = (oc, ps', reg3)" for ok' ctx' t' oc ps' reg3
    using that by (cases rule: upsert_tenant_cases) auto
  ultimately show ?thesis unfolding new by (intro conjI exI[of _ ?reg2]) (blast | simp add: tenant_map_def)+
qed

theorem unvalidated_globals_brick_restart_witness:
  "\<exists>ps reg1 reg2. set_globals sample_tenant_env True False bad_globals fresh_registry = (TOk, ps, reg1)
     \<and> upsert_tenant sample_tenant_env True False sample_tenant (registry_new sample_tenant_env False RdOk (tg_data reg1)) = (TPanic, [], reg2)"
proof -
  let ?E = sample_tenant_env
  let ?d = "\<lparr>hd_globals = Some (FileEnt ''g''), hd_tenants = []\<rparr>"
  let ?reg1 = "fresh_registry\<lparr>tg_data := ?d, tg_globals := bad_globals, tg_version := 2\<rparr>"
  have s: "set_globals ?E True False bad_globals fresh_registry = (TOk, [PGlobals bad_globals], ?reg1)"
    by (simp add: set_globals_def write_globals_def sample_tenant_env_def fresh_registry_def Let_def)
  have v: "validate_globals bad_globals \<noteq> None"
    by (simp add: validate_globals_def bad_globals_def is_valid_block_response_def BlockDrop_def BlockTimeout_def Block404_def Block429_def)
  have y: "\<forall>data. te_gyaml ?E bad_globals = Some data \<longrightarrow> te_gunyaml ?E data = Some bad_globals" by (simp add: sample_tenant_env_def)
  have "tc_Host sample_tenant \<noteq> []" by (simp add: sample_tenant_def)
  moreover have "\<exists>d. write_tenant ?E True (tc_Host sample_tenant) sample_tenant (tg_data ?reg1) = Inr d"
    by (simp add: write_tenant_def sample_tenant_env_def sample_tenant_def atomic_write_def)
  ultimately show ?thesis using unvalidated_globals_brick_restart[OF s v y] s by blast
qed

lemma load_tenant_entries_errs: "set errs \<subseteq> set (snd (load_tenant_entries E es ts errs))"
  by (induction E es ts errs rule: load_tenant_entries.induct) (auto split: sum.splits)

lemma bad_entry_reported:
  assumes "(n, ent) \<in> set es" and "ent \<noteq> DirEnt" and "is_yaml_name (te_uni E) n" and "load_tenant_file (te_unyaml E) (file_data ent) = Inl e"
  shows "LoadConf e \<in> set (snd (load_tenant_entries E es ts errs))"
  using assms(1)
proof (induction es arbitrary: ts errs)
  case (Cons p es)
  show ?case
  proof (cases "p = (n, ent)")
    case True
    then show ?thesis using assms(2-4) load_tenant_entries_errs[of "errs @ [LoadConf e]" E es ts] by auto
  next
    case False
    obtain n' ent' where p: "p = (n', ent')" by fastforce
    have mem: "(n, ent) \<in> set es" using False Cons.prems by simp
    show ?thesis
      using Cons.IH[OF mem] by (cases "load_tenant_file (te_unyaml E) (file_data ent')") (auto simp: p)
  qed
qed simp

text \<open>
  A tenant that the API accepts although its file fails validation, for instance one without backends, stays in memory until the hub
  restarts and is then lost; and as long as its file exists no edit of the data directory is taken over any more, whatever else it changes.
\<close>

theorem unvalidated_tenant_stops_reload:
  assumes "upsert_tenant E ok ctx t reg = (TOk, ps, reg1)" and "validate_tenant t = Inl e"
    and "\<forall>data. te_yaml E t = Some data \<longrightarrow> te_unyaml E data = Some t"
    and "map_of (hd_tenants d) (tenant_path E (tc_Host t)) = map_of (hd_tenants (tg_data reg1)) (tenant_path E (tc_Host t))"
    and "rd \<noteq> RdNotExist"
  shows "tenants_external_change E stat rd (reg1\<lparr>tg_data := d\<rparr>) = ([], reg1\<lparr>tg_data := d\<rparr>)"
proof -
  obtain d1 where w: "write_tenant E ok (tc_Host t) t (tg_data reg) = Inr d1" and r1: "tg_data reg1 = d1" and nonempty: "tc_Host t \<noteq> []"
    using assms(1) by (cases rule: upsert_tenant_cases) auto
  have same: "t\<lparr>tc_Host := tc_Host t\<rparr> = t" by simp
  obtain data where y: "te_yaml E t = Some data" "map_of (hd_tenants d1) (tenant_path E (tc_Host t)) = Some (FileEnt data)"
    using w nonempty by (auto simp: write_tenant_def same atomic_write_def map_of_alist_put split: option.splits sum.splits if_splits)
  let ?n = "tenant_path E (tc_Host t)"
  have mem: "(?n, FileEnt data) \<in> set (read_dir (hd_tenants d))"
    using assms(4) y(2) by (auto simp: r1 dest: map_of_SomeD)
  have bad: "load_tenant_file (te_unyaml E) (file_data (FileEnt data)) = Inl e"
    using assms(2,3) y(1) by (simp add: load_tenant_file_def file_data_def)
  have yn: "is_yaml_name (te_uni E) ?n" by (simp add: tenant_path_def yaml_name_sanitized)
  have "snd (load_tenant_entries E (read_dir (hd_tenants d)) [] []) \<noteq> []"
    using bad_entry_reported[OF mem _ yn bad, of "[]" "[]"] by auto
  then have "snd (snd (load_all E stat rd d)) \<noteq> []"
    using assms(5) by (auto simp: load_all_def Let_def split: sum.splits readdir_result.splits prod.splits)
  then show ?thesis by (auto simp: tenants_external_change_def external_swap_def Let_def split: prod.splits)
qed

theorem unvalidated_tenant_stops_reload_witness:
  "\<exists>ps reg1. upsert_tenant sample_tenant_env True False bad_tenant fresh_registry = (TOk, ps, reg1)
     \<and> tenants_external_change sample_tenant_env False RdOk
         (reg1\<lparr>tg_data := \<lparr>hd_globals = None, hd_tenants = (''a.example.yaml'', FileEnt ''t'') # hd_tenants (tg_data reg1)\<rparr>\<rparr>)
       = ([], reg1\<lparr>tg_data := \<lparr>hd_globals = None, hd_tenants = (''a.example.yaml'', FileEnt ''t'') # hd_tenants (tg_data reg1)\<rparr>\<rparr>)"
proof -
  let ?E = sample_tenant_env
  have ne: "bad_tenant \<noteq> sample_tenant" by (simp add: bad_tenant_def sample_tenant_def)
  have path: "tenant_path ?E (tc_Host bad_tenant) = ''b.example.yaml''"
    by (simp add: tenant_path_def sample_tenant_env_def bad_tenant_def sample_tenant_def yaml_ext_def) code_simp
  have same: "bad_tenant\<lparr>tc_Host := tc_Host bad_tenant\<rparr> = bad_tenant" by simp
  obtain ps reg1 where u: "upsert_tenant ?E True False bad_tenant fresh_registry = (TOk, ps, reg1)"
    and dir: "hd_tenants (tg_data reg1) = [(''b.example.yaml'', FileEnt ''b'')]"
  proof -
    have "tc_Host bad_tenant \<noteq> []" by (simp add: bad_tenant_def)
    moreover have "write_tenant ?E True (tc_Host bad_tenant) bad_tenant (tg_data fresh_registry)
        = Inr \<lparr>hd_globals = None, hd_tenants = [(''b.example.yaml'', FileEnt ''b'')]\<rparr>"
      using calculation ne unfolding write_tenant_def path same
      by (simp add: sample_tenant_env_def fresh_registry_def atomic_write_def)
    ultimately show thesis using that by (auto simp: upsert_tenant_def fresh_registry_def Let_def)
  qed
  let ?d = "\<lparr>hd_globals = None, hd_tenants = (''a.example.yaml'', FileEnt ''t'') # hd_tenants (tg_data reg1)\<rparr>"
  have v: "validate_tenant bad_tenant = Inl (ConfInvalid ''at least one backend is required'')"
    by (simp add: validate_tenant_def bad_tenant_def)
  have y: "\<forall>data. te_yaml ?E bad_tenant = Some data \<longrightarrow> te_unyaml ?E data = Some bad_tenant"
    using ne by (simp add: sample_tenant_env_def)
  have "map_of (hd_tenants ?d) (tenant_path ?E (tc_Host bad_tenant))
      = map_of (hd_tenants (tg_data reg1)) (tenant_path ?E (tc_Host bad_tenant))" by (simp add: path)
  from unvalidated_tenant_stops_reload[OF u v y this, of RdOk False] u show ?thesis by auto
qed

end
