(* ===== verification/Hubca.thy ===== *)
theory Hubca
  imports Prelude
begin

text \<open>
  The hub's certificate authority, \<^verbatim>\<open>internal/hub/mtls.go\<close>, and its node store, \<^verbatim>\<open>internal/hub/nodes.go\<close>. Package
  \<^verbatim>\<open>crypto/x509\<close> is the parameter \<open>x509_lib\<close>: parsing a certificate request, signing a template with the root key and
  checking a leaf's signature against the root. A certificate is the record of the fields that the sources set and read; the way of its URI names
  through the encoding is \<open>parsed_leaf\<close>.
  The serial counter's file is \<open>Some\<close> contents per data directory; whether a write succeeds is an argument. The revocation
  list lives in memory only, as in the source.
\<close>

subsection \<open>Certificates\<close>

record leaf_cert =
  xc_Serial :: int
  xc_CN :: string
  xc_URIs :: "(string \<times> string) list"
  xc_NotBefore :: time
  xc_NotAfter :: time
  xc_ClientAuth :: bool

record csr =
  csr_CN :: string
  csr_SigOK :: bool

datatype csr_result = CsrNotPem | CsrMalformed | CsrParsed csr

record x509_lib =
  x_parse_csr :: "string \<Rightarrow> csr_result"
  x_sign :: "leaf_cert \<Rightarrow> string option"
  x_signed :: "leaf_cert \<Rightarrow> bool"

definition sanSchemeGateway :: string where "sanSchemeGateway = ''gateway''"
definition sanNodeIDHost :: string where "sanNodeIDHost = ''node-id''"
definition sanNodeTypeHost :: string where "sanNodeTypeHost = ''node-type''"

subsection \<open>The authority\<close>

record cert_authority =
  ca_dataDir :: string
  ca_nextSerial :: int
  ca_revoked :: "(int \<times> time) list"

datatype ca_error =
    EmptyDataDir
  | MkdirFailed
  | ReadSerialFailed
  | ParseSerialFailed
  | WriteSerialFailed
  | InconsistentFiles
  | LoadFailed
  | GenerateFailed
  | NoSAN
  | NodeIDRequired
  | InvalidNodeType string
  | BadValidity
  | NotACSR
  | ParseCSRFailed
  | CSRSignature
  | CSRNameMismatch string string
  | SignFailed

definition new_ca_struct :: cert_authority where
  "new_ca_struct = \<lparr>ca_dataDir = [], ca_nextSerial = 1, ca_revoked = []\<rparr>"

text \<open>\<^verbatim>\<open>strconv.ParseUint(s, 10, 64)\<close>.\<close>

definition digit_val :: "char \<Rightarrow> nat option" where
  "digit_val c = (if 48 \<le> (of_char c :: nat) \<and> (of_char c :: nat) \<le> 57 then Some (of_char c - 48) else None)"

fun parse_digits :: "string \<Rightarrow> nat \<Rightarrow> nat option" where
  "parse_digits [] n = Some n"
| "parse_digits (c # s) n = (case digit_val c of None \<Rightarrow> None | Some d \<Rightarrow> parse_digits s (10 * n + d))"

definition parse_uint64 :: "string \<Rightarrow> nat option" where
  "parse_uint64 s =
     (if s = [] then None
      else (case parse_digits s 0 of None \<Rightarrow> None | Some n \<Rightarrow> if n < 2 ^ 64 then Some n else None))"

datatype file_content = NoFile | Unreadable | Contents string

type_synonym disk = "string \<Rightarrow> file_content"

definition read_serial :: "disk \<Rightarrow> string \<Rightarrow> ca_error + int option" where
  "read_serial d dir =
     (case d dir of
        NoFile \<Rightarrow> Inr None
      | Unreadable \<Rightarrow> Inl ReadSerialFailed
      | Contents b \<Rightarrow>
          (let s = trim_space b in
           if s = [] then Inr None
           else (case parse_uint64 s of None \<Rightarrow> Inl ParseSerialFailed | Some n \<Rightarrow> Inr (Some (int n)))))"

definition write_serial :: "bool \<Rightarrow> string \<Rightarrow> int \<Rightarrow> disk \<Rightarrow> disk option" where
  "write_serial ok dir n d = (if ok then Some (d(dir := Contents (digits (nat n) @ [CHR 0x0A]))) else None)"

definition set_data_dir :: "bool \<Rightarrow> string \<Rightarrow> disk \<Rightarrow> cert_authority \<Rightarrow> ca_error option \<times> cert_authority" where
  "set_data_dir mkdir_ok dir d c =
     (if dir = [] then (Some EmptyDataDir, c)
      else if \<not> mkdir_ok then (Some MkdirFailed, c)
      else
        (let c1 = c\<lparr>ca_dataDir := dir\<rparr> in
         case read_serial d dir of
           Inl e \<Rightarrow> (Some e, c1)
         | Inr None \<Rightarrow> (None, c1)
         | Inr (Some n) \<Rightarrow> (None, if n > ca_nextSerial c1 then c1\<lparr>ca_nextSerial := n\<rparr> else c1)))"

text \<open>\<^verbatim>\<open>loadCA\<close>: \<open>pem_ok\<close> tells whether both files hold a usable certificate and key.\<close>

definition load_ca :: "bool \<Rightarrow> string \<Rightarrow> disk \<Rightarrow> ca_error + cert_authority" where
  "load_ca pem_ok parent d =
     (if \<not> pem_ok then Inl LoadFailed
      else
        (let c = new_ca_struct in
         if parent = [] then Inr c
         else (case read_serial d parent of
                 Inr (Some n) \<Rightarrow>
                   (let c1 = (if n > ca_nextSerial c then c\<lparr>ca_nextSerial := n\<rparr> else c)
                    in Inr (c1\<lparr>ca_dataDir := parent\<rparr>))
               | _ \<Rightarrow> Inr c)))"

definition generate_ca :: "bool \<Rightarrow> string \<Rightarrow> ca_error + cert_authority" where
  "generate_ca ok parent = (if ok then Inr (new_ca_struct\<lparr>ca_dataDir := parent\<rparr>) else Inl GenerateFailed)"

definition new_ca :: "bool \<Rightarrow> bool \<Rightarrow> bool \<Rightarrow> string \<Rightarrow> disk \<Rightarrow> ca_error + cert_authority" where
  "new_ca certExists keyExists ok parent d =
     (if certExists \<and> keyExists then load_ca ok parent d
      else if \<not> certExists \<and> \<not> keyExists then generate_ca ok parent
      else Inl InconsistentFiles)"

definition allocate_serial :: "bool \<Rightarrow> disk \<Rightarrow> cert_authority \<Rightarrow> ca_error + int \<times> disk \<times> cert_authority" where
  "allocate_serial ok d c =
     (let serial = ca_nextSerial c; nxt = ca_nextSerial c + 1 in
      if ca_dataDir c \<noteq> [] then
        (case write_serial ok (ca_dataDir c) nxt d of
           None \<Rightarrow> Inl WriteSerialFailed
         | Some d' \<Rightarrow> Inr (serial, d', c\<lparr>ca_nextSerial := nxt\<rparr>))
      else Inr (serial, d, c\<lparr>ca_nextSerial := nxt\<rparr>))"

definition minute :: duration where "minute = 60 * second"

text \<open>
  Issuing returns the result, the disk and the authority: an allocated serial is used up even when signing fails afterwards.
\<close>

definition issue_server_cert ::
  "x509_lib \<Rightarrow> bool \<Rightarrow> string \<Rightarrow> nat \<Rightarrow> duration \<Rightarrow> time \<Rightarrow> disk \<Rightarrow> cert_authority \<Rightarrow>
     (ca_error + leaf_cert) \<times> disk \<times> cert_authority" where
  "issue_server_cert X ok commonName sans validity now d c =
     (if sans = 0 then (Inl NoSAN, d, c)
      else if validity \<le> 0 then (Inl BadValidity, d, c)
      else
        (case allocate_serial ok d c of
           Inl e \<Rightarrow> (Inl e, d, c)
         | Inr (serial, d', c') \<Rightarrow>
             (let tmpl = \<lparr>xc_Serial = serial, xc_CN = commonName, xc_URIs = [], xc_NotBefore = now - minute,
                          xc_NotAfter = now + validity, xc_ClientAuth = False\<rparr>
              in case x_sign X tmpl of
                   None \<Rightarrow> (Inl SignFailed, d', c')
                 | Some der \<Rightarrow> (Inr tmpl, d', c'))))"

definition valid_node_type :: "string \<Rightarrow> bool" where
  "valid_node_type t \<longleftrightarrow> t = ''proxy'' \<or> t = ''door'' \<or> t = ''local''"

definition node_uris :: "string \<Rightarrow> string \<Rightarrow> (string \<times> string) list" where
  "node_uris nodeID nodeType =
     [(sanSchemeGateway, sanNodeIDHost @ '':'' @ nodeID), (sanSchemeGateway, sanNodeTypeHost @ '':'' @ nodeType)]"

definition client_template :: "string \<Rightarrow> string \<Rightarrow> duration \<Rightarrow> time \<Rightarrow> int \<Rightarrow> leaf_cert" where
  "client_template nodeID nodeType validity now serial =
     \<lparr>xc_Serial = serial, xc_CN = nodeID, xc_URIs = node_uris nodeID nodeType, xc_NotBefore = now - minute,
      xc_NotAfter = now + validity, xc_ClientAuth = True\<rparr>"

definition sign_csr ::
  "x509_lib \<Rightarrow> bool \<Rightarrow> string \<Rightarrow> string \<Rightarrow> string \<Rightarrow> duration \<Rightarrow> time \<Rightarrow> disk \<Rightarrow> cert_authority \<Rightarrow>
     (ca_error + string \<times> leaf_cert) \<times> disk \<times> cert_authority" where
  "sign_csr X ok csrBytes nodeID nodeType validity now d c =
     (if nodeID = [] then (Inl NodeIDRequired, d, c)
      else if \<not> valid_node_type nodeType then (Inl (InvalidNodeType nodeType), d, c)
      else if validity \<le> 0 then (Inl BadValidity, d, c)
      else
        (case x_parse_csr X csrBytes of
           CsrNotPem \<Rightarrow> (Inl NotACSR, d, c)
         | CsrMalformed \<Rightarrow> (Inl ParseCSRFailed, d, c)
         | CsrParsed r \<Rightarrow>
             if \<not> csr_SigOK r then (Inl CSRSignature, d, c)
             else if csr_CN r \<noteq> nodeID then (Inl (CSRNameMismatch (csr_CN r) nodeID), d, c)
             else
               (case allocate_serial ok d c of
                  Inl e \<Rightarrow> (Inl e, d, c)
                | Inr (serial, d', c') \<Rightarrow>
                    (let tmpl = client_template nodeID nodeType validity now serial
                     in case x_sign X tmpl of
                          None \<Rightarrow> (Inl SignFailed, d', c')
                        | Some der \<Rightarrow> (Inr (der, tmpl), d', c')))))"

definition revoke :: "int \<Rightarrow> time \<Rightarrow> cert_authority \<Rightarrow> cert_authority" where
  "revoke serial now c = c\<lparr>ca_revoked := alist_put serial now (ca_revoked c)\<rparr>"

definition is_revoked :: "cert_authority \<Rightarrow> int \<Rightarrow> bool" where
  "is_revoked c serial \<longleftrightarrow> map_of (ca_revoked c) serial \<noteq> None"

text \<open>The entries of the CRL that \<^verbatim>\<open>BuildCRL\<close> signs, and its validity period.\<close>

record revocation_list =
  rv_ThisUpdate :: time
  rv_NextUpdate :: time
  rv_Entries :: "(int \<times> time) list"

definition build_crl :: "time \<Rightarrow> cert_authority \<Rightarrow> revocation_list" where
  "build_crl now c = \<lparr>rv_ThisUpdate = now, rv_NextUpdate = now + 3600 * second, rv_Entries = ca_revoked c\<rparr>"

subsection \<open>Verifying a peer\<close>

text \<open>\<^verbatim>\<open>strings.Cut(s, ":")\<close>.\<close>

definition cut_colon :: "string \<Rightarrow> (string \<times> string) option" where
  "cut_colon s = (case index_byte s CHR '':'' of None \<Rightarrow> None | Some i \<Rightarrow> Some (take i s, drop (Suc i) s))"

fun identity_loop :: "(string \<times> string) list \<Rightarrow> string \<Rightarrow> string \<Rightarrow> string \<times> string" where
  "identity_loop [] nodeID nodeType = (nodeID, nodeType)"
| "identity_loop ((scheme, opaque) # us) nodeID nodeType =
     (if scheme \<noteq> sanSchemeGateway then identity_loop us nodeID nodeType
      else (case cut_colon opaque of
              None \<Rightarrow> identity_loop us nodeID nodeType
            | Some (host, value) \<Rightarrow>
                if host = sanNodeIDHost then identity_loop us value nodeType
                else if host = sanNodeTypeHost then identity_loop us nodeID value
                else identity_loop us nodeID nodeType))"

datatype verify_error =
    NilState
  | NoPeerCerts
  | NotSigned string
  | Revoked int
  | MissingNodeID
  | MissingNodeType
  | CNDisagrees string string

definition extract_identity :: "leaf_cert \<Rightarrow> verify_error + string \<times> string" where
  "extract_identity cert =
     (case identity_loop (xc_URIs cert) [] [] of
        (nodeID, nodeType) \<Rightarrow>
          if nodeID = [] then Inl MissingNodeID
          else if nodeType = [] then Inl MissingNodeType
          else if xc_CN cert \<noteq> [] \<and> xc_CN cert \<noteq> nodeID then Inl (CNDisagrees (xc_CN cert) nodeID)
          else Inr (nodeID, nodeType))"

text \<open>
  What a certificate says after the way through its encoding. A URI name is written with \<^verbatim>\<open>URL.String\<close>, here the scheme, a colon and the opaque part as it is, which must be ASCII, and read back with
  \<^verbatim>\<open>url.Parse\<close>: everything from the first \<^verbatim>\<open>#\<close> on is the fragment, which must not have a malformed escape; a control byte before it is an error; and everything from the first \<^verbatim>\<open>?\<close> on is the query. The
  opaque part is what is left, as long as it does not begin with a slash. The certificate does not parse when one of its names does not.
\<close>

definition hex_digit :: "char \<Rightarrow> bool" where
  "hex_digit c \<longleftrightarrow> c \<in> set ''0123456789abcdefABCDEF''"

fun escapes_ok :: "string \<Rightarrow> bool" where
  "escapes_ok [] = True"
| "escapes_ok (c # s) =
     (if c = CHR ''%'' then (case s of a # b # s' \<Rightarrow> hex_digit a \<and> hex_digit b \<and> escapes_ok s' | _ \<Rightarrow> False)
      else escapes_ok s)"

definition ctl_byte :: "char \<Rightarrow> bool" where
  "ctl_byte c \<longleftrightarrow> (of_char c :: nat) < 32 \<or> (of_char c :: nat) = 127"

definition reparse_uri :: "string \<times> string \<Rightarrow> (string \<times> string) option" where
  "reparse_uri u =
     (case u of (scheme, opaque) \<Rightarrow>
        let before = takeWhile (\<lambda>c. c \<noteq> CHR ''#'') opaque; fragment = drop (Suc (length before)) opaque in
        if \<not> list_all (\<lambda>c. (of_char c :: nat) < 128) opaque then None
        else if list_ex ctl_byte before then None
        else if \<not> escapes_ok fragment then None
        else Some (scheme, takeWhile (\<lambda>c. c \<noteq> CHR ''?'') before))"

fun reparse_uris :: "(string \<times> string) list \<Rightarrow> (string \<times> string) list option" where
  "reparse_uris [] = Some []"
| "reparse_uris (u # us) =
     (case reparse_uri u of
        None \<Rightarrow> None
      | Some v \<Rightarrow> (case reparse_uris us of None \<Rightarrow> None | Some vs \<Rightarrow> Some (v # vs)))"

definition parsed_leaf :: "leaf_cert \<Rightarrow> leaf_cert option" where
  "parsed_leaf tmpl = (case reparse_uris (xc_URIs tmpl) of None \<Rightarrow> None | Some us \<Rightarrow> Some (tmpl\<lparr>xc_URIs := us\<rparr>))"

text \<open>The connection state is the list of peer certificates as they were parsed, or \<open>None\<close> without TLS; \<open>sig_msg\<close> is the library's text for a bad signature.\<close>

definition verify_peer ::
  "x509_lib \<Rightarrow> string \<Rightarrow> cert_authority \<Rightarrow> leaf_cert list option \<Rightarrow> verify_error + string \<times> string" where
  "verify_peer X sig_msg c state =
     (case state of
        None \<Rightarrow> Inl NilState
      | Some [] \<Rightarrow> Inl NoPeerCerts
      | Some (leaf # _) \<Rightarrow>
          if \<not> x_signed X leaf then Inl (NotSigned sig_msg)
          else if is_revoked c (xc_Serial leaf) then Inl (Revoked (xc_Serial leaf))
          else extract_identity leaf)"

subsection \<open>The node store\<close>

definition nodeCertValidity :: duration where "nodeCertValidity = 365 * 24 * 3600 * second"

record node_record =
  nr_ID :: string
  nr_Type :: string
  nr_PublicKey :: string
  nr_CertSerial :: int
  nr_AssignedTenants :: "string list"
  nr_RegisteredAt :: time
  nr_LastSeen :: time

type_synonym node_store = "(string \<times> node_record) list"

record register_request =
  rn_NodeID :: string
  rn_NodeType :: string
  rn_CSRPEM :: string
  rn_PublicKey :: string

datatype register_error = ReqNodeID | ReqNodeType | ReqCSR | SignErr ca_error

text \<open>
  The certificate serial is kept as a number; the source keeps its decimal string. The hub always has an authority, so the nil checks on it
  are left out.
\<close>

definition node_register ::
  "x509_lib \<Rightarrow> bool \<Rightarrow> register_request \<Rightarrow> time \<Rightarrow> disk \<Rightarrow> cert_authority \<Rightarrow> node_store \<Rightarrow>
     (register_error + string \<times> leaf_cert) \<times> disk \<times> cert_authority \<times> node_store" where
  "node_register X ok req now d c ns =
     (if rn_NodeID req = [] then (Inl ReqNodeID, d, c, ns)
      else if rn_NodeType req = [] then (Inl ReqNodeType, d, c, ns)
      else if rn_CSRPEM req = [] then (Inl ReqCSR, d, c, ns)
      else
        (case sign_csr X ok (rn_CSRPEM req) (rn_NodeID req) (rn_NodeType req) nodeCertValidity now d c of
           (Inl e, d', c') \<Rightarrow> (Inl (SignErr e), d', c', ns)
         | (Inr (der, cert), d', c') \<Rightarrow>
             (Inr (der, cert), d', c',
              alist_put (rn_NodeID req)
                \<lparr>nr_ID = rn_NodeID req, nr_Type = rn_NodeType req, nr_PublicKey = rn_PublicKey req,
                 nr_CertSerial = xc_Serial cert, nr_AssignedTenants = [], nr_RegisteredAt = now, nr_LastSeen = now\<rparr> ns)))"

definition node_get :: "node_store \<Rightarrow> string \<Rightarrow> node_record option" where
  "node_get ns i = map_of ns i"

definition node_get_by_serial :: "node_store \<Rightarrow> int \<Rightarrow> node_record option" where
  "node_get_by_serial ns serial = find (\<lambda>r. nr_CertSerial r = serial) (map snd ns)"

definition node_list :: "node_store \<Rightarrow> node_record list" where
  "node_list ns = sort_key nr_ID (map snd ns)"

definition node_delete :: "string \<Rightarrow> time \<Rightarrow> cert_authority \<Rightarrow> node_store \<Rightarrow> cert_authority \<times> node_store" where
  "node_delete i now c ns =
     (case map_of ns i of
        None \<Rightarrow> (c, ns)
      | Some r \<Rightarrow> (revoke (nr_CertSerial r) now c, alist_del i ns))"

definition set_assigned_tenants :: "string \<Rightarrow> string list \<Rightarrow> node_store \<Rightarrow> node_store option" where
  "set_assigned_tenants i hosts ns =
     (case map_of ns i of
        None \<Rightarrow> None
      | Some r \<Rightarrow> Some (alist_put i (r\<lparr>nr_AssignedTenants := hosts\<rparr>) ns))"

definition node_touch :: "string \<Rightarrow> time \<Rightarrow> node_store \<Rightarrow> node_store" where
  "node_touch i now ns =
     (case map_of ns i of None \<Rightarrow> ns | Some r \<Rightarrow> alist_put i (r\<lparr>nr_LastSeen := now\<rparr>) ns)"

definition tenant_allowed :: "node_store \<Rightarrow> string \<Rightarrow> string \<Rightarrow> bool" where
  "tenant_allowed ns i host =
     (case map_of ns i of
        None \<Rightarrow> False
      | Some r \<Rightarrow>
          if nr_AssignedTenants r = [] then True
          else list_ex (\<lambda>h. h = ''*'' \<or> h = host) (nr_AssignedTenants r))"

subsection \<open>The serial file\<close>

lemma parse_digits_append:
  "parse_digits (a @ b) n = (case parse_digits a n of None \<Rightarrow> None | Some m \<Rightarrow> parse_digits b m)"
  by (induction a arbitrary: n) (auto split: option.splits)

lemma digit_val_char: "d < 10 \<Longrightarrow> digit_val (char_of (48 + d)) = Some d"
  by (simp add: digit_val_def)

lemma parse_digits_digits: "parse_digits (digits n) 0 = Some n"
proof (induction n rule: digits.induct)
  case (1 n)
  show ?case
  proof (cases "n < 10")
    case True
    then show ?thesis by (subst digits.simps) (simp add: digit_val_char)
  next
    case False
    then show ?thesis
      using 1 by (subst digits.simps) (simp add: parse_digits_append digit_val_char[of "n mod 10"])
  qed
qed

definition is_digit_char :: "char \<Rightarrow> bool" where
  "is_digit_char c \<longleftrightarrow> 48 \<le> (of_char c :: nat) \<and> (of_char c :: nat) \<le> 57"

lemma digits_chars: "list_all is_digit_char (digits n)"
proof (induction n rule: digits.induct)
  case (1 n)
  have "is_digit_char (char_of (48 + d))" if "d < (10 :: nat)" for d
    using that by (simp add: is_digit_char_def)
  with 1 show ?case by (subst digits.simps) simp
qed

lemma digits_nonempty: "digits n \<noteq> []"
  by (subst digits.simps) simp

lemma space_seqs_heads:
  "list_all (\<lambda>q. q \<noteq> [] \<and> \<not> is_digit_char (hd q)) space_seqs"
  "list_all (\<lambda>q. q \<noteq> [] \<and> \<not> is_digit_char (hd q)) (map rev space_seqs)"
  by code_simp+

lemma trim_left_digit:
  assumes "list_all (\<lambda>q. q \<noteq> [] \<and> \<not> is_digit_char (hd q)) qs" and "is_digit_char (hd s)" and "s \<noteq> []"
  shows "trim_left_seqs qs s = s"
proof -
  have "\<not> prefix q s" if "q \<in> set qs" for q
    using assms that by (cases q; cases s) (auto simp: list_all_iff)
  then have "find (\<lambda>q. q \<noteq> [] \<and> prefix q s) qs = None" by (auto simp: find_None_iff)
  then show ?thesis by (subst trim_left_seqs.simps) simp
qed

lemma trim_left_newline:
  "trim_left_seqs (map rev space_seqs) (CHR 0x0A # s) = trim_left_seqs (map rev space_seqs) s"
proof -
  have "find (\<lambda>q. q \<noteq> [] \<and> prefix q (CHR 0x0A # s)) (map rev space_seqs) = Some [CHR 0x0A]"
    by (simp add: space_seqs_def)
  then show ?thesis by (subst trim_left_seqs.simps) simp
qed

lemma trim_digits: "trim_space (digits n @ [CHR 0x0A]) = digits n"
proof -
  have d: "is_digit_char (hd (digits n))" "is_digit_char (last (digits n))"
    using digits_chars[of n] digits_nonempty[of n] by (simp_all add: list_all_iff)
  have "trim_left_seqs space_seqs (digits n @ [CHR 0x0A]) = digits n @ [CHR 0x0A]"
    using d(1) digits_nonempty[of n] by (intro trim_left_digit[OF space_seqs_heads(1)]) simp_all
  moreover have "trim_left_seqs (map rev space_seqs) (rev (digits n)) = rev (digits n)"
    using d(2) digits_nonempty[of n] by (intro trim_left_digit[OF space_seqs_heads(2)]) (simp_all add: hd_rev)
  ultimately show ?thesis by (simp add: trim_space_def trim_left_newline)
qed

text \<open>The serial counter that is written is the one that is read back.\<close>

lemma serial_roundtrip:
  assumes "write_serial ok dir n d = Some d'" and "0 \<le> n" and "n < 2 ^ 64"
  shows "read_serial d' dir = Inr (Some n)"
  using assms digits_nonempty
  by (auto simp: write_serial_def read_serial_def trim_digits parse_uint64_def parse_digits_digits Let_def
      nat_less_iff split: if_splits)

subsection \<open>The authority over the life of a hub\<close>

text \<open>
  The authority, its disk and the node store, with a log of every certificate that was signed. A restart reloads the authority
  from its files, as \<^verbatim>\<open>cmd/gateway-hub/main.go\<close> does, and begins with an empty node store.
\<close>

record hub_auth =
  ha_ca :: cert_authority
  ha_disk :: disk
  ha_nodes :: node_store
  ha_issued :: "leaf_cert list"

datatype auth_event =
    AuRegister bool register_request time
  | AuServerCert bool string nat duration time
  | AuDelete string time
  | AuAssign string "string list"
  | AuTouch string time
  | AuRestart

definition hub_boot :: "(ca_error + cert_authority) \<Rightarrow> string \<Rightarrow> disk \<Rightarrow> leaf_cert list \<Rightarrow> hub_auth option" where
  "hub_boot ca dataDir d issued =
     (case ca of
        Inl e \<Rightarrow> None
      | Inr c \<Rightarrow> Some \<lparr>ha_ca = snd (set_data_dir True dataDir d c), ha_disk = d, ha_nodes = [], ha_issued = issued\<rparr>)"

fun auth_step :: "x509_lib \<Rightarrow> string \<Rightarrow> string \<Rightarrow> auth_event \<Rightarrow> hub_auth \<Rightarrow> hub_auth" where
  "auth_step X parent dataDir (AuRegister ok req now) s =
     (case node_register X ok req now (ha_disk s) (ha_ca s) (ha_nodes s) of
        (res, d, c, ns) \<Rightarrow>
          s\<lparr>ha_ca := c, ha_disk := d, ha_nodes := ns,
            ha_issued := ha_issued s @ (case res of Inl e \<Rightarrow> [] | Inr (der, cert) \<Rightarrow> [cert])\<rparr>)"
| "auth_step X parent dataDir (AuServerCert ok cn sans validity now) s =
     (case issue_server_cert X ok cn sans validity now (ha_disk s) (ha_ca s) of
        (res, d, c) \<Rightarrow>
          s\<lparr>ha_ca := c, ha_disk := d, ha_issued := ha_issued s @ (case res of Inl e \<Rightarrow> [] | Inr cert \<Rightarrow> [cert])\<rparr>)"
| "auth_step X parent dataDir (AuDelete i now) s =
     (case node_delete i now (ha_ca s) (ha_nodes s) of (c, ns) \<Rightarrow> s\<lparr>ha_ca := c, ha_nodes := ns\<rparr>)"
| "auth_step X parent dataDir (AuAssign i hosts) s =
     (case set_assigned_tenants i hosts (ha_nodes s) of None \<Rightarrow> s | Some ns \<Rightarrow> s\<lparr>ha_nodes := ns\<rparr>)"
| "auth_step X parent dataDir (AuTouch i now) s = s\<lparr>ha_nodes := node_touch i now (ha_nodes s)\<rparr>"
| "auth_step X parent dataDir AuRestart s =
     (case hub_boot (new_ca True True True parent (ha_disk s)) dataDir (ha_disk s) (ha_issued s) of
        None \<Rightarrow> s
      | Some s' \<Rightarrow> s')"

definition hub_install :: "string \<Rightarrow> string \<Rightarrow> hub_auth" where
  "hub_install parent dataDir =
     (case hub_boot (new_ca False False True parent (\<lambda>_. NoFile)) dataDir (\<lambda>_. NoFile) [] of
        None \<Rightarrow> \<lparr>ha_ca = new_ca_struct, ha_disk = (\<lambda>_. NoFile), ha_nodes = [], ha_issued = []\<rparr>
      | Some s \<Rightarrow> s)"

abbreviation auth_run :: "x509_lib \<Rightarrow> string \<Rightarrow> string \<Rightarrow> auth_event list \<Rightarrow> hub_auth \<Rightarrow> hub_auth" where
  "auth_run X parent dataDir \<equiv> fold (auth_step X parent dataDir)"

text \<open>A certificate of the log is a server certificate or one bound to a node.\<close>

definition issued_ok :: "leaf_cert \<Rightarrow> bool" where
  "issued_ok l \<longleftrightarrow>
     xc_URIs l = [] \<or> (\<exists>i t v now n. i \<noteq> [] \<and> valid_node_type t \<and> l = client_template i t v now n)"

definition auth_inv :: "string \<Rightarrow> nat \<Rightarrow> hub_auth \<Rightarrow> bool" where
  "auth_inv dataDir k s \<longleftrightarrow>
     ca_dataDir (ha_ca s) = dataDir
     \<and> 1 \<le> ca_nextSerial (ha_ca s) \<and> ca_nextSerial (ha_ca s) \<le> 1 + int k
     \<and> (\<forall>x. x \<noteq> dataDir \<longrightarrow> ha_disk s x = NoFile)
     \<and> (read_serial (ha_disk s) dataDir = Inr (Some (ca_nextSerial (ha_ca s)))
        \<or> read_serial (ha_disk s) dataDir = Inr None \<and> ca_nextSerial (ha_ca s) = 1)
     \<and> sorted_wrt (<) (map xc_Serial (ha_issued s))
     \<and> (\<forall>l \<in> set (ha_issued s). xc_Serial l < ca_nextSerial (ha_ca s) \<and> issued_ok l)"

lemma allocate_serial_cases:
  assumes "allocate_serial ok d c = Inr (n, d', c')" and "ca_dataDir c = dataDir" and "dataDir \<noteq> []"
  shows "n = ca_nextSerial c" and "c' = c\<lparr>ca_nextSerial := n + 1\<rparr>"
    and "write_serial ok dataDir (n + 1) d = Some d'"
  using assms by (auto simp: allocate_serial_def Let_def split: option.splits)

lemma auth_inv_allocate:
  assumes inv: "auth_inv dataDir k s" and alloc: "allocate_serial ok (ha_disk s) (ha_ca s) = Inr (n, d', c')"
    and D: "dataDir \<noteq> []" and k: "k < 2 ^ 63"
  shows "auth_inv dataDir (Suc k) (s\<lparr>ha_ca := c', ha_disk := d', ha_nodes := ns\<rparr>)"
    and "xc_Serial l = n \<Longrightarrow> issued_ok l \<Longrightarrow> auth_inv dataDir (Suc k) (s\<lparr>ha_ca := c', ha_disk := d', ha_nodes := ns, ha_issued := ha_issued s @ [l]\<rparr>)"
proof -
  have dir: "ca_dataDir (ha_ca s) = dataDir" using inv by (simp add: auth_inv_def)
  note a = allocate_serial_cases[OF alloc dir D]
  have range: "0 \<le> n + 1" "n + 1 < 2 ^ 64" using inv k a(1) by (simp_all add: auth_inv_def)
  note rd = serial_roundtrip[OF a(3) range]
  have other: "d' x = NoFile" if "x \<noteq> dataDir" for x
    using a(3) inv that by (auto simp: write_serial_def auth_inv_def split: if_splits)
  show "auth_inv dataDir (Suc k) (s\<lparr>ha_ca := c', ha_disk := d', ha_nodes := ns\<rparr>)"
    using inv a(1,2) rd other dir by (fastforce simp: auth_inv_def)
  show "auth_inv dataDir (Suc k) (s\<lparr>ha_ca := c', ha_disk := d', ha_nodes := ns, ha_issued := ha_issued s @ [l]\<rparr>)"
    if "xc_Serial l = n" "issued_ok l"
    using inv a(1,2) rd other dir that by (fastforce simp: auth_inv_def sorted_wrt_append)
qed

lemma auth_inv_mono: "auth_inv dataDir k s \<Longrightarrow> auth_inv dataDir (Suc k) s"
  by (simp add: auth_inv_def)

lemma auth_inv_nodes: "auth_inv dataDir k (s\<lparr>ha_nodes := ns\<rparr>) = auth_inv dataDir k s"
  by (simp add: auth_inv_def)

lemma sign_csr_cases:
  assumes "sign_csr X ok csr i t v now d c = (res, d', c')"
  obtains e where "res = Inl e" and "d' = d" and "c' = c"
  | n where "res = Inl SignFailed" and "allocate_serial ok d c = Inr (n, d', c')"
  | n der where "res = Inr (der, client_template i t v now n)" and "allocate_serial ok d c = Inr (n, d', c')"
      and "i \<noteq> []" and "valid_node_type t"
  using assms by (auto simp: sign_csr_def Let_def split: if_splits csr_result.splits sum.splits option.splits)

lemma issue_server_cert_cases:
  assumes "issue_server_cert X ok cn sans v now d c = (res, d', c')"
  obtains e where "res = Inl e" and "d' = d" and "c' = c"
  | n where "res = Inl SignFailed" and "allocate_serial ok d c = Inr (n, d', c')"
  | n l where "res = Inr l" and "allocate_serial ok d c = Inr (n, d', c')" and "xc_Serial l = n" and "xc_URIs l = []"
  using assms by (auto simp: issue_server_cert_def Let_def split: if_splits sum.splits option.splits)

lemma node_register_cases:
  assumes "node_register X ok req now d c ns = (res, d', c', ns')"
  obtains (Refused) e where "res = Inl e" and "d' = d" and "c' = c" and "ns' = ns"
  | (Unsigned) e n where "res = Inl e" and "allocate_serial ok d c = Inr (n, d', c')" and "ns' = ns"
  | (Issued) n der rec where
      "res = Inr (der, client_template (rn_NodeID req) (rn_NodeType req) nodeCertValidity now n)"
      and "allocate_serial ok d c = Inr (n, d', c')" and "rn_NodeID req \<noteq> []" and "valid_node_type (rn_NodeType req)"
      and "ns' = alist_put (rn_NodeID req) rec ns" and "nr_CertSerial rec = n" and "nr_AssignedTenants rec = []"
proof -
  obtain sres sd sc where sg: "sign_csr X ok (rn_CSRPEM req) (rn_NodeID req) (rn_NodeType req) nodeCertValidity now d c = (sres, sd, sc)"
    by (cases "sign_csr X ok (rn_CSRPEM req) (rn_NodeID req) (rn_NodeType req) nodeCertValidity now d c")
  show ?thesis
  proof (cases "rn_NodeID req = [] \<or> rn_NodeType req = [] \<or> rn_CSRPEM req = []")
    case True
    then show ?thesis using assms Refused by (auto simp: node_register_def split: if_splits)
  next
    case False
    show ?thesis
      using sg
    proof (cases rule: sign_csr_cases)
      case (1 e)
      then show ?thesis using assms False sg Refused by (auto simp: node_register_def)
    next
      case (2 n)
      then show ?thesis using assms False sg Unsigned by (auto simp: node_register_def)
    next
      case (3 n der)
      let ?rec = "\<lparr>nr_ID = rn_NodeID req, nr_Type = rn_NodeType req, nr_PublicKey = rn_PublicKey req,
        nr_CertSerial = n, nr_AssignedTenants = [], nr_RegisteredAt = now, nr_LastSeen = now\<rparr>"
      have "res = Inr (der, client_template (rn_NodeID req) (rn_NodeType req) nodeCertValidity now n)"
        and "ns' = alist_put (rn_NodeID req) ?rec ns" and "d' = sd" and "c' = sc"
        using assms False sg 3(1) by (auto simp: node_register_def client_template_def)
      then show ?thesis using 3(2-4) by (intro Issued[of der n ?rec]) simp_all
    qed
  qed
qed

lemma issued_ok_client: "i \<noteq> [] \<Longrightarrow> valid_node_type t \<Longrightarrow> issued_ok (client_template i t v now n)"
  unfolding issued_ok_def by blast

lemma auth_inv_restart:
  assumes "auth_inv dataDir k s" and "dataDir \<noteq> []"
  shows "auth_inv dataDir k (auth_step X parent dataDir AuRestart s)"
proof (cases "read_serial (ha_disk s) dataDir")
  case (Inr r)
  have nofile: "x \<noteq> dataDir \<Longrightarrow> read_serial (ha_disk s) x = Inr None" for x
    using assms(1) by (simp add: auth_inv_def read_serial_def)
  have "ca_nextSerial (ha_ca s) = (case r of None \<Rightarrow> 1 | Some n \<Rightarrow> n)" "1 \<le> ca_nextSerial (ha_ca s)"
    using assms(1) Inr by (auto simp: auth_inv_def)
  then show ?thesis
    using assms Inr nofile[of parent]
    by (cases "parent = dataDir"; cases r)
      (auto simp: auth_inv_def hub_boot_def new_ca_def load_ca_def new_ca_struct_def set_data_dir_def Let_def)
qed (use assms in \<open>auto simp: auth_inv_def\<close>)

lemma auth_inv_step:
  assumes inv: "auth_inv dataDir k s" and D: "dataDir \<noteq> []" and k: "k < 2 ^ 63"
  shows "auth_inv dataDir (Suc k) (auth_step X parent dataDir e s)"
proof (cases e)
  case (AuRegister ok req now)
  obtain res d' c' ns' where r: "node_register X ok req now (ha_disk s) (ha_ca s) (ha_nodes s) = (res, d', c', ns')"
    by (cases "node_register X ok req now (ha_disk s) (ha_ca s) (ha_nodes s)")
  show ?thesis
    using r
  proof (cases rule: node_register_cases)
    case (Refused e)
    then show ?thesis using AuRegister r inv by (simp add: auth_inv_def)
  next
    case (Unsigned e n)
    then show ?thesis
      using AuRegister r auth_inv_allocate(1)[OF inv Unsigned(2) D k, of ns'] by simp
  next
    case (Issued n der rec)
    then show ?thesis
      using AuRegister r auth_inv_allocate(2)[OF inv Issued(2) D k _ issued_ok_client[OF Issued(3,4)], of nodeCertValidity now n ns']
      by (auto simp: client_template_def)
  qed
next
  case (AuServerCert ok cn sans v now)
  obtain res d' c' where r: "issue_server_cert X ok cn sans v now (ha_disk s) (ha_ca s) = (res, d', c')"
    by (cases "issue_server_cert X ok cn sans v now (ha_disk s) (ha_ca s)")
  show ?thesis
    using r
  proof (cases rule: issue_server_cert_cases)
    case (1 e)
    then show ?thesis using AuServerCert r inv by (simp add: auth_inv_def)
  next
    case (2 n)
    then show ?thesis
      using AuServerCert r auth_inv_allocate(1)[OF inv 2(2) D k, of "ha_nodes s"] by simp
  next
    case (3 n l)
    then show ?thesis
      using AuServerCert r auth_inv_allocate(2)[OF inv 3(2) D k, of l "ha_nodes s"] by (auto simp: issued_ok_def)
  qed
next
  case (AuDelete i now)
  then show ?thesis using inv by (auto simp: auth_inv_def node_delete_def revoke_def split: option.splits)
next
  case AuRestart
  then show ?thesis using auth_inv_mono[OF auth_inv_restart[OF inv D]] by simp
qed (use auth_inv_mono[OF inv] in \<open>auto simp: auth_inv_nodes split: option.splits\<close>)

lemma auth_inv_install: "dataDir \<noteq> [] \<Longrightarrow> auth_inv dataDir 0 (hub_install parent dataDir)"
  by (simp add: hub_install_def hub_boot_def new_ca_def generate_ca_def new_ca_struct_def set_data_dir_def Let_def
      auth_inv_def read_serial_def)

lemma auth_inv_run:
  assumes "auth_inv dataDir k s" and "dataDir \<noteq> []" and "k + length es \<le> 2 ^ 63"
  shows "auth_inv dataDir (k + length es) (auth_run X parent dataDir es s)"
  using assms
proof (induction es arbitrary: k s)
  case (Cons e es)
  have "auth_inv dataDir (Suc k) (auth_step X parent dataDir e s)"
    using Cons.prems by (intro auth_inv_step) simp_all
  from Cons.IH[OF this] Cons.prems show ?case by simp
qed simp

text \<open>
  No two certificates share a serial number. Over the life of a hub (registrations and server certificates that succeed or fail at any
  point, failed writes of the counter file, deletions, restarts that reload the counter from disk) the serials in the order of signing are
  strictly increasing.
\<close>

theorem serials_increase:
  assumes "dataDir \<noteq> []" and "length es \<le> 2 ^ 63"
  shows "sorted_wrt (<) (map xc_Serial (ha_issued (auth_run X parent dataDir es (hub_install parent dataDir))))"
  using auth_inv_run[OF auth_inv_install[OF assms(1)] assms(1), of es X parent] assms(2) by (simp add: auth_inv_def)

definition demo_x509 :: x509_lib where
  "demo_x509 =
     \<lparr>x_parse_csr = (\<lambda>pem. CsrParsed \<lparr>csr_CN = pem, csr_SigOK = True\<rparr>), x_sign = (\<lambda>l. Some (xc_CN l)), x_signed = (\<lambda>l. True)\<rparr>"

definition demo_register :: "string \<Rightarrow> time \<Rightarrow> auth_event" where
  "demo_register i now =
     AuRegister True \<lparr>rn_NodeID = i, rn_NodeType = ''proxy'', rn_CSRPEM = i, rn_PublicKey = []\<rparr> now"

theorem serials_increase_witness:
  "sorted_wrt (<) (map xc_Serial (ha_issued (auth_run demo_x509 ''/ca'' ''/d''
     [demo_register ''a'' 1, AuRestart, demo_register ''a'' 2] (hub_install ''/ca'' ''/d''))))"
  by (rule serials_increase) simp_all

subsection \<open>Who gets in\<close>

lemma cut_colon_append: "CHR '':'' \<notin> set a \<Longrightarrow> cut_colon (a @ CHR '':'' # b) = Some (a, b)"
  by (simp add: cut_colon_def index_byte_append)

text \<open>The node's id as it is read back: cut at the first number sign or question mark.\<close>

definition reparsed_id :: "string \<Rightarrow> string" where
  "reparsed_id i = takeWhile (\<lambda>c. c \<noteq> CHR ''?'') (takeWhile (\<lambda>c. c \<noteq> CHR ''#'') i)"

lemma takeWhile_prefix: "list_all P a \<Longrightarrow> takeWhile P (a @ b) = a @ takeWhile P b"
  by (induction a) auto

lemma parsed_client_template:
  assumes "parsed_leaf (client_template i t v now n) = Some leaf" and "valid_node_type t"
  shows "leaf = (client_template i t v now n)\<lparr>xc_URIs := node_uris (reparsed_id i) t\<rparr>"
proof -
  have t: "reparsed_id t = t" using assms(2) by (auto simp: valid_node_type_def reparsed_id_def)
  have cut: "takeWhile (\<lambda>c. c \<noteq> CHR ''?'') (takeWhile (\<lambda>c. c \<noteq> CHR ''#'') (h @ '':'' @ x)) = h @ '':'' @ reparsed_id x"
    if "h = sanNodeIDHost \<or> h = sanNodeTypeHost" for h x
    using that by (auto simp: sanNodeIDHost_def sanNodeTypeHost_def reparsed_id_def)
  have "reparse_uri (sanSchemeGateway, h @ '':'' @ x) = Some w \<Longrightarrow> w = (sanSchemeGateway, h @ '':'' @ reparsed_id x)"
    if "h = sanNodeIDHost \<or> h = sanNodeTypeHost" for h x w
    using cut[OF that] by (simp add: reparse_uri_def Let_def split: if_splits)
  then show ?thesis
    using assms(1) t by (auto simp: parsed_leaf_def client_template_def node_uris_def split: option.splits)
qed

lemma extract_client_template:
  assumes "i \<noteq> []" and "valid_node_type t"
  shows "extract_identity (client_template i t v now n) = Inr (i, t)"
proof -
  have "cut_colon (''node-id:'' @ i) = Some (''node-id'', i)" "cut_colon (''node-type:'' @ t) = Some (''node-type'', t)"
    using cut_colon_append[of "''node-id''" i] cut_colon_append[of "''node-type''" t] by simp_all
  then have "identity_loop (node_uris i t) [] [] = (i, t)"
    by (simp add: node_uris_def sanSchemeGateway_def sanNodeIDHost_def sanNodeTypeHost_def)
  moreover have "t \<noteq> []" using assms(2) by (auto simp: valid_node_type_def)
  ultimately show ?thesis using assms(1) by (simp add: extract_identity_def client_template_def)
qed

text \<open>Of the certificate issued to \<open>i\<close>, read back, only the identity \<open>i\<close> is accepted.\<close>

lemma extract_parsed_template:
  assumes "parsed_leaf (client_template i t v now n) = Some leaf" and "valid_node_type t" and "i \<noteq> []" and "extract_identity leaf = Inr (j, u)"
  shows "j = i \<and> u = t"
proof -
  note l = parsed_client_template[OF assms(1,2)]
  have "cut_colon (''node-id:'' @ x) = Some (''node-id'', x)" "cut_colon (''node-type:'' @ x) = Some (''node-type'', x)" for x
    using cut_colon_append[of "''node-id''" x] cut_colon_append[of "''node-type''" x] by simp_all
  then have "identity_loop (xc_URIs leaf) [] [] = (reparsed_id i, t)"
    by (simp add: l node_uris_def sanSchemeGateway_def sanNodeIDHost_def sanNodeTypeHost_def)
  moreover have "xc_CN leaf = i" by (simp add: l client_template_def)
  ultimately show ?thesis using assms(3,4) by (auto simp: extract_identity_def split: if_splits)
qed

lemma extract_no_uris: "xc_URIs l = [] \<Longrightarrow> extract_identity l = Inl MissingNodeID"
  by (simp add: extract_identity_def)

lemma node_register_proof:
  assumes "node_register X ok req now d c ns = (Inr (der, cert), d', c', ns')"
  shows "\<exists>r. x_parse_csr X (rn_CSRPEM req) = CsrParsed r \<and> csr_SigOK r \<and> csr_CN r = rn_NodeID req"
  using assms by (auto simp: node_register_def sign_csr_def Let_def
      split: if_splits csr_result.splits sum.splits option.splits prod.splits)

text \<open>A node certificate of the log goes back to a registration request whose certificate request was signed and named the node.\<close>

definition enrolled :: "x509_lib \<Rightarrow> auth_event list \<Rightarrow> string \<Rightarrow> string \<Rightarrow> bool" where
  "enrolled X es i t \<longleftrightarrow>
     (\<exists>ok req now r. AuRegister ok req now \<in> set es \<and> rn_NodeID req = i \<and> rn_NodeType req = t
        \<and> x_parse_csr X (rn_CSRPEM req) = CsrParsed r \<and> csr_SigOK r \<and> csr_CN r = i)"

lemma enrolled_mono: "enrolled X es i t \<Longrightarrow> set es \<subseteq> set es' \<Longrightarrow> enrolled X es' i t"
  unfolding enrolled_def by blast

definition provenance :: "x509_lib \<Rightarrow> auth_event list \<Rightarrow> leaf_cert \<Rightarrow> bool" where
  "provenance X es l \<longleftrightarrow>
     xc_URIs l = []
     \<or> (\<exists>i t v now n. i \<noteq> [] \<and> valid_node_type t \<and> l = client_template i t v now n \<and> enrolled X es i t)"

lemma provenance_client:
  "i \<noteq> [] \<Longrightarrow> valid_node_type t \<Longrightarrow> enrolled X es i t \<Longrightarrow> provenance X es (client_template i t v now n)"
  unfolding provenance_def by blast

lemma provenance_mono: "provenance X es l \<Longrightarrow> set es \<subseteq> set es' \<Longrightarrow> provenance X es' l"
  unfolding provenance_def using enrolled_mono by blast

lemma provenance_step:
  assumes "l \<in> set (ha_issued (auth_step X parent dataDir e s))" and "l \<notin> set (ha_issued s)"
  shows "provenance X [e] l"
proof (cases e)
  case (AuRegister ok req now)
  obtain res d' c' ns' where r: "node_register X ok req now (ha_disk s) (ha_ca s) (ha_nodes s) = (res, d', c', ns')"
    by (cases "node_register X ok req now (ha_disk s) (ha_ca s) (ha_nodes s)")
  with assms AuRegister obtain der where res: "res = Inr (der, l)" by (auto split: sum.splits)
  from node_register_proof[OF r[unfolded res]] have enr: "enrolled X [e] (rn_NodeID req) (rn_NodeType req)"
    using AuRegister unfolding enrolled_def by auto
  show ?thesis
    using r by (cases rule: node_register_cases) (use res enr in \<open>auto intro: provenance_client\<close>)
next
  case (AuServerCert ok cn sans v now)
  obtain res d' c' where r: "issue_server_cert X ok cn sans v now (ha_disk s) (ha_ca s) = (res, d', c')"
    by (cases "issue_server_cert X ok cn sans v now (ha_disk s) (ha_ca s)")
  with assms AuServerCert have res: "res = Inr l" by (auto split: sum.splits)
  show ?thesis
    using r by (cases rule: issue_server_cert_cases) (use res in \<open>auto simp: provenance_def\<close>)
next
  case AuRestart
  then show ?thesis using assms by (auto simp: hub_boot_def split: sum.splits)
qed (use assms in \<open>auto split: option.splits prod.splits\<close>)

lemma provenance_run:
  "l \<in> set (ha_issued (auth_run X parent dataDir es s)) \<Longrightarrow> l \<notin> set (ha_issued s) \<Longrightarrow> provenance X es l"
proof (induction es arbitrary: s)
  case (Cons e es)
  show ?case
  proof (cases "l \<in> set (ha_issued (auth_step X parent dataDir e s))")
    case True
    then show ?thesis using provenance_step[OF True Cons.prems(2)] provenance_mono[of X "[e]" l "e # es"] by auto
  next
    case False
    then show ?thesis using Cons.IH[OF _ False] Cons.prems(1) provenance_mono[of X es l "e # es"] by auto
  qed
qed simp

text \<open>
  C13 (safety). Only enrolled nodes get in, under their own name. Over the life of a hub, if every parsed certificate with a valid signature is one that the hub signed, as it reads after encoding and parsing, then
  a peer that \<^verbatim>\<open>VerifyPeer\<close> accepts as node \<open>i\<close> of type \<open>t\<close> presents a certificate that is not revoked and that the hub issued for exactly that node and type, on a registration request with a correctly
  signed certificate request in the node's name. The URI names do not survive the encoding unchanged: a number sign or a question mark in a node's id cuts the rest off, so the name in them may be that of another node; the
  comparison with the common name keeps such a certificate out. A server certificate is never accepted.
\<close>

theorem verify_peer_sound:
  assumes "s = auth_run X parent dataDir es (hub_install parent dataDir)"
    and "\<forall>l. x_signed X l \<longrightarrow> (\<exists>tmpl. tmpl \<in> set (ha_issued s) \<and> parsed_leaf tmpl = Some l)"
    and "verify_peer X msg (ha_ca s) (Some (leaf # rest)) = Inr (i, t)"
  shows "\<not> is_revoked (ha_ca s) (xc_Serial leaf) \<and> valid_node_type t \<and> enrolled X es i t
    \<and> (\<exists>v now n. client_template i t v now n \<in> set (ha_issued s) \<and> parsed_leaf (client_template i t v now n) = Some leaf)"
proof -
  have acc: "x_signed X leaf" "\<not> is_revoked (ha_ca s) (xc_Serial leaf)" "extract_identity leaf = Inr (i, t)"
    using assms(3) by (simp_all add: verify_peer_def split: if_splits)
  then obtain tmpl where tm: "tmpl \<in> set (ha_issued s)" "parsed_leaf tmpl = Some leaf" using assms(2) by blast
  have "tmpl \<notin> set (ha_issued (hub_install parent dataDir))"
    by (simp add: hub_install_def hub_boot_def new_ca_def generate_ca_def)
  with tm(1) assms(1) have "provenance X es tmpl" using provenance_run by blast
  moreover have "xc_URIs tmpl \<noteq> []" using acc(3) tm(2) extract_no_uris[of leaf] by (auto simp: parsed_leaf_def)
  ultimately obtain j u v now n where l: "tmpl = client_template j u v now n" "j \<noteq> []" "valid_node_type u" "enrolled X es j u"
    unfolding provenance_def by blast
  have "i = j \<and> t = u" by (rule extract_parsed_template[OF tm(2)[unfolded l(1)] l(3,2) acc(3)])
  then show ?thesis using acc(2) l tm by blast
qed

text \<open>Without the comparison, the certificate of a node that calls itself \<^verbatim>\<open>victim#x\<close> would be taken for that of \<^verbatim>\<open>victim\<close>.\<close>

lemma fragment_in_id_refused:
  "map_option extract_identity (parsed_leaf (client_template ''victim#x'' ''proxy'' nodeCertValidity 7 1)) = Some (Inl (CNDisagrees ''victim#x'' ''victim''))"
  by code_simp

text \<open>The library of the example, restricted to the certificates of a log.\<close>

definition log_x509 :: "leaf_cert list \<Rightarrow> x509_lib" where
  "log_x509 ls = demo_x509\<lparr>x_signed := (\<lambda>l. l \<in> set ls)\<rparr>"

theorem verify_peer_sound_witness:
  "enrolled (log_x509 [client_template ''a'' ''proxy'' nodeCertValidity 7 1]) [demo_register ''a'' 7] ''a'' ''proxy''"
proof -
  let ?l = "client_template ''a'' ''proxy'' nodeCertValidity 7 1"
  let ?X = "log_x509 [?l]"
  let ?s = "auth_run ?X ''/ca'' ''/d'' [demo_register ''a'' 7] (hub_install ''/ca'' ''/d'')"
  have issued: "ha_issued ?s = [?l]" and revoked: "ca_revoked (ha_ca ?s) = []"
    by (simp_all add: demo_register_def hub_install_def hub_boot_def new_ca_def generate_ca_def new_ca_struct_def
        set_data_dir_def Let_def read_serial_def node_register_def sign_csr_def log_x509_def demo_x509_def
        valid_node_type_def nodeCertValidity_def second_def allocate_serial_def write_serial_def)
  have leaf: "parsed_leaf ?l = Some ?l" by code_simp
  have "verify_peer ?X [] (ha_ca ?s) (Some [?l]) = Inr (''a'', ''proxy'')"
    using extract_client_template[of "''a''" "''proxy''" nodeCertValidity 7 1] revoked
    by (simp add: verify_peer_def is_revoked_def valid_node_type_def log_x509_def)
  moreover have "\<forall>l. x_signed ?X l \<longrightarrow> (\<exists>tmpl. tmpl \<in> set (ha_issued ?s) \<and> parsed_leaf tmpl = Some l)" using issued leaf by (simp add: log_x509_def)
  ultimately show ?thesis using verify_peer_sound[OF refl] by blast
qed

subsection \<open>Revocation\<close>

lemma is_revoked_revoke [simp]: "is_revoked (revoke n now c) m \<longleftrightarrow> m = n \<or> is_revoked c m"
  by (simp add: is_revoked_def revoke_def map_of_alist_put)

lemma is_revoked_alloc:
  "allocate_serial ok d c = Inr (n, d', c') \<Longrightarrow> is_revoked c' m = is_revoked c m"
  by (auto simp: allocate_serial_def Let_def is_revoked_def split: if_splits option.splits)

lemma is_revoked_register:
  assumes "node_register X ok req now d c ns = (res, d', c', ns')"
  shows "is_revoked c' m = is_revoked c m"
  using assms by (cases rule: node_register_cases) (auto dest: is_revoked_alloc)

lemma is_revoked_step:
  assumes "is_revoked (ha_ca s) m" and "e \<noteq> AuRestart"
  shows "is_revoked (ha_ca (auth_step X parent dataDir e s)) m"
proof (cases e)
  case (AuRegister ok req now)
  then show ?thesis
    using assms(1) is_revoked_register[of X ok req now "ha_disk s" "ha_ca s" "ha_nodes s"]
    by (auto split: prod.splits)
next
  case (AuServerCert ok cn sans v now)
  obtain res d' c' where r: "issue_server_cert X ok cn sans v now (ha_disk s) (ha_ca s) = (res, d', c')"
    by (cases "issue_server_cert X ok cn sans v now (ha_disk s) (ha_ca s)")
  then have "is_revoked c' m = is_revoked (ha_ca s) m"
    by (cases rule: issue_server_cert_cases) (auto dest: is_revoked_alloc)
  then show ?thesis using assms(1) r AuServerCert by simp
qed (use assms in \<open>auto simp: node_delete_def split: option.splits\<close>)

lemma is_revoked_run:
  "is_revoked (ha_ca s) m \<Longrightarrow> AuRestart \<notin> set es \<Longrightarrow> is_revoked (ha_ca (auth_run X parent dataDir es s)) m"
proof (induction es arbitrary: s)
  case (Cons e es)
  then have "is_revoked (ha_ca (auth_step X parent dataDir e s)) m"
    by (intro is_revoked_step) auto
  then show ?case using Cons by simp
qed simp

text \<open>
  Deleting a node shuts its current certificate out until the hub restarts: whatever else happens in between, no peer with that serial
  is accepted; and the deletion revokes no other certificate.
\<close>

theorem deleted_node_stays_out:
  assumes "map_of (ha_nodes s0) i = Some r" and "s1 = auth_step X parent dataDir (AuDelete i now) s0"
    and "s = auth_run X parent dataDir es s1" and "AuRestart \<notin> set es"
  shows "(xc_Serial leaf = nr_CertSerial r \<longrightarrow>
            (\<exists>e. verify_peer X msg (ha_ca s) (Some (leaf # rest)) = Inl e))
    \<and> node_get (ha_nodes s1) i = None
    \<and> (\<forall>m. m \<noteq> nr_CertSerial r \<longrightarrow> is_revoked (ha_ca s1) m = is_revoked (ha_ca s0) m)"
proof -
  have s1: "ha_ca s1 = revoke (nr_CertSerial r) now (ha_ca s0)" "ha_nodes s1 = alist_del i (ha_nodes s0)"
    using assms(1,2) by (simp_all add: node_delete_def)
  then have "is_revoked (ha_ca s) (nr_CertSerial r)"
    unfolding assms(3) by (intro is_revoked_run) (simp_all add: assms(4))
  then show ?thesis using s1 by (auto simp: verify_peer_def node_get_def map_of_alist_del)
qed

theorem deleted_node_stays_out_witness:
  "let s0 = auth_run demo_x509 ''/ca'' ''/d'' [demo_register ''a'' 7] (hub_install ''/ca'' ''/d'');
       s = auth_run demo_x509 ''/ca'' ''/d'' [demo_register ''b'' 9] (auth_step demo_x509 ''/ca'' ''/d'' (AuDelete ''a'' 8) s0)
   in \<exists>e. verify_peer demo_x509 [] (ha_ca s) (Some [client_template ''a'' ''proxy'' nodeCertValidity 7 1]) = Inl e"
proof -
  let ?s0 = "auth_run demo_x509 ''/ca'' ''/d'' [demo_register ''a'' 7] (hub_install ''/ca'' ''/d'')"
  obtain r where "map_of (ha_nodes ?s0) ''a'' = Some r" "nr_CertSerial r = 1"
    by (simp add: demo_register_def hub_install_def hub_boot_def new_ca_def generate_ca_def new_ca_struct_def
        set_data_dir_def Let_def read_serial_def node_register_def sign_csr_def demo_x509_def client_template_def
        valid_node_type_def nodeCertValidity_def second_def allocate_serial_def write_serial_def)
  from deleted_node_stays_out[OF this(1) refl refl, of "[demo_register ''b'' 9]"] this(2)
  show ?thesis by (simp add: Let_def demo_register_def client_template_def)
qed

text \<open>
  Deletion leaves the earlier certificates of a node alone. When a node whose certificate reads back as it was issued registers twice, the record keeps only the second serial; after the
  node is deleted, the first certificate is still accepted under the node's name.
\<close>

theorem old_certificate_survives_delete:
  assumes "node_register X ok1 req1 now1 d c ns = (Inr (der1, cert1), d1, c1, ns1)"
    and "node_register X ok2 req2 now2 d1 c1 ns1 = (Inr (der2, cert2), d2, c2, ns2)"
    and "rn_NodeID req2 = rn_NodeID req1" and "node_delete (rn_NodeID req1) now3 c2 ns2 = (c3, ns3)"
    and "parsed_leaf cert1 = Some cert1" and "x_signed X cert1" and "\<not> is_revoked c (xc_Serial cert1)" and "ca_dataDir c \<noteq> []"
  shows "verify_peer X msg c3 (Some [cert1]) = Inr (rn_NodeID req1, rn_NodeType req1)
    \<and> node_get ns3 (rn_NodeID req1) = None"
proof -
  obtain n1 where 1: "cert1 = client_template (rn_NodeID req1) (rn_NodeType req1) nodeCertValidity now1 n1"
      "allocate_serial ok1 d c = Inr (n1, d1, c1)" "rn_NodeID req1 \<noteq> []" "valid_node_type (rn_NodeType req1)"
    using assms(1) by (cases rule: node_register_cases) auto
  obtain n2 r where 2: "allocate_serial ok2 d1 c1 = Inr (n2, d2, c2)" "ns2 = alist_put (rn_NodeID req1) r ns1" "nr_CertSerial r = n2"
    using assms(2,3) by (cases rule: node_register_cases) auto
  have n: "n1 = ca_nextSerial c" "c1 = c\<lparr>ca_nextSerial := n1 + 1\<rparr>"
    using allocate_serial_cases[OF 1(2) refl assms(8)] by simp_all
  have "n2 = n1 + 1" using allocate_serial_cases(1)[OF 2(1) refl] assms(8) n by simp
  moreover have "c3 = revoke n2 now3 c2" "ns3 = alist_del (rn_NodeID req1) ns2"
    using assms(4) 2 by (simp_all add: node_delete_def map_of_alist_put)
  moreover have "is_revoked c2 n1 = is_revoked c n1"
    using is_revoked_register[OF assms(1)] is_revoked_register[OF assms(2)] by simp
  moreover have "xc_Serial cert1 = n1" by (simp add: 1(1) client_template_def)
  ultimately show ?thesis
    using assms(6,7) extract_client_template[OF 1(3,4)]
    by (simp add: verify_peer_def node_get_def map_of_alist_del 1(1))
qed

lemma demo_register_twice:
  "\<exists>c ns d1 c1 ns1 d2 c2 ns2 req der. rn_NodeID req = ''a'' \<and> rn_NodeType req = ''proxy''
     \<and> node_register demo_x509 True req 7 (\<lambda>_. NoFile) c ns = (Inr (der, client_template ''a'' ''proxy'' nodeCertValidity 7 1), d1, c1, ns1)
     \<and> node_register demo_x509 True req 8 d1 c1 ns1 = (Inr (der, client_template ''a'' ''proxy'' nodeCertValidity 8 2), d2, c2, ns2)
     \<and> \<not> is_revoked c 1 \<and> ca_dataDir c \<noteq> []"
proof -
  let ?req = "\<lparr>rn_NodeID = ''a'', rn_NodeType = ''proxy'', rn_CSRPEM = ''a'', rn_PublicKey = []\<rparr>"
  let ?c = "new_ca_struct\<lparr>ca_dataDir := ''/d''\<rparr>"
  have "rn_NodeID ?req = ''a'' \<and> rn_NodeType ?req = ''proxy'' \<and> \<not> is_revoked ?c 1 \<and> ca_dataDir ?c \<noteq> []"
    by (simp add: new_ca_struct_def is_revoked_def)
  moreover have "\<exists>d1 c1 ns1 d2 c2 ns2 der.
     node_register demo_x509 True ?req 7 (\<lambda>_. NoFile) ?c [] = (Inr (der, client_template ''a'' ''proxy'' nodeCertValidity 7 1), d1, c1, ns1)
     \<and> node_register demo_x509 True ?req 8 d1 c1 ns1 = (Inr (der, client_template ''a'' ''proxy'' nodeCertValidity 8 2), d2, c2, ns2)"
    by (simp add: node_register_def sign_csr_def demo_x509_def valid_node_type_def nodeCertValidity_def second_def
        allocate_serial_def write_serial_def new_ca_struct_def Let_def client_template_def)
  ultimately show ?thesis by metis
qed

theorem old_certificate_survives_delete_witness:
  "\<exists>c. verify_peer demo_x509 [] c (Some [client_template ''a'' ''proxy'' nodeCertValidity 7 1]) = Inr (''a'', ''proxy'')
     \<and> is_revoked c 2"
proof -
  obtain c ns d1 c1 ns1 d2 c2 ns2 req der where r: "rn_NodeID req = ''a''" "rn_NodeType req = ''proxy''"
    and r1: "node_register demo_x509 True req 7 (\<lambda>_. NoFile) c ns = (Inr (der, client_template ''a'' ''proxy'' nodeCertValidity 7 1), d1, c1, ns1)"
    and r2: "node_register demo_x509 True req 8 d1 c1 ns1 = (Inr (der, client_template ''a'' ''proxy'' nodeCertValidity 8 2), d2, c2, ns2)"
    and c: "\<not> is_revoked c 1" "ca_dataDir c \<noteq> []"
    using demo_register_twice by blast
  obtain c3 ns3 where del: "node_delete ''a'' 9 c2 ns2 = (c3, ns3)" by (cases "node_delete ''a'' 9 c2 ns2")
  have "is_revoked c3 2"
    using r2 r del by (cases rule: node_register_cases)
      (auto simp: node_delete_def map_of_alist_put client_template_def)
  moreover have "parsed_leaf (client_template ''a'' ''proxy'' nodeCertValidity 7 1) = Some (client_template ''a'' ''proxy'' nodeCertValidity 7 1)" by code_simp
  ultimately show ?thesis
    using old_certificate_survives_delete[OF r1 r2 refl, of 9 c3 ns3] r c del
    by (auto simp: demo_x509_def client_template_def)
qed

lemma load_ca_unrevoked: "\<exists>c. load_ca True parent d = Inr c \<and> ca_revoked c = []"
  by (cases "read_serial d parent" rule: sum.exhaust; cases "projr (read_serial d parent)")
    (simp_all add: load_ca_def new_ca_struct_def Let_def)

lemma set_data_dir_revoked: "ca_revoked (snd (set_data_dir ok dir d c)) = ca_revoked c"
  by (cases "read_serial d dir" rule: sum.exhaust; cases "projr (read_serial d dir)")
    (simp_all add: set_data_dir_def Let_def)

text \<open>A restart forgets every revocation: the list is not written anywhere.\<close>

theorem restart_forgets_revocations:
  "\<not> is_revoked (ha_ca (auth_step X parent dataDir AuRestart s)) n"
  using load_ca_unrevoked[of parent "ha_disk s"] set_data_dir_revoked[of True dataDir "ha_disk s"]
  by (auto simp: hub_boot_def new_ca_def is_revoked_def)

end
