(* ===== verification/Hubapi.thy ===== *)
theory Hubapi
  imports Tenants Hubca
begin

text \<open>
  The hub's HTTP surface: the handlers of \<^verbatim>\<open>internal/hub/api.go\<close> behind \<^verbatim>\<open>requireMTLS\<close>, and the per-node filter of the event
  stream in \<^verbatim>\<open>internal/hub/stream.go\<close>. A request is the peer's certificates and the matched route with its path values and decoded body
  (\<open>None\<close> when the decoder fails); matching patterns and decoding JSON are \<^verbatim>\<open>net/http\<close> and \<^verbatim>\<open>encoding/json\<close>. A response is a status and
  a body. The theorems show which requests can change the hub at all, and what exactly a node is sent on its stream.
\<close>

subsection \<open>The stream filter\<close>

text \<open>The JSON decoders of the payloads.\<close>

record tenant_decoders =
  tu_snapshot :: "string \<Rightarrow> (tenant_info list \<times> string \<times> 64 word) option"
  tu_info :: "string \<Rightarrow> tenant_info option"
  tu_delete :: "string \<Rightarrow> string option"

definition stream_allow :: "tenant_decoders \<Rightarrow> node_store option \<Rightarrow> config_stream_event \<Rightarrow> string \<Rightarrow> bool" where
  "stream_allow U nodes ev nodeID =
     (case nodes of
        None \<Rightarrow> True
      | Some ns \<Rightarrow>
          if nodeID = [] then True
          else if ev_Type ev = EventGlobalsUpdate then True
          else if ev_Type ev = EventSnapshot then True
          else if ev_Type ev = EventTenantUpsert then
            (case tu_info U (ev_Data ev) of None \<Rightarrow> False | Some ti \<Rightarrow> tenant_allowed ns nodeID (ti_Host ti))
          else if ev_Type ev = EventTenantDelete then
            (case tu_delete U (ev_Data ev) of None \<Rightarrow> False | Some host \<Rightarrow> tenant_allowed ns nodeID host)
          else True)"

definition filter_snapshot ::
  "tenant_encoders \<Rightarrow> tenant_decoders \<Rightarrow> node_store option \<Rightarrow> config_stream_event \<Rightarrow> string \<Rightarrow> config_stream_event" where
  "filter_snapshot J U nodes ev nodeID =
     (case nodes of
        None \<Rightarrow> ev
      | Some ns \<Rightarrow>
          if nodeID = [] then ev
          else
            (case tu_snapshot U (ev_Data ev) of
               None \<Rightarrow> ev
             | Some (tenants, globals, version) \<Rightarrow>
                 (case tj_snapshot J (filter (\<lambda>ti. tenant_allowed ns nodeID (ti_Host ti)) tenants) globals version of
                    None \<Rightarrow> ev
                  | Some raw \<Rightarrow> ev\<lparr>ev_Data := raw\<rparr>)))"

text \<open>
  The loop of \<^verbatim>\<open>ServeHTTP\<close> over the events it receives, each with the node store at that time; the result is what it hands to
  \<^verbatim>\<open>writeSSE\<close>. The n-th write fails where \<open>broken n\<close>, which ends the stream.
\<close>

definition stream_one ::
  "tenant_encoders \<Rightarrow> tenant_decoders \<Rightarrow> string \<Rightarrow> node_store option \<times> config_stream_event \<Rightarrow> config_stream_event option" where
  "stream_one J U nodeID x =
     (case x of (nodes, ev) \<Rightarrow>
        if \<not> stream_allow U nodes ev nodeID then None
        else if ev_Type ev = EventSnapshot then Some (filter_snapshot J U nodes ev nodeID)
        else Some ev)"

fun stream_loop ::
  "tenant_encoders \<Rightarrow> tenant_decoders \<Rightarrow> string \<Rightarrow> (nat \<Rightarrow> bool) \<Rightarrow> nat \<Rightarrow> (node_store option \<times> config_stream_event) list
     \<Rightarrow> config_stream_event list" where
  "stream_loop J U nodeID broken n [] = []"
| "stream_loop J U nodeID broken n (x # xs) =
     (case stream_one J U nodeID x of
        None \<Rightarrow> stream_loop J U nodeID broken n xs
      | Some ev \<Rightarrow> if broken n then [] else ev # stream_loop J U nodeID broken (Suc n) xs)"

text \<open>The mirror events among those of a stream; the other ones come from the tenant registry. No filter applies to them.\<close>

definition is_mirror_event :: "config_stream_event \<Rightarrow> bool" where
  "is_mirror_event ev \<longleftrightarrow> ev_Type ev \<in> {EventMirrorSnapshot, EventMirrorUpsert, EventMirrorDelete}"

lemma stream_one_mirror: "is_mirror_event ev \<Longrightarrow> stream_one J U nodeID (nodes, ev) = Some ev"
  by (auto simp: is_mirror_event_def stream_one_def stream_allow_def EventSnapshot_def EventTenantUpsert_def EventTenantDelete_def
      EventMirrorSnapshot_def EventMirrorUpsert_def EventMirrorDelete_def split: option.split)

lemma stream_one_type: "stream_one J U nodeID (nodes, ev) = Some ev' \<Longrightarrow> ev_Type ev' = ev_Type ev"
  by (auto simp: stream_one_def filter_snapshot_def split: if_splits option.splits prod.splits)

subsection \<open>Requests and responses\<close>

datatype api_call =
    ListTenants
  | GetTenant string
  | PutTenant string "tenant_conf option"
  | DeleteTenant string
  | GetGlobals
  | PutGlobals "globals_conf option"
  | RegisterNode "register_request option"
  | ListNodes
  | DeleteNode string
  | ConfigStream
  | ListMirrors
  | GetMirror string
  | PutMirror string "mirror_health option"
  | DeleteMirror string
  | ForceBlockMirror string "string option"
  | UnblockMirror string
  | CheckMirrors
  | GetCheckHostSettings
  | PutCheckHostSettings "monitor_config option"
  | Torpool string

datatype api_body =
    NoBody
  | ErrorBody string
  | TenantsBody "tenant_conf list"
  | TenantBody tenant_conf
  | GlobalsBody globals_conf
  | NodesBody "node_record list"
  | RegisterBody string leaf_cert
  | MirrorsBody "mirror_health list"
  | MirrorBody mirror_health
  | SettingsBody monitor_config
  | StatusBody string
  | StreamBody string
  | ForwardedBody string

type_synonym api_response = "int \<times> api_body"

definition api_error :: "int \<Rightarrow> api_response" where
  "api_error status =
     (status, ErrorBody
        (if status = 400 then ''bad request'' else if status = 401 then ''unauthorized'' else if status = 403 then ''forbidden''
         else if status = 404 then ''not found'' else if status = 409 then ''conflict'' else if status = 502 then ''bad gateway''
         else if status = 503 then ''service unavailable'' else if status = 500 then ''internal error'' else ''error''))"

definition json_error :: "int \<Rightarrow> string \<Rightarrow> api_response" where
  "json_error status msg = (status, ErrorBody msg)"

text \<open>The hub: tenant and mirror registries, authority and nodes, the settings file, and whether a monitor and a Tor pool are attached.\<close>

record hub_state =
  hs_tenants :: tenant_hub
  hs_mirrors :: "mirror_hub option"
  hs_monitor :: "monitor_config option"
  hs_ca :: cert_authority
  hs_disk :: disk
  hs_nodes :: node_store
  hs_settings :: "dirent option"
  hs_torpool :: bool

text \<open>The libraries, and the outcomes of the environment for one request.\<close>

record api_env =
  ae_X :: x509_lib
  ae_T :: tenant_env
  ae_J :: tenant_encoders
  ae_M :: hub_env
  ae_yaml_settings :: "monitor_config \<Rightarrow> string option"
  ae_unyaml_settings :: "string \<Rightarrow> monitor_config option"
  ae_quote :: "string \<Rightarrow> string"
  ae_sig_msg :: string
  ae_now :: time
  ae_ok :: bool
  ae_ctx :: bool
  ae_ctx' :: bool
  ae_client :: "string \<Rightarrow> (string \<times> node_check) list option"
  ae_forward :: "string \<Rightarrow> (int \<times> string) option"

subsection \<open>Tenant handlers\<close>

definition handle_list_tenants :: "hub_state \<Rightarrow> api_response" where
  "handle_list_tenants s =
     (200, TenantsBody (map snd (sort_key fst (snd (tenant_snapshot_of (th_reg (hs_tenants s)))))))"

definition handle_get_tenant :: "string \<Rightarrow> hub_state \<Rightarrow> api_response" where
  "handle_get_tenant host s =
     (case tenant_get (th_reg (hs_tenants s)) host of
        None \<Rightarrow> json_error 404 ''tenant not found''
      | Some t \<Rightarrow> (200, TenantBody t))"

text \<open>A handler that panics or blocks sends no response: \<open>None\<close>.\<close>

definition finish_tenant :: "tenant_outcome \<Rightarrow> int \<Rightarrow> api_response \<Rightarrow> api_response option" where
  "finish_tenant oc status ok =
     (case oc of TOk \<Rightarrow> Some ok | TErr e \<Rightarrow> Some (api_error status) | TPanic \<Rightarrow> None | TBlocked \<Rightarrow> None)"

definition handle_put_tenant :: "api_env \<Rightarrow> string \<Rightarrow> tenant_conf option \<Rightarrow> hub_state \<Rightarrow> api_response option \<times> hub_state" where
  "handle_put_tenant A host body s =
     (case body of
        None \<Rightarrow> (Some (api_error 400), s)
      | Some t0 \<Rightarrow>
          (let t = (if tc_Host t0 = [] then t0\<lparr>tc_Host := host\<rparr> else t0) in
           if tc_Host t \<noteq> host
           then (Some (json_error 400 (''body host '' @ ae_quote A (tc_Host t) @ '' does not match path host '' @ ae_quote A host)), s)
           else
             (case tenant_publish (ae_T A) (ae_J A) (ae_now A) (upsert_tenant (ae_T A) (ae_ok A) (ae_ctx A) t (th_reg (hs_tenants s))) (hs_tenants s) of
                (oc, h) \<Rightarrow> (finish_tenant oc 400 (200, TenantBody t), s\<lparr>hs_tenants := h\<rparr>))))"

definition handle_delete_tenant :: "api_env \<Rightarrow> string \<Rightarrow> hub_state \<Rightarrow> api_response option \<times> hub_state" where
  "handle_delete_tenant A host s =
     (case tenant_publish (ae_T A) (ae_J A) (ae_now A) (delete_tenant (ae_T A) (ae_ok A) (ae_ctx A) host (th_reg (hs_tenants s))) (hs_tenants s) of
        (oc, h) \<Rightarrow> (finish_tenant oc 500 (204, NoBody), s\<lparr>hs_tenants := h\<rparr>))"

definition handle_get_globals :: "hub_state \<Rightarrow> api_response" where
  "handle_get_globals s = (200, GlobalsBody (fst (tenant_snapshot_of (th_reg (hs_tenants s)))))"

definition handle_put_globals :: "api_env \<Rightarrow> globals_conf option \<Rightarrow> hub_state \<Rightarrow> api_response option \<times> hub_state" where
  "handle_put_globals A body s =
     (case body of
        None \<Rightarrow> (Some (api_error 400), s)
      | Some g \<Rightarrow>
          (case tenant_publish (ae_T A) (ae_J A) (ae_now A) (set_globals (ae_T A) (ae_ok A) (ae_ctx A) g (th_reg (hs_tenants s))) (hs_tenants s) of
             (oc, h) \<Rightarrow> (finish_tenant oc 500 (200, GlobalsBody g), s\<lparr>hs_tenants := h\<rparr>)))"

subsection \<open>Node handlers\<close>

definition handle_register_node :: "api_env \<Rightarrow> register_request option \<Rightarrow> hub_state \<Rightarrow> api_response \<times> hub_state" where
  "handle_register_node A body s =
     (case body of
        None \<Rightarrow> (api_error 400, s)
      | Some req \<Rightarrow>
          (case node_register (ae_X A) (ae_ok A) req (ae_now A) (hs_disk s) (hs_ca s) (hs_nodes s) of
             (r, d, c, ns) \<Rightarrow>
               (let s' = s\<lparr>hs_disk := d, hs_ca := c, hs_nodes := ns\<rparr>
                in case r of Inl e \<Rightarrow> (api_error 400, s') | Inr (der, cert) \<Rightarrow> ((201, RegisterBody der cert), s'))))"

definition handle_list_nodes :: "hub_state \<Rightarrow> api_response" where
  "handle_list_nodes s = (200, NodesBody (node_list (hs_nodes s)))"

definition handle_delete_node :: "api_env \<Rightarrow> string \<Rightarrow> hub_state \<Rightarrow> api_response \<times> hub_state" where
  "handle_delete_node A i s =
     (case node_delete i (ae_now A) (hs_ca s) (hs_nodes s) of
        (c, ns) \<Rightarrow> ((204, NoBody), s\<lparr>hs_ca := c, hs_nodes := ns\<rparr>))"

subsection \<open>Mirror handlers\<close>

definition mirrors_disabled :: api_response where
  "mirrors_disabled = json_error 503 ''mirror registry disabled''"

definition handle_list_mirrors :: "hub_state \<Rightarrow> api_response" where
  "handle_list_mirrors s =
     (case hs_mirrors s of None \<Rightarrow> mirrors_disabled | Some m \<Rightarrow> (200, MirrorsBody (mirror_list (hb_reg m))))"

definition handle_get_mirror :: "string \<Rightarrow> hub_state \<Rightarrow> api_response" where
  "handle_get_mirror host s =
     (case hs_mirrors s of
        None \<Rightarrow> mirrors_disabled
      | Some m \<Rightarrow>
          (case mirror_get (hb_reg m) host of None \<Rightarrow> json_error 404 ''mirror not found'' | Some mh \<Rightarrow> (200, MirrorBody mh)))"

definition handle_put_mirror :: "api_env \<Rightarrow> string \<Rightarrow> mirror_health option \<Rightarrow> hub_state \<Rightarrow> api_response \<times> hub_state" where
  "handle_put_mirror A host body s =
     (case hs_mirrors s of
        None \<Rightarrow> (mirrors_disabled, s)
      | Some m \<Rightarrow>
          (case body of
             None \<Rightarrow> (api_error 400, s)
           | Some mh0 \<Rightarrow>
               (let mh = (if mh_Host mh0 = [] then mh0\<lparr>mh_Host := host\<rparr> else mh0) in
                if mh_Host mh \<noteq> host
                then (json_error 400 (''body host '' @ ae_quote A (mh_Host mh) @ '' does not match path host '' @ ae_quote A host), s)
                else
                  (case publish (mirror_upsert (ae_M A) (ae_ok A) (ae_ctx A) (ae_now A) mh (hb_reg m)) m of
                     (Some e, m') \<Rightarrow> (api_error 400, s\<lparr>hs_mirrors := Some m'\<rparr>)
                   | (None, m') \<Rightarrow>
                       (case mirror_get (hb_reg m') host of
                          None \<Rightarrow> (api_error 500, s\<lparr>hs_mirrors := Some m'\<rparr>)
                        | Some stored \<Rightarrow> ((200, MirrorBody stored), s\<lparr>hs_mirrors := Some m'\<rparr>))))))"

definition handle_delete_mirror :: "api_env \<Rightarrow> string \<Rightarrow> hub_state \<Rightarrow> api_response \<times> hub_state" where
  "handle_delete_mirror A host s =
     (case hs_mirrors s of
        None \<Rightarrow> (mirrors_disabled, s)
      | Some m \<Rightarrow>
          (case publish (mirror_delete (ae_M A) (ae_ok A) (ae_ctx A) (ae_now A) host (hb_reg m)) m of
             (Some e, m') \<Rightarrow> (api_error 500, s\<lparr>hs_mirrors := Some m'\<rparr>)
           | (None, m') \<Rightarrow> ((204, NoBody), s\<lparr>hs_mirrors := Some m'\<rparr>)))"

text \<open>The body is the note, \<open>None\<close> when a non-empty body does not decode; an empty request has the empty note.\<close>

definition handle_force_block :: "api_env \<Rightarrow> string \<Rightarrow> string option \<Rightarrow> hub_state \<Rightarrow> api_response \<times> hub_state" where
  "handle_force_block A host body s =
     (case hs_mirrors s of
        None \<Rightarrow> (mirrors_disabled, s)
      | Some m \<Rightarrow>
          (case body of
             None \<Rightarrow> (api_error 400, s)
           | Some nt \<Rightarrow>
               (case publish (force_block (ae_M A) (ae_ok A) (ae_ctx A) (ae_ctx' A) (ae_now A) host nt (hb_reg m)) m of
                  (Some e, m') \<Rightarrow> (api_error 400, s\<lparr>hs_mirrors := Some m'\<rparr>)
                | (None, m') \<Rightarrow>
                    ((200, MirrorBody (case mirror_get (hb_reg m') host of None \<Rightarrow> zero_mirror | Some st \<Rightarrow> st)), s\<lparr>hs_mirrors := Some m'\<rparr>))))"

definition handle_unblock :: "api_env \<Rightarrow> string \<Rightarrow> hub_state \<Rightarrow> api_response \<times> hub_state" where
  "handle_unblock A host s =
     (case hs_mirrors s of
        None \<Rightarrow> (mirrors_disabled, s)
      | Some m \<Rightarrow>
          (case publish (unblock (ae_M A) (ae_ok A) (ae_ctx A) (ae_ctx' A) (ae_now A) host (hb_reg m)) m of
             (Some e, m') \<Rightarrow> (api_error 400, s\<lparr>hs_mirrors := Some m'\<rparr>)
           | (None, m') \<Rightarrow>
               (case mirror_get (hb_reg m') host of
                  None \<Rightarrow> (json_error 404 ''mirror not found'', s\<lparr>hs_mirrors := Some m'\<rparr>)
                | Some st \<Rightarrow> ((200, MirrorBody st), s\<lparr>hs_mirrors := Some m'\<rparr>))))"

definition zero_settings :: monitor_config where
  "zero_settings = \<lparr>mc_Enabled = False, mc_Interval = 0, mc_Regions = [], mc_MaxNodes = 0, mc_ThresholdPct = 0\<rparr>"

definition load_checkhost_settings :: "(string \<Rightarrow> monitor_config option) \<Rightarrow> dirent option \<Rightarrow> monitor_config option" where
  "load_checkhost_settings unyaml ent =
     (case ent of
        None \<Rightarrow> Some zero_settings
      | Some (FileEnt data) \<Rightarrow> unyaml data
      | Some _ \<Rightarrow> None)"

definition save_checkhost_settings ::
  "(monitor_config \<Rightarrow> string option) \<Rightarrow> bool \<Rightarrow> monitor_config \<Rightarrow> dirent option \<Rightarrow> dirent option option" where
  "save_checkhost_settings yaml ok c ent =
     (case yaml c of None \<Rightarrow> None | Some data \<Rightarrow> if ok \<and> ent \<noteq> Some DirEnt then Some (Some (FileEnt data)) else None)"

definition handle_check_mirrors :: "api_env \<Rightarrow> hub_state \<Rightarrow> api_response \<times> hub_state" where
  "handle_check_mirrors A s =
     (case hs_mirrors s of
        None \<Rightarrow> (mirrors_disabled, s)
      | Some m \<Rightarrow>
          (case hs_monitor s of
             None \<Rightarrow> (json_error 503 ''monitor disabled'', s)
           | Some cfg \<Rightarrow>
               (case check_once (ae_M A) (\<lambda>_. ae_ok A) (\<lambda>_ _. ae_ctx A) (ae_client A) (ae_now A)
                       (load_checkhost_settings (ae_unyaml_settings A) (hs_settings s)) cfg (hb_reg m) of
                  (failed, evs, reg') \<Rightarrow>
                    (if failed then api_error 500 else (202, StatusBody ''ok''),
                     s\<lparr>hs_mirrors := Some (m\<lparr>hb_reg := reg', hb_subs := fold broadcast evs (hb_subs m)\<rparr>)\<rparr>))))"

definition handle_get_settings :: "api_env \<Rightarrow> hub_state \<Rightarrow> api_response" where
  "handle_get_settings A s =
     (case hs_mirrors s of
        None \<Rightarrow> mirrors_disabled
      | Some m \<Rightarrow>
          (case load_checkhost_settings (ae_unyaml_settings A) (hs_settings s) of
             None \<Rightarrow> api_error 500
           | Some c \<Rightarrow> (200, SettingsBody c)))"

definition handle_put_settings :: "api_env \<Rightarrow> monitor_config option \<Rightarrow> hub_state \<Rightarrow> api_response \<times> hub_state" where
  "handle_put_settings A body s =
     (case hs_mirrors s of
        None \<Rightarrow> (mirrors_disabled, s)
      | Some m \<Rightarrow>
          (case body of
             None \<Rightarrow> (api_error 400, s)
           | Some c \<Rightarrow>
               (case save_checkhost_settings (ae_yaml_settings A) (ae_ok A) c (hs_settings s) of
                  None \<Rightarrow> (api_error 500, s)
                | Some ent \<Rightarrow> ((200, SettingsBody c), s\<lparr>hs_settings := ent\<rparr>))))"

definition proxy_torpool :: "api_env \<Rightarrow> string \<Rightarrow> hub_state \<Rightarrow> api_response" where
  "proxy_torpool A path s =
     (if \<not> hs_torpool s then json_error 503 ''torpool proxy disabled''
      else (case ae_forward A path of None \<Rightarrow> api_error 502 | Some (st, b) \<Rightarrow> (st, ForwardedBody b)))"

subsection \<open>Routing and authentication\<close>

definition contains_sub :: "string \<Rightarrow> string \<Rightarrow> bool" where
  "contains_sub s sub \<longleftrightarrow> list_ex (\<lambda>i. has_prefix (drop i s) sub) [0..<Suc (length s)]"

definition verify_error_text :: "(string \<Rightarrow> string) \<Rightarrow> verify_error \<Rightarrow> string" where
  "verify_error_text quote e =
     (case e of
        NilState \<Rightarrow> ''hub/mtls: nil ConnectionState''
      | NoPeerCerts \<Rightarrow> ''hub/mtls: no peer certificates''
      | NotSigned msg \<Rightarrow> ''hub/mtls: leaf not signed by hub CA: '' @ msg
      | Revoked n \<Rightarrow> ''hub/mtls: certificate serial '' @ digits (nat n) @ '' is revoked''
      | MissingNodeID \<Rightarrow> ''hub/mtls: leaf missing gateway:node-id SAN''
      | MissingNodeType \<Rightarrow> ''hub/mtls: leaf missing gateway:node-type SAN''
      | CNDisagrees cn i \<Rightarrow> ''hub/mtls: CN '' @ quote cn @ '' disagrees with SAN node-id '' @ quote i)"

text \<open>\<open>StreamBody\<close> stands for the stream that \<^verbatim>\<open>ServeHTTP\<close> opens under the identity of the peer.\<close>

definition api_handler :: "api_env \<Rightarrow> string \<Rightarrow> api_call \<Rightarrow> hub_state \<Rightarrow> api_response option \<times> hub_state" where
  "api_handler A nodeID call s =
     (case call of
        ListTenants \<Rightarrow> (Some (handle_list_tenants s), s)
      | GetTenant host \<Rightarrow> (Some (handle_get_tenant host s), s)
      | PutTenant host body \<Rightarrow> handle_put_tenant A host body s
      | DeleteTenant host \<Rightarrow> handle_delete_tenant A host s
      | GetGlobals \<Rightarrow> (Some (handle_get_globals s), s)
      | PutGlobals body \<Rightarrow> handle_put_globals A body s
      | RegisterNode body \<Rightarrow> map_prod Some id (handle_register_node A body s)
      | ListNodes \<Rightarrow> (Some (handle_list_nodes s), s)
      | DeleteNode i \<Rightarrow> map_prod Some id (handle_delete_node A i s)
      | ConfigStream \<Rightarrow> (Some (200, StreamBody nodeID), s)
      | ListMirrors \<Rightarrow> (Some (handle_list_mirrors s), s)
      | GetMirror host \<Rightarrow> (Some (handle_get_mirror host s), s)
      | PutMirror host body \<Rightarrow> map_prod Some id (handle_put_mirror A host body s)
      | DeleteMirror host \<Rightarrow> map_prod Some id (handle_delete_mirror A host s)
      | ForceBlockMirror host body \<Rightarrow> map_prod Some id (handle_force_block A host body s)
      | UnblockMirror host \<Rightarrow> map_prod Some id (handle_unblock A host s)
      | CheckMirrors \<Rightarrow> map_prod Some id (handle_check_mirrors A s)
      | GetCheckHostSettings \<Rightarrow> (Some (handle_get_settings A s), s)
      | PutCheckHostSettings body \<Rightarrow> map_prod Some id (handle_put_settings A body s)
      | Torpool path \<Rightarrow> (Some (proxy_torpool A path s), s))"

definition require_mtls ::
  "api_env \<Rightarrow> (string \<Rightarrow> hub_state \<Rightarrow> api_response option \<times> hub_state) \<Rightarrow> leaf_cert list option \<Rightarrow> hub_state \<Rightarrow> api_response option \<times> hub_state" where
  "require_mtls A next tls s =
     (if tls = None \<or> tls = Some [] then (Some (json_error 401 ''mTLS required''), s)
      else
        (case verify_peer (ae_X A) (ae_sig_msg A) (hs_ca s) tls of
           Inl e \<Rightarrow>
             if contains_sub (verify_error_text (ae_quote A) e) ''revoked'' then (Some (json_error 403 ''certificate revoked''), s)
             else (Some (json_error 401 ''cert verification failed''), s)
         | Inr (nodeID, nodeType) \<Rightarrow> next nodeID (s\<lparr>hs_nodes := node_touch nodeID (ae_now A) (hs_nodes s)\<rparr>)))"

text \<open>\<^verbatim>\<open>Handler\<close>: registration is the only route outside \<^verbatim>\<open>requireMTLS\<close>.\<close>

definition hub_api :: "api_env \<Rightarrow> leaf_cert list option \<Rightarrow> api_call \<Rightarrow> hub_state \<Rightarrow> api_response option \<times> hub_state" where
  "hub_api A tls call s =
     (case call of
        RegisterNode body \<Rightarrow> api_handler A [] call s
      | _ \<Rightarrow> require_mtls A (\<lambda>nodeID. api_handler A nodeID call) tls s)"

subsection \<open>A small hub\<close>

definition demo_tenant_encoders :: tenant_encoders where
  "demo_tenant_encoders = \<lparr>tj_snapshot = \<lambda>ts g v. if ts = [] then Some ''e'' else Some ''s'', tj_info = \<lambda>_. Some ''t'', tj_delete = \<lambda>h. Some h\<rparr>"

definition demo_tenant_decoders :: tenant_decoders where
  "demo_tenant_decoders =
     \<lparr>tu_snapshot = \<lambda>d. if d = ''e'' then Some ([], [], 1) else Some ([tenant_info_from sample_tenant 1], [], 1),
      tu_info = \<lambda>_. Some (tenant_info_from sample_tenant 1), tu_delete = \<lambda>d. Some d\<rparr>"

definition demo_api :: api_env where
  "demo_api =
     \<lparr>ae_X = demo_x509, ae_T = sample_tenant_env, ae_J = demo_tenant_encoders, ae_M = demo_env, ae_yaml_settings = \<lambda>_. None,
      ae_unyaml_settings = \<lambda>_. None, ae_quote = id, ae_sig_msg = [], ae_now = 7, ae_ok = True, ae_ctx = False, ae_ctx' = False,
      ae_client = \<lambda>_. None, ae_forward = \<lambda>_. None\<rparr>"

definition demo_hub :: hub_state where
  "demo_hub =
     \<lparr>hs_tenants = \<lparr>th_reg = fresh_registry, th_closed = False, th_subID = 0, th_subs = []\<rparr>, hs_mirrors = None, hs_monitor = None,
      hs_ca = new_ca_struct, hs_disk = \<lambda>_. NoFile, hs_nodes = [], hs_settings = None, hs_torpool = False\<rparr>"

definition demo_node :: "string list \<Rightarrow> node_store" where
  "demo_node hosts =
     [(''n'', \<lparr>nr_ID = ''n'', nr_Type = ''proxy'', nr_PublicKey = [], nr_CertSerial = 1, nr_AssignedTenants = hosts, nr_RegisteredAt = 0,
               nr_LastSeen = 0\<rparr>)]"

subsection \<open>Who may change the hub\<close>

text \<open>What is left of a hub state when the authority, its serial file and the node records are disregarded.\<close>

definition hub_content :: "hub_state \<Rightarrow> tenant_hub \<times> mirror_hub option \<times> monitor_config option \<times> dirent option \<times> bool" where
  "hub_content s = (hs_tenants s, hs_mirrors s, hs_monitor s, hs_settings s, hs_torpool s)"

lemma register_content: "hub_content (snd (handle_register_node A body s)) = hub_content s"
  by (auto simp: handle_register_node_def hub_content_def Let_def split: option.splits sum.splits prod.splits)

lemma require_mtls_reject:
  assumes "verify_peer (ae_X A) (ae_sig_msg A) (hs_ca s) tls = Inl e"
  shows "require_mtls A next tls s =
    (Some (if tls = None \<or> tls = Some [] then json_error 401 ''mTLS required''
           else if contains_sub (verify_error_text (ae_quote A) e) ''revoked'' then json_error 403 ''certificate revoked''
           else json_error 401 ''cert verification failed''), s)"
  using assms by (simp add: require_mtls_def)

lemma hub_api_mtls: "\<forall>body. call \<noteq> RegisterNode body \<Longrightarrow> hub_api A tls call s = require_mtls A (\<lambda>i. api_handler A i call) tls s"
  by (cases call) (simp_all add: hub_api_def)

lemma contains_subI: "contains_sub (a @ b @ c) b"
  by (auto simp: contains_sub_def list_ex_iff has_prefix_def intro!: bexI[of _ "length a"])

text \<open>
  C3 (safety). Nothing but registration happens without an accepted certificate. A request whose peer certificate is missing, not signed by the hub's authority, revoked or
  without a node identity leaves the hub exactly as it was and is answered 401 or 403, with 403 for a revoked certificate; registration, which needs no certificate,
  touches neither tenants nor mirrors nor settings. So whenever one of those changes, the peer was accepted as some node.
\<close>

theorem hub_api_authenticated:
  assumes "hub_api A tls call s = (r, s')"
  shows "(\<forall>e. verify_peer (ae_X A) (ae_sig_msg A) (hs_ca s) tls = Inl e \<and> (\<forall>body. call \<noteq> RegisterNode body) \<longrightarrow>
            s' = s \<and> (\<exists>st msg. r = Some (st, ErrorBody msg) \<and> st \<in> {401, 403} \<and> ((\<exists>n. e = Revoked n) \<longrightarrow> st = 403)))
     \<and> (hub_content s' \<noteq> hub_content s \<longrightarrow>
          (\<exists>nodeID nodeType. verify_peer (ae_X A) (ae_sig_msg A) (hs_ca s) tls = Inr (nodeID, nodeType)))"
proof -
  have reject: "s' = s \<and> (\<exists>st msg. r = Some (st, ErrorBody msg) \<and> st \<in> {401, 403} \<and> ((\<exists>n. e = Revoked n) \<longrightarrow> st = 403))"
    if v: "verify_peer (ae_X A) (ae_sig_msg A) (hs_ca s) tls = Inl e" and reg: "\<forall>body. call \<noteq> RegisterNode body" for e
  proof -
    have "contains_sub (verify_error_text q (Revoked n)) ''revoked''" for n q
      using contains_subI[of "''hub/mtls: certificate serial '' @ digits (nat n) @ '' is ''" "''revoked''" "[]"]
      by (simp add: verify_error_text_def)
    moreover have "tls \<noteq> None \<and> tls \<noteq> Some []" if "e = Revoked n" for n
      using v that by (auto simp: verify_peer_def split: option.splits list.splits)
    ultimately show ?thesis
      using assms require_mtls_reject[OF v] unfolding hub_api_mtls[OF reg] by (auto simp: json_error_def)
  qed
  have content: "hub_content s' = hub_content s" if "verify_peer (ae_X A) (ae_sig_msg A) (hs_ca s) tls = Inl e" for e
  proof (cases "\<exists>body. call = RegisterNode body")
    case True
    then obtain body where "call = RegisterNode body" by blast
    then have "s' = snd (handle_register_node A body s)" using assms by (auto simp: hub_api_def api_handler_def map_prod_def split: prod.splits)
    then show ?thesis by (simp add: register_content)
  next
    case False
    then show ?thesis using reject[OF that] by blast
  qed
  have "\<exists>i t. verify_peer (ae_X A) (ae_sig_msg A) (hs_ca s) tls = Inr (i, t)" if "hub_content s' \<noteq> hub_content s"
    using content that by (cases "verify_peer (ae_X A) (ae_sig_msg A) (hs_ca s) tls") auto
  then show ?thesis using reject by blast
qed

theorem hub_api_authenticated_witness:
  "\<exists>r. hub_api demo_api None ListTenants demo_hub = (r, demo_hub) \<and> (\<exists>st msg. r = Some (st, ErrorBody msg) \<and> st \<in> {401, 403})"
proof -
  obtain r s' where h: "hub_api demo_api None ListTenants demo_hub = (r, s')" by fastforce
  have "verify_peer (ae_X demo_api) (ae_sig_msg demo_api) (hs_ca demo_hub) None = Inl NilState" by (simp add: verify_peer_def)
  with hub_api_authenticated[OF h] have "s' = demo_hub \<and> (\<exists>st msg. r = Some (st, ErrorBody msg) \<and> st \<in> {401, 403})" by blast
  then show ?thesis using h by blast
qed


text \<open>
  Registration is open: a request with no certificate at all and a correctly signed certificate request in the name of a node is answered with a certificate
  for that name, also when the node exists, and afterwards the node may read every tenant, whatever it was restricted to before.
\<close>

theorem registration_grants_all_tenants:
  assumes "x_parse_csr (ae_X A) (rn_CSRPEM req) = CsrParsed c" and "csr_SigOK c" and "csr_CN c = rn_NodeID req"
    and "rn_NodeID req \<noteq> []" and "valid_node_type (rn_NodeType req)" and "rn_CSRPEM req \<noteq> []"
    and "ae_ok A" and "\<forall>l. x_sign (ae_X A) l \<noteq> None"
  shows "\<exists>der cert s'. hub_api A None (RegisterNode (Some req)) s = (Some (201, RegisterBody der cert), s')
    \<and> xc_CN cert = rn_NodeID req \<and> (\<forall>host. tenant_allowed (hs_nodes s') (rn_NodeID req) host)"
proof -
  have ty: "rn_NodeType req \<noteq> []" using assms(5) by (auto simp: valid_node_type_def)
  obtain n d' c' where al: "allocate_serial True (hs_disk s) (hs_ca s) = Inr (n, d', c')"
    by (cases "ca_dataDir (hs_ca s) = []") (simp_all add: allocate_serial_def write_serial_def Let_def)
  let ?l = "client_template (rn_NodeID req) (rn_NodeType req) nodeCertValidity (ae_now A) n"
  obtain der where der: "x_sign (ae_X A) ?l = Some der" using assms(8) by blast
  have "nodeCertValidity > 0" by (simp add: nodeCertValidity_def second_def)
  then have "sign_csr (ae_X A) True (rn_CSRPEM req) (rn_NodeID req) (rn_NodeType req) nodeCertValidity (ae_now A) (hs_disk s) (hs_ca s)
      = (Inr (der, ?l), d', c')"
    using assms(1-5) al der by (simp add: sign_csr_def Let_def)
  then show ?thesis
    using assms(4,6,7) ty
    by (simp add: hub_api_def api_handler_def handle_register_node_def node_register_def Let_def tenant_allowed_def map_of_alist_put client_template_def)
qed

theorem registration_grants_all_tenants_witness:
  "\<exists>der cert s'. hub_api demo_api None
       (RegisterNode (Some \<lparr>rn_NodeID = ''n'', rn_NodeType = ''proxy'', rn_CSRPEM = ''n'', rn_PublicKey = []\<rparr>))
       (demo_hub\<lparr>hs_nodes := demo_node [''b.example'']\<rparr>) = (Some (201, RegisterBody der cert), s')
     \<and> tenant_allowed (hs_nodes s') ''n'' ''a.example'' \<and> \<not> tenant_allowed (demo_node [''b.example'']) ''n'' ''a.example''"
proof -
  let ?req = "\<lparr>rn_NodeID = ''n'', rn_NodeType = ''proxy'', rn_CSRPEM = ''n'', rn_PublicKey = []\<rparr>"
  have "\<exists>der cert s'. hub_api demo_api None (RegisterNode (Some ?req)) (demo_hub\<lparr>hs_nodes := demo_node [''b.example'']\<rparr>)
        = (Some (201, RegisterBody der cert), s')
      \<and> xc_CN cert = rn_NodeID ?req \<and> (\<forall>host. tenant_allowed (hs_nodes s') (rn_NodeID ?req) host)"
    by (rule registration_grants_all_tenants[where c = "\<lparr>csr_CN = ''n'', csr_SigOK = True\<rparr>"])
       (simp_all add: demo_api_def demo_x509_def valid_node_type_def)
  moreover have "\<not> tenant_allowed (demo_node [''b.example'']) ''n'' ''a.example''" by (simp add: tenant_allowed_def demo_node_def)
  ultimately show ?thesis by auto
qed


subsection \<open>The stream shows a node its own tenants only\<close>

text \<open>A snapshot event that decodes, and whose filtered form is encoded and decodes to itself.\<close>

definition snapshot_decodes :: "tenant_encoders \<Rightarrow> tenant_decoders \<Rightarrow> string \<Rightarrow> node_store option \<times> config_stream_event \<Rightarrow> bool" where
  "snapshot_decodes J U nodeID x \<longleftrightarrow>
     (case x of (nodes, ev) \<Rightarrow>
        ev_Type ev = EventSnapshot \<longrightarrow>
          (case (nodes, tu_snapshot U (ev_Data ev)) of
             (Some ns, Some (ts, g, v)) \<Rightarrow>
               (let kept = filter (\<lambda>ti. tenant_allowed ns nodeID (ti_Host ti)) ts
                in case tj_snapshot J kept g v of None \<Rightarrow> False | Some raw \<Rightarrow> tu_snapshot U raw = Some (kept, g, v))
           | _ \<Rightarrow> False))"

lemmas stream_event_types =
  EventSnapshot_def EventTenantUpsert_def EventTenantDelete_def EventGlobalsUpdate_def

lemma stream_loop_complete: "(\<And>n. \<not> broken n) \<Longrightarrow> stream_loop J U i broken n xs = List.map_filter (stream_one J U i) xs"
  by (induction xs arbitrary: n) (auto simp: List.map_filter_simps split: option.splits)

lemma stream_one_snapshot:
  assumes "stream_one J U i (Some ns, ev0) = Some ev" and "i \<noteq> []" and "ev_Type ev = EventSnapshot" and "snapshot_decodes J U i (Some ns, ev0)"
  shows "\<exists>ts g v. tu_snapshot U (ev_Data ev) = Some (filter (\<lambda>ti. tenant_allowed ns i (ti_Host ti)) ts, g, v)
    \<and> tu_snapshot U (ev_Data ev0) = Some (ts, g, v)"
proof -
  have t: "ev_Type ev0 = EventSnapshot" and f: "ev = filter_snapshot J U (Some ns) ev0 i"
    using assms(1,3) by (auto simp: stream_one_def stream_allow_def split: if_splits)
  then obtain ts g v raw where d: "tu_snapshot U (ev_Data ev0) = Some (ts, g, v)"
    "tj_snapshot J (filter (\<lambda>ti. tenant_allowed ns i (ti_Host ti)) ts) g v = Some raw"
    "tu_snapshot U raw = Some (filter (\<lambda>ti. tenant_allowed ns i (ti_Host ti)) ts, g, v)"
    using assms(4) by (auto simp: snapshot_decodes_def Let_def split: option.splits)
  then show ?thesis using assms(2) by (simp add: f filter_snapshot_def)
qed

text \<open>
  What an event tells a node: a list of tenants with the globals, something about one tenant, a payload about a tenant that no one can read, or anything else. What a node may see of it, when
  \<open>mine\<close> are the hosts assigned to it.
\<close>

datatype stream_content =
    Listing "tenant_info list" string "64 word" time
  | AboutTenant string config_stream_event
  | Undecodable config_stream_event
  | Common config_stream_event

definition stream_content :: "tenant_decoders \<Rightarrow> config_stream_event \<Rightarrow> stream_content" where
  "stream_content U ev =
     (if ev_Type ev = EventSnapshot then
        (case tu_snapshot U (ev_Data ev) of None \<Rightarrow> Undecodable ev | Some (ts, g, v) \<Rightarrow> Listing ts g v (ev_Timestamp ev))
      else if ev_Type ev = EventTenantUpsert then
        (case tu_info U (ev_Data ev) of None \<Rightarrow> Undecodable ev | Some ti \<Rightarrow> AboutTenant (ti_Host ti) ev)
      else if ev_Type ev = EventTenantDelete then
        (case tu_delete U (ev_Data ev) of None \<Rightarrow> Undecodable ev | Some host \<Rightarrow> AboutTenant host ev)
      else Common ev)"

fun visible :: "(string \<Rightarrow> bool) \<Rightarrow> stream_content \<Rightarrow> stream_content option" where
  "visible mine (Listing ts g v t) = Some (Listing (filter (\<lambda>ti. mine (ti_Host ti)) ts) g v t)"
| "visible mine (AboutTenant host ev) = (if mine host then Some (AboutTenant host ev) else None)"
| "visible mine (Undecodable ev) = None"
| "visible mine (Common ev) = Some (Common ev)"

lemma stream_loop_takeWhile:
  "stream_loop J U i broken n xs = map snd (takeWhile (\<lambda>(k, _). \<not> broken k) (enumerate n (List.map_filter (stream_one J U i) xs)))"
  by (induction xs arbitrary: n) (auto simp: List.map_filter_simps split: option.splits)

lemma stream_one_content:
  assumes "i \<noteq> []" and "snapshot_decodes J U i (Some ns, ev)"
  shows "map_option (stream_content U) (stream_one J U i (Some ns, ev)) = visible (tenant_allowed ns i) (stream_content U ev)"
  using assms
  by (auto simp: stream_one_def stream_allow_def filter_snapshot_def snapshot_decodes_def stream_content_def stream_event_types Let_def
      split: option.splits prod.splits)

lemma map_filter_content:
  assumes "i \<noteq> []" and "list_all (\<lambda>(nodes, ev). nodes \<noteq> None) xs" and "list_all (snapshot_decodes J U i) xs"
  shows "map (stream_content U) (List.map_filter (stream_one J U i) xs)
    = List.map_filter (\<lambda>(nodes, ev). visible (tenant_allowed (the nodes) i) (stream_content U ev)) xs"
  using assms(2,3)
proof (induction xs)
  case (Cons x xs)
  obtain ns ev where x: "x = (Some ns, ev)" using Cons.prems(1) by (cases x) auto
  have "visible (tenant_allowed ns i) (stream_content U ev) = map_option (stream_content U) (stream_one J U i x)"
    using stream_one_content[OF assms(1)] Cons.prems(2) by (simp add: x)
  then show ?case using Cons by (cases "stream_one J U i x") (simp_all add: x List.map_filter_simps)
qed (simp add: List.map_filter_simps)

lemma takeWhile_enumerate_map:
  "map f (map snd (takeWhile (\<lambda>(k, _). P k) (enumerate n xs))) = map snd (takeWhile (\<lambda>(k, _). P k) (enumerate n (map f xs)))"
  by (induction xs arbitrary: n) auto

text \<open>
  C10 (safety). What the stream of a node carries, exactly. If snapshot payloads decode and re-encode faithfully, the events sent on the stream of node \<open>i\<close> tell it, in the order in which they were
  received and up to the first write that fails: of a snapshot, the tenants that the node store assigns to \<open>i\<close> when that snapshot is sent, with the globals, version and time of the event; an upsert or
  a deletion of a tenant, unchanged, if the node store assigns that tenant to \<open>i\<close> when it is sent, and nothing otherwise or when its payload does not decode; and every other event, globals and
  mirrors among them, unchanged.
\<close>

theorem stream_confidential:
  assumes "i \<noteq> []" and "list_all (\<lambda>(nodes, ev). nodes \<noteq> None) xs" and "list_all (snapshot_decodes J U i) xs"
  shows "map (stream_content U) (stream_loop J U i broken 0 xs)
    = map snd (takeWhile (\<lambda>(k, _). \<not> broken k)
        (enumerate 0 (List.map_filter (\<lambda>(nodes, ev). visible (tenant_allowed (the nodes) i) (stream_content U ev)) xs)))"
  by (simp only: stream_loop_takeWhile takeWhile_enumerate_map map_filter_content[OF assms])

theorem stream_confidential_witness:
  "let ns = demo_node [''b.example'']; g = \<lparr>ev_Type = EventGlobalsUpdate, ev_Data = ''g'', ev_Timestamp = 2\<rparr>;
       evs = [\<lparr>ev_Type = EventSnapshot, ev_Data = ''s'', ev_Timestamp = 0\<rparr>, \<lparr>ev_Type = EventTenantUpsert, ev_Data = ''t'', ev_Timestamp = 1\<rparr>, g, g]
   in \<exists>glob v. map (stream_content demo_tenant_decoders) (stream_loop demo_tenant_encoders demo_tenant_decoders ''n'' (\<lambda>k. k = 2) 0 (map (Pair (Some ns)) evs))
      = [Listing [] glob v 0, Common g]"
proof -
  let ?ns = "demo_node [''b.example'']" and ?J = demo_tenant_encoders and ?U = demo_tenant_decoders
  let ?g = "\<lparr>ev_Type = EventGlobalsUpdate, ev_Data = ''g'', ev_Timestamp = 2\<rparr>"
  let ?evs = "[\<lparr>ev_Type = EventSnapshot, ev_Data = ''s'', ev_Timestamp = 0\<rparr>, \<lparr>ev_Type = EventTenantUpsert, ev_Data = ''t'', ev_Timestamp = 1\<rparr>, ?g, ?g]"
  have no: "\<not> tenant_allowed ?ns ''n'' (tc_Host sample_tenant)" by (simp add: tenant_allowed_def demo_node_def sample_tenant_def)
  have dec: "list_all (snapshot_decodes ?J ?U ''n'') (map (Pair (Some ?ns)) ?evs)"
    using no by (simp add: snapshot_decodes_def demo_tenant_encoders_def demo_tenant_decoders_def stream_event_types)
  have nodes: "list_all (\<lambda>(nodes, ev). nodes \<noteq> None) (map (Pair (Some ?ns)) ?evs)" by simp
  show ?thesis
    using stream_confidential[OF _ nodes dec, of "\<lambda>k. k = 2"] no
    by (simp add: List.map_filter_simps stream_content_def demo_tenant_decoders_def stream_event_types eval_nat_numeral)
qed


end
