(* ===== verification/Proxysnap.thy ===== *)
theory Proxysnap
  imports Hubapi
begin

text \<open>
  The proxy's snapshot clients, \<^verbatim>\<open>internal/proxy/snapshot.go\<close>. Events of the hub are translated into the globals and tenants of the feature
  registry and handed to its \<^verbatim>\<open>Reload\<close>. In local mode an event only says that something changed and the state of the embedded hub registry is translated;
  in remote mode the payload of the event is applied to what the feature registry last accepted. JSON decoding is an argument. The theorems show that the parser agrees with the door's,
  that a remote proxy has the hub's globals and the tenants assigned to its node, and what a refused reload does.
\<close>

subsection \<open>Translation\<close>

text \<open>
  Decoders of the payloads. A decoded map is \<open>None\<close> when it is nil. The first component decodes globals as the hub encodes them, the second as the feature registry's own type.
\<close>

record proxy_decoders =
  pd_T :: tenant_decoders
  pd_globals :: "string \<Rightarrow> (string \<times> feature_conf) list option option"
  pd_gsnap :: "string \<Rightarrow> (string \<times> feature_snapshot) list option option"

definition feature_conf_snapshot :: "feature_conf \<Rightarrow> feature_snapshot" where
  "feature_conf_snapshot fc = \<lparr>fs_Enabled = fc_Enabled fc, fs_Params = fc_Params fc, fs_Version = 0\<rparr>"

definition translate_globals :: "(string \<times> feature_conf) list \<Rightarrow> globals_snapshot" where
  "translate_globals fs = (\<lambda>name. map_option feature_conf_snapshot (map_of fs name))"

definition translate_globals_raw :: "proxy_decoders \<Rightarrow> string \<Rightarrow> globals_snapshot" where
  "translate_globals_raw D raw =
     (if raw = [] then Map.empty
      else
        (case pd_globals D raw of
           Some (Some fs) \<Rightarrow> translate_globals fs
         | _ \<Rightarrow> (case pd_gsnap D raw of Some (Some gs) \<Rightarrow> map_of gs | _ \<Rightarrow> Map.empty)))"

definition translate_tenants_conf :: "(string \<Rightarrow> string) \<Rightarrow> (string \<times> tenant_conf) list \<Rightarrow> (string \<times> tenant_snapshot) list" where
  "translate_tenants_conf uni ts =
     fold (\<lambda>(host, t) out.
        alist_put (to_lower uni host)
          \<lparr>ts_Host = to_lower uni (tc_Host t), ts_Enabled = tc_Enabled t,
           ts_Features = (\<lambda>name. map_option feature_conf_snapshot (map_of (tc_Features t) name))\<rparr> out) ts []"

definition tenant_info_to_snapshot :: "(string \<Rightarrow> string) \<Rightarrow> tenant_info \<Rightarrow> tenant_snapshot" where
  "tenant_info_to_snapshot uni ti =
     \<lparr>ts_Host = to_lower uni (ti_Host ti), ts_Enabled = ti_Enabled ti, ts_Features = map_of (ti_FeatureSnapshots ti)\<rparr>"

datatype translate_error = ParseSnapshot | ParseUpsert | ParseDelete

definition translate_event ::
  "proxy_decoders \<Rightarrow> (string \<Rightarrow> string) \<Rightarrow> config_stream_event \<Rightarrow> snapshot_state \<Rightarrow> translate_error + snapshot_state" where
  "translate_event D uni ev prev =
     (if ev_Type ev = EventSnapshot then
        (case tu_snapshot (pd_T D) (ev_Data ev) of
           None \<Rightarrow> Inl ParseSnapshot
         | Some (tenants, globals, version) \<Rightarrow>
             Inr \<lparr>sn_globals = translate_globals_raw D globals,
                  sn_tenants = fold (\<lambda>ti out. alist_put (to_lower uni (ti_Host ti)) (tenant_info_to_snapshot uni ti) out) tenants []\<rparr>)
      else if ev_Type ev = EventGlobalsUpdate then Inr (prev\<lparr>sn_globals := translate_globals_raw D (ev_Data ev)\<rparr>)
      else if ev_Type ev = EventTenantUpsert then
        (case tu_info (pd_T D) (ev_Data ev) of
           None \<Rightarrow> Inl ParseUpsert
         | Some ti \<Rightarrow>
             Inr (prev\<lparr>sn_tenants := alist_put (to_lower uni (ti_Host ti)) (tenant_info_to_snapshot uni ti) (sn_tenants prev)\<rparr>))
      else if ev_Type ev = EventTenantDelete then
        (case tu_delete (pd_T D) (ev_Data ev) of
           None \<Rightarrow> Inl ParseDelete
         | Some host \<Rightarrow> Inr (prev\<lparr>sn_tenants := alist_del (to_lower uni host) (sn_tenants prev)\<rparr>))
      else Inr prev)"

subsection \<open>Applying events\<close>

datatype apply_error = ApplyTranslate translate_error | ApplyReload "reload_error list"

text \<open>\<^verbatim>\<open>applyEvent\<close> with a hub registry and without one.\<close>

definition apply_event_local ::
  "(string \<Rightarrow> string) \<Rightarrow> tenant_registry \<Rightarrow> ('rs, 'h, 'w) registry \<times> 'w \<Rightarrow> apply_error option \<times> ('rs, 'h, 'w) registry \<times> 'w" where
  "apply_event_local uni hreg rw =
     (case rw of (r, w) \<Rightarrow>
        (case tenant_snapshot_of hreg of
           (g, ts) \<Rightarrow>
             (case reload r (translate_globals (gc_Features g)) (translate_tenants_conf uni ts) w of
                (errs, r', w') \<Rightarrow> (if errs = [] then None else Some (ApplyReload errs), r', w'))))"

definition apply_event_remote ::
  "proxy_decoders \<Rightarrow> (string \<Rightarrow> string) \<Rightarrow> config_stream_event \<Rightarrow> ('rs, 'h, 'w) registry \<times> 'w
     \<Rightarrow> apply_error option \<times> ('rs, 'h, 'w) registry \<times> 'w" where
  "apply_event_remote D uni ev rw =
     (case rw of (r, w) \<Rightarrow>
        (case translate_event D uni ev (rg_current r) of
           Inl e \<Rightarrow> (Some (ApplyTranslate e), r, w)
         | Inr nxt \<Rightarrow>
             (case reload r (sn_globals nxt) (sn_tenants nxt) w of
                (errs, r', w') \<Rightarrow> (if errs = [] then None else Some (ApplyReload errs), r', w'))))"

text \<open>Events one after the other; an error is logged and the loop goes on. The first component collects what was logged.\<close>

fun apply_events_remote ::
  "proxy_decoders \<Rightarrow> (string \<Rightarrow> string) \<Rightarrow> config_stream_event list \<Rightarrow> ('rs, 'h, 'w) registry \<times> 'w
     \<Rightarrow> apply_error list \<times> ('rs, 'h, 'w) registry \<times> 'w" where
  "apply_events_remote D uni [] rw = ([], rw)"
| "apply_events_remote D uni (ev # evs) rw =
     (case apply_event_remote D uni ev rw of
        (e, rw') \<Rightarrow>
          (case apply_events_remote D uni evs rw' of
             (es, rw'') \<Rightarrow> ((case e of None \<Rightarrow> es | Some x \<Rightarrow> x # es), rw'')))"

subsection \<open>The stream parser\<close>

definition handle_sse_line :: "string \<Rightarrow> sse_state \<Rightarrow> sse_state" where
  "handle_sse_line line st =
     (if has_prefix line '':'' then st
      else (case index_byte line CHR '':'' of
              None \<Rightarrow> st
            | Some idx \<Rightarrow>
                let key = take idx line;
                    val0 = drop (Suc idx) line;
                    val = (if has_prefix val0 '' '' then drop 1 val0 else val0)
                in if key = ''event'' then st\<lparr>ss_evType := val\<rparr>
                   else if key = ''data'' then
                     (let d = (if ss_data st \<noteq> [] then ss_data st @ [CHR 0x0A] else ss_data st)
                      in st\<lparr>ss_data := d @ val\<rparr>)
                   else st))"

text \<open>
  The closure \<^verbatim>\<open>flush\<close> is that of the door. The loop returns the parser's state, the bytes left in the reader and a read error; the
  end of the body is not an error here.
\<close>

function read_sse_events ::
  "(string \<Rightarrow> config_stream_event option) \<Rightarrow> (nat \<Rightarrow> bool) \<Rightarrow> stream_end \<Rightarrow> int \<Rightarrow> nat \<Rightarrow> string \<Rightarrow> sse_state
     \<Rightarrow> sse_state \<times> string \<times> sse_error option" where
  "read_sse_events unmarshal ctx ending stop i inp st =
     (if ctx i then (st, inp, None)
      else (case index_byte inp (CHR 0x0A) of
              None \<Rightarrow>
                (case ending of
                   EndErr e \<Rightarrow> (st, [], Some (ReadError e))
                 | EndEOF \<Rightarrow> ((if inp \<noteq> [] then snd (sse_flush unmarshal stop (handle_sse_line inp st)) else st), [], None))
            | Some k \<Rightarrow>
                let trimmed = trim_right_crlf (take (Suc k) inp); rest = drop (Suc k) inp
                in if trimmed = [] then
                     (case sse_flush unmarshal stop st of
                        (stopped, st') \<Rightarrow>
                          if stopped then (st', rest, None) else read_sse_events unmarshal ctx ending stop (Suc i) rest st')
                   else read_sse_events unmarshal ctx ending stop (Suc i) rest (handle_sse_line trimmed st)))"
  by pat_completeness auto
termination
  by (relation "measure (\<lambda>(_, _, _, _, _, inp, _). length inp)")
     (auto dest: index_byte_Some)

declare read_sse_events.simps [simp del]

definition parse_sse_stream ::
  "(string \<Rightarrow> config_stream_event option) \<Rightarrow> (nat \<Rightarrow> bool) \<Rightarrow> stream_end \<Rightarrow> string \<Rightarrow> config_stream_event list \<times> sse_error option" where
  "parse_sse_stream unmarshal ctx ending inp =
     (case read_sse_events unmarshal ctx ending (- 1) 0 inp sse_init of (st, rest, e) \<Rightarrow> (ss_events st, e))"

definition parse_one_sse_event ::
  "(string \<Rightarrow> config_stream_event option) \<Rightarrow> (nat \<Rightarrow> bool) \<Rightarrow> stream_end \<Rightarrow> string
     \<Rightarrow> config_stream_event list \<times> string \<times> sse_error option" where
  "parse_one_sse_event unmarshal ctx ending inp =
     (case read_sse_events unmarshal ctx ending 1 0 inp sse_init of
        (st, rest, e) \<Rightarrow>
          (ss_events st, rest,
           (case e of Some x \<Rightarrow> Some x | None \<Rightarrow> if ss_events st = [] then Some StreamClosedBeforeEvent else None)))"

subsection \<open>The remote client\<close>

definition px_stream_url :: "string \<Rightarrow> string option \<Rightarrow> string" where
  "px_stream_url override hubURL =
     (if override \<noteq> [] then override
      else (case hubURL of
              None \<Rightarrow> []
            | Some u \<Rightarrow>
                let base = rev (dropWhile (\<lambda>c. c = CHR ''/'') (rev u))
                in if base = [] then [] else base @ ''/v1/config/stream''))"

text \<open>What the request for the stream yields: a status with the body that follows and how it ends, or a transport error.\<close>

datatype connect_result = Connected int string stream_end | ConnectFailed string

datatype client_error = HubURLEmpty | ConnectErr string | BadStatus int | InitialEvent sse_error

definition open_stream :: "string \<Rightarrow> connect_result \<Rightarrow> client_error + string \<times> stream_end" where
  "open_stream url res =
     (if url = [] then Inl HubURLEmpty
      else (case res of
              ConnectFailed e \<Rightarrow> Inl (ConnectErr e)
            | Connected status body ending \<Rightarrow> if status \<noteq> 200 then Inl (BadStatus status) else Inr (body, ending)))"

text \<open>
  \<^verbatim>\<open>Start\<close>: on success the bytes that the run loop goes on reading. The initial event counts as received whether or not the registry accepts it.
\<close>

definition remote_start ::
  "proxy_decoders \<Rightarrow> (string \<Rightarrow> string) \<Rightarrow> (string \<Rightarrow> config_stream_event option) \<Rightarrow> (nat \<Rightarrow> bool) \<Rightarrow> string \<Rightarrow> connect_result
     \<Rightarrow> ('rs, 'h, 'w) registry \<times> 'w \<Rightarrow> (client_error + string) \<times> ('rs, 'h, 'w) registry \<times> 'w" where
  "remote_start D uni unmarshal ctx url res rw =
     (case open_stream url res of
        Inl e \<Rightarrow> (Inl e, rw)
      | Inr (body, ending) \<Rightarrow>
          (case parse_one_sse_event unmarshal ctx ending body of
             (evs, rest, e) \<Rightarrow>
               (case apply_events_remote D uni evs rw of
                  (es, rw') \<Rightarrow> ((case e of Some x \<Rightarrow> Inl (InitialEvent x) | None \<Rightarrow> Inr rest), rw'))))"

definition px_connect_and_consume ::
  "proxy_decoders \<Rightarrow> (string \<Rightarrow> string) \<Rightarrow> (string \<Rightarrow> config_stream_event option) \<Rightarrow> (nat \<Rightarrow> bool) \<Rightarrow> string \<Rightarrow> connect_result
     \<Rightarrow> ('rs, 'h, 'w) registry \<times> 'w \<Rightarrow> client_error option \<times> apply_error list \<times> ('rs, 'h, 'w) registry \<times> 'w" where
  "px_connect_and_consume D uni unmarshal ctx url res rw =
     (case open_stream url res of
        Inl e \<Rightarrow> (Some e, [], rw)
      | Inr (body, ending) \<Rightarrow>
          (case parse_sse_stream unmarshal ctx ending body of
             (evs, e) \<Rightarrow>
               (case apply_events_remote D uni evs rw of (es, rw') \<Rightarrow> (map_option InitialEvent e, es, rw'))))"

definition px_min_backoff :: duration where "px_min_backoff = second div 2"
definition px_max_backoff :: duration where "px_max_backoff = 30 * second"

definition px_next_backoff :: "duration \<Rightarrow> duration \<Rightarrow> duration" where
  "px_next_backoff cur mx = (let b = wrap64 (cur * 2) in if b > mx then mx else b)"

text \<open>
  The goroutine \<^verbatim>\<open>run\<close> as long as the client is not closed. What it does in order: it drains the connection that \<^verbatim>\<open>Start\<close> opened, waits, attempts a connection and consumes it. The list gives the
  results of its attempts.
\<close>

datatype client_action = Drain | Wait duration | Attempt

fun remote_run ::
  "proxy_decoders \<Rightarrow> (string \<Rightarrow> string) \<Rightarrow> (string \<Rightarrow> config_stream_event option) \<Rightarrow> string \<Rightarrow> duration
     \<Rightarrow> connect_result list \<Rightarrow> ('rs, 'h, 'w) registry \<times> 'w \<Rightarrow> client_action list \<times> ('rs, 'h, 'w) registry \<times> 'w" where
  "remote_run D uni unmarshal url backoff [] rw = ([], rw)"
| "remote_run D uni unmarshal url backoff (res # rs) rw =
     (case px_connect_and_consume D uni unmarshal never url res rw of
        (e, es, rw') \<Rightarrow>
          (case remote_run D uni unmarshal url (px_next_backoff backoff px_max_backoff) rs rw' of
             (acts, rw'') \<Rightarrow> (Attempt # Wait backoff # acts, rw'')))"

text \<open>\<open>initial\<close> is what is left in the reader that \<^verbatim>\<open>Start\<close> hands over, and how that body ends.\<close>

definition remote_client_run ::
  "proxy_decoders \<Rightarrow> (string \<Rightarrow> string) \<Rightarrow> (string \<Rightarrow> config_stream_event option) \<Rightarrow> string \<Rightarrow> string \<times> stream_end
     \<Rightarrow> connect_result list \<Rightarrow> ('rs, 'h, 'w) registry \<times> 'w \<Rightarrow> client_action list \<times> ('rs, 'h, 'w) registry \<times> 'w" where
  "remote_client_run D uni unmarshal url initial rs rw =
     (case initial of (buffered, ending) \<Rightarrow>
        (case parse_sse_stream unmarshal never ending buffered of
           (evs, e) \<Rightarrow>
             (case apply_events_remote D uni evs rw of
                (es, rw') \<Rightarrow>
                  (case remote_run D uni unmarshal url (px_next_backoff px_min_backoff px_max_backoff) rs rw' of
                     (acts, rw'') \<Rightarrow> (Drain # Wait px_min_backoff # acts, rw'')))))"

subsection \<open>The local client\<close>

definition chan_on_event :: "config_stream_event \<Rightarrow> config_stream_event list \<times> bool \<Rightarrow> config_stream_event list \<times> bool" where
  "chan_on_event ev s = on_event 8 ev s"

text \<open>\<^verbatim>\<open>LocalClient.Start\<close> and its loop: every event that arrives applies the state the hub registry has at that time.\<close>

fun local_run ::
  "(string \<Rightarrow> string) \<Rightarrow> tenant_registry list \<Rightarrow> ('rs, 'h, 'w) registry \<times> 'w \<Rightarrow> apply_error list \<times> ('rs, 'h, 'w) registry \<times> 'w" where
  "local_run uni [] rw = ([], rw)"
| "local_run uni (hreg # hregs) rw =
     (case apply_event_local uni hreg rw of
        (e, rw') \<Rightarrow>
          (case local_run uni hregs rw' of (es, rw'') \<Rightarrow> ((case e of None \<Rightarrow> es | Some x \<Rightarrow> x # es), rw'')))"

definition local_start ::
  "(string \<Rightarrow> string) \<Rightarrow> config \<Rightarrow> tenant_registry option \<Rightarrow> ('rs, 'h, 'w) registry \<times> 'w \<Rightarrow> bool \<times> ('rs, 'h, 'w) registry \<times> 'w" where
  "local_start uni cfg hreg rw =
     (if hbc_DataDir (cf_Hub cfg) = [] then (True, rw)
      else (case hreg of
              None \<Rightarrow> (False, rw)
            | Some h \<Rightarrow> (case apply_event_local uni h rw of (e, rw') \<Rightarrow> (True, rw'))))"

datatype snapshot_client = NoopClient | LocalClient | RemoteClient

definition new_snapshot_client :: "config option \<Rightarrow> bool \<Rightarrow> snapshot_client" where
  "new_snapshot_client cfg has_reg =
     (if \<not> has_reg then NoopClient
      else (case cfg of
              None \<Rightarrow> NoopClient
            | Some c \<Rightarrow>
                if cf_Mode c = ModeRemote then RemoteClient else if cf_Mode c = ModeLocal then LocalClient else NoopClient))"

subsection \<open>Two parsers of one wire\<close>

lemma handle_sse_line_eq: "handle_sse_line = handle_line"
  by (simp add: fun_eq_iff handle_sse_line_def handle_line_def)

lemma read_sse_events_eq:
  "stop < 0 \<Longrightarrow> read_sse_events unmarshal ctx ending stop i inp st = parse_sse unmarshal ctx ending stop i inp st"
proof (induction unmarshal ctx ending stop i inp st rule: read_sse_events.induct)
  case (1 unmarshal ctx ending stop i inp st)
  show ?case
  proof (cases "ctx i")
    case True
    then show ?thesis by (simp add: read_sse_events.simps[of _ _ _ _ i] parse_sse.simps[of _ _ _ _ i])
  next
    case False
    show ?thesis
    proof (cases "index_byte inp (CHR 0x0A)")
      case None
      then show ?thesis
        using False "1.prems"
        by (simp add: read_sse_events.simps[of _ _ _ _ i] parse_sse.simps[of _ _ _ _ i] handle_sse_line_eq Let_def split: stream_end.split)
    next
      case (Some k)
      then show ?thesis
        using False "1.IH"[OF False Some refl refl] "1.prems"
        by (auto simp: read_sse_events.simps[of _ _ _ _ i] parse_sse.simps[of _ _ _ _ i] handle_sse_line_eq Let_def split: prod.splits)
    qed
  qed
qed

lemma parse_sse_stream_eq:
  "parse_sse_stream unmarshal ctx ending inp = (case read_all_events unmarshal ctx ending inp of (evs, rest, e) \<Rightarrow> (evs, e))"
  by (simp add: parse_sse_stream_def read_all_events_def read_sse_events_eq split: prod.split)

text \<open>
  The proxy and the door parse the same stream with two pieces of code; they agree on every input: the same events are delivered and the same
  error is reported, whatever the bytes, however the body ends and whenever the context is cancelled.
\<close>

theorem parsers_agree:
  "parse_sse_stream unmarshal ctx ending inp = (case read_all_events unmarshal ctx ending inp of (evs, rest, e) \<Rightarrow> (evs, e))"
  by (rule parse_sse_stream_eq)

subsection \<open>The proxy follows the hub\<close>

text \<open>
  What a value looks like after a JSON round trip is \<open>nv\<close>, a function on parameter values (an integer comes back as a float, for instance); the rest of a payload comes back as it was.
\<close>

definition json_info :: "(any_val \<Rightarrow> any_val) \<Rightarrow> tenant_info \<Rightarrow> tenant_info" where
  "json_info nv ti =
     ti\<lparr>ti_FeatureSnapshots := map (\<lambda>(n, f). (n, f\<lparr>fs_Params := map_option nv \<circ> fs_Params f\<rparr>)) (ti_FeatureSnapshots ti)\<rparr>"

definition json_features :: "(any_val \<Rightarrow> any_val) \<Rightarrow> (string \<times> feature_conf) list \<Rightarrow> (string \<times> feature_conf) list" where
  "json_features nv fs = map (\<lambda>(n, fc). (n, fc\<lparr>fc_Params := map_option nv \<circ> fc_Params fc\<rparr>)) fs"

definition globals_decode :: "proxy_decoders \<Rightarrow> (any_val \<Rightarrow> any_val) \<Rightarrow> globals_conf \<Rightarrow> string \<Rightarrow> bool" where
  "globals_decode D nv g raw \<longleftrightarrow> raw \<noteq> []
     \<and> (pd_globals D raw = Some (Some (json_features nv (gc_Features g)))
        \<or> gc_Features g = [] \<and> pd_globals D raw = Some None \<and> pd_gsnap D raw \<in> {None, Some None, Some (Some [])})"

text \<open>What is needed of the JSON library for one payload.\<close>

definition payload_decodes :: "tenant_env \<Rightarrow> tenant_encoders \<Rightarrow> proxy_decoders \<Rightarrow> (any_val \<Rightarrow> any_val) \<Rightarrow> tenant_payload \<Rightarrow> bool" where
  "payload_decodes E J D nv p \<longleftrightarrow>
     (case p of
        PSnapshot ts g v \<Rightarrow>
          (\<exists>raw q. te_gjson E g = Some raw \<and> globals_decode D nv g raw \<and> tj_snapshot J ts raw v = Some q
             \<and> tu_snapshot (pd_T D) q = Some (map (json_info nv) ts, raw, v))
      | PGlobals g \<Rightarrow> (\<exists>raw. te_gjson E g = Some raw \<and> globals_decode D nv g raw)
      | PUpsert ti \<Rightarrow> (\<exists>q. tj_info J ti = Some q \<and> tu_info (pd_T D) q = Some (json_info nv ti))
      | PDelete h \<Rightarrow> (\<exists>q. tj_delete J h = Some q \<and> tu_delete (pd_T D) q = Some h))"

definition payload_hosts :: "tenant_payload \<Rightarrow> string list" where
  "payload_hosts p = (case p of PSnapshot ts g v \<Rightarrow> map ti_Host ts | PGlobals g \<Rightarrow> [] | PUpsert ti \<Rightarrow> [ti_Host ti] | PDelete h \<Rightarrow> [h])"

text \<open>What the proxy of a node should have, given what the hub has, and what it does have, without version stamps.\<close>

definition proxy_view ::
  "(any_val \<Rightarrow> any_val) \<Rightarrow> (string \<Rightarrow> string) \<Rightarrow> (string \<Rightarrow> bool) \<Rightarrow> tenant_view \<Rightarrow> globals_snapshot \<times> (string \<rightharpoonup> tenant_snapshot)" where
  "proxy_view nv uni allow v =
     (translate_globals (json_features nv (gc_Features (fst v))),
      \<lambda>h. if allow h then map_option (\<lambda>ti. tenant_info_to_snapshot uni (json_info nv ti)) (snd v h) else None)"

definition plain_versions :: "tenant_snapshot \<Rightarrow> tenant_snapshot" where
  "plain_versions t = t\<lparr>ts_Features := (\<lambda>n. map_option (\<lambda>f. f\<lparr>fs_Version := 0\<rparr>) (ts_Features t n))\<rparr>"

definition proxy_abs :: "snapshot_state \<Rightarrow> globals_snapshot \<times> (string \<rightharpoonup> tenant_snapshot)" where
  "proxy_abs cur = (sn_globals cur, \<lambda>h. map_option plain_versions (map_of (sn_tenants cur) h))"

lemma json_id [simp]: "json_features id fs = fs" "json_info id ti = ti"
proof -
  show "json_features id fs = fs" by (induction fs) (auto simp: json_features_def comp_def id_def option.map_ident)
  have "map (\<lambda>(n, f). (n, f\<lparr>fs_Params := map_option id \<circ> fs_Params f\<rparr>)) xs = xs" for xs :: "(string \<times> feature_snapshot) list"
    by (induction xs) (auto simp: comp_def id_def option.map_ident)
  then show "json_info id ti = ti" by (simp add: json_info_def)
qed

lemma json_info_host [simp]: "ti_Host (json_info nv ti) = ti_Host ti"
  by (simp add: json_info_def)

lemma strip_version_host [simp]: "ti_Host (strip_version ti) = ti_Host ti"
  by (simp add: strip_version_def)

lemma version_params_swap: "f\<lparr>fs_Version := a, fs_Params := q\<rparr> = f\<lparr>fs_Params := q, fs_Version := a\<rparr>" for f :: feature_snapshot
  by simp

lemma plain_versions_info:
  "plain_versions (tenant_info_to_snapshot uni (json_info nv ti)) = tenant_info_to_snapshot uni (json_info nv (strip_version ti))"
  by (simp add: plain_versions_def tenant_info_to_snapshot_def json_info_def strip_version_def map_of_map fun_eq_iff option.map_comp
      comp_def version_params_swap del: map_map)

lemma globals_decode_translate: "globals_decode D nv g raw \<Longrightarrow> translate_globals_raw D raw = translate_globals (json_features nv (gc_Features g))"
  by (auto simp: globals_decode_def translate_globals_raw_def translate_globals_def json_features_def fun_eq_iff)

lemma map_of_fold_put:
  "map_of (fold (\<lambda>x out. alist_put (k x) (f x) out) xs out) = map_of out ++ map_of (rev (map (\<lambda>x. (k x, f x)) xs))"
  by (induction xs arbitrary: out) (simp_all add: map_of_alist_put)

lemma map_of_rev: "distinct (map fst xs) \<Longrightarrow> map_of (rev xs) = map_of xs"
  by (metis map_of_inject_set distinct_rev rev_map set_rev)

lemma map_of_filtered:
  "map_of (map (\<lambda>ti. (ti_Host ti, f ti)) (filter (\<lambda>ti. allow (ti_Host ti)) ts)) h
     = (if allow h then map_of (map (\<lambda>ti. (ti_Host ti, f ti)) ts) h else None)"
  by (induction ts) auto

text \<open>One payload, from the hub through the filter to the translation.\<close>

lemma payload_step:
  assumes "payload_decodes E J D nv p" and "encode_payload E J now p = Some ev" and "i \<noteq> []"
    and "list_all (\<lambda>h. to_lower uni h = h) (payload_hosts p)" and "distinct (payload_hosts p)"
    and "snapshot_decodes J (pd_T D) i (Some ns, ev)" and "proxy_abs cur = proxy_view nv uni (tenant_allowed ns i) v"
  shows "case stream_one J (pd_T D) i (Some ns, ev) of
      None \<Rightarrow> proxy_view nv uni (tenant_allowed ns i) (tenant_replay p v) = proxy_view nv uni (tenant_allowed ns i) v
    | Some ev' \<Rightarrow> (\<exists>nxt. translate_event D uni ev' cur = Inr nxt
        \<and> proxy_abs nxt = proxy_view nv uni (tenant_allowed ns i) (tenant_replay p v))"
proof -
  note types = stream_event_types
  note abs = assms(7)[unfolded proxy_abs_def proxy_view_def prod.inject fun_eq_iff]
  have foreign: "map_of (sn_tenants cur) x = None" if "\<not> tenant_allowed ns i x" for x
    using spec[OF conjunct2[OF abs], of x] that by simp
  show ?thesis
  proof (cases p)
    case (PSnapshot ts g ver)
    from assms(1,2) obtain raw q where e: "te_gjson E g = Some raw" "globals_decode D nv g raw" "tj_snapshot J ts raw ver = Some q"
      "tu_snapshot (pd_T D) q = Some (map (json_info nv) ts, raw, ver)" "ev = \<lparr>ev_Type = EventSnapshot, ev_Data = q, ev_Timestamp = now\<rparr>"
      by (auto simp: payload_decodes_def PSnapshot encode_payload_def new_snapshot_event_def globals_text_def)
    let ?kept = "filter (\<lambda>ti. tenant_allowed ns i (ti_Host ti)) (map (json_info nv) ts)"
    have one: "stream_one J (pd_T D) i (Some ns, ev) = Some (filter_snapshot J (pd_T D) (Some ns) ev i)"
      by (simp add: stream_one_def stream_allow_def e(5))
    have ty: "ev_Type (filter_snapshot J (pd_T D) (Some ns) ev i) = EventSnapshot"
      by (auto simp: filter_snapshot_def e(5) split: option.splits)
    obtain ts' g' v' where d: "tu_snapshot (pd_T D) (ev_Data (filter_snapshot J (pd_T D) (Some ns) ev i))
        = Some (filter (\<lambda>ti. tenant_allowed ns i (ti_Host ti)) ts', g', v')" "tu_snapshot (pd_T D) (ev_Data ev) = Some (ts', g', v')"
      using stream_one_snapshot[OF one assms(3) ty assms(6)] by blast
    then have d': "tu_snapshot (pd_T D) (ev_Data (filter_snapshot J (pd_T D) (Some ns) ev i)) = Some (?kept, raw, ver)"
      using e(4,5) by simp
    let ?out = "fold (\<lambda>ti out. alist_put (to_lower uni (ti_Host ti)) (tenant_info_to_snapshot uni ti) out) ?kept []"
    have tr: "translate_event D uni (filter_snapshot J (pd_T D) (Some ns) ev i) cur = Inr \<lparr>sn_globals = translate_globals_raw D raw, sn_tenants = ?out\<rparr>"
      by (simp add: translate_event_def ty d')
    have low: "to_lower uni (ti_Host ti) = ti_Host ti" if "ti \<in> set ?kept" for ti
      using that assms(4) by (auto simp: PSnapshot payload_hosts_def list_all_iff)
    have keys: "map (\<lambda>ti. (to_lower uni (ti_Host ti), tenant_info_to_snapshot uni ti)) ?kept
        = map (\<lambda>ti. (ti_Host ti, tenant_info_to_snapshot uni ti)) ?kept" using low by simp
    have "distinct (map ti_Host (map (json_info nv) ts))" using assms(5) by (simp add: PSnapshot payload_hosts_def comp_def)
    then have dist: "distinct (map fst (map (\<lambda>ti. (ti_Host ti, tenant_info_to_snapshot uni ti)) ?kept))"
      by (simp add: comp_def distinct_map_filter)
    have out: "map_of ?out h = (if tenant_allowed ns i h then map_of (map (\<lambda>ti. (ti_Host ti, tenant_info_to_snapshot uni ti)) (map (json_info nv) ts)) h else None)" for h
      unfolding map_of_fold_put keys map_of_rev[OF dist] by (simp only: map_of.simps map_add_empty empty_map_add map_of_filtered)
    have infos: "map_option plain_versions (map_of (map (\<lambda>ti. (ti_Host ti, tenant_info_to_snapshot uni ti)) (map (json_info nv) ts)) h)
        = map_option (\<lambda>ti. tenant_info_to_snapshot uni (json_info nv ti)) (map_of (map (\<lambda>ti. (ti_Host ti, strip_version ti)) ts) h)" for h
      by (induction ts) (auto simp: plain_versions_info)
    show ?thesis
      unfolding one option.case by (simp add: tr proxy_abs_def proxy_view_def out infos globals_decode_translate[OF e(2)] tenant_replay_def PSnapshot fun_eq_iff
          del: map_map)
  next
    case (PGlobals g)
    then obtain raw where e: "te_gjson E g = Some raw" "globals_decode D nv g raw" using assms(1) by (auto simp: payload_decodes_def)
    have ev: "ev = \<lparr>ev_Type = EventGlobalsUpdate, ev_Data = raw, ev_Timestamp = now\<rparr>"
      using assms(2) e(1) by (simp add: PGlobals encode_payload_def new_globals_event_def)
    have one: "stream_one J (pd_T D) i (Some ns, ev) = Some ev"
      by (simp add: ev stream_one_def stream_allow_def types)
    have tr: "translate_event D uni ev cur = Inr (cur\<lparr>sn_globals := translate_globals_raw D raw\<rparr>)"
      by (simp add: ev translate_event_def types)
    have "snd (proxy_abs (cur\<lparr>sn_globals := translate_globals_raw D raw\<rparr>)) = snd (proxy_abs cur)" by (simp add: proxy_abs_def)
    then have "proxy_abs (cur\<lparr>sn_globals := translate_globals_raw D raw\<rparr>) = proxy_view nv uni (tenant_allowed ns i) (tenant_replay p v)"
      unfolding assms(7) by (simp add: prod_eq_iff proxy_view_def tenant_replay_def PGlobals globals_decode_translate[OF e(2)] proxy_abs_def
          cong: if_cong)
    then show ?thesis by (simp add: one tr)
  next
    case (PUpsert ti)
    then obtain q where e: "tj_info J ti = Some q" "tu_info (pd_T D) q = Some (json_info nv ti)" using assms(1) by (auto simp: payload_decodes_def)
    have ev: "ev = \<lparr>ev_Type = EventTenantUpsert, ev_Data = q, ev_Timestamp = now\<rparr>"
      using assms(2) e(1) by (simp add: PUpsert encode_payload_def new_tenant_upsert_event_def)
    have low: "to_lower uni (ti_Host ti) = ti_Host ti" using assms(4) by (simp add: PUpsert payload_hosts_def)
    show ?thesis
      using abs assms(3) low e(2) foreign
      by (auto simp: ev stream_one_def stream_allow_def translate_event_def types proxy_abs_def proxy_view_def tenant_replay_def PUpsert
          map_of_alist_put plain_versions_info fun_eq_iff)
  next
    case (PDelete h)
    then obtain q where e: "tj_delete J h = Some q" "tu_delete (pd_T D) q = Some h" using assms(1) by (auto simp: payload_decodes_def)
    have ev: "ev = \<lparr>ev_Type = EventTenantDelete, ev_Data = q, ev_Timestamp = now\<rparr>"
      using assms(2) e(1) by (simp add: PDelete encode_payload_def new_tenant_delete_event_def)
    have low: "to_lower uni h = h" using assms(4) by (simp add: PDelete payload_hosts_def)
    show ?thesis
      using abs assms(3) low e(2) foreign
      by (auto simp: ev stream_one_def stream_allow_def translate_event_def types proxy_abs_def proxy_view_def tenant_replay_def PDelete
          map_of_alist_del fun_eq_iff)
  qed
qed

lemma apply_event_accepted:
  assumes "apply_event_remote D uni ev (r, w) = (None, r', w')"
  shows "\<exists>nxt. translate_event D uni ev (rg_current r) = Inr nxt \<and> r' = r\<lparr>rg_current := nxt\<rparr>"
  using assms by (auto simp: apply_event_remote_def reload_def Let_def split: sum.splits if_splits)

lemma apply_events_accepted:
  assumes "apply_events_remote D uni (ev # evs) (r, w) = ([], r', w')"
  shows "\<exists>r1 w1. apply_event_remote D uni ev (r, w) = (None, r1, w1) \<and> apply_events_remote D uni evs (r1, w1) = ([], r', w')"
proof -
  obtain e r1 w1 where a: "apply_event_remote D uni ev (r, w) = (e, r1, w1)" by (cases "apply_event_remote D uni ev (r, w)") auto
  then show ?thesis using assms by (cases e) (auto split: prod.splits)
qed

text \<open>A mirror event changes nothing: the registry reloads what it has.\<close>

lemma mirror_event_kept:
  assumes "is_mirror_event ev" and "apply_event_remote D uni ev (r, w) = (None, r1, w1)"
  shows "rg_current r1 = rg_current r"
  using assms apply_event_accepted[OF assms(2)]
  by (auto simp: is_mirror_event_def translate_event_def stream_event_types EventMirrorSnapshot_def EventMirrorUpsert_def EventMirrorDelete_def)

lemma payload_run:
  assumes "i \<noteq> []"
  shows "map (encode_payload E J now) ps = map Some (filter (\<lambda>ev. \<not> is_mirror_event ev) evs) \<Longrightarrow>
    list_all (\<lambda>p. payload_decodes E J D nv p \<and> list_all (\<lambda>h. to_lower uni h = h) (payload_hosts p) \<and> distinct (payload_hosts p)) ps \<Longrightarrow>
    list_all (\<lambda>ev. snapshot_decodes J (pd_T D) i (Some ns, ev)) evs \<Longrightarrow>
    proxy_abs (rg_current r) = proxy_view nv uni (tenant_allowed ns i) v \<Longrightarrow>
    apply_events_remote D uni (List.map_filter (stream_one J (pd_T D) i) (map (Pair (Some ns)) evs)) (r, w) = ([], r', w') \<Longrightarrow>
    proxy_abs (rg_current r') = proxy_view nv uni (tenant_allowed ns i) (fold tenant_replay ps v)"
proof (induction evs arbitrary: ps r w v)
  case Nil
  then show ?case by (simp add: List.map_filter_simps)
next
  case (Cons ev evs)
  let ?sent = "List.map_filter (stream_one J (pd_T D) i) (map (Pair (Some ns)) evs)"
  show ?case
  proof (cases "is_mirror_event ev")
    case True
    then have "apply_events_remote D uni (ev # ?sent) (r, w) = ([], r', w')"
      using Cons.prems(5) by (simp add: List.map_filter_simps stream_one_mirror)
    from apply_events_accepted[OF this] obtain r1 w1 where r1: "apply_event_remote D uni ev (r, w) = (None, r1, w1)" "apply_events_remote D uni ?sent (r1, w1) = ([], r', w')"
      by auto
    then show ?thesis using Cons.IH[OF _ _ _ _ r1(2), of ps v] Cons.prems(1-4) True mirror_event_kept[OF True r1(1)] by simp
  next
    case False
    then obtain p ps' where ps: "ps = p # ps'" "encode_payload E J now p = Some ev" "map (encode_payload E J now) ps' = map Some (filter (\<lambda>ev. \<not> is_mirror_event ev) evs)"
      using Cons.prems(1) by (cases ps) auto
    have p: "payload_decodes E J D nv p" "list_all (\<lambda>h. to_lower uni h = h) (payload_hosts p)" "distinct (payload_hosts p)"
      and snap: "snapshot_decodes J (pd_T D) i (Some ns, ev)" using Cons.prems(2,3) ps(1) by simp_all
    note st = payload_step[OF p(1) ps(2) assms p(2,3) snap Cons.prems(4)]
    show ?thesis
    proof (cases "stream_one J (pd_T D) i (Some ns, ev)")
      case None
      then show ?thesis
        using Cons.IH[OF ps(3), of r "tenant_replay p v" w] Cons.prems st ps(1) by (simp add: List.map_filter_simps)
    next
      case (Some ev')
      then have "apply_events_remote D uni (ev' # ?sent) (r, w) = ([], r', w')"
        using Cons.prems(5) by (simp add: List.map_filter_simps)
      from apply_events_accepted[OF this] obtain r1 w1 where r1: "apply_event_remote D uni ev' (r, w) = (None, r1, w1)"
        "apply_events_remote D uni ?sent (r1, w1) = ([], r', w')"
        by auto
      obtain nxt where "translate_event D uni ev' (rg_current r) = Inr nxt" "r1 = r\<lparr>rg_current := nxt\<rparr>"
        using apply_event_accepted[OF r1(1)] by blast
      then have "proxy_abs (rg_current r1) = proxy_view nv uni (tenant_allowed ns i) (tenant_replay p v)" using st Some by simp
      then show ?thesis using Cons.IH[OF ps(3) _ _ _ r1(2), of "tenant_replay p v"] Cons.prems(2,3) ps(1) by simp
    qed
  qed
qed

lemma snapshot_first:
  assumes "payload_decodes E J D nv p" and "p = PSnapshot ts g ver" and "encode_payload E J now p = Some ev" and "i \<noteq> []"
    and "list_all (\<lambda>h. to_lower uni h = h) (payload_hosts p)" and "distinct (payload_hosts p)"
    and "snapshot_decodes J (pd_T D) i (Some ns, ev)"
  shows "\<exists>ev' nxt. stream_one J (pd_T D) i (Some ns, ev) = Some ev' \<and> (\<forall>cur. translate_event D uni ev' cur = Inr nxt)
    \<and> proxy_abs nxt = proxy_view nv uni (tenant_allowed ns i) (tenant_replay p v)"
proof -
  have ty: "ev_Type ev = EventSnapshot"
    using assms(2,3) by (auto simp: encode_payload_def new_snapshot_event_def)
  have "ev_Type (filter_snapshot J (pd_T D) (Some ns) ev i) = EventSnapshot"
    using ty by (auto simp: filter_snapshot_def split: option.splits)
  moreover have "stream_one J (pd_T D) i (Some ns, ev) = Some (filter_snapshot J (pd_T D) (Some ns) ev i)"
    using ty by (simp add: stream_one_def stream_allow_def)
  ultimately obtain ev' where ev': "stream_one J (pd_T D) i (Some ns, ev) = Some ev'" "ev_Type ev' = EventSnapshot" by blast
  define cur0 :: snapshot_state where
    "cur0 = \<lparr>sn_globals = fst (proxy_view nv uni (\<lambda>_. False) v), sn_tenants = []\<rparr>"
  have same: "translate_event D uni ev' cur = translate_event D uni ev' cur0" for cur
    using ev'(2) by (simp add: translate_event_def split: option.splits)
  have "\<exists>nxt. translate_event D uni ev' cur0 = Inr nxt \<and> proxy_abs nxt = proxy_view nv uni (tenant_allowed ns i) (tenant_replay p (fst v, Map.empty))"
    using payload_step[OF assms(1,3,4,5,6,7), of cur0 "(fst v, Map.empty)"] ev'(1)
    by (simp add: cur0_def proxy_abs_def proxy_view_def fun_eq_iff)
  moreover have "tenant_replay p (fst v, Map.empty) = tenant_replay p v" by (simp add: tenant_replay_def assms(2))
  ultimately show ?thesis using ev'(1) same by metis
qed

lemma snapshot_payload_hosts:
  assumes "tenants_ok reg"
  shows "distinct (payload_hosts (tenant_snapshot_payload reg))"
proof -
  have "map ti_Host (map (\<lambda>(h, t). tenant_info_from t (tg_version reg)) (tenant_map reg)) = map fst (tenant_map reg)"
    using assms by (auto simp: tenants_ok_def list_all_iff)
  then have "distinct (map ti_Host (map (\<lambda>(h, t). tenant_info_from t (tg_version reg)) (tenant_map reg)))"
    using assms by (simp only: tenants_ok_def)
  moreover have "distinct (map ti_Host (sort_key ti_Host xs)) \<longleftrightarrow> distinct (map ti_Host xs)" for xs by (simp add: distinct_map)
  ultimately show ?thesis unfolding tenant_snapshot_payload_def payload_hosts_def tenant_payload.case by blast
qed

lemma tenant_do_hosts:
  assumes "tenant_do E op reg = (oc, ps, reg')"
  shows "list_all (\<lambda>p. distinct (payload_hosts p)) ps"
proof (cases op)
  case (TUpsert ok ctx t)
  then have "upsert_tenant E ok ctx t reg = (oc, ps, reg')" using assms by simp
  then show ?thesis by (cases rule: upsert_tenant_cases) (simp_all add: payload_hosts_def)
next
  case (TDelete ok ctx h)
  then have "delete_tenant E ok ctx h reg = (oc, ps, reg')" using assms by simp
  then show ?thesis by (cases rule: delete_tenant_cases) (simp_all add: payload_hosts_def)
next
  case (TSetGlobals ok ctx g)
  then have "set_globals E ok ctx g reg = (oc, ps, reg')" using assms by simp
  then show ?thesis by (cases rule: set_globals_cases) (simp_all add: payload_hosts_def)
qed

lemma publish_run_hosts:
  "publish_run (tenant_step E) ops reg = (reg', ps) \<Longrightarrow> list_all (\<lambda>p. distinct (payload_hosts p)) ps"
proof (induction ops arbitrary: reg ps)
  case (Cons op ops)
  obtain oc ps1 reg1 where d: "tenant_do E op reg = (oc, ps1, reg1)" by (cases "tenant_do E op reg")
  obtain ps2 where "publish_run (tenant_step E) ops reg1 = (reg', ps2)" "ps = ps1 @ ps2"
    using Cons.prems d by (auto simp: tenant_step_def[of E op] split: prod.splits)
  then show ?case using Cons.IH tenant_do_hosts[OF d] by simp
qed simp

text \<open>From whatever the proxy has, the events of a session that starts with a snapshot lead to the state of the hub.\<close>

lemma payload_session:
  assumes "i \<noteq> []" and "p = PSnapshot ts g ver"
  shows "map (encode_payload E J now) (p # ps) = map Some (filter (\<lambda>ev. \<not> is_mirror_event ev) evs) \<Longrightarrow>
    list_all (\<lambda>p. payload_decodes E J D nv p \<and> list_all (\<lambda>h. to_lower uni h = h) (payload_hosts p) \<and> distinct (payload_hosts p)) (p # ps) \<Longrightarrow>
    list_all (\<lambda>ev. snapshot_decodes J (pd_T D) i (Some ns, ev)) evs \<Longrightarrow>
    apply_events_remote D uni (List.map_filter (stream_one J (pd_T D) i) (map (Pair (Some ns)) evs)) (r, w) = ([], r', w') \<Longrightarrow>
    proxy_abs (rg_current r') = proxy_view nv uni (tenant_allowed ns i) (fold tenant_replay (p # ps) v)"
proof (induction evs arbitrary: r w)
  case Nil
  then show ?case by simp
next
  case (Cons ev evs)
  let ?sent = "List.map_filter (stream_one J (pd_T D) i) (map (Pair (Some ns)) evs)"
  show ?case
  proof (cases "is_mirror_event ev")
    case True
    then have "apply_events_remote D uni (ev # ?sent) (r, w) = ([], r', w')"
      using Cons.prems(4) by (simp add: List.map_filter_simps stream_one_mirror)
    from apply_events_accepted[OF this] obtain r1 w1 where "apply_events_remote D uni ?sent (r1, w1) = ([], r', w')" by auto
    then show ?thesis using Cons.IH[of r1 w1] Cons.prems(1-3) True by simp
  next
    case False
    then have ev: "encode_payload E J now p = Some ev" "map (encode_payload E J now) ps = map Some (filter (\<lambda>ev. \<not> is_mirror_event ev) evs)"
      using Cons.prems(1) by simp_all
    obtain ev' nxt where ev': "stream_one J (pd_T D) i (Some ns, ev) = Some ev'" "\<forall>cur. translate_event D uni ev' cur = Inr nxt"
      "proxy_abs nxt = proxy_view nv uni (tenant_allowed ns i) (tenant_replay p v)"
      using snapshot_first[OF _ assms(2) ev(1) assms(1), of D nv uni ns v] Cons.prems(2,3) by auto
    have "apply_events_remote D uni (ev' # ?sent) (r, w) = ([], r', w')" using Cons.prems(4) ev'(1) by (simp add: List.map_filter_simps)
    from apply_events_accepted[OF this] obtain r1 w1 where r1: "apply_event_remote D uni ev' (r, w) = (None, r1, w1)"
      "apply_events_remote D uni ?sent (r1, w1) = ([], r', w')" by auto
    have "proxy_abs (rg_current r1) = proxy_view nv uni (tenant_allowed ns i) (tenant_replay p v)"
      using apply_event_accepted[OF r1(1)] ev'(2,3) by auto
    from payload_run[OF assms(1) ev(2) _ _ this r1(2)] show ?thesis using Cons.prems(2,3) by simp
  qed
qed

lemma proxy_session_sync:
  assumes "tenants_ok reg0" and "publish_run (tenant_step E) ops reg0 = (reg, ps)"
    and "map (encode_payload E J now) (tenant_snapshot_payload reg0 # ps) = map Some (filter (\<lambda>ev. \<not> is_mirror_event ev) evs)"
    and "list_all (\<lambda>p. payload_decodes E J D nv p \<and> list_all (\<lambda>h. to_lower uni h = h) (payload_hosts p)) (tenant_snapshot_payload reg0 # ps)"
    and "i \<noteq> []" and "list_all (\<lambda>ev. snapshot_decodes J (pd_T D) i (Some ns, ev)) evs"
    and "wire_events items = stream_loop J (pd_T D) i never 0 (map (Pair (Some ns)) evs)"
    and "list_all (wire_ok marshal unmarshal) (wire_events items)" and "url \<noteq> []"
    and "px_connect_and_consume D uni unmarshal never url (Connected 200 (wire_bytes marshal items) EndEOF) (r, w) = (err, [], r', w')"
  shows "err = None \<and> proxy_abs (rg_current r') = proxy_view nv uni (tenant_allowed ns i) (tenants_view reg)"
proof -
  let ?snap = "tenant_snapshot_payload reg0"
  have parse: "parse_sse_stream unmarshal never EndEOF (wire_bytes marshal items) = (wire_events items, None)"
    by (simp add: parse_sse_stream_eq sse_wire_roundtrip_parts(1)[OF assms(8)])
  have sent: "wire_events items = List.map_filter (stream_one J (pd_T D) i) (map (Pair (Some ns)) evs)"
    unfolding assms(7) by (rule stream_loop_complete) simp
  have run: "err = None" "apply_events_remote D uni (List.map_filter (stream_one J (pd_T D) i) (map (Pair (Some ns)) evs)) (r, w) = ([], r', w')"
    using assms(9,10) by (auto simp: px_connect_and_consume_def open_stream_def parse sent split: prod.splits)
  obtain ts g ver where spe: "?snap = PSnapshot ts g ver" by (simp add: tenant_snapshot_payload_def)
  have "list_all (\<lambda>p. payload_decodes E J D nv p \<and> list_all (\<lambda>h. to_lower uni h = h) (payload_hosts p) \<and> distinct (payload_hosts p)) (?snap # ps)"
    using assms(4) snapshot_payload_hosts[OF assms(1)] publish_run_hosts[OF assms(2)] by (auto simp: list_all_iff)
  from payload_session[OF assms(5) spe assms(3) this assms(6) run(2), of "tenants_view reg0"]
  have "proxy_abs (rg_current r') = proxy_view nv uni (tenant_allowed ns i) (tenants_view reg)"
    using tenant_replay_snapshot[OF assms(1)] tenant_pub.publish_run_replay[OF assms(1,2)] by simp
  then show ?thesis using run(1) by simp
qed

text \<open>
  C2 (refinement). End to end from hub to proxy: a proxy opens the config stream of a hub whose registry is in a good state, under the identity of node \<open>i\<close>, and the hub runs any operations on
  tenants and globals, succeeding or failing. The snapshot and the events are encoded, with any mirror events in between, filtered for the node, written as frames with keepalives in between, parsed and
  handed to the feature registry. If JSON keeps payloads up to the representation of parameter values, host names are lower case, the queue of the connection does not overflow and no reload is refused, then whatever the proxy had before, its feature registry ends
  with the hub's globals and with exactly the hub's tenants that the node store assigns to the node.
\<close>

theorem proxy_follows_hub:
  assumes "tenants_ok reg0" and "publish_run (tenant_step E) ops reg0 = (reg, ps)"
    and "map (encode_payload E J now) (tenant_snapshot_payload reg0 # ps) = map Some (filter (\<lambda>ev. \<not> is_mirror_event ev) evs)"
    and "list_all (\<lambda>p. payload_decodes E J D nv p \<and> list_all (\<lambda>h. to_lower uni h = h) (payload_hosts p)) (tenant_snapshot_payload reg0 # ps)"
    and "i \<noteq> []" and "list_all (\<lambda>ev. snapshot_decodes J (pd_T D) i (Some ns, ev)) evs"
    and "wire_events items = stream_loop J (pd_T D) i never 0 (map (Pair (Some ns)) evs)"
    and "list_all (wire_ok marshal unmarshal) (wire_events items)" and "url \<noteq> []"
    and "px_connect_and_consume D uni unmarshal never url (Connected 200 (wire_bytes marshal items) EndEOF) (r, w) = (err, [], r', w')"
  shows "err = None \<and> proxy_abs (rg_current r') = proxy_view nv uni (tenant_allowed ns i) (tenants_view reg)"
  by (rule proxy_session_sync[OF assms])

text \<open>A hub with an empty registry that stores one tenant, and a proxy whose node is assigned that tenant.\<close>

definition demo_proxy_encoders :: tenant_encoders where
  "demo_proxy_encoders = \<lparr>tj_snapshot = \<lambda>_ _ _. Some ''s'', tj_info = \<lambda>_. Some ''t'', tj_delete = \<lambda>_. None\<rparr>"

definition demo_proxy_decoders :: proxy_decoders where
  "demo_proxy_decoders =
     \<lparr>pd_T = \<lparr>tu_snapshot = \<lambda>_. Some ([], ''z'', 1), tu_info = \<lambda>_. Some (tenant_info_from sample_tenant 2), tu_delete = \<lambda>_. None\<rparr>,
      pd_globals = \<lambda>_. Some (Some []), pd_gsnap = \<lambda>_. None\<rparr>"

definition demo_tenant_events :: "config_stream_event list" where
  "demo_tenant_events =
     [\<lparr>ev_Type = EventSnapshot, ev_Data = ''s'', ev_Timestamp = 0\<rparr>, \<lparr>ev_Type = EventTenantUpsert, ev_Data = ''t'', ev_Timestamp = 0\<rparr>]"

definition demo_tenant_unmarshal :: "string \<Rightarrow> config_stream_event option" where
  "demo_tenant_unmarshal s = find (\<lambda>ev. ev_Type ev = s) demo_tenant_events"

lemma no_features_accept: "rg_order r = [] \<Longrightarrow> reload r g ts w = ([], r\<lparr>rg_current := \<lparr>sn_globals = g, sn_tenants = ts\<rparr>\<rparr>, w)"
  by (simp add: reload_def reload_errors_def notify_observers_def)

lemma sample_host_lower: "to_lower id ''a.example'' = ''a.example''"
  by (simp add: to_lower_def is_ascii_def ascii_lower_def)

lemma demo_upsert:
  "\<exists>reg. publish_run (tenant_step sample_tenant_env) [TUpsert True False sample_tenant] fresh_registry
      = (reg, [PUpsert (tenant_info_from sample_tenant 2)]) \<and> tenant_map reg = [(''a.example'', sample_tenant)] \<and> tg_globals reg = zero_globals"
proof -
  have same: "sample_tenant\<lparr>tc_Host := tc_Host sample_tenant\<rparr> = sample_tenant" by simp
  obtain d where "write_tenant sample_tenant_env True (tc_Host sample_tenant) sample_tenant (tg_data fresh_registry) = Inr d"
    unfolding write_tenant_def same by (simp add: sample_tenant_env_def atomic_write_def fresh_registry_def sample_tenant_def)
  then have "upsert_tenant sample_tenant_env True False sample_tenant fresh_registry
      = (TOk, [PUpsert (tenant_info_from sample_tenant 2)], fresh_registry\<lparr>tg_data := d, tg_tenants := Some [(''a.example'', sample_tenant)], tg_version := 2\<rparr>)"
    by (simp add: upsert_tenant_def fresh_registry_def Let_def sample_tenant_def[THEN arg_cong, of tc_Host])
  then show ?thesis by (simp add: tenant_step_def tenant_map_def fresh_registry_def)
qed

abbreviation demo_marshal :: "config_stream_event \<Rightarrow> string option" where
  "demo_marshal \<equiv> \<lambda>ev. Some (ev_Type ev)"

abbreviation demo_items :: "wire_item list" where
  "demo_items \<equiv> Keepalive # map Frame demo_tenant_events"

lemma demo_allowed: "tenant_allowed (demo_node [''a.example'']) ''n'' h \<longleftrightarrow> h = ''a.example''"
  by (auto simp: tenant_allowed_def demo_node_def)

lemma demo_wire:
  shows "wire_events demo_items = demo_tenant_events" and "list_all (wire_ok demo_marshal demo_tenant_unmarshal) (wire_events demo_items)"
    and "wire_events demo_items
      = stream_loop demo_proxy_encoders (pd_T demo_proxy_decoders) ''n'' never 0 (map (Pair (Some (demo_node [''a.example'']))) demo_tenant_events)"
proof -
  show we: "wire_events demo_items = demo_tenant_events" by (simp add: wire_events_def demo_tenant_events_def)
  show "list_all (wire_ok demo_marshal demo_tenant_unmarshal) (wire_events demo_items)"
    unfolding we by (simp add: demo_tenant_events_def wire_ok_def demo_tenant_unmarshal_def stream_event_types)
  have host: "tc_Host sample_tenant = ''a.example''" by (simp add: sample_tenant_def)
  show "wire_events demo_items
      = stream_loop demo_proxy_encoders (pd_T demo_proxy_decoders) ''n'' never 0 (map (Pair (Some (demo_node [''a.example'']))) demo_tenant_events)"
    unfolding we by (simp add: demo_tenant_events_def stream_one_def stream_allow_def filter_snapshot_def demo_proxy_encoders_def
        demo_proxy_decoders_def stream_event_types demo_allowed host)
qed

lemma demo_payloads:
  shows "map (encode_payload sample_tenant_env demo_proxy_encoders 0)
      (tenant_snapshot_payload fresh_registry # [PUpsert (tenant_info_from sample_tenant 2)]) = map Some (filter (\<lambda>ev. \<not> is_mirror_event ev) demo_tenant_events)"
    and "list_all (\<lambda>p. payload_decodes sample_tenant_env demo_proxy_encoders demo_proxy_decoders id p \<and> list_all (\<lambda>h. to_lower id h = h) (payload_hosts p))
      (tenant_snapshot_payload fresh_registry # [PUpsert (tenant_info_from sample_tenant 2)])"
    and "list_all (\<lambda>ev. snapshot_decodes demo_proxy_encoders (pd_T demo_proxy_decoders) ''n'' (Some (demo_node [''a.example'']), ev)) demo_tenant_events"
    and "tenants_ok fresh_registry"
proof -
  have snap: "tenant_snapshot_payload fresh_registry = PSnapshot [] zero_globals 1"
    by (simp add: tenant_snapshot_payload_def fresh_registry_def tenant_map_def)
  have gz: "te_gjson sample_tenant_env zero_globals = Some ''z''" "gc_Features zero_globals = []"
    by (simp_all add: sample_tenant_env_def bad_globals_def zero_globals_def)
  have host: "tc_Host sample_tenant = ''a.example''" by (simp add: sample_tenant_def)
  show "map (encode_payload sample_tenant_env demo_proxy_encoders 0)
      (tenant_snapshot_payload fresh_registry # [PUpsert (tenant_info_from sample_tenant 2)]) = map Some (filter (\<lambda>ev. \<not> is_mirror_event ev) demo_tenant_events)"
    by (simp add: snap encode_payload_def new_snapshot_event_def new_tenant_upsert_event_def demo_proxy_encoders_def demo_tenant_events_def
        is_mirror_event_def stream_event_types EventMirrorSnapshot_def EventMirrorUpsert_def EventMirrorDelete_def)
  show "list_all (\<lambda>p. payload_decodes sample_tenant_env demo_proxy_encoders demo_proxy_decoders id p \<and> list_all (\<lambda>h. to_lower id h = h) (payload_hosts p))
      (tenant_snapshot_payload fresh_registry # [PUpsert (tenant_info_from sample_tenant 2)])"
    by (simp add: snap payload_decodes_def gz globals_decode_def demo_proxy_encoders_def demo_proxy_decoders_def payload_hosts_def host sample_host_lower)
  show "list_all (\<lambda>ev. snapshot_decodes demo_proxy_encoders (pd_T demo_proxy_decoders) ''n'' (Some (demo_node [''a.example'']), ev)) demo_tenant_events"
    by (simp add: snapshot_decodes_def demo_tenant_events_def demo_proxy_encoders_def demo_proxy_decoders_def stream_event_types)
  show "tenants_ok fresh_registry" by (simp add: tenants_ok_def fresh_registry_def tenant_map_def)
qed

lemma demo_connect:
  assumes "rg_order r = []"
  shows "\<exists>r'. px_connect_and_consume demo_proxy_decoders id demo_tenant_unmarshal never ''http://hub''
      (Connected 200 (wire_bytes demo_marshal demo_items) EndEOF) (r, w) = (None, [], r', w)"
proof -
  have parse: "parse_sse_stream demo_tenant_unmarshal never EndEOF (wire_bytes demo_marshal demo_items) = (demo_tenant_events, None)"
    by (simp only: parse_sse_stream_eq sse_wire_roundtrip_parts(1)[OF demo_wire(2)] prod.case demo_wire(1))
  have "\<exists>r'. apply_events_remote demo_proxy_decoders id demo_tenant_events (r, w) = ([], r', w)"
    using assms by (simp add: demo_tenant_events_def apply_event_remote_def translate_event_def demo_proxy_decoders_def stream_event_types no_features_accept)
  then show ?thesis using parse by (auto simp: px_connect_and_consume_def open_stream_def)
qed

lemma demo_view:
  assumes "tenant_map reg = [(''a.example'', sample_tenant)]"
  shows "snd (proxy_view id id (tenant_allowed (demo_node [''a.example'']) ''n'') (tenants_view reg))
    = [''a.example'' \<mapsto> tenant_info_to_snapshot id (tenant_info_from sample_tenant 0)]"
  by (simp add: proxy_view_def tenants_view_def tenant_get_def assms demo_allowed fun_eq_iff)

theorem proxy_follows_hub_witness:
  "\<exists>r'. px_connect_and_consume demo_proxy_decoders id demo_tenant_unmarshal never ''http://hub''
       (Connected 200 (wire_bytes demo_marshal demo_items) EndEOF) (new_registry :: (unit, unit, unit) registry, ()) = (None, [], r', ())
     \<and> snd (proxy_abs (rg_current r')) = [''a.example'' \<mapsto> tenant_info_to_snapshot id (tenant_info_from sample_tenant 0)]"
proof -
  have "rg_order (new_registry :: (unit, unit, unit) registry) = []" by (simp add: new_registry_def)
  from demo_connect[OF this, of "()"] obtain r' where c: "px_connect_and_consume demo_proxy_decoders id demo_tenant_unmarshal never ''http://hub''
       (Connected 200 (wire_bytes demo_marshal demo_items) EndEOF) (new_registry :: (unit, unit, unit) registry, ()) = (None, [], r', ())" by blast
  obtain reg where reg: "publish_run (tenant_step sample_tenant_env) [TUpsert True False sample_tenant] fresh_registry
      = (reg, [PUpsert (tenant_info_from sample_tenant 2)])" "tenant_map reg = [(''a.example'', sample_tenant)]" using demo_upsert by blast
  have "proxy_abs (rg_current r') = proxy_view id id (tenant_allowed (demo_node [''a.example'']) ''n'') (tenants_view reg)"
    using proxy_follows_hub[OF demo_payloads(4) reg(1) demo_payloads(1,2) _ demo_payloads(3) demo_wire(3,2) _ c] by simp
  then show ?thesis using c demo_view[OF reg(2)] by simp
qed


subsection \<open>Recovery after lost connections\<close>

text \<open>A connection on which a hub serves node \<open>i\<close>: everything that following the hub asks of it, the JSON library and the wire.\<close>

definition hub_serves ::
  "tenant_env \<Rightarrow> tenant_encoders \<Rightarrow> proxy_decoders \<Rightarrow> (any_val \<Rightarrow> any_val) \<Rightarrow> (string \<Rightarrow> string) \<Rightarrow> node_store \<Rightarrow> string
     \<Rightarrow> (config_stream_event \<Rightarrow> string option) \<Rightarrow> (string \<Rightarrow> config_stream_event option) \<Rightarrow> tenant_registry \<Rightarrow> string \<Rightarrow> bool" where
  "hub_serves E J D nv uni ns i marshal unmarshal reg bytes \<longleftrightarrow>
     (\<exists>reg0 ops ps evs items now. tenants_ok reg0 \<and> publish_run (tenant_step E) ops reg0 = (reg, ps)
        \<and> map (encode_payload E J now) (tenant_snapshot_payload reg0 # ps) = map Some (filter (\<lambda>ev. \<not> is_mirror_event ev) evs)
        \<and> list_all (\<lambda>p. payload_decodes E J D nv p \<and> list_all (\<lambda>h. to_lower uni h = h) (payload_hosts p)) (tenant_snapshot_payload reg0 # ps)
        \<and> list_all (\<lambda>ev. snapshot_decodes J (pd_T D) i (Some ns, ev)) evs
        \<and> wire_events items = stream_loop J (pd_T D) i never 0 (map (Pair (Some ns)) evs)
        \<and> list_all (wire_ok marshal unmarshal) (wire_events items) \<and> bytes = wire_bytes marshal items)"

text \<open>The k-th wait, in nanoseconds: half a second doubled k times, and at most thirty seconds.\<close>

definition retry_delay :: "nat \<Rightarrow> duration" where
  "retry_delay k = min (500000000 * 2 ^ k) 30000000000"

lemma px_next_backoff_delay: "px_next_backoff (retry_delay k) px_max_backoff = retry_delay (Suc k)"
proof -
  have mx: "px_max_backoff = 30000000000" by (simp add: px_max_backoff_def second_def)
  have "0 < retry_delay k" "retry_delay k \<le> 30000000000" by (simp_all add: retry_delay_def)
  then have "wrap64 (retry_delay k * 2) = retry_delay k * 2" by (intro wrap64_id) (simp_all add: max_int64_def min_int64_def)
  then show ?thesis unfolding px_next_backoff_def Let_def mx by (auto simp: retry_delay_def)
qed

lemma remote_run_actions:
  "Wait (retry_delay k) # fst (remote_run D uni unmarshal url (retry_delay (Suc k)) rs rw)
     = concat (map (\<lambda>j. [Wait (retry_delay j), Attempt]) [k..<k + length rs]) @ [Wait (retry_delay (k + length rs))]"
proof (induction rs arbitrary: k rw)
  case (Cons res rs)
  have upt: "[k..<k + length (res # rs)] = k # [Suc k..<Suc k + length rs]" by (simp add: upt_conv_Cons del: upt_Suc)
  show ?case unfolding upt using Cons[of "Suc k"]
    by (cases "px_connect_and_consume D uni unmarshal never url res rw") (simp add: px_next_backoff_delay split_beta del: upt_Suc)
qed simp

text \<open>Reloads change nothing in a registry but its current snapshots.\<close>

lemma apply_event_registry: "\<exists>c. fst (snd (apply_event_remote D uni ev (r, w))) = r\<lparr>rg_current := c\<rparr>"
proof -
  have "\<exists>c. r = r\<lparr>rg_current := c\<rparr>" by (intro exI[of _ "rg_current r"]) simp
  then show ?thesis by (auto simp: apply_event_remote_def reload_def Let_def split: sum.splits)
qed

lemma apply_events_registry: "\<exists>c. fst (snd (apply_events_remote D uni evs (r, w))) = r\<lparr>rg_current := c\<rparr>"
proof (induction evs arbitrary: r w)
  case Nil
  show ?case by (intro exI[of _ "rg_current r"]) simp
next
  case (Cons ev evs)
  obtain e r1 w1 where a: "apply_event_remote D uni ev (r, w) = (e, r1, w1)" by (cases "apply_event_remote D uni ev (r, w)") auto
  then obtain c where r1: "r1 = r\<lparr>rg_current := c\<rparr>" using apply_event_registry[of D uni ev r w] by auto
  obtain c' where "fst (snd (apply_events_remote D uni evs (r1, w1))) = r1\<lparr>rg_current := c'\<rparr>" using Cons by blast
  then show ?case using a r1 by (auto split: prod.splits)
qed

lemma connect_registry:
  assumes "px_connect_and_consume D uni unmarshal ctx url res (r, w) = (e, es, r', w')"
  shows "\<exists>c. r' = r\<lparr>rg_current := c\<rparr>"
proof (cases "open_stream url res")
  case (Inl x)
  then show ?thesis using assms by (intro exI[of _ "rg_current r"]) (simp add: px_connect_and_consume_def)
next
  case (Inr y)
  then obtain evs where "apply_events_remote D uni evs (r, w) = (es, r', w')"
    using assms by (auto simp: px_connect_and_consume_def split: prod.splits)
  then show ?thesis using apply_events_registry[of D uni evs r w] by auto
qed

lemma remote_run_snoc:
  "remote_run D uni unmarshal url b (rs @ [res]) (r, w) = (acts, rw') \<Longrightarrow>
     \<exists>c w1 e es. px_connect_and_consume D uni unmarshal never url res (r\<lparr>rg_current := c\<rparr>, w1) = (e, es, rw')"
proof (induction rs arbitrary: b acts r w)
  case Nil
  then have "px_connect_and_consume D uni unmarshal never url res (r, w)
      = (fst (px_connect_and_consume D uni unmarshal never url res (r, w)), fst (snd (px_connect_and_consume D uni unmarshal never url res (r, w))), rw')"
    by (auto split: prod.splits)
  moreover have "r\<lparr>rg_current := rg_current r\<rparr> = r" by simp
  ultimately show ?case by metis
next
  case (Cons res' rs)
  obtain e es r1 w1 where c: "px_connect_and_consume D uni unmarshal never url res' (r, w) = (e, es, r1, w1)"
    by (cases "px_connect_and_consume D uni unmarshal never url res' (r, w)") auto
  obtain c1 where r1: "r1 = r\<lparr>rg_current := c1\<rparr>" using connect_registry[OF c] by blast
  obtain acts' where "remote_run D uni unmarshal url (px_next_backoff b px_max_backoff) (rs @ [res]) (r1, w1) = (acts', rw')"
    using Cons.prems by (auto simp: c split: prod.splits)
  from Cons.IH[OF this] show ?case by (simp add: r1)
qed

lemma remote_client_run_parts:
  assumes "remote_client_run D uni unmarshal url initial (rs @ [res]) (r, w) = (acts, rw')"
  shows "\<exists>c w1 e es. px_connect_and_consume D uni unmarshal never url res (r\<lparr>rg_current := c\<rparr>, w1) = (e, es, rw')"
    and "acts = Drain # concat (map (\<lambda>k. [Wait (retry_delay k), Attempt]) [0..<Suc (length rs)]) @ [Wait (retry_delay (Suc (length rs)))]"
proof -
  obtain buffered ending evs e where i: "initial = (buffered, ending)" "parse_sse_stream unmarshal never ending buffered = (evs, e)"
    by (metis surj_pair)
  obtain es r1 w1 where a: "apply_events_remote D uni evs (r, w) = (es, r1, w1)" by (rule prod_cases3)
  obtain c1 where r1: "r1 = r\<lparr>rg_current := c1\<rparr>" using apply_events_registry[of D uni evs r w] a by auto
  obtain acts' where run: "remote_run D uni unmarshal url (px_next_backoff px_min_backoff px_max_backoff) (rs @ [res]) (r1, w1) = (acts', rw')"
    "acts = Drain # Wait px_min_backoff # acts'"
    using assms by (auto simp: remote_client_run_def i a split: prod.splits)
  show "\<exists>c w1 e es. px_connect_and_consume D uni unmarshal never url res (r\<lparr>rg_current := c\<rparr>, w1) = (e, es, rw')"
    using remote_run_snoc[OF run(1)] by (simp add: r1)
  have b: "px_min_backoff = retry_delay 0" by (simp add: px_min_backoff_def second_def retry_delay_def)
  show "acts = Drain # concat (map (\<lambda>k. [Wait (retry_delay k), Attempt]) [0..<Suc (length rs)]) @ [Wait (retry_delay (Suc (length rs)))]"
    using remote_run_actions[of 0 D uni unmarshal url "rs @ [res]" "(r1, w1)"] run by (simp add: b px_next_backoff_delay)
qed

lemma hub_serves_sync:
  assumes "hub_serves E J D nv uni ns i marshal unmarshal reg bytes" and "i \<noteq> []" and "url \<noteq> []"
    and "px_connect_and_consume D uni unmarshal never url (Connected 200 bytes EndEOF) (r, w) = (e, [], r', w')"
  shows "proxy_abs (rg_current r') = proxy_view nv uni (tenant_allowed ns i) (tenants_view reg)"
proof -
  obtain reg0 ops ps evs items now where h: "tenants_ok reg0" "publish_run (tenant_step E) ops reg0 = (reg, ps)"
    "map (encode_payload E J now) (tenant_snapshot_payload reg0 # ps) = map Some (filter (\<lambda>ev. \<not> is_mirror_event ev) evs)"
    "list_all (\<lambda>p. payload_decodes E J D nv p \<and> list_all (\<lambda>h. to_lower uni h = h) (payload_hosts p)) (tenant_snapshot_payload reg0 # ps)"
    "list_all (\<lambda>ev. snapshot_decodes J (pd_T D) i (Some ns, ev)) evs"
    "wire_events items = stream_loop J (pd_T D) i never 0 (map (Pair (Some ns)) evs)"
    "list_all (wire_ok marshal unmarshal) (wire_events items)" "bytes = wire_bytes marshal items"
    using assms(1) unfolding hub_serves_def by (elim exE conjE) rule
  show ?thesis using proxy_session_sync[OF h(1-4) assms(2) h(5-7) assms(3) assms(4)[unfolded h(8)]] by blast
qed

text \<open>
  C12 (liveness). A remote proxy recovers. The goroutine of a client that is not closed first drains the connection that \<^verbatim>\<open>Start\<close> opened, however it goes on and ends; then it alternates between
  waiting and one attempt to connect, forever. The wait before its k-th attempt, the first being number 0, is half a second doubled k times and at most thirty seconds. Whatever the earlier attempts were,
  failing at once, answered with another status, broken off in the middle of a frame or with garbage, and whatever they left in the feature registry, the next connection on which the hub serves
  the node brings the proxy in sync with the hub, if no reload on that connection is refused.
\<close>

theorem remote_client_recovers:
  fixes r :: "('rs, 'h, 'w) registry"
  assumes "remote_client_run D uni unmarshal url initial (rs @ [Connected 200 bytes EndEOF]) (r, w) = (acts, r', w')"
    and "hub_serves E J D nv uni ns i marshal unmarshal reg bytes" and "i \<noteq> []" and "url \<noteq> []"
    and "\<forall>c (w1 :: 'w) e es rw2. px_connect_and_consume D uni unmarshal never url (Connected 200 bytes EndEOF) (r\<lparr>rg_current := c\<rparr>, w1) = (e, es, rw2)
           \<longrightarrow> es = []"
  shows "proxy_abs (rg_current r') = proxy_view nv uni (tenant_allowed ns i) (tenants_view reg)
    \<and> acts = Drain # concat (map (\<lambda>k. [Wait (retry_delay k), Attempt]) [0..<Suc (length rs)]) @ [Wait (retry_delay (Suc (length rs)))]"
proof -
  obtain c w1 e es where "px_connect_and_consume D uni unmarshal never url (Connected 200 bytes EndEOF) (r\<lparr>rg_current := c\<rparr>, w1) = (e, es, r', w')"
    using remote_client_run_parts(1)[OF assms(1)] by blast
  then have "px_connect_and_consume D uni unmarshal never url (Connected 200 bytes EndEOF) (r\<lparr>rg_current := c\<rparr>, w1) = (e, [], r', w')"
    using assms(5) by blast
  from hub_serves_sync[OF assms(2-4) this] remote_client_run_parts(2)[OF assms(1)] show ?thesis by (rule conjI)
qed

lemma demo_hub_serves:
  obtains reg where "tenant_map reg = [(''a.example'', sample_tenant)]" "tg_globals reg = zero_globals"
    "hub_serves sample_tenant_env demo_proxy_encoders demo_proxy_decoders id id (demo_node [''a.example'']) ''n'' demo_marshal demo_tenant_unmarshal reg
      (wire_bytes demo_marshal demo_items)"
proof -
  obtain reg where reg: "publish_run (tenant_step sample_tenant_env) [TUpsert True False sample_tenant] fresh_registry
      = (reg, [PUpsert (tenant_info_from sample_tenant 2)])" "tenant_map reg = [(''a.example'', sample_tenant)]" "tg_globals reg = zero_globals" using demo_upsert by blast
  have "hub_serves sample_tenant_env demo_proxy_encoders demo_proxy_decoders id id (demo_node [''a.example'']) ''n'' demo_marshal demo_tenant_unmarshal reg
      (wire_bytes demo_marshal demo_items)"
    unfolding hub_serves_def using demo_payloads reg(1) demo_wire(2,3) by blast
  then show thesis using that reg(2,3) by blast
qed

theorem remote_client_recovers_witness:
  "\<exists>acts r'. remote_client_run demo_proxy_decoders id demo_tenant_unmarshal ''http://hub'' (''garbage'', EndEOF)
       ([ConnectFailed ''refused'', Connected 500 [] EndEOF] @ [Connected 200 (wire_bytes demo_marshal demo_items) EndEOF])
       (new_registry :: (unit, unit, unit) registry, ()) = (acts, r', ())
     \<and> snd (proxy_abs (rg_current r')) = [''a.example'' \<mapsto> tenant_info_to_snapshot id (tenant_info_from sample_tenant 0)]
     \<and> acts = [Drain, Wait 500000000, Attempt, Wait 1000000000, Attempt, Wait 2000000000, Attempt, Wait 4000000000]"
proof -
  let ?rs = "[ConnectFailed ''refused'', Connected 500 [] EndEOF]"
  let ?r = "new_registry :: (unit, unit, unit) registry"
  obtain acts r' w' where run0: "remote_client_run demo_proxy_decoders id demo_tenant_unmarshal ''http://hub'' (''garbage'', EndEOF)
      (?rs @ [Connected 200 (wire_bytes demo_marshal demo_items) EndEOF]) (?r, ()) = (acts, r', w')" by (rule prod_cases3)
  have "w' = ()" by (rule unit_eq)
  note run = run0[unfolded this]
  obtain reg where reg: "tenant_map reg = [(''a.example'', sample_tenant)]"
    and serves: "hub_serves sample_tenant_env demo_proxy_encoders demo_proxy_decoders id id (demo_node [''a.example'']) ''n'' demo_marshal demo_tenant_unmarshal reg
      (wire_bytes demo_marshal demo_items)" by (rule demo_hub_serves)
  have "\<forall>c w1 e es rw2. px_connect_and_consume demo_proxy_decoders id demo_tenant_unmarshal never ''http://hub''
      (Connected 200 (wire_bytes demo_marshal demo_items) EndEOF) (?r\<lparr>rg_current := c\<rparr>, w1) = (e, es, rw2) \<longrightarrow> es = []"
  proof (intro allI impI)
    fix c w1 e es rw2
    assume a: "px_connect_and_consume demo_proxy_decoders id demo_tenant_unmarshal never ''http://hub''
      (Connected 200 (wire_bytes demo_marshal demo_items) EndEOF) (?r\<lparr>rg_current := c\<rparr>, w1) = (e, es, rw2)"
    have "rg_order (?r\<lparr>rg_current := c\<rparr>) = []" by (simp add: new_registry_def)
    from demo_connect[OF this, of w1] a show "es = []" by auto
  qed
  from remote_client_recovers[OF run serves _ _ this] have "snd (proxy_abs (rg_current r')) = [''a.example'' \<mapsto> tenant_info_to_snapshot id (tenant_info_from sample_tenant 0)]"
    "acts = [Drain, Wait 500000000, Attempt, Wait 1000000000, Attempt, Wait 2000000000, Attempt, Wait 4000000000]"
    using demo_view[OF reg] by (simp_all add: retry_delay_def)
  then show ?thesis using run by blast
qed


subsection \<open>Local and remote mode agree\<close>

lemma translated_tenants:
  assumes "distinct (map fst ts)" and "list_all (\<lambda>(h, t). tc_Host t = h \<and> to_lower uni h = h) ts"
  shows "map_option plain_versions (map_of (translate_tenants_conf uni ts) h)
    = map_option (\<lambda>t. tenant_info_to_snapshot uni (tenant_info_from t 0)) (map_of ts h)"
proof -
  let ?f = "\<lambda>(h, t). \<lparr>ts_Host = to_lower uni (tc_Host t), ts_Enabled = tc_Enabled t,
      ts_Features = (\<lambda>name. map_option feature_conf_snapshot (map_of (tc_Features t) name))\<rparr>"
  have fold: "translate_tenants_conf uni ts = fold (\<lambda>x out. alist_put (to_lower uni (fst x)) (?f x) out) ts []"
    unfolding translate_tenants_conf_def by (rule fold_cong) auto
  have keys: "map (\<lambda>x. (to_lower uni (fst x), ?f x)) ts = map (\<lambda>x. (fst x, ?f x)) ts" using assms(2) by (auto simp: list_all_iff)
  have d: "distinct (map fst (map (\<lambda>x. (fst x, ?f x)) ts))" using assms(1) by (simp add: comp_def)
  have "map_of (translate_tenants_conf uni ts) = map_of (map (\<lambda>x. (fst x, ?f x)) ts)"
    unfolding fold map_of_fold_put keys map_of_rev[OF d] by simp
  moreover have "plain_versions (?f (h', t)) = tenant_info_to_snapshot uni (tenant_info_from t 0)" for h' t
    by (auto simp: plain_versions_def tenant_info_to_snapshot_def tenant_info_from_def map_of_map feature_conf_snapshot_def fun_eq_iff
        option.map_comp comp_def intro!: option.map_cong)
  then have "map_option plain_versions (map_of (map (\<lambda>x. (fst x, ?f x)) ts) h)
      = map_option (\<lambda>t. tenant_info_to_snapshot uni (tenant_info_from t 0)) (map_of ts h)"
    by (induction ts) (auto simp del: split_paired_All)
  ultimately show ?thesis by simp
qed

lemma apply_event_local_view:
  assumes "tenants_ok reg" and "list_all (\<lambda>(h, t). to_lower uni h = h) (tenant_map reg)"
    and "apply_event_local uni reg (r, w) = (None, r', w')"
  shows "proxy_abs (rg_current r') = proxy_view id uni (\<lambda>_. True) (tenants_view reg)"
proof -
  have ok: "distinct (map fst (tenant_map reg))" "list_all (\<lambda>(h, t). tc_Host t = h \<and> to_lower uni h = h) (tenant_map reg)"
    using assms(1,2) by (auto simp: tenants_ok_def list_all_iff)
  have "rg_current r' = \<lparr>sn_globals = translate_globals (gc_Features (tg_globals reg)), sn_tenants = translate_tenants_conf uni (tenant_map reg)\<rparr>"
    using assms(3) by (auto simp: apply_event_local_def tenant_snapshot_of_def reload_def Let_def split: if_splits)
  then show ?thesis
    by (simp add: proxy_abs_def proxy_view_def tenants_view_def tenant_get_def translated_tenants[OF ok] option.map_comp comp_def)
qed

lemma local_run_last:
  "local_run uni (hregs @ [reg]) (r, w) = ([], r', w') \<Longrightarrow> \<exists>r1 w1. apply_event_local uni reg (r1, w1) = (None, r', w')"
proof (induction hregs arbitrary: r w)
  case Nil
  then show ?case by (auto split: prod.splits option.splits)
next
  case (Cons h hregs)
  obtain e r1 w1 where "apply_event_local uni h (r, w) = (e, r1, w1)" by (rule prod_cases3)
  then have "local_run uni (hregs @ [reg]) (r1, w1) = ([], r', w')" using Cons.prems by (auto split: prod.splits option.splits)
  then show ?case by (rule Cons.IH)
qed

text \<open>
  C33 (equivalence). Local and remote mode give a proxy the same configuration. A local client follows a hub through any states, ending in one with lower-case host names; a remote client consumes
  a connection on which the hub serves its node and ends in that state, and the node is assigned every tenant. If no reload is refused on either side and JSON changes no parameter, then whatever the
  two feature registries had before, they end with the same globals and the same tenants, up to the version stamps of feature snapshots.
\<close>

theorem local_remote_agree:
  assumes "hub_serves E J D id uni ns i marshal unmarshal reg bytes" and "\<forall>h. tenant_allowed ns i h" and "i \<noteq> []" and "url \<noteq> []"
    and "list_all (\<lambda>(h, t). to_lower uni h = h) (tenant_map reg)"
    and "px_connect_and_consume D uni unmarshal never url (Connected 200 bytes EndEOF) (rr, wr) = (err, [], rr', wr')"
    and "local_run uni (hregs @ [reg]) (rl, wl) = ([], rl', wl')"
  shows "proxy_abs (rg_current rl') = proxy_abs (rg_current rr')"
proof -
  obtain reg0 ops ps where "tenants_ok reg0" "publish_run (tenant_step E) ops reg0 = (reg, ps)" using assms(1) unfolding hub_serves_def by blast
  then have ok: "tenants_ok reg" by (rule tenant_pub.publish_run_inv)
  obtain r1 w1 where "apply_event_local uni reg (r1, w1) = (None, rl', wl')" using local_run_last[OF assms(7)] by blast
  moreover have "tenant_allowed ns i = (\<lambda>_. True)" using assms(2) by auto
  ultimately show ?thesis using apply_event_local_view[OF ok assms(5)] hub_serves_sync[OF assms(1,3,4,6)] by simp
qed

lemma demo_local_run:
  assumes "rg_order r = []"
  shows "\<exists>r'. local_run id [h1, h2] (r, w) = ([], r', w)"
  using assms by (simp add: apply_event_local_def no_features_accept split: prod.split)

text \<open>A node that is assigned every tenant, and the hub of the example above.\<close>

theorem local_remote_agree_witness:
  "\<exists>reg (rl' :: (unit, unit, unit) registry) (rr' :: (unit, unit, unit) registry).
     px_connect_and_consume demo_proxy_decoders id demo_tenant_unmarshal never ''http://hub''
       (Connected 200 (wire_bytes demo_marshal demo_items) EndEOF) (new_registry, ()) = (None, [], rr', ())
     \<and> tenant_map reg = [(''a.example'', sample_tenant)] \<and> local_run id ([fresh_registry] @ [reg]) (new_registry, ()) = ([], rl', ())
     \<and> proxy_abs (rg_current rl') = proxy_abs (rg_current rr')"
proof -
  let ?ns = "demo_node [''*'']"
  have order: "rg_order (new_registry :: (unit, unit, unit) registry) = []" by (simp add: new_registry_def)
  from demo_connect[OF this, of "()"] obtain rr' where c: "px_connect_and_consume demo_proxy_decoders id demo_tenant_unmarshal never ''http://hub''
       (Connected 200 (wire_bytes demo_marshal demo_items) EndEOF) (new_registry :: (unit, unit, unit) registry, ()) = (None, [], rr', ())" by blast
  obtain reg where reg: "publish_run (tenant_step sample_tenant_env) [TUpsert True False sample_tenant] fresh_registry
      = (reg, [PUpsert (tenant_info_from sample_tenant 2)])" "tenant_map reg = [(''a.example'', sample_tenant)]" using demo_upsert by blast
  have all: "\<forall>h. tenant_allowed ?ns ''n'' h" by (simp add: tenant_allowed_def demo_node_def)
  have sent: "wire_events demo_items
      = stream_loop demo_proxy_encoders (pd_T demo_proxy_decoders) ''n'' never 0 (map (Pair (Some ?ns)) demo_tenant_events)"
    unfolding demo_wire(1) using all by (simp add: demo_tenant_events_def stream_one_def stream_allow_def filter_snapshot_def demo_proxy_encoders_def
        demo_proxy_decoders_def stream_event_types)
  have dec: "list_all (\<lambda>ev. snapshot_decodes demo_proxy_encoders (pd_T demo_proxy_decoders) ''n'' (Some ?ns, ev)) demo_tenant_events"
    by (simp add: snapshot_decodes_def demo_tenant_events_def demo_proxy_encoders_def demo_proxy_decoders_def stream_event_types)
  have serves: "hub_serves sample_tenant_env demo_proxy_encoders demo_proxy_decoders id id ?ns ''n'' demo_marshal demo_tenant_unmarshal reg (wire_bytes demo_marshal demo_items)"
    unfolding hub_serves_def using demo_payloads(1,2,4) reg(1) demo_wire(2) sent dec by blast
  obtain rl' where l: "local_run id ([fresh_registry] @ [reg]) (new_registry :: (unit, unit, unit) registry, ()) = ([], rl', ())"
    using demo_local_run[OF order, of fresh_registry reg "()"] by auto
  have "proxy_abs (rg_current rl') = proxy_abs (rg_current rr')"
    using local_remote_agree[OF serves all _ _ _ c l] by (simp add: reg(2) sample_host_lower)
  then show ?thesis using c l reg(2) by blast
qed


subsection \<open>Starting without a snapshot\<close>

definition tenant_event_types :: "string list" where
  "tenant_event_types = [EventSnapshot, EventTenantUpsert, EventTenantDelete, EventGlobalsUpdate]"

definition reload_refused :: "('rs, 'h, 'w) registry \<Rightarrow> snapshot_state \<Rightarrow> bool" where
  "reload_refused r nxt \<longleftrightarrow>
     (\<exists>name f host t cfg msg. name \<in> set (rg_order r) \<and> rg_features r name = Some f \<and> (host, t) \<in> set (sn_tenants nxt)
        \<and> ts_Features t name = Some cfg \<and> f_Validate f cfg = Some msg)"

lemma reload_refused_errors:
  assumes "reload_refused r nxt"
  shows "reload_errors r (sn_globals nxt) (sn_tenants nxt) \<noteq> []"
proof -
  obtain name f host t cfg msg where x: "name \<in> set (rg_order r)" "rg_features r name = Some f" "(host, t) \<in> set (sn_tenants nxt)"
    "ts_Features t name = Some cfg" "f_Validate f cfg = Some msg"
    using assms unfolding reload_refused_def by blast
  have "TenantError name host msg \<in> set (validate_feature (sn_globals nxt) (sn_tenants nxt) f name)"
    using x(3-5) by (force simp: validate_feature_def Let_def)
  then show ?thesis using x(1,2) by (fastforce simp: reload_errors_def)
qed

text \<open>
  \<^verbatim>\<open>Start\<close> reports success as soon as one event has been read. If that event is a mirror event, which the hub may send first because the two subscriptions are drained
  independently, or a snapshot in which some feature refuses the settings of a single tenant, then the feature registry is left as it was: on a fresh process it
  has no globals and no tenants, and the proxy starts serving.
\<close>

theorem start_may_leave_registry_empty:
  assumes "parse_one_sse_event unmarshal ctx ending body = ([ev], rest, None)" and "url \<noteq> []"
    and "ev_Type ev \<notin> set tenant_event_types \<or> (\<exists>nxt. translate_event D uni ev (rg_current r) = Inr nxt \<and> reload_refused r nxt)"
  shows "\<exists>r' w'. remote_start D uni unmarshal ctx url (Connected 200 body ending) (r, w) = (Inr rest, r', w') \<and> rg_current r' = rg_current r"
proof -
  have "rg_current (fst (snd (apply_event_remote D uni ev (r, w)))) = rg_current r"
  proof (cases "ev_Type ev \<in> set tenant_event_types")
    case True
    then obtain nxt where "translate_event D uni ev (rg_current r) = Inr nxt" "reload_refused r nxt" using assms(3) by blast
    then show ?thesis using reload_refused_errors[of r nxt] by (simp add: apply_event_remote_def reload_def Let_def)
  next
    case False
    then have "translate_event D uni ev (rg_current r) = Inr (rg_current r)" by (auto simp: translate_event_def tenant_event_types_def)
    then show ?thesis by (auto simp: apply_event_remote_def reload_def Let_def split: prod.splits)
  qed
  moreover obtain e r' w' where "apply_event_remote D uni ev (r, w) = (e, r', w')" by (cases "apply_event_remote D uni ev (r, w)") auto
  ultimately show ?thesis using assms(1,2) by (cases e) (simp_all add: remote_start_def open_stream_def)
qed

theorem start_may_leave_registry_empty_witness:
  "\<exists>body r'. fst (remote_start demo_proxy_decoders id (\<lambda>_. None) never ''http://hub'' (Connected 200 body EndEOF)
        (new_registry :: (unit, unit, unit) registry, ())) = Inr []
     \<and> fst (snd (remote_start demo_proxy_decoders id (\<lambda>_. None) never ''http://hub'' (Connected 200 body EndEOF)
        (new_registry :: (unit, unit, unit) registry, ()))) = r' \<and> rg_current r' = rg_current (new_registry :: (unit, unit, unit) registry)"
proof -
  let ?nl = "CHR 0x0A"
  let ?body = "''event: mirror_snapshot'' @ [?nl] @ ''data: x'' @ [?nl, ?nl]"
  let ?ev = "\<lparr>ev_Type = ''mirror_snapshot'', ev_Data = ''x'', ev_Timestamp = zero_time\<rparr>"
  have p: "parse_one_sse_event (\<lambda>_. None) never EndEOF ?body = ([?ev], [], None)"
    by (simp add: parse_one_sse_event_def read_sse_events.simps trim_right_crlf_def handle_sse_line_def has_prefix_def sse_init_def
        sse_flush_def flush_event_def Let_def)
  have "ev_Type ?ev \<notin> set tenant_event_types" by (simp add: tenant_event_types_def stream_event_types)
  then obtain r' :: "(unit, unit, unit) registry" and w' where
    "remote_start demo_proxy_decoders id (\<lambda>_. None) never ''http://hub'' (Connected 200 ?body EndEOF) (new_registry, ()) = (Inr [], r', w')"
    "rg_current r' = rg_current (new_registry :: (unit, unit, unit) registry)"
    using start_may_leave_registry_empty[OF p, of "''http://hub''" demo_proxy_decoders id new_registry "()"] by auto
  then show ?thesis by (intro exI[of _ ?body] exI[of _ r']) simp
qed


end
