(* ===== verification/Edge.thy ===== *)
theory Edge
  imports Proxysnap
begin

text \<open>
  The edge of a proxy: the Cloudflare filter, \<^verbatim>\<open>internal/proxy/cloudflare.go\<close>, and the host router, \<^verbatim>\<open>internal/proxy/router.go\<close>. The filter's two downloads are outcomes of the
  environment; \<^verbatim>\<open>net.ParseIP\<close>, \<^verbatim>\<open>net.ParseCIDR\<close> and \<^verbatim>\<open>IPNet.Contains\<close> are the parameter \<open>net_lib\<close>. The refresh loop is run over the outcomes of its ticks and yields the delays it
  sets its timer to. What the router does with a request is a value of \<open>edge_outcome\<close>. The theorems show when the ranges change, how fast the loop retries, which requests the router
  passes on, and with theory \<open>Proxysnap\<close> that a proxy serves exactly the enabled tenants that the hub assigns to its node.
\<close>

subsection \<open>The Cloudflare filter\<close>

definition refreshInterval :: duration where "refreshInterval = 24 * 3600 * second"
definition retryBaseInterval :: duration where "retryBaseInterval = 60 * second"

record ('n, 'ip) net_lib =
  nl_ParseIP :: "string \<Rightarrow> 'ip option"
  nl_ParseCIDR :: "string \<Rightarrow> 'n option"
  nl_Contains :: "'n \<Rightarrow> 'ip \<Rightarrow> bool"

record 'n cf_validator =
  cf_nets :: "'n list"
  cf_enabled :: bool

text \<open>One download: a transport error, or a status with the lines of the body and whether reading them ended in an error.\<close>

datatype cf_download = DownloadFailed | Downloaded int "string list" bool

datatype cf_error = CfGet | CfStatus int | CfScan | CfNoRanges

definition fetch_cf_ranges :: "('n, 'ip) net_lib \<Rightarrow> cf_download \<Rightarrow> cf_error + 'n list" where
  "fetch_cf_ranges N d =
     (case d of
        DownloadFailed \<Rightarrow> Inl CfGet
      | Downloaded status body_lines scan_failed \<Rightarrow>
          if status \<noteq> 200 then Inl (CfStatus status)
          else
            (let nets = List.map_filter (\<lambda>l. let line = trim_space l in if line = [] then None else nl_ParseCIDR N line) body_lines
             in if scan_failed then Inl CfScan else if nets = [] then Inl CfNoRanges else Inr nets))"

definition cf_refresh :: "('n, 'ip) net_lib \<Rightarrow> cf_download \<times> cf_download \<Rightarrow> 'n cf_validator \<Rightarrow> cf_error option \<times> 'n cf_validator" where
  "cf_refresh N ds v =
     (case fetch_cf_ranges N (fst ds) of
        Inl e \<Rightarrow> (Some e, v)
      | Inr nets4 \<Rightarrow>
          (case fetch_cf_ranges N (snd ds) of
             Inl e \<Rightarrow> (Some e, v)
           | Inr nets6 \<Rightarrow>
               (let combined = nets4 @ nets6
                in if combined = [] then (Some CfNoRanges, v) else (None, v\<lparr>cf_nets := combined\<rparr>))))"

text \<open>The constructor ignores the result of its first refresh.\<close>

definition new_cf_validator :: "('n, 'ip) net_lib \<Rightarrow> bool \<Rightarrow> cf_download \<times> cf_download \<Rightarrow> 'n cf_validator" where
  "new_cf_validator N enabled ds =
     (let v = \<lparr>cf_nets = [], cf_enabled = enabled\<rparr> in if enabled then snd (cf_refresh N ds v) else v)"

text \<open>The doubling loop, from \<^verbatim>\<open>i = 1\<close> up to the number of failures.\<close>

fun cf_double :: "nat \<Rightarrow> duration \<Rightarrow> duration" where
  "cf_double 0 cur = cur"
| "cf_double (Suc n) cur =
     (let d = wrap64 (cur * 2) in if d \<ge> refreshInterval then refreshInterval else cf_double n d)"

definition cf_retry_delay :: "nat \<Rightarrow> duration" where
  "cf_retry_delay n = cf_double (n - 1) retryBaseInterval"

text \<open>Ticks of the refresh loop: the delay that the timer is set to after each, and the validator.\<close>

fun cf_refresh_loop :: "('n, 'ip) net_lib \<Rightarrow> (cf_download \<times> cf_download) list \<Rightarrow> nat \<Rightarrow> 'n cf_validator \<Rightarrow> duration list \<times> 'n cf_validator" where
  "cf_refresh_loop N [] n v = ([], v)"
| "cf_refresh_loop N (ds # rest) n v =
     (case cf_refresh N ds v of
        (Some e, v1) \<Rightarrow> (case cf_refresh_loop N rest (Suc n) v1 of (delays, v2) \<Rightarrow> (cf_retry_delay (Suc n) # delays, v2))
      | (None, v1) \<Rightarrow> (case cf_refresh_loop N rest 0 v1 of (delays, v2) \<Rightarrow> (refreshInterval # delays, v2)))"

text \<open>The life of a validator: the first delay is set before anything is known about the first refresh.\<close>

definition cf_life :: "('n, 'ip) net_lib \<Rightarrow> bool \<Rightarrow> cf_download \<times> cf_download \<Rightarrow> (cf_download \<times> cf_download) list \<Rightarrow> duration list \<times> 'n cf_validator" where
  "cf_life N enabled first ticks =
     (let v = new_cf_validator N enabled first
      in if enabled then (case cf_refresh_loop N ticks 0 v of (delays, v') \<Rightarrow> (refreshInterval # delays, v')) else ([], v))"

definition is_cloudflare_ip :: "('n, 'ip) net_lib \<Rightarrow> 'n cf_validator \<Rightarrow> string \<Rightarrow> bool" where
  "is_cloudflare_ip N v ipStr =
     (if \<not> cf_enabled v then True
      else (case nl_ParseIP N ipStr of None \<Rightarrow> False | Some ip \<Rightarrow> list_ex (\<lambda>cidr. nl_Contains N cidr ip) (cf_nets v)))"

text \<open>Whether the middleware passes a request on; otherwise it answers 403.\<close>

definition cf_passes :: "('n, 'ip) net_lib \<Rightarrow> 'n cf_validator \<Rightarrow> string \<Rightarrow> bool" where
  "cf_passes N v remoteAddr =
     (if \<not> cf_enabled v then True
      else (let ip = (case split_host_port remoteAddr of None \<Rightarrow> [] | Some h \<Rightarrow> h) in is_cloudflare_ip N v ip))"

subsection \<open>The host router\<close>

definition defaultImplicitTenantHost :: string where "defaultImplicitTenantHost = ''default''"

record registry_lookup =
  lk_tenants :: "(string \<times> tenant_snapshot) list"
  lk_implicit :: "tenant_snapshot option"
  lk_blockAction :: "string option"
  lk_blockTimeout :: "duration option"

definition lookup_host :: "registry_lookup \<Rightarrow> string \<Rightarrow> tenant_snapshot option" where
  "lookup_host l host =
     (if lk_tenants l = [] \<and> lk_implicit l \<noteq> None then lk_implicit l else map_of (lk_tenants l) host)"

definition block_default :: "registry_lookup \<Rightarrow> string" where
  "block_default l =
     (case lk_blockAction l of
        None \<Rightarrow> BlockActionNotFound
      | Some a \<Rightarrow> if \<not> block_action_is_valid a then BlockActionNotFound else a)"

definition block_timeout :: "registry_lookup \<Rightarrow> duration" where
  "block_timeout l = (case lk_blockTimeout l of None \<Rightarrow> 0 | Some d \<Rightarrow> d)"

text \<open>\<^verbatim>\<open>newRegistryLookup\<close>, with the tenants that the feature registry has at the time of a request.\<close>

definition new_registry_lookup :: "(string \<Rightarrow> string) \<Rightarrow> config option \<Rightarrow> (string \<times> tenant_snapshot) list \<Rightarrow> registry_lookup" where
  "new_registry_lookup uni cfg tenants =
     \<lparr>lk_tenants = tenants,
      lk_implicit =
        (case cfg of
           None \<Rightarrow> None
         | Some c \<Rightarrow>
             if cf_Mode c = ModeLocal \<and> cf_Backends c \<noteq> [] then
               Some \<lparr>ts_Host = (if cf_Domain c \<noteq> [] then to_lower uni (cf_Domain c) else defaultImplicitTenantHost),
                     ts_Enabled = True, ts_Features = Map.empty\<rparr>
             else None),
      lk_blockAction = Some BlockActionNotFound, lk_blockTimeout = Some 0\<rparr>"

definition extract_host :: "(string \<Rightarrow> string) \<Rightarrow> string \<Rightarrow> string" where
  "extract_host uni host =
     (if host = [] then []
      else (case index_byte host CHR '':'' of None \<Rightarrow> to_lower uni host | Some idx \<Rightarrow> to_lower uni (take idx host)))"

text \<open>What becomes of a request: it goes on with a tenant, it is answered with a status and an empty body, or its connection is closed; in both cases after a delay.\<close>

datatype edge_outcome = Served tenant_snapshot | Answered duration int | Closed duration

definition hijack_or_empty :: "bool \<Rightarrow> duration \<Rightarrow> int \<Rightarrow> edge_outcome" where
  "hijack_or_empty hijacked slept fallbackCode =
     (if \<not> hijacked then Answered slept (if fallbackCode = 0 then 400 else fallbackCode) else Closed slept)"

definition apply_block_action :: "bool \<Rightarrow> duration option \<Rightarrow> string \<Rightarrow> duration \<Rightarrow> edge_outcome" where
  "apply_block_action hijacked cancelled action timeout =
     (if action = BlockActionNotFound then Answered 0 404
      else if action = BlockActionTooMany then Answered 0 429
      else if action = BlockActionTimeout then
        (let sleep = (if timeout \<le> 0 then 30 * second else timeout);
             slept = (case cancelled of None \<Rightarrow> sleep | Some c \<Rightarrow> min c sleep)
         in hijack_or_empty hijacked slept 504)
      else if action = BlockActionDrop then hijack_or_empty hijacked 0 0
      else Answered 0 404)"

definition host_router :: "(string \<Rightarrow> string) \<Rightarrow> registry_lookup \<Rightarrow> bool \<Rightarrow> duration option \<Rightarrow> string \<Rightarrow> edge_outcome" where
  "host_router uni l hijacked cancelled rHost =
     (let host = extract_host uni rHost in
      case lookup_host l host of
        None \<Rightarrow> Answered 0 421
      | Some tenant \<Rightarrow>
          if \<not> ts_Enabled tenant then apply_block_action hijacked cancelled (block_default l) (block_timeout l)
          else Served tenant)"


subsection \<open>Ranges and retries\<close>

lemma cf_interval_values: "retryBaseInterval = 60000000000" "refreshInterval = 86400000000000"
  by (simp_all add: retryBaseInterval_def refreshInterval_def second_def)

lemma cf_double_closed:
  assumes "0 < cur" and "cur \<le> refreshInterval"
  shows "cf_double n cur = min (cur * 2 ^ n) refreshInterval"
  using assms
proof (induction n arbitrary: cur)
  case (Suc n)
  have w: "wrap64 (cur * 2) = cur * 2"
    using Suc.prems by (intro wrap64_id) (simp_all add: min_int64_def max_int64_def cf_interval_values)
  show ?case
  proof (cases "cur * 2 \<ge> refreshInterval")
    case True
    have "(1 :: int) \<le> 2 ^ n" by simp
    then have "cur * 2 * 1 \<le> cur * 2 * 2 ^ n" using Suc.prems by (intro mult_left_mono) simp_all
    then show ?thesis using True w by (simp add: min_def mult.assoc)
  next
    case False
    then show ?thesis using Suc.IH[of "cur * 2"] Suc.prems w by (simp add: mult.assoc)
  qed
qed simp

lemma cf_retry_closed: "cf_retry_delay (Suc k) = min (retryBaseInterval * 2 ^ k) refreshInterval"
  using cf_double_closed[of retryBaseInterval k] by (simp add: cf_retry_delay_def cf_interval_values)

definition cf_combined :: "('n, 'ip) net_lib \<Rightarrow> cf_download \<times> cf_download \<Rightarrow> 'n list option" where
  "cf_combined N ds =
     (case (fetch_cf_ranges N (fst ds), fetch_cf_ranges N (snd ds)) of (Inr nets4, Inr nets6) \<Rightarrow> Some (nets4 @ nets6) | _ \<Rightarrow> None)"

lemma fetch_nonempty: "fetch_cf_ranges N d = Inr nets \<Longrightarrow> nets \<noteq> []"
  by (auto simp: fetch_cf_ranges_def Let_def split: cf_download.splits if_splits)

lemma cf_refresh_cases:
  obtains (good) nets where "cf_combined N ds = Some nets" "cf_refresh N ds v = (None, v\<lparr>cf_nets := nets\<rparr>)"
  | (bad) e where "cf_combined N ds = None" "cf_refresh N ds v = (Some e, v)"
proof (cases "fetch_cf_ranges N (fst ds)")
  case (Inl e)
  then show thesis by (intro bad) (simp_all add: cf_combined_def cf_refresh_def)
next
  case (Inr nets4)
  show thesis
  proof (cases "fetch_cf_ranges N (snd ds)")
    case (Inl e)
    then show thesis using Inr by (intro bad) (simp_all add: cf_combined_def cf_refresh_def)
  next
    case r6: (Inr nets6)
    then show thesis using Inr fetch_nonempty[OF Inr] by (intro good) (simp_all add: cf_combined_def cf_refresh_def)
  qed
qed

text \<open>What the loop is for: the last refresh in which both lists were complete decides the ranges, and a run of failures is retried at doubling intervals.\<close>

fun cf_schedule :: "('n, 'ip) net_lib \<Rightarrow> (cf_download \<times> cf_download) list \<Rightarrow> nat \<Rightarrow> duration list" where
  "cf_schedule N [] k = []"
| "cf_schedule N (ds # rest) k =
     (if cf_combined N ds = None then min (retryBaseInterval * 2 ^ k) refreshInterval # cf_schedule N rest (Suc k)
      else refreshInterval # cf_schedule N rest 0)"

definition cf_last_good :: "('n, 'ip) net_lib \<Rightarrow> (cf_download \<times> cf_download) list \<Rightarrow> 'n list \<Rightarrow> 'n list" where
  "cf_last_good N dss start = last (start # List.map_filter (cf_combined N) dss)"

lemma cf_refresh_loop_spec:
  "cf_refresh_loop N dss k v = (cf_schedule N dss k, v\<lparr>cf_nets := cf_last_good N dss (cf_nets v)\<rparr>)"
proof (induction dss arbitrary: k v)
  case Nil
  show ?case by (simp add: cf_last_good_def List.map_filter_simps)
next
  case (Cons ds dss)
  show ?case
  proof (cases N ds v rule: cf_refresh_cases)
    case (good nets)
    then show ?thesis using Cons by (simp add: cf_last_good_def List.map_filter_simps)
  next
    case (bad e)
    then show ?thesis using Cons by (simp add: cf_last_good_def List.map_filter_simps cf_retry_closed)
  qed
qed

text \<open>
  The filter keeps good ranges: over any sequence of refreshes, succeeding or failing in either list, the ranges in use are those of the last refresh in which both lists were downloaded and
  parsed, so a failure never narrows them; and after the \<open>k\<close>-th failure in a row the next attempt follows after one minute times \<open>2 ^ (k - 1)\<close>, capped at a day, without overflow.
\<close>

theorem cf_ranges_and_retries:
  "cf_life N True first ticks = (refreshInterval # cf_schedule N ticks 0, \<lparr>cf_nets = cf_last_good N (first # ticks) [], cf_enabled = True\<rparr>)"
proof -
  have v: "new_cf_validator N True first = \<lparr>cf_nets = cf_last_good N [first] [], cf_enabled = True\<rparr>"
    by (cases N first "\<lparr>cf_nets = [], cf_enabled = True\<rparr> :: 'a cf_validator" rule: cf_refresh_cases)
       (simp_all add: new_cf_validator_def cf_last_good_def List.map_filter_simps)
  have "cf_last_good N ticks (cf_last_good N [first] []) = cf_last_good N (first # ticks) []"
    by (cases "cf_combined N first") (simp_all add: cf_last_good_def List.map_filter_simps)
  then show ?thesis by (simp add: cf_life_def v cf_refresh_loop_spec)
qed

text \<open>
  A failed start shuts everybody out for a day. When the first refresh fails, the constructor goes on with no ranges at all and the timer is set to the normal interval of 24 hours, not to the
  retry interval; until then every request is refused.
\<close>

theorem cf_failed_start_blocks_all:
  assumes "cf_combined N first = None"
  shows "fst (cf_life N True first []) = [24 * 3600 * second] \<and> (\<forall>remoteAddr. \<not> cf_passes N (snd (cf_life N True first [])) remoteAddr)"
proof -
  have "cf_life N True first [] = ([refreshInterval], \<lparr>cf_nets = [], cf_enabled = True\<rparr>)"
    by (cases N first "\<lparr>cf_nets = [], cf_enabled = True\<rparr> :: 'a cf_validator" rule: cf_refresh_cases)
       (use assms in \<open>simp_all add: cf_life_def new_cf_validator_def\<close>)
  then show ?thesis by (simp add: refreshInterval_def cf_passes_def is_cloudflare_ip_def Let_def split: option.splits)
qed

theorem cf_failed_start_blocks_all_witness:
  "\<not> cf_passes \<lparr>nl_ParseIP = \<lambda>s. Some s, nl_ParseCIDR = \<lambda>s. Some s, nl_Contains = \<lambda>n ip. True\<rparr>
      (snd (cf_life \<lparr>nl_ParseIP = \<lambda>s. Some s, nl_ParseCIDR = \<lambda>s. Some s, nl_Contains = \<lambda>n ip. True\<rparr> True (DownloadFailed, DownloadFailed) [])) ''1.2.3.4:5''"
proof -
  let ?N = "\<lparr>nl_ParseIP = \<lambda>s. Some s, nl_ParseCIDR = \<lambda>s. Some s, nl_Contains = \<lambda>n ip. True\<rparr> :: (string, string) net_lib"
  have "cf_combined ?N (DownloadFailed, DownloadFailed) = None" by (simp add: cf_combined_def fetch_cf_ranges_def)
  from cf_failed_start_blocks_all[OF this] show ?thesis by blast
qed

subsection \<open>Routing\<close>

lemma blocked_not_served: "apply_block_action hijacked cancelled action timeout \<noteq> Served t"
  by (simp add: apply_block_action_def hijack_or_empty_def Let_def)

lemma host_router_served:
  "host_router uni l hijacked cancelled rHost = Served t \<longleftrightarrow> lookup_host l (extract_host uni rHost) = Some t \<and> ts_Enabled t"
  by (auto simp: host_router_def Let_def blocked_not_served split: option.splits)

text \<open>
  C5 (safety). Which hosts a remote proxy serves. Under the assumptions of the synchronisation with the hub (JSON keeps payloads up to the representation of parameter values, host names are lower case, no reload is refused),
  after a session of the config stream the router passes a request on exactly when the hub's registry has an enabled tenant for the host of the request, without its port and in lower case, and the node store
  assigns it to the proxy's node. Every other request is answered at the router.
\<close>

theorem proxy_serves_assigned_tenants:
  fixes r :: "('rs, 'h, 'w) registry"
  assumes "tenants_ok reg0" and "publish_run (tenant_step E) ops reg0 = (reg, ps)"
    and "map (encode_payload E J now) (tenant_snapshot_payload reg0 # ps) = map Some (filter (\<lambda>ev. \<not> is_mirror_event ev) evs)"
    and "list_all (\<lambda>p. payload_decodes E J D nv p \<and> list_all (\<lambda>h. to_lower uni h = h) (payload_hosts p)) (tenant_snapshot_payload reg0 # ps)"
    and "i \<noteq> []" and "list_all (\<lambda>ev. snapshot_decodes J (pd_T D) i (Some ns, ev)) evs"
    and "wire_events items = stream_loop J (pd_T D) i never 0 (map (Pair (Some ns)) evs)"
    and "list_all (wire_ok marshal unmarshal) (wire_events items)" and "url \<noteq> []"
    and "px_connect_and_consume D uni unmarshal never url (Connected 200 (wire_bytes marshal items) EndEOF) (r, w) = (err, [], r', w')"
    and "cf_Mode cfg = ModeRemote"
  shows "(\<exists>t. host_router uni (new_registry_lookup uni (Some cfg) (sn_tenants (rg_current r'))) hijacked cancelled rHost = Served t)
    \<longleftrightarrow> tenant_allowed ns i (extract_host uni rHost)
      \<and> (\<exists>ti. snd (tenants_view reg) (extract_host uni rHost) = Some ti \<and> ti_Enabled ti)"
proof -
  let ?h = "extract_host uni rHost"
  have "proxy_abs (rg_current r') = proxy_view nv uni (tenant_allowed ns i) (tenants_view reg)"
    using proxy_session_sync[OF assms(1-10)] by blast
  then have view: "map_option plain_versions (map_of (sn_tenants (rg_current r')) ?h)
      = (if tenant_allowed ns i ?h then map_option (\<lambda>ti. tenant_info_to_snapshot uni (json_info nv ti)) (snd (tenants_view reg) ?h) else None)"
    by (simp add: proxy_abs_def proxy_view_def fun_eq_iff)
  have en: "ts_Enabled (plain_versions t) = ts_Enabled t" "ts_Enabled (tenant_info_to_snapshot uni (json_info nv ti)) = ti_Enabled ti" for t ti
    by (simp_all add: plain_versions_def tenant_info_to_snapshot_def json_info_def)
  have "lookup_host (new_registry_lookup uni (Some cfg) (sn_tenants (rg_current r'))) ?h = map_of (sn_tenants (rg_current r')) ?h"
    using assms(11) by (simp add: lookup_host_def new_registry_lookup_def ModeLocal_def ModeRemote_def)
  then show ?thesis
    using view en by (cases "map_of (sn_tenants (rg_current r')) ?h"; cases "snd (tenants_view reg) ?h") (auto simp: host_router_served split: if_splits, metis+)
qed


theorem proxy_serves_assigned_tenants_witness:
  "\<exists>r'. px_connect_and_consume demo_proxy_decoders id demo_tenant_unmarshal never ''http://hub''
       (Connected 200 (wire_bytes demo_marshal demo_items) EndEOF) (new_registry :: (unit, unit, unit) registry, ()) = (None, [], r', ())
     \<and> (\<exists>t. host_router id (new_registry_lookup id (Some ((sample_config [])\<lparr>cf_Mode := ModeRemote\<rparr>)) (sn_tenants (rg_current r'))) True None ''A.example:443'' = Served t)"
proof -
  let ?cfg = "(sample_config [])\<lparr>cf_Mode := ModeRemote\<rparr>"
  have "rg_order (new_registry :: (unit, unit, unit) registry) = []" by (simp add: new_registry_def)
  from demo_connect[OF this, of "()"] obtain r' where c: "px_connect_and_consume demo_proxy_decoders id demo_tenant_unmarshal never ''http://hub''
       (Connected 200 (wire_bytes demo_marshal demo_items) EndEOF) (new_registry :: (unit, unit, unit) registry, ()) = (None, [], r', ())" by blast
  obtain reg where reg: "publish_run (tenant_step sample_tenant_env) [TUpsert True False sample_tenant] fresh_registry
      = (reg, [PUpsert (tenant_info_from sample_tenant 2)])" "tenant_map reg = [(''a.example'', sample_tenant)]" using demo_upsert by blast
  have h: "extract_host id ''A.example:443'' = ''a.example''" by code_simp
  have "snd (tenants_view reg) ''a.example'' = Some (strip_version (tenant_info_from sample_tenant 0))" "ti_Enabled (tenant_info_from sample_tenant 0)"
    by (simp_all add: tenants_view_def tenant_get_def reg(2) tenant_info_from_def sample_tenant_def strip_version_def)
  then have "\<exists>t. host_router id (new_registry_lookup id (Some ?cfg) (sn_tenants (rg_current r'))) True None ''A.example:443'' = Served t"
    using proxy_serves_assigned_tenants[OF demo_payloads(4) reg(1) demo_payloads(1,2) _ demo_payloads(3) demo_wire(3,2) _ c, where cfg = ?cfg and hijacked = True and cancelled = None and rHost = "''A.example:443''"]
    by (simp add: h demo_allowed strip_version_def)
  then show ?thesis using c by blast
qed

end
