(* ===== verification/Httplib.thy ===== *)
theory Httplib
  imports Prelude
begin

text \<open>
  Parts of the Go standard library that the HTTP features use: \<^verbatim>\<open>strings.Split\<close>, \<^verbatim>\<open>Join\<close> and \<^verbatim>\<open>Contains\<close>, \<^verbatim>\<open>path.Clean\<close> on rooted
  paths, \<^verbatim>\<open>filepath.Ext\<close>, \<^verbatim>\<open>strconv.Atoi\<close> and the methods of \<^verbatim>\<open>http.Header\<close>, with lemmas that the features share.
\<close>

subsection \<open>Strings\<close>

fun split_on :: "char \<Rightarrow> string \<Rightarrow> string list" where
  "split_on c [] = [[]]"
| "split_on c (x # xs) = (if x = c then [] # split_on c xs else (x # hd (split_on c xs)) # tl (split_on c xs))"

fun join_with :: "string \<Rightarrow> string list \<Rightarrow> string" where
  "join_with sep [] = []"
| "join_with sep [s] = s"
| "join_with sep (s # t # ts) = s @ sep @ join_with sep (t # ts)"

definition contains_str :: "string \<Rightarrow> string \<Rightarrow> bool" where
  "contains_str s sub \<longleftrightarrow> sublist sub s"

text \<open>\<^verbatim>\<open>strings.Index\<close>.\<close>

fun index_str :: "string \<Rightarrow> string \<Rightarrow> nat option" where
  "index_str [] sub = (if sub = [] then Some 0 else None)"
| "index_str (x # xs) sub = (if prefix sub (x # xs) then Some 0 else map_option Suc (index_str xs sub))"

lemma index_str_Some: "index_str s sub = Some i \<Longrightarrow> i + length sub \<le> length s \<and> prefix sub (drop i s)"
  by (induction s sub arbitrary: i rule: index_str.induct) (auto split: if_splits dest: prefix_length_le)

definition trim_prefix :: "string \<Rightarrow> string \<Rightarrow> string" where
  "trim_prefix s p = (if has_prefix s p then drop (length p) s else s)"

lemma split_on_nonempty [simp]: "split_on c s \<noteq> []"
  by (induction s) auto

lemma split_on_pieces: "p \<in> set (split_on c s) \<Longrightarrow> set p \<subseteq> set s - {c}"
proof (induction s arbitrary: p)
  case (Cons x xs)
  obtain q qs where q: "split_on c xs = q # qs" by (cases "split_on c xs") auto
  have "set q \<subseteq> set xs - {c}" "r \<in> set qs \<Longrightarrow> set r \<subseteq> set xs - {c}" for r using Cons.IH q by simp_all
  then show ?case using Cons.prems q by (auto split: if_splits)
qed simp

lemma set_join_with: "set (join_with sep ss) \<subseteq> set sep \<union> \<Union> (set ` set ss)"
  by (induction sep ss rule: join_with.induct) auto

lemma join_split [simp]: "join_with [c] (split_on c s) = s"
proof (induction s)
  case (Cons x xs)
  obtain p ps where ps: "split_on c xs = p # ps" by (cases "split_on c xs") auto
  then show ?case using Cons by (cases ps) auto
qed simp

lemma split_on_append: "c \<notin> set a \<Longrightarrow> split_on c (a @ c # b) = a # split_on c b"
  by (induction a) auto

lemma split_on_free: "c \<notin> set a \<Longrightarrow> split_on c a = [a]"
  by (induction a) auto

lemma split_join:
  "ss \<noteq> [] \<Longrightarrow> list_all (\<lambda>s. c \<notin> set s) ss \<Longrightarrow> split_on c (join_with [c] ss) = ss"
  by (induction "[c]" ss rule: join_with.induct) (simp_all add: split_on_append split_on_free)

text \<open>Strings joined by a separator that does not occur in a part can be taken apart, from the left and from the right.\<close>

lemma separated_left:
  assumes "a @ c # x = b @ c # y" and "c \<notin> set a" and "c \<notin> set b"
  shows "a = b \<and> x = y"
  using assms
proof (induction a arbitrary: b)
  case Nil
  then show ?case by (cases b) auto
next
  case (Cons z a)
  then show ?case by (cases b) auto
qed

lemma separated_right:
  assumes "x @ c # a = y @ c # b" and "c \<notin> set a" and "c \<notin> set b"
  shows "a = b \<and> x = y"
proof -
  have "rev a @ c # rev x = rev b @ c # rev y" using arg_cong[OF assms(1), of rev] by simp
  from separated_left[OF this] show ?thesis using assms(2,3) by simp
qed

text \<open>Trimming leaves a string of visible ASCII characters alone.\<close>

definition visible :: "char \<Rightarrow> bool" where
  "visible c \<longleftrightarrow> 33 \<le> (of_char c :: nat) \<and> (of_char c :: nat) < 127"

lemma space_seqs_ends: "list_all (\<lambda>q. q \<noteq> [] \<and> \<not> visible (hd q) \<and> \<not> visible (last q)) space_seqs"
  by code_simp

lemma trim_left_visible:
  assumes "list_all (\<lambda>q. q \<noteq> [] \<and> \<not> visible (hd q)) qs" and "s = [] \<or> visible (hd s)"
  shows "trim_left_seqs qs s = s"
proof -
  have "find (\<lambda>q. q \<noteq> [] \<and> prefix q s) qs = None"
    unfolding find_None_iff using assms by (auto simp: list_all_iff prefix_def hd_append)
  then show ?thesis by (simp add: trim_left_seqs.simps)
qed

lemma trim_space_visible:
  assumes "list_all visible s"
  shows "trim_space s = s"
proof -
  have seqs: "list_all (\<lambda>q. q \<noteq> [] \<and> \<not> visible (hd q)) space_seqs" "list_all (\<lambda>q. q \<noteq> [] \<and> \<not> visible (hd q)) (map rev space_seqs)"
    using space_seqs_ends by (auto simp: list_all_iff hd_rev)
  have "s = [] \<or> visible (hd s)" "rev s = [] \<or> visible (hd (rev s))"
    using assms hd_in_set[of s] hd_in_set[of "rev s"] unfolding list_all_iff set_rev by blast+
  then show ?thesis unfolding trim_space_def by (simp add: trim_left_visible[OF seqs(1)] trim_left_visible[OF seqs(2)])
qed

lemma set_trim_left_seqs: "set (trim_left_seqs qs s) \<subseteq> set s"
proof (induction qs s rule: trim_left_seqs.induct)
  case (1 qs s)
  show ?case
  proof (cases "find (\<lambda>q. q \<noteq> [] \<and> prefix q s) qs")
    case None
    then show ?thesis by (simp add: trim_left_seqs.simps[of qs s])
  next
    case (Some q)
    then have "set (trim_left_seqs qs s) \<subseteq> set (drop (length q) s)" using "1.IH"[OF Some] by (simp add: trim_left_seqs.simps[of qs s])
    then show ?thesis using set_drop_subset by fast
  qed
qed

lemma set_trim_space: "set (trim_space s) \<subseteq> set s"
  unfolding trim_space_def using set_trim_left_seqs[of "map rev space_seqs" "rev (trim_left_seqs space_seqs s)"] set_trim_left_seqs[of space_seqs s]
  by auto

lemma hex_digit_inj: "a < 16 \<Longrightarrow> b < 16 \<Longrightarrow> hex_digit a = hex_digit b \<longleftrightarrow> a = b"
proof -
  assume "a < 16" "b < 16"
  moreover have "distinct ''0123456789abcdef''" by simp
  ultimately show ?thesis unfolding hex_digit_def by (subst nth_eq_iff_index_eq) simp_all
qed

lemma hex_encode_inj: "hex_encode a = hex_encode b \<longleftrightarrow> a = b"
proof (induction a arbitrary: b)
  case Nil
  then show ?case by (cases b) (auto simp: hex_encode_def)
next
  case (Cons x a)
  show ?case
  proof (cases b)
    case Nil
    then show ?thesis by (simp add: hex_encode_def)
  next
    case (Cons y b')
    have lt: "(of_char c :: nat) div 16 < 16" for c by (simp add: less_mult_imp_div_less)
    have "of_char x = (of_char y :: nat)" if "(of_char x :: nat) div 16 = of_char y div 16" "(of_char x :: nat) mod 16 = of_char y mod 16"
      using that by (metis div_mult_mod_eq)
    then show ?thesis using Cons.IH[of b'] Cons by (auto simp: hex_encode_def hex_digit_inj lt)
  qed
qed

subsection \<open>Paths\<close>

definition path_push :: "string \<Rightarrow> string list \<Rightarrow> string list" where
  "path_push seg out =
     (if seg = [] \<or> seg = ''.'' then out else if seg = ''..'' then butlast out else out @ [seg])"

text \<open>\<^verbatim>\<open>path.Clean\<close> of a path that begins with a slash.\<close>

definition clean_rooted :: "string \<Rightarrow> string" where
  "clean_rooted p = CHR ''/'' # join_with ''/'' (fold path_push (split_on CHR ''/'' p) [])"

definition path_ext :: "string \<Rightarrow> string" where
  "path_ext p =
     (let base = takeWhile (\<lambda>c. c \<noteq> CHR ''/'') (rev p)
      in if CHR ''.'' \<in> set base then CHR ''.'' # rev (takeWhile (\<lambda>c. c \<noteq> CHR ''.'') base) else [])"

lemma trim_prefix_free: "c \<notin> set s \<Longrightarrow> trim_prefix s [c] = s"
  by (cases s) (auto simp: trim_prefix_def has_prefix_def)

subsection \<open>Numbers\<close>

definition is_digit :: "char \<Rightarrow> bool" where
  "is_digit c \<longleftrightarrow> 48 \<le> (of_char c :: nat) \<and> (of_char c :: nat) \<le> 57"

definition digits_value :: "string \<Rightarrow> int" where
  "digits_value s = fold (\<lambda>c n. n * 10 + (of_char c - 48)) s 0"

text \<open>\<^verbatim>\<open>strconv.Atoi\<close> and \<^verbatim>\<open>strconv.ParseInt\<close> with base 10; \<open>None\<close> is an error.\<close>

definition atoi :: "string \<Rightarrow> int option" where
  "atoi s =
     (let neg = has_prefix s ''-'';
          ds = (if neg \<or> has_prefix s ''+'' then drop 1 s else s);
          n = (if neg then - digits_value ds else digits_value ds)
      in if ds = [] \<or> \<not> list_all is_digit ds then None
         else if min_int64 \<le> n \<and> n \<le> max_int64 then Some n else None)"

subsection \<open>Headers\<close>

text \<open>
  An \<^verbatim>\<open>http.Header\<close> maps canonical names to lists of values. A name with a byte that is not
  allowed in a header name is its own canonical form.
\<close>

type_synonym header = "(string \<times> string list) list"

definition header_byte :: "char \<Rightarrow> bool" where
  "header_byte c \<longleftrightarrow>
     is_digit c \<or> (65 \<le> (of_char c :: nat) \<and> (of_char c :: nat) \<le> 90) \<or> (97 \<le> (of_char c :: nat) \<and> (of_char c :: nat) \<le> 122)
     \<or> c \<in> set ''!#$%&*+-.^_|~'' \<or> c = CHR 0x27 \<or> c = CHR 0x60"

fun canonical_from :: "bool \<Rightarrow> string \<Rightarrow> string" where
  "canonical_from upper [] = []"
| "canonical_from upper (c # cs) =
     (if upper then ascii_upper c else ascii_lower c) # canonical_from (c = CHR ''-'') cs"

definition canonical_key :: "string \<Rightarrow> string" where
  "canonical_key k = (if list_all header_byte k then canonical_from True k else k)"

definition hdr_values :: "header \<Rightarrow> string \<Rightarrow> string list" where
  "hdr_values h k = (case map_of h (canonical_key k) of None \<Rightarrow> [] | Some vs \<Rightarrow> vs)"

definition hdr_get :: "header \<Rightarrow> string \<Rightarrow> string" where
  "hdr_get h k = (case hdr_values h k of [] \<Rightarrow> [] | v # vs \<Rightarrow> v)"

definition hdr_set :: "string \<Rightarrow> string \<Rightarrow> header \<Rightarrow> header" where
  "hdr_set k v h = alist_put (canonical_key k) [v] h"

definition hdr_add :: "string \<Rightarrow> string \<Rightarrow> header \<Rightarrow> header" where
  "hdr_add k v h = alist_put (canonical_key k) (hdr_values h k @ [v]) h"

definition hdr_del :: "string \<Rightarrow> header \<Rightarrow> header" where
  "hdr_del k h = alist_del (canonical_key k) h"

lemma hdr_values_del: "hdr_values (hdr_del n h) k = (if canonical_key k = canonical_key n then [] else hdr_values h k)"
  by (simp add: hdr_values_def hdr_del_def map_of_alist_del)

lemma hdr_values_dels:
  "hdr_values (fold hdr_del ns h) k = (if canonical_key k \<in> canonical_key ` set ns then [] else hdr_values h k)"
  by (induction ns arbitrary: h) (simp_all add: hdr_values_del)

end
