(* ===== verification/Tenantrules.thy ===== *)
theory Tenantrules
  imports Registry Httplib
begin

text \<open>
  What the request filters with compiled rules share. A request is a record of the parts that the features read. The features \<^verbatim>\<open>blocklist_regex\<close> and \<^verbatim>\<open>proxy_headers\<close>
  compile one rule set per tenant and one for the globals, publish them in a map under the lower-case host or a pseudo-host, and pick one per request; the code is
  the same in both packages, so it is one group of functions here, over the compiler as an argument. The locale \<open>compiled_feature\<close> has what the scheme needs of a compiler; in it, the rules picked
  for a request are those of the snapshot that the resolver gives to the request. Block actions answer with a status or close the connection.
\<close>

subsection \<open>Requests\<close>

record http_request =
  hq_Method :: string
  hq_Host :: string
  hq_Path :: string
  hq_RawQuery :: string
  hq_Header :: header
  hq_RemoteAddr :: string
  hq_Tenant :: "tenant_snapshot option"

text \<open>What a handler does with the response writer it is given.\<close>

datatype writer_call = CSet string string | CAdd string string | CDel string | CWriteHeader int | CWrite string

text \<open>How a block action ends: with a status or with the connection closed, after a delay.\<close>

datatype block_reply = BStatus duration int | BClosed duration

text \<open>\<^verbatim>\<open>hijackAndClose\<close>: the flag says whether the connection could be taken over.\<close>

definition hijack_and_close :: "bool \<Rightarrow> duration \<Rightarrow> block_reply" where
  "hijack_and_close hijacked slept = (if hijacked then BClosed slept else BStatus slept 400)"

text \<open>A chain of parsing steps that stops at the first error.\<close>

fun or_error :: "'e + 'a \<Rightarrow> ('a \<Rightarrow> 'e + 'b) \<Rightarrow> 'e + 'b" where
  "or_error (Inl e) k = Inl e"
| "or_error (Inr x) k = k x"

lemma or_error_Inr: "or_error x k = Inr y \<longleftrightarrow> (\<exists>a. x = Inr a \<and> k a = Inr y)"
  by (cases x) auto

subsection \<open>Rules per tenant\<close>

definition global_rules_key :: string where "global_rules_key = ''_global_''"

record 'r rule_feature =
  rf_enabled :: bool
  rf_compiled :: "(string \<times> 'r) list"

definition new_rule_feature :: "'r rule_feature" where
  "new_rule_feature = \<lparr>rf_enabled = False, rf_compiled = []\<rparr>"

fun put_rules :: "(feature_snapshot \<Rightarrow> string + 'r option) \<Rightarrow> string \<Rightarrow> feature_snapshot \<Rightarrow> (string \<times> 'r) list \<times> bool \<Rightarrow> (string \<times> 'r) list \<times> bool" where
  "put_rules compile key cfg (newMap, anyEnabled) =
     (case compile cfg of
        Inr (Some rules) \<Rightarrow> (alist_put key rules newMap, anyEnabled \<or> fs_Enabled cfg)
      | _ \<Rightarrow> (newMap, anyEnabled))"

definition tenant_put ::
  "(string \<Rightarrow> string) \<Rightarrow> (feature_snapshot \<Rightarrow> string + 'r option) \<Rightarrow> string \<Rightarrow> string \<times> tenant_snapshot
     \<Rightarrow> (string \<times> 'r) list \<times> bool \<Rightarrow> (string \<times> 'r) list \<times> bool" where
  "tenant_put uni compile name ht st =
     (case ts_Features (snd ht) name of None \<Rightarrow> st | Some cfg \<Rightarrow> put_rules compile (to_lower uni (fst ht)) cfg st)"

definition rules_observe ::
  "(string \<Rightarrow> string) \<Rightarrow> (feature_snapshot \<Rightarrow> string + 'r option) \<Rightarrow> string \<Rightarrow> globals_snapshot \<Rightarrow> (string \<times> tenant_snapshot) list \<Rightarrow> 'r rule_feature" where
  "rules_observe uni compile name globals tenants =
     (case fold (tenant_put uni compile name) tenants (put_rules compile global_rules_key (lookup_snapshot globals name) ([], False)) of
        (newMap, anyEnabled) \<Rightarrow> \<lparr>rf_enabled = anyEnabled, rf_compiled = newMap\<rparr>)"

definition rules_for :: "'r rule_feature \<Rightarrow> string \<Rightarrow> 'r option" where
  "rules_for f key = (case map_of (rf_compiled f) key of Some r \<Rightarrow> Some r | None \<Rightarrow> map_of (rf_compiled f) global_rules_key)"

definition rules_key :: "(string \<Rightarrow> string) \<Rightarrow> http_request \<Rightarrow> string" where
  "rules_key uni r =
     (case hq_Tenant r of
        None \<Rightarrow> global_rules_key
      | Some t \<Rightarrow> if ts_Host t \<noteq> [] then to_lower uni (ts_Host t) else global_rules_key)"

text \<open>The first part of both middlewares: the rules that apply, \<open>None\<close> when the request is passed on untouched.\<close>

definition active_rules :: "(string \<Rightarrow> string) \<Rightarrow> 'r rule_feature \<Rightarrow> feature_snapshot \<Rightarrow> http_request \<Rightarrow> 'r option" where
  "active_rules uni f snap r =
     (if \<not> rf_enabled f then None else if \<not> fs_Enabled snap then None else rules_for f (rules_key uni r))"

subsection \<open>The rules follow the resolver\<close>

text \<open>A tenant map as the registry has it: lower-case hosts as keys, none of them the pseudo-host.\<close>

definition tenant_keys_ok :: "(string \<Rightarrow> string) \<Rightarrow> (string \<times> tenant_snapshot) list \<Rightarrow> bool" where
  "tenant_keys_ok uni tenants \<longleftrightarrow>
     distinct (map fst tenants)
     \<and> list_all (\<lambda>(h, t). ts_Host t = h \<and> to_lower uni h = h \<and> h \<noteq> [] \<and> h \<noteq> global_rules_key) tenants"

definition resolved :: "globals_snapshot \<Rightarrow> string \<Rightarrow> tenant_snapshot option \<Rightarrow> feature_snapshot" where
  "resolved globals name tenant =
     (case tenant of
        None \<Rightarrow> lookup_snapshot globals name
      | Some t \<Rightarrow> (case ts_Features t name of Some fs \<Rightarrow> fs | None \<Rightarrow> lookup_snapshot globals name))"

lemma resolve_resolved: "rg_current r = \<lparr>sn_globals = globals, sn_tenants = tenants\<rparr> \<Longrightarrow> resolve r tenant name = resolved globals name tenant"
  by (auto simp: resolve_def resolved_def split: option.splits)

lemma fold_tenant_put_other:
  assumes "\<forall>(h, t) \<in> set tenants. to_lower uni h \<noteq> key \<or> ts_Features t name = None"
  shows "map_of (fst (fold (tenant_put uni compile name) tenants st)) key = map_of (fst st) key"
  using assms
proof (induction tenants arbitrary: st)
  case (Cons ht tenants)
  have "map_of (fst (tenant_put uni compile name ht st)) key = map_of (fst st) key"
    using Cons.prems by (cases st; cases ht) (auto simp: tenant_put_def map_of_alist_put split: option.splits sum.splits)
  then show ?case using Cons by simp
qed simp

lemma tenant_put_keeps_enabled: "snd st \<Longrightarrow> snd (tenant_put uni compile name ht st)"
  by (cases st) (auto simp: tenant_put_def split: option.splits sum.splits)

lemma fold_tenant_put_keeps_enabled: "snd st \<Longrightarrow> snd (fold (tenant_put uni compile name) tenants st)"
  by (induction tenants arbitrary: st) (simp_all add: tenant_put_keeps_enabled)

lemma fold_tenant_put_at:
  assumes "distinct (map (\<lambda>ht. to_lower uni (fst ht)) tenants)" and "(h, t) \<in> set tenants" and "ts_Features t name = Some cfg"
    and "compile cfg = Inr (Some rules)"
  shows "map_of (fst (fold (tenant_put uni compile name) tenants st)) (to_lower uni h) = Some rules
    \<and> (fs_Enabled cfg \<longrightarrow> snd (fold (tenant_put uni compile name) tenants st))"
proof -
  obtain xs ys where split: "tenants = xs @ (h, t) # ys" using assms(2) by (meson split_list)
  let ?st = "fold (tenant_put uni compile name) xs st"
  have new: "map_of (fst (tenant_put uni compile name (h, t) ?st)) (to_lower uni h) = Some rules"
    "fs_Enabled cfg \<Longrightarrow> snd (tenant_put uni compile name (h, t) ?st)"
    using assms(3,4) by (cases ?st, simp add: tenant_put_def map_of_alist_put)+
  have "\<forall>(h', t') \<in> set ys. to_lower uni h' \<noteq> to_lower uni h \<or> ts_Features t' name = None"
    using assms(1) split by (auto simp: image_iff)
  from fold_tenant_put_other[OF this, of compile "tenant_put uni compile name (h, t) ?st"]
  show ?thesis using new(1) fold_tenant_put_keeps_enabled[OF new(2)] by (simp add: split)
qed

locale compiled_feature =
  fixes compile :: "feature_snapshot \<Rightarrow> string + 'r option" and validate :: "feature_snapshot \<Rightarrow> string option"
  assumes validated_compiles: "validate cfg = None \<Longrightarrow> \<exists>r. compile cfg = Inr r"
    and enabled_has_rules: "compile cfg = Inr None \<Longrightarrow> \<not> fs_Enabled cfg"
begin

lemma compile_enabled:
  assumes "validate cfg = None" and "fs_Enabled cfg"
  obtains rules where "compile cfg = Inr (Some rules)"
  using validated_compiles[OF assms(1)] enabled_has_rules[of cfg] assms(2) by (metis option.exhaust)

text \<open>A request of a tenant in the map, or one without a tenant, gets the rules of its snapshot when that is enabled, and is passed on otherwise.\<close>

lemma active_rules_resolved:
  assumes "tenant_keys_ok uni tenants" and "validate (lookup_snapshot globals name) = None"
    and "list_all (\<lambda>(h, t). \<forall>s. ts_Features t name = Some s \<longrightarrow> validate s = None) tenants"
    and "case hq_Tenant r of None \<Rightarrow> True | Some t \<Rightarrow> (ts_Host t, t) \<in> set tenants"
  shows "active_rules uni (rules_observe uni compile name globals tenants) (resolved globals name (hq_Tenant r)) r
    = (if fs_Enabled (resolved globals name (hq_Tenant r)) then case compile (resolved globals name (hq_Tenant r)) of Inr r \<Rightarrow> r | Inl e \<Rightarrow> None else None)"
proof (cases "fs_Enabled (resolved globals name (hq_Tenant r))")
  case True
  let ?g = "lookup_snapshot globals name" and ?f = "rules_observe uni compile name globals tenants"
  let ?st = "put_rules compile global_rules_key ?g ([], False)"
  have keys: "distinct (map (\<lambda>ht. to_lower uni (fst ht)) tenants)"
  proof -
    have "map (\<lambda>ht. to_lower uni (fst ht)) tenants = map fst tenants" using assms(1) by (auto simp: tenant_keys_ok_def list_all_iff)
    then show ?thesis using assms(1) by (simp only: tenant_keys_ok_def)
  qed
  have f: "rf_enabled ?f = snd (fold (tenant_put uni compile name) tenants ?st)" "rf_compiled ?f = fst (fold (tenant_put uni compile name) tenants ?st)"
    by (simp_all add: rules_observe_def split_beta)
  have global_case: "active_rules uni ?f ?g r = (case compile ?g of Inr r \<Rightarrow> r | Inl e \<Rightarrow> None)"
    if on: "fs_Enabled ?g" and key: "rules_key uni r = global_rules_key \<or> (\<forall>(h, t) \<in> set tenants. to_lower uni h \<noteq> rules_key uni r \<or> ts_Features t name = None)"
  proof -
    obtain rules where c: "compile ?g = Inr (Some rules)" using compile_enabled[OF assms(2) on] .
    have "\<forall>(h, t) \<in> set tenants. to_lower uni h \<noteq> global_rules_key \<or> ts_Features t name = None"
      using assms(1) by (auto simp: tenant_keys_ok_def list_all_iff)
    from fold_tenant_put_other[OF this, of compile ?st]
    have g: "map_of (rf_compiled ?f) global_rules_key = Some rules" by (simp add: f c)
    have en: "rf_enabled ?f" unfolding f by (rule fold_tenant_put_keeps_enabled) (simp add: c on)
    have "rules_for ?f (rules_key uni r) = Some rules"
    proof (cases "rules_key uni r = global_rules_key")
      case True
      then show ?thesis by (simp add: rules_for_def g)
    next
      case False
      then have "\<forall>(h, t) \<in> set tenants. to_lower uni h \<noteq> rules_key uni r \<or> ts_Features t name = None" using key by simp
      from fold_tenant_put_other[OF this, of compile ?st] have "map_of (rf_compiled ?f) (rules_key uni r) = None"
        using False by (simp add: f c)
      then show ?thesis by (simp add: rules_for_def g)
    qed
    then show ?thesis using en on c by (simp add: active_rules_def)
  qed
  show ?thesis
  proof (cases "hq_Tenant r")
    case None
    then show ?thesis using global_case True by (simp add: resolved_def rules_key_def)
  next
    case (Some t)
    then have t: "(ts_Host t, t) \<in> set tenants" using assms(4) by simp
    then have host: "to_lower uni (ts_Host t) = ts_Host t" "rules_key uni r = ts_Host t"
      using assms(1) Some by (auto simp: tenant_keys_ok_def list_all_iff rules_key_def)
    show ?thesis
    proof (cases "ts_Features t name")
      case None
      have "\<forall>(h, t') \<in> set tenants. to_lower uni h \<noteq> rules_key uni r \<or> ts_Features t' name = None"
        using assms(1) t None host by (fastforce simp: tenant_keys_ok_def list_all_iff dest: eq_key_imp_eq_value)
      then show ?thesis using global_case True Some None by (simp add: resolved_def)
    next
      case s: (Some cfg)
      then have res: "resolved globals name (hq_Tenant r) = cfg" using Some by (simp add: resolved_def)
      have "validate cfg = None" using assms(3) t s by (auto simp: list_all_iff)
      then obtain rules where c: "compile cfg = Inr (Some rules)" using compile_enabled True res by metis
      from fold_tenant_put_at[of uni tenants "ts_Host t" t name cfg compile rules ?st, OF keys t s c]
      show ?thesis using True res c host by (simp add: active_rules_def rules_for_def f)
    qed
  qed
qed (simp add: active_rules_def)

end

end
