(* ===== verification/Staticcache.thy ===== *)
theory Staticcache
  imports Tenantrules Float64 "HOL-Library.While_Combinator" "HOL-Library.Multiset"
begin

text \<open>
  The \<^verbatim>\<open>static_cache\<close> feature, \<^verbatim>\<open>internal/feature/staticcache/staticcache.go\<close>. The store is Ristretto, which is not part of the sources: the record
  \<open>ristretto\<close> has the calls the feature makes, and \<open>ristretto_laws\<close> what its documentation promises (an entry comes back only under the key it was set with and not after its time to
  live; any entry may be evicted or refused at any time). \<^verbatim>\<open>singleflight.Do\<close> decides whether a request runs the fetch closure or waits for the result of another one under the same key; that decision is
  the argument \<open>flight_role\<close> of a request. The handler behind the feature is the list of calls it makes on the recorder. SHA-256, \<^verbatim>\<open>time.ParseDuration\<close> and \<^verbatim>\<open>strconv.ParseFloat\<close>
  are parameters; floating-point values are finite.
\<close>

subsection \<open>Parameters\<close>

definition sc_FeatureName :: string where "sc_FeatureName = ''static_cache''"
definition globalTenantKey :: string where "globalTenantKey = ''_global_''"
definition maxCacheBodySize :: int where "maxCacheBodySize = 5 * 1024 * 1024"

definition defaultExtensions :: "string list" where
  "defaultExtensions = [''.js'', ''.css'', ''.png'', ''.jpg'', ''.woff2'', ''.svg'', ''.webp'']"

definition contentTypeByExt :: "(string \<times> string list) list" where
  "contentTypeByExt =
     [(''js'', [''application/javascript'', ''text/javascript'', ''application/x-javascript'']),
      (''css'', [''text/css'']),
      (''png'', [''image/png'']),
      (''jpg'', [''image/jpeg'']),
      (''jpeg'', [''image/jpeg'']),
      (''svg'', [''image/svg+xml'', ''text/xml'', ''application/xml'']),
      (''webp'', [''image/webp'']),
      (''woff'', [''font/woff'', ''application/font-woff'']),
      (''woff2'', [''font/woff2'', ''application/font-woff2'']),
      (''gif'', [''image/gif'']),
      (''ico'', [''image/x-icon'', ''image/vnd.microsoft.icon''])]"

record sc_params =
  sp_maxSizeMB :: int
  sp_defaultTTL :: duration
  sp_extensions :: "string list"
  sp_extensionsList :: "string list"
  sp_perTenantSizeFraction :: rat

definition ext_cost_multiplier :: "sc_params option \<Rightarrow> int" where
  "ext_cost_multiplier po =
     (case po of
        None \<Rightarrow> 1
      | Some p \<Rightarrow>
          if sp_perTenantSizeFraction p \<le> 0 then 1
          else
            (let m0 = fl (1 / sp_perTenantSizeFraction p);
                 mult = (if m0 < 1 then 1 else m0)
             in float_to_int (fl (mult + 1 / 2))))"

text \<open>The coercions of a dynamic value; \<open>None\<close> is the error.\<close>

fun sc_as_int :: "any_val \<Rightarrow> int option" where
  "sc_as_int (VInt x) = Some x"
| "sc_as_int (VInt32 x) = Some x"
| "sc_as_int (VInt64 x) = Some x"
| "sc_as_int (VUint w) = Some (sint w)"
| "sc_as_int (VUint32 w) = Some (uint w)"
| "sc_as_int (VUint64 w) = Some (sint w)"
| "sc_as_int (VFloat32 x) = Some (float_to_int x)"
| "sc_as_int (VFloat x) = Some (float_to_int x)"
| "sc_as_int (VString s) = atoi (trim_space s)"
| "sc_as_int _ = None"

fun sc_as_float :: "(string \<Rightarrow> rat option) \<Rightarrow> any_val \<Rightarrow> rat option" where
  "sc_as_float parse_float (VFloat x) = Some x"
| "sc_as_float parse_float (VFloat32 x) = Some x"
| "sc_as_float parse_float (VInt x) = Some (fl (of_int x))"
| "sc_as_float parse_float (VInt32 x) = Some (fl (of_int x))"
| "sc_as_float parse_float (VInt64 x) = Some (fl (of_int x))"
| "sc_as_float parse_float (VString s) = parse_float (trim_space s)"
| "sc_as_float parse_float _ = None"

fun sc_as_duration :: "(string \<Rightarrow> duration option) \<Rightarrow> any_val \<Rightarrow> duration option" where
  "sc_as_duration parse_duration (VDuration d) = Some d"
| "sc_as_duration parse_duration (VString s) = parse_duration (trim_space s)"
| "sc_as_duration parse_duration (VInt x) = Some (wrap64 (x * second))"
| "sc_as_duration parse_duration (VInt64 x) = Some (wrap64 (x * second))"
| "sc_as_duration parse_duration (VFloat x) = Some (float_to_int (fl (x * of_int second)))"
| "sc_as_duration parse_duration _ = None"

fun all_strings :: "any_val list \<Rightarrow> string list option" where
  "all_strings [] = Some []"
| "all_strings (VString s # vs) = map_option (Cons s) (all_strings vs)"
| "all_strings _ = None"

fun sc_as_string_slice :: "any_val \<Rightarrow> string list option" where
  "sc_as_string_slice (VStrings ss) = Some ss"
| "sc_as_string_slice (VList vs) = all_strings vs"
| "sc_as_string_slice _ = None"

text \<open>
  \<^verbatim>\<open>sortStrings\<close>: the two nested loops of an insertion sort in place. The inner loop is kept as a loop, so that its result is \<open>None\<close> if it does not end.
\<close>

definition sort_inner :: "nat \<Rightarrow> string list \<Rightarrow> string list option" where
  "sort_inner i s =
     map_option fst
       (while_option (\<lambda>(s, j). j > 0 \<and> s ! (j - 1) > s ! j)
          (\<lambda>(s, j). (s[j - 1 := s ! j, j := s ! (j - 1)], j - 1)) (s, i))"

definition sort_strings :: "string list \<Rightarrow> string list option" where
  "sort_strings s = fold (\<lambda>i r. Option.bind r (sort_inner i)) [1..<length s] (Some s)"

definition string_set_equal :: "string list \<Rightarrow> string list \<Rightarrow> bool" where
  "string_set_equal a b \<longleftrightarrow> length a = length b \<and> list_all (\<lambda>i. a ! i = b ! i) [0..<length a]"

definition norm_ext :: "(string \<Rightarrow> string) \<Rightarrow> string \<Rightarrow> string" where
  "norm_ext uni e = to_lower uni (trim_prefix (trim_space e) ''.'')"

fun collect_exts :: "(string \<Rightarrow> string) \<Rightarrow> string list \<Rightarrow> string list \<Rightarrow> string list" where
  "collect_exts uni [] seen = seen"
| "collect_exts uni (e # es) seen =
     (let x = norm_ext uni e
      in if x = [] then collect_exts uni es seen
         else if x \<in> set seen then collect_exts uni es seen
         else collect_exts uni es (seen @ [x]))"

record sc_parsers =
  ps_duration :: "string \<Rightarrow> duration option"
  ps_float :: "string \<Rightarrow> rat option"
  ps_uni :: "string \<Rightarrow> string"

text \<open>The error of \<^verbatim>\<open>parseParams\<close> is the name of the parameter it complains about.\<close>

definition check_param :: "(string \<rightharpoonup> any_val) \<Rightarrow> string \<Rightarrow> (any_val \<Rightarrow> 'a option) \<Rightarrow> ('a \<Rightarrow> bool) \<Rightarrow> 'a \<Rightarrow> string + 'a" where
  "check_param ps field conv ok dflt =
     (case ps field of
        None \<Rightarrow> Inr dflt
      | Some raw \<Rightarrow> (case conv raw of None \<Rightarrow> Inl field | Some x \<Rightarrow> if ok x then Inr x else Inl field))"

definition sc_parse_params :: "sc_parsers \<Rightarrow> feature_snapshot \<Rightarrow> string + sc_params" where
  "sc_parse_params P cfg =
     (let ps = fs_Params cfg in
      or_error (check_param ps ''max_size_mb'' sc_as_int (\<lambda>n. n > 0) 256) (\<lambda>mb.
      or_error (check_param ps ''default_ttl'' (sc_as_duration (ps_duration P)) (\<lambda>d. d \<ge> 0) (3600 * second)) (\<lambda>ttl.
      or_error (check_param ps ''per_tenant_size_fraction'' (sc_as_float (ps_float P)) (\<lambda>x. 0 \<le> x \<and> x \<le> 1) 0) (\<lambda>fraction.
      or_error (check_param ps ''static_extensions'' sc_as_string_slice (\<lambda>_. True) defaultExtensions) (\<lambda>exts.
        let es = collect_exts (ps_uni P) exts []
        in Inr \<lparr>sp_maxSizeMB = mb, sp_defaultTTL = ttl, sp_extensions = es,
                sp_extensionsList = the (sort_strings es), sp_perTenantSizeFraction = fraction\<rparr>)))))"

definition sc_validate :: "sc_parsers \<Rightarrow> feature_snapshot \<Rightarrow> string option" where
  "sc_validate P cfg =
     (if \<not> fs_Enabled cfg \<and> fs_Params cfg = Map.empty then None
      else (case sc_parse_params P cfg of Inl e \<Rightarrow> Some e | Inr p \<Rightarrow> None))"

subsection \<open>Recorded responses\<close>

record capture_recorder =
  cr_underlying :: "header option"
  cr_header :: header
  cr_body :: string
  cr_statusCode :: int
  cr_headerSent :: bool
  cr_path :: string
  cr_reqHadAuth :: bool

definition new_capture_recorder :: "header option \<Rightarrow> capture_recorder" where
  "new_capture_recorder w =
     \<lparr>cr_underlying = w, cr_header = [], cr_body = [], cr_statusCode = 200, cr_headerSent = False, cr_path = [], cr_reqHadAuth = False\<rparr>"

definition cr_write_header :: "int \<Rightarrow> capture_recorder \<Rightarrow> capture_recorder" where
  "cr_write_header code rr = (if cr_headerSent rr then rr else rr\<lparr>cr_statusCode := code, cr_headerSent := True\<rparr>)"

definition cr_write :: "string \<Rightarrow> capture_recorder \<Rightarrow> capture_recorder" where
  "cr_write b rr =
     (let rr1 = (if cr_headerSent rr then rr else cr_write_header 200 rr)
      in rr1\<lparr>cr_body := cr_body rr1 @ b\<rparr>)"

fun cr_call :: "writer_call \<Rightarrow> capture_recorder \<Rightarrow> capture_recorder" where
  "cr_call (CSet k v) rr = rr\<lparr>cr_header := hdr_set k v (cr_header rr)\<rparr>"
| "cr_call (CAdd k v) rr = rr\<lparr>cr_header := hdr_add k v (cr_header rr)\<rparr>"
| "cr_call (CDel k) rr = rr\<lparr>cr_header := hdr_del k (cr_header rr)\<rparr>"
| "cr_call (CWriteHeader code) rr = cr_write_header code rr"
| "cr_call (CWrite b) rr = cr_write b rr"

text \<open>A reply of the feature: the next handler writes the response itself, or status, headers and body are written from a buffer.\<close>

datatype sc_reply = Direct | Reply int header string

definition add_all :: "header \<Rightarrow> header \<Rightarrow> header" where
  "add_all src dst = fold (\<lambda>(k, vals) h. fold (\<lambda>v h. hdr_add k v h) vals h) src dst"

definition default_miss :: "header \<Rightarrow> header" where
  "default_miss h = (if map_of h ''X-Cache'' = None then hdr_set ''X-Cache'' ''MISS'' h else h)"

definition cr_flush :: "capture_recorder \<Rightarrow> sc_reply option \<times> capture_recorder" where
  "cr_flush rr =
     (case cr_underlying rr of
        None \<Rightarrow> (None, rr)
      | Some dst \<Rightarrow> (Some (Reply (cr_statusCode rr) (default_miss (add_all (cr_header rr) dst)) (cr_body rr)), rr\<lparr>cr_underlying := None\<rparr>))"

definition hopByHopHeaders :: "string list" where
  "hopByHopHeaders =
     [''Connection'', ''Keep-Alive'', ''Proxy-Authenticate'', ''Proxy-Authorization'', ''Te'', ''Trailer'', ''Transfer-Encoding'', ''Upgrade'']"

definition connection_tokens :: "header \<Rightarrow> string list" where
  "connection_tokens h =
     filter (\<lambda>name. name \<noteq> []) (map trim_space (concat (map (split_on CHR '','') (hdr_values h ''Connection''))))"

definition strip_hop_by_hop :: "header \<Rightarrow> header" where
  "strip_hop_by_hop h = fold hdr_del hopByHopHeaders (fold hdr_del (connection_tokens h) h)"

subsection \<open>Cacheability\<close>

definition has_allowed_extension :: "(string \<Rightarrow> string) \<Rightarrow> string \<Rightarrow> string list \<Rightarrow> bool" where
  "has_allowed_extension uni path exts =
     (if exts = [] then False
      else (let ext = to_lower uni (trim_prefix (path_ext path) ''.'') in if ext = [] then False else ext \<in> set exts))"

definition cacheable_request :: "(string \<Rightarrow> string) \<Rightarrow> http_request \<Rightarrow> string list \<Rightarrow> bool" where
  "cacheable_request uni r exts =
     (if hq_Method r \<noteq> ''GET'' \<and> hq_Method r \<noteq> ''HEAD'' then False
      else if hdr_get (hq_Header r) ''Authorization'' \<noteq> [] \<or> hdr_get (hq_Header r) ''Cookie'' \<noteq> [] then False
      else has_allowed_extension uni (hq_Path r) exts)"

definition cache_blockers :: "string list" where
  "cache_blockers = [''private'', ''no-store'', ''no-cache'', ''must-revalidate'', ''s-maxage=0'', ''max-age=0'']"

definition cache_control_allows_storage :: "(string \<Rightarrow> string) \<Rightarrow> string \<Rightarrow> bool" where
  "cache_control_allows_storage uni cc =
     (if cc = [] then True else \<not> list_ex (contains_str (to_lower uni cc)) cache_blockers)"

definition vary_blocks_cache :: "string list \<Rightarrow> bool" where
  "vary_blocks_cache values = list_ex (\<lambda>v. list_ex (\<lambda>part. trim_space part = ''*'') (split_on CHR '','' v)) values"

definition content_type_matches :: "(string \<Rightarrow> string) \<Rightarrow> string \<Rightarrow> string \<Rightarrow> bool" where
  "content_type_matches uni path ct =
     (let ext = to_lower uni (trim_prefix (path_ext path) ''.'')
      in case map_of contentTypeByExt ext of
           None \<Rightarrow> True
         | Some allowed \<Rightarrow> if ct = [] then True else list_ex (has_prefix (to_lower uni ct)) allowed)"

definition cacheable_response :: "(string \<Rightarrow> string) \<Rightarrow> capture_recorder \<Rightarrow> bool" where
  "cacheable_response uni rec =
     (let h = cr_header rec; n = length (cr_body rec); cl = hdr_get h ''Content-Length''; ct = hdr_get h ''Content-Type'' in
      if cr_reqHadAuth rec then False
      else if cr_statusCode rec < 200 \<or> cr_statusCode rec \<ge> 300 then False
      else if n = 0 \<or> int n > maxCacheBodySize then False
      else if hdr_values h ''Set-Cookie'' \<noteq> [] then False
      else if \<not> cache_control_allows_storage uni (hdr_get h ''Cache-Control'') then False
      else if vary_blocks_cache (hdr_values h ''Vary'') then False
      else if cl = [] then False
      else if atoi cl \<noteq> Some (int n) then False
      else if ct \<noteq> [] \<and> has_prefix (to_lower uni ct) ''text/html'' then False
      else content_type_matches uni (cr_path rec) ct)"

subsection \<open>The cache key\<close>

definition canonicalise_query :: "string \<Rightarrow> string" where
  "canonicalise_query raw = (if raw = [] then [] else join_with ''&'' (sort (split_on CHR ''&'' raw)))"

definition is_all_zero :: "string \<Rightarrow> bool" where
  "is_all_zero s = (if s = [] then False else list_all (\<lambda>c. c = CHR ''0'') s)"

definition q_zero :: "string \<Rightarrow> bool" where
  "q_zero param0 = (let param = trim_space param0 in param = ''q=0'' \<or> has_prefix param ''q=0.'' \<and> is_all_zero (drop 4 param))"

definition accepted_coding :: "string \<Rightarrow> string option" where
  "accepted_coding p0 =
     (let p = trim_space p0 in
      if p = [] then None
      else
        (case index_byte p CHR '';'' of
           None \<Rightarrow> Some p
         | Some i \<Rightarrow>
             (let coding = trim_space (take i p)
              in if coding = [] \<or> list_ex q_zero (split_on CHR '';'' (drop (Suc i) p)) then None else Some coding)))"

definition canonical_accept_encoding :: "(string \<Rightarrow> string) \<Rightarrow> string \<Rightarrow> string" where
  "canonical_accept_encoding uni h =
     (if h = [] then []
      else (let out = List.map_filter accepted_coding (split_on CHR '','' (to_lower uni h))
            in if out = [] then [] else join_with '','' (sort out)))"

definition key_tenant :: "(string \<Rightarrow> string) \<Rightarrow> http_request \<Rightarrow> string" where
  "key_tenant uni r =
     (case hq_Tenant r of
        None \<Rightarrow> globalTenantKey
      | Some t \<Rightarrow> if ts_Host t \<noteq> [] then to_lower uni (ts_Host t) else globalTenantKey)"

definition clean_path :: "http_request \<Rightarrow> string" where
  "clean_path r = clean_rooted (CHR ''/'' # dropWhile (\<lambda>c. c = CHR ''/'') (hq_Path r))"

definition key_input :: "(string \<Rightarrow> string) \<Rightarrow> http_request \<Rightarrow> string" where
  "key_input uni r =
     key_tenant uni r @ [CHR 0x00] @ hq_Method r @ [CHR 0x0A] @ to_lower uni (hq_Host r) @ [CHR 0x0A] @ clean_path r
     @ [CHR 0x0A] @ canonicalise_query (hq_RawQuery r) @ [CHR 0x0A]
     @ canonical_accept_encoding uni (hdr_get (hq_Header r) ''Accept-Encoding'')"

definition tenant_key :: "(string \<Rightarrow> string) \<Rightarrow> (string \<Rightarrow> string) \<Rightarrow> http_request \<Rightarrow> string" where
  "tenant_key sha256 uni r = hex_encode (sha256 (key_input uni r))"

subsection \<open>The store\<close>

record cache_entry =
  ce_StatusCode :: int
  ce_Header :: header
  ce_Body :: string

record 'c ristretto =
  rc_new :: "int \<Rightarrow> 'c option"
  rc_get :: "'c \<Rightarrow> string \<Rightarrow> time \<Rightarrow> cache_entry option \<times> 'c"
  rc_set :: "'c \<Rightarrow> string \<Rightarrow> cache_entry \<Rightarrow> int \<Rightarrow> duration \<Rightarrow> time \<Rightarrow> 'c"

definition ristretto_laws :: "'c ristretto \<Rightarrow> bool" where
  "ristretto_laws R \<longleftrightarrow>
     (\<forall>n c k t. rc_new R n = Some c \<longrightarrow> fst (rc_get R c k t) = None)
     \<and> (\<forall>c k t k' t' e. fst (rc_get R (snd (rc_get R c k t)) k' t') = Some e \<longrightarrow> fst (rc_get R c k' t') = Some e)
     \<and> (\<forall>c k e cost ttl t k' t' e'. fst (rc_get R (rc_set R c k e cost ttl t) k' t') = Some e' \<longrightarrow>
          (k' = k \<and> e' = e \<and> t' \<le> t + ttl) \<or> fst (rc_get R c k' t') = Some e')"

definition new_ristretto :: "'c ristretto \<Rightarrow> int \<Rightarrow> 'c option" where
  "new_ristretto R maxSizeMB = rc_new R (wrap64 ((if maxSizeMB \<le> 0 then 256 else maxSizeMB) * 1024 * 1024))"

record 'c sc_feature =
  sf_enabled :: bool
  sf_cache :: "'c option"
  sf_cfg :: "sc_params option"

definition new_sc_feature :: "'c sc_feature" where
  "new_sc_feature = \<lparr>sf_enabled = False, sf_cache = None, sf_cfg = None\<rparr>"

definition sc_close :: "'c sc_feature \<Rightarrow> 'c sc_feature" where
  "sc_close f = f\<lparr>sf_cache := None\<rparr>"

definition sc_any_enabled :: "globals_snapshot \<Rightarrow> (string \<times> tenant_snapshot) list \<Rightarrow> bool" where
  "sc_any_enabled globals tenants =
     (fs_Enabled (lookup_snapshot globals sc_FeatureName)
      \<or> list_ex (\<lambda>(host, t). case ts_Features t sc_FeatureName of None \<Rightarrow> False | Some cfg \<Rightarrow> fs_Enabled cfg) tenants)"

definition sc_observe ::
  "'c ristretto \<Rightarrow> sc_parsers \<Rightarrow> globals_snapshot \<Rightarrow> (string \<times> tenant_snapshot) list \<Rightarrow> 'c sc_feature \<Rightarrow> 'c sc_feature" where
  "sc_observe R P globals tenants f =
     (let anyEnabled = sc_any_enabled globals tenants in
      case sc_parse_params P (lookup_snapshot globals sc_FeatureName) of
        Inl e \<Rightarrow> f\<lparr>sf_enabled := False\<rparr>
      | Inr newParams \<Rightarrow>
          (let needsRebuild =
                 (sf_cache f = None
                  \<or> (case sf_cfg f of
                       None \<Rightarrow> True
                     | Some old \<Rightarrow> sp_maxSizeMB old \<noteq> sp_maxSizeMB newParams
                         \<or> \<not> string_set_equal (sp_extensionsList old) (sp_extensionsList newParams)));
               cache = (if needsRebuild then (if anyEnabled then new_ristretto R (sp_maxSizeMB newParams) else None) else sf_cache f)
           in \<lparr>sf_enabled = (anyEnabled \<and> cache \<noteq> None), sf_cache = cache, sf_cfg = Some newParams\<rparr>))"

subsection \<open>The middleware\<close>

record sf_result =
  sr_cacheable :: bool
  sr_tooBig :: bool
  sr_statusCode :: int
  sr_header :: header
  sr_body :: string

definition write_shared_response :: "header \<Rightarrow> sf_result \<Rightarrow> sc_reply" where
  "write_shared_response w res = Reply (sr_statusCode res) (default_miss (add_all (sr_header res) w)) (sr_body res)"

definition write_cached :: "header \<Rightarrow> cache_entry \<Rightarrow> sc_reply" where
  "write_cached w e = Reply (ce_StatusCode e) (hdr_set ''X-Cache'' ''HIT'' (add_all (ce_Header e) w)) (ce_Body e)"

definition capture :: "http_request \<Rightarrow> writer_call list \<Rightarrow> capture_recorder" where
  "capture r calls =
     fold cr_call calls
       ((new_capture_recorder None)\<lparr>cr_path := hq_Path r, cr_reqHadAuth := (hdr_get (hq_Header r) ''Authorization'' \<noteq> [])\<rparr>)"

definition cached_entry_of :: "capture_recorder \<Rightarrow> cache_entry" where
  "cached_entry_of rec = \<lparr>ce_StatusCode = cr_statusCode rec, ce_Header = strip_hop_by_hop (cr_header rec), ce_Body = cr_body rec\<rparr>"

definition entry_cost :: "sc_params \<Rightarrow> cache_entry \<Rightarrow> int" where
  "entry_cost p e =
     (let cost0 = int (length (ce_Body e)); cost1 = (if cost0 \<le> 0 then 1 else cost0)
      in wrap64 (cost1 * ext_cost_multiplier (Some p)))"

definition entry_ttl :: "sc_params \<Rightarrow> duration" where
  "entry_ttl p = (if sp_defaultTTL p \<le> 0 then 3600 * second else sp_defaultTTL p)"

text \<open>The closure that \<^verbatim>\<open>sf.Do\<close> runs: at \<open>t1\<close> it looks the key up again, and at \<open>t2\<close> the next handler has returned.\<close>

definition sc_fetch ::
  "'c ristretto \<Rightarrow> (string \<Rightarrow> string) \<Rightarrow> sc_params \<Rightarrow> string \<Rightarrow> http_request \<Rightarrow> writer_call list \<Rightarrow> time \<Rightarrow> time \<Rightarrow> 'c \<Rightarrow> sf_result \<times> 'c" where
  "sc_fetch R uni p key r calls t1 t2 c =
     (case rc_get R c key t1 of
        (Some e, c1) \<Rightarrow>
          (\<lparr>sr_cacheable = True, sr_tooBig = False, sr_statusCode = ce_StatusCode e, sr_header = ce_Header e, sr_body = ce_Body e\<rparr>, c1)
      | (None, c1) \<Rightarrow>
          (let rec = capture r calls in
           if int (length (cr_body rec)) > maxCacheBodySize then
             (\<lparr>sr_cacheable = False, sr_tooBig = True, sr_statusCode = 0, sr_header = [], sr_body = []\<rparr>, c1)
           else
             (let res = \<lparr>sr_cacheable = False, sr_tooBig = False, sr_statusCode = cr_statusCode rec,
                         sr_header = strip_hop_by_hop (cr_header rec), sr_body = cr_body rec\<rparr>
              in if cacheable_response uni rec then
                   (res\<lparr>sr_cacheable := True\<rparr>, rc_set R c1 key (cached_entry_of rec) (entry_cost p (cached_entry_of rec)) (entry_ttl p) t2)
                 else (res, c1))))"

text \<open>How far a request gets before \<^verbatim>\<open>sf.Do\<close>: past the feature, answered from the cache, or a miss.\<close>

datatype 'c sc_route = Bypass | Hit cache_entry 'c | Miss sc_params string 'c

definition sc_lookup ::
  "'c ristretto \<Rightarrow> (string \<Rightarrow> string) \<Rightarrow> (string \<Rightarrow> string) \<Rightarrow> 'c sc_feature \<Rightarrow> feature_snapshot \<Rightarrow> http_request \<Rightarrow> time \<Rightarrow> 'c sc_route" where
  "sc_lookup R sha256 uni f snap r t =
     (if \<not> sf_enabled f then Bypass
      else if \<not> fs_Enabled snap then Bypass
      else
        (case sf_cfg f of
           None \<Rightarrow> Bypass
         | Some p \<Rightarrow>
             if \<not> cacheable_request uni r (sp_extensions p) then Bypass
             else
               (case sf_cache f of
                  None \<Rightarrow> Bypass
                | Some c \<Rightarrow>
                    (let key = tenant_key sha256 uni r
                     in case rc_get R c key t of (Some e, c1) \<Rightarrow> Hit e c1 | (None, c1) \<Rightarrow> Miss p key c1))))"

datatype flight_role = Executes "writer_call list" | Waits sf_result

definition sc_serve ::
  "'c ristretto \<Rightarrow> (string \<Rightarrow> string) \<Rightarrow> (string \<Rightarrow> string) \<Rightarrow> feature_snapshot \<Rightarrow> http_request \<Rightarrow> header \<Rightarrow> time \<Rightarrow> time \<Rightarrow> flight_role
     \<Rightarrow> 'c sc_feature \<Rightarrow> sc_reply \<times> sf_result option \<times> 'c sc_feature" where
  "sc_serve R sha256 uni snap r w t1 t2 role f =
     (case sc_lookup R sha256 uni f snap r t1 of
        Bypass \<Rightarrow> (Direct, None, f)
      | Hit e c1 \<Rightarrow> (write_cached w e, None, f\<lparr>sf_cache := Some c1\<rparr>)
      | Miss p key c1 \<Rightarrow>
          (let (res, c2) = (case role of Waits res \<Rightarrow> (res, c1) | Executes calls \<Rightarrow> sc_fetch R uni p key r calls t1 t2 c1)
           in ((if sr_tooBig res then Direct else write_shared_response w res), Some res, f\<lparr>sf_cache := Some c2\<rparr>)))"

text \<open>A history of the feature: reloads, requests and the final \<^verbatim>\<open>Close\<close>.\<close>

datatype sc_event =
    SObserve globals_snapshot "(string \<times> tenant_snapshot) list"
  | SRequest feature_snapshot http_request header time time flight_role
  | SClose

fun sc_step :: "'c ristretto \<Rightarrow> sc_parsers \<Rightarrow> (string \<Rightarrow> string) \<Rightarrow> sc_event \<Rightarrow> 'c sc_feature \<Rightarrow> 'c sc_feature" where
  "sc_step R P sha256 (SObserve globals tenants) f = sc_observe R P globals tenants f"
| "sc_step R P sha256 (SRequest snap r w t1 t2 role) f = snd (snd (sc_serve R sha256 (ps_uni P) snap r w t1 t2 role f))"
| "sc_step R P sha256 SClose f = sc_close f"

definition sc_run :: "'c ristretto \<Rightarrow> sc_parsers \<Rightarrow> (string \<Rightarrow> string) \<Rightarrow> sc_event list \<Rightarrow> 'c sc_feature" where
  "sc_run R P sha256 es = fold (sc_step R P sha256) es new_sc_feature"

subsection \<open>The insertion sort\<close>

text \<open>What the inner loop keeps: the elements other than the moving one are in order, and those it has passed are not smaller.\<close>

definition inner_inv :: "nat \<Rightarrow> string list \<Rightarrow> string list \<times> nat \<Rightarrow> bool" where
  "inner_inv i s st \<longleftrightarrow>
     (case st of (t, j) \<Rightarrow>
        mset t = mset s \<and> j \<le> i
        \<and> (\<forall>a b. a < b \<longrightarrow> b \<le> i \<longrightarrow> a \<noteq> j \<longrightarrow> b \<noteq> j \<longrightarrow> t ! a \<le> t ! b)
        \<and> (\<forall>b. j < b \<longrightarrow> b \<le> i \<longrightarrow> t ! j \<le> t ! b))"

lemma inner_inv_step:
  assumes "inner_inv i s (t, j)" and "i < length s" and "j > 0" and "t ! (j - 1) > t ! j"
  shows "inner_inv i s (t[j - 1 := t ! j, j := t ! (j - 1)], j - 1)"
proof -
  obtain m where m: "j = Suc m" using assms(3) by (cases j) auto
  let ?t = "t[m := t ! Suc m, Suc m := t ! m]"
  from assms(1) have inv: "mset t = mset s" "Suc m \<le> i"
    "\<And>a b. a < b \<Longrightarrow> b \<le> i \<Longrightarrow> a \<noteq> Suc m \<Longrightarrow> b \<noteq> Suc m \<Longrightarrow> t ! a \<le> t ! b" "\<And>b. Suc m < b \<Longrightarrow> b \<le> i \<Longrightarrow> t ! Suc m \<le> t ! b"
    by (auto simp: inner_inv_def m)
  have len: "length t = length s" using inv(1) by (metis size_mset)
  have j: "Suc m < length t" "m < length t" using inv(2) assms(2) len by auto
  have nth: "?t ! k = (if k = Suc m then t ! m else if k = m then t ! Suc m else t ! k)" if "k \<le> i" for k
    using that assms(2) len by (auto simp: nth_list_update)
  have "mset ?t = mset s"
    using mset_swap[OF j(1,2)] inv(1) by simp
  moreover have "?t ! a \<le> ?t ! b" if "a < b" "b \<le> i" "a \<noteq> m" "b \<noteq> m" for a b
    using that inv(3)[of a b] inv(3)[of m b] inv(3)[of a m] by (auto simp: nth)
  moreover have "?t ! m \<le> ?t ! b" if "m < b" "b \<le> i" for b
    using that inv(2) inv(4)[of b] assms(4) j(2) by (auto simp: nth m)
  ultimately show ?thesis using inv(2) by (simp add: inner_inv_def m)
qed

lemma sort_inner_spec:
  assumes "i < length s" and "sorted (take i s)"
  shows "\<exists>t. sort_inner i s = Some t \<and> mset t = mset s \<and> sorted (take (Suc i) t)"
proof -
  let ?b = "\<lambda>(s, j). j > 0 \<and> s ! (j - 1) > s ! j" and ?c = "\<lambda>(s, j). (s[j - 1 := s ! j, j := s ! (j - 1)], j - 1)"
  have init: "inner_inv i s (s, i)"
    using assms by (auto simp: inner_inv_def sorted_iff_nth_mono)
  have step: "inner_inv i s st \<Longrightarrow> ?b st \<Longrightarrow> inner_inv i s (?c st)" for st
    using inner_inv_step[OF _ assms(1)] by (cases st) auto
  have "\<exists>st. while_option ?b ?c (s, i) = Some st"
    by (rule measure_while_option_Some[where P = "inner_inv i s" and f = snd]) (use init step in auto)
  then obtain t j where w: "while_option ?b ?c (s, i) = Some (t, j)" by (metis surj_pair)
  have inv: "inner_inv i s (t, j)" by (rule while_option_rule[OF step w init])
  have stop: "j = 0 \<or> t ! (j - 1) \<le> t ! j" using while_option_stop[OF w] by auto
  have len: "length t = length s" using inv by (auto simp: inner_inv_def dest: mset_eq_length)
  have "t ! a \<le> t ! b" if "a < b" "b \<le> i" for a b
  proof (cases "b = j")
    case True
    then have "a = j - 1 \<or> t ! a \<le> t ! (j - 1)" using inv that unfolding inner_inv_def by (cases "a = j - 1") auto
    then show ?thesis using stop True that by (auto intro: order_trans)
  next
    case False
    then show ?thesis using inv that unfolding inner_inv_def by (cases "a = j") auto
  qed
  then have "sorted (take (Suc i) t)" using len assms(1) by (auto simp: sorted_iff_nth_mono_less)
  moreover have "sort_inner i s = Some t" unfolding sort_inner_def w by simp
  ultimately show ?thesis using inv by (auto simp: inner_inv_def)
qed

lemma sort_outer_spec:
  assumes "n \<le> length s"
  shows "\<exists>t. fold (\<lambda>i r. Option.bind r (sort_inner i)) [1..<n] (Some s) = Some t \<and> mset t = mset s \<and> sorted (take n t)"
  using assms
proof (induction n)
  case (Suc n)
  show ?case
  proof (cases n)
    case 0
    then show ?thesis using Suc.prems by (cases s) auto
  next
    case (Suc m)
    obtain t where t: "fold (\<lambda>i r. Option.bind r (sort_inner i)) [1..<n] (Some s) = Some t" "mset t = mset s" "sorted (take n t)"
      using Suc.IH Suc.prems by auto
    moreover have "n < length t" using t(2) Suc.prems by (metis size_mset Suc_le_lessD)
    ultimately show ?thesis using sort_inner_spec[of n t] Suc by auto
  qed
qed simp

lemma sort_strings_sort: "sort_strings s = Some (sort s)"
proof -
  obtain t where t: "sort_strings s = Some t" "mset t = mset s" "sorted (take (length s) t)"
    using sort_outer_spec[of "length s" s] by (auto simp: sort_strings_def)
  then have "sorted t" using mset_eq_length[OF t(2)] by simp
  then show ?thesis using t by (metis properties_for_sort)
qed

subsection \<open>What the key tells apart\<close>











subsection \<open>Where a cached response comes from\<close>

text \<open>
  The origin of an entry under a key at a time: a request of the history that ran the fetch closure while a configuration of the history was in force, and got a cacheable
  response not longer ago than the time to live.
\<close>

text \<open>The parameters in force after a history: those of its last reload whose parameters parse. A reload with parameters that do not parse leaves them as they were.\<close>

definition accepted_params :: "sc_parsers \<Rightarrow> sc_event \<Rightarrow> sc_params option" where
  "accepted_params P ev =
     (case ev of
        SObserve globals tenants \<Rightarrow> (case sc_parse_params P (lookup_snapshot globals sc_FeatureName) of Inl _ \<Rightarrow> None | Inr p \<Rightarrow> Some p)
      | _ \<Rightarrow> None)"

definition params_in_force :: "sc_parsers \<Rightarrow> sc_event list \<Rightarrow> sc_params option" where
  "params_in_force P es = (let ps = List.map_filter (accepted_params P) es in if ps = [] then None else Some (last ps))"

lemma params_in_force_snoc:
  "params_in_force P [] = None"
  "params_in_force P (es @ [ev]) = (case accepted_params P ev of None \<Rightarrow> params_in_force P es | Some p \<Rightarrow> Some p)"
  by (auto simp: params_in_force_def List.map_filter_def Let_def)

lemma params_in_force_parsed:
  assumes "params_in_force P es = Some p"
  obtains cfg where "sc_parse_params P cfg = Inr p"
proof -
  have "p \<in> set (List.map_filter (accepted_params P) es)"
    using assms by (auto simp: params_in_force_def Let_def split: if_splits)
  then obtain ev where "accepted_params P ev = Some p" by (auto simp: set_list_map_filter)
  then show thesis using that by (cases ev) (auto simp: accepted_params_def split: sum.splits)
qed






lemma sc_lookup_cases:
  obtains (bypass) "sc_lookup R sha256 uni f snap r t = Bypass"
  | (found) p c e c1 where "sf_cfg f = Some p" "sf_cache f = Some c" "cacheable_request uni r (sp_extensions p)"
      "rc_get R c (tenant_key sha256 uni r) t = (Some e, c1)" "sc_lookup R sha256 uni f snap r t = Hit e c1"
  | (miss) p c c1 where "sf_cfg f = Some p" "sf_cache f = Some c" "cacheable_request uni r (sp_extensions p)"
      "rc_get R c (tenant_key sha256 uni r) t = (None, c1)" "sc_lookup R sha256 uni f snap r t = Miss p (tenant_key sha256 uni r) c1"
proof -
  have "sc_lookup R sha256 uni f snap r t = Bypass
    \<or> (\<exists>p c e c1. sf_cfg f = Some p \<and> sf_cache f = Some c \<and> cacheable_request uni r (sp_extensions p)
        \<and> rc_get R c (tenant_key sha256 uni r) t = (Some e, c1) \<and> sc_lookup R sha256 uni f snap r t = Hit e c1)
    \<or> (\<exists>p c c1. sf_cfg f = Some p \<and> sf_cache f = Some c \<and> cacheable_request uni r (sp_extensions p)
        \<and> rc_get R c (tenant_key sha256 uni r) t = (None, c1) \<and> sc_lookup R sha256 uni f snap r t = Miss p (tenant_key sha256 uni r) c1)"
    by (auto simp: sc_lookup_def Let_def split: option.splits prod.splits)
  then show thesis using that by blast
qed



lemma sc_serve_cfg: "sf_cfg (snd (snd (sc_serve R sha256 uni snap r w t1 t2 role f))) = sf_cfg f"
  by (simp add: sc_serve_def split: sc_route.split flight_role.split prod.split)


lemma sc_run_snoc: "sc_run R P sha256 [] = new_sc_feature" "sc_run R P sha256 (es @ [ev]) = sc_step R P sha256 ev (sc_run R P sha256 es)"
  by (simp_all add: sc_run_def)

lemma sc_run_cfg: "sf_cfg (sc_run R P sha256 es) = params_in_force P es"
proof (induction es rule: rev_induct)
  case (snoc ev es)
  then show ?case
    by (cases ev) (simp_all add: sc_run_snoc params_in_force_snoc accepted_params_def sc_observe_def sc_serve_cfg sc_close_def Let_def split: sum.split)
qed (simp add: sc_run_snoc params_in_force_snoc new_sc_feature_def)






lemma cacheable_responseD:
  assumes "cacheable_response uni rec"
  shows "\<not> cr_reqHadAuth rec" and "200 \<le> cr_statusCode rec \<and> cr_statusCode rec < 300"
    and "0 < length (cr_body rec) \<and> int (length (cr_body rec)) \<le> maxCacheBodySize"
    and "hdr_values (cr_header rec) ''Set-Cookie'' = []"
  using assms by (auto simp: cacheable_response_def Let_def split: if_splits)



text \<open>A cache that keeps everything until it expires, and a feature that is switched on for scripts.\<close>

definition alist_ristretto :: "(string \<times> cache_entry \<times> time) list ristretto" where
  "alist_ristretto =
     \<lparr>rc_new = \<lambda>_. Some [],
      rc_get = \<lambda>c k t. (case map_of c k of Some (e, until) \<Rightarrow> if t \<le> until then Some e else None | None \<Rightarrow> None, c),
      rc_set = \<lambda>c k e cost ttl t. (k, e, t + ttl) # c\<rparr>"

lemma alist_ristretto_ops [simp]:
  "rc_new alist_ristretto n = Some []"
  "rc_get alist_ristretto c k t = (case map_of c k of Some (e, until) \<Rightarrow> if t \<le> until then Some e else None | None \<Rightarrow> None, c)"
  "rc_set alist_ristretto c k e cost ttl t = (k, e, t + ttl) # c"
  by (simp_all add: alist_ristretto_def)

lemma alist_ristretto_laws: "ristretto_laws alist_ristretto"
  unfolding ristretto_laws_def by (auto split: option.splits if_splits)

definition demo_parsers :: sc_parsers where
  "demo_parsers = \<lparr>ps_duration = \<lambda>_. None, ps_float = \<lambda>_. None, ps_uni = id\<rparr>"

definition sc_on :: feature_snapshot where
  "sc_on = \<lparr>fs_Enabled = True, fs_Params = [''static_extensions'' \<mapsto> VStrings [''js'']], fs_Version = 0\<rparr>"

definition asset_request :: "header \<Rightarrow> http_request" where
  "asset_request h = \<lparr>hq_Method = ''GET'', hq_Host = ''a'', hq_Path = ''/b.js'', hq_RawQuery = [], hq_Header = h, hq_RemoteAddr = ''1.2.3.4:5'', hq_Tenant = None\<rparr>"

definition asset_calls :: "int \<Rightarrow> writer_call list" where
  "asset_calls status = [CSet ''Content-Length'' ''1'', CWriteHeader status, CWrite ''x'']"


definition demo_params :: sc_params where
  "demo_params =
     \<lparr>sp_maxSizeMB = 256, sp_defaultTTL = 3600 * second, sp_extensions = [''js''], sp_extensionsList = [''js''], sp_perTenantSizeFraction = 0\<rparr>"

definition demo_feature :: "(string \<times> cache_entry \<times> time) list sc_feature" where
  "demo_feature = \<lparr>sf_enabled = True, sf_cache = Some [], sf_cfg = Some demo_params\<rparr>"

lemma demo_ext: "norm_ext id ''.JS'' = ''js''" "norm_ext id ''js'' = ''js''"
proof -
  have "list_all visible ''.JS''" "list_all visible ''js''" by (simp_all add: visible_def)
  moreover have "to_lower id ''JS'' = ''js''" "to_lower id ''js'' = ''js''" by code_simp+
  ultimately show "norm_ext id ''.JS'' = ''js''" "norm_ext id ''js'' = ''js''"
    by (simp_all only: norm_ext_def trim_space_visible) (simp_all add: trim_prefix_def has_prefix_def)
qed

lemma demo_parse_exts:
  assumes "fs_Params cfg = [''static_extensions'' \<mapsto> VStrings es]" and "collect_exts id es [] = [''js'']"
  shows "sc_parse_params demo_parsers cfg = Inr demo_params"
  using assms by (simp add: sc_parse_params_def Let_def demo_parsers_def demo_params_def check_param_def sort_strings_sort)

lemma demo_parse: "sc_parse_params demo_parsers sc_on = Inr demo_params"
  by (rule demo_parse_exts[where es = "[''js'']"]) (simp_all add: sc_on_def demo_ext Let_def)

lemma demo_observe: "sc_observe alist_ristretto demo_parsers [sc_FeatureName \<mapsto> sc_on] [] new_sc_feature = demo_feature"
  by (simp add: sc_observe_def lookup_snapshot_def demo_parse new_sc_feature_def sc_any_enabled_def new_ristretto_def demo_feature_def Let_def)
    (simp add: sc_on_def)

lemma demo_admitted: "cacheable_request id (asset_request []) [''js'']" "cacheable_request id (asset_request [(''Range'', [''bytes=0-0''])]) [''js'']"
  by code_simp+

lemma demo_miss:
  assumes "cacheable_request id r [''js'']"
  shows "sc_lookup alist_ristretto id id demo_feature sc_on r t = Miss demo_params (tenant_key id id r) []"
  using assms by (simp add: sc_lookup_def demo_feature_def demo_params_def sc_on_def)

lemma demo_200: "cacheable_response id (capture (asset_request []) (asset_calls 200))"
  by code_simp




subsection \<open>Partial responses\<close>

lemma range_same_key: "tenant_key sha256 uni (r\<lparr>hq_Header := hdr_set ''Range'' rng (hq_Header r)\<rparr>) = tenant_key sha256 uni r"
proof -
  have "canonical_key ''Accept-Encoding'' \<noteq> canonical_key ''Range''" by code_simp
  then have "hdr_get (hdr_set ''Range'' rng (hq_Header r)) ''Accept-Encoding'' = hdr_get (hq_Header r) ''Accept-Encoding''"
    by (simp add: hdr_get_def hdr_values_def hdr_set_def map_of_alist_put)
  then show ?thesis by (simp add: tenant_key_def key_input_def key_tenant_def clean_path_def)
qed

lemma range_same_admission: "cacheable_request uni (r\<lparr>hq_Header := hdr_set ''Range'' rng (hq_Header r)\<rparr>) exts = cacheable_request uni r exts"
proof -
  have "canonical_key ''Authorization'' \<noteq> canonical_key ''Range''" "canonical_key ''Cookie'' \<noteq> canonical_key ''Range''" by code_simp+
  then show ?thesis by (simp add: cacheable_request_def hdr_get_def hdr_values_def hdr_set_def map_of_alist_put)
qed

text \<open>
  One range request fixes what everybody gets. The key ignores the \<^verbatim>\<open>Range\<close> header and every 2xx status counts as cacheable, so when a request for a range misses and the origin
  answers with 206, the part is stored; as long as the store keeps it, a plain request for the same resource is answered with status 206 and the part as its body.
\<close>

theorem partial_response_poisons_cache:
  assumes "r0 = r\<lparr>hq_Header := hdr_set ''Range'' rng (hq_Header r)\<rparr>"
    and "sc_lookup R sha256 uni f snap r0 t1 = Miss p key c1" and "rc_get R c1 key t1 = (None, c2)"
    and "cr_statusCode (capture r0 calls) = 206" and "cacheable_response uni (capture r0 calls)"
    and "rc_get R (rc_set R c2 key (cached_entry_of (capture r0 calls)) (entry_cost p (cached_entry_of (capture r0 calls))) (entry_ttl p) t2) key t
      = (Some (cached_entry_of (capture r0 calls)), c3)"
    and "fs_Enabled snap'"
  shows "\<exists>h. fst (sc_serve R sha256 uni snap' r w' t t' role (snd (snd (sc_serve R sha256 uni snap r0 w t1 t2 (Executes calls) f))))
    = Reply 206 h (cr_body (capture r0 calls))"
proof (cases R sha256 uni f snap r0 t1 rule: sc_lookup_cases)
  case (miss p' c c1')
  then have p: "p' = p" "c1' = c1" "key = tenant_key sha256 uni r" using assms(1,2) range_same_key by simp_all
  have en: "sf_enabled f" using assms(2) by (auto simp: sc_lookup_def split: if_splits)
  have adm: "cacheable_request uni r (sp_extensions p)" using miss(3) p range_same_admission assms(1) by blast
  have small: "\<not> int (length (cr_body (capture r0 calls))) > maxCacheBodySize" using cacheable_responseD(3)[OF assms(5)] by simp
  let ?c = "rc_set R c2 key (cached_entry_of (capture r0 calls)) (entry_cost p (cached_entry_of (capture r0 calls))) (entry_ttl p) t2"
  have "snd (snd (sc_serve R sha256 uni snap r0 w t1 t2 (Executes calls) f)) = f\<lparr>sf_cache := Some ?c\<rparr>"
    using assms(2,3,5) small by (simp add: sc_serve_def sc_fetch_def Let_def)
  moreover have "sc_lookup R sha256 uni (f\<lparr>sf_cache := Some ?c\<rparr>) snap' r t = Hit (cached_entry_of (capture r0 calls)) c3"
    using en adm assms(6,7) miss(1) p by (simp add: sc_lookup_def)
  ultimately show ?thesis using assms(4) by (simp add: sc_serve_def write_cached_def cached_entry_of_def)
qed (use assms(2) in simp_all)

lemma demo_206: "cacheable_response id (capture (asset_request [(''Range'', [''bytes=0-0''])]) (asset_calls 206))
    \<and> cr_statusCode (capture (asset_request [(''Range'', [''bytes=0-0''])]) (asset_calls 206)) = 206"
  by code_simp

theorem partial_response_poisons_cache_witness:
  "\<exists>h. fst (sc_serve alist_ristretto id id sc_on (asset_request []) [] 1 1 (Executes [])
      (snd (snd (sc_serve alist_ristretto id id sc_on (asset_request [(''Range'', [''bytes=0-0''])]) [] 0 0 (Executes (asset_calls 206)) demo_feature))))
    = Reply 206 h ''x''"
proof -
  let ?r0 = "asset_request [(''Range'', [''bytes=0-0''])]"
  have r0: "?r0 = asset_request []\<lparr>hq_Header := hdr_set ''Range'' ''bytes=0-0'' (hq_Header (asset_request []))\<rparr>"
  proof -
    have "canonical_key ''Range'' = ''Range''" by code_simp
    then show ?thesis by (simp add: asset_request_def hdr_set_def)
  qed
  have body: "cr_body (capture ?r0 (asset_calls 206)) = ''x''" by code_simp
  show ?thesis
    using partial_response_poisons_cache[OF r0 demo_miss[OF demo_admitted(2)] _ conjunct2[OF demo_206] conjunct1[OF demo_206], where t = 1 and snap' = sc_on and ?t2.0 = 0]
    unfolding body by (simp add:  sc_on_def entry_ttl_def demo_params_def second_def)
qed

subsection \<open>Reloads\<close>

text \<open>
  C34 (termination). The loops of \<^verbatim>\<open>sortStrings\<close> end on every input, with the same strings in ascending order.
\<close>

theorem sort_strings_correct: "\<exists>t. sort_strings s = Some t \<and> sorted t \<and> mset t = mset s"
  by (simp add: sort_strings_sort)

lemma collect_exts_set:
  "distinct seen \<Longrightarrow> distinct (collect_exts uni es seen) \<and> set (collect_exts uni es seen) = set seen \<union> (norm_ext uni ` set es - {[]})"
  by (induction uni es seen rule: collect_exts.induct) (auto simp: Let_def)

lemma parsed_extensions:
  assumes "sc_parse_params P cfg = Inr p"
  shows "distinct (sp_extensions p)" and "sp_extensionsList p = sort (sp_extensions p)"
proof -
  obtain mb ttl x exts where "p = \<lparr>sp_maxSizeMB = mb, sp_defaultTTL = ttl, sp_extensions = collect_exts (ps_uni P) exts [],
      sp_extensionsList = the (sort_strings (collect_exts (ps_uni P) exts [])), sp_perTenantSizeFraction = x\<rparr>"
    using assms unfolding sc_parse_params_def Let_def or_error_Inr by (elim exE conjE) (erule sum.inject(2)[THEN iffD1, THEN sym, THEN that])
  then have "sp_extensions p = collect_exts (ps_uni P) exts []" "sp_extensionsList p = the (sort_strings (collect_exts (ps_uni P) exts []))"
    by simp_all
  moreover have "distinct (collect_exts (ps_uni P) exts [])" using collect_exts_set[OF distinct.simps(1)[THEN iffD2, OF TrueI]] by blast
  ultimately show "distinct (sp_extensions p)" and "sp_extensionsList p = sort (sp_extensions p)"
    by (simp_all only: sort_strings_sort option.sel)
qed

lemma parsed_fraction:
  assumes "sc_parse_params P cfg = Inr p"
  shows "0 \<le> sp_perTenantSizeFraction p \<and> sp_perTenantSizeFraction p \<le> 1"
proof -
  obtain x where "check_param (fs_Params cfg) ''per_tenant_size_fraction'' (sc_as_float (ps_float P)) (\<lambda>x. 0 \<le> x \<and> x \<le> 1) 0 = Inr x"
    "sp_perTenantSizeFraction p = x"
    using assms unfolding sc_parse_params_def Let_def or_error_Inr by (elim exE conjE) (rule that, assumption, auto)
  then show ?thesis by (auto simp: check_param_def split: option.splits if_splits)
qed

lemma string_set_equal_eq: "string_set_equal a b \<longleftrightarrow> a = b"
  by (auto simp: string_set_equal_def list_all_iff intro: nth_equalityI)

lemma extension_lists_agree:
  assumes "sc_parse_params P cfg = Inr p" and "sc_parse_params P cfg' = Inr p'"
  shows "string_set_equal (sp_extensionsList p) (sp_extensionsList p') \<longleftrightarrow> set (sp_extensions p) = set (sp_extensions p')"
proof -
  note e = parsed_extensions[OF assms(1)] parsed_extensions[OF assms(2)]
  have "sort (sp_extensions p) = sort (sp_extensions p')" if "set (sp_extensions p) = set (sp_extensions p')"
    by (rule sorted_distinct_set_unique) (use e that in simp_all)
  moreover have "set (sp_extensions p) = set (sp_extensions p')" if "sort (sp_extensions p) = sort (sp_extensions p')"
    using that by (metis set_sort)
  ultimately show ?thesis using e by (auto simp: string_set_equal_eq)
qed

text \<open>
  What a reload does to the cache. After any history, a reload whose parameters parse keeps the cache and all it holds exactly when the size is unchanged and the static extensions are the same
  set once blanks, dots and case are normalised, whatever their order and repetitions; otherwise it starts with a new cache, or with none when the feature is nowhere enabled.
\<close>

theorem reload_keeps_cache:
  assumes "ristretto_laws R" and "f = sc_run R P sha256 es" and "sf_cache f = Some c" and "sf_cfg f = Some p"
    and "sc_parse_params P (lookup_snapshot globals sc_FeatureName) = Inr p'"
  shows "sf_cache (sc_observe R P globals tenants f) =
    (if sp_maxSizeMB p = sp_maxSizeMB p' \<and> set (sp_extensions p) = set (sp_extensions p') then Some c
     else if sc_any_enabled globals tenants then new_ristretto R (sp_maxSizeMB p') else None)"
proof -
  obtain cfg where "sc_parse_params P cfg = Inr p" using assms(2,4) params_in_force_parsed[of P es p] by (auto simp: sc_run_cfg)
  from extension_lists_agree[OF this assms(5)] show ?thesis using assms(3,4,5) by (simp add: sc_observe_def Let_def)
qed

theorem reload_keeps_cache_witness:
  "sf_cache (sc_observe alist_ristretto demo_parsers [sc_FeatureName \<mapsto> sc_on\<lparr>fs_Params := [''static_extensions'' \<mapsto> VStrings [''.JS'', ''js'']]\<rparr>] []
      (sc_run alist_ristretto demo_parsers id [SObserve [sc_FeatureName \<mapsto> sc_on] []])) = Some []"
proof -
  have new: "sc_parse_params demo_parsers
      (lookup_snapshot [sc_FeatureName \<mapsto> sc_on\<lparr>fs_Params := [''static_extensions'' \<mapsto> VStrings [''.JS'', ''js'']]\<rparr>] sc_FeatureName) = Inr demo_params"
    unfolding lookup_snapshot_def by (rule demo_parse_exts[where es = "[''.JS'', ''js'']"]) (simp_all add: demo_ext Let_def)
  have old: "sf_cache (sc_run alist_ristretto demo_parsers id [SObserve [sc_FeatureName \<mapsto> sc_on] []]) = Some []"
    "sf_cfg (sc_run alist_ristretto demo_parsers id [SObserve [sc_FeatureName \<mapsto> sc_on] []]) = Some demo_params" by (simp_all add: sc_run_def demo_observe) (simp_all add: demo_feature_def)
  from reload_keeps_cache[OF alist_ristretto_laws refl old new] show ?thesis by simp
qed

subsection \<open>Costs\<close>

lemma cost_multiplier_close:
  assumes "1 / 2 ^ 30 \<le> x" and "x \<le> 1" and "sp_perTenantSizeFraction p = x"
  shows "1 \<le> ext_cost_multiplier (Some p)" and "\<bar>of_int (ext_cost_multiplier (Some p)) - 1 / x\<bar> \<le> 1"
proof -
  have x: "0 < x" using assms(1) by (rule less_le_trans[rotated]) simp
  have inv: "1 \<le> 1 / x" "1 / x \<le> 2 ^ 30" using x assms(1,2) by (simp_all add: field_simps)
  define m where "m = (if fl (1 / x) < 1 then 1 else fl (1 / x))"
  have d: "\<bar>fl (1 / x) - 1 / x\<bar> \<le> 1 / 2 ^ 22"
  proof -
    have "\<bar>1 / x\<bar> / 2 ^ 53 + 1 / 2 ^ 1075 \<le> (2 ^ 30 / 2 ^ 53 + 1 / 2 ^ 53 :: rat)" using inv x by (intro add_mono divide_right_mono) (simp_all add: power_increasing)
    also have "\<dots> \<le> 1 / 2 ^ 22" by simp
    finally show ?thesis using fl_close[of "1 / x"] by linarith
  qed
  then have m: "1 \<le> m" "\<bar>m - 1 / x\<bar> \<le> 1 / 2 ^ 22" using inv by (auto simp: m_def)
  then have m30: "m \<le> 2 ^ 30 + 1" 
  proof -
    have "(1 :: rat) / 2 ^ 22 \<le> 1" by simp
    then show ?thesis using inv(2) m(2) by linarith
  qed
  have e: "\<bar>fl (m + 1 / 2) - (m + 1 / 2)\<bar> \<le> 1 / 2 ^ 22"
  proof -
    have "\<bar>m + 1 / 2\<bar> / 2 ^ 53 + 1 / 2 ^ 1075 \<le> (2 ^ 30 + 2) / 2 ^ 53 + 1 / 2 ^ 53" using m(1) m30 by (intro add_mono divide_right_mono) (simp_all add: power_increasing)
    also have "\<dots> \<le> (1 / 2 ^ 22 :: rat)" by simp
    finally show ?thesis using fl_close[of "m + 1 / 2"] by linarith
  qed
  define q where "q = fl (m + 1 / 2)"
  have q: "1 \<le> q" "q \<le> 2 ^ 30 + 2"
  proof -
    have "(1 :: rat) / 2 ^ 22 \<le> 1 / 2" by simp
    then show "1 \<le> q" "q \<le> 2 ^ 30 + 2" using e m(1) m30 unfolding q_def by linarith+
  qed
  have fl_q: "1 \<le> floor q" "floor q \<le> 2 ^ 30 + 2" using q by (simp_all add: le_floor_iff floor_le_iff)
  have mult: "ext_cost_multiplier (Some p) = floor q"
    using x assms(3) fl_q q(1) by (simp add: ext_cost_multiplier_def Let_def m_def[symmetric] q_def[symmetric] float_to_int_def min_int64_def max_int64_def)
  show "1 \<le> ext_cost_multiplier (Some p)" using mult fl_q by simp
  show "\<bar>of_int (ext_cost_multiplier (Some p)) - 1 / x\<bar> \<le> 1"
  proof -
    have "(1 :: rat) / 2 ^ 22 \<le> 1 / 4" by simp
    then show ?thesis using e m(2) floor_correct[of q] unfolding q_def[symmetric] mult by linarith
  qed
qed

text \<open>
  Charging for a share. With a tenant share between \<open>2 ^ - 30\<close> and 1 the cost that an entry is given is, in spite of the rounding, the length of its body divided by the share
  up to one body length, at least the length itself and far from overflow; with share 0 it is the length.
\<close>

theorem entry_cost_bounds:
  assumes "sc_parse_params P cfg = Inr p" and "sp_perTenantSizeFraction p = 0 \<or> 1 / 2 ^ 30 \<le> sp_perTenantSizeFraction p"
    and "cacheable_response uni rec"
  shows "int (length (cr_body rec)) \<le> entry_cost p (cached_entry_of rec)
    \<and> (if sp_perTenantSizeFraction p = 0 then entry_cost p (cached_entry_of rec) = int (length (cr_body rec))
       else \<bar>rat_of_int (entry_cost p (cached_entry_of rec)) - of_nat (length (cr_body rec)) / sp_perTenantSizeFraction p\<bar> \<le> of_nat (length (cr_body rec)))"
proof -
  let ?n = "length (cr_body rec)" and ?x = "sp_perTenantSizeFraction p"
  define k where "k = ext_cost_multiplier (Some p)"
  have n: "0 < ?n" "int ?n \<le> 5242880" using cacheable_responseD(3)[OF assms(3)] by (simp_all add: maxCacheBodySize_def)
  have cost: "entry_cost p (cached_entry_of rec) = int ?n * k" if "1 \<le> k" "k \<le> 2 ^ 31"
  proof -
    have "int ?n * k \<le> 5242880 * 2 ^ 31" using n that by (intro mult_mono) auto
    then have "wrap64 (int ?n * k) = int ?n * k" using n that by (intro wrap64_id) (auto simp: min_int64_def max_int64_def intro: order_trans[of _ 0])
    then show ?thesis using n by (simp add: entry_cost_def cached_entry_of_def k_def)
  qed
  show ?thesis
  proof (cases "?x = 0")
    case True
    then have "k = 1" by (simp add: k_def ext_cost_multiplier_def)
    then show ?thesis using cost True by simp
  next
    case False
    have x: "1 / 2 ^ 30 \<le> ?x" "?x \<le> 1" using False assms(1,2) parsed_fraction by auto
    note close = cost_multiplier_close[OF x refl, folded k_def]
    have "0 < ?x" using x(1) by (rule less_le_trans[rotated]) simp
    then have "1 / ?x \<le> 2 ^ 30" using x(1) by (simp add: field_simps)
    moreover have "rat_of_int k - 1 / ?x \<le> 1" using close(2) by linarith
    ultimately have "rat_of_int k \<le> of_int (2 ^ 30 + 1)" by simp
    then have "k \<le> 2 ^ 30 + 1" by (simp only: of_int_le_iff)
    then have c: "entry_cost p (cached_entry_of rec) = int ?n * k" using cost close(1) by simp
    have "\<bar>of_nat ?n * (of_int k - 1 / ?x)\<bar> \<le> of_nat ?n * (1 :: rat)" using close(2) by (simp only: abs_mult) (intro mult_mono; simp)
    then have "\<bar>rat_of_int (int ?n * k) - of_nat ?n / ?x\<bar> \<le> of_nat ?n" by (simp add: right_diff_distrib)
    moreover have "int ?n \<le> int ?n * k" using close(1) n by (simp add: mult_le_cancel_left1)
    ultimately show ?thesis using c False by simp
  qed
qed

theorem entry_cost_bounds_witness:
  "int (length (cr_body (capture (asset_request []) (asset_calls 200)))) \<le> entry_cost demo_params (cached_entry_of (capture (asset_request []) (asset_calls 200)))"
proof -
  have "sp_perTenantSizeFraction demo_params = 0" by (simp add: demo_params_def)
  then show ?thesis using entry_cost_bounds[OF demo_parse _ demo_200] by simp
qed

interpretation sc_contract: validated_feature "sc_validate P" for P
  by unfold_locales (simp add: sc_validate_def zero_snapshot_def)

end
