(* ===== verification/Blocklist.thy ===== *)
theory Blocklist
  imports Tenantrules
begin

text \<open>
  The \<^verbatim>\<open>blocklist_regex\<close> feature, \<^verbatim>\<open>internal/feature/blocklist/blocklist.go\<close>, over the scheme of theory \<open>Tenantrules\<close>. Package \<^verbatim>\<open>regexp\<close> is the parameter \<open>regex_lib\<close>, and so is the text
  of a value that is a \<^verbatim>\<open>fmt.Stringer\<close>. A list of maps is a \<open>VList\<close> of \<open>VMap\<close>s in both of its Go forms. The error of a parser is the name of the parameter it complains about.
\<close>

subsection \<open>Model\<close>

definition bl_FeatureName :: string where "bl_FeatureName = ''blocklist_regex''"
definition bl_defaultTimeout :: duration where "bl_defaultTimeout = 30 * second"

record 're regex_lib =
  rx_Compile :: "string \<Rightarrow> 're option"
  rx_MatchString :: "'re \<Rightarrow> string \<Rightarrow> bool"
  rx_stringer :: "any_val \<Rightarrow> string option"

record 're compiled_pattern =
  cp_re :: 're
  cp_action :: string
  cp_target :: string
  cp_header :: string

record 're bl_rules =
  br_patterns :: "'re compiled_pattern list"
  br_defaultAction :: string
  br_timeout :: duration

record parsed_rule =
  pr_pattern :: string
  pr_action :: string
  pr_target :: string
  pr_header :: string

definition as_string :: "(any_val \<Rightarrow> string option) \<Rightarrow> any_val \<Rightarrow> string option" where
  "as_string stringer v =
     (case v of VString s \<Rightarrow> Some s | VNil \<Rightarrow> Some [] | _ \<Rightarrow> stringer v)"

fun bl_as_int :: "any_val \<Rightarrow> int option" where
  "bl_as_int (VInt x) = Some x"
| "bl_as_int (VInt32 x) = Some x"
| "bl_as_int (VInt64 x) = Some x"
| "bl_as_int (VUint w) = Some (sint w)"
| "bl_as_int (VUint32 w) = Some (uint w)"
| "bl_as_int (VUint64 w) = Some (sint w)"
| "bl_as_int (VFloat32 x) = Some (float_to_int x)"
| "bl_as_int (VFloat x) = Some (float_to_int x)"
| "bl_as_int _ = None"

text \<open>A field of an entry: absent, not a string, or a string.\<close>

definition entry_field :: "(any_val \<Rightarrow> string option) \<Rightarrow> (string \<times> any_val) list \<Rightarrow> string \<Rightarrow> string + string option" where
  "entry_field stringer m key =
     (case map_of m key of
        None \<Rightarrow> Inr None
      | Some raw \<Rightarrow> (case as_string stringer raw of None \<Rightarrow> Inl key | Some s \<Rightarrow> Inr (Some s)))"

definition parse_action :: "string \<Rightarrow> string option \<Rightarrow> string + string" where
  "parse_action def field =
     (case field of
        Some s \<Rightarrow> if block_action_is_valid s then Inr s else Inl ''action''
      | None \<Rightarrow> if def = [] then Inl ''action'' else Inr [])"

definition parse_target :: "string option \<Rightarrow> string + string" where
  "parse_target field =
     (case field of
        None \<Rightarrow> Inr ''path''
      | Some s \<Rightarrow> if s = ''path'' \<or> s = ''header'' then Inr s else if s = [] then Inr ''path'' else Inl ''target'')"

definition required_field :: "string \<Rightarrow> string option \<Rightarrow> string + string" where
  "required_field key field = (case field of None \<Rightarrow> Inl key | Some s \<Rightarrow> if s = [] then Inl key else Inr s)"

definition parse_one :: "(any_val \<Rightarrow> string option) \<Rightarrow> string \<Rightarrow> (string \<times> any_val) list \<Rightarrow> string + parsed_rule" where
  "parse_one stringer def m =
     or_error (entry_field stringer m ''pattern'') (\<lambda>p.
     or_error (required_field ''pattern'' p) (\<lambda>pattern.
     or_error (entry_field stringer m ''action'') (\<lambda>a.
     or_error (parse_action def a) (\<lambda>action.
     or_error (entry_field stringer m ''target'') (\<lambda>t.
     or_error (parse_target t) (\<lambda>target.
     or_error (entry_field stringer m ''header'') (\<lambda>h.
       let header = (case h of None \<Rightarrow> [] | Some s \<Rightarrow> s)
       in if target = ''header'' \<and> header = [] then Inl ''header''
          else Inr \<lparr>pr_pattern = pattern, pr_action = action, pr_target = target, pr_header = header\<rparr>)))))))"

fun parse_entries :: "(any_val \<Rightarrow> string option) \<Rightarrow> string \<Rightarrow> any_val list \<Rightarrow> string + parsed_rule list" where
  "parse_entries stringer def [] = Inr []"
| "parse_entries stringer def (VMap m # es) =
     or_error (parse_one stringer def m) (\<lambda>pr. or_error (parse_entries stringer def es) (\<lambda>prs. Inr (pr # prs)))"
| "parse_entries stringer def _ = Inl ''patterns''"

definition parse_default_action :: "(any_val \<Rightarrow> string option) \<Rightarrow> (string \<rightharpoonup> any_val) \<Rightarrow> string + string" where
  "parse_default_action stringer ps =
     (case ps ''default_action'' of
        None \<Rightarrow> Inr []
      | Some raw \<Rightarrow> (case as_string stringer raw of None \<Rightarrow> Inl ''default_action'' | Some s \<Rightarrow> if block_action_is_valid s then Inr s else Inl ''default_action''))"

definition parse_timeout :: "(string \<rightharpoonup> any_val) \<Rightarrow> string + duration" where
  "parse_timeout ps =
     (case ps ''timeout_seconds'' of
        None \<Rightarrow> Inr 0
      | Some raw \<Rightarrow>
          (case bl_as_int raw of
             None \<Rightarrow> Inl ''timeout_seconds''
           | Some n \<Rightarrow> if n < 0 then Inl ''timeout_seconds'' else Inr (wrap64 (n * second))))"

definition parse_rules :: "(any_val \<Rightarrow> string option) \<Rightarrow> feature_snapshot \<Rightarrow> string + parsed_rule list \<times> string \<times> duration" where
  "parse_rules stringer cfg =
     (let ps = fs_Params cfg in
      or_error (parse_default_action stringer ps) (\<lambda>defAction.
      or_error (parse_timeout ps) (\<lambda>timeout.
        case ps ''patterns'' of
          None \<Rightarrow> Inr ([], defAction, timeout)
        | Some (VList es) \<Rightarrow> or_error (parse_entries stringer defAction es) (\<lambda>rules. Inr (rules, defAction, timeout))
        | Some _ \<Rightarrow> Inl ''patterns'')))"

fun compile_patterns :: "'re regex_lib \<Rightarrow> parsed_rule list \<Rightarrow> string + 're compiled_pattern list" where
  "compile_patterns X [] = Inr []"
| "compile_patterns X (pr # prs) =
     (case rx_Compile X (pr_pattern pr) of
        None \<Rightarrow> Inl ''patterns''
      | Some re \<Rightarrow>
          or_error (compile_patterns X prs) (\<lambda>cps.
            Inr (\<lparr>cp_re = re, cp_action = pr_action pr, cp_target = pr_target pr, cp_header = pr_header pr\<rparr> # cps)))"

definition bl_compile_cfg :: "'re regex_lib \<Rightarrow> feature_snapshot \<Rightarrow> string + 're bl_rules option" where
  "bl_compile_cfg X cfg =
     or_error (parse_rules (rx_stringer X) cfg) (\<lambda>(parsed, defAction, timeout).
       if \<not> fs_Enabled cfg \<and> parsed = [] then Inr None
       else or_error (compile_patterns X parsed) (\<lambda>patterns.
         Inr (Some \<lparr>br_patterns = patterns, br_defaultAction = defAction, br_timeout = timeout\<rparr>)))"

definition bl_validate :: "'re regex_lib \<Rightarrow> feature_snapshot \<Rightarrow> string option" where
  "bl_validate X cfg =
     (if \<not> fs_Enabled cfg \<and> fs_Params cfg = Map.empty then None
      else (case bl_compile_cfg X cfg of Inl e \<Rightarrow> Some e | Inr _ \<Rightarrow> None))"

text \<open>One pattern against a request; a header pattern without a header to look at never matches.\<close>

definition pattern_matches :: "'re regex_lib \<Rightarrow> http_request \<Rightarrow> 're compiled_pattern \<Rightarrow> bool" where
  "pattern_matches X r p =
     (if cp_target p = ''header'' then
        (if cp_header p = [] then False
         else (let subject = hdr_get (hq_Header r) (cp_header p) in if subject = [] then False else rx_MatchString X (cp_re p) subject))
      else rx_MatchString X (cp_re p) (hq_Path r))"

definition bl_match :: "'re regex_lib \<Rightarrow> 're bl_rules \<Rightarrow> http_request \<Rightarrow> 're compiled_pattern option" where
  "bl_match X rules r = find (pattern_matches X r) (br_patterns rules)"

definition bl_respond :: "bool \<Rightarrow> duration option \<Rightarrow> string \<Rightarrow> duration \<Rightarrow> block_reply" where
  "bl_respond hijacked cancelled action timeout =
     (if action = BlockActionNotFound then BStatus 0 404
      else if action = BlockActionTooMany then BStatus 0 429
      else if action = BlockActionTimeout then
        (let sleep = (if timeout \<le> 0 then bl_defaultTimeout else timeout)
         in hijack_and_close hijacked (case cancelled of None \<Rightarrow> sleep | Some c \<Rightarrow> min c sleep))
      else hijack_and_close hijacked 0)"

definition bl_observe :: "(string \<Rightarrow> string) \<Rightarrow> 're regex_lib \<Rightarrow> globals_snapshot \<Rightarrow> (string \<times> tenant_snapshot) list \<Rightarrow> 're bl_rules rule_feature" where
  "bl_observe uni X globals tenants = rules_observe uni (bl_compile_cfg X) bl_FeatureName globals tenants"

text \<open>The middleware: \<open>None\<close> when the request is passed on.\<close>

definition bl_serve ::
  "(string \<Rightarrow> string) \<Rightarrow> 're regex_lib \<Rightarrow> bool \<Rightarrow> duration option \<Rightarrow> 're bl_rules rule_feature \<Rightarrow> feature_snapshot \<Rightarrow> http_request \<Rightarrow> block_reply option" where
  "bl_serve uni X hijacked cancelled f snap r =
     (case active_rules uni f snap r of
        None \<Rightarrow> None
      | Some rules \<Rightarrow>
          (case bl_match X rules r of
             None \<Rightarrow> None
           | Some m \<Rightarrow>
               (let a1 = (if cp_action m = [] then br_defaultAction rules else cp_action m);
                    action = (if a1 = [] then BlockActionDrop else a1)
                in Some (bl_respond hijacked cancelled action (br_timeout rules)))))"


subsection \<open>Requests are judged by the patterns of their tenant\<close>

lemma as_string_simps [simp]: "as_string st (VString s) = Some s" "as_string st VNil = Some []"
  by (simp_all add: as_string_def)

lemma bl_compile_Inr:
  "bl_compile_cfg X cfg = Inr o' \<longleftrightarrow>
     (\<exists>parsed da t. parse_rules (rx_stringer X) cfg = Inr (parsed, da, t)
        \<and> (if \<not> fs_Enabled cfg \<and> parsed = [] then o' = None
           else \<exists>cps. compile_patterns X parsed = Inr cps \<and> o' = Some \<lparr>br_patterns = cps, br_defaultAction = da, br_timeout = t\<rparr>))"
  by (auto simp: bl_compile_cfg_def or_error_Inr split: if_splits)

interpretation blocklist_rules: compiled_feature "bl_compile_cfg X" "bl_validate X" for X
proof
  fix cfg assume v: "bl_validate X cfg = None"
  show "\<exists>r. bl_compile_cfg X cfg = Inr r"
  proof (cases "\<not> fs_Enabled cfg \<and> fs_Params cfg = Map.empty")
    case True
    then show ?thesis by (simp add: bl_compile_cfg_def parse_rules_def parse_default_action_def parse_timeout_def)
  next
    case False
    then show ?thesis using v by (auto simp: bl_validate_def split: sum.splits if_splits)
  qed
next
  fix cfg assume "bl_compile_cfg X cfg = Inr None"
  then show "\<not> fs_Enabled cfg" by (auto simp: bl_compile_Inr split: if_splits)
qed

interpretation blocklist_contract: validated_feature "bl_validate X" for X
  by unfold_locales (simp add: bl_validate_def zero_snapshot_def)

text \<open>The action of every compiled pattern, its own or the default, is a valid one, so the fallback of the middleware is dead code.\<close>

lemma parse_one_action:
  assumes "parse_one st da m = Inr pr"
  shows "block_action_is_valid (pr_action pr) \<or> pr_action pr = [] \<and> da \<noteq> []"
proof -
  obtain a action where "parse_action da a = Inr action" "pr_action pr = action"
    using assms unfolding parse_one_def or_error_Inr by (elim exE conjE) (auto simp: Let_def split: if_splits)
  then show ?thesis by (auto simp: parse_action_def split: option.splits if_splits)
qed

lemma parse_entries_actions:
  "parse_entries st da es = Inr prs \<Longrightarrow> list_all (\<lambda>pr. block_action_is_valid (pr_action pr) \<or> pr_action pr = [] \<and> da \<noteq> []) prs"
  by (induction st da es arbitrary: prs rule: parse_entries.induct) (auto simp: or_error_Inr dest: parse_one_action)

lemma parse_rules_actions:
  assumes "parse_rules st cfg = Inr (prs, da, t)"
  shows "(da = [] \<or> block_action_is_valid da) \<and> list_all (\<lambda>pr. block_action_is_valid (pr_action pr) \<or> pr_action pr = [] \<and> da \<noteq> []) prs"
proof -
  obtain x y where d: "parse_default_action st (fs_Params cfg) = Inr x" and rest: "(case fs_Params cfg ''patterns'' of
          None \<Rightarrow> Inr ([], x, y)
        | Some (VList es) \<Rightarrow> or_error (parse_entries st x es) (\<lambda>rules. Inr (rules, x, y))
        | Some _ \<Rightarrow> Inl ''patterns'') = Inr (prs, da, t)"
    using assms unfolding parse_rules_def Let_def or_error_Inr by (elim exE conjE) (rule that)
  have "x = da \<and> (prs = [] \<or> (\<exists>es. parse_entries st da es = Inr prs))"
    using rest by (cases "fs_Params cfg ''patterns''") (auto simp: or_error_Inr split: any_val.split_asm)
  moreover have "x = [] \<or> block_action_is_valid x"
    using d by (auto simp: parse_default_action_def split: option.splits if_splits)
  ultimately show ?thesis using parse_entries_actions by fastforce
qed

lemma compile_patterns_fields:
  "compile_patterns X prs = Inr cps \<Longrightarrow>
     map (\<lambda>p. (cp_action p, cp_target p, cp_header p)) cps = map (\<lambda>pr. (pr_action pr, pr_target pr, pr_header pr)) prs
     \<and> map (\<lambda>p. Some (cp_re p)) cps = map (\<lambda>pr. rx_Compile X (pr_pattern pr)) prs"
  by (induction X prs arbitrary: cps rule: compile_patterns.induct) (auto simp: or_error_Inr split: option.splits)

definition chosen_action :: "'re bl_rules \<Rightarrow> 're compiled_pattern \<Rightarrow> string" where
  "chosen_action rules p = (if cp_action p = [] then br_defaultAction rules else cp_action p)"

lemma chosen_action_valid:
  assumes "bl_compile_cfg X cfg = Inr (Some rules)" and "p \<in> set (br_patterns rules)"
  shows "block_action_is_valid (chosen_action rules p)"
proof -
  obtain prs da t cps where c: "parse_rules (rx_stringer X) cfg = Inr (prs, da, t)" "compile_patterns X prs = Inr cps"
    "rules = \<lparr>br_patterns = cps, br_defaultAction = da, br_timeout = t\<rparr>"
    using assms(1) by (auto simp: bl_compile_Inr split: if_splits)
  have "cp_action p \<in> set (map cp_action cps)" using assms(2) c(3) by simp
  also have "map cp_action cps = map pr_action prs"
    using arg_cong[OF conjunct1[OF compile_patterns_fields[OF c(2)]], of "map fst"] by (simp add: comp_def)
  finally obtain pr where "pr \<in> set prs" "pr_action pr = cp_action p" by auto
  then have "block_action_is_valid (cp_action p) \<or> cp_action p = [] \<and> da \<noteq> []" "da = [] \<or> block_action_is_valid da"
    using parse_rules_actions[OF c(1)] by (auto simp: list_all_iff)
  moreover have "\<not> block_action_is_valid []" by (simp add: block_action_is_valid_def BlockActionDrop_def BlockActionTimeout_def BlockActionNotFound_def BlockActionTooMany_def)
  ultimately show ?thesis using c(3) by (auto simp: chosen_action_def)
qed

text \<open>
  C26 (functional). Which requests the block list answers. After a reload that was validated, a request of a tenant of the map, or one without tenant, is answered exactly when the snapshot that the resolver gives it is
  enabled and one of that snapshot's patterns matches; the first pattern that matches decides, with its own action or the default of its own rule set, which is a valid action. Every other request is passed on.
  A snapshot of the tenant's own replaces the one of the globals as a whole: for a tenant with \<^verbatim>\<open>enabled: true\<close> and no parameters the pattern list is empty and every request is passed on, although
  the documentation says that the global parameters then apply.
\<close>

theorem blocklist_first_match:
  assumes "tenant_keys_ok uni tenants" and "bl_validate X (lookup_snapshot globals bl_FeatureName) = None"
    and "list_all (\<lambda>(h, t). \<forall>s. ts_Features t bl_FeatureName = Some s \<longrightarrow> bl_validate X s = None) tenants"
    and "case hq_Tenant r of None \<Rightarrow> True | Some t \<Rightarrow> (ts_Host t, t) \<in> set tenants"
    and "snap = resolved globals bl_FeatureName (hq_Tenant r)"
  shows "case bl_serve uni X hijacked cancelled (bl_observe uni X globals tenants) snap r of
      None \<Rightarrow> \<not> fs_Enabled snap \<or> (\<exists>rules. bl_compile_cfg X snap = Inr (Some rules) \<and> list_all (\<lambda>p. \<not> pattern_matches X r p) (br_patterns rules))
    | Some reply \<Rightarrow> fs_Enabled snap \<and> (\<exists>rules ps p qs. bl_compile_cfg X snap = Inr (Some rules) \<and> br_patterns rules = ps @ p # qs
        \<and> list_all (\<lambda>q. \<not> pattern_matches X r q) ps \<and> pattern_matches X r p
        \<and> block_action_is_valid (chosen_action rules p) \<and> reply = bl_respond hijacked cancelled (chosen_action rules p) (br_timeout rules))"
proof (cases "fs_Enabled snap")
  case False
  then show ?thesis by (simp add: bl_serve_def active_rules_def)
next
  case True
  have v: "bl_validate X snap = None"
    using assms(2-5) by (auto simp: resolved_def list_all_iff split: option.splits)
  obtain rules where c: "bl_compile_cfg X snap = Inr (Some rules)"
    by (rule blocklist_rules.compile_enabled[OF v True])
  have act: "active_rules uni (bl_observe uni X globals tenants) snap r = Some rules"
    using blocklist_rules.active_rules_resolved[OF assms(1-4)] True c by (simp add: bl_observe_def assms(5))
  show ?thesis
  proof (cases "bl_match X rules r")
    case None
    then have "list_all (\<lambda>p. \<not> pattern_matches X r p) (br_patterns rules)" by (auto simp: bl_match_def find_None_iff list_all_iff)
    moreover have "bl_serve uni X hijacked cancelled (bl_observe uni X globals tenants) snap r = None" using act None by (simp add: bl_serve_def)
    ultimately show ?thesis using c by simp
  next
    case (Some p)
    then obtain i where i: "i < length (br_patterns rules)" "pattern_matches X r (br_patterns rules ! i)" "p = br_patterns rules ! i"
      "\<forall>j<i. \<not> pattern_matches X r (br_patterns rules ! j)"
      by (auto simp: bl_match_def find_Some_iff)
    then have split: "br_patterns rules = take i (br_patterns rules) @ p # drop (Suc i) (br_patterns rules)"
      by (simp add: id_take_nth_drop)
    have pre: "list_all (\<lambda>q. \<not> pattern_matches X r q) (take i (br_patterns rules))" using i by (auto simp: list_all_iff in_set_conv_nth)
    have valid: "block_action_is_valid (chosen_action rules p)" using chosen_action_valid[OF c] i by simp
    then have "chosen_action rules p \<noteq> []"
      by (auto simp: block_action_is_valid_def BlockActionDrop_def BlockActionTimeout_def BlockActionNotFound_def BlockActionTooMany_def)
    then have "bl_serve uni X hijacked cancelled (bl_observe uni X globals tenants) snap r = Some (bl_respond hijacked cancelled (chosen_action rules p) (br_timeout rules))"
      using act Some by (simp add: bl_serve_def chosen_action_def[symmetric])
    then show ?thesis using True c split pre i(2,3) valid by auto
  qed
qed

text \<open>A regular expression library for the example: a pattern matches the subjects it is a substring of.\<close>

definition demo_regex :: "string regex_lib" where
  "demo_regex = \<lparr>rx_Compile = Some, rx_MatchString = (\<lambda>re s. contains_str s re), rx_stringer = (\<lambda>_. None)\<rparr>"

definition demo_bl_snap :: feature_snapshot where
  "demo_bl_snap = \<lparr>fs_Enabled = True, fs_Params = [''default_action'' \<mapsto> VString ''404'', ''patterns'' \<mapsto> VList [VMap [(''pattern'', VString ''env'')]]], fs_Version = 0\<rparr>"

definition plain_request :: "string \<Rightarrow> http_request" where
  "plain_request p = \<lparr>hq_Method = ''GET'', hq_Host = ''a'', hq_Path = p, hq_RawQuery = [], hq_Header = [], hq_RemoteAddr = ''1.2.3.4:5'', hq_Tenant = None\<rparr>"

theorem blocklist_first_match_witness:
  "\<exists>rules ps p qs. bl_compile_cfg demo_regex demo_bl_snap = Inr (Some rules) \<and> br_patterns rules = ps @ p # qs \<and> pattern_matches demo_regex (plain_request ''/.env'') p"
proof -
  have valid: "block_action_is_valid ''404''" by (simp add: block_action_is_valid_def BlockActionNotFound_def)
  have c: "bl_compile_cfg demo_regex demo_bl_snap = Inr (Some \<lparr>br_patterns = [\<lparr>cp_re = ''env'', cp_action = [], cp_target = ''path'', cp_header = []\<rparr>],
      br_defaultAction = ''404'', br_timeout = 0\<rparr>)"
    using valid by (simp add: bl_compile_cfg_def parse_rules_def demo_bl_snap_def demo_regex_def parse_default_action_def parse_timeout_def parse_one_def required_field_def entry_field_def
        parse_action_def parse_target_def)
  have "bl_validate demo_regex (lookup_snapshot [bl_FeatureName \<mapsto> demo_bl_snap] bl_FeatureName) = None"
    using c by (simp add: lookup_snapshot_def bl_validate_def)
  moreover have "tenant_keys_ok id []" by (simp add: tenant_keys_ok_def)
  moreover have no_tenant: "hq_Tenant (plain_request ''/.env'') = None" by (simp add: plain_request_def)
  moreover have "demo_bl_snap = resolved [bl_FeatureName \<mapsto> demo_bl_snap] bl_FeatureName (hq_Tenant (plain_request ''/.env''))"
    by (simp add: no_tenant resolved_def lookup_snapshot_def)
  ultimately
  have *: "case bl_serve id demo_regex True None (bl_observe id demo_regex [bl_FeatureName \<mapsto> demo_bl_snap] []) demo_bl_snap (plain_request ''/.env'') of
      None \<Rightarrow> \<not> fs_Enabled demo_bl_snap \<or> (\<exists>rules. bl_compile_cfg demo_regex demo_bl_snap = Inr (Some rules) \<and> list_all (\<lambda>p. \<not> pattern_matches demo_regex (plain_request ''/.env'') p) (br_patterns rules))
    | Some reply \<Rightarrow> fs_Enabled demo_bl_snap \<and> (\<exists>rules ps p qs. bl_compile_cfg demo_regex demo_bl_snap = Inr (Some rules) \<and> br_patterns rules = ps @ p # qs
        \<and> list_all (\<lambda>q. \<not> pattern_matches demo_regex (plain_request ''/.env'') q) ps \<and> pattern_matches demo_regex (plain_request ''/.env'') p
        \<and> block_action_is_valid (chosen_action rules p) \<and> reply = bl_respond True None (chosen_action rules p) (br_timeout rules))"
    by (intro blocklist_first_match) simp_all
  have m: "pattern_matches demo_regex (plain_request ''/.env'') \<lparr>cp_re = ''env'', cp_action = [], cp_target = ''path'', cp_header = []\<rparr>"
    by (simp add: pattern_matches_def demo_regex_def plain_request_def contains_str_def sublist_def) (metis append.left_neutral append_Cons append_Nil2)
  have on: "fs_Enabled demo_bl_snap" by (simp add: demo_bl_snap_def)
  show ?thesis
  proof (cases "bl_serve id demo_regex True None (bl_observe id demo_regex [bl_FeatureName \<mapsto> demo_bl_snap] []) demo_bl_snap (plain_request ''/.env'')")
    case None
    then have "\<exists>rules. bl_compile_cfg demo_regex demo_bl_snap = Inr (Some rules) \<and> list_all (\<lambda>p. \<not> pattern_matches demo_regex (plain_request ''/.env'') p) (br_patterns rules)"
      using * on by (simp only: option.case) blast
    then show ?thesis using c m by simp
  next
    case (Some reply)
    then show ?thesis using * by (simp only: option.case) blast
  qed
qed

end
