(* ===== verification/Headers.thy ===== *)
theory Headers
  imports Tenantrules Blocklist
begin

text \<open>
  The \<^verbatim>\<open>proxy_headers\<close> feature, \<^verbatim>\<open>internal/feature/headers/headers.go\<close>, and its value templates, \<^verbatim>\<open>template.go\<close>, over the scheme of theory \<open>Tenantrules\<close>. Random request ids, the clock and the
  formatting of times are the argument \<open>render_env\<close>. The response writer below the feature is net/http's: a final status freezes the headers, an informational one sends a copy of them, a handler
  that writes nothing ends with an implicit 200. A set of names that is only iterated over to delete them is a list.
\<close>

subsection \<open>Templates\<close>

definition varClientIP :: string where "varClientIP = ''client_ip''"
definition varTenantHost :: string where "varTenantHost = ''tenant_host''"
definition varRequestID :: string where "varRequestID = ''request_id''"
definition varNowRFC3339 :: string where "varNowRFC3339 = ''now_rfc3339''"
definition varHeaderPrefix :: string where "varHeaderPrefix = ''header:''"

lemmas var_defs = varClientIP_def varTenantHost_def varRequestID_def varNowRFC3339_def varHeaderPrefix_def

text \<open>A part is a literal, or a variable with the header name of \<^verbatim>\<open>{{header:X}}\<close>.\<close>

datatype template_part = TLit string | TVar string string

record template =
  tm_fastPath :: string
  tm_parts :: "template_part list"

datatype template_error = Unterminated | EmptyVariable | EmptyHeaderName | UnknownVariable string

definition parse_var :: "string \<Rightarrow> template_error + template_part" where
  "parse_var name =
     (if name \<in> {varClientIP, varTenantHost, varRequestID, varNowRFC3339} then Inr (TVar name [])
      else if has_prefix name varHeaderPrefix then
        (let h = trim_space (trim_prefix name varHeaderPrefix) in if h = [] then Inl EmptyHeaderName else Inr (TVar varHeaderPrefix h))
      else Inl (UnknownVariable name))"

function parse_parts :: "string \<Rightarrow> template_error + template_part list" where
  "parse_parts s =
     (if s = [] then Inr []
      else
        (case index_str s ''{{'' of
           None \<Rightarrow> Inr [TLit s]
         | Some i \<Rightarrow>
             (let pre = (if i > 0 then [TLit (take i s)] else []) in
              case index_str (drop i s) ''}}'' of
                None \<Rightarrow> Inl Unterminated
              | Some j \<Rightarrow>
                  (let varName = trim_space (take (j - 2) (drop (i + 2) s)) in
                   if varName = [] then Inl EmptyVariable
                   else
                     (case parse_var varName of
                        Inl e \<Rightarrow> Inl e
                      | Inr part \<Rightarrow>
                          (case parse_parts (drop (i + j + 2) s) of
                             Inl e \<Rightarrow> Inl e
                           | Inr rest \<Rightarrow> Inr (pre @ part # rest)))))))"
  by pat_completeness auto
termination
  by (relation "measure length") (auto dest!: index_str_Some)

declare parse_parts.simps [simp del]

definition parse_template :: "string \<Rightarrow> template_error + template" where
  "parse_template s =
     (if s = [] then Inr \<lparr>tm_fastPath = [], tm_parts = []\<rparr>
      else
        (case parse_parts s of
           Inl e \<Rightarrow> Inl e
         | Inr [TLit l] \<Rightarrow> Inr \<lparr>tm_fastPath = l, tm_parts = []\<rparr>
         | Inr [] \<Rightarrow> Inr \<lparr>tm_fastPath = [], tm_parts = []\<rparr>
         | Inr parts \<Rightarrow> Inr \<lparr>tm_fastPath = [], tm_parts = parts\<rparr>))"

record render_ctx =
  cx_ClientIP :: string
  cx_TenantHost :: string
  cx_RequestID :: string
  cx_Req :: "header option"
  cx_Now :: time

text \<open>The outside of one rendering: a fresh request id and a clock reading for each part that asks for one.\<close>

record render_env =
  re_fresh :: "nat \<Rightarrow> string"
  re_clock :: "nat \<Rightarrow> time"
  re_format :: "time \<Rightarrow> string"

definition new_request_id :: "string option \<Rightarrow> int \<Rightarrow> string" where
  "new_request_id random ns =
     hex_encode (case random of Some b \<Rightarrow> b | None \<Rightarrow> map (\<lambda>i. char_of (nat ((ns div 2 ^ (i * 8)) mod 256))) [0..<8])"

definition render_part :: "render_env \<Rightarrow> render_ctx \<Rightarrow> nat \<Rightarrow> template_part \<Rightarrow> string" where
  "render_part R ctx i p =
     (case p of
        TLit l \<Rightarrow> l
      | TVar name hdr \<Rightarrow>
          if name = varClientIP then cx_ClientIP ctx
          else if name = varTenantHost then cx_TenantHost ctx
          else if name = varRequestID then (if cx_RequestID ctx \<noteq> [] then cx_RequestID ctx else re_fresh R i)
          else if name = varNowRFC3339 then re_format R (if cx_Now ctx = zero_time then re_clock R i else cx_Now ctx)
          else if name = varHeaderPrefix then
            (case cx_Req ctx of None \<Rightarrow> [] | Some h \<Rightarrow> if hdr \<noteq> [] then hdr_get h hdr else [])
          else [])"

fun render_parts :: "render_env \<Rightarrow> render_ctx \<Rightarrow> nat \<Rightarrow> template_part list \<Rightarrow> string" where
  "render_parts R ctx i [] = []"
| "render_parts R ctx i (p # ps) = render_part R ctx i p @ render_parts R ctx (Suc i) ps"

definition render :: "render_env \<Rightarrow> render_ctx \<Rightarrow> template \<Rightarrow> string" where
  "render R ctx t = (if tm_parts t = [] then tm_fastPath t else render_parts R ctx 0 (tm_parts t))"

definition has_variables :: "template \<Rightarrow> bool" where
  "has_variables t \<longleftrightarrow> tm_parts t \<noteq> []"

subsection \<open>Rules\<close>


record add_entry =
  ae_name :: string
  ae_value :: template

record hd_rules =
  hr_stripUpstream :: "string list"
  hr_addUpstream :: "add_entry list"
  hr_stripDownstream :: "string list"
  hr_addDownstream :: "add_entry list"

definition hd_empty :: "hd_rules option \<Rightarrow> bool" where
  "hd_empty tr =
     (case tr of
        None \<Rightarrow> True
      | Some r \<Rightarrow> hr_stripUpstream r = [] \<and> hr_addUpstream r = [] \<and> hr_stripDownstream r = [] \<and> hr_addDownstream r = [])"

fun hd_strings :: "(any_val \<Rightarrow> string option) \<Rightarrow> any_val list \<Rightarrow> string list option" where
  "hd_strings stringer [] = Some []"
| "hd_strings stringer (v # vs) =
     (case as_string stringer v of None \<Rightarrow> None | Some s \<Rightarrow> map_option (Cons s) (hd_strings stringer vs))"

definition hd_as_string_slice :: "(any_val \<Rightarrow> string option) \<Rightarrow> any_val \<Rightarrow> string list option" where
  "hd_as_string_slice stringer v =
     (case v of VStrings ss \<Rightarrow> Some ss | VList vs \<Rightarrow> hd_strings stringer vs | VNil \<Rightarrow> Some [] | _ \<Rightarrow> None)"

definition parse_strip_list :: "(any_val \<Rightarrow> string option) \<Rightarrow> (string \<rightharpoonup> any_val) \<Rightarrow> string \<Rightarrow> string + string list" where
  "parse_strip_list stringer ps key =
     (case ps key of
        None \<Rightarrow> Inr []
      | Some raw \<Rightarrow>
          (case hd_as_string_slice stringer raw of
             None \<Rightarrow> Inl key
           | Some items \<Rightarrow>
               (let names = map trim_space items
                in if list_ex (\<lambda>n. n = []) names then Inl key else Inr (remdups (map canonical_key names)))))"

definition parse_add_entry :: "(any_val \<Rightarrow> string option) \<Rightarrow> string \<Rightarrow> any_val \<Rightarrow> string + add_entry" where
  "parse_add_entry stringer key e =
     (case e of
        VMap m \<Rightarrow>
          (case as_string stringer (case map_of m ''name'' of None \<Rightarrow> VNil | Some v \<Rightarrow> v) of
             None \<Rightarrow> Inl key
           | Some name0 \<Rightarrow>
               (let name = trim_space name0 in
                if name = [] then Inl key
                else
                  (case map_of m ''value'' of
                     None \<Rightarrow> Inl key
                   | Some raw \<Rightarrow>
                       (case as_string stringer raw of
                          None \<Rightarrow> Inl key
                        | Some val \<Rightarrow>
                            (case parse_template val of
                               Inl err \<Rightarrow> Inl key
                             | Inr tpl \<Rightarrow> Inr \<lparr>ae_name = canonical_key name, ae_value = tpl\<rparr>)))))
      | _ \<Rightarrow> Inl key)"

fun parse_add_entries :: "(any_val \<Rightarrow> string option) \<Rightarrow> string \<Rightarrow> any_val list \<Rightarrow> string + add_entry list" where
  "parse_add_entries stringer key [] = Inr []"
| "parse_add_entries stringer key (e # es) =
     or_error (parse_add_entry stringer key e) (\<lambda>a. or_error (parse_add_entries stringer key es) (\<lambda>as. Inr (a # as)))"

text \<open>The two Go types that a list of entries may have, \<^verbatim>\<open>[]any\<close> of maps and \<^verbatim>\<open>[]map[string]any\<close>, are both a \<open>VList\<close> of maps.\<close>

definition parse_add_list :: "(any_val \<Rightarrow> string option) \<Rightarrow> (string \<rightharpoonup> any_val) \<Rightarrow> string \<Rightarrow> string + add_entry list" where
  "parse_add_list stringer ps key =
     (case ps key of None \<Rightarrow> Inr [] | Some (VList es) \<Rightarrow> parse_add_entries stringer key es | Some _ \<Rightarrow> Inl key)"

definition hd_compile_cfg :: "(any_val \<Rightarrow> string option) \<Rightarrow> feature_snapshot \<Rightarrow> string + hd_rules option" where
  "hd_compile_cfg stringer cfg =
     (if \<not> fs_Enabled cfg \<and> fs_Params cfg = Map.empty then Inr None
      else
        (let ps = fs_Params cfg in
         or_error (parse_strip_list stringer ps ''strip_upstream'') (\<lambda>su.
         or_error (parse_strip_list stringer ps ''strip_downstream'') (\<lambda>sd.
         or_error (parse_add_list stringer ps ''add_upstream'') (\<lambda>au.
         or_error (parse_add_list stringer ps ''add_downstream'') (\<lambda>ad.
           Inr (Some \<lparr>hr_stripUpstream = su, hr_addUpstream = au, hr_stripDownstream = sd, hr_addDownstream = ad\<rparr>)))))))"

definition hd_validate :: "(any_val \<Rightarrow> string option) \<Rightarrow> feature_snapshot \<Rightarrow> string option" where
  "hd_validate stringer cfg =
     (if \<not> fs_Enabled cfg \<and> fs_Params cfg = Map.empty then None
      else (case hd_compile_cfg stringer cfg of Inl e \<Rightarrow> Some e | Inr _ \<Rightarrow> None))"


subsection \<open>Requests and responses\<close>

definition hd_client_ip :: "http_request \<Rightarrow> string" where
  "hd_client_ip r =
     (if hq_RemoteAddr r = [] then []
      else
        (case last_index_byte (hq_RemoteAddr r) CHR '':'' of
           None \<Rightarrow> hq_RemoteAddr r
         | Some i \<Rightarrow>
             (let ip = take i (hq_RemoteAddr r)
              in if length ip \<ge> 2 \<and> ip ! 0 = CHR ''['' \<and> ip ! (length ip - 1) = CHR '']'' then take (length ip - 2) (drop 1 ip) else ip)))"

text \<open>
  The add loops. The value of a \<^verbatim>\<open>{{header:X}}\<close> is read from the request at that moment, which the upstream loop is changing.
\<close>

fun add_upstream :: "render_env \<Rightarrow> render_ctx \<Rightarrow> add_entry list \<Rightarrow> header \<Rightarrow> header" where
  "add_upstream R ctx [] h = h"
| "add_upstream R ctx (e # es) h = add_upstream R ctx es (hdr_set (ae_name e) (render R (ctx\<lparr>cx_Req := Some h\<rparr>) (ae_value e)) h)"

fun add_downstream :: "render_env \<Rightarrow> render_ctx \<Rightarrow> add_entry list \<Rightarrow> header \<Rightarrow> header" where
  "add_downstream R ctx [] h = h"
| "add_downstream R ctx (e # es) h = add_downstream R ctx es (hdr_set (ae_name e) (render R ctx (ae_value e)) h)"

definition with_id :: "string \<Rightarrow> render_ctx \<Rightarrow> render_ctx" where
  "with_id new ctx = (if cx_RequestID ctx = [] then ctx\<lparr>cx_RequestID := new\<rparr> else ctx)"

text \<open>\<^verbatim>\<open>applyRequest\<close> gets the context by value; the request id it draws is not seen by the caller.\<close>

definition apply_request :: "render_env \<Rightarrow> string \<Rightarrow> hd_rules \<Rightarrow> render_ctx \<Rightarrow> header \<Rightarrow> header" where
  "apply_request R new rules ctx h = add_upstream R (with_id new ctx) (hr_addUpstream rules) (fold hdr_del (hr_stripUpstream rules) h)"

definition apply_downstream :: "render_env \<Rightarrow> string \<Rightarrow> hd_rules \<Rightarrow> render_ctx \<Rightarrow> header \<Rightarrow> header" where
  "apply_downstream R new rules ctx h = add_downstream R (with_id new ctx) (hr_addDownstream rules) (fold hdr_del (hr_stripDownstream rules) h)"

record http_writer =
  hw_header :: header
  hw_info :: "(int \<times> header) list"
  hw_sent :: "(int \<times> header) option"
  hw_body :: string

definition hw_write_header :: "int \<Rightarrow> http_writer \<Rightarrow> http_writer" where
  "hw_write_header code w =
     (if hw_sent w \<noteq> None then w
      else if 100 \<le> code \<and> code \<le> 199 \<and> code \<noteq> 101 then w\<lparr>hw_info := hw_info w @ [(code, hw_header w)]\<rparr>
      else w\<lparr>hw_sent := Some (code, hw_header w)\<rparr>)"

definition hw_write :: "string \<Rightarrow> http_writer \<Rightarrow> http_writer" where
  "hw_write b w = (let w1 = hw_write_header 200 w in w1\<lparr>hw_body := hw_body w1 @ b\<rparr>)"

fun hw_call :: "writer_call \<Rightarrow> http_writer \<Rightarrow> http_writer" where
  "hw_call (CSet k v) w = w\<lparr>hw_header := hdr_set k v (hw_header w)\<rparr>"
| "hw_call (CAdd k v) w = w\<lparr>hw_header := hdr_add k v (hw_header w)\<rparr>"
| "hw_call (CDel k) w = w\<lparr>hw_header := hdr_del k (hw_header w)\<rparr>"
| "hw_call (CWriteHeader code) w = hw_write_header code w"
| "hw_call (CWrite b) w = hw_write b w"

definition hw_finish :: "http_writer \<Rightarrow> http_writer" where
  "hw_finish w = hw_write_header 200 w"

text \<open>The wrapping \<^verbatim>\<open>responseWriter\<close>: \<open>down\<close> is the application of the downstream rules; the flag is \<^verbatim>\<open>wroteHeader\<close>.\<close>

fun rw_call :: "(header \<Rightarrow> header) \<Rightarrow> writer_call \<Rightarrow> bool \<times> http_writer \<Rightarrow> bool \<times> http_writer" where
  "rw_call down (CWriteHeader code) (wrote, w) =
     (True, hw_write_header code (if wrote then w else w\<lparr>hw_header := down (hw_header w)\<rparr>))"
| "rw_call down (CWrite b) (wrote, w) =
     (True, hw_write b (if wrote then w else w\<lparr>hw_header := down (hw_header w)\<rparr>))"
| "rw_call down c (wrote, w) = (wrote, hw_call c w)"

text \<open>
  The middleware around a handler, which is given the request's headers and answers with calls on the writer: the headers the handler saw and what the server has sent in the end.
\<close>

definition hd_serve ::
  "(string \<Rightarrow> string) \<Rightarrow> render_env \<Rightarrow> string \<Rightarrow> string \<Rightarrow> hd_rules rule_feature \<Rightarrow> feature_snapshot \<Rightarrow> (header \<Rightarrow> writer_call list) \<Rightarrow> http_request \<Rightarrow> http_writer
     \<Rightarrow> header \<times> http_writer" where
  "hd_serve uni R id1 id2 f snap handler r w =
     (case active_rules uni f snap r of
        None \<Rightarrow> (hq_Header r, hw_finish (fold hw_call (handler (hq_Header r)) w))
      | Some rules \<Rightarrow>
          if hd_empty (Some rules) then (hq_Header r, hw_finish (fold hw_call (handler (hq_Header r)) w))
          else
            (let tenantHost = (case hq_Tenant r of None \<Rightarrow> [] | Some t \<Rightarrow> ts_Host t);
                 ctx = \<lparr>cx_ClientIP = hd_client_ip r, cx_TenantHost = tenantHost, cx_RequestID = [], cx_Req = None, cx_Now = zero_time\<rparr>;
                 h = apply_request R id1 rules ctx (hq_Header r)
             in if hr_stripDownstream rules = [] \<and> hr_addDownstream rules = [] then (h, hw_finish (fold hw_call (handler h) w))
                else (h, hw_finish (snd (fold (rw_call (apply_downstream R id2 rules (ctx\<lparr>cx_Req := Some h\<rparr>))) (handler h) (False, w))))))"

subsection \<open>Templates: parsing inverts printing\<close>

fun print_part :: "template_part \<Rightarrow> string" where
  "print_part (TLit l) = l"
| "print_part (TVar name hdr) = ''{{'' @ (name @ hdr) @ ''}}''"

definition print_parts :: "template_part list \<Rightarrow> string" where
  "print_parts ps = concat (map print_part ps)"

text \<open>A literal is not empty and has no opening braces, not even together with the braces of a variable after it; a header name is of visible characters other than a closing brace.\<close>

fun part_ok :: "template_part \<Rightarrow> bool" where
  "part_ok (TLit l) \<longleftrightarrow> l \<noteq> [] \<and> index_str (l @ ''{{'') ''{{'' = Some (length l)"
| "part_ok (TVar name hdr) \<longleftrightarrow>
     name \<in> {varClientIP, varTenantHost, varRequestID, varNowRFC3339} \<and> hdr = []
     \<or> name = varHeaderPrefix \<and> hdr \<noteq> [] \<and> list_all (\<lambda>c. visible c \<and> c \<noteq> CHR ''}'') hdr"

fun parts_ok :: "template_part list \<Rightarrow> bool" where
  "parts_ok [] \<longleftrightarrow> True"
| "parts_ok (TVar name hdr # ps) \<longleftrightarrow> part_ok (TVar name hdr) \<and> parts_ok ps"
| "parts_ok (TLit l # ps) \<longleftrightarrow> part_ok (TLit l) \<and> (case ps of TLit _ # _ \<Rightarrow> False | _ \<Rightarrow> parts_ok ps)"

definition template_parts :: "template \<Rightarrow> template_part list" where
  "template_parts t = (if tm_parts t = [] \<and> tm_fastPath t \<noteq> [] then [TLit (tm_fastPath t)] else tm_parts t)"

lemma index_str_literal:
  "index_str (l @ sub) sub = Some (length l) \<Longrightarrow> index_str (l @ sub @ rest) sub = Some (length l)"
proof (induction l)
  case Nil
  then show ?case by (cases "sub @ rest") (auto, metis prefixI)
next
  case (Cons x l)
  then have no: "\<not> prefix sub (x # l @ sub)" and at: "index_str (l @ sub) sub = Some (length l)" by (auto split: if_splits)
  have "\<not> prefix sub ((x # l @ sub) @ rest)"
  proof
    assume "prefix sub ((x # l @ sub) @ rest)"
    then have "prefix sub (x # l @ sub)" using prefix_length_prefix[of sub "(x # l @ sub) @ rest" "x # l @ sub"] by simp
    then show False using no by simp
  qed
  then show ?case using Cons.IH[OF at] by simp
qed

lemma index_str_last_literal: "index_str (l @ sub) sub = Some (length l) \<Longrightarrow> sub \<noteq> [] \<Longrightarrow> index_str l sub = None"
proof (induction l)
  case (Cons x l)
  then have "\<not> prefix sub (x # l @ sub)" "index_str (l @ sub) sub = Some (length l)" by (auto split: if_splits)
  then show ?case using Cons prefix_prefix[of sub "x # l" sub] by auto
qed simp

lemma index_str_braces: "CHR ''}'' \<notin> set n \<Longrightarrow> index_str (n @ ''}}'' @ rest) ''}}'' = Some (length n)"
  by (induction n) auto

lemma index_str_head: "index_str (''{{'' @ rest) ''{{'' = Some 0"
  by simp

lemma var_names_visible:
  "name \<in> {varClientIP, varTenantHost, varRequestID, varNowRFC3339, varHeaderPrefix} \<Longrightarrow> name \<noteq> [] \<and> list_all (\<lambda>c. visible c \<and> c \<noteq> CHR ''}'') name"
  by (elim insertE emptyE; hypsubst) code_simp+

lemma part_ok_var:
  assumes "part_ok (TVar name hdr)"
  shows "parse_var (name @ hdr) = Inr (TVar name hdr)" and "trim_space (name @ hdr) = name @ hdr"
    and "name @ hdr \<noteq> []" and "CHR ''}'' \<notin> set (name @ hdr)"
proof -
  have n: "name \<noteq> []" "list_all (\<lambda>c. visible c \<and> c \<noteq> CHR ''}'') (name @ hdr)"
    using assms var_names_visible[of name] by auto
  then have vis: "list_all visible (name @ hdr)" "list_all visible hdr" by (auto simp: list_all_iff)
  show "trim_space (name @ hdr) = name @ hdr" by (rule trim_space_visible[OF vis(1)])
  show "name @ hdr \<noteq> []" "CHR ''}'' \<notin> set (name @ hdr)" using n by (auto simp: list_all_iff)
  show "parse_var (name @ hdr) = Inr (TVar name hdr)"
  proof (cases "name = varHeaderPrefix")
    case True
    then have "hdr \<noteq> []" using assms by (simp add: var_defs)
    moreover note trim_space_visible[OF vis(2)]
    moreover have "varHeaderPrefix @ hdr \<notin> {varClientIP, varTenantHost, varRequestID, varNowRFC3339}" by (simp add: var_defs)
    ultimately show ?thesis using True by (simp add: parse_var_def has_prefix_def trim_prefix_def Let_def)
  next
    case False
    then have "name \<in> {varClientIP, varTenantHost, varRequestID, varNowRFC3339}" "hdr = []" using assms by auto
    then show ?thesis by (simp add: parse_var_def)
  qed
qed

lemma parse_parts_at:
  assumes "index_str s ''{{'' = Some i" and "index_str (drop i s) ''}}'' = Some j"
  shows "parse_parts s =
    (let varName = trim_space (take (j - 2) (drop (i + 2) s)) in
     if varName = [] then Inl EmptyVariable
     else case parse_var varName of Inl e \<Rightarrow> Inl e
       | Inr part \<Rightarrow> (case parse_parts (drop (i + j + 2) s) of Inl e \<Rightarrow> Inl e
           | Inr rest \<Rightarrow> Inr ((if i > 0 then [TLit (take i s)] else []) @ part # rest)))"
proof -
  have "s \<noteq> []" using assms by auto
  then show ?thesis using assms by (subst parse_parts.simps) (simp add: Let_def)
qed

lemma parse_parts_var:
  assumes "part_ok (TVar name hdr)" and "parse_parts rest = Inr ps"
  shows "parse_parts (''{{'' @ (name @ hdr) @ ''}}'' @ rest) = Inr (TVar name hdr # ps)"
proof -
  define n where "n = name @ hdr"
  have "index_str (''{{'' @ n @ ''}}'' @ rest) ''}}'' = Some (length n + 2)"
    using index_str_braces[of n rest] part_ok_var(4)[OF assms(1)] by (simp add: n_def)
  moreover have "trim_space n = n" "n \<noteq> []" "parse_var n = Inr (TVar name hdr)"
    using part_ok_var[OF assms(1)] by (simp_all add: n_def)
  ultimately have "parse_parts (''{{'' @ n @ ''}}'' @ rest) = Inr (TVar name hdr # ps)"
    using assms(2) by (subst parse_parts.simps) (simp add: Let_def)
  then show ?thesis by (simp add: n_def)
qed

lemma parse_parts_lit:
  assumes "part_ok (TLit l)" and "parse_parts (''{{'' @ v) = Inr ps"
  shows "parse_parts (l @ ''{{'' @ v) = Inr (TLit l # ps)"
proof -
  have at: "index_str (l @ ''{{'' @ v) ''{{'' = Some (length l)" and ne: "l \<noteq> []" using assms(1) index_str_literal[of l "''{{''" v] by simp_all
  obtain j where j: "index_str (''{{'' @ v) ''}}'' = Some j" "j + 2 \<le> length (''{{'' @ v)"
  proof (cases "index_str (''{{'' @ v) ''}}''")
    case None
    then show ?thesis using assms(2) by (subst (asm) parse_parts.simps) simp
  next
    case (Some j)
    then show ?thesis using that index_str_Some[OF Some] by simp
  qed
  have "take (length l) (l @ ''{{'' @ v) = l" "drop (length l + 2) (l @ ''{{'' @ v) = drop (0 + 2) (''{{'' @ v)"
    "drop (length l + j + 2) (l @ ''{{'' @ v) = drop (0 + j + 2) (''{{'' @ v)" by simp_all
  moreover have "index_str (drop (length l) (l @ ''{{'' @ v)) ''}}'' = Some j" "index_str (drop 0 (''{{'' @ v)) ''}}'' = Some j" using j by simp_all
  ultimately show ?thesis using assms(2) parse_parts_at[OF at, of j] parse_parts_at[OF index_str_head, of v j] ne
    by (simp only: Let_def) (auto split: sum.splits if_splits)
qed

lemma parse_print: "parts_ok ps \<Longrightarrow> parse_parts (print_parts ps) = Inr ps"
proof (induction ps rule: parts_ok.induct)
  case (2 name hdr ps)
  then show ?case using parse_parts_var[of name hdr "print_parts ps" ps] by (simp add: print_parts_def)
next
  case (3 l ps)
  then have l: "part_ok (TLit l)" by simp
  show ?case
  proof (cases ps)
    case Nil
    have "index_str l ''{{'' = None" "l \<noteq> []" using l index_str_last_literal[of l "''{{''"] by simp_all
    then show ?thesis by (subst parse_parts.simps) (simp add: print_parts_def Nil)
  next
    case (Cons p qs)
    then obtain name hdr where p: "p = TVar name hdr" using "3.prems" by (cases p) auto
    then have "parse_parts (print_parts ps) = Inr ps" using 3 Cons by simp
    then show ?thesis using parse_parts_lit[OF l, of "(name @ hdr) @ ''}}'' @ print_parts qs" ps] by (simp add: print_parts_def Cons p)
  qed
qed (simp_all add: print_parts_def parse_parts.simps)

lemma print_parts_empty: "parts_ok ps \<Longrightarrow> print_parts ps = [] \<longleftrightarrow> ps = []"
  by (cases ps rule: parts_ok.cases) (auto simp: print_parts_def)

text \<open>
  C37 (roundtrip). Every template can be written: for a list of parts in which literals are not empty, not adjacent and without opening braces, and variables are known ones, parsing the printed text gives a template of
  exactly these parts, on the constant path or not.
\<close>

theorem template_roundtrip:
  assumes "parts_ok ps"
  shows "map_sum id template_parts (parse_template (print_parts ps)) = Inr ps"
proof (cases "ps = []")
  case True
  then show ?thesis by (simp add: parse_template_def print_parts_def template_parts_def)
next
  case False
  have "map_sum id template_parts (case Inr ps of Inl e \<Rightarrow> Inl e
      | Inr [TLit l] \<Rightarrow> Inr \<lparr>tm_fastPath = l, tm_parts = []\<rparr>
      | Inr [] \<Rightarrow> Inr \<lparr>tm_fastPath = [], tm_parts = []\<rparr>
      | Inr parts \<Rightarrow> Inr \<lparr>tm_fastPath = [], tm_parts = parts\<rparr>) = (Inr ps :: template_error + template_part list)"
    using False assms by (auto simp: template_parts_def split: list.split template_part.split)
  then show ?thesis using False parse_print[OF assms] print_parts_empty[OF assms] by (simp add: parse_template_def)
qed

theorem template_roundtrip_witness:
  "map_sum id template_parts (parse_template ''id={{request_id}}/{{header:Host}}'')
    = Inr [TLit ''id='', TVar varRequestID [], TLit ''/'', TVar varHeaderPrefix ''Host'']"
proof -
  have "parts_ok [TLit ''id='', TVar varRequestID [], TLit ''/'', TVar varHeaderPrefix ''Host'']" by code_simp
  from template_roundtrip[OF this] show ?thesis by (simp add: print_parts_def var_defs)
qed

subsection \<open>Requests: strip, then set\<close>

lemma hdr_values_set: "hdr_values (hdr_set n v h) k = (if canonical_key k = canonical_key n then [v] else hdr_values h k)"
  by (simp add: hdr_values_def hdr_set_def map_of_alist_put)

definition names_of :: "add_entry list \<Rightarrow> string set" where
  "names_of es = (\<lambda>e. canonical_key (ae_name e)) ` set es"

lemma names_of_Cons: "names_of (e # es) = insert (canonical_key (ae_name e)) (names_of es)"
  by (simp add: names_of_def)


lemma hdr_values_add_downstream:
  "(canonical_key k \<notin> names_of es \<longrightarrow> hdr_values (add_downstream R ctx es h) k = hdr_values h k)
   \<and> (canonical_key k \<in> names_of es \<longrightarrow> (\<exists>v. hdr_values (add_downstream R ctx es h) k = [v]))"
proof (induction es arbitrary: h)
  case (Cons e es)
  then show ?case by (cases "canonical_key k \<in> names_of es") (auto simp: names_of_Cons hdr_values_set)
qed (simp add: names_of_def)





lemma apply_downstream_values:
  "canonical_key k \<in> canonical_key ` set (hr_stripDownstream rules) \<Longrightarrow> canonical_key k \<notin> names_of (hr_addDownstream rules)
     \<Longrightarrow> hdr_values (apply_downstream R new rules ctx h) k = []"
  using hdr_values_add_downstream[of k "hr_addDownstream rules" R "with_id new ctx" "fold hdr_del (hr_stripDownstream rules) h"]
  by (auto simp: apply_downstream_def hdr_values_dels)


interpretation header_contract: validated_feature "hd_validate stringer" for stringer
  by unfold_locales (simp add: hd_validate_def zero_snapshot_def)


text \<open>An example of rules: \<^verbatim>\<open>Server\<close> is stripped on both sides, and a request id is added on both.\<close>

definition demo_template :: template where
  "demo_template = \<lparr>tm_fastPath = [], tm_parts = [TVar varRequestID []]\<rparr>"

definition demo_hd_rules :: hd_rules where
  "demo_hd_rules = \<lparr>hr_stripUpstream = [''Server''], hr_addUpstream = [\<lparr>ae_name = ''X-Id'', ae_value = demo_template\<rparr>],
     hr_stripDownstream = [''Server''], hr_addDownstream = [\<lparr>ae_name = ''X-Id'', ae_value = demo_template\<rparr>]\<rparr>"

definition demo_hd_snap :: feature_snapshot where
  "demo_hd_snap =
     (let names = VStrings [''Server'']; adds = VList [VMap [(''name'', VString ''X-Id''), (''value'', VString ''{{request_id}}'')]]
      in \<lparr>fs_Enabled = True, fs_Params = [''strip_upstream'' \<mapsto> names, ''strip_downstream'' \<mapsto> names, ''add_upstream'' \<mapsto> adds, ''add_downstream'' \<mapsto> adds], fs_Version = 0\<rparr>)"

definition demo_render_env :: render_env where
  "demo_render_env = \<lparr>re_fresh = (\<lambda>_. ''f''), re_clock = (\<lambda>_. zero_time), re_format = (\<lambda>_. ''t'')\<rparr>"

definition demo_writer :: http_writer where
  "demo_writer = \<lparr>hw_header = [], hw_info = [], hw_sent = None, hw_body = []\<rparr>"

definition demo_hd_feature :: "hd_rules rule_feature" where
  "demo_hd_feature = \<lparr>rf_enabled = True, rf_compiled = [(global_rules_key, demo_hd_rules)]\<rparr>"



lemma demo_hd_active: "active_rules id demo_hd_feature demo_hd_snap (plain_request ''/'') = Some demo_hd_rules"
  by (simp add: active_rules_def demo_hd_feature_def demo_hd_snap_def rules_for_def rules_key_def plain_request_def Let_def)



subsection \<open>Responses\<close>

fun informational :: "writer_call \<Rightarrow> bool" where
  "informational (CWriteHeader code) \<longleftrightarrow> 100 \<le> code \<and> code \<le> 199 \<and> code \<noteq> 101"
| "informational _ \<longleftrightarrow> False"

fun writes :: "writer_call \<Rightarrow> bool" where
  "writes (CWriteHeader code) \<longleftrightarrow> True"
| "writes (CWrite b) \<longleftrightarrow> True"
| "writes _ \<longleftrightarrow> False"

lemmas hw_defs = hw_write_header_def hw_write_def hw_finish_def Let_def

lemma rw_call_sent: "hw_sent w = Some x \<Longrightarrow> hw_sent (snd (rw_call down c (b, w))) = Some x"
  by (cases c; cases x) (simp_all add: hw_defs)

lemma fold_rw_call_sent: "hw_sent w = Some x \<Longrightarrow> hw_sent (snd (fold (rw_call down) cs (b, w))) = Some x"
proof (induction cs arbitrary: b w)
  case (Cons c cs)
  then show ?case using rw_call_sent[OF Cons.prems, of down c b] by (cases "rw_call down c (b, w)") simp
qed simp

lemma fold_rw_call_first:
  "hw_sent w = None \<Longrightarrow> \<not> list_ex informational cs \<Longrightarrow> list_ex writes cs
     \<Longrightarrow> \<exists>code h. hw_sent (snd (fold (rw_call down) cs (False, w))) = Some (code, down h)"
proof (induction cs arbitrary: w)
  case (Cons c cs)
  show ?case
  proof (cases "writes c")
    case True
    then obtain code where "hw_sent (snd (rw_call down c (False, w))) = Some (code, down (hw_header w))"
      using Cons.prems by (cases c) (auto simp: hw_defs)
    then show ?thesis using fold_rw_call_sent by (cases "rw_call down c (False, w)") auto
  next
    case False
    then have "\<exists>w'. rw_call down c (False, w) = (False, w') \<and> hw_sent w' = None" using Cons.prems by (cases c) auto
    then show ?thesis using Cons.IH Cons.prems False by auto
  qed
qed simp

text \<open>
  A response of a handler that writes something and sends no informational status is sent without any of the stripped names, unless the rules add them.
\<close>

theorem downstream_headers_stripped:
  assumes "active_rules uni f snap r = Some rules" and "hw_sent w = None"
    and "\<And>h. \<not> list_ex informational (handler h) \<and> list_ex writes (handler h)"
    and "canonical_key k \<in> canonical_key ` set (hr_stripDownstream rules)" and "canonical_key k \<notin> names_of (hr_addDownstream rules)"
  shows "\<exists>code h. hw_sent (snd (hd_serve uni R id1 id2 f snap handler r w)) = Some (code, h) \<and> hdr_values h k = []"
proof -
  have "\<not> hd_empty (Some rules)" "hr_stripDownstream rules \<noteq> []" using assms(4) by (auto simp: hd_empty_def)
  then obtain ctx h where *: "hd_serve uni R id1 id2 f snap handler r w
      = (h, hw_finish (snd (fold (rw_call (apply_downstream R id2 rules ctx)) (handler h) (False, w))))"
    using assms(1) by (simp add: hd_serve_def Let_def)
  from fold_rw_call_first[OF assms(2) conjunct1[OF assms(3)] conjunct2[OF assms(3)], of "apply_downstream R id2 rules ctx" h]
  obtain code h0 where "hw_sent (snd (fold (rw_call (apply_downstream R id2 rules ctx)) (handler h) (False, w))) = Some (code, apply_downstream R id2 rules ctx h0)"
    by blast
  then show ?thesis using * apply_downstream_values[OF assms(4,5)] by (simp add: hw_defs)
qed

theorem downstream_headers_stripped_witness:
  "\<exists>code h. hw_sent (snd (hd_serve id demo_render_env ''1'' ''2'' demo_hd_feature demo_hd_snap (\<lambda>h. [CSet ''server'' ''x'', CWrite ''y'']) (plain_request ''/'') demo_writer)) = Some (code, h)
     \<and> hdr_values h ''server'' = []"
proof (rule downstream_headers_stripped[OF demo_hd_active])
  show "canonical_key ''server'' \<in> canonical_key ` set (hr_stripDownstream demo_hd_rules)" "canonical_key ''server'' \<notin> names_of (hr_addDownstream demo_hd_rules)"
    by code_simp+
qed (simp_all add: demo_writer_def)

text \<open>
  The rules can be bypassed: whatever they are, a header that the handler sets after an informational response, or in a response it never writes to, reaches the client.
\<close>

theorem informational_bypasses_rules:
  assumes "hw_sent w = None" and "handler = (\<lambda>h. [CWriteHeader 103, CSet k v, CWriteHeader 200]) \<or> handler = (\<lambda>h. [CSet k v])"
  shows "map_option (\<lambda>(code, h). (code, hdr_values h k)) (hw_sent (snd (hd_serve uni R id1 id2 f snap handler r w))) = Some (200, [v])"
  using assms by (auto simp: hd_serve_def hw_defs hdr_values_set split: option.splits)

theorem informational_bypasses_rules_witness:
  "map_option (\<lambda>(code, h). (code, hdr_values h ''Server''))
     (hw_sent (snd (hd_serve id demo_render_env ''1'' ''2'' demo_hd_feature demo_hd_snap (\<lambda>h. [CWriteHeader 103, CSet ''Server'' ''x'', CWriteHeader 200]) (plain_request ''/'') demo_writer)))
   = Some (200, [''x''])"
  by (rule informational_bypasses_rules) (simp_all add: demo_writer_def)

text \<open>
  With the same \<^verbatim>\<open>{{request_id}}\<close> entry on both sides, the backend gets the first identifier drawn and the client another one, so the two cannot be correlated.
\<close>

theorem request_ids_differ:
  assumes "active_rules uni f snap r = Some rules" and "hw_sent w = None" and "id1 \<noteq> []" and "id2 \<noteq> []"
    and "hr_addUpstream rules = [\<lparr>ae_name = n, ae_value = \<lparr>tm_fastPath = [], tm_parts = [TVar varRequestID []]\<rparr>\<rparr>]"
    and "hr_addDownstream rules = [\<lparr>ae_name = n, ae_value = \<lparr>tm_fastPath = [], tm_parts = [TVar varRequestID []]\<rparr>\<rparr>]"
    and "S = hd_serve uni R id1 id2 f snap (\<lambda>h. [CWrite b]) r w"
  shows "(hdr_values (fst S) n, map_option (\<lambda>(code, h). hdr_values h n) (hw_sent (snd S))) = ([id1], Some [id2])"
  using assms
  by (simp add: hd_serve_def hd_empty_def apply_request_def apply_downstream_def with_id_def render_def render_part_def hdr_values_set hw_defs var_defs)

theorem request_ids_differ_witness:
  "\<exists>S. S = hd_serve id demo_render_env ''1'' ''2'' demo_hd_feature demo_hd_snap (\<lambda>h. [CWrite ''y'']) (plain_request ''/'') demo_writer
     \<and> (hdr_values (fst S) ''X-Id'', map_option (\<lambda>(code, h). hdr_values h ''X-Id'') (hw_sent (snd S))) = ([''1''], Some [''2''])"
proof (rule exI, rule conjI, rule refl)
  have "hw_sent demo_writer = None" by (simp add: demo_writer_def)
  from request_ids_differ[OF demo_hd_active this]
  show "(hdr_values (fst (hd_serve id demo_render_env ''1'' ''2'' demo_hd_feature demo_hd_snap (\<lambda>h. [CWrite ''y'']) (plain_request ''/'') demo_writer)) ''X-Id'',
      map_option (\<lambda>(code, h). hdr_values h ''X-Id'')
        (hw_sent (snd (hd_serve id demo_render_env ''1'' ''2'' demo_hd_feature demo_hd_snap (\<lambda>h. [CWrite ''y'']) (plain_request ''/'') demo_writer)))) = ([''1''], Some [''2''])"
    by (simp add: demo_hd_rules_def demo_template_def)
qed

end
