(* ===== verification/Abuse.thy ===== *)
theory Abuse
  imports Headers
begin

text \<open>
  The \<^verbatim>\<open>abuse_api\<close> feature, \<^verbatim>\<open>internal/feature/abuse/abuse.go\<close> and \<^verbatim>\<open>store.go\<close>: parameters, the sliding-window limiter, the handler of reports and the append-only log. SHA-256, JSON and the outcome of system
  calls are arguments. An open file is the text that is in it; a write that fails leaves some bytes of its argument behind. A set of required fields is a list.
\<close>

subsection \<open>Store\<close>

record abuse_entry =
  en_Timestamp :: time
  en_Tenant :: string
  en_ClientIPHash :: string
  en_Onion :: string
  en_Reason :: string
  en_Contact :: string
  en_Details :: string

record abuse_store =
  as_path :: string
  as_f :: "string option"

text \<open>\<open>dir\<close> is \<^verbatim>\<open>filepath.Dir\<close>, \<open>mkdir\<close> whether creating a directory succeeds, \<open>opened\<close> the text of the opened file.\<close>

definition abuse_open_store :: "(string \<Rightarrow> string) \<Rightarrow> (string \<Rightarrow> bool) \<Rightarrow> (string \<Rightarrow> string option) \<Rightarrow> string \<Rightarrow> abuse_store option" where
  "abuse_open_store dir mkdir opened path =
     (if path = [] then None
      else if dir path \<noteq> [] \<and> dir path \<noteq> ''.'' \<and> \<not> mkdir (dir path) then None
      else (case opened path of None \<Rightarrow> None | Some text \<Rightarrow> Some \<lparr>as_path = path, as_f = Some text\<rparr>))"

definition abuse_store_path :: "abuse_store option \<Rightarrow> string" where
  "abuse_store_path s = (case s of None \<Rightarrow> [] | Some st \<Rightarrow> as_path st)"

text \<open>\<^verbatim>\<open>Append\<close>: \<open>written\<close> is \<open>None\<close> for a complete write and otherwise how many bytes were written before the error. The flag says that the call succeeded.\<close>

definition abuse_append :: "(abuse_entry \<Rightarrow> string option) \<Rightarrow> time \<Rightarrow> nat option \<Rightarrow> abuse_entry \<Rightarrow> abuse_store \<Rightarrow> bool \<times> abuse_store" where
  "abuse_append marshal clock written entry s =
     (case as_f s of
        None \<Rightarrow> (False, s)
      | Some text \<Rightarrow>
          (let e = (if en_Timestamp entry = zero_time then entry\<lparr>en_Timestamp := clock\<rparr> else entry) in
           case marshal e of
             None \<Rightarrow> (False, s)
           | Some json \<Rightarrow>
               (let buf = json @ [CHR 0x0A] in
                case written of
                  None \<Rightarrow> (True, s\<lparr>as_f := Some (text @ buf)\<rparr>)
                | Some n \<Rightarrow> (False, s\<lparr>as_f := Some (text @ take n buf)\<rparr>))))"

definition abuse_store_close :: "abuse_store \<Rightarrow> abuse_store" where
  "abuse_store_close s = s\<lparr>as_f := None\<rparr>"

subsection \<open>Parameters\<close>

definition ab_FeatureName :: string where "ab_FeatureName = ''abuse_api''"
definition maxBodyBytes :: int where "maxBodyBytes = 32 * 1024"
definition maxOnionMin :: int where "maxOnionMin = 56"
definition maxOnionMax :: int where "maxOnionMax = 58"
definition maxReasonMin :: int where "maxReasonMin = 1"
definition maxReasonMax :: int where "maxReasonMax = 2000"
definition maxContactMax :: int where "maxContactMax = 200"
definition maxDetailsMax :: int where "maxDetailsMax = 4000"
definition ab_defaultRateLimit :: int where "ab_defaultRateLimit = 10"
definition ab_defaultPath :: string where "ab_defaultPath = ''/_abuse''"
definition rateLimitWindow :: duration where "rateLimitWindow = 3600 * second"

record abuse_params =
  ap_enabled :: bool
  ap_path :: string
  ap_storePath :: string
  ap_notifyEmail :: string
  ap_rateLimitPerHr :: int
  ap_requireFields :: "string list"

text \<open>The coercions are those of the block list and of the header rules, without \<^verbatim>\<open>fmt.Stringer\<close>.\<close>

definition ab_as_string :: "any_val \<Rightarrow> string option" where
  "ab_as_string = as_string (\<lambda>_. None)"

definition ab_as_int :: "any_val \<Rightarrow> int option" where
  "ab_as_int = bl_as_int"

definition ab_as_string_slice :: "any_val \<Rightarrow> string list option" where
  "ab_as_string_slice = hd_as_string_slice (\<lambda>_. None)"

definition ab_param :: "(string \<rightharpoonup> any_val) \<Rightarrow> string \<Rightarrow> 'a \<Rightarrow> (any_val \<Rightarrow> 'a option) \<Rightarrow> string + 'a" where
  "ab_param ps key def conv =
     (case ps key of None \<Rightarrow> Inr def | Some raw \<Rightarrow> (case conv raw of None \<Rightarrow> Inl key | Some x \<Rightarrow> Inr x))"

definition ab_parse_path :: "any_val \<Rightarrow> string option" where
  "ab_parse_path raw =
     (case ab_as_string raw of None \<Rightarrow> None | Some s \<Rightarrow> if s = [] then None else if \<not> has_prefix s ''/'' then None else Some s)"

definition ab_parse_email :: "any_val \<Rightarrow> string option" where
  "ab_parse_email raw = (case raw of VNil \<Rightarrow> Some [] | VString v \<Rightarrow> Some v | _ \<Rightarrow> None)"

definition ab_parse_limit :: "any_val \<Rightarrow> int option" where
  "ab_parse_limit raw = (case ab_as_int raw of None \<Rightarrow> None | Some n \<Rightarrow> if n < 0 then None else Some n)"

definition ab_parse_fields :: "any_val \<Rightarrow> string list option" where
  "ab_parse_fields raw =
     (case ab_as_string_slice raw of
        None \<Rightarrow> None
      | Some ns \<Rightarrow> if list_all (\<lambda>n. n \<in> {''onion'', ''reason'', ''contact'', ''details''}) ns then Some (remdups ns) else None)"

definition ab_parse_params :: "feature_snapshot \<Rightarrow> string + abuse_params" where
  "ab_parse_params cfg =
     (let ps = fs_Params cfg in
      or_error (ab_param ps ''path'' ab_defaultPath ab_parse_path) (\<lambda>path.
      or_error (ab_param ps ''store_path'' [] ab_as_string) (\<lambda>storePath.
      or_error (ab_param ps ''notify_email'' [] ab_parse_email) (\<lambda>notifyEmail.
      or_error (ab_param ps ''rate_limit_per_hour'' ab_defaultRateLimit ab_parse_limit) (\<lambda>limit.
      or_error (ab_param ps ''require_fields'' [''onion'', ''reason''] ab_parse_fields) (\<lambda>req.
        Inr \<lparr>ap_enabled = fs_Enabled cfg, ap_path = path, ap_storePath = storePath, ap_notifyEmail = notifyEmail, ap_rateLimitPerHr = limit, ap_requireFields = req\<rparr>))))))"

definition ab_validate :: "feature_snapshot \<Rightarrow> string option" where
  "ab_validate cfg =
     (if \<not> fs_Enabled cfg then None else (case ab_parse_params cfg of Inl e \<Rightarrow> Some e | Inr p \<Rightarrow> None))"

subsection \<open>Limiter\<close>

type_synonym abuse_windows = "string \<rightharpoonup> time list"

definition abuse_key :: "string \<Rightarrow> string \<Rightarrow> string" where
  "abuse_key tenant ipHash = tenant @ [CHR 0x00] @ ipHash"

definition abuse_check :: "string \<Rightarrow> string \<Rightarrow> int \<Rightarrow> time \<Rightarrow> abuse_windows \<Rightarrow> (bool \<times> duration) \<times> abuse_windows" where
  "abuse_check tenant ipHash limit now windows =
     (if limit \<le> 0 then ((True, 0), windows)
      else
        (let key = abuse_key tenant ipHash;
             cutoff = now - rateLimitWindow;
             hist = dropWhile (\<lambda>t. t < cutoff) (case windows key of None \<Rightarrow> [] | Some h \<Rightarrow> h)
         in if int (length hist) \<ge> limit then
              (let retry = rateLimitWindow - time_sub now (hd hist)
               in ((False, if retry < second then second else retry), windows(key \<mapsto> hist)))
            else ((True, 0), windows(key \<mapsto> hist @ [now]))))"

subsection \<open>Feature\<close>

record abuse_feature =
  af_enabled :: bool
  af_tenantCfg :: "(string \<times> abuse_params) list"
  af_store :: "abuse_store option"
  af_limiter :: abuse_windows
  af_salt :: string

text \<open>\<^verbatim>\<open>New\<close>; \<open>None\<close> when there is no randomness or the store cannot be opened.\<close>

definition new_abuse_feature :: "(string \<Rightarrow> abuse_store option) \<Rightarrow> string option \<Rightarrow> string \<Rightarrow> abuse_feature option" where
  "new_abuse_feature opn random storePath =
     (case random of
        None \<Rightarrow> None
      | Some salt \<Rightarrow>
          (let f = \<lparr>af_enabled = False, af_tenantCfg = [], af_store = None, af_limiter = Map.empty, af_salt = salt\<rparr>
           in if storePath = [] then Some f
              else (case opn storePath of None \<Rightarrow> None | Some s \<Rightarrow> Some (f\<lparr>af_store := Some s\<rparr>))))"

definition abuse_set_store :: "abuse_store option \<Rightarrow> abuse_feature \<Rightarrow> abuse_feature" where
  "abuse_set_store s f = f\<lparr>af_store := s\<rparr>"

definition abuse_close :: "abuse_feature \<Rightarrow> abuse_feature" where
  "abuse_close f = f\<lparr>af_store := None\<rparr>"

fun ab_put :: "string \<Rightarrow> feature_snapshot option \<Rightarrow> (string \<times> abuse_params) list \<times> bool \<Rightarrow> (string \<times> abuse_params) list \<times> bool" where
  "ab_put key None st = st"
| "ab_put key (Some cfg) (newCfg, anyEnabled) =
     (case ab_parse_params cfg of
        Inl e \<Rightarrow> (newCfg, anyEnabled)
      | Inr p \<Rightarrow> (alist_put key p newCfg, anyEnabled \<or> ap_enabled p))"

definition ab_observe :: "(string \<Rightarrow> string) \<Rightarrow> globals_snapshot \<Rightarrow> (string \<times> tenant_snapshot) list \<Rightarrow> abuse_feature \<Rightarrow> abuse_feature" where
  "ab_observe uni globals tenants f =
     (let (newCfg, anyEnabled) = fold (\<lambda>(host, t). ab_put (to_lower uni host) (ts_Features t ab_FeatureName)) tenants
            (ab_put [] (globals ab_FeatureName) ([], False))
      in f\<lparr>af_tenantCfg := newCfg, af_enabled := anyEnabled\<rparr>)"

subsection \<open>Requests\<close>

record abuse_report =
  rp_Onion :: string
  rp_Reason :: string
  rp_Contact :: string
  rp_Details :: string

text \<open>A request body: the bytes that can be read, and whether an error follows them.\<close>

record request_body =
  bd_bytes :: string
  bd_err :: bool

definition read_limited :: "int \<Rightarrow> request_body \<Rightarrow> string option" where
  "read_limited n b = (if int (length (bd_bytes b)) \<ge> n then Some (take (nat n) (bd_bytes b)) else if bd_err b then None else Some (bd_bytes b))"

definition genericValidationMsg :: string where "genericValidationMsg = ''invalid request'' @ [CHR 0x0A]"

text \<open>The outside of one request: digest, JSON, the clock at the limiter, at the entry and in the store, and the outcome of the write.\<close>

record abuse_env =
  ae_sha256 :: "string \<Rightarrow> string"
  ae_unmarshal :: "string \<Rightarrow> abuse_report option"
  ae_marshal :: "abuse_entry \<Rightarrow> string option"
  ae_now :: time
  ae_entry_now :: time
  ae_store_now :: time
  ae_written :: "nat option"

record abuse_reply =
  rl_status :: int
  rl_header :: header
  rl_body :: string

definition hash_ip :: "(string \<Rightarrow> string) \<Rightarrow> string \<Rightarrow> string \<Rightarrow> string" where
  "hash_ip sha salt ip = hex_encode (sha (ip @ salt))"

definition ab_client_ip :: "http_request \<Rightarrow> string" where
  "ab_client_ip r = (case split_host_port (hq_RemoteAddr r) of None \<Rightarrow> hq_RemoteAddr r | Some host \<Rightarrow> host)"

definition validate_report :: "(string \<Rightarrow> string) \<Rightarrow> string list \<Rightarrow> abuse_report \<Rightarrow> bool" where
  "validate_report uni req p =
     (if ''onion'' \<in> set req \<and> rp_Onion p = [] then False
      else if ''reason'' \<in> set req \<and> rp_Reason p = [] then False
      else if ''contact'' \<in> set req \<and> rp_Contact p = [] then False
      else if ''details'' \<in> set req \<and> rp_Details p = [] then False
      else if rp_Onion p \<noteq> [] \<and>
        (let lower = to_lower uni (rp_Onion p); l = int (length lower) - 6
         in \<not> has_suffix lower ''.onion'' \<or> l < maxOnionMin \<or> l > maxOnionMax) then False
      else if rp_Reason p \<noteq> [] \<and> (int (length (rp_Reason p)) < maxReasonMin \<or> int (length (rp_Reason p)) > maxReasonMax) then False
      else if int (length (rp_Contact p)) > maxContactMax then False
      else int (length (rp_Details p)) \<le> maxDetailsMax)"

definition trim_report :: "abuse_report \<Rightarrow> abuse_report" where
  "trim_report p = p\<lparr>rp_Onion := trim_space (rp_Onion p), rp_Reason := trim_space (rp_Reason p), rp_Contact := trim_space (rp_Contact p)\<rparr>"

definition ab_base_header :: "header \<Rightarrow> header" where
  "ab_base_header h =
     hdr_set ''Content-Type'' ''text/plain; charset=utf-8'' (hdr_set ''Cache-Control'' ''no-store'' (alist_put ''Server'' [] h))"

text \<open>The part of \<^verbatim>\<open>handle\<close> that reads and checks the body: a status and a text, or the report.\<close>

definition ab_read_report :: "(string \<Rightarrow> string) \<Rightarrow> abuse_env \<Rightarrow> abuse_params \<Rightarrow> request_body \<Rightarrow> int \<times> string + abuse_report" where
  "ab_read_report uni E p body =
     (case read_limited (maxBodyBytes + 1) body of
        None \<Rightarrow> Inl (400, genericValidationMsg)
      | Some b \<Rightarrow>
          if int (length b) > maxBodyBytes then Inl (413, [])
          else
            (case ae_unmarshal E b of
               None \<Rightarrow> Inl (400, genericValidationMsg)
             | Some rep0 \<Rightarrow>
                 (let rep = trim_report rep0
                  in if \<not> validate_report uni (ap_requireFields p) rep then Inl (400, genericValidationMsg) else Inr rep)))"

definition report_entry :: "time \<Rightarrow> string \<Rightarrow> string \<Rightarrow> abuse_report \<Rightarrow> abuse_entry" where
  "report_entry now tenant ipHash rep =
     \<lparr>en_Timestamp = now, en_Tenant = tenant, en_ClientIPHash = ipHash, en_Onion = rp_Onion rep, en_Reason = rp_Reason rep, en_Contact = rp_Contact rep, en_Details = rp_Details rep\<rparr>"

text \<open>The part that stores it.\<close>

definition ab_submit :: "abuse_env \<Rightarrow> string \<Rightarrow> string \<Rightarrow> abuse_report \<Rightarrow> abuse_feature \<Rightarrow> int \<times> abuse_feature" where
  "ab_submit E tenant ipHash rep f =
     (case af_store f of
        None \<Rightarrow> (500, f)
      | Some store \<Rightarrow>
          (case abuse_append (ae_marshal E) (ae_store_now E) (ae_written E) (report_entry (ae_entry_now E) tenant ipHash rep) store of
             (ok, store') \<Rightarrow> (if ok then 204 else 500, f\<lparr>af_store := Some store'\<rparr>)))"

definition ab_handle ::
  "(string \<Rightarrow> string) \<Rightarrow> abuse_env \<Rightarrow> string \<Rightarrow> abuse_params \<Rightarrow> header \<Rightarrow> http_request \<Rightarrow> request_body \<Rightarrow> abuse_feature \<Rightarrow> abuse_reply \<times> abuse_feature" where
  "ab_handle uni E tenant p h0 r body f =
     (let h = ab_base_header h0
      in if hq_Method r \<noteq> ''POST'' then (\<lparr>rl_status = 405, rl_header = hdr_set ''Allow'' ''POST'' h, rl_body = []\<rparr>, f)
         else
           (let ipHash = hash_ip (ae_sha256 E) (af_salt f) (ab_client_ip r);
                limit = (if ap_rateLimitPerHr p \<le> 0 then ab_defaultRateLimit else ap_rateLimitPerHr p)
            in case abuse_check tenant ipHash limit (ae_now E) (af_limiter f) of
                 ((allowed, retryAfter), windows) \<Rightarrow>
                   (let f1 = f\<lparr>af_limiter := windows\<rparr> in
                    if \<not> allowed then
                      (\<lparr>rl_status = 429, rl_header = (if retryAfter > 0 then hdr_set ''Retry-After'' (digits (nat (retryAfter div second))) h else h), rl_body = []\<rparr>, f1)
                    else
                      (case ab_read_report uni E p body of
                         Inl (code, msg) \<Rightarrow> (\<lparr>rl_status = code, rl_header = h, rl_body = msg\<rparr>, f1)
                       | Inr rep \<Rightarrow> (case ab_submit E tenant ipHash rep f1 of (code, f2) \<Rightarrow> (\<lparr>rl_status = code, rl_header = h, rl_body = []\<rparr>, f2))))))"

text \<open>The middleware: no reply when the request is passed on.\<close>

definition ab_serve ::
  "(string \<Rightarrow> string) \<Rightarrow> abuse_env \<Rightarrow> feature_snapshot \<Rightarrow> header \<Rightarrow> http_request \<Rightarrow> request_body \<Rightarrow> abuse_feature \<Rightarrow> abuse_reply option \<times> abuse_feature" where
  "ab_serve uni E snap h0 r body f =
     (if \<not> af_enabled f then (None, f)
      else if \<not> fs_Enabled snap then (None, f)
      else
        (case ab_parse_params snap of
           Inl e \<Rightarrow> (None, f)
         | Inr p \<Rightarrow>
             if \<not> ap_enabled p then (None, f)
             else if hq_Path r \<noteq> ap_path p then (None, f)
             else
               (let tenant = (case hq_Tenant r of None \<Rightarrow> [] | Some t \<Rightarrow> to_lower uni (ts_Host t))
                in case ab_handle uni E tenant p h0 r body f of (reply, f') \<Rightarrow> (Some reply, f'))))"

subsection \<open>The limiter keeps a sliding window\<close>

text \<open>An attempt is a tenant, a hashed address, a limit and a time. The specification keeps every attempt it has admitted, and admits one when fewer than the limit lie in the hour before it.\<close>

type_synonym attempt = "string \<times> string \<times> int \<times> time"

definition admitted_since :: "time \<Rightarrow> string \<Rightarrow> string \<Rightarrow> attempt list \<Rightarrow> int" where
  "admitted_since cutoff tenant ip H = int (length (filter (\<lambda>(t, i, l, tm). t = tenant \<and> i = ip \<and> cutoff \<le> tm) H))"

fun window_spec :: "attempt list \<Rightarrow> attempt list \<Rightarrow> bool list" where
  "window_spec H [] = []"
| "window_spec H ((tenant, ip, limit, now) # cs) =
     (let ok = (admitted_since (now - rateLimitWindow) tenant ip H < limit)
      in ok # window_spec (if ok then H @ [(tenant, ip, limit, now)] else H) cs)"

fun limiter_run :: "abuse_windows \<Rightarrow> attempt list \<Rightarrow> bool list" where
  "limiter_run W [] = []"
| "limiter_run W ((tenant, ip, limit, now) # cs) =
     (case abuse_check tenant ip limit now W of ((ok, retry), W') \<Rightarrow> ok # limiter_run W' cs)"

definition times_of :: "string \<Rightarrow> string \<Rightarrow> attempt list \<Rightarrow> time list" where
  "times_of tenant ip H = map (\<lambda>(t, i, l, tm). tm) (filter (\<lambda>(t, i, l, tm). t = tenant \<and> i = ip) H)"

definition window_of :: "abuse_windows \<Rightarrow> string \<Rightarrow> string \<Rightarrow> time list" where
  "window_of W tenant ip = (case W (abuse_key tenant ip) of None \<Rightarrow> [] | Some h \<Rightarrow> h)"

text \<open>The stored window of a client is what is left of its admitted times after dropping some that are more than an hour old.\<close>

definition window_inv :: "time \<Rightarrow> attempt list \<Rightarrow> abuse_windows \<Rightarrow> bool" where
  "window_inv now H W \<longleftrightarrow>
     (\<forall>tenant ip. CHR 0x00 \<notin> set ip \<longrightarrow>
        sorted (times_of tenant ip H) \<and> (\<forall>t \<in> set (times_of tenant ip H). t \<le> now)
        \<and> (\<exists>gone. times_of tenant ip H = gone @ window_of W tenant ip \<and> (\<forall>t \<in> set gone. t < now - rateLimitWindow)))"

lemma split_at_nul: "CHR 0x00 \<notin> set xs \<Longrightarrow> takeWhile (\<lambda>c. c \<noteq> CHR 0x00) (xs @ CHR 0x00 # ys) = xs \<and> dropWhile (\<lambda>c. c \<noteq> CHR 0x00) (xs @ CHR 0x00 # ys) = CHR 0x00 # ys"
  by (induction xs) auto

lemma abuse_key_inj:
  assumes "CHR 0x00 \<notin> set ip" and "CHR 0x00 \<notin> set ip'"
  shows "abuse_key tenant ip = abuse_key tenant' ip' \<longleftrightarrow> tenant = tenant' \<and> ip = ip'"
proof
  assume eq: "abuse_key tenant ip = abuse_key tenant' ip'"
  have rev: "rev (abuse_key t i) = rev i @ CHR 0x00 # rev t" for t i by (simp add: abuse_key_def)
  have "rev ip = rev ip' \<and> CHR 0x00 # rev tenant = CHR 0x00 # rev tenant'"
    using split_at_nul[of "rev ip" "rev tenant"] split_at_nul[of "rev ip'" "rev tenant'"] assms eq rev[of tenant ip] rev[of tenant' ip'] by simp
  then show "tenant = tenant' \<and> ip = ip'" by simp
qed simp

lemma times_of_append: "times_of t i (H @ [(tenant, ip, l, tm)]) = times_of t i H @ (if t = tenant \<and> i = ip then [tm] else [])"
  by (auto simp: times_of_def)

lemma admitted_since_times: "admitted_since c tenant ip H = int (length (filter (\<lambda>t. c \<le> t) (times_of tenant ip H)))"
  by (auto simp: admitted_since_def times_of_def filter_map comp_def intro!: arg_cong[where f = length] filter_cong)

lemma dropWhile_old: "sorted xs \<Longrightarrow> dropWhile (\<lambda>t. t < c) xs = filter (\<lambda>t. c \<le> t) xs" for c :: int
  by (induction xs) (auto simp: not_le intro!: filter_True[symmetric])

lemma limiter_step:
  assumes inv: "window_inv t0 H W" and "t0 \<le> now" and "limit > 0" and ip: "CHR 0x00 \<notin> set ip"
    and step: "abuse_check tenant ip limit now W = ((ok, retry), W')"
  shows "ok = (admitted_since (now - rateLimitWindow) tenant ip H < limit)"
    and "window_inv now (if ok then H @ [(tenant, ip, limit, now)] else H) W'"
proof -
  let ?c = "now - rateLimitWindow" and ?h = "dropWhile (\<lambda>t. t < now - rateLimitWindow) (window_of W tenant ip)"
  obtain gone where gone: "times_of tenant ip H = gone @ window_of W tenant ip" "\<forall>t \<in> set gone. t < t0 - rateLimitWindow"
    and sorted: "sorted (times_of tenant ip H)" "\<forall>t \<in> set (times_of tenant ip H). t \<le> t0"
    using inv ip unfolding window_inv_def by blast
  have h: "?h = filter (\<lambda>t. ?c \<le> t) (times_of tenant ip H)"
    using gone sorted(1) assms(2) by (auto simp: dropWhile_old sorted_append filter_empty_conv)
  have split: "times_of tenant ip H = (gone @ takeWhile (\<lambda>t. t < ?c) (window_of W tenant ip)) @ ?h" using gone(1) by simp
  have old: "\<forall>t \<in> set (gone @ takeWhile (\<lambda>t. t < ?c) (window_of W tenant ip)). t < ?c" using gone(2) assms(2) by (auto dest: set_takeWhileD)
  show ok: "ok = (admitted_since ?c tenant ip H < limit)"
    using step assms(3) unfolding abuse_check_def window_of_def[symmetric] Let_def
    by (auto simp: admitted_since_times h[symmetric] split: if_splits)
  have W': "W' = W(abuse_key tenant ip \<mapsto> if ok then ?h @ [now] else ?h)"
    using step assms(3) unfolding abuse_check_def window_of_def[symmetric] Let_def by (auto split: if_splits)
  show "window_inv now (if ok then H @ [(tenant, ip, limit, now)] else H) W'"
    unfolding window_inv_def
  proof (intro allI impI)
    fix t i :: string assume i: "CHR 0x00 \<notin> set i"
    let ?H = "if ok then H @ [(tenant, ip, limit, now)] else H"
    show "sorted (times_of t i ?H) \<and> (\<forall>x \<in> set (times_of t i ?H). x \<le> now)
        \<and> (\<exists>gone. times_of t i ?H = gone @ window_of W' t i \<and> (\<forall>x \<in> set gone. x < ?c))"
    proof (cases "t = tenant \<and> i = ip")
      case True
      have w: "window_of W' tenant ip = (if ok then ?h @ [now] else ?h)" by (simp add: window_of_def W')
      have "times_of t i ?H = (gone @ takeWhile (\<lambda>t. t < ?c) (window_of W tenant ip)) @ window_of W' t i"
        using True gone(1) by (simp add: times_of_append w)
      moreover have "sorted (times_of t i ?H)" "\<forall>x \<in> set (times_of t i ?H). x \<le> now"
        using True sorted assms(2) by (auto simp: times_of_append sorted_append)
      ultimately show ?thesis using old by blast
    next
      case False
      then have "times_of t i ?H = times_of t i H" "window_of W' t i = window_of W t i"
        using abuse_key_inj[OF i ip, of t tenant] by (auto simp: times_of_append window_of_def W')
      then show ?thesis using inv i assms(2) unfolding window_inv_def by fastforce
    qed
  qed
qed

lemma hex_encode_no_nul: "CHR 0x00 \<notin> set (hex_encode d)"
proof -
  have "hex_digit n \<noteq> CHR 0x00" if "n < 16" for n
  proof -
    have "hex_digit n \<in> set ''0123456789abcdef''" unfolding hex_digit_def by (rule nth_mem) (use that in simp)
    then show ?thesis by auto
  qed
  moreover have "(of_char c :: nat) div 16 < 16" "(of_char c :: nat) mod 16 < 16" for c :: char
    using nat_of_char_less_256[of c] by (simp_all add: less_mult_imp_div_less)
  ultimately have "CHR 0x00 \<noteq> hex_digit (of_char c div 16)" "CHR 0x00 \<noteq> hex_digit (of_char c mod 16)" for c :: char by metis+
  then show ?thesis by (auto simp: hex_encode_def)
qed

text \<open>
  C28 (refinement). For attempts in the order of time, with positive limits and hashes that are hexadecimal text, the limiter admits exactly those that the specification admits, although it forgets what is older than an hour
  and joins tenant and hash to one key.
\<close>

theorem abuse_limiter_refines:
  assumes "sorted (map (\<lambda>(tenant, ip, limit, now). now) cs)" and "list_all (\<lambda>(tenant, ip, limit, now). limit > 0 \<and> (\<exists>d. ip = hex_encode d)) cs"
  shows "limiter_run Map.empty cs = window_spec [] cs"
proof -
  have "limiter_run W cs = window_spec H cs"
    if "window_inv t0 H W" "sorted (t0 # map (\<lambda>(tenant, ip, limit, now). now) cs)" "list_all (\<lambda>(tenant, ip, limit, now). limit > 0 \<and> CHR 0x00 \<notin> set ip) cs" for t0 H W cs
    using that
  proof (induction cs arbitrary: t0 H W)
    case (Cons c cs)
    obtain tenant ip limit now where c: "c = (tenant, ip, limit, now)" by (cases c)
    obtain ok retry W' where step: "abuse_check tenant ip limit now W = ((ok, retry), W')" by (metis surj_pair)
    from limiter_step[OF Cons.prems(1) _ _ _ step] Cons.prems(2,3)
    have "ok = (admitted_since (now - rateLimitWindow) tenant ip H < limit)" "window_inv now (if ok then H @ [(tenant, ip, limit, now)] else H) W'"
      by (simp_all add: c)
    then show ?case using Cons.IH[of now] Cons.prems(2,3) step by (simp add: c Let_def)
  qed simp
  note run = this
  have safe: "list_all (\<lambda>(tenant, ip, limit, now). limit > 0 \<and> CHR 0x00 \<notin> set ip) cs"
    using assms(2) hex_encode_no_nul by (fastforce simp: list_all_iff)
  from run[of "case cs of [] \<Rightarrow> 0 | (tenant, ip, limit, now) # cs' \<Rightarrow> now" "[]" Map.empty cs] show ?thesis
    using assms(1) safe by (cases cs) (auto simp: window_inv_def times_of_def window_of_def)
qed

theorem abuse_limiter_refines_witness:
  "limiter_run Map.empty [(''a'', hex_encode ''x'', 1, 0), (''a'', hex_encode ''x'', 1, 3600 * second), (''a'', hex_encode ''x'', 1, 3600 * second + 1)] = [True, False, True]"
proof -
  have "sorted (map (\<lambda>(tenant, ip, limit, now). now) [(''a'', hex_encode ''x'', 1::int, 0), (''a'', hex_encode ''x'', 1, 3600 * second), (''a'', hex_encode ''x'', 1, 3600 * second + 1)])"
    by code_simp
  from abuse_limiter_refines[OF this] show ?thesis
    by (simp add: Let_def admitted_since_def rateLimitWindow_def second_def) blast
qed

subsection \<open>Reports are acknowledged when they are stored\<close>

definition store_text :: "abuse_feature \<Rightarrow> string option" where
  "store_text f = Option.bind (af_store f) as_f"

lemma ab_read_report_ok:
  "ab_read_report uni E p body = Inr rep \<Longrightarrow> validate_report uni (ap_requireFields p) rep"
  "ab_read_report uni E p body = Inl (code, msg) \<Longrightarrow> code \<in> {400, 413}"
  by (auto simp: ab_read_report_def Let_def split: option.splits if_splits)

lemma abuse_append_ok:
  assumes "abuse_append marshal clock written entry s = (True, s')"
  shows "\<exists>old json now. as_f s = Some old \<and> as_f s' = Some (old @ json @ [CHR 0x0A]) \<and> marshal (entry\<lparr>en_Timestamp := now\<rparr>) = Some json"
proof -
  define e where "e = (if en_Timestamp entry = zero_time then entry\<lparr>en_Timestamp := clock\<rparr> else entry)"
  have e: "\<exists>now. e = entry\<lparr>en_Timestamp := now\<rparr>" unfolding e_def by (cases entry) (auto intro: exI[of _ "en_Timestamp entry"])
  have "\<exists>old json. as_f s = Some old \<and> as_f s' = Some (old @ json @ [CHR 0x0A]) \<and> marshal e = Some json"
    using assms by (auto simp: abuse_append_def e_def[symmetric] Let_def split: option.splits)
  then show ?thesis using e by auto
qed

lemma ab_submit_ok:
  assumes "ab_submit E tenant ipHash rep f = (204, f')"
  shows "\<exists>old json now. store_text f = Some old \<and> store_text f' = Some (old @ json @ [CHR 0x0A]) \<and> ae_marshal E (report_entry now tenant ipHash rep) = Some json"
proof -
  obtain store store' where s: "af_store f = Some store" "f' = f\<lparr>af_store := Some store'\<rparr>"
      "abuse_append (ae_marshal E) (ae_store_now E) (ae_written E) (report_entry (ae_entry_now E) tenant ipHash rep) store = (True, store')"
    using assms by (auto simp: ab_submit_def split: option.splits prod.splits if_splits)
  have "(report_entry (ae_entry_now E) tenant ipHash rep)\<lparr>en_Timestamp := now\<rparr> = report_entry now tenant ipHash rep" for now by (simp add: report_entry_def)
  then show ?thesis using abuse_append_ok[OF s(3)] s(1,2) by (auto simp: store_text_def)
qed

lemma ab_serve_cases:
  assumes "ab_serve uni E snap h0 r body f = (Some reply, f')"
  obtains p where "ab_parse_params snap = Inr p"
    "ab_handle uni E (case hq_Tenant r of None \<Rightarrow> [] | Some t \<Rightarrow> to_lower uni (ts_Host t)) p h0 r body f = (reply, f')"
  using assms by (auto simp: ab_serve_def Let_def split: if_splits sum.splits prod.splits)

lemma ab_handle_204:
  assumes "ab_handle uni E tenant p h0 r body f = (reply, f')" and "rl_status reply = 204"
  shows "\<exists>rep W. ab_read_report uni E p body = Inr rep
    \<and> ab_submit E tenant (hash_ip (ae_sha256 E) (af_salt f) (ab_client_ip r)) rep (f\<lparr>af_limiter := W\<rparr>) = (204, f')"
  using assms ab_read_report_ok(2)[of uni E p body]
  by (auto simp: ab_handle_def Let_def split: if_splits sum.splits prod.splits)

text \<open>The bounds on a report, and the fields that must be there.\<close>

definition report_sizes :: "(string \<Rightarrow> string) \<Rightarrow> string list \<Rightarrow> abuse_entry \<Rightarrow> bool" where
  "report_sizes uni req e \<longleftrightarrow>
     (en_Onion e = [] \<or> (\<exists>pre. to_lower uni (en_Onion e) = pre @ ''.onion'' \<and> 56 \<le> length pre \<and> length pre \<le> 58))
     \<and> length (en_Reason e) \<le> 2000 \<and> length (en_Contact e) \<le> 200 \<and> length (en_Details e) \<le> 4000
     \<and> (''onion'' \<in> set req \<longrightarrow> en_Onion e \<noteq> []) \<and> (''reason'' \<in> set req \<longrightarrow> en_Reason e \<noteq> [])
     \<and> (''contact'' \<in> set req \<longrightarrow> en_Contact e \<noteq> []) \<and> (''details'' \<in> set req \<longrightarrow> en_Details e \<noteq> [])"

text \<open>What is to be stored for a decoded report.\<close>

definition stored_entry :: "(string \<Rightarrow> string) \<Rightarrow> abuse_env \<Rightarrow> abuse_feature \<Rightarrow> http_request \<Rightarrow> time \<Rightarrow> abuse_report \<Rightarrow> abuse_entry" where
  "stored_entry uni E f r now rep =
     \<lparr>en_Timestamp = now, en_Tenant = (case hq_Tenant r of None \<Rightarrow> [] | Some t \<Rightarrow> to_lower uni (ts_Host t)),
      en_ClientIPHash = hex_encode (ae_sha256 E (ab_client_ip r @ af_salt f)),
      en_Onion = trim_space (rp_Onion rep), en_Reason = trim_space (rp_Reason rep), en_Contact = trim_space (rp_Contact rep), en_Details = rp_Details rep\<rparr>"

lemma validate_report_sizes:
  assumes "validate_report uni req (trim_report rep)"
  shows "report_sizes uni req (stored_entry uni E f r now rep)"
proof -
  have "\<exists>pre. s = pre @ ''.onion'' \<and> 56 \<le> length pre \<and> length pre \<le> 58"
    if "has_suffix s ''.onion''" "56 \<le> int (length s) - 6" "int (length s) - 6 \<le> 58" for s
    using that by (auto simp: has_suffix_def suffix_def)
  then show ?thesis
    using assms by (auto simp: validate_report_def trim_report_def report_sizes_def stored_entry_def Let_def maxOnionMin_def maxOnionMax_def maxReasonMax_def maxContactMax_def maxDetailsMax_def
        not_less split: if_splits)
qed

lemma ab_read_report_body:
  assumes "ab_read_report uni E p body = Inr rep"
  shows "\<exists>rep0. length (bd_bytes body) \<le> 32768 \<and> \<not> bd_err body \<and> ae_unmarshal E (bd_bytes body) = Some rep0 \<and> rep = trim_report rep0 \<and> validate_report uni (ap_requireFields p) rep"
  using assms by (auto simp: ab_read_report_def read_limited_def maxBodyBytes_def Let_def split: option.splits if_splits)

text \<open>
  C39 (safety). A report is answered with 204 only when the body, of at most 32 KiB, was read to its end and decoded, and the file, as it was, got exactly one line more: the JSON text of the decoded report with its fields trimmed, the
  tenant of the request and the client address only as salted digest. The onion address in it is empty or has 56 to 58 characters before its suffix, the reason at most 2000 bytes, the contact 200 and the details 4000, and every
  field that the tenant's snapshot requires is there. JSON texts are assumed to have no line breaks.
\<close>

theorem abuse_ack_stored:
  assumes "ab_serve uni E snap h0 r body f = (Some reply, f')" and "rl_status reply = 204" and "\<forall>e json. ae_marshal E e = Some json \<longrightarrow> CHR 0x0A \<notin> set json"
  shows "\<exists>old json now rep p. store_text f = Some old \<and> store_text f' = Some (old @ json @ [CHR 0x0A]) \<and> CHR 0x0A \<notin> set json
    \<and> length (bd_bytes body) \<le> 32768 \<and> \<not> bd_err body \<and> ae_unmarshal E (bd_bytes body) = Some rep
    \<and> ae_marshal E (stored_entry uni E f r now rep) = Some json
    \<and> ab_parse_params snap = Inr p \<and> report_sizes uni (ap_requireFields p) (stored_entry uni E f r now rep)"
proof (rule ab_serve_cases[OF assms(1)])
  let ?tenant = "case hq_Tenant r of None \<Rightarrow> [] | Some t \<Rightarrow> to_lower uni (ts_Host t)" and ?ip = "hash_ip (ae_sha256 E) (af_salt f) (ab_client_ip r)"
  fix p assume p: "ab_parse_params snap = Inr p" and h: "ab_handle uni E ?tenant p h0 r body f = (reply, f')"
  from ab_handle_204[OF h assms(2)] obtain rep W where rep: "ab_read_report uni E p body = Inr rep" and sub: "ab_submit E ?tenant ?ip rep (f\<lparr>af_limiter := W\<rparr>) = (204, f')"
    by blast
  obtain rep0 where body: "length (bd_bytes body) \<le> 32768" "\<not> bd_err body" "ae_unmarshal E (bd_bytes body) = Some rep0"
    and rep0: "rep = trim_report rep0" "validate_report uni (ap_requireFields p) (trim_report rep0)"
    using ab_read_report_body[OF rep] by auto
  have entry: "report_entry now ?tenant ?ip rep = stored_entry uni E f r now rep0" for now
    by (simp add: rep0(1) report_entry_def stored_entry_def trim_report_def hash_ip_def)
  obtain old json now where "store_text f = Some old" "store_text f' = Some (old @ json @ [CHR 0x0A])" "ae_marshal E (stored_entry uni E f r now rep0) = Some json"
    using ab_submit_ok[OF sub] by (auto simp: store_text_def entry)
  then show ?thesis using body p assms(3) validate_report_sizes[OF rep0(2)] by blast
qed

definition demo_ab_snap :: feature_snapshot where
  "demo_ab_snap = \<lparr>fs_Enabled = True, fs_Params = [''require_fields'' \<mapsto> VStrings []], fs_Version = 0\<rparr>"

definition demo_ab_params :: abuse_params where
  "demo_ab_params = \<lparr>ap_enabled = True, ap_path = ''/_abuse'', ap_storePath = [], ap_notifyEmail = [], ap_rateLimitPerHr = 10, ap_requireFields = []\<rparr>"

definition demo_ab_report :: abuse_report where
  "demo_ab_report = \<lparr>rp_Onion = [], rp_Reason = [], rp_Contact = [], rp_Details = ''d''\<rparr>"

definition demo_ab_env :: abuse_env where
  "demo_ab_env = \<lparr>ae_sha256 = id, ae_unmarshal = (\<lambda>_. Some demo_ab_report), ae_marshal = (\<lambda>e. Some (filter (\<lambda>c. c \<noteq> CHR 0x0A) (en_Details e))), ae_now = 0, ae_entry_now = 0, ae_store_now = 0, ae_written = None\<rparr>"

definition demo_ab_request :: http_request where
  "demo_ab_request = \<lparr>hq_Method = ''POST'', hq_Host = ''a'', hq_Path = ''/_abuse'', hq_RawQuery = [], hq_Header = [], hq_RemoteAddr = ''1.2.3.4:5'', hq_Tenant = None\<rparr>"

definition demo_ab_body :: request_body where
  "demo_ab_body = \<lparr>bd_bytes = ''x'', bd_err = False\<rparr>"

definition demo_ab_feature :: abuse_feature where
  "demo_ab_feature = \<lparr>af_enabled = True, af_tenantCfg = [], af_store = Some \<lparr>as_path = ''p'', as_f = Some []\<rparr>, af_limiter = Map.empty, af_salt = ''s''\<rparr>"

lemma demo_ab_parse: "ab_parse_params demo_ab_snap = Inr demo_ab_params"
  by (simp add: ab_parse_params_def demo_ab_snap_def ab_param_def ab_parse_fields_def ab_as_string_slice_def hd_as_string_slice_def demo_ab_params_def ab_defaultPath_def ab_defaultRateLimit_def Let_def)

lemma demo_ab_read: "ab_read_report id demo_ab_env demo_ab_params demo_ab_body = Inr demo_ab_report"
proof -
  have "trim_space [] = []" by (rule trim_space_visible) simp
  then show ?thesis
    by (simp add: ab_read_report_def read_limited_def demo_ab_body_def maxBodyBytes_def demo_ab_env_def demo_ab_params_def trim_report_def demo_ab_report_def validate_report_def maxContactMax_def maxDetailsMax_def)
qed

theorem abuse_ack_stored_witness:
  "\<exists>reply f'. ab_serve id demo_ab_env demo_ab_snap [] demo_ab_request demo_ab_body demo_ab_feature = (Some reply, f') \<and> rl_status reply = 204
    \<and> (\<exists>old json. store_text demo_ab_feature = Some old \<and> store_text f' = Some (old @ json @ [CHR 0x0A]) \<and> CHR 0x0A \<notin> set json)"
proof -
  have "fst (fst (abuse_check [] (hash_ip (ae_sha256 demo_ab_env) (af_salt demo_ab_feature) (ab_client_ip demo_ab_request)) 10 (ae_now demo_ab_env) (af_limiter demo_ab_feature)))"
    by (simp add: abuse_check_def demo_ab_feature_def)
  then have "\<exists>reply f'. ab_serve id demo_ab_env demo_ab_snap [] demo_ab_request demo_ab_body demo_ab_feature = (Some reply, f') \<and> rl_status reply = 204"
    using demo_ab_parse demo_ab_read
    by (auto simp: ab_serve_def ab_handle_def ab_submit_def abuse_append_def Let_def demo_ab_snap_def demo_ab_params_def demo_ab_request_def demo_ab_feature_def demo_ab_env_def split: prod.splits)
  then obtain reply f' where served: "ab_serve id demo_ab_env demo_ab_snap [] demo_ab_request demo_ab_body demo_ab_feature = (Some reply, f')" "rl_status reply = 204" by blast
  have "\<forall>e json. ae_marshal demo_ab_env e = Some json \<longrightarrow> CHR 0x0A \<notin> set json" by (auto simp: demo_ab_env_def)
  from abuse_ack_stored[OF served this] show ?thesis using served by blast
qed

subsection \<open>The proxy server has no store\<close>

text \<open>What happens to the feature in the proxy server: reloads, requests and, in the end, \<^verbatim>\<open>Close\<close>; nothing calls \<^verbatim>\<open>SetStore\<close>.\<close>

datatype abuse_op =
    AReload globals_snapshot "(string \<times> tenant_snapshot) list"
  | ARequest abuse_env feature_snapshot header http_request request_body
  | AClose

fun abuse_step :: "(string \<Rightarrow> string) \<Rightarrow> abuse_op \<Rightarrow> abuse_feature \<Rightarrow> abuse_feature" where
  "abuse_step uni (AReload globals tenants) f = ab_observe uni globals tenants f"
| "abuse_step uni (ARequest E snap h0 r body) f = snd (ab_serve uni E snap h0 r body f)"
| "abuse_step uni AClose f = abuse_close f"

lemma ab_serve_no_store: "af_store f = None \<Longrightarrow> af_store (snd (ab_serve uni E snap h0 r body f)) = None"
  by (auto simp: ab_serve_def ab_handle_def ab_submit_def Let_def split: if_splits sum.splits prod.splits)

text \<open>
  With the feature as the proxy server creates it, without a store, no report is ever accepted: after any reloads and requests, a report that passes the method, rate and body checks on the configured path is
  answered with 500, whatever \<^verbatim>\<open>store_path\<close> the configuration has.
\<close>

theorem abuse_wired_reports_lost:
  assumes "new_abuse_feature opn random [] = Some f0" and "f = fold (abuse_step uni) ops f0"
    and "af_enabled f" and "fs_Enabled snap" and "ab_parse_params snap = Inr p" and "hq_Path r = ap_path p" and "hq_Method r = ''POST''"
    and "ab_read_report uni E p body = Inr rep"
  shows "\<exists>reply. fst (ab_serve uni E snap h0 r body f) = Some reply \<and> rl_status reply \<in> {429, 500}"
proof -
  have "af_store (abuse_step uni x g) = None" if "af_store g = None" for x g
    using that ab_serve_no_store by (cases x) (simp_all add: ab_observe_def abuse_close_def split_beta Let_def)
  then have "af_store (fold (abuse_step uni) ops g) = None" if "af_store g = None" for g
    using that by (induction ops arbitrary: g) simp_all
  moreover have "af_store f0 = None" using assms(1) by (auto simp: new_abuse_feature_def Let_def split: option.splits)
  ultimately have "af_store f = None" using assms(2) by simp
  moreover have "ap_enabled p" using assms(4,5) unfolding ab_parse_params_def Let_def or_error_Inr by (elim exE conjE) (drule Inr_inject, hypsubst, simp)
  ultimately show ?thesis
    using assms(3-8) by (auto simp: ab_serve_def ab_handle_def ab_submit_def Let_def split: prod.splits)
qed

theorem abuse_wired_reports_lost_witness:
  "\<exists>reply. fst (ab_serve id demo_ab_env demo_ab_snap [] demo_ab_request demo_ab_body
     (fold (abuse_step id) [AReload [ab_FeatureName \<mapsto> demo_ab_snap] []] \<lparr>af_enabled = False, af_tenantCfg = [], af_store = None, af_limiter = Map.empty, af_salt = ''s''\<rparr>)) = Some reply
     \<and> rl_status reply \<in> {429, 500}"
proof (rule abuse_wired_reports_lost[OF _ refl _ _ demo_ab_parse _ _ demo_ab_read])
  show "new_abuse_feature (\<lambda>_. None) (Some ''s'') [] = Some \<lparr>af_enabled = False, af_tenantCfg = [], af_store = None, af_limiter = Map.empty, af_salt = ''s''\<rparr>"
    by (simp add: new_abuse_feature_def)
  show "af_enabled (fold (abuse_step id) [AReload [ab_FeatureName \<mapsto> demo_ab_snap] []] \<lparr>af_enabled = False, af_tenantCfg = [], af_store = None, af_limiter = Map.empty, af_salt = ''s''\<rparr>)"
    by (simp add: ab_observe_def demo_ab_parse) (simp add: demo_ab_params_def)
qed (simp_all add: demo_ab_snap_def demo_ab_request_def demo_ab_params_def)

interpretation abuse_contract: feature_contract ab_validate
  by unfold_locales (simp add: ab_validate_def)

end
