(* ===== verification/Sanitize.thy ===== *)
theory Sanitize
  imports Headers
begin

text \<open>
  The \<^verbatim>\<open>content_sanitizer\<close> feature, \<^verbatim>\<open>internal/feature/sanitize/sanitize.go\<close>, over the scheme of theory \<open>Tenantrules\<close> and the response writer of theory \<open>Headers\<close>. The HTML tokenizer, \<^verbatim>\<open>html.EscapeString\<close> and
  \<^verbatim>\<open>mime.ParseMediaType\<close> are the parameter \<open>html_lib\<close>; a token carries what the code asks the tokenizer for. The set of tag names is a list.
\<close>

subsection \<open>Policies\<close>

definition sa_FeatureName :: string where "sa_FeatureName = ''content_sanitizer''"
definition sa_defaultMaxBody :: int where "sa_defaultMaxBody = 8 * 1024 * 1024"

definition defaultStripTags :: "string list" where
  "defaultStripTags = [''script'', ''object'', ''embed'', ''iframe'', ''link'', ''meta'', ''form'', ''input'']"

definition defaultStripAttrPatterns :: "string list" where
  "defaultStripAttrPatterns = [''onclick'', ''onload'', ''onerror'', ''javascript:'']"

definition defaultContentTypes :: "string list" where "defaultContentTypes = [''text/html'']"

definition voidElements :: "string list" where
  "voidElements = [''area'', ''base'', ''br'', ''col'', ''embed'', ''hr'', ''img'', ''input'', ''link'', ''meta'', ''param'', ''source'', ''track'', ''wbr'', ''keygen'', ''command'']"

definition is_void :: "string \<Rightarrow> bool" where
  "is_void name \<longleftrightarrow> name \<in> set voidElements"

datatype html_token =
    TokText string
  | TokComment string
  | TokDoctype string
  | TokStart string "(string \<times> string) list"
  | TokSelf string "(string \<times> string) list"
  | TokEnd string string

text \<open>The tokens before the error token, and whether that is the end of the input.\<close>

record html_lib =
  hl_tokens :: "string \<Rightarrow> html_token list \<times> bool"
  hl_escape :: "string \<Rightarrow> string"
  hl_media_type :: "string \<Rightarrow> string option"

record policy =
  po_enabled :: bool
  po_stripTags :: "string list"
  po_stripAttrs :: "string list"
  po_contentTypes :: "string list"
  po_maxBody :: int

definition matches_content_type :: "(string \<Rightarrow> string) \<Rightarrow> html_lib \<Rightarrow> policy \<Rightarrow> string \<Rightarrow> bool" where
  "matches_content_type uni H p ct =
     (if po_contentTypes p = [] then False
      else
        (let mediaType = (case hl_media_type H ct of
               None \<Rightarrow> to_lower uni (trim_space (hd (splitN 2 CHR '';'' ct)))
             | Some mt \<Rightarrow> to_lower uni mt)
         in if mediaType = [] then False else list_ex (\<lambda>want. mediaType = want \<or> has_prefix mediaType want) (po_contentTypes p)))"

definition should_strip_tag :: "policy \<Rightarrow> string \<Rightarrow> bool" where
  "should_strip_tag p name \<longleftrightarrow> name \<in> set (po_stripTags p)"

definition should_strip_attr :: "policy \<Rightarrow> string \<Rightarrow> string \<Rightarrow> bool" where
  "should_strip_attr p key val = list_ex (\<lambda>pat. pat \<noteq> [] \<and> (key = pat \<or> val \<noteq> [] \<and> contains_str val pat)) (po_stripAttrs p)"

fun sa_strings :: "any_val list \<Rightarrow> string list option" where
  "sa_strings [] = Some []"
| "sa_strings (VString s # vs) = map_option (Cons s) (sa_strings vs)"
| "sa_strings (_ # vs) = None"

definition as_string_list :: "(string \<rightharpoonup> any_val) \<Rightarrow> string \<Rightarrow> string list \<Rightarrow> string + string list" where
  "as_string_list ps key def =
     (case ps key of
        None \<Rightarrow> Inr def
      | Some VNil \<Rightarrow> Inr []
      | Some (VStrings ss) \<Rightarrow> Inr ss
      | Some (VList vs) \<Rightarrow> (case sa_strings vs of None \<Rightarrow> Inl key | Some ss \<Rightarrow> Inr ss)
      | Some _ \<Rightarrow> Inl key)"

definition as_int64 :: "(string \<rightharpoonup> any_val) \<Rightarrow> string \<Rightarrow> int \<Rightarrow> string + int" where
  "as_int64 ps key def =
     (case ps key of
        None \<Rightarrow> Inr def
      | Some VNil \<Rightarrow> Inr def
      | Some v \<Rightarrow> (case bl_as_int v of None \<Rightarrow> Inl key | Some n \<Rightarrow> Inr n))"

definition normalised :: "(string \<Rightarrow> string) \<Rightarrow> string list \<Rightarrow> string list" where
  "normalised uni ss = filter (\<lambda>s. s \<noteq> []) (map (\<lambda>s. to_lower uni (trim_space s)) ss)"

definition sa_compile_cfg :: "(string \<Rightarrow> string) \<Rightarrow> feature_snapshot \<Rightarrow> string + policy option" where
  "sa_compile_cfg uni cfg =
     (if \<not> fs_Enabled cfg \<and> fs_Params cfg = Map.empty then Inr None
      else
        or_error (as_string_list (fs_Params cfg) ''strip_tags'' defaultStripTags) (\<lambda>tags.
        or_error (as_string_list (fs_Params cfg) ''strip_attributes'' defaultStripAttrPatterns) (\<lambda>attrs.
        or_error (as_string_list (fs_Params cfg) ''content_types'' defaultContentTypes) (\<lambda>cts.
        or_error (as_int64 (fs_Params cfg) ''max_body_bytes'' sa_defaultMaxBody) (\<lambda>maxBody.
          Inr (Some \<lparr>po_enabled = fs_Enabled cfg, po_stripTags = normalised uni tags, po_stripAttrs = normalised uni attrs, po_contentTypes = normalised uni cts, po_maxBody = maxBody\<rparr>))))))"

definition sa_validate :: "(string \<Rightarrow> string) \<Rightarrow> feature_snapshot \<Rightarrow> string option" where
  "sa_validate uni cfg =
     (if \<not> fs_Enabled cfg \<and> fs_Params cfg = Map.empty then None
      else (case sa_compile_cfg uni cfg of Inl e \<Rightarrow> Some e | Inr _ \<Rightarrow> None))"

definition sa_observe :: "(string \<Rightarrow> string) \<Rightarrow> globals_snapshot \<Rightarrow> (string \<times> tenant_snapshot) list \<Rightarrow> policy rule_feature" where
  "sa_observe uni globals tenants = rules_observe uni (sa_compile_cfg uni) sa_FeatureName globals tenants"

definition policy_for :: "(string \<Rightarrow> string) \<Rightarrow> policy rule_feature \<Rightarrow> http_request \<Rightarrow> policy option" where
  "policy_for uni f r =
     (case hq_Tenant r of
        Some t \<Rightarrow>
          if ts_Host t \<noteq> [] \<and> map_of (rf_compiled f) (to_lower uni (ts_Host t)) \<noteq> None then map_of (rf_compiled f) (to_lower uni (ts_Host t))
          else map_of (rf_compiled f) global_rules_key
      | None \<Rightarrow> map_of (rf_compiled f) global_rules_key)"

subsection \<open>Rewriting\<close>

definition write_attr :: "html_lib \<Rightarrow> string \<times> string \<Rightarrow> string" where
  "write_attr H kv = '' '' @ fst kv @ ''=\"'' @ hl_escape H (snd kv) @ ''\"''"

definition keep_attrs :: "(string \<Rightarrow> string) \<Rightarrow> policy \<Rightarrow> (string \<times> string) list \<Rightarrow> (string \<times> string) list" where
  "keep_attrs uni p attrs = filter (\<lambda>(k, v). \<not> should_strip_attr p (to_lower uni k) (to_lower uni v)) attrs"

text \<open>A token as it is written.\<close>

fun write_token :: "html_lib \<Rightarrow> html_token \<Rightarrow> string" where
  "write_token H (TokText raw) = raw"
| "write_token H (TokComment raw) = raw"
| "write_token H (TokDoctype raw) = raw"
| "write_token H (TokStart name attrs) = ''<'' @ name @ concat (map (write_attr H) attrs) @ ''>''"
| "write_token H (TokSelf name attrs) = ''<'' @ name @ concat (map (write_attr H) attrs) @ ''/>''"
| "write_token H (TokEnd name raw) = raw"

text \<open>One turn of the loop: the token that is written, if any, and the stack of stripped elements, the innermost at the head.\<close>

fun strip_step :: "(string \<Rightarrow> string) \<Rightarrow> policy \<Rightarrow> html_token \<Rightarrow> string list \<Rightarrow> html_token option \<times> string list" where
  "strip_step uni p tok (cur # stack) =
     (case tok of
        TokStart name attrs \<Rightarrow> (let n = to_lower uni name in (None, if \<not> is_void n \<and> n = cur then n # cur # stack else cur # stack))
      | TokEnd name raw \<Rightarrow> (None, if to_lower uni name = cur then stack else cur # stack)
      | _ \<Rightarrow> (None, cur # stack))"
| "strip_step uni p tok [] =
     (case tok of
        TokStart name attrs \<Rightarrow>
          (let n = to_lower uni name
           in if should_strip_tag p n then (None, if \<not> is_void n then [n] else []) else (Some (TokStart name (keep_attrs uni p attrs)), []))
      | TokSelf name attrs \<Rightarrow>
          (if should_strip_tag p (to_lower uni name) then (None, []) else (Some (TokSelf name (keep_attrs uni p attrs)), []))
      | _ \<Rightarrow> (Some tok, []))"

fun strip_tokens :: "(string \<Rightarrow> string) \<Rightarrow> policy \<Rightarrow> string list \<Rightarrow> html_token list \<Rightarrow> html_token list" where
  "strip_tokens uni p stack [] = []"
| "strip_tokens uni p stack (tok # toks) =
     (case strip_step uni p tok stack of
        (None, stack') \<Rightarrow> strip_tokens uni p stack' toks
      | (Some t, stack') \<Rightarrow> t # strip_tokens uni p stack' toks)"

definition sanitize_html :: "(string \<Rightarrow> string) \<Rightarrow> html_lib \<Rightarrow> policy \<Rightarrow> string \<Rightarrow> string option" where
  "sanitize_html uni H p body =
     (case hl_tokens H body of
        (toks, eof) \<Rightarrow> if eof then Some (concat (map (write_token H) (strip_tokens uni p [] toks))) else None)"

subsection \<open>Recording and replaying\<close>

record sa_recorder =
  sr_header :: header
  sr_buf :: string
  sr_status :: int
  sr_wroteHdr :: bool
  sr_maxBody :: int
  sr_totalBytes :: int
  sr_overflowed :: bool
  sr_method :: string

definition new_recorder_with :: "string \<Rightarrow> int \<Rightarrow> sa_recorder" where
  "new_recorder_with meth maxBody =
     \<lparr>sr_header = [], sr_buf = [], sr_status = 0, sr_wroteHdr = False, sr_maxBody = maxBody, sr_totalBytes = 0, sr_overflowed = False, sr_method = meth\<rparr>"

definition sr_write_header :: "int \<Rightarrow> sa_recorder \<Rightarrow> sa_recorder" where
  "sr_write_header code rec = (if sr_wroteHdr rec then rec else rec\<lparr>sr_wroteHdr := True, sr_status := code\<rparr>)"

definition sr_write :: "string \<Rightarrow> sa_recorder \<Rightarrow> sa_recorder" where
  "sr_write b rec0 =
     (let rec1 = (if \<not> sr_wroteHdr rec0 then sr_write_header 200 rec0 else rec0);
          n = int (length b);
          rec = rec1\<lparr>sr_totalBytes := sr_totalBytes rec1 + n\<rparr>;
          remaining = sr_maxBody rec - int (length (sr_buf rec))
      in if sr_maxBody rec > 0 \<and> remaining \<le> 0 then rec\<lparr>sr_overflowed := True\<rparr>
         else if sr_maxBody rec > 0 \<and> n > remaining then rec\<lparr>sr_buf := sr_buf rec @ take (nat remaining) b, sr_overflowed := True\<rparr>
         else rec\<lparr>sr_buf := sr_buf rec @ b\<rparr>)"

fun sr_call :: "writer_call \<Rightarrow> sa_recorder \<Rightarrow> sa_recorder" where
  "sr_call (CSet k v) rec = rec\<lparr>sr_header := hdr_set k v (sr_header rec)\<rparr>"
| "sr_call (CAdd k v) rec = rec\<lparr>sr_header := hdr_add k v (sr_header rec)\<rparr>"
| "sr_call (CDel k) rec = rec\<lparr>sr_header := hdr_del k (sr_header rec)\<rparr>"
| "sr_call (CWriteHeader code) rec = sr_write_header code rec"
| "sr_call (CWrite b) rec = sr_write b rec"

definition put_all :: "header \<Rightarrow> header \<Rightarrow> header" where
  "put_all src dst = fold (\<lambda>(k, vs). alist_put k vs) src dst"

definition sa_finish :: "(string \<Rightarrow> string) \<Rightarrow> html_lib \<Rightarrow> policy \<Rightarrow> sa_recorder \<Rightarrow> http_writer \<Rightarrow> http_writer" where
  "sa_finish uni H pol rec w =
     (let sanitize = (matches_content_type uni H pol (hdr_get (sr_header rec) ''Content-Type'') \<and> \<not> sr_overflowed rec);
          result = (if sanitize then sanitize_html uni H pol (sr_buf rec) else None);
          body = (case result of Some out \<Rightarrow> out | None \<Rightarrow> sr_buf rec);
          header = (if result \<noteq> None then hdr_del ''Content-Length'' (sr_header rec) else sr_header rec);
          status = (if sr_status rec = 0 then 200 else sr_status rec);
          w1 = hw_write_header status (w\<lparr>hw_header := put_all header (hw_header w)\<rparr>)
      in if body \<noteq> [] \<and> sr_method rec \<noteq> ''HEAD'' then hw_write body w1 else w1)"

text \<open>The middleware around a handler, up to what the server has sent in the end.\<close>

definition sa_serve :: "(string \<Rightarrow> string) \<Rightarrow> html_lib \<Rightarrow> policy rule_feature \<Rightarrow> feature_snapshot \<Rightarrow> writer_call list \<Rightarrow> http_request \<Rightarrow> http_writer \<Rightarrow> http_writer" where
  "sa_serve uni H f snap calls r w =
     hw_finish
       (if \<not> rf_enabled f then fold hw_call calls w
        else if \<not> fs_Enabled snap then fold hw_call calls w
        else
          (case policy_for uni f r of
             None \<Rightarrow> fold hw_call calls w
           | Some pol \<Rightarrow>
               if \<not> po_enabled pol then fold hw_call calls w
               else sa_finish uni H pol (fold sr_call calls (new_recorder_with (hq_Method r) (po_maxBody pol))) w))"

subsection \<open>The rewriting loop\<close>

text \<open>
  The reference: an element to be stripped is dropped as a whole, up to the end tag that balances it, counting only start and end tags of its own name; there is no stack.
\<close>

definition tag_forbidden :: "(string \<Rightarrow> string) \<Rightarrow> policy \<Rightarrow> string \<Rightarrow> bool" where
  "tag_forbidden uni p name \<longleftrightarrow> to_lower uni name \<in> set (po_stripTags p)"

definition attr_forbidden :: "(string \<Rightarrow> string) \<Rightarrow> policy \<Rightarrow> string \<times> string \<Rightarrow> bool" where
  "attr_forbidden uni p kv \<longleftrightarrow>
     list_ex (\<lambda>pat. pat \<noteq> [] \<and> (to_lower uni (fst kv) = pat \<or> sublist pat (to_lower uni (snd kv)))) (po_stripAttrs p)"

fun skip_element :: "(string \<Rightarrow> string) \<Rightarrow> string \<Rightarrow> nat \<Rightarrow> html_token list \<Rightarrow> html_token list" where
  "skip_element uni n depth [] = []"
| "skip_element uni n depth (TokStart name attrs # toks) = skip_element uni n (if to_lower uni name = n then Suc depth else depth) toks"
| "skip_element uni n depth (TokEnd name raw # toks) =
     (if to_lower uni name = n then (if depth = 0 then toks else skip_element uni n (depth - 1) toks) else skip_element uni n depth toks)"
| "skip_element uni n depth (tok # toks) = skip_element uni n depth toks"

lemma skip_element_length: "length (skip_element uni n depth toks) \<le> length toks"
  by (induction uni n depth toks rule: skip_element.induct) auto

function strip_spec :: "(string \<Rightarrow> string) \<Rightarrow> policy \<Rightarrow> html_token list \<Rightarrow> html_token list" where
  "strip_spec uni p [] = []"
| "strip_spec uni p (TokStart name attrs # toks) =
     (let n = to_lower uni name
      in if tag_forbidden uni p name then strip_spec uni p (if is_void n then toks else skip_element uni n 0 toks)
         else TokStart name (filter (\<lambda>a. \<not> attr_forbidden uni p a) attrs) # strip_spec uni p toks)"
| "strip_spec uni p (TokSelf name attrs # toks) =
     (if tag_forbidden uni p name then strip_spec uni p toks else TokSelf name (filter (\<lambda>a. \<not> attr_forbidden uni p a) attrs) # strip_spec uni p toks)"
| "strip_spec uni p (TokEnd name raw # toks) = TokEnd name raw # strip_spec uni p toks"
| "strip_spec uni p (TokText raw # toks) = TokText raw # strip_spec uni p toks"
| "strip_spec uni p (TokComment raw # toks) = TokComment raw # strip_spec uni p toks"
| "strip_spec uni p (TokDoctype raw # toks) = TokDoctype raw # strip_spec uni p toks"
  by pat_completeness auto
termination
  by (relation "measure (\<lambda>(uni, p, toks). length toks)") (auto simp: less_Suc_eq_le skip_element_length)

lemma strip_tokens_skip:
  assumes "\<not> is_void n"
  shows "strip_tokens uni p (replicate (Suc depth) n) toks = strip_tokens uni p [] (skip_element uni n depth toks)"
  using assms
proof (induction uni n depth toks rule: skip_element.induct)
  case (2 uni n depth name attrs toks)
  then show ?case by (cases "to_lower uni name = n") simp_all
qed simp_all

lemma keep_attrs_spec: "keep_attrs uni p attrs = filter (\<lambda>a. \<not> attr_forbidden uni p a) attrs"
  by (auto simp: keep_attrs_def should_strip_attr_def attr_forbidden_def list_ex_iff contains_str_def intro!: filter_cong)

lemma strip_tokens_eq: "strip_tokens uni p [] toks = strip_spec uni p toks"
proof (induction uni p toks rule: strip_spec.induct)
  case (2 uni p name attrs toks)
  then show ?case using strip_tokens_skip[of "to_lower uni name" uni p 0 toks]
    by (cases "is_void (to_lower uni name)") (simp_all add: Let_def keep_attrs_spec should_strip_tag_def tag_forbidden_def)
qed (simp_all add: keep_attrs_spec should_strip_tag_def tag_forbidden_def)

text \<open>
  C35 (equivalence). The loop with its stack of open stripped elements writes exactly the tokens that the reference keeps, on every list of tokens.
\<close>

theorem strip_tokens_spec: "strip_tokens uni p [] toks = strip_spec uni p toks"
  by (rule strip_tokens_eq)

text \<open>A tag that the policy admits; other tokens are written as the page has them.\<close>

fun token_clean :: "(string \<Rightarrow> string) \<Rightarrow> policy \<Rightarrow> html_token \<Rightarrow> bool" where
  "token_clean uni p (TokStart name attrs) \<longleftrightarrow> \<not> tag_forbidden uni p name \<and> list_all (\<lambda>a. \<not> attr_forbidden uni p a) attrs"
| "token_clean uni p (TokSelf name attrs) \<longleftrightarrow> \<not> tag_forbidden uni p name \<and> list_all (\<lambda>a. \<not> attr_forbidden uni p a) attrs"
| "token_clean uni p _ \<longleftrightarrow> True"

lemma strip_spec_clean: "list_all (token_clean uni p) (strip_spec uni p toks)"
  by (induction uni p toks rule: strip_spec.induct) (simp_all add: Let_def list_all_iff)

subsection \<open>The middleware\<close>

interpretation sanitize_rules: compiled_feature "sa_compile_cfg uni" "sa_validate uni" for uni
proof
  fix cfg assume "sa_validate uni cfg = None"
  then show "\<exists>r. sa_compile_cfg uni cfg = Inr r"
    by (cases "\<not> fs_Enabled cfg \<and> fs_Params cfg = Map.empty") (auto simp: sa_validate_def sa_compile_cfg_def split: sum.splits if_splits)
next
  fix cfg assume "sa_compile_cfg uni cfg = Inr None"
  then show "\<not> fs_Enabled cfg" by (auto simp: sa_compile_cfg_def or_error_Inr split: if_splits)
qed

interpretation sanitize_contract: validated_feature "sa_validate uni" for uni
  by unfold_locales (simp add: sa_validate_def zero_snapshot_def)

lemma policy_for_rules: "policy_for uni f r = rules_for f (rules_key uni r)"
  by (auto simp: policy_for_def rules_for_def rules_key_def split: option.splits)

lemma sa_serve_rules:
  "sa_serve uni H f snap calls r w =
     hw_finish (case active_rules uni f snap r of
        None \<Rightarrow> fold hw_call calls w
      | Some pol \<Rightarrow> if \<not> po_enabled pol then fold hw_call calls w
          else sa_finish uni H pol (fold sr_call calls (new_recorder_with (hq_Method r) (po_maxBody pol))) w)"
  by (simp add: sa_serve_def active_rules_def policy_for_rules)

lemma sa_compile_enabled: "sa_compile_cfg uni cfg = Inr (Some pol) \<Longrightarrow> po_enabled pol = fs_Enabled cfg"
  unfolding sa_compile_cfg_def by (auto simp: or_error_Inr split: if_splits)

definition written :: "writer_call list \<Rightarrow> string" where
  "written calls = concat (map (\<lambda>c. case c of CWrite b \<Rightarrow> b | _ \<Rightarrow> []) calls)"

lemma written_simps [simp]: "written [] = []" "written (c # cs) = (case c of CWrite b \<Rightarrow> b | _ \<Rightarrow> []) @ written cs"
  by (simp_all add: written_def)

text \<open>A recorder whose cap is not reached keeps every byte.\<close>

lemma recorder_complete:
  assumes "sr_maxBody rec \<le> 0 \<or> int (length (sr_buf rec @ written calls)) < sr_maxBody rec"
  shows "sr_buf (fold sr_call calls rec) = sr_buf rec @ written calls \<and> sr_overflowed (fold sr_call calls rec) = sr_overflowed rec
    \<and> sr_method (fold sr_call calls rec) = sr_method rec"
  using assms
proof (induction calls arbitrary: rec)
  case (Cons c calls)
  have "sr_buf (sr_call c rec) = sr_buf rec @ (case c of CWrite b \<Rightarrow> b | _ \<Rightarrow> []) \<and> sr_overflowed (sr_call c rec) = sr_overflowed rec
      \<and> sr_maxBody (sr_call c rec) = sr_maxBody rec \<and> sr_method (sr_call c rec) = sr_method rec"
    using Cons.prems by (cases c) (auto simp: sr_write_header_def sr_write_def Let_def)
  then show ?case using Cons.IH[of "sr_call c rec"] Cons.prems by simp
qed simp

lemma hw_body_write: "hw_body (hw_finish (hw_write b w)) = hw_body w @ b" "hw_body (hw_finish w) = hw_body w" "hw_body (hw_write_header code w) = hw_body w"
  by (simp_all add: hw_defs)

definition demo_html :: html_lib where
  "demo_html = \<lparr>hl_tokens = (\<lambda>_. ([TokStart ''script'' [], TokText ''x'', TokEnd ''script'' ''</script>'', TokText ''y''], True)), hl_escape = id, hl_media_type = Some\<rparr>"

definition demo_sa_snap :: feature_snapshot where
  "demo_sa_snap = \<lparr>fs_Enabled = True, fs_Params = [''strip_tags'' \<mapsto> VStrings [''script''], ''strip_attributes'' \<mapsto> VStrings [], ''content_types'' \<mapsto> VStrings [''text/html''],
     ''max_body_bytes'' \<mapsto> VInt 99], fs_Version = 0\<rparr>"

definition demo_policy :: policy where
  "demo_policy = \<lparr>po_enabled = True, po_stripTags = [''script''], po_stripAttrs = [], po_contentTypes = [''text/html''], po_maxBody = 99\<rparr>"

definition demo_sa_feature :: "policy rule_feature" where
  "demo_sa_feature = \<lparr>rf_enabled = True, rf_compiled = [(global_rules_key, demo_policy\<lparr>po_maxBody := 1\<rparr>)]\<rparr>"

lemma demo_sa_compile: "sa_compile_cfg id demo_sa_snap = Inr (Some demo_policy)"
proof -
  have "trim_space ''script'' = ''script''" "trim_space ''text/html'' = ''text/html''" by (rule trim_space_visible, code_simp)+
  moreover have "to_lower id ''script'' = ''script''" "to_lower id ''text/html'' = ''text/html''" by code_simp+
  ultimately show ?thesis by (simp add: sa_compile_cfg_def demo_sa_snap_def as_string_list_def as_int64_def normalised_def demo_policy_def)
qed

lemma demo_sa_active: "active_rules id demo_sa_feature demo_sa_snap (plain_request ''/'') = Some (demo_policy\<lparr>po_maxBody := 1\<rparr>)"
  by (simp add: active_rules_def demo_sa_feature_def demo_sa_snap_def rules_for_def rules_key_def plain_request_def)

text \<open>
  C25 (safety). What a client gets of a page. After a validated reload, for a request of a tenant of the map or one without tenant, whose snapshot (the tenant's own as a whole, if it has one) is enabled and compiles to \<open>pol\<close>: a response of
  one of the policy's content types that stays below the cap and that the tokenizer cuts into \<open>toks\<close> is sent as the tokens that the reference keeps of \<open>toks\<close>, and nothing else. These are tags that the policy admits, without
  the attributes it forbids, and what stands outside of the elements to be stripped; and no start tag among them is a forbidden one.
\<close>

theorem sanitized_body_clean:
  assumes "tenant_keys_ok uni tenants" and "sa_validate uni (lookup_snapshot globals sa_FeatureName) = None"
    and "list_all (\<lambda>(h, t). \<forall>s. ts_Features t sa_FeatureName = Some s \<longrightarrow> sa_validate uni s = None) tenants"
    and "case hq_Tenant r of None \<Rightarrow> True | Some t \<Rightarrow> (ts_Host t, t) \<in> set tenants"
    and "snap = resolved globals sa_FeatureName (hq_Tenant r)" and "fs_Enabled snap" and "sa_compile_cfg uni snap = Inr (Some pol)"
    and "po_maxBody pol \<le> 0 \<or> int (length (written calls)) < po_maxBody pol" and "hq_Method r \<noteq> ''HEAD''"
    and "matches_content_type uni H pol (hdr_get (sr_header (fold sr_call calls (new_recorder_with (hq_Method r) (po_maxBody pol)))) ''Content-Type'')"
    and "hl_tokens H (written calls) = (toks, True)"
  shows "hw_body (sa_serve uni H (sa_observe uni globals tenants) snap calls r w) = hw_body w @ concat (map (write_token H) (strip_spec uni pol toks))
    \<and> list_all (token_clean uni pol) (strip_spec uni pol toks)"
proof -
  let ?rec = "fold sr_call calls (new_recorder_with (hq_Method r) (po_maxBody pol))" and ?ts = "strip_spec uni pol toks"
  have act: "active_rules uni (sa_observe uni globals tenants) snap r = Some pol"
    using sanitize_rules.active_rules_resolved[OF assms(1-4)] assms(5-7) by (simp add: sa_observe_def)
  have on: "po_enabled pol" using sa_compile_enabled[OF assms(7)] assms(6) by simp
  have rec: "sr_buf ?rec = written calls" "\<not> sr_overflowed ?rec" "sr_method ?rec \<noteq> ''HEAD''"
    using recorder_complete[of "new_recorder_with (hq_Method r) (po_maxBody pol)" calls] assms(8,9) by (simp_all add: new_recorder_with_def)
  have "sanitize_html uni H pol (sr_buf ?rec) = Some (concat (map (write_token H) ?ts))"
    by (simp only: rec(1) sanitize_html_def assms(11) prod.case if_True strip_tokens_eq)
  then have "hw_body (sa_finish uni H pol ?rec w) = hw_body w @ concat (map (write_token H) ?ts)"
    using rec(2,3) assms(10) by (simp add: sa_finish_def Let_def hw_write_def hw_body_write)
  then have "hw_body (sa_serve uni H (sa_observe uni globals tenants) snap calls r w) = hw_body w @ concat (map (write_token H) ?ts)"
    by (simp add: sa_serve_rules act on hw_body_write)
  then show ?thesis using strip_spec_clean by blast
qed

theorem sanitized_body_clean_witness:
  "hw_body (sa_serve id demo_html (sa_observe id [sa_FeatureName \<mapsto> demo_sa_snap] []) demo_sa_snap [CSet ''Content-Type'' ''text/html'', CWrite ''p''] (plain_request ''/'') demo_writer)
      = hw_body demo_writer @ concat (map (write_token demo_html) (strip_spec id demo_policy (fst (hl_tokens demo_html ''p''))))
    \<and> list_all (token_clean id demo_policy) (strip_spec id demo_policy (fst (hl_tokens demo_html ''p'')))"
proof (rule sanitized_body_clean[where globals = "[sa_FeatureName \<mapsto> demo_sa_snap]", OF _ _ _ _ _ _ demo_sa_compile])
  show "sa_validate id (lookup_snapshot [sa_FeatureName \<mapsto> demo_sa_snap] sa_FeatureName) = None" by (simp add: lookup_snapshot_def sa_validate_def demo_sa_compile)
  have "to_lower id ''text/html'' = ''text/html''" "canonical_key ''Content-Type'' = ''Content-Type''" by code_simp+
  then show "matches_content_type id demo_html demo_policy (hdr_get (sr_header (fold sr_call [CSet ''Content-Type'' ''text/html'', CWrite ''p''] (new_recorder_with (hq_Method (plain_request ''/'')) (po_maxBody demo_policy)))) ''Content-Type'')"
    by (simp add: matches_content_type_def demo_policy_def demo_html_def new_recorder_with_def sr_write_def sr_write_header_def hdr_get_def hdr_values_set)
qed (simp_all add: tenant_keys_ok_def plain_request_def resolved_def lookup_snapshot_def demo_sa_snap_def demo_policy_def demo_html_def)












text \<open>A final status that follows an informational one is lost: the client gets 200.\<close>

theorem status_lost_after_informational:
  assumes "active_rules uni f snap r = Some pol" and "po_enabled pol" and "hw_sent w = None"
  shows "map_option fst (hw_sent (sa_serve uni H f snap [CWriteHeader 103, CWriteHeader code] r w)) = Some 200"
proof -
  have "sr_status (fold sr_call [CWriteHeader 103, CWriteHeader code] (new_recorder_with (hq_Method r) (po_maxBody pol))) = 103"
    by (simp add: sr_write_header_def new_recorder_with_def)
  then show ?thesis using assms by (simp add: sa_serve_rules sa_finish_def hw_defs)
qed

theorem status_lost_after_informational_witness:
  "map_option fst (hw_sent (sa_serve id demo_html demo_sa_feature demo_sa_snap [CWriteHeader 103, CWriteHeader 404] (plain_request ''/'') demo_writer)) = Some 200"
  by (rule status_lost_after_informational[OF demo_sa_active]) (simp_all add: demo_policy_def demo_writer_def)

end
