(* ===== verification/Geoip.thy ===== *)
theory Geoip
  imports Tenantrules "HOL-Library.Multiset"
begin

text \<open>
  The \<^verbatim>\<open>geoip\<close> feature, \<^verbatim>\<open>internal/feature/geoip/geoip.go\<close>, and its wiring in \<^verbatim>\<open>internal/proxy/server.go\<close>. The database library and \<^verbatim>\<open>net.ParseIP\<close> are the parameter \<open>geo_lib\<close>; what
  opening a file gives at a reload is an argument of that reload, and what \<^verbatim>\<open>os.Stat\<close> says an argument of the validation. A successful open gives a reader, so a handle always has one. Readers opened and
  closed are events, in the order in which they happen. The set of blocked countries is a list; only membership and emptiness are asked of it.
\<close>

subsection \<open>Rules\<close>

definition geo_FeatureName :: string where "geo_FeatureName = ''geoip''"
definition geo_defaultAction :: string where "geo_defaultAction = BlockActionNotFound"

record ('ip, 'db) geo_lib =
  gl_ParseIP :: "string \<Rightarrow> 'ip option"
  gl_Lookup :: "'db \<Rightarrow> 'ip \<Rightarrow> string option"

type_synonym 'ip lookup_func = "'ip \<Rightarrow> string option"

record 'ip geo_rule =
  gr_enabled :: bool
  gr_dbPath :: string
  gr_blocked :: "string list"
  gr_action :: string
  gr_trustXFF :: bool
  gr_lookup :: "'ip lookup_func option"

text \<open>Upper-casing comes after the length check; all runes are letters exactly when all bytes are.\<close>

definition add_country :: "(string \<Rightarrow> string) \<Rightarrow> string list \<Rightarrow> string \<Rightarrow> string list option" where
  "add_country uni dst code =
     (let c = trim_space code in
      if length c \<noteq> 2 then None
      else
        (let upper = to_upper uni c
         in if list_ex (\<lambda>b. (of_char b :: nat) < 65 \<or> (of_char b :: nat) > 90) upper then None else Some (List.insert upper dst)))"

fun add_countries :: "(string \<Rightarrow> string) \<Rightarrow> string list \<Rightarrow> string list \<Rightarrow> string list option" where
  "add_countries uni dst [] = Some dst"
| "add_countries uni dst (c # cs) = (case add_country uni dst c of None \<Rightarrow> None | Some dst' \<Rightarrow> add_countries uni dst' cs)"

fun add_country_values :: "(string \<Rightarrow> string) \<Rightarrow> string list \<Rightarrow> any_val list \<Rightarrow> string list option" where
  "add_country_values uni dst [] = Some dst"
| "add_country_values uni dst (VString c # cs) = (case add_country uni dst c of None \<Rightarrow> None | Some dst' \<Rightarrow> add_country_values uni dst' cs)"
| "add_country_values uni dst (_ # cs) = None"

definition geo_disabled_rule :: "'ip geo_rule" where
  "geo_disabled_rule = \<lparr>gr_enabled = False, gr_dbPath = [], gr_blocked = [], gr_action = geo_defaultAction, gr_trustXFF = False, gr_lookup = None\<rparr>"

definition parse_geo_rule :: "(string \<Rightarrow> string) \<Rightarrow> feature_snapshot \<Rightarrow> string + 'ip geo_rule" where
  "parse_geo_rule uni cfg =
     (let ps = fs_Params cfg;
          dbPath = (case ps ''db_path'' of Some (VString v) \<Rightarrow> trim_space v | _ \<Rightarrow> []);
          trustXFF = (case ps ''trust_xff'' of Some (VBool v) \<Rightarrow> v | _ \<Rightarrow> False)
      in or_error (case ps ''action'' of
             Some (VString v) \<Rightarrow> if block_action_is_valid (trim_space v) then Inr (trim_space v) else Inl ''action''
           | _ \<Rightarrow> Inr geo_defaultAction) (\<lambda>action.
         or_error (case ps ''block_countries'' of
             None \<Rightarrow> Inr []
           | Some (VStrings cs) \<Rightarrow> (case add_countries uni [] cs of None \<Rightarrow> Inl ''block_countries'' | Some b \<Rightarrow> Inr b)
           | Some (VList vs) \<Rightarrow> (case add_country_values uni [] vs of None \<Rightarrow> Inl ''block_countries'' | Some b \<Rightarrow> Inr b)
           | Some _ \<Rightarrow> Inl ''block_countries'') (\<lambda>blocked.
         Inr \<lparr>gr_enabled = fs_Enabled cfg, gr_dbPath = dbPath, gr_blocked = blocked, gr_action = action, gr_trustXFF = trustXFF, gr_lookup = None\<rparr>)))"

definition geo_must_parse :: "(string \<Rightarrow> string) \<Rightarrow> feature_snapshot \<Rightarrow> 'ip geo_rule" where
  "geo_must_parse uni cfg = (case parse_geo_rule uni cfg of Inl e \<Rightarrow> geo_disabled_rule | Inr r \<Rightarrow> r)"

subsection \<open>State\<close>

record 'db reader_handle =
  rh_reader :: 'db
  rh_refs :: nat

record ('ip, 'db) geo_feature =
  gf_enabled :: bool
  gf_readers :: "(string \<times> 'db reader_handle) list"
  gf_tenantRules :: "(string \<times> 'ip geo_rule) list"
  gf_globalRule :: "'ip geo_rule"
  gf_testLookups :: "string \<rightharpoonup> 'ip lookup_func"

text \<open>The zero value of a rule, which the feature has before the first reload, is disabled and has the empty action.\<close>

definition new_geo_feature :: "('ip, 'db) geo_feature" where
  "new_geo_feature = \<lparr>gf_enabled = False, gf_readers = [], gf_tenantRules = [], gf_globalRule = geo_disabled_rule\<lparr>gr_action := []\<rparr>, gf_testLookups = Map.empty\<rparr>"

definition with_lookup_func :: "string \<Rightarrow> 'ip lookup_func \<Rightarrow> ('ip, 'db) geo_feature \<Rightarrow> ('ip, 'db) geo_feature" where
  "with_lookup_func dbPath fn f = f\<lparr>gf_testLookups := (gf_testLookups f)(dbPath \<mapsto> fn)\<rparr>"

text \<open>The validation; \<open>is_dir\<close> is what \<^verbatim>\<open>os.Stat\<close> says of a path, \<open>None\<close> an error.\<close>

definition geo_validate :: "(string \<Rightarrow> string) \<Rightarrow> (string \<Rightarrow> bool option) \<Rightarrow> ('ip, 'db) geo_feature \<Rightarrow> feature_snapshot \<Rightarrow> string option" where
  "geo_validate uni is_dir f cfg =
     (if \<not> fs_Enabled cfg then None
      else
        (case parse_geo_rule uni cfg :: string + 'ip geo_rule of
           Inl e \<Rightarrow> Some e
         | Inr r \<Rightarrow>
             if gr_dbPath r = [] then Some ''db_path''
             else if gf_testLookups f (gr_dbPath r) = None \<and> is_dir (gr_dbPath r) \<noteq> Some False then Some ''db_path''
             else None))"

datatype 'db geo_event = GOpened 'db | GClosed 'db

fun count_need :: "'ip geo_rule list \<Rightarrow> string \<Rightarrow> nat" where
  "count_need [] p = 0"
| "count_need (r # rs) p = (if gr_enabled r \<and> gr_dbPath r \<noteq> [] \<and> gr_dbPath r = p then 1 else 0) + count_need rs p"

definition needed_paths :: "'ip geo_rule list \<Rightarrow> string list" where
  "needed_paths rs = remdups (map gr_dbPath (filter (\<lambda>r. gr_enabled r \<and> gr_dbPath r \<noteq> []) rs))"

text \<open>One turn of the loop that opens readers.\<close>

fun open_reader ::
  "(string \<Rightarrow> 'db option) \<Rightarrow> ('ip, 'db) geo_feature \<Rightarrow> string \<Rightarrow> (string \<times> 'db reader_handle) list \<times> 'db geo_event list
     \<Rightarrow> (string \<times> 'db reader_handle) list \<times> 'db geo_event list" where
  "open_reader opens f path (readers, evs) =
     (if gf_testLookups f path \<noteq> None then (readers, evs)
      else if map_of readers path \<noteq> None then (readers, evs)
      else
        (case opens path of
           None \<Rightarrow> (readers, evs)
         | Some reader \<Rightarrow> (alist_put path \<lparr>rh_reader = reader, rh_refs = 0\<rparr> readers, evs @ [GOpened reader])))"

definition geo_observe ::
  "(string \<Rightarrow> string) \<Rightarrow> (string \<Rightarrow> 'db option) \<Rightarrow> feature_snapshot \<Rightarrow> (string \<times> feature_snapshot) list \<Rightarrow> ('ip, 'db) geo_feature
     \<Rightarrow> ('ip, 'db) geo_feature \<times> 'db geo_event list" where
  "geo_observe uni opens globals tenants f =
     (let newGlobal = geo_must_parse uni globals;
          newTenants = map (\<lambda>(host, cfg). (host, geo_must_parse uni cfg)) tenants;
          rs = newGlobal # map snd newTenants;
          (readers1, log1) = fold (open_reader opens f) (needed_paths rs) (gf_readers f, []);
          readers2 = map (\<lambda>(path, h). (path, h\<lparr>rh_refs := count_need rs path\<rparr>)) readers1;
          closed = map (\<lambda>(path, h). GClosed (rh_reader h)) (filter (\<lambda>(path, h). \<not> rh_refs h > 0) readers2);
          readers3 = filter (\<lambda>(path, h). rh_refs h > 0) readers2;
          en = (gr_enabled newGlobal \<or> list_ex (\<lambda>(host, r). gr_enabled r) newTenants)
      in (f\<lparr>gf_enabled := en, gf_readers := readers3, gf_tenantRules := newTenants, gf_globalRule := newGlobal\<rparr>, log1 @ closed))"

definition geo_close :: "('ip, 'db) geo_feature \<Rightarrow> ('ip, 'db) geo_feature \<times> 'db geo_event list" where
  "geo_close f = (f\<lparr>gf_readers := [], gf_enabled := False\<rparr>, map (\<lambda>(path, h). GClosed (rh_reader h)) (gf_readers f))"

text \<open>The reload observer that the proxy server installs.\<close>

definition geo_reload ::
  "(string \<Rightarrow> string) \<Rightarrow> (string \<Rightarrow> 'db option) \<Rightarrow> globals_snapshot \<Rightarrow> (string \<times> tenant_snapshot) list \<Rightarrow> ('ip, 'db) geo_feature
     \<Rightarrow> ('ip, 'db) geo_feature \<times> 'db geo_event list" where
  "geo_reload uni opens globals tenants f =
     geo_observe uni opens (lookup_snapshot globals geo_FeatureName)
       (List.map_filter (\<lambda>(host, t). map_option (\<lambda>ts. (host, ts)) (ts_Features t geo_FeatureName)) tenants) f"

subsection \<open>Requests\<close>

definition with_injected :: "('ip, 'db) geo_feature \<Rightarrow> feature_snapshot \<Rightarrow> 'ip geo_rule \<Rightarrow> 'ip geo_rule" where
  "with_injected f cfg r =
     (let r1 = r\<lparr>gr_enabled := gr_enabled r \<and> fs_Enabled cfg\<rparr>
      in case gf_testLookups f (gr_dbPath r1) of None \<Rightarrow> r1 | Some fn \<Rightarrow> r1\<lparr>gr_lookup := Some fn\<rparr>)"

definition effective_rule :: "('ip, 'db) geo_feature \<Rightarrow> http_request \<Rightarrow> feature_snapshot \<Rightarrow> 'ip geo_rule" where
  "effective_rule f r cfg =
     (case hq_Tenant r of
        None \<Rightarrow> with_injected f cfg (gf_globalRule f)
      | Some t \<Rightarrow>
          (case map_of (gf_tenantRules f) (ts_Host t) of
             Some tr \<Rightarrow> with_injected f cfg tr
           | None \<Rightarrow> with_injected f cfg (gf_globalRule f)))"

definition lookup_for :: "('ip, 'db) geo_lib \<Rightarrow> ('ip, 'db) geo_feature \<Rightarrow> string \<Rightarrow> 'ip lookup_func option" where
  "lookup_for L f path =
     (case gf_testLookups f path of
        Some fn \<Rightarrow> Some fn
      | None \<Rightarrow> map_option (\<lambda>h. gl_Lookup L (rh_reader h)) (map_of (gf_readers f) path))"

definition extract_client_ip :: "http_request \<Rightarrow> bool \<Rightarrow> string" where
  "extract_client_ip r trustXFF =
     (let xff = hdr_get (hq_Header r) ''X-Forwarded-For'';
          lst = trim_space (last (split_on CHR '','' xff));
          addr = hq_RemoteAddr r
      in if trustXFF \<and> xff \<noteq> [] \<and> lst \<noteq> [] then lst
         else (case split_host_port addr of Some host \<Rightarrow> host | None \<Rightarrow> addr))"

text \<open>The two clock readings around the construction of the timer are \<open>t1\<close> and \<open>t2\<close>.\<close>

definition stall_timer :: "time \<Rightarrow> time \<Rightarrow> duration" where
  "stall_timer deadline t = (let d = time_sub deadline t in if d < 0 then 0 else d)"

definition geo_apply_action :: "bool \<Rightarrow> duration option \<Rightarrow> time \<Rightarrow> time \<Rightarrow> string \<Rightarrow> block_reply" where
  "geo_apply_action hijacked cancelled t1 t2 action =
     (if action = BlockActionDrop then hijack_and_close hijacked 0
      else if action = BlockActionTooMany then BStatus 0 429
      else if action = BlockActionTimeout then
        (let d = stall_timer (t1 + 30 * second) t2 in BStatus (case cancelled of None \<Rightarrow> d | Some c \<Rightarrow> min c d) 408)
      else BStatus 0 404)"

text \<open>The middleware: \<open>None\<close> when the request is passed on.\<close>

definition geo_serve ::
  "('ip, 'db) geo_lib \<Rightarrow> bool \<Rightarrow> duration option \<Rightarrow> time \<Rightarrow> time \<Rightarrow> ('ip, 'db) geo_feature \<Rightarrow> feature_snapshot \<Rightarrow> http_request \<Rightarrow> block_reply option" where
  "geo_serve L hijacked cancelled t1 t2 f cfg r =
     (if \<not> gf_enabled f then None
      else if \<not> fs_Enabled cfg then None
      else
        (let rule = effective_rule f r cfg in
         if \<not> gr_enabled rule \<or> gr_blocked rule = [] then None
         else
           (case gl_ParseIP L (extract_client_ip r (gr_trustXFF rule)) of
              None \<Rightarrow> None
            | Some ip \<Rightarrow>
                (case (case gr_lookup rule of Some fn \<Rightarrow> Some fn | None \<Rightarrow> lookup_for L f (gr_dbPath rule)) of
                   None \<Rightarrow> None
                 | Some lookup \<Rightarrow>
                     (case lookup ip of
                        None \<Rightarrow> None
                      | Some country \<Rightarrow>
                          if country = [] then None
                          else if country \<notin> set (gr_blocked rule) then None
                          else Some (geo_apply_action hijacked cancelled t1 t2 (gr_action rule)))))))"

subsection \<open>Readers\<close>

datatype 'db geo_op = GObserve "string \<Rightarrow> 'db option" feature_snapshot "(string \<times> feature_snapshot) list" | GShut

fun geo_step :: "(string \<Rightarrow> string) \<Rightarrow> 'db geo_op \<Rightarrow> ('ip, 'db) geo_feature \<times> 'db geo_event list \<Rightarrow> ('ip, 'db) geo_feature \<times> 'db geo_event list" where
  "geo_step uni (GObserve opens globals tenants) (f, evs) = (case geo_observe uni opens globals tenants f of (f', evs') \<Rightarrow> (f', evs @ evs'))"
| "geo_step uni GShut (f, evs) = (case geo_close f of (f', evs') \<Rightarrow> (f', evs @ evs'))"

definition opened :: "'db geo_event list \<Rightarrow> 'db list" where
  "opened evs = List.map_filter (\<lambda>e. case e of GOpened d \<Rightarrow> Some d | GClosed d \<Rightarrow> None) evs"

definition closed :: "'db geo_event list \<Rightarrow> 'db list" where
  "closed evs = List.map_filter (\<lambda>e. case e of GOpened d \<Rightarrow> None | GClosed d \<Rightarrow> Some d) evs"

definition readers_of :: "(string \<times> 'db reader_handle) list \<Rightarrow> 'db list" where
  "readers_of rs = map (\<lambda>(path, h). rh_reader h) rs"

lemma events_simps [simp]:
  "opened [] = []" "opened (GOpened d # evs) = d # opened evs" "opened (GClosed d # evs) = opened evs"
  "closed [] = []" "closed (GOpened d # evs) = closed evs" "closed (GClosed d # evs) = d # closed evs"
  by (simp_all add: opened_def closed_def List.map_filter_simps)

lemma events_append [simp]: "opened (evs @ evs') = opened evs @ opened evs'" "closed (evs @ evs') = closed evs @ closed evs'"
  by (simp_all add: opened_def closed_def List.map_filter_def)

lemma events_closing [simp]:
  "opened (map (\<lambda>(path, h). GClosed (rh_reader h)) rs) = []" "closed (map (\<lambda>(path, h). GClosed (rh_reader h)) rs) = readers_of rs"
  by (induction rs) (auto simp: readers_of_def)

lemma alist_put_new: "map_of xs k = None \<Longrightarrow> alist_put k v xs = xs @ [(k, v)]"
  by (induction k v xs rule: alist_put.induct) (auto split: if_splits)

lemma open_reader_ledger:
  "mset (opened (snd (open_reader opens f path st))) + mset (readers_of (fst st)) = mset (opened (snd st)) + mset (readers_of (fst (open_reader opens f path st)))"
  "closed (snd (open_reader opens f path st)) = closed (snd st)"
  by (cases st; auto simp: alist_put_new readers_of_def split: option.splits)+

lemma ledger_trans:
  fixes a b c r0 r1 r2 :: "'a multiset"
  assumes "a + r1 = b + r2" and "b + r0 = c + r1"
  shows "a + r0 = c + r2"
proof (rule multiset_eqI)
  fix x show "count (a + r0) x = count (c + r2) x"
    using arg_cong[OF assms(1), of "\<lambda>m. count m x"] arg_cong[OF assms(2), of "\<lambda>m. count m x"] by simp
qed

lemma ledger_close:
  fixes a c r m k x :: "'a multiset"
  assumes "a = c + r" and "b + r = m" and "k + x = m"
  shows "a + b = c + x + k"
proof (rule multiset_eqI)
  fix y show "count (a + b) y = count (c + x + k) y"
    using assms(1) arg_cong[OF assms(2), of "\<lambda>m. count m y"] arg_cong[OF assms(3), of "\<lambda>m. count m y"] by simp
qed

lemma fold_open_reader_ledger:
  "mset (opened (snd (fold (open_reader opens f) paths st))) + mset (readers_of (fst st))
     = mset (opened (snd st)) + mset (readers_of (fst (fold (open_reader opens f) paths st)))
   \<and> closed (snd (fold (open_reader opens f) paths st)) = closed (snd st)"
proof (induction paths arbitrary: st)
  case (Cons p paths)
  let ?st = "open_reader opens f p st"
  show ?case using ledger_trans[OF conjunct1[OF Cons[of ?st]] open_reader_ledger(1)[of opens f p st]] Cons[of ?st] open_reader_ledger(2)[of opens f p st]
    by (simp del: open_reader.simps)
qed simp

lemma fold_open_reader_map:
  "map_of (fst (fold (open_reader opens f) paths st)) p =
     (case map_of (fst st) p of
        Some h \<Rightarrow> Some h
      | None \<Rightarrow> if p \<in> set paths \<and> gf_testLookups f p = None then map_option (\<lambda>d. \<lparr>rh_reader = d, rh_refs = 0\<rparr>) (opens p) else None)"
proof (induction paths arbitrary: st)
  case (Cons q paths)
  have "map_of (fst (open_reader opens f q st)) p =
      (case map_of (fst st) p of Some h \<Rightarrow> Some h
       | None \<Rightarrow> if p = q \<and> gf_testLookups f p = None then map_option (\<lambda>d. \<lparr>rh_reader = d, rh_refs = 0\<rparr>) (opens p) else None)"
    by (cases st) (auto simp: map_of_alist_put split: option.splits)
  then show ?case using Cons[of "open_reader opens f q st"] by (auto split: option.splits)
qed (simp split: option.splits)

lemma fold_open_reader_distinct:
  "distinct (map fst (fst st)) \<Longrightarrow> distinct (map fst (fst (fold (open_reader opens f) paths st)))"
proof (induction paths arbitrary: st)
  case (Cons q paths)
  have "distinct (map fst (fst (open_reader opens f q st)))" using Cons.prems by (cases st) (auto simp: distinct_alist_put split: option.splits)
  then show ?case using Cons.IH by simp
qed simp

lemma readers_of_partition:
  "mset (readers_of (filter P rs)) + mset (readers_of (filter (\<lambda>x. \<not> P x) rs)) = mset (readers_of rs)"
  by (induction rs) (auto simp: readers_of_def)

lemma readers_of_refs: "readers_of (map (\<lambda>(path, h). (path, h\<lparr>rh_refs := n path\<rparr>)) rs) = readers_of rs"
  by (auto simp: readers_of_def)

definition geo_ledger :: "('ip, 'db) geo_feature \<times> 'db geo_event list \<Rightarrow> bool" where
  "geo_ledger s \<longleftrightarrow> mset (opened (snd s)) = mset (closed (snd s)) + mset (readers_of (gf_readers (fst s)))"

definition all_rules :: "(string \<Rightarrow> string) \<Rightarrow> feature_snapshot \<Rightarrow> (string \<times> feature_snapshot) list \<Rightarrow> 'ip geo_rule list" where
  "all_rules uni globals tenants = geo_must_parse uni globals # map (\<lambda>(host, cfg). geo_must_parse uni cfg) tenants"

definition counted_readers ::
  "(string \<Rightarrow> 'db option) \<Rightarrow> ('ip, 'db) geo_feature \<Rightarrow> 'ip geo_rule list \<Rightarrow> (string \<times> 'db reader_handle) list" where
  "counted_readers opens f rs =
     map (\<lambda>(path, h). (path, h\<lparr>rh_refs := count_need rs path\<rparr>)) (fst (fold (open_reader opens f) (needed_paths rs) (gf_readers f, [])))"

lemma geo_observe_simps:
  fixes f :: "('ip, 'db) geo_feature"
  assumes rs_def: "rs = (all_rules uni globals tenants :: 'ip geo_rule list)"
  shows "gf_readers (fst (geo_observe uni opens globals tenants f)) = filter (\<lambda>(path, h). rh_refs h > 0) (counted_readers opens f rs)"
    and "snd (geo_observe uni opens globals tenants f) = snd (fold (open_reader opens f) (needed_paths rs) (gf_readers f, []))
      @ map (\<lambda>(path, h). GClosed (rh_reader h)) (filter (\<lambda>(path, h). \<not> rh_refs h > 0) (counted_readers opens f rs))"
    and "gf_enabled (fst (geo_observe uni opens globals tenants f)) = list_ex gr_enabled rs"
    and "gf_tenantRules (fst (geo_observe uni opens globals tenants f)) = map (\<lambda>(host, cfg). (host, geo_must_parse uni cfg)) tenants"
    and "gf_globalRule (fst (geo_observe uni opens globals tenants f)) = geo_must_parse uni globals"
    and "gf_testLookups (fst (geo_observe uni opens globals tenants f)) = gf_testLookups f"
proof -
  have "map snd (map (\<lambda>(host, cfg). (host, geo_must_parse uni cfg)) tenants) = (map (\<lambda>(host, cfg). geo_must_parse uni cfg) tenants :: 'ip geo_rule list)"
    by (induction tenants) auto
  note [simp] = this
  show "gf_readers (fst (geo_observe uni opens globals tenants f)) = filter (\<lambda>(path, h). rh_refs h > 0) (counted_readers opens f rs)"
    "snd (geo_observe uni opens globals tenants f) = snd (fold (open_reader opens f) (needed_paths rs) (gf_readers f, []))
      @ map (\<lambda>(path, h). GClosed (rh_reader h)) (filter (\<lambda>(path, h). \<not> rh_refs h > 0) (counted_readers opens f rs))"
    by (simp_all add: geo_observe_def Let_def split_beta rs_def all_rules_def counted_readers_def del: map_map)
  show "gf_enabled (fst (geo_observe uni opens globals tenants f)) = list_ex gr_enabled rs"
    "gf_tenantRules (fst (geo_observe uni opens globals tenants f)) = map (\<lambda>(host, cfg). (host, geo_must_parse uni cfg)) tenants"
    "gf_globalRule (fst (geo_observe uni opens globals tenants f)) = geo_must_parse uni globals"
    "gf_testLookups (fst (geo_observe uni opens globals tenants f)) = gf_testLookups f"
    by (simp_all add: geo_observe_def Let_def split_beta rs_def all_rules_def list_ex_iff)
qed

lemma readers_of_counted: "readers_of (counted_readers opens f rs) = readers_of (fst (fold (open_reader opens f) (needed_paths rs) (gf_readers f, [])))"
  by (simp add: counted_readers_def readers_of_refs)

lemma geo_step_ledger:
  fixes s :: "('ip, 'db) geo_feature \<times> 'db geo_event list"
  assumes l: "geo_ledger s"
  shows "geo_ledger (geo_step uni x s)"
proof (cases x)
  case x: (GObserve opens globals tenants)
  obtain f evs where s: "s = (f, evs)" by (cases s)
  let ?rs = "all_rules uni globals tenants :: 'ip geo_rule list"
  let ?o = "fold (open_reader opens f) (needed_paths ?rs) (gf_readers f, [])" and ?c = "counted_readers opens f ?rs"
  have o: "mset (opened (snd ?o)) + mset (readers_of (gf_readers f)) = mset (readers_of (fst ?o))" "closed (snd ?o) = []"
    using fold_open_reader_ledger[of opens f "needed_paths ?rs" "(gf_readers f, [])"] by simp_all
  have part: "mset (readers_of (filter (\<lambda>(path, h). rh_refs h > 0) ?c)) + mset (readers_of (filter (\<lambda>(path, h). \<not> rh_refs h > 0) ?c)) = mset (readers_of (fst ?o))"
    using readers_of_partition[of "\<lambda>(path, h). rh_refs h > 0" ?c] readers_of_counted[of opens f ?rs] by (simp only: split_beta')
  have "mset (opened evs) = mset (closed evs) + mset (readers_of (gf_readers f))" using l by (simp add: geo_ledger_def s)
  from ledger_close[OF this o(1) part] show ?thesis
    using geo_observe_simps(1,2)[of ?rs uni globals tenants opens f, OF refl]
    by (simp add: geo_ledger_def s x split_beta o(2) del: not_gr_zero)
next
  case GShut
  then show ?thesis using l by (cases s) (simp add: geo_ledger_def geo_close_def readers_of_def)
qed

text \<open>
  C38 (invariant). No reader is leaked or closed twice: after any sequence of reloads and shut-downs of a new feature, the readers opened so far are those closed so far together with those the feature holds, each as often as it was opened.
\<close>

theorem geo_readers_balanced:
  "geo_ledger (fold (geo_step uni) ops (new_geo_feature, []))"
proof -
  have "geo_ledger (fold (geo_step uni) ops s)" if "geo_ledger s" for s :: "('a, 'b) geo_feature \<times> 'b geo_event list"
    using that by (induction ops arbitrary: s) (simp_all add: geo_step_ledger)
  then show ?thesis by (simp add: geo_ledger_def new_geo_feature_def readers_of_def)
qed

subsection \<open>Which requests are blocked\<close>

lemma count_need_iff: "count_need rs p > 0 \<longleftrightarrow> p \<in> set (needed_paths rs)"
  by (induction rs) (auto simp: needed_paths_def)

definition geo_ready :: "('ip, 'db) geo_feature \<Rightarrow> bool" where
  "geo_ready f \<longleftrightarrow> distinct (map fst (gf_readers f)) \<and> gf_testLookups f = Map.empty"

lemma distinct_counted: "distinct (map fst (gf_readers f)) \<Longrightarrow> distinct (map fst (counted_readers opens f rs))"
proof -
  assume "distinct (map fst (gf_readers f))"
  then have "distinct (map fst (fst (fold (open_reader opens f) (needed_paths rs) (gf_readers f, []))))"
    using fold_open_reader_distinct[of "(gf_readers f, [])"] by simp
  then show ?thesis by (simp add: counted_readers_def comp_def split_beta)
qed

lemma geo_observe_ready: "geo_ready f \<Longrightarrow> geo_ready (fst (geo_observe uni opens globals tenants f))"
  by (simp add: geo_ready_def geo_observe_simps[OF refl] distinct_counted distinct_alist_filter)

lemma geo_run_ready: "geo_ready (fst (fold (geo_step uni) ops (new_geo_feature, [])))"
proof -
  have "geo_ready (fst (geo_step uni x s))" if "geo_ready (fst s)" for x and s :: "('a, 'b) geo_feature \<times> 'b geo_event list"
    using that by (cases s; cases x) (simp_all add: split_beta geo_observe_ready, simp add: geo_close_def geo_ready_def)
  then have "geo_ready (fst (fold (geo_step uni) ops s))" if "geo_ready (fst s)" for s :: "('a, 'b) geo_feature \<times> 'b geo_event list"
    using that by (induction ops arbitrary: s) simp_all
  then show ?thesis by (simp add: geo_ready_def new_geo_feature_def)
qed

lemma map_of_map_keyed: "map_of (map (\<lambda>(k, v). (k, g k v)) xs) k = map_option (g k) (map_of xs k)"
  by (induction xs) auto

lemma reader_after_observe:
  fixes f :: "('ip, 'db) geo_feature"
  assumes "geo_ready f"
  shows "map_option rh_reader (map_of (gf_readers (fst (geo_observe uni opens globals tenants f))) p) =
     (if p \<in> set (needed_paths (all_rules uni globals tenants :: 'ip geo_rule list)) then (case map_of (gf_readers f) p of Some h \<Rightarrow> Some (rh_reader h) | None \<Rightarrow> opens p) else None)"
proof -
  let ?rs = "all_rules uni globals tenants :: 'ip geo_rule list"
  let ?o = "fst (fold (open_reader opens f) (needed_paths ?rs) (gf_readers f, []))"
  have c: "map_of (counted_readers opens f ?rs) p = map_option (\<lambda>h. h\<lparr>rh_refs := count_need ?rs p\<rparr>) (map_of ?o p)"
    by (simp add: counted_readers_def map_of_map_keyed)
  have d: "distinct (map fst (counted_readers opens f ?rs))" using assms by (simp add: geo_ready_def distinct_counted)
  show ?thesis
    using assms fold_open_reader_map[of opens f "needed_paths ?rs" "(gf_readers f, [])" p] count_need_iff[of ?rs p]
    by (auto simp: geo_ready_def geo_observe_simps[OF refl] map_of_alist_filter[OF d] c split: option.splits)
qed

lemma map_of_feature_snapshots:
  "distinct (map fst tenants) \<Longrightarrow>
     map_of (List.map_filter (\<lambda>(host, t). map_option (\<lambda>ts. (host, ts)) (ts_Features t name)) tenants) h = Option.bind (map_of tenants h) (\<lambda>t. ts_Features t name)"
proof (induction tenants)
  case (Cons ht tenants)
  then have "h = fst ht \<Longrightarrow> map_of tenants h = None" by (auto simp: map_of_eq_None_iff)
  then show ?case using Cons by (cases ht) (auto simp: List.map_filter_simps split: option.splits)
qed (simp add: List.map_filter_simps)

text \<open>What a rule over a database says of a request; a missing database blocks nobody.\<close>

definition geo_verdict ::
  "('ip, 'db) geo_lib \<Rightarrow> bool \<Rightarrow> duration option \<Rightarrow> time \<Rightarrow> time \<Rightarrow> 'db option \<Rightarrow> 'ip geo_rule \<Rightarrow> http_request \<Rightarrow> block_reply option" where
  "geo_verdict L hijacked cancelled t1 t2 db rule r =
     (case (gl_ParseIP L (extract_client_ip r (gr_trustXFF rule)), db) of
        (Some ip, Some d) \<Rightarrow>
          (case gl_Lookup L d ip of
             Some country \<Rightarrow> if country \<noteq> [] \<and> country \<in> set (gr_blocked rule) then Some (geo_apply_action hijacked cancelled t1 t2 (gr_action rule)) else None
           | None \<Rightarrow> None)
      | _ \<Rightarrow> None)"

lemma geo_must_parse_enabled:
  fixes f :: "('ip, 'db) geo_feature"
  assumes "geo_validate uni is_dir f cfg = None" and "fs_Enabled cfg" and "rule = (geo_must_parse uni cfg :: 'ip geo_rule)"
  shows "gr_enabled rule \<and> gr_dbPath rule \<noteq> [] \<and> gr_lookup rule = None"
proof -
  have "gr_enabled r = fs_Enabled cfg \<and> gr_lookup r = None" if "parse_geo_rule uni cfg = Inr r" for r :: "'ip geo_rule"
    using that unfolding parse_geo_rule_def Let_def or_error_Inr by (elim exE conjE) (drule Inr_inject, hypsubst, simp)
  then show ?thesis using assms by (auto simp: geo_validate_def geo_must_parse_def split: sum.splits if_splits)
qed

text \<open>
  C27 (functional). After a reload of a feature that has any history, a request of a tenant of the map, or one without tenant, whose snapshot is valid gets the verdict of that snapshot: the country of the client address,
  in the database of the snapshot's path, decides, with the snapshot's list, source of the address and action. The database is the one that was already open for the path, or else what opening the file gave.
\<close>

theorem geo_decision:
  fixes ops :: "'db geo_op list" and L :: "('ip, 'db) geo_lib"
  assumes "f = fst (fold (geo_step uni) ops (new_geo_feature, []))" and "tenant_keys_ok uni tenants"
    and "case hq_Tenant r of None \<Rightarrow> True | Some t \<Rightarrow> (ts_Host t, t) \<in> set tenants"
    and "snap = resolved globals geo_FeatureName (hq_Tenant r)" and "geo_validate uni is_dir f snap = None"
    and "rule = geo_must_parse uni snap"
    and "db = (case map_of (gf_readers f) (gr_dbPath rule) of Some h \<Rightarrow> Some (rh_reader h) | None \<Rightarrow> opens (gr_dbPath rule))"
  shows "geo_serve L hijacked cancelled t1 t2 (fst (geo_reload uni opens globals tenants f)) snap r
    = (if fs_Enabled snap then geo_verdict L hijacked cancelled t1 t2 db rule r else None)"
proof (cases "fs_Enabled snap")
  case False
  then show ?thesis by (simp add: geo_serve_def)
next
  case True
  let ?feats = "List.map_filter (\<lambda>(host, t). map_option (\<lambda>ts. (host, ts)) (ts_Features t geo_FeatureName)) tenants"
  let ?g = "lookup_snapshot globals geo_FeatureName" and ?rs = "all_rules uni (lookup_snapshot globals geo_FeatureName) ?feats :: 'ip geo_rule list"
  let ?f = "fst (geo_observe uni opens ?g ?feats f)"
  have keys: "distinct (map fst tenants)" using assms(2) by (simp add: tenant_keys_ok_def)
  have ready: "geo_ready f" unfolding assms(1) by (rule geo_run_ready)
  then have noinj: "gf_testLookups ?f = Map.empty" by (simp add: geo_observe_simps[OF refl] geo_ready_def)
  have on: "gr_enabled rule" "gr_dbPath rule \<noteq> []" "gr_lookup rule = None"
    using geo_must_parse_enabled[OF assms(5) True assms(6)] by simp_all
  have feats: "map_of ?feats h = Option.bind (map_of tenants h) (\<lambda>t. ts_Features t geo_FeatureName)" for h by (rule map_of_feature_snapshots[OF keys])
  have here: "map_of tenants (ts_Host t) = Some t" if "hq_Tenant r = Some t" for t using assms(3) that keys by simp
  have rule: "(case hq_Tenant r of None \<Rightarrow> gf_globalRule ?f
      | Some t \<Rightarrow> (case map_of (gf_tenantRules ?f) (ts_Host t) of Some tr \<Rightarrow> tr | None \<Rightarrow> gf_globalRule ?f)) = rule"
    using here by (auto simp: geo_observe_simps[OF refl] map_of_map feats assms(4,6) resolved_def split: option.splits)
  have mem: "rule \<in> set ?rs"
  proof (cases "Option.bind (hq_Tenant r) (\<lambda>t. ts_Features t geo_FeatureName)")
    case None
    then have "snap = ?g" by (auto simp: assms(4) resolved_def bind_eq_None_conv split: option.splits)
    then show ?thesis by (simp add: assms(6) all_rules_def)
  next
    case (Some s)
    then obtain t where t: "hq_Tenant r = Some t" "ts_Features t geo_FeatureName = Some s" by (auto simp: bind_eq_Some_conv)
    then have "map_of ?feats (ts_Host t) = Some s" "snap = s" using here by (simp_all add: feats assms(4) resolved_def)
    then show ?thesis by (auto simp: assms(6) all_rules_def image_iff dest!: map_of_SomeD)
  qed
  then have "gr_dbPath rule \<in> set (needed_paths ?rs)" using on by (auto simp: needed_paths_def)
  then have reader: "map_option rh_reader (map_of (gf_readers ?f) (gr_dbPath rule)) = db"
    using reader_after_observe[OF ready, of uni opens ?g ?feats "gr_dbPath rule"] by (simp add: assms(7))
  have eff: "effective_rule ?f r snap = rule"
    using rule on True by (auto simp: effective_rule_def with_injected_def noinj split: option.splits)
  have "lookup_for L ?f (gr_dbPath rule) = map_option (gl_Lookup L) db"
    by (simp add: lookup_for_def noinj reader[symmetric] option.map_comp comp_def)
  moreover have "gf_enabled ?f" using mem on(1) by (auto simp: geo_observe_simps[OF refl] list_ex_iff)
  ultimately show ?thesis using True on
    by (auto simp: geo_reload_def geo_serve_def eff geo_verdict_def split: option.splits)
qed

definition demo_geo_lib :: "(string, unit) geo_lib" where
  "demo_geo_lib = \<lparr>gl_ParseIP = Some, gl_Lookup = (\<lambda>d ip. if ip = ''1.2.3.4'' then Some ''XA'' else None)\<rparr>"

definition demo_geo_snap :: feature_snapshot where
  "demo_geo_snap = \<lparr>fs_Enabled = True, fs_Params = [''db_path'' \<mapsto> VString ''/g'', ''block_countries'' \<mapsto> VStrings [''xa'']], fs_Version = 0\<rparr>"

definition demo_visitor :: http_request where
  "demo_visitor = \<lparr>hq_Method = ''GET'', hq_Host = ''a'', hq_Path = ''/'', hq_RawQuery = [], hq_Header = [], hq_RemoteAddr = ''1.2.3.4:5'', hq_Tenant = None\<rparr>"

theorem geo_decision_witness:
  "geo_serve demo_geo_lib True None 0 0 (fst (geo_reload id (\<lambda>_. Some ()) [geo_FeatureName \<mapsto> demo_geo_snap] [] new_geo_feature)) demo_geo_snap demo_visitor = Some (BStatus 0 404)"
proof -
  let ?rule = "\<lparr>gr_enabled = True, gr_dbPath = ''/g'', gr_blocked = [''XA''], gr_action = geo_defaultAction, gr_trustXFF = False, gr_lookup = None\<rparr> :: string geo_rule"
  have "trim_space ''/g'' = ''/g''" "trim_space ''xa'' = ''xa''" by (rule trim_space_visible, code_simp)+
  moreover have "to_upper id ''xa'' = ''XA''" by code_simp
  ultimately have p: "parse_geo_rule id demo_geo_snap = Inr ?rule"
    by (simp add: parse_geo_rule_def demo_geo_snap_def add_country_def Let_def)
  have v: "geo_validate id (\<lambda>_. Some False) (new_geo_feature :: (string, unit) geo_feature) demo_geo_snap = None"
    using p by (simp add: geo_validate_def)
  have c: "extract_client_ip demo_visitor False = ''1.2.3.4''" by code_simp
  have act: "geo_apply_action True None 0 0 geo_defaultAction = BStatus 0 404" by code_simp
  have "geo_serve demo_geo_lib True None 0 0 (fst (geo_reload id (\<lambda>_. Some ()) [geo_FeatureName \<mapsto> demo_geo_snap] [] new_geo_feature)) demo_geo_snap demo_visitor
      = (if fs_Enabled demo_geo_snap then geo_verdict demo_geo_lib True None 0 0 (Some ()) ?rule demo_visitor else None)"
    by (rule geo_decision[where ops = "[]", OF _ _ _ _ v]) 
      (simp_all add: tenant_keys_ok_def demo_visitor_def resolved_def lookup_snapshot_def geo_must_parse_def p, simp add: new_geo_feature_def)
  then show ?thesis using c act by (simp add: demo_geo_snap_def geo_verdict_def demo_geo_lib_def)
qed

interpretation geo_contract: feature_contract "geo_validate uni is_dir f" for uni is_dir f
  by unfold_locales (simp add: geo_validate_def)

end
