(* ===== verification/Roundtrip.thy ===== *)
theory Roundtrip
  imports Abuse Negcache Pool
begin

text \<open>
  The data path of the proxy: \<^verbatim>\<open>internal/proxy/transport.go\<close>, the reverse proxy and the body limit of \<^verbatim>\<open>internal/proxy/server.go\<close> and \<^verbatim>\<open>security.go\<close>. A request is tried on several Tor instances, under the control of the
  negative cache of theory \<open>Negcache\<close>; the scores are those of theory \<open>Pool\<close>. What one attempt gives, the circuit breaker of the library included, is the argument \<open>re_exec\<close> of the environment; clock
  readings and the cancellation of the request are arguments too. The handling of headers by \<^verbatim>\<open>httputil.ReverseProxy\<close> is modelled as far as it decides what reaches a backend.
\<close>

subsection \<open>Choice of a backend\<close>

definition select_backend :: "backend_info list \<Rightarrow> backend_info option" where
  "select_backend pool = pick_best_from None pool"

definition select_tenant_backend :: "backend_info list \<Rightarrow> string list \<Rightarrow> backend_info option" where
  "select_tenant_backend pool tenantBackends =
     (if tenantBackends = [] then select_backend pool
      else
        (case select_backend (filter (\<lambda>b. bi_Backend b \<in> set tenantBackends) pool) of
           Some b \<Rightarrow> Some b
         | None \<Rightarrow> select_backend pool))"

subsection \<open>Transport\<close>

definition px_maxBodyBytes :: int where "px_maxBodyBytes = 4 * 1024 * 1024"
definition maxResponseBytes :: int where "maxResponseBytes = 50 * 1024 * 1024"

record px_config =
  pg_RetryAttempts :: int
  pg_Domain :: string
  pg_ProxySecret :: string
  pg_Backends :: "string list"

record tor_transport =
  tt_transports :: "int list"
  tt_breakers :: "(int \<times> string) list"
  tt_negCache :: "negcache option"

definition new_tor_transport :: tor_transport where
  "new_tor_transport = \<lparr>tt_transports = [], tt_breakers = [], tt_negCache = None\<rparr>"

definition with_neg_cache :: "negcache option \<Rightarrow> tor_transport \<Rightarrow> tor_transport" where
  "with_neg_cache c t = t\<lparr>tt_negCache := c\<rparr>"

definition get_transport :: "int \<Rightarrow> string \<Rightarrow> tor_transport \<Rightarrow> tor_transport" where
  "get_transport port backend t = t\<lparr>tt_transports := List.insert port (tt_transports t), tt_breakers := List.insert (port, backend) (tt_breakers t)\<rparr>"

definition remove_transport :: "int \<Rightarrow> tor_transport \<Rightarrow> tor_transport" where
  "remove_transport port t = t\<lparr>tt_transports := filter (\<lambda>p. p \<noteq> port) (tt_transports t), tt_breakers := filter (\<lambda>k. fst k \<noteq> port) (tt_breakers t)\<rparr>"

definition tt_close :: "tor_transport \<Rightarrow> tor_transport" where
  "tt_close t = t\<lparr>tt_transports := [], tt_breakers := []\<rparr>"

text \<open>A breaker opens at half failures of at least ten requests.\<close>

definition ready_to_trip :: "int \<Rightarrow> int \<Rightarrow> bool" where
  "ready_to_trip requests totalFailures \<longleftrightarrow> requests \<ge> 10 \<and> fl (fl (of_int totalFailures) / fl (of_int requests)) \<ge> 1 / 2"

definition tenant_backends :: "px_config \<Rightarrow> http_request \<Rightarrow> string list" where
  "tenant_backends cfg r = (case hq_Tenant r of None \<Rightarrow> [] | Some t \<Rightarrow> pg_Backends cfg)"

definition is_retryable_status :: "int \<Rightarrow> bool" where
  "is_retryable_status code \<longleftrightarrow> code = 502 \<or> code = 503 \<or> code = 504"

definition method_has_retryable_body :: "(string \<Rightarrow> string) \<Rightarrow> string \<Rightarrow> bool" where
  "method_has_retryable_body uni meth \<longleftrightarrow> to_upper uni meth \<in> {''POST'', ''PUT'', ''PATCH'', ''DELETE''}"

record backend_response =
  rs_Status :: int
  rs_Header :: header
  rs_TransferEncoding :: "string list"
  rs_Body :: string

text \<open>\<^verbatim>\<open>strings.EqualFold\<close> with a lower-case ASCII word.\<close>

definition equal_fold :: "(string \<Rightarrow> string) \<Rightarrow> string \<Rightarrow> string \<Rightarrow> bool" where
  "equal_fold uni s word \<longleftrightarrow> to_lower uni s = word"

definition should_stream :: "(string \<Rightarrow> string) \<Rightarrow> backend_response \<Rightarrow> bool" where
  "should_stream uni resp =
     (if has_prefix (hdr_get (rs_Header resp) ''Content-Type'') ''text/event-stream'' then True
      else if list_ex (\<lambda>te. equal_fold uni te ''chunked'') (rs_TransferEncoding resp) then True
      else equal_fold uni (hdr_get (rs_Header resp) ''Transfer-Encoding'') ''chunked'')"

text \<open>The body behind a \<^verbatim>\<open>limitedBody\<close>.\<close>

definition limited_body :: "(string \<Rightarrow> string) \<Rightarrow> backend_response \<Rightarrow> backend_response" where
  "limited_body uni resp = (if should_stream uni resp then resp else resp\<lparr>rs_Body := take (nat maxResponseBytes) (rs_Body resp)\<rparr>)"

record out_request =
  or_Port :: int
  or_URLHost :: string
  or_Host :: string
  or_Method :: string
  or_Header :: header
  or_Body :: "request_body option"

datatype rt_error = BodyTooLarge | ReadBody | Cancelled | ExecFailed | UpstreamStatus int | NoBackends | BadUpgrade

record rt_env =
  re_cancelled :: "nat \<Rightarrow> bool"
  re_poll :: "nat \<Rightarrow> nat \<Rightarrow> time"
  re_fail :: "nat \<Rightarrow> time \<times> time"
  re_left :: "nat \<Rightarrow> request_body"
  re_exec :: "nat \<Rightarrow> out_request \<Rightarrow> backend_response option"

definition rt_record_failure :: "string \<Rightarrow> string \<Rightarrow> time \<times> time \<Rightarrow> tor_transport \<Rightarrow> tor_transport" where
  "rt_record_failure tenant onion ts t =
     (case tt_negCache t of
        None \<Rightarrow> t
      | Some c \<Rightarrow> if onion = [] then t else t\<lparr>tt_negCache := Some (negcache_record_failure c tenant onion (fst ts) (snd ts))\<rparr>)"

definition rt_record_success :: "string \<Rightarrow> string \<Rightarrow> tor_transport \<Rightarrow> tor_transport" where
  "rt_record_success tenant onion t =
     (case tt_negCache t of
        None \<Rightarrow> t
      | Some c \<Rightarrow> if onion = [] then t else t\<lparr>tt_negCache := Some (negcache_record_success c tenant onion)\<rparr>)"

text \<open>The filtered pool of one attempt; asking the negative cache may remove an expired entry.\<close>

fun available_from :: "int list \<Rightarrow> string \<Rightarrow> (nat \<Rightarrow> time) \<Rightarrow> nat \<Rightarrow> backend_info list \<Rightarrow> tor_transport \<Rightarrow> backend_info list \<times> tor_transport" where
  "available_from tried tenant clock j [] t = ([], t)"
| "available_from tried tenant clock j (b # bs) t =
     (if bi_Port b \<in> set tried then available_from tried tenant clock (Suc j) bs t
      else
        (case (if bi_Backend b = [] then None else tt_negCache t) of
           None \<Rightarrow> (case available_from tried tenant clock (Suc j) bs t of (as, t') \<Rightarrow> (b # as, t'))
         | Some c \<Rightarrow>
             (case is_blacklisted c tenant (bi_Backend b) (clock j) of
                (hit, c') \<Rightarrow>
                  (case available_from tried tenant clock (Suc j) bs (t\<lparr>tt_negCache := Some c'\<rparr>) of
                     (as, t') \<Rightarrow> (if hit then as else b # as, t')))))"

definition out_header :: "px_config \<Rightarrow> header \<Rightarrow> header" where
  "out_header cfg h =
     (let h1 = (if pg_ProxySecret cfg \<noteq> [] then hdr_set ''X-Proxy-Secret'' (pg_ProxySecret cfg) h else h);
          cf = hdr_get h ''CF-Connecting-IP'';
          h2 = (if cf \<noteq> [] then hdr_set ''X-Forwarded-For'' cf h1 else h1)
      in hdr_set ''X-Forwarded-Proto'' ''https'' h2)"

text \<open>
  The request of one attempt: the buffered body, when there is one, replaces the original one. Without a buffer, a later attempt sends what the earlier ones have left of the original body.
\<close>

definition out_request_of :: "rt_env \<Rightarrow> nat \<Rightarrow> px_config \<Rightarrow> http_request \<Rightarrow> request_body option \<Rightarrow> string option \<Rightarrow> backend_info \<Rightarrow> out_request" where
  "out_request_of E i cfg r body bodyBytes b =
     \<lparr>or_Port = bi_Port b, or_URLHost = bi_Backend b,
      or_Host = (case hq_Tenant r of Some t \<Rightarrow> if ts_Host t \<noteq> [] then ts_Host t else pg_Domain cfg | None \<Rightarrow> pg_Domain cfg),
      or_Method = hq_Method r, or_Header = out_header cfg (hq_Header r),
      or_Body = (case bodyBytes of Some bs \<Rightarrow> Some \<lparr>bd_bytes = bs, bd_err = False\<rparr> | None \<Rightarrow> if i = 0 then body else map_option (\<lambda>_. re_left E i) body)\<rparr>"

text \<open>The attempts, with the requests that were sent; \<open>n\<close> attempts are left, the current one is number \<open>i\<close>.\<close>

fun attempt_loop ::
  "(string \<Rightarrow> string) \<Rightarrow> rt_env \<Rightarrow> px_config \<Rightarrow> http_request \<Rightarrow> request_body option \<Rightarrow> string option \<Rightarrow> backend_info list \<Rightarrow> nat \<Rightarrow> nat \<Rightarrow> int list \<Rightarrow> rt_error option \<Rightarrow> tor_transport
     \<Rightarrow> (rt_error + backend_response) \<times> out_request list \<times> tor_transport" where
  "attempt_loop uni E cfg r body bodyBytes pool i 0 tried lastErr t = (Inl (case lastErr of Some e \<Rightarrow> e | None \<Rightarrow> NoBackends), [], t)"
| "attempt_loop uni E cfg r body bodyBytes pool i (Suc n) tried lastErr t =
     (if re_cancelled E i then (Inl Cancelled, [], t)
      else
        (let tenantKey = (case hq_Tenant r of None \<Rightarrow> [] | Some tn \<Rightarrow> ts_Host tn);
             (avail, t1) = available_from tried tenantKey (re_poll E i) 0 pool t
         in case select_tenant_backend avail (tenant_backends cfg r) of
              None \<Rightarrow> (Inl (case lastErr of Some e \<Rightarrow> e | None \<Rightarrow> NoBackends), [], t1)
            | Some b \<Rightarrow>
                (let t2 = get_transport (bi_Port b) (bi_Backend b) t1;
                     out = out_request_of E i cfg r body bodyBytes b
                 in case re_exec E i out of
                      None \<Rightarrow>
                        (case attempt_loop uni E cfg r body bodyBytes pool (Suc i) n (bi_Port b # tried) (Some ExecFailed) (rt_record_failure tenantKey (bi_Backend b) (re_fail E i) t2) of
                           (res, sent, t') \<Rightarrow> (res, out # sent, t'))
                    | Some resp \<Rightarrow>
                        if \<not> is_retryable_status (rs_Status resp) then
                          (Inr (limited_body uni resp), [out], rt_record_success tenantKey (bi_Backend b) t2)
                        else
                          (case attempt_loop uni E cfg r body bodyBytes pool (Suc i) n (bi_Port b # tried) (Some (UpstreamStatus (rs_Status resp)))
                               (rt_record_failure tenantKey (bi_Backend b) (re_fail E i) t2) of
                             (res, sent, t') \<Rightarrow> (res, out # sent, t')))))"

definition max_attempts :: "px_config \<Rightarrow> int" where
  "max_attempts cfg = (if pg_RetryAttempts cfg \<le> 0 then 3 else pg_RetryAttempts cfg)"

definition round_trip ::
  "(string \<Rightarrow> string) \<Rightarrow> rt_env \<Rightarrow> px_config \<Rightarrow> backend_info list \<Rightarrow> http_request \<Rightarrow> request_body option \<Rightarrow> tor_transport
     \<Rightarrow> (rt_error + backend_response) \<times> out_request list \<times> tor_transport" where
  "round_trip uni E cfg pool r body t =
     (case (if method_has_retryable_body uni (hq_Method r) then body else None) of
        None \<Rightarrow> attempt_loop uni E cfg r body None pool 0 (nat (max_attempts cfg)) [] None t
      | Some b \<Rightarrow>
          (case read_limited (px_maxBodyBytes + 1) b of
             None \<Rightarrow> (Inl ReadBody, [], t)
           | Some buf \<Rightarrow>
               if int (length buf) > px_maxBodyBytes then (Inl BodyTooLarge, [], t)
               else attempt_loop uni E cfg r body (Some buf) pool 0 (nat (max_attempts cfg)) [] None t))"

subsection \<open>Reverse proxy\<close>

definition inboundProxyHeaders :: "string list" where
  "inboundProxyHeaders =
     [''Forwarded'', ''X-Forwarded-For'', ''X-Forwarded-Host'', ''X-Forwarded-Proto'', ''X-Forwarded-Port'', ''X-Real-IP'', ''X-Real-Port'', ''X-Original-URL'', ''X-Rewrite-URL'',
      ''X-Original-Host'', ''True-Client-IP'', ''CF-Ray'', ''CF-Visitor'', ''Fastly-Client-IP'', ''X-Client-IP'', ''X-Cluster-Client-IP'', ''Via'', ''X-Proxy-Secret'']"

definition strip_inbound_proxy_headers :: "bool \<Rightarrow> header \<Rightarrow> header" where
  "strip_inbound_proxy_headers cfEnabled h =
     (let h1 = fold hdr_del inboundProxyHeaders h in if \<not> cfEnabled then hdr_del ''CF-Connecting-IP'' h1 else h1)"

text \<open>What \<^verbatim>\<open>httputil.ReverseProxy\<close> does to the headers after its \<^verbatim>\<open>Director\<close>: hop-by-hop headers go, upgrades and trailers are put back, the peer address is appended, a missing user agent stays missing.\<close>

definition rp_hop_headers :: "string list" where
  "rp_hop_headers =
     [''Connection'', ''Proxy-Connection'', ''Keep-Alive'', ''Proxy-Authenticate'', ''Proxy-Authorization'', ''Te'', ''Trailer'', ''Transfer-Encoding'', ''Upgrade'']"

definition trim_ascii :: "string \<Rightarrow> string" where
  "trim_ascii s = (let sp = (\<lambda>c. c \<in> {CHR 0x20, CHR 0x09, CHR 0x0A, CHR 0x0D}) in rev (dropWhile sp (rev (dropWhile sp s))))"

definition header_tokens :: "string list \<Rightarrow> string list" where
  "header_tokens vs = filter (\<lambda>t. t \<noteq> []) (map trim_ascii (concat (map (split_on CHR '','') vs)))"

definition has_token :: "string list \<Rightarrow> string \<Rightarrow> bool" where
  "has_token vs tok = list_ex (\<lambda>t. map ascii_lower t = tok) (header_tokens vs)"

definition remove_hop_by_hop :: "header \<Rightarrow> header" where
  "remove_hop_by_hop h = fold hdr_del rp_hop_headers (fold hdr_del (header_tokens (hdr_values h ''Connection'')) h)"

definition join_values :: "string list \<Rightarrow> string" where
  "join_values vs = concat (map (\<lambda>v. v @ '', '') vs)"

definition upgrade_type :: "header \<Rightarrow> string" where
  "upgrade_type h = (if has_token (hdr_values h ''Connection'') ''upgrade'' then hdr_get h ''Upgrade'' else [])"

definition reverse_proxy_header :: "bool \<Rightarrow> http_request \<Rightarrow> header" where
  "reverse_proxy_header cfEnabled r =
     (let h0 = strip_inbound_proxy_headers cfEnabled (hq_Header r);
          up = upgrade_type h0;
          h1 = remove_hop_by_hop h0;
          h2 = (if has_token (hdr_values (hq_Header r) ''Te'') ''trailers'' then hdr_set ''Te'' ''trailers'' h1 else h1);
          h3 = (if up \<noteq> [] then hdr_set ''Upgrade'' up (hdr_set ''Connection'' ''Upgrade'' h2) else h2);
          h4 = (case split_host_port (hq_RemoteAddr r) of
                  None \<Rightarrow> h3
                | Some ip \<Rightarrow> hdr_set ''X-Forwarded-For'' (join_values (hdr_values h3 ''X-Forwarded-For'') @ ip) h3)
      in if map_of h4 ''User-Agent'' = None then hdr_set ''User-Agent'' [] h4 else h4)"

definition rp_error_status :: "rt_error \<Rightarrow> int" where
  "rp_error_status e = (if e = BodyTooLarge then 413 else 502)"

definition modify_response :: "backend_response \<Rightarrow> backend_response" where
  "modify_response resp = resp\<lparr>rs_Header := fold hdr_del [''Server'', ''X-Powered-By'', ''Via'', ''Content-Security-Policy''] (rs_Header resp)\<rparr>"

definition max_body_middleware :: "int \<Rightarrow> request_body option \<Rightarrow> request_body option" where
  "max_body_middleware n body =
     map_option (\<lambda>b. if int (length (bd_bytes b)) > n then \<lparr>bd_bytes = take (nat n) (bd_bytes b), bd_err = True\<rparr> else b) body"

text \<open>
  The innermost handler, behind the body limit: the status the client gets, what it gets from the backend, and what was sent. \<^verbatim>\<open>ReverseProxy\<close> hands a request to switch to a protocol whose name is not printable ASCII
  to the error handler before it tries anything.
\<close>

definition ascii_print :: "string \<Rightarrow> bool" where
  "ascii_print s = list_all (\<lambda>c. CHR '' '' \<le> c \<and> c \<le> CHR ''~'') s"

definition proxy_forward ::
  "(string \<Rightarrow> string) \<Rightarrow> rt_env \<Rightarrow> px_config \<Rightarrow> bool \<Rightarrow> backend_info list \<Rightarrow> http_request \<Rightarrow> request_body option \<Rightarrow> tor_transport
     \<Rightarrow> (int + backend_response) \<times> out_request list \<times> tor_transport" where
  "proxy_forward uni E cfg cfEnabled pool r body t =
     (if \<not> ascii_print (upgrade_type (strip_inbound_proxy_headers cfEnabled (hq_Header r))) then (Inl (rp_error_status BadUpgrade), [], t)
      else
        (case round_trip uni E cfg pool (r\<lparr>hq_Header := reverse_proxy_header cfEnabled r\<rparr>) (max_body_middleware px_maxBodyBytes body) t of
           (Inl e, sent, t') \<Rightarrow> (Inl (rp_error_status e), sent, t')
         | (Inr resp, sent, t') \<Rightarrow> (Inr (modify_response resp), sent, t')))"

subsection \<open>Which backends are tried\<close>

lemma proxy_forward_sent:
  "fst (snd (proxy_forward uni E cfg cfEnabled pool r body t)) = []
   \<or> fst (snd (proxy_forward uni E cfg cfEnabled pool r body t))
       = fst (snd (round_trip uni E cfg pool (r\<lparr>hq_Header := reverse_proxy_header cfEnabled r\<rparr>) (max_body_middleware px_maxBodyBytes body) t))"
  by (auto simp: proxy_forward_def split: prod.splits sum.splits)

lemma available_from_subset:
  "available_from tried tenant clock j pool t = (avail, t') \<Longrightarrow> set avail \<subseteq> {b \<in> set pool. bi_Port b \<notin> set tried}"
  by (induction tried tenant clock j pool t arbitrary: avail t' rule: available_from.induct)
    (fastforce split: if_splits option.splits prod.splits)+

lemma select_tenant_backend_Some: "select_tenant_backend pool bs = Some b \<Longrightarrow> b \<in> set pool \<and> bi_Alive b"
  by (auto simp: select_tenant_backend_def select_backend_def split: if_splits option.splits dest!: pick_best_from_spec)

definition tried_ok :: "backend_info list \<Rightarrow> int list \<Rightarrow> out_request list \<Rightarrow> bool" where
  "tried_ok pool tried sent \<longleftrightarrow>
     distinct (map or_Port sent) \<and> set (map or_Port sent) \<inter> set tried = {}
     \<and> list_all (\<lambda>q. \<exists>b \<in> set pool. bi_Alive b \<and> or_Port q = bi_Port b \<and> or_URLHost q = bi_Backend b) sent"

lemma tried_ok_Cons:
  "tried_ok pool (bi_Port b # tried) sent \<Longrightarrow> b \<in> set pool \<Longrightarrow> bi_Alive b \<Longrightarrow> bi_Port b \<notin> set tried \<Longrightarrow> tried_ok pool tried (out_request_of E i cfg r body bytes b # sent)"
  by (auto simp: tried_ok_def out_request_of_def)

text \<open>What one turn of the loop sends: nothing, a last request, or a request after which the loop goes on.\<close>

lemma attempt_loop_step:
  assumes "attempt_loop uni E cfg r body bytes pool i (Suc n) tried lastErr t = (res, sent, t')"
  obtains "sent = []"
  | avail t1 b where "available_from tried (case hq_Tenant r of None \<Rightarrow> [] | Some tn \<Rightarrow> ts_Host tn) (re_poll E i) 0 pool t = (avail, t1)"
      "b \<in> set avail" "bi_Alive b" "sent = [out_request_of E i cfg r body bytes b]"
  | avail t1 b err res' sent' where "available_from tried (case hq_Tenant r of None \<Rightarrow> [] | Some tn \<Rightarrow> ts_Host tn) (re_poll E i) 0 pool t = (avail, t1)"
      "b \<in> set avail" "bi_Alive b" "sent = out_request_of E i cfg r body bytes b # sent'"
      "attempt_loop uni E cfg r body bytes pool (Suc i) n (bi_Port b # tried) err
         (rt_record_failure (case hq_Tenant r of None \<Rightarrow> [] | Some tn \<Rightarrow> ts_Host tn) (bi_Backend b) (re_fail E i) (get_transport (bi_Port b) (bi_Backend b) t1)) = (res', sent', t')"
proof -
  let ?tenant = "case hq_Tenant r of None \<Rightarrow> [] | Some tn \<Rightarrow> ts_Host tn"
  obtain avail t1 where av: "available_from tried ?tenant (re_poll E i) 0 pool t = (avail, t1)" by (metis surj_pair)
  show ?thesis
  proof (cases "re_cancelled E i \<or> select_tenant_backend avail (tenant_backends cfg r) = None")
    case True
    then have "sent = []" using assms av by (cases "re_cancelled E i") (auto simp: Let_def)
    then show ?thesis by (rule that(1))
  next
    case False
    then obtain b where b: "select_tenant_backend avail (tenant_backends cfg r) = Some b" and go: "\<not> re_cancelled E i" by auto
    note alive = conjunct1[OF select_tenant_backend_Some[OF b]] conjunct2[OF select_tenant_backend_Some[OF b]]
    let ?out = "out_request_of E i cfg r body bytes b"
    let ?loop = "\<lambda>err. attempt_loop uni E cfg r body bytes pool (Suc i) n (bi_Port b # tried) err
        (rt_record_failure ?tenant (bi_Backend b) (re_fail E i) (get_transport (bi_Port b) (bi_Backend b) t1))"
    note outcomes = that
    have go_on: ?thesis if "(case ?loop err of (res, sent, t') \<Rightarrow> (res, ?out # sent, t')) = (res, sent, t')" for err
      using that by (cases "?loop err") (auto intro: outcomes(3)[OF av alive])
    show ?thesis
    proof (cases "re_exec E i ?out")
      case None
      then show ?thesis using assms av b go by (intro go_on[of "Some ExecFailed"]) (simp add: Let_def)
    next
      case (Some resp)
      show ?thesis
      proof (cases "is_retryable_status (rs_Status resp)")
        case False
        then show ?thesis using assms av b go Some by (intro that(2)[OF av alive]) (simp add: Let_def)
      next
        case True
        then show ?thesis using assms av b go Some by (intro go_on[of "Some (UpstreamStatus (rs_Status resp))"]) (simp add: Let_def)
      qed
    qed
  qed
qed

lemma attempt_loop_tried:
  "attempt_loop uni E cfg r body bytes pool i n tried lastErr t = (res, sent, t') \<Longrightarrow> length sent \<le> n \<and> tried_ok pool tried sent"
proof (induction n arbitrary: i tried lastErr t res sent t')
  case (Suc n)
  from Suc.prems show ?case
  proof (cases rule: attempt_loop_step)
    case 1
    then show ?thesis by (simp add: tried_ok_def)
  next
    case (2 avail t1 b)
    then show ?thesis using available_from_subset[OF 2(1)] tried_ok_Cons[of pool b tried "[]"] by (auto simp: tried_ok_def)
  next
    case (3 avail t1 b err res' sent')
    then show ?thesis using Suc.IH[OF 3(5)] available_from_subset[OF 3(1)] tried_ok_Cons[of pool b tried sent'] by auto
  qed
qed (simp add: tried_ok_def)

text \<open>
  C24 (bounds). A request is sent at most as often as configured, each time over another Tor instance, and only to instances of the pool that are alive, for the onion address the pool has for them.
\<close>

theorem round_trip_attempts:
  "length (fst (snd (proxy_forward uni E cfg cfEnabled pool r body t))) \<le> nat (max_attempts cfg)
   \<and> tried_ok pool [] (fst (snd (proxy_forward uni E cfg cfEnabled pool r body t)))"
proof -
  have loop: "length (fst (snd (attempt_loop uni E cfg r' b bytes pool 0 (nat (max_attempts cfg)) [] None t))) \<le> nat (max_attempts cfg)
      \<and> tried_ok pool [] (fst (snd (attempt_loop uni E cfg r' b bytes pool 0 (nat (max_attempts cfg)) [] None t)))" for r' b bytes
    using attempt_loop_tried by (metis prod.collapse)
  have none: "tried_ok pool [] []" by (simp add: tried_ok_def)
  show ?thesis
    using loop none by (auto simp: proxy_forward_def round_trip_def split: prod.splits sum.splits option.splits if_splits) (metis fst_conv snd_conv)+
qed

subsection \<open>Banned backends are not tried\<close>

definition ban_until :: "string \<Rightarrow> time \<Rightarrow> tor_transport \<Rightarrow> bool" where
  "ban_until key e t \<longleftrightarrow> (\<exists>c. tt_negCache t = Some c \<and> map_of (nc_blacklist c) key = Some e)"

lemma is_blacklisted_keeps:
  assumes "map_of (nc_blacklist c) key = Some e" and "is_blacklisted c tenant onion now = (hit, c')" and "key_for tenant onion = key \<longrightarrow> now < e"
  shows "map_of (nc_blacklist c') key = Some e"
  using assms by (auto simp: is_blacklisted_def Let_def map_of_alist_del split: option.splits if_splits)

lemma available_from_ban:
  assumes "ban_until (key_for tenant onion) e t" and "\<And>j. clock j < e" and "onion \<noteq> []" and "available_from tried tenant clock j pool t = (avail, t')"
  shows "ban_until (key_for tenant onion) e t' \<and> (\<forall>b \<in> set avail. bi_Backend b \<noteq> onion)"
  using assms
proof (induction tried tenant clock j pool t arbitrary: avail t' rule: available_from.induct)
  case (2 tried tenant clock j b bs t)
  show ?case
  proof (cases "bi_Port b \<in> set tried")
    case True
    then show ?thesis using 2 by simp
  next
    case fresh: False
    obtain c where c: "tt_negCache t = Some c" "map_of (nc_blacklist c) (key_for tenant onion) = Some e" using "2.prems"(1) by (auto simp: ban_until_def)
    show ?thesis
    proof (cases "bi_Backend b = []")
      case True
      obtain as t'' where rec: "available_from tried tenant clock (Suc j) bs t = (as, t'')" by (metis surj_pair)
      have "ban_until (key_for tenant onion) e t'' \<and> (\<forall>b \<in> set as. bi_Backend b \<noteq> onion)"
        using "2.IH"(2)[OF fresh _ "2.prems"(1-3) rec] True by simp
      then show ?thesis using "2.prems"(3,4) fresh True rec by auto
    next
      case False
      obtain hit c' where bl: "is_blacklisted c tenant (bi_Backend b) (clock j) = (hit, c')" by (metis surj_pair)
      obtain as t'' where rec: "available_from tried tenant clock (Suc j) bs (t\<lparr>tt_negCache := Some c'\<rparr>) = (as, t'')" by (metis surj_pair)
      have keep: "ban_until (key_for tenant onion) e (t\<lparr>tt_negCache := Some c'\<rparr>)"
        using is_blacklisted_keeps[OF c(2) bl] "2.prems"(2) by (simp add: ban_until_def)
      have "hit" if "bi_Backend b = onion" using bl c(2) "2.prems"(2) that by (auto simp: is_blacklisted_def Let_def)
      moreover have "ban_until (key_for tenant onion) e t'' \<and> (\<forall>b \<in> set as. bi_Backend b \<noteq> onion)"
        using "2.IH"(3)[OF fresh _ bl[symmetric] keep "2.prems"(2,3) rec] False c(1) by simp
      ultimately show ?thesis using "2.prems"(4) fresh False c(1) bl rec by (auto split: if_splits)
    qed
  qed
qed simp

lemma record_failure_other:
  assumes "key_for tenant onion' \<noteq> key"
  shows "map_of (nc_blacklist (negcache_record_failure c tenant onion' t1 t2)) key = map_of (nc_blacklist c) key"
proof -
  have cf: "map_of (nc_blacklist (count_failure c (key_for tenant onion') now)) key = map_of (nc_blacklist c) key" for c now
    using assms by (auto simp: count_failure_def load_or_store_counter_def Let_def map_of_alist_put split: option.splits)
  have bl: "map_of (nc_blacklist (snd (is_blacklisted c tenant onion' now))) key = map_of (nc_blacklist c) key" for now
    using assms by (auto simp: is_blacklisted_def Let_def map_of_alist_del split: option.splits)
  show ?thesis using bl[of t1] by (auto simp: negcache_record_failure_def Let_def cf split: option.splits prod.splits)
qed

lemma ban_until_step:
  assumes "ban_until (key_for tenant onion) e t" and "onion' \<noteq> onion"
  shows "ban_until (key_for tenant onion) e (rt_record_failure tenant onion' ts (get_transport p onion' t))"
  using assms record_failure_other[of tenant onion' "key_for tenant onion"]
  by (auto simp: ban_until_def rt_record_failure_def get_transport_def key_for_def)

lemma attempt_loop_ban:
  assumes "attempt_loop uni E cfg r body bytes pool i n tried lastErr t = (res, sent, t')" and "tenant = (case hq_Tenant r of None \<Rightarrow> [] | Some tn \<Rightarrow> ts_Host tn)"
    and "ban_until (key_for tenant onion) e t" and "\<And>i j. re_poll E i j < e" and "onion \<noteq> []"
  shows "list_all (\<lambda>q. or_URLHost q \<noteq> onion) sent"
  using assms(1,3)
proof (induction n arbitrary: i tried lastErr t res sent t')
  case (Suc n)
  note ban = available_from_ban[where clock = "re_poll E i" and j = 0 and tried = tried, OF Suc.prems(2) assms(4) assms(5)]
  from Suc.prems(1) show ?case
  proof (cases rule: attempt_loop_step)
    case (2 avail t1 b)
    then show ?thesis using ban assms(2) by (auto simp: out_request_of_def)
  next
    case (3 avail t1 b err res' sent')
    have "ban_until (key_for tenant onion) e t1" "bi_Backend b \<noteq> onion" using ban 3(1,2) assms(2) by auto
    then show ?thesis using Suc.IH[OF 3(5)] ban_until_step assms(2) 3(4) by (simp add: out_request_of_def)
  qed simp
qed simp

definition demo_backend :: "int \<Rightarrow> string \<Rightarrow> backend_info" where
  "demo_backend p o' = \<lparr>bi_Port = p, bi_Alive = True, bi_ActiveConns = 0, bi_LatencyMs = 0, bi_ErrorRate = 0, bi_Backend = o'\<rparr>"

definition demo_rt_env :: rt_env where
  "demo_rt_env = \<lparr>re_cancelled = (\<lambda>_. False), re_poll = (\<lambda>_ _. 0), re_fail = (\<lambda>_. (0, 0)), re_left = (\<lambda>_. \<lparr>bd_bytes = [], bd_err = False\<rparr>), re_exec = (\<lambda>_ _. None)\<rparr>"

definition demo_px_config :: px_config where
  "demo_px_config = \<lparr>pg_RetryAttempts = 2, pg_Domain = ''d'', pg_ProxySecret = ''s'', pg_Backends = []\<rparr>"

text \<open>
  C23 (safety). A backend that the negative cache bans for the tenant of a request is not tried as long as the ban lasts, however many attempts fail.
\<close>

theorem banned_backend_not_tried:
  assumes "tt_negCache t = Some c" and "map_of (nc_blacklist c) (key_for (case hq_Tenant r of None \<Rightarrow> [] | Some tn \<Rightarrow> ts_Host tn) onion) = Some e"
    and "\<And>i j. re_poll E i j < e" and "onion \<noteq> []"
  shows "list_all (\<lambda>q. or_URLHost q \<noteq> onion) (fst (snd (proxy_forward uni E cfg cfEnabled pool r body t)))"
proof -
  let ?r = "r\<lparr>hq_Header := reverse_proxy_header cfEnabled r\<rparr>"
  have ban: "ban_until (key_for (case hq_Tenant ?r of None \<Rightarrow> [] | Some tn \<Rightarrow> ts_Host tn) onion) e t" using assms(1,2) by (simp add: ban_until_def)
  have loop: "list_all (\<lambda>q. or_URLHost q \<noteq> onion) (fst (snd (attempt_loop uni E cfg ?r b bytes pool 0 n [] None t)))" for b bytes n
    using attempt_loop_ban[OF _ refl ban assms(3,4)] by (metis prod.collapse)
  have "list_all (\<lambda>q. or_URLHost q \<noteq> onion) (fst (snd (round_trip uni E cfg pool ?r (max_body_middleware px_maxBodyBytes body) t)))"
    using loop by (simp add: round_trip_def split: option.splits)
  then show ?thesis using proxy_forward_sent[of uni E cfg cfEnabled pool r body t] by auto
qed

theorem banned_backend_not_tried_witness:
  "list_all (\<lambda>q. or_URLHost q \<noteq> ''x'') (fst (snd (proxy_forward id demo_rt_env demo_px_config False [demo_backend 1 ''x'', demo_backend 2 ''y''] (plain_request ''/'') None
     (with_neg_cache (Some ((new_cache 9 1)\<lparr>nc_blacklist := [(key_for [] ''x'', 5)]\<rparr>)) new_tor_transport))))"
proof (rule banned_backend_not_tried[where e = 5])
  show "tt_negCache (with_neg_cache (Some ((new_cache 9 1)\<lparr>nc_blacklist := [(key_for [] ''x'', 5)]\<rparr>)) new_tor_transport) = Some ((new_cache 9 1)\<lparr>nc_blacklist := [(key_for [] ''x'', 5)]\<rparr>)"
    by (simp add: with_neg_cache_def)
qed (simp_all add: plain_request_def demo_rt_env_def)

subsection \<open>Headers that reach a backend\<close>

text \<open>The client address that Cloudflare reports, as far as it reaches the transport: not without the filter, and not when the client lists the header as hop-by-hop.\<close>

definition cloudflare_values :: "bool \<Rightarrow> http_request \<Rightarrow> string list" where
  "cloudflare_values cfEnabled r =
     (if cfEnabled \<and> canonical_key ''CF-Connecting-IP'' \<notin> canonical_key ` set (header_tokens (hdr_values (hq_Header r) ''Connection''))
      then hdr_values (hq_Header r) ''CF-Connecting-IP'' else [])"

definition cloudflare_ip :: "bool \<Rightarrow> http_request \<Rightarrow> string" where
  "cloudflare_ip cfEnabled r = (case cloudflare_values cfEnabled r of [] \<Rightarrow> [] | v # vs \<Rightarrow> v)"

text \<open>
  The headers that tell a backend where a request comes from or that prove that it comes from the proxy: the standard and the common forwarding headers, those of the CDNs, and the proxy's secret.
\<close>

definition origin_headers :: "string list" where
  "origin_headers =
     [''CF-Connecting-IP'', ''Forwarded'', ''Via'', ''X-Forwarded-For'', ''X-Forwarded-Host'', ''X-Forwarded-Proto'', ''X-Forwarded-Port'', ''X-Real-IP'', ''X-Real-Port'', ''X-Original-URL'',
      ''X-Rewrite-URL'', ''X-Original-Host'', ''X-Client-IP'', ''X-Cluster-Client-IP'', ''True-Client-IP'', ''CF-Ray'', ''CF-Visitor'', ''Fastly-Client-IP'', ''X-Proxy-Secret'']"

text \<open>What a backend is to get for one of them.\<close>

definition stamped :: "px_config \<Rightarrow> bool \<Rightarrow> http_request \<Rightarrow> string \<Rightarrow> string list" where
  "stamped cfg cfEnabled r n =
     (if n = ''X-Forwarded-Proto'' then [''https'']
      else if n = ''X-Proxy-Secret'' then (if pg_ProxySecret cfg = [] then [] else [pg_ProxySecret cfg])
      else if n = ''X-Forwarded-For'' then
        (if cloudflare_ip cfEnabled r \<noteq> [] then [cloudflare_ip cfEnabled r]
         else (case split_host_port (hq_RemoteAddr r) of None \<Rightarrow> [] | Some ip \<Rightarrow> [ip]))
      else if n = ''CF-Connecting-IP'' then cloudflare_values cfEnabled r
      else [])"

lemma canonical_names:
  "canonical_key ''Forwarded'' = ''Forwarded''"
  "canonical_key ''X-Forwarded-For'' = ''X-Forwarded-For''"
  "canonical_key ''X-Forwarded-Host'' = ''X-Forwarded-Host''"
  "canonical_key ''X-Forwarded-Proto'' = ''X-Forwarded-Proto''"
  "canonical_key ''X-Forwarded-Port'' = ''X-Forwarded-Port''"
  "canonical_key ''X-Real-IP'' = ''X-Real-Ip''"
  "canonical_key ''X-Real-Port'' = ''X-Real-Port''"
  "canonical_key ''X-Original-URL'' = ''X-Original-Url''"
  "canonical_key ''X-Rewrite-URL'' = ''X-Rewrite-Url''"
  "canonical_key ''X-Original-Host'' = ''X-Original-Host''"
  "canonical_key ''True-Client-IP'' = ''True-Client-Ip''"
  "canonical_key ''CF-Ray'' = ''Cf-Ray''"
  "canonical_key ''CF-Visitor'' = ''Cf-Visitor''"
  "canonical_key ''Fastly-Client-IP'' = ''Fastly-Client-Ip''"
  "canonical_key ''X-Client-IP'' = ''X-Client-Ip''"
  "canonical_key ''X-Cluster-Client-IP'' = ''X-Cluster-Client-Ip''"
  "canonical_key ''Via'' = ''Via''"
  "canonical_key ''X-Proxy-Secret'' = ''X-Proxy-Secret''"
  "canonical_key ''Te'' = ''Te''"
  "canonical_key ''Connection'' = ''Connection''"
  "canonical_key ''Upgrade'' = ''Upgrade''"
  "canonical_key ''User-Agent'' = ''User-Agent''"
  "canonical_key ''CF-Connecting-IP'' = ''Cf-Connecting-Ip''"
  "canonical_key ''Proxy-Connection'' = ''Proxy-Connection''"
  "canonical_key ''Keep-Alive'' = ''Keep-Alive''"
  "canonical_key ''Proxy-Authenticate'' = ''Proxy-Authenticate''"
  "canonical_key ''Proxy-Authorization'' = ''Proxy-Authorization''"
  "canonical_key ''Trailer'' = ''Trailer''"
  "canonical_key ''Transfer-Encoding'' = ''Transfer-Encoding''"
  by code_simp+

lemma inbound_keys:
  "list_all (\<lambda>n. canonical_key n \<notin> canonical_key ` set [''Te'', ''Connection'', ''Upgrade'', ''User-Agent'', ''CF-Connecting-IP'']) inboundProxyHeaders"
  "list_all (\<lambda>n. (canonical_key n = canonical_key ''X-Forwarded-For'' \<longleftrightarrow> n = ''X-Forwarded-For'')
     \<and> (canonical_key n = canonical_key ''X-Forwarded-Proto'' \<longleftrightarrow> n = ''X-Forwarded-Proto'') \<and> (canonical_key n = canonical_key ''X-Proxy-Secret'' \<longleftrightarrow> n = ''X-Proxy-Secret'')) inboundProxyHeaders"
  by (simp_all add: inboundProxyHeaders_def canonical_names)

lemma other_keys:
  "canonical_key ''Connection'' \<notin> canonical_key ` set (''CF-Connecting-IP'' # inboundProxyHeaders)"
  "canonical_key ''CF-Connecting-IP'' \<notin> canonical_key ` set (inboundProxyHeaders @ rp_hop_headers @ [''Te'', ''Connection'', ''Upgrade'', ''User-Agent'', ''X-Forwarded-For''])"
  by (simp_all add: inboundProxyHeaders_def rp_hop_headers_def canonical_names)

lemma strip_inbound_values:
  "hdr_values (strip_inbound_proxy_headers cf h) k =
     (if canonical_key k \<in> canonical_key ` set inboundProxyHeaders \<or> \<not> cf \<and> canonical_key k = canonical_key ''CF-Connecting-IP'' then [] else hdr_values h k)"
  by (auto simp: strip_inbound_proxy_headers_def Let_def hdr_values_dels hdr_values_del)

lemma remove_hop_values:
  "hdr_values (remove_hop_by_hop h) k =
     (if canonical_key k \<in> canonical_key ` set (rp_hop_headers @ header_tokens (hdr_values h ''Connection'')) then [] else hdr_values h k)"
  by (auto simp: remove_hop_by_hop_def hdr_values_dels)

lemma hdr_values_set_if: "hdr_values (if c then hdr_set n v h else h) k = (if c \<and> canonical_key k = canonical_key n then [v] else hdr_values h k)"
  by (simp add: hdr_values_set)

lemma reverse_proxy_values:
  assumes "canonical_key k \<notin> canonical_key ` set [''Te'', ''Connection'', ''Upgrade'', ''User-Agent'']"
  shows "hdr_values (reverse_proxy_header cf r) k =
    (let h = remove_hop_by_hop (strip_inbound_proxy_headers cf (hq_Header r)) in
     if canonical_key k = canonical_key ''X-Forwarded-For''
     then (case split_host_port (hq_RemoteAddr r) of None \<Rightarrow> hdr_values h k | Some ip \<Rightarrow> [join_values (hdr_values h ''X-Forwarded-For'') @ ip]) else hdr_values h k)"
proof -
  define h1 where "h1 = remove_hop_by_hop (strip_inbound_proxy_headers cf (hq_Header r))"
  define up where "up = upgrade_type (strip_inbound_proxy_headers cf (hq_Header r))"
  define h2 where "h2 = (if has_token (hdr_values (hq_Header r) ''Te'') ''trailers'' then hdr_set ''Te'' ''trailers'' h1 else h1)"
  define h3 where "h3 = (if up \<noteq> [] then hdr_set ''Upgrade'' up (hdr_set ''Connection'' ''Upgrade'' h2) else h2)"
  define h4 where "h4 = (case split_host_port (hq_RemoteAddr r) of None \<Rightarrow> h3 | Some ip \<Rightarrow> hdr_set ''X-Forwarded-For'' (join_values (hdr_values h3 ''X-Forwarded-For'') @ ip) h3)"
  have h: "reverse_proxy_header cf r = (if map_of h4 ''User-Agent'' = None then hdr_set ''User-Agent'' [] h4 else h4)"
    by (simp only: reverse_proxy_header_def Let_def h1_def up_def h2_def h3_def h4_def)
  have same: "hdr_values h3 k' = hdr_values h1 k'" if "canonical_key k' \<notin> canonical_key ` set [''Te'', ''Connection'', ''Upgrade'', ''User-Agent'']" for k'
    using that by (simp add: h3_def h2_def hdr_values_set)
  have xff: "canonical_key ''X-Forwarded-For'' \<notin> canonical_key ` set [''Te'', ''Connection'', ''Upgrade'', ''User-Agent'']" by (simp add: canonical_names)
  have "hdr_values (reverse_proxy_header cf r) k = hdr_values h4 k" using assms by (simp add: h hdr_values_set)
  also have "\<dots> = (if canonical_key k = canonical_key ''X-Forwarded-For''
      then (case split_host_port (hq_RemoteAddr r) of None \<Rightarrow> hdr_values h1 k | Some ip \<Rightarrow> [join_values (hdr_values h1 ''X-Forwarded-For'') @ ip]) else hdr_values h1 k)"
    using same[OF assms] same[OF xff] by (simp add: h4_def hdr_values_set split: option.split)
  finally show ?thesis by (simp only: h1_def Let_def)
qed

lemma reverse_proxy_inbound:
  assumes "n \<in> set inboundProxyHeaders"
  shows "hdr_values (reverse_proxy_header cf r) n = (if n = ''X-Forwarded-For'' then (case split_host_port (hq_RemoteAddr r) of None \<Rightarrow> [] | Some ip \<Rightarrow> [ip]) else [])"
proof -
  have "canonical_key n \<notin> canonical_key ` set [''Te'', ''Connection'', ''Upgrade'', ''User-Agent'']" "canonical_key n = canonical_key ''X-Forwarded-For'' \<longleftrightarrow> n = ''X-Forwarded-For''"
    using inbound_keys assms by (auto simp: list_all_iff)
  moreover have "hdr_values (remove_hop_by_hop (strip_inbound_proxy_headers cf (hq_Header r))) n = []"
    using assms by (simp add: remove_hop_values strip_inbound_values)
  ultimately show ?thesis by (cases "n = ''X-Forwarded-For''") (simp_all add: reverse_proxy_values join_values_def Let_def split: option.split)
qed

lemma reverse_proxy_cloudflare: "hdr_values (reverse_proxy_header cf r) ''CF-Connecting-IP'' = cloudflare_values cf r"
proof -
  have "hdr_values (strip_inbound_proxy_headers cf (hq_Header r)) ''Connection'' = hdr_values (hq_Header r) ''Connection''"
    using other_keys(1) by (simp add: strip_inbound_values)
  then show ?thesis
    using other_keys(2) by (simp add: reverse_proxy_values remove_hop_values strip_inbound_values cloudflare_values_def Let_def image_Un)
qed

lemma attempt_loop_header:
  "attempt_loop uni E cfg r body bytes pool i n tried lastErr t = (res, sent, t') \<Longrightarrow> list_all (\<lambda>q. or_Header q = out_header cfg (hq_Header r)) sent"
proof (induction n arbitrary: i tried lastErr t res sent t')
  case (Suc n)
  from Suc.prems show ?case
  proof (cases rule: attempt_loop_step)
    case (3 avail t1 b err res' sent')
    then show ?thesis using Suc.IH[OF 3(5)] by (simp add: out_request_of_def)
  qed (simp_all add: out_request_of_def)
qed simp

lemma origin_headers_inbound: "n \<in> set origin_headers \<Longrightarrow> n \<noteq> ''CF-Connecting-IP'' \<Longrightarrow> n \<in> set inboundProxyHeaders"
  by (auto simp: origin_headers_def inboundProxyHeaders_def)

lemma origin_keys:
  "list_all (\<lambda>n. (canonical_key n = canonical_key ''X-Forwarded-For'' \<longleftrightarrow> n = ''X-Forwarded-For'')
     \<and> (canonical_key n = canonical_key ''X-Forwarded-Proto'' \<longleftrightarrow> n = ''X-Forwarded-Proto'') \<and> (canonical_key n = canonical_key ''X-Proxy-Secret'' \<longleftrightarrow> n = ''X-Proxy-Secret'')) origin_headers"
  by (simp add: origin_headers_def canonical_names)

text \<open>
  C22 (safety). A backend cannot be misled by a client about the origin of a request. Of nineteen headers, the forwarding headers in common use, those of the CDNs and the proxy's secret, every request that is sent to a backend has exactly the
  values that the proxy stamps on it, whatever the client sent: the scheme, the secret when one is configured, and the address that Cloudflare or else the connection gives; the address header of Cloudflare itself
  is passed on when the Cloudflare filter is on and the client does not list it as hop-by-hop; all others are gone. Headers that are not among the nineteen, such as the client's own credentials, are not covered.
\<close>

theorem backend_headers_stamped:
  assumes "q \<in> set (fst (snd (proxy_forward uni E cfg cfEnabled pool r body t)))" and "n \<in> set origin_headers"
  shows "hdr_values (or_Header q) n = stamped cfg cfEnabled r n"
proof -
  let ?r = "r\<lparr>hq_Header := reverse_proxy_header cfEnabled r\<rparr>"
  have loop: "list_all (\<lambda>q. or_Header q = out_header cfg (hq_Header ?r)) (fst (snd (attempt_loop uni E cfg ?r b bytes pool 0 k [] None t)))" for b bytes k
    using attempt_loop_header by (metis prod.collapse)
  have "q \<in> set (fst (snd (round_trip uni E cfg pool ?r (max_body_middleware px_maxBodyBytes body) t)))"
    using assms(1) proxy_forward_sent[of uni E cfg cfEnabled pool r body t] by auto
  then have "or_Header q = out_header cfg (reverse_proxy_header cfEnabled r)"
    using loop by (auto simp: round_trip_def list_all_iff split: option.splits if_splits)
  moreover have "hdr_get (reverse_proxy_header cfEnabled r) ''CF-Connecting-IP'' = cloudflare_ip cfEnabled r"
    by (simp add: hdr_get_def reverse_proxy_cloudflare cloudflare_ip_def)
  moreover have "(canonical_key n = canonical_key ''X-Forwarded-For'' \<longleftrightarrow> n = ''X-Forwarded-For'')
     \<and> (canonical_key n = canonical_key ''X-Forwarded-Proto'' \<longleftrightarrow> n = ''X-Forwarded-Proto'') \<and> (canonical_key n = canonical_key ''X-Proxy-Secret'' \<longleftrightarrow> n = ''X-Proxy-Secret'')"
    using origin_keys assms(2) by (simp only: list_all_iff)
  moreover have "canonical_key ''X-Forwarded-For'' \<noteq> canonical_key ''X-Proxy-Secret''" "canonical_key ''X-Forwarded-For'' \<noteq> canonical_key ''X-Forwarded-Proto''"
    "canonical_key ''X-Proxy-Secret'' \<noteq> canonical_key ''X-Forwarded-Proto''" by (simp_all add: canonical_names)
  ultimately have out: "hdr_values (or_Header q) n =
      (if n = ''X-Forwarded-Proto'' then [''https''] else if n = ''X-Forwarded-For'' \<and> cloudflare_ip cfEnabled r \<noteq> [] then [cloudflare_ip cfEnabled r]
       else if n = ''X-Proxy-Secret'' \<and> pg_ProxySecret cfg \<noteq> [] then [pg_ProxySecret cfg] else hdr_values (reverse_proxy_header cfEnabled r) n)"
    by (simp add: out_header_def Let_def hdr_values_set)
  show ?thesis
  proof (cases "n = ''CF-Connecting-IP''")
    case True
    then show ?thesis using out by (simp add: stamped_def reverse_proxy_cloudflare)
  next
    case False
    then show ?thesis using out reverse_proxy_inbound[OF origin_headers_inbound[OF assms(2) False], of cfEnabled r]
      by (cases "n = ''X-Forwarded-For''"; cases "n = ''X-Proxy-Secret''") (simp_all add: stamped_def)
  qed
qed

theorem backend_headers_stamped_witness:
  "\<exists>q. q \<in> set (fst (snd (proxy_forward id demo_rt_env demo_px_config False [demo_backend 1 ''x''] ((plain_request ''/'')\<lparr>hq_Header := [(''X-Proxy-Secret'', [''guess''])]\<rparr>) None new_tor_transport)))
     \<and> hdr_values (or_Header q) ''X-Proxy-Secret'' = [''s'']"
proof -
  let ?r = "(plain_request ''/'')\<lparr>hq_Header := [(''X-Proxy-Secret'', [''guess''])]\<rparr>"
  have n: "''X-Proxy-Secret'' \<in> set origin_headers" by (simp add: origin_headers_def)
  have up: "ascii_print (upgrade_type (strip_inbound_proxy_headers False [(''X-Proxy-Secret'', [''guess''])]))" by code_simp
  have "fst (snd (proxy_forward id demo_rt_env demo_px_config False [demo_backend 1 ''x''] ?r None new_tor_transport)) \<noteq> []"
    by (simp add: up proxy_forward_def round_trip_def max_body_middleware_def max_attempts_def demo_px_config_def demo_rt_env_def new_tor_transport_def select_tenant_backend_def
        select_backend_def demo_backend_def tenant_backends_def plain_request_def numeral_2_eq_2 Let_def split: prod.splits sum.splits)
  then obtain q where q: "q \<in> set (fst (snd (proxy_forward id demo_rt_env demo_px_config False [demo_backend 1 ''x''] ?r None new_tor_transport)))" using hd_in_set by blast
  from backend_headers_stamped[OF q n] show ?thesis using q by (auto simp: stamped_def demo_px_config_def)
qed

subsection \<open>Oversized bodies\<close>

text \<open>
  C40 (error). A body above the limit of a request whose method is POST, PUT, PATCH or DELETE, in any case, is refused with 502, not with 413: the body limit in front of the proxy makes reading fail before the transport can see
  that the body is too long. Bodies of other methods are not buffered and not covered.
\<close>

theorem oversized_body_is_bad_gateway:
  assumes "int (length (bd_bytes b)) > px_maxBodyBytes" and "method_has_retryable_body uni (hq_Method r)"
  shows "fst (proxy_forward uni E cfg cfEnabled pool r (Some b) t) = Inl 502"
proof -
  have n: "0 \<le> px_maxBodyBytes" by (simp add: px_maxBodyBytes_def)
  have "read_limited (px_maxBodyBytes + 1) \<lparr>bd_bytes = take (nat px_maxBodyBytes) (bd_bytes b), bd_err = True\<rparr> = None"
    using n by (simp add: read_limited_def)
  then show ?thesis using assms by (simp add: proxy_forward_def round_trip_def max_body_middleware_def rp_error_status_def)
qed

theorem oversized_body_is_bad_gateway_witness:
  "\<exists>b. fst (proxy_forward id demo_rt_env demo_px_config False [] ((plain_request ''/'')\<lparr>hq_Method := ''POST''\<rparr>) (Some b) new_tor_transport) = Inl 502"
proof
  have "to_upper id ''POST'' = ''POST''" by code_simp
  then show "fst (proxy_forward id demo_rt_env demo_px_config False [] ((plain_request ''/'')\<lparr>hq_Method := ''POST''\<rparr>)
      (Some \<lparr>bd_bytes = replicate (nat (px_maxBodyBytes + 1)) CHR ''a'', bd_err = False\<rparr>) new_tor_transport) = Inl 502"
    by (intro oversized_body_is_bad_gateway) (simp_all add: method_has_retryable_body_def px_maxBodyBytes_def)
qed

end
