(* ===== verification/Spec2Isabelle.thy ===== *)
theory Spec2Isabelle
  imports Onion Admin Negcache Ttlblock Conncap Pool_Health Door Edge Staticcache Abuse Sanitize Geoip Roundtrip
begin

text \<open>
  Verification of the Tor2Web gateway: a multi-tenant HTTP gateway to onion services, written in Go. Three programs work together. The \<^emph>\<open>hub\<close>
  keeps tenants, nodes and the health of mirror domains on disk and publishes changes as a server-sent event stream. \<^emph>\<open>Proxies\<close> forward the requests of
  tenants through a pool of Tor processes, behind a chain of features (blocking, caching, rate limits) and a hidden admin interface. \<^emph>\<open>Doors\<close> redirect a
  visitor who knows a slug to a healthy mirror and show everybody else a cover page.

  \<^bold>\<open>What is modelled.\<close> Every theory opens with the files it translates. Sources are under \<^verbatim>\<open>src/internal/\<close>.

  \<^item> \<open>Prelude\<close>, \<open>Encoding\<close>, \<open>Float64\<close>, \<open>Httplib\<close>, \<open>Expiry\<close>: the parts of Go's standard library that the sources use (strings, base32 and base64,
    constant-time comparison, maps, 64-bit arithmetic, binary64 rounding, paths, HTTP headers) and the contract of tables whose expired entries are swept.
  \<^item> \<open>Onion\<close>: \<^verbatim>\<open>shared/onion.go\<close>, v3 onion addresses. Accepted addresses are exactly those built from a key.
  \<^item> \<open>Lockout\<close>, \<open>Session\<close>, \<open>Gate\<close>, \<open>Admin\<close>: \<^verbatim>\<open>admin/\<close>, the brute-force lockout (a sliding-window specification, refinement, invisible garbage
    collection), sessions and CSRF tokens (bounded lifetime, lookup equivalence, final logout), the secret path gate, and the request handler that
    composes them.
  \<^item> \<open>Negcache\<close>: \<^verbatim>\<open>feature/negcache\<close>, bans of failing backends; refinement of one machine per backend.
  \<^item> \<open>Registry\<close>: \<^verbatim>\<open>feature/registry.go\<close>, \<^verbatim>\<open>resolver.go\<close>, the contract every feature fulfils (locale \<open>feature_contract\<close>), chain building and validated reloads.
  \<^item> \<open>Ttlstore\<close>, \<open>Ttlblock\<close>: \<^verbatim>\<open>feature/ttlblock\<close>, temporary address blocks in a bbolt database, which is a record of operations with the laws \<open>bolt_laws\<close>.
  \<^item> \<open>Ratelimit\<close>, \<open>Conncap\<close>: \<^verbatim>\<open>feature/ratelimit\<close>, token buckets over the limiter library as a parameter, and the connection cap under every interleaving of the
    atomic accesses of requests and sweeper.
  \<^item> \<open>Staticcache\<close>: \<^verbatim>\<open>feature/staticcache\<close>, cacheability, keys, the recorder and the middleware over a Ristretto interface given by \<open>ristretto_laws\<close>.
  \<^item> \<open>Tenantrules\<close>, \<open>Blocklist\<close>, \<open>Headers\<close>, \<open>Sanitize\<close>: \<^verbatim>\<open>feature/blocklist\<close>, \<^verbatim>\<open>feature/headers\<close>, \<^verbatim>\<open>feature/sanitize\<close>, the filters whose rules are compiled per tenant. The locale \<open>compiled_feature\<close> has
    what they share: the rules applied to a request are those of the snapshot that the resolver gives it. Patterns and actions, header templates and the response writer, and the rewriting of pages over a tokenizer as a parameter.
  \<^item> \<open>Geoip\<close>: \<^verbatim>\<open>feature/geoip\<close> and its wiring in \<^verbatim>\<open>proxy/server.go\<close>, country rules and the life cycle of the database readers.
  \<^item> \<open>Abuse\<close>: \<^verbatim>\<open>feature/abuse\<close>, the endpoint for reports, its limiter (a sliding-window specification) and its log.
  \<^item> \<open>Pool\<close>, \<open>Pool_Health\<close>: \<^verbatim>\<open>torpool/\<close>, scaling, replacement and health checks of Tor processes, with the interleavings of checker, scaler and replacement
    goroutines as step relations.
  \<^item> \<open>Selector\<close>, \<open>Door\<close>: \<^verbatim>\<open>door/\<close> and \<^verbatim>\<open>config/door.go\<close>, mirror selection, slug matching, the cover page, routing, and the application of hub events.
  \<^item> \<open>Sse\<close>: the event frames, written by \<^verbatim>\<open>hub/stream.go\<close> and parsed by \<^verbatim>\<open>door/snapshot.go\<close>.
  \<^item> \<open>Broadcast\<close>: the bounded subscriber queues of the hub, those of its registries and the one of a stream connection, and the locale \<open>publisher\<close>, the contract between a registry and the replicas that follow its events.
  \<^item> \<open>Storage\<close>, \<open>Mirrors\<close>: \<^verbatim>\<open>hub/storage.go\<close>, \<^verbatim>\<open>hub/mirrors.go\<close>, \<^verbatim>\<open>hub/mirrors_monitor.go\<close>, the persisted mirror registry; it interprets \<open>publisher\<close>.
  \<^item> \<open>Gwconfig\<close>: \<^verbatim>\<open>config/config.go\<close>, \<^verbatim>\<open>config/runtime.go\<close>, defaults and validation of the configuration files, with what the gate, the lockout and the session store get from them.
  \<^item> \<open>Hubca\<close>: \<^verbatim>\<open>hub/mtls.go\<close>, \<^verbatim>\<open>hub/nodes.go\<close>, the certificate authority and the node store over the life of a hub, restarts included.
  \<^item> \<open>Tenants\<close>: \<^verbatim>\<open>hub/registry.go\<close>, the persisted tenant registry and its events; it interprets \<open>publisher\<close>.
  \<^item> \<open>Hubapi\<close>: \<^verbatim>\<open>hub/api.go\<close> and the node filter of \<^verbatim>\<open>hub/stream.go\<close>, every handler behind the certificate check.
  \<^item> \<open>Proxysnap\<close>: \<^verbatim>\<open>proxy/snapshot.go\<close>, the clients that keep a proxy's feature registry in step with the hub, locally or over the stream.
  \<^item> \<open>Edge\<close>: \<^verbatim>\<open>proxy/cloudflare.go\<close>, \<^verbatim>\<open>proxy/router.go\<close>, the address filter and the choice of the tenant, composed with hub and stream.
  \<^item> \<open>Roundtrip\<close>: \<^verbatim>\<open>proxy/transport.go\<close> and the reverse proxy of \<^verbatim>\<open>proxy/server.go\<close>, retries over the pool and the negative cache, headers and body limits.
  \<^item> This theory: the composition of hub, wire and door.

  \<^bold>\<open>How the code is represented.\<close> A struct is a record, an operation a function from the old state to its results and the new state; panics, errors and early returns
  are values. Clocks, random bytes, cancelled contexts, failing system calls and libraries outside the repository (SHA3, bbolt, YAML, JSON, Unicode tables)
  are arguments; what is needed of a library is a hypothesis of the theorem that needs it. Recursion follows the data or a measure, so that no fuel is used: every loop of the model is a total function, except the inner loop of the
  insertion sort in \<open>Staticcache\<close>, which is a \<open>while_option\<close> with a proof that it ends.

  \<^bold>\<open>Concurrency.\<close> The connection cap (\<open>Conncap\<close>), the scaling, health checks and replacements of the pool (\<open>Pool\<close>, \<open>Pool_Health\<close>) and the sweep of \<open>Ttlstore\<close> have one function per atomic access or
  critical section, and interleavings are runs of them. Elsewhere an operation is one step, as if it ran uninterrupted, although the code may release a lock or use several atomic accesses in it: the methods of the negative cache, an operation of the mirror
  or tenant registry (the change, the file and the broadcast), a request in the rate limiter (two steps, until the decision and after the handler), in the static cache and in the other features. Where such a run can be interrupted
  with a different result and this was found to matter, the parts are functions of their own and a theorem has the interleaving: the reload of the tenant files (\<open>tenants_external_change\<close> is the uninterrupted run of
  reading, \<open>external_payloads\<close> and \<open>external_swap\<close>), the delivery of a mirror snapshot to a new subscriber, and the two registry operations of a mirror check beside a manual block.

  \<^bold>\<open>What the theorems show.\<close> Each component has its functional behaviour on all branches, the invariants of its state and, where it has a contract, a refinement of it. Across
  components: a door's mirror table and a proxy's tenants are those of the hub after any history and any connection failures, a proxy serves exactly the enabled tenants assigned to its node, the stream of a node carries exactly
  what concerns its own tenants and what concerns everybody, only enrolled nodes reach the hub's API, and a backend under a ban is not tried. The theorems also record where the code does not do what it documents: extended segments pass the gate, the lockout is never fed, a
  slash in a secret locks the administrator out, a full tenant may drop a new block, a sweep may remove a renewed block or let a connection past the cap, a failed reopen or replacement is
  not retried, an empty pool stays empty, slugs are compared modulo 256 in length, the mirror registry can lose a manual block or deliver an old snapshot after a newer event, the hub accepts globals and tenants that it
  cannot load again, registration is open, an earlier certificate survives the deletion of its node, a proxy may start without tenants, a failed first download shuts out every visitor for a day, one
  range request decides what the cache serves, a request body over the limit is answered with 502, the sanitizer truncates long responses of any kind and loses the status after an informational one, which also switches the header rules off,
  a tenant that only enables a feature does not get the global parameters, the cache looks at the first of several cookie lines only, a reload of the tenant files can forget a tenant stored meanwhile, a quarantine outlives the process it was
  imposed on, a configuration with undefined thresholds or a negative maximum is loaded, and the abuse endpoint has no store.

  \<^bold>\<open>Not modelled.\<close> Sockets, TLS, process management, file watching, the outbound transports and the command line programs are input and output around these parts; the message catalogues are data; metrics and tracing only observe.
\<close>

subsection \<open>Hub and door\<close>

text \<open>
  What the system relies on from the JSON library for one event of the mirror registry: the payload that the hub encodes decodes to what was encoded, and the event that carries it goes over the wire.
\<close>

definition payload_ok :: "mirror_encoders \<Rightarrow> mirror_json \<Rightarrow> (string \<Rightarrow> string) \<Rightarrow> mirror_event \<Rightarrow> bool" where
  "payload_ok en J uni ev \<longleftrightarrow>
     (let infos = map (\<lambda>m. mirror_info_from_health uni m (me_Version ev)) (me_Mirrors ev);
          i = mirror_info_from_health uni (me_Mirror ev) (me_Version ev) in
      (me_Type ev = MirrorEventSnapshot \<longrightarrow> (\<exists>p. en_snapshot en infos (me_Version ev) = Some p \<and> um_snapshot J p = Some infos))
      \<and> (me_Type ev = MirrorEventUpsert \<longrightarrow> (\<exists>p. en_mirror en i = Some p \<and> um_mirror J p = Some i))
      \<and> (me_Type ev = MirrorEventDelete \<longrightarrow> (\<exists>p. en_delete en (me_Host ev) = Some p \<and> um_delete J p = Some (me_Host ev))))"

text \<open>A mirror table without the versions.\<close>

definition unversioned :: "(string \<rightharpoonup> mirror_info) \<Rightarrow> string \<rightharpoonup> mirror_info" where
  "unversioned t = (\<lambda>h. map_option (\<lambda>m. m\<lparr>mi_Version := 0\<rparr>) (t h))"

lemmas event_types = mirror_event_types EventMirrorSnapshot_def EventMirrorUpsert_def EventMirrorDelete_def

lemma info_unversioned: "(mirror_info_from_health uni m v)\<lparr>mi_Version := 0\<rparr> = mirror_info_from_health uni m 0"
  by (simp add: mirror_info_from_health_def)

lemma mirror_map_unversioned:
  "unversioned (mirror_map (map (\<lambda>m. mirror_info_from_health uni m v) ms))
     = map_of (map (\<lambda>m. (mh_Host m, mirror_info_from_health uni m 0)) ms)"
  by (induction ms) (auto simp: unversioned_def mirror_map_def fun_eq_iff info_unversioned mirror_info_from_health_def)

text \<open>One event: what the door makes of the translated event is what the registry's contract says.\<close>

lemma translated_event:
  assumes "payload_ok en J uni ev" and "me_Type ev \<in> {MirrorEventSnapshot, MirrorEventUpsert, MirrorEventDelete}"
    and "on_mirror_event en uni now ev = Some cev"
  shows "unversioned (event_spec J cev t) = mirror_replay uni ev (unversioned t)"
proof -
  from assms(2) consider "me_Type ev = MirrorEventSnapshot" | "me_Type ev = MirrorEventUpsert" | "me_Type ev = MirrorEventDelete" by auto
  then show ?thesis
  proof cases
    case 1
    then show ?thesis
      using assms(1,3)
      by (auto simp: payload_ok_def on_mirror_event_def new_mirror_snapshot_event_def event_spec_def decode_delta_def Let_def
          mirror_replay_def mirror_map_unversioned)
  next
    case 2
    then show ?thesis
      using assms(1,3)
      by (auto simp: payload_ok_def on_mirror_event_def new_mirror_upsert_event_def event_spec_def decode_delta_def Let_def
          mirror_replay_def event_types unversioned_def fun_eq_iff info_unversioned) (simp_all add: mirror_info_from_health_def)
  next
    case 3
    then show ?thesis
      using assms(1,3)
      by (auto simp: payload_ok_def on_mirror_event_def new_mirror_delete_event_def event_spec_def decode_delta_def Let_def
          mirror_replay_def event_types unversioned_def fun_eq_iff)
  qed
qed

definition known_type :: "mirror_event \<Rightarrow> bool" where
  "known_type ev \<longleftrightarrow> me_Type ev \<in> {MirrorEventSnapshot, MirrorEventUpsert, MirrorEventDelete}"

lemma translated_events:
  assumes "list_all (payload_ok en J uni) evs" and "list_all known_type evs" and "map (on_mirror_event en uni now) evs = map Some cevs"
  shows "unversioned (fold (event_spec J) cevs t) = fold (mirror_replay uni) evs (unversioned t)"
  using assms
proof (induction evs arbitrary: cevs t)
  case (Cons ev evs)
  then obtain cev cevs' where c: "cevs = cev # cevs'" by (cases cevs) auto
  then show ?case
    using Cons.IH[of cevs' "event_spec J cev t"] Cons.prems translated_event[of en J uni ev now cev t] by (simp add: known_type_def)
qed simp

lemma mirror_do_delta: "mirror_do E op reg = (e, evs, reg') \<Longrightarrow> list_all (\<lambda>ev. me_Type ev \<in> {MirrorEventUpsert, MirrorEventDelete}) evs"
  by (erule mirror_do_cases) (auto elim: mirror_upsert_cases mirror_delete_cases)

lemma publish_run_delta:
  "publish_run (mirror_step E) ops reg = (reg', evs) \<Longrightarrow> list_all (\<lambda>ev. me_Type ev \<in> {MirrorEventUpsert, MirrorEventDelete}) evs"
proof (induction ops arbitrary: reg evs)
  case (Cons op ops)
  obtain e evs1 reg1 where d: "mirror_do E op reg = (e, evs1, reg1)" by (cases "mirror_do E op reg")
  obtain evs2 where "publish_run (mirror_step E) ops reg1 = (reg', evs2)" "evs = evs1 @ evs2"
    using Cons.prems d by (auto simp: mirror_step_def[of E op] split: prod.splits)
  then show ?case using Cons.IH mirror_do_delta[OF d] by simp
qed simp

lemma delta_distinct:
  assumes "me_Type ev \<in> {MirrorEventUpsert, MirrorEventDelete}" and "on_mirror_event en uni now ev = Some cev"
  shows "snapshot_distinct J cev"
  using assms
  by (auto simp: on_mirror_event_def new_mirror_upsert_event_def new_mirror_delete_event_def snapshot_distinct_def decode_delta_def
      event_types split: option.splits)

lemma snapshot_hosts_distinct:
  assumes "mirrors_ok reg" and "payload_ok en J uni (snapshot_event now reg)" and "on_mirror_event en uni now' (snapshot_event now reg) = Some cev"
  shows "snapshot_distinct J cev"
proof -
  have "distinct (map mh_Host (mirror_list reg))" using mirror_list_distinct[OF assms(1)] .
  moreover have "mi_Host \<circ> (\<lambda>m. mirror_info_from_health uni m v) = mh_Host" for v
    by (simp add: mirror_info_from_health_def fun_eq_iff)
  ultimately show ?thesis
    using assms(2,3)
    by (auto simp: payload_ok_def snapshot_event_def on_mirror_event_def new_mirror_snapshot_event_def snapshot_distinct_def decode_delta_def hosts_distinct_def Let_def)
qed

lemma events_distinct:
  assumes "list_all (\<lambda>ev. me_Type ev \<in> {MirrorEventUpsert, MirrorEventDelete}) evs" and "map (on_mirror_event en uni now) evs = map Some cevs"
  shows "list_all (snapshot_distinct J) cevs"
  using assms
proof (induction evs arbitrary: cevs)
  case (Cons ev evs)
  then show ?case using delta_distinct[of ev en uni now] by (cases cevs) auto
qed simp

text \<open>The door ignores every event that is not about mirrors, and the hub sends every event that is.\<close>

lemma apply_event_mirror: "fold (apply_event J) evs sel = fold (apply_event J) (filter is_mirror_event evs) sel"
  by (induction evs arbitrary: sel) (auto simp: apply_event_def is_mirror_event_def)

lemma stream_loop_mirror: "filter is_mirror_event (stream_loop TJ U i never n xs) = filter is_mirror_event (map snd xs)"
proof (induction xs arbitrary: n)
  case (Cons x xs)
  obtain nodes ev where x: "x = (nodes, ev)" by fastforce
  show ?case
  proof (cases "is_mirror_event ev")
    case True
    then show ?thesis using Cons by (simp add: x stream_one_mirror)
  next
    case False
    then have "\<not> is_mirror_event ev'" if "stream_one TJ U i (nodes, ev) = Some ev'" for ev'
      using stream_one_type[OF that] by (simp add: is_mirror_event_def)
    then show ?thesis using Cons False by (simp add: x split: option.split)
  qed
qed simp

text \<open>
  C1 (refinement). End to end from hub to door. A door opens the config stream of a hub whose mirror registry is in a good state, and the hub runs any operations on mirrors, succeeding or failing. The
  mirror snapshot and the events pass through the subscriber queue of the registry, are encoded, pass through the queue of the connection among the events of the tenant registry, whatever these are (its snapshot comes
  first), are filtered for the node, written as frames with keepalives in between, parsed and applied by the door. If the JSON encodings are faithful and neither queue drops an event, then once everything has
  been delivered the door's mirror table is, up to versions, the hub's, whatever the door had before; so a host that the door picks is one that the hub has as live and not manually blocked. Changes of the
  files behind the registry's back are not among the operations.
\<close>

theorem door_follows_hub:
  assumes "mirrors_ok reg0" and "publish_run (mirror_step E) ops reg0 = (reg, evs)"
    and "mevs = snapshot_event now reg0 # evs" and "list_all (payload_ok en J (he_uni E)) mevs"
    and "enqueued qs = mevs" and "no_overflow qs new_sub" and "q = fold queue_step qs new_sub" and "sb_ch q = []"
    and "map (on_mirror_event en (he_uni E) now) (sb_seen q) = map Some (filter is_mirror_event (enqueued cqs))"
    and "stream_no_overflow cqs new_sub" and "c = fold stream_queue_step cqs new_sub" and "sb_ch c = []"
    and "map snd xs = sb_seen c" and "wire_events items = stream_loop TJ U i never 0 xs"
    and "list_all (wire_ok marshal unmarshal) (wire_events items)" and "hosts_distinct (sel_mirrors sel)"
    and "connect_and_consume J unmarshal never EndEOF (wire_bytes marshal items) sel = (sel', err)"
  shows "err = None \<and> unversioned (mirror_map (sel_mirrors sel')) = mirror_view (he_uni E) reg
    \<and> (\<forall>slug rnd host. fst (pick sel' slug rnd) = Some host \<longrightarrow>
         (\<exists>m. mirror_get reg host = Some m \<and> mh_Verdict m = VerdictLive \<and> \<not> mh_ManualBlock m))"
proof -
  let ?uni = "he_uni E" and ?cevs = "filter is_mirror_event (wire_events items)"
  have "?cevs = filter is_mirror_event (enqueued cqs)"
    using queues_delivered(2)[OF assms(10)] assms(11-13) by (simp add: assms(14) stream_loop_mirror)
  then have cevs: "map (on_mirror_event en ?uni now) mevs = map Some ?cevs"
    using queues_delivered(1)[OF assms(6)] assms(5,7,8,9) by simp
  have sel': "sel' = fold (apply_event J) ?cevs sel" "err = None"
    using assms(17) sse_wire_roundtrip_parts(1)[OF assms(15)] apply_event_mirror[of J "wire_events items"] by (auto simp: connect_and_consume_def)
  obtain c cs where c: "?cevs = c # cs" using cevs by (cases ?cevs) (auto simp: assms(3))
  have delta: "list_all (\<lambda>ev. me_Type ev \<in> {MirrorEventUpsert, MirrorEventDelete}) evs" by (rule publish_run_delta[OF assms(2)])
  have known: "list_all known_type mevs" using delta by (auto simp: assms(3) known_type_def snapshot_event_def list_all_iff)
  have "snapshot_distinct J c" using snapshot_hosts_distinct[OF assms(1)] assms(3,4) cevs c by auto
  moreover have "list_all (snapshot_distinct J) cs" using events_distinct[OF delta] assms(3) cevs c by auto
  ultimately have d: "list_all (snapshot_distinct J) ?cevs" by (simp add: c)
  have dist: "hosts_distinct (sel_mirrors sel')" and table: "mirror_map (sel_mirrors sel') = fold (event_spec J) ?cevs (mirror_map (sel_mirrors sel))"
    using apply_events_refine[OF assms(16) d] by (simp_all add: sel')
  have view: "unversioned (mirror_map (sel_mirrors sel')) = mirror_view ?uni reg"
    using translated_events[OF assms(4) known cevs] mirror_pub.replica_in_sync[OF assms(1,2)] by (simp add: table assms(3))
  have "\<exists>m. mirror_get reg host = Some m \<and> mh_Verdict m = VerdictLive \<and> \<not> mh_ManualBlock m" if picked: "fst (pick sel' slug rnd) = Some host" for slug rnd host
  proof -
    obtain i where i: "i \<in> set (sel_mirrors sel')" "mi_Host i = host" "eligible i slug"
      using pick_eligible_only_parts(2)[OF picked] by auto
    then have "mirror_map (sel_mirrors sel') host = Some i"
      using dist by (auto simp: mirror_map_def hosts_distinct_def o_def intro: map_of_is_SomeI)
    then have "mirror_view ?uni reg host = Some (i\<lparr>mi_Version := 0\<rparr>)" using fun_cong[OF view, of host] by (simp add: unversioned_def)
    then obtain m where m: "mirror_get reg host = Some m" "mirror_info_from_health ?uni m 0 = i\<lparr>mi_Version := 0\<rparr>"
      by (auto simp: mirror_view_def mirror_get_def)
    from arg_cong[OF m(2), of mi_Verdict] arg_cong[OF m(2), of mi_ManualBlock] m(1) i(3) show ?thesis
      by (simp add: eligible_def mirror_info_from_health_def VerdictLive_def)
  qed
  then show ?thesis using sel'(2) view by blast
qed

text \<open>A hub with an empty registry that registers one live mirror.\<close>

definition live_mirror :: mirror_health where
  "live_mirror = zero_mirror\<lparr>mh_Host := ''a'', mh_Verdict := VerdictLive, mh_Weight := 1\<rparr>"

definition live_info :: mirror_info where
  "live_info = mirror_info_from_health id live_mirror 1"

definition demo_encoders :: mirror_encoders where
  "demo_encoders = \<lparr>en_snapshot = \<lambda>_ _. Some ''s'', en_mirror = \<lambda>_. Some ''m'', en_delete = \<lambda>_. Some ''d''\<rparr>"

definition demo_json :: mirror_json where
  "demo_json = \<lparr>um_snapshot = \<lambda>_. Some [], um_mirror = \<lambda>_. Some live_info, um_delete = \<lambda>_. None\<rparr>"

definition demo_events :: "config_stream_event list" where
  "demo_events = [\<lparr>ev_Type = EventSnapshot, ev_Data = ''t'', ev_Timestamp = 0\<rparr>,
                  \<lparr>ev_Type = EventMirrorSnapshot, ev_Data = ''s'', ev_Timestamp = 0\<rparr>,
                  \<lparr>ev_Type = EventGlobalsUpdate, ev_Data = ''g'', ev_Timestamp = 0\<rparr>,
                  \<lparr>ev_Type = EventMirrorUpsert, ev_Data = ''m'', ev_Timestamp = 0\<rparr>]"

definition demo_unmarshal :: "string \<Rightarrow> config_stream_event option" where
  "demo_unmarshal s = find (\<lambda>ev. ev_Type ev = s) demo_events"

definition deliver_each :: "'e list \<Rightarrow> 'e queue_op list" where
  "deliver_each es = concat (map (\<lambda>e. [QEnq e, QDrain]) es)"

lemmas demo_queue_simps =
  deliver_each_def new_sub_def enqueue_def enqueue_loop_room drain_def on_event_def subBuffer_def streamBuffer_def

theorem door_follows_hub_witness:
  "case connect_and_consume demo_json demo_unmarshal never EndEOF
       (wire_bytes (\<lambda>ev. Some (ev_Type ev)) (Keepalive # map Frame demo_events)) new_selector of (sel', err) \<Rightarrow>
     err = None \<and> unversioned (mirror_map (sel_mirrors sel')) = [''a'' \<mapsto> live_info\<lparr>mi_Version := 0\<rparr>]"
proof -
  let ?op = "OpUpsert True False 0 live_mirror" and ?items = "Keepalive # map Frame demo_events" and ?marshal = "\<lambda>ev. Some (ev_Type ev)"
  have wd: "with_defaults live_mirror = live_mirror" by (simp add: with_defaults_def live_mirror_def VerdictLive_def Let_def)
  have host: "mh_Host live_mirror = ''a''" by (simp add: live_mirror_def)
  let ?ev = "\<lparr>me_Type = MirrorEventUpsert, me_Mirrors = [], me_Mirror = live_mirror, me_Host = ''a'', me_Timestamp = 0, me_Version = 1\<rparr>"
  let ?mevs = "[snapshot_event 0 empty_registry, ?ev]"
  obtain d where up: "mirror_upsert demo_env True False 0 live_mirror empty_registry
      = (None, [?ev], \<lparr>mr_mirrors = [(''a'', live_mirror)], mr_version = 1, mr_dir = d\<rparr>)"
    by (simp add: mirror_upsert_def wd host write_mirror_def demo_env_def atomic_write_def empty_registry_def Let_def)
  let ?reg = "\<lparr>mr_mirrors = [(''a'', live_mirror)], mr_version = 1, mr_dir = d\<rparr>"
  have run: "publish_run (mirror_step demo_env) [?op] empty_registry = (?reg, [?ev])" by (simp add: mirror_step_def up)
  have uni: "he_uni demo_env = id" by (simp add: demo_env_def)
  have pay: "list_all (payload_ok demo_encoders demo_json (he_uni demo_env)) ?mevs"
    by (simp add: uni payload_ok_def demo_encoders_def demo_json_def snapshot_event_def mirror_list_def empty_registry_def event_types live_info_def)
  have q: "enqueued (deliver_each ?mevs) = ?mevs" "no_overflow (deliver_each ?mevs) new_sub" "sb_ch (fold queue_step (deliver_each ?mevs) new_sub) = []"
    by (simp_all add: demo_queue_simps)
  have cq: "stream_no_overflow (deliver_each demo_events) new_sub" "sb_ch (fold stream_queue_step (deliver_each demo_events) new_sub) = []"
    "enqueued (deliver_each demo_events) = demo_events"
    by (simp_all add: demo_queue_simps demo_events_def)
  note seen = queues_delivered(1)[OF q(2,3)] queues_delivered(2)[OF cq(1,2)]
  have tr: "map (on_mirror_event demo_encoders (he_uni demo_env) 0) (sb_seen (fold queue_step (deliver_each ?mevs) new_sub))
      = map Some (filter is_mirror_event (enqueued (deliver_each demo_events)))"
    unfolding seen q(1) cq(3)
    by (simp add: uni demo_events_def is_mirror_event_def on_mirror_event_def snapshot_event_def new_mirror_snapshot_event_def new_mirror_upsert_event_def demo_encoders_def
        event_types stream_event_types)
  have we: "wire_events ?items = demo_events" by (simp add: wire_events_def demo_events_def)
  have xs: "map snd (map (Pair None) demo_events) = sb_seen (fold stream_queue_step (deliver_each demo_events) new_sub)"
    unfolding seen cq(3) by (simp add: demo_events_def)
  have sent: "wire_events ?items = stream_loop demo_tenant_encoders demo_tenant_decoders ''n'' never 0 (map (Pair None) demo_events)"
    unfolding we by (simp add: demo_events_def stream_one_def stream_allow_def filter_snapshot_def)
  have wire: "list_all (wire_ok ?marshal demo_unmarshal) (wire_events ?items)"
    unfolding we by (simp add: demo_events_def wire_ok_def demo_unmarshal_def event_types stream_event_types)
  obtain sel' err where c: "connect_and_consume demo_json demo_unmarshal never EndEOF (wire_bytes ?marshal ?items) new_selector = (sel', err)" by fastforce
  have "hosts_distinct (sel_mirrors new_selector)" by (simp add: new_selector_def hosts_distinct_def)
  from door_follows_hub[OF empty_registry_ok run refl pay q(1,2) refl q(3) tr cq(1) refl cq(2) xs sent wire this c]
  have "err = None" "unversioned (mirror_map (sel_mirrors sel')) = mirror_view id ?reg" by (simp_all add: uni)
  moreover have "mirror_view id ?reg = [''a'' \<mapsto> live_info\<lparr>mi_Version := 0\<rparr>]"
    by (auto simp: mirror_view_def live_info_def info_unversioned)
  ultimately show ?thesis unfolding c by simp
qed

end
